(* ===== verification/Prelude.thy ===== *)
theory Prelude
  imports Main "HOL-Library.Word" "HOL-Library.Monad_Syntax"
begin

text \<open>
  Shared vocabulary of the development.

  The fixed-width integers of \<^verbatim>\<open>stdint.h\<close> are words. A C array is a function from its
  index to its elements together with the bound that the accessing code has to respect. A
  function of the kernel that may leave defined behaviour (an access outside an array, a
  null dereference, a loop that does not end) returns an \<open>option\<close>, and \<open>None\<close> stands for
  that outcome. Status codes are values of the enumeration \<open>SYS_RET\<close> of
  \<^verbatim>\<open>src/kernel/include/kernel/sysdefs.h\<close>.
\<close>

unbundle bit_operations_syntax

section \<open>Machine integers and status codes\<close>

type_synonym u8 = "8 word"
type_synonym u16 = "16 word"
type_synonym u32 = "32 word"
type_synonym u64 = "64 word"

datatype SYS_RET =
    SYS_RET_NO_ERROR
  | SYS_RET_UNIDENTIFIED_ERROR
  | SYS_RET_OUT_OF_RANGE
  | SYS_RET_NO_DEVICE
  | SYS_RET_NOT_FOUND
  | SYS_RET_UNAVAILABLE
  | SYS_RET_INIT_ERROR
  | SYS_RET_NOT_IMPLEMENTED
  | SYS_RET_MEM_ALLOC_ERROR
  | SYS_RET_MALFORMED
  | SYS_RET_UNSUPPORTED

section \<open>Collections of rewrite rules\<close>

named_theorems array_simps \<open>reads of arrays after the loops that fill them\<close>
named_theorems page_simps \<open>page numbers, page offsets and their bounds\<close>

section \<open>Loops that fill an array\<close>

text \<open>
  \<open>for_update c a b g f\<close> is the loop \<^verbatim>\<open>for (i = a; i < b; i++) f[c + i] = g(i, f[c + i])\<close>;
  afterwards exactly the cells of the range hold the new values.
\<close>

definition for_update ::
  "nat \<Rightarrow> nat \<Rightarrow> nat \<Rightarrow> (nat \<Rightarrow> 'a \<Rightarrow> 'a) \<Rightarrow> (nat \<Rightarrow> 'a) \<Rightarrow> nat \<Rightarrow> 'a" where
  "for_update c a b g f = fold (\<lambda>i f. f(c + i := g i (f (c + i)))) [a..<b] f"

lemma for_update_apply [array_simps]:
  "for_update c a b g f j = (if c + a \<le> j \<and> j < c + b then g (j - c) (f j) else f j)"
proof (induction b)
  case 0
  then show ?case by (auto simp: for_update_def)
next
  case (Suc b)
  then show ?case
    unfolding for_update_def by (cases "a \<le> b") (auto simp: le_Suc_eq)
qed

text \<open>Two nested loops over the rows and the columns of a table stored row by row.\<close>

definition for_table ::
  "nat \<Rightarrow> nat \<Rightarrow> (nat \<Rightarrow> nat \<Rightarrow> 'a \<Rightarrow> 'a) \<Rightarrow> (nat \<Rightarrow> 'a) \<Rightarrow> nat \<Rightarrow> 'a" where
  "for_table n w g f = fold (\<lambda>i. for_update (i * w) 0 w (g i)) [0..<n] f"

lemma for_table_apply [array_simps]:
  assumes "0 < w"
  shows "for_table n w g f k = (if k < n * w then g (k div w) (k mod w) (f k) else f k)"
proof (induction n)
  case 0
  then show ?case by (simp add: for_table_def)
next
  case (Suc n)
  have step: "for_table (Suc n) w g f = for_update (n * w) 0 w (g n) (for_table n w g f)"
    by (simp add: for_table_def)
  show ?case
  proof (cases "n * w \<le> k \<and> k < Suc n * w")
    case True
    have "(n * w + (k - n * w)) div w = n"
      using True assms by (subst div_mult_self3) auto
    with True have "k div w = n" by simp
    then have "k mod w = k - n * w"
      by (metis minus_mult_div_eq_mod mult.commute)
    with True \<open>k div w = n\<close> Suc show ?thesis by (simp add: step for_update_apply)
  next
    case False
    with Suc show ?thesis by (auto simp: step for_update_apply)
  qed
qed

text \<open>A loop over a list whose body may leave defined behaviour.\<close>

primrec for_each :: "('a \<Rightarrow> 's \<Rightarrow> 's option) \<Rightarrow> 'a list \<Rightarrow> 's \<Rightarrow> 's option" where
  "for_each f [] s = Some s"
| "for_each f (x # xs) s = do { s1 \<leftarrow> f x s; for_each f xs s1 }"

section \<open>Bits of a word\<close>

text \<open>The mask \<^verbatim>\<open>1 << k\<close> is \<open>2 ^ k\<close>.\<close>

lemma bit_or_mask [simp]:
  "k < LENGTH('a) \<Longrightarrow> bit ((b :: 'a::len word) OR 2 ^ k) j \<longleftrightarrow> bit b j \<or> j = k"
  by (auto simp: bit_or_iff bit_exp_iff)

lemma bit_and_not_mask [simp]:
  "bit ((b :: 'a::len word) AND NOT (2 ^ k)) j \<longleftrightarrow> bit b j \<and> j \<noteq> k"
proof (cases "j < LENGTH('a)")
  case True
  then show ?thesis by (auto simp: bit_and_iff bit_not_iff bit_exp_iff)
next
  case False
  then show ?thesis by (auto dest: bit_imp_le_length)
qed

lemma and_mask_zero_iff [simp]:
  "(b :: 'a::len word) AND 2 ^ k = 0 \<longleftrightarrow> \<not> bit b k"
  by (simp add: and_exp_eq_0_iff_not_bit)

lemma u8_all_ones_iff: "(b :: u8) = 0xFF \<longleftrightarrow> (\<forall>k<8. bit b k)"
proof
  assume *: "\<forall>k<8. bit b k"
  show "b = 0xFF"
  proof (rule bit_word_eqI)
    fix k assume "k < LENGTH(8)"
    with * have "bit b k" by simp
    moreover from \<open>k < LENGTH(8)\<close> have "bit (mask 8 :: u8) k" by (simp add: bit_mask_iff)
    moreover have "(mask 8 :: u8) = 0xFF" by (simp add: mask_eq_exp_minus_1)
    ultimately show "bit b k = bit (0xFF :: u8) k" by simp
  qed
next
  assume "b = 0xFF"
  moreover have "(mask 8 :: u8) = 0xFF" by (simp add: mask_eq_exp_minus_1)
  ultimately have "b = mask 8" by simp
  then show "\<forall>k<8. bit b k" by (simp add: bit_mask_iff)
qed

text \<open>Bits of the constants that the code masks with are given by explicit rules.\<close>

declare bit_numeral_word_iff [simp del] bit_neg_numeral_word_iff [simp del]

lemma bit_u8_ones [simp]: "bit (0xFF :: u8) n \<longleftrightarrow> n < 8"
  using u8_all_ones_iff [of "0xFF"] by (auto dest: bit_imp_le_length)

section \<open>Pages\<close>

text \<open>
  A virtual or physical address is a 32-bit word; dividing by 4096 gives one of \<open>2 ^ 20\<close>
  page numbers.
\<close>

definition page_of :: "u32 \<Rightarrow> u32" where
  "page_of a = a div 4096"

lemma unat_u32_less: "unat (x :: u32) < 4294967296"
  using unsigned_less [of x] by simp

lemma unat_of_nat_u32: "n < 4294967296 \<Longrightarrow> unat (of_nat n :: u32) = n"
  by (simp add: unat_of_nat)

lemma unat_page_of [page_simps]: "unat (page_of a) = unat a div 4096"
  by (simp add: page_of_def unat_div)

lemma page_of_bound [page_simps]: "unat (page_of a) < 1048576"
proof -
  show ?thesis using unat_u32_less [of a] by (simp add: unat_page_of)
qed

lemma page_of_mult [page_simps]:
  assumes "unat p < 1048576"
  shows "page_of (p * 4096) = p"
proof -
  have "unat (p * 4096) = unat p * 4096"
    using assms by (simp add: unat_word_ariths)
  then have "unat (page_of (p * 4096)) = unat p" by (simp add: unat_page_of)
  then show ?thesis by (simp only: word_unat_eq_iff)
qed

end
