(* ===== verification/Proc.thy ===== *)
theory Proc
  imports Prelude
begin

text \<open>
  The table of processes, \<^verbatim>\<open>src/kernel/proc/proc.c\<close>. The saved processor state of an entry is never
  accessed and is left out. A function that does not return is \<open>None\<close>; an access behind the table is the
  error value \<open>BehindTable\<close>, so that the two are told apart: the search for the next free entry does not end when there is none.
\<close>

definition MAX_PROC :: u32 where "MAX_PROC = 32768"

datatype proc_error = BehindTable

record proc_info =
  exists :: bool
  proc_id :: u32
  proc_flags :: u32
  priority :: u8
  irq :: u8

record proc_state =
  processes :: "nat \<Rightarrow> proc_info"
  next_proc_id :: u32

partial_function (option) get_next_proc_id :: "(nat \<Rightarrow> proc_info) \<Rightarrow> u32 \<Rightarrow> (proc_error + u32) option" where
  "get_next_proc_id ps current =
     (if current \<ge> MAX_PROC then Some (Inl BehindTable)
      else if exists (ps (unat current)) then
        get_next_proc_id ps (if current + 1 = MAX_PROC then 0 else current + 1)
      else Some (Inr current))"

text \<open>The parameter \<^verbatim>\<open>priority\<close> is not used.\<close>

definition proc_create_process :: "u8 \<Rightarrow> proc_state \<Rightarrow> (proc_error + SYS_RET \<times> u32 \<times> proc_state) option" where
  "proc_create_process prio s =
     (let n = next_proc_id s;
          ps = (processes s)(unat n := (processes s (unat n))\<lparr>exists := True, proc_id := n, proc_flags := 0,
                priority := 0, irq := 0\<rparr>)
      in if n \<ge> MAX_PROC then Some (Inl BehindTable)
         else case get_next_proc_id ps n of
             None \<Rightarrow> None
           | Some (Inl e) \<Rightarrow> Some (Inl e)
           | Some (Inr next) \<Rightarrow> Some (Inr (SYS_RET_NO_ERROR, n, \<lparr>processes = ps, next_proc_id = next\<rparr>)))"

section \<open>The search for a free entry\<close>

lemma get_next_proc_id_here:
  "current < MAX_PROC \<Longrightarrow> \<not> exists (ps (unat current)) \<Longrightarrow> get_next_proc_id ps current = Some (Inr current)"
  by (simp add: get_next_proc_id.simps not_le)

text \<open>Started inside the table it stays there, and only ever returns a free entry.\<close>

lemma get_next_proc_id_free:
  assumes "get_next_proc_id ps current = Some r" "current < MAX_PROC"
  shows "\<exists>i. r = Inr i \<and> i < MAX_PROC \<and> \<not> exists (ps (unat i))"
proof -
  have "current < MAX_PROC \<longrightarrow> (\<exists>i. r = Inr i \<and> i < MAX_PROC \<and> \<not> exists (ps (unat i)))"
  proof (rule get_next_proc_id.raw_induct [where P = "\<lambda>ps current r.
      current < MAX_PROC \<longrightarrow> (\<exists>i. r = Inr i \<and> i < MAX_PROC \<and> \<not> exists (ps (unat i)))", OF _ assms(1)])
    fix f :: "(nat \<Rightarrow> proc_info) \<Rightarrow> u32 \<Rightarrow> (proc_error + u32) option" and ps c r
    assume IH: "\<And>ps c r. f ps c = Some r \<Longrightarrow> c < MAX_PROC \<longrightarrow> (\<exists>i. r = Inr i \<and> i < MAX_PROC \<and> \<not> exists (ps (unat i)))"
      and step: "(if c \<ge> MAX_PROC then Some (Inl BehindTable)
        else if exists (ps (unat c)) then f ps (if c + 1 = MAX_PROC then 0 else c + 1) else Some (Inr c)) = Some r"
    have "c + 1 < MAX_PROC" if "c < MAX_PROC" "c + 1 \<noteq> MAX_PROC"
      using that unat_word_ariths(1) [of c 1] by (simp add: MAX_PROC_def word_less_nat_alt word_unat_eq_iff)
    then show "c < MAX_PROC \<longrightarrow> (\<exists>i. r = Inr i \<and> i < MAX_PROC \<and> \<not> exists (ps (unat i)))"
      using IH [of ps "if c + 1 = MAX_PROC then 0 else c + 1" r] step
      by (auto simp: not_le MAX_PROC_def split: if_splits)
  qed
  with assms(2) show ?thesis by simp
qed

lemma get_next_proc_id_full:
  assumes "current < MAX_PROC" "\<forall>k<32768. exists (ps k)"
  shows "get_next_proc_id ps current = None"
proof (rule ccontr)
  assume "get_next_proc_id ps current \<noteq> None"
  then obtain r where "get_next_proc_id ps current = Some r" by blast
  from get_next_proc_id_free [OF this assms(1)] assms(2) show False by (auto simp: MAX_PROC_def word_less_nat_alt)
qed

text \<open>It returns the first free entry in the cyclic order from where it starts.\<close>

lemma get_next_proc_id_first:
  "c < 32768 \<Longrightarrow> \<forall>i<d. exists (ps ((c + i) mod 32768)) \<Longrightarrow> \<not> exists (ps ((c + d) mod 32768)) \<Longrightarrow>
   get_next_proc_id ps (of_nat c) = Some (Inr (of_nat ((c + d) mod 32768)))"
proof (induction d arbitrary: c)
  case 0
  then show ?case using get_next_proc_id_here [of "of_nat c" ps]
    by (simp add: MAX_PROC_def word_less_nat_alt unat_of_nat_u32)
next
  case (Suc d)
  let ?c = "(c + 1) mod 32768"
  have next_c: "(if of_nat c + 1 = MAX_PROC then 0 else of_nat c + 1) = (of_nat ?c :: u32)"
  proof (cases "c = 32767")
    case False
    then have "of_nat (c + 1) \<noteq> (32768 :: u32)" using Suc.prems(1) unat_of_nat_u32 [of "c + 1"]
      by (auto simp del: of_nat_add of_nat_Suc)
    with False show ?thesis using Suc.prems(1) by (simp add: MAX_PROC_def add.commute)
  qed (simp add: MAX_PROC_def)
  have shift: "(?c + i) mod 32768 = (c + Suc i) mod 32768" for i by (simp add: mod_simps)
  have "get_next_proc_id ps (of_nat ?c) = Some (Inr (of_nat ((?c + d) mod 32768)))"
    by (rule Suc.IH) (use Suc.prems shift in auto)
  moreover have "exists (ps c)" using Suc.prems(1,2) by force
  ultimately show ?case using Suc.prems(1) next_c shift [of d]
    by (subst get_next_proc_id.simps) (simp add: MAX_PROC_def word_le_nat_alt unat_of_nat_u32)
qed

section \<open>Properties\<close>

definition boot_processes :: proc_state where
  "boot_processes = \<lparr>processes = (\<lambda>_. \<lparr>exists = False, proc_id = 0, proc_flags = 0, priority = 0, irq = 0\<rparr>), next_proc_id = 0\<rparr>"

primrec create_many :: "nat \<Rightarrow> u8 \<Rightarrow> proc_state \<Rightarrow> (proc_error + u32 list \<times> proc_state) option" where
  "create_many 0 prio s = Some (Inr ([], s))"
| "create_many (Suc n) prio s =
     (case create_many n prio s of
        None \<Rightarrow> None
      | Some (Inl e) \<Rightarrow> Some (Inl e)
      | Some (Inr (ids, s1)) \<Rightarrow>
          (case proc_create_process prio s1 of
             None \<Rightarrow> None
           | Some (Inl e) \<Rightarrow> Some (Inl e)
           | Some (Inr (_, i, s2)) \<Rightarrow> Some (Inr (ids @ [i], s2))))"

definition created :: "nat \<Rightarrow> proc_state \<Rightarrow> bool" where
  "created n s \<longleftrightarrow> next_proc_id s = of_nat n \<and> (\<forall>k<32768. exists (processes s k) \<longleftrightarrow> k < n) \<and>
     (\<forall>k<n. processes s k = \<lparr>exists = True, proc_id = of_nat k, proc_flags = 0, priority = 0, irq = 0\<rparr>)"

lemma unat_small: "n < 32768 \<Longrightarrow> unat (of_nat n :: u32) = n"
  by (simp add: unat_of_nat_u32)

lemma create_next:
  assumes "created n s" "n < 32767"
  shows "\<exists>s'. proc_create_process prio s = Some (Inr (SYS_RET_NO_ERROR, of_nat n, s')) \<and> created (Suc n) s'"
proof -
  let ?p = "(processes s n)\<lparr>exists := True, proc_id := of_nat n, proc_flags := 0, priority := 0, irq := 0\<rparr>"
  let ?ps = "(processes s)(n := ?p)"
  have n: "next_proc_id s = of_nat n" "unat (of_nat n :: u32) = n"
    using assms unat_of_nat_u32 [of n] by (simp_all add: created_def)
  have lt: "\<not> MAX_PROC \<le> (of_nat n :: u32)" using n(2) assms(2) by (simp add: MAX_PROC_def word_le_nat_alt)
  have "get_next_proc_id ?ps (of_nat n) = Some (Inr (of_nat ((n + 1) mod 32768)))"
    by (rule get_next_proc_id_first) (use assms in \<open>auto simp: created_def\<close>)
  then have "proc_create_process prio s =
      Some (Inr (SYS_RET_NO_ERROR, of_nat n, \<lparr>processes = ?ps, next_proc_id = of_nat (Suc n)\<rparr>))"
    using n lt assms(2) by (simp add: proc_create_process_def Let_def)
  moreover have "created (Suc n) \<lparr>processes = ?ps, next_proc_id = of_nat (Suc n)\<rparr>"
    using assms by (auto simp: created_def less_Suc_eq)
  ultimately show ?thesis by blast
qed

lemma create_many_created:
  "n < 32768 \<Longrightarrow> \<exists>s. create_many n prio boot_processes = Some (Inr (map of_nat [0..<n], s)) \<and> created n s"
proof (induction n)
  case 0
  then show ?case by (simp add: created_def boot_processes_def)
next
  case (Suc n)
  then obtain s where s: "create_many n prio boot_processes = Some (Inr (map of_nat [0..<n], s))" "created n s" by auto
  then show ?case using create_next [OF s(2), of prio] Suc.prems by auto
qed

text \<open>
  C28: process numbers. The search for the next number, started inside the table, returns the first free entry in the
  cyclic order from where it starts, the entries from 0 on following the last one, and never returns when no entry
  is free. The first 32767 processes get the numbers from 0 on, all different, and their entries are
  marked as existing with these numbers; the creation of the next one, which fills the table, never returns. An access
  behind the table would be a result of its own and does not occur.
\<close>

theorem process_numbers:
  "(c < 32768 \<and> (\<forall>i<d. exists (ps ((c + i) mod 32768))) \<and> \<not> exists (ps ((c + d) mod 32768)) \<longrightarrow>
      get_next_proc_id ps (of_nat c) = Some (Inr (of_nat ((c + d) mod 32768)))) \<and>
   (c < 32768 \<and> (\<forall>k<32768. exists (ps k)) \<longrightarrow> get_next_proc_id ps (of_nat c) = None) \<and>
   (n < 32768 \<longrightarrow> (\<exists>s. create_many n prio boot_processes = Some (Inr (map of_nat [0..<n], s)) \<and> created n s \<and>
      distinct (map of_nat [0..<n] :: u32 list))) \<and>
   create_many 32768 prio boot_processes = None"
proof (intro conjI)
  show "c < 32768 \<and> (\<forall>i<d. exists (ps ((c + i) mod 32768))) \<and> \<not> exists (ps ((c + d) mod 32768)) \<longrightarrow>
      get_next_proc_id ps (of_nat c) = Some (Inr (of_nat ((c + d) mod 32768)))"
    using get_next_proc_id_first by blast
  show "c < 32768 \<and> (\<forall>k<32768. exists (ps k)) \<longrightarrow> get_next_proc_id ps (of_nat c) = None"
    using get_next_proc_id_full [of "of_nat c" ps] by (simp add: MAX_PROC_def word_less_nat_alt unat_of_nat_u32)
  have "inj_on (of_nat :: nat \<Rightarrow> u32) {0..<n}" if "n < 32768"
    by (rule inj_onI) (metis atLeastLessThan_iff less_trans that unat_small)
  then show "n < 32768 \<longrightarrow> (\<exists>s. create_many n prio boot_processes = Some (Inr (map of_nat [0..<n], s)) \<and> created n s \<and>
      distinct (map of_nat [0..<n] :: u32 list))"
    using create_many_created [of n prio] by (auto simp: distinct_map)
  obtain s where s: "create_many 32767 prio boot_processes = Some (Inr (map of_nat [0..<32767], s))" "created 32767 s"
    using create_many_created [of 32767 prio] by auto
  let ?ps = "(processes s)(32767 := (processes s 32767)\<lparr>exists := True, proc_id := 32767, proc_flags := 0, priority := 0, irq := 0\<rparr>)"
  have "\<forall>k<32768. exists (?ps k)" using s(2) by (auto simp: created_def less_Suc_eq)
  then have "get_next_proc_id ?ps 32767 = None" by (intro get_next_proc_id_full) (simp add: MAX_PROC_def)
  moreover have "next_proc_id s = 32767" using s(2) by (simp add: created_def)
  ultimately have "proc_create_process prio s = None" by (simp add: proc_create_process_def Let_def MAX_PROC_def)
  then have "create_many (Suc 32767) prio boot_processes = None" unfolding create_many.simps s(1) by simp
  then show "create_many 32768 prio boot_processes = None" by simp
qed

text \<open>Only entry 1 is free, and the search starts at the last entry.\<close>

theorem process_numbers_witness:
  "get_next_proc_id (\<lambda>k. \<lparr>exists = (k \<noteq> 1), proc_id = 0, proc_flags = 0, priority = 0, irq = 0\<rparr>) 32767 = Some (Inr 1) \<and>
   get_next_proc_id (\<lambda>_. \<lparr>exists = True, proc_id = 0, proc_flags = 0, priority = 0, irq = 0\<rparr>) 5 = None \<and>
   (\<exists>s. create_many 3 9 boot_processes = Some (Inr ([0, 1, 2], s)))"
proof (intro conjI)
  show "get_next_proc_id (\<lambda>k. \<lparr>exists = (k \<noteq> 1), proc_id = 0, proc_flags = 0, priority = 0, irq = 0\<rparr>) 32767 = Some (Inr 1)"
    using process_numbers [of 32767 2 "\<lambda>k. \<lparr>exists = (k \<noteq> 1), proc_id = 0, proc_flags = 0, priority = 0, irq = 0\<rparr>"]
    by (auto simp: less_2_cases_iff)
  show "get_next_proc_id (\<lambda>_. \<lparr>exists = True, proc_id = 0, proc_flags = 0, priority = 0, irq = 0\<rparr>) 5 = None"
    using process_numbers [of 5 0 "\<lambda>_. \<lparr>exists = True, proc_id = 0, proc_flags = 0, priority = 0, irq = 0\<rparr>"] by simp
  show "\<exists>s. create_many 3 9 boot_processes = Some (Inr ([0, 1, 2], s))"
    using process_numbers [of 0 0 "\<lambda>_. undefined" 3 9] by (auto simp: upt_rec)
qed

end
