(* ===== verification/CString.thy ===== *)
theory CString
  imports Prelude
begin

text \<open>
  The byte-string routines, \<^verbatim>\<open>src/kernel/libc/string/*.c\<close> with \<^verbatim>\<open>strcat\<close> and
  \<^verbatim>\<open>strchr\<close> of \<^verbatim>\<open>src/libc/string\<close>, whose other files repeat the kernel's line by line. Memory is a
  function from addresses to bytes; pointers wrap around at \<open>2 ^ 32\<close> and \<^verbatim>\<open>char\<close> is signed, as on
  i686. A scan for a terminator that is not there does not end; such loops are partial functions.
\<close>

type_synonym mem = "u32 \<Rightarrow> u8"

text \<open>Character codes.\<close>

definition chr :: "char \<Rightarrow> u8" where
  "chr c = of_nat (of_char c)"

section \<open>Numbers in memory\<close>

text \<open>Words in memory, the lowest byte first.\<close>

definition load16 :: "mem \<Rightarrow> u32 \<Rightarrow> u16" where
  "load16 m p = ucast (m p) OR push_bit 8 (ucast (m (p + 1)))"

definition load32 :: "mem \<Rightarrow> u32 \<Rightarrow> u32" where
  "load32 m p = ucast (load16 m p) OR push_bit 16 (ucast (load16 m (p + 2)))"

definition load64 :: "mem \<Rightarrow> u32 \<Rightarrow> u64" where
  "load64 m p = ucast (load32 m p) OR push_bit 32 (ucast (load32 m (p + 4)))"

definition store16 :: "u32 \<Rightarrow> u16 \<Rightarrow> mem \<Rightarrow> mem" where
  "store16 p v m = m(p := ucast v, p + 1 := ucast (drop_bit 8 v))"

definition store32 :: "u32 \<Rightarrow> u32 \<Rightarrow> mem \<Rightarrow> mem" where
  "store32 p v m = m(p := ucast v, p + 1 := ucast (drop_bit 8 v),
     p + 2 := ucast (drop_bit 16 v), p + 3 := ucast (drop_bit 24 v))"

section \<open>Routines\<close>

text \<open>The loop \<^verbatim>\<open>while(num-- != 0) *dst++ = *src++;\<close>.\<close>

primrec memcpy_loop :: "nat \<Rightarrow> u32 \<Rightarrow> u32 \<Rightarrow> mem \<Rightarrow> mem" where
  "memcpy_loop 0 dst src m = m"
| "memcpy_loop (Suc n) dst src m = memcpy_loop n (dst + 1) (src + 1) (m(dst := m src))"

definition kaos_memcpy :: "u32 \<Rightarrow> u32 \<Rightarrow> u32 \<Rightarrow> mem \<Rightarrow> u32 \<times> mem" where
  "kaos_memcpy dest source num m = (dest, memcpy_loop (unat num) dest source m)"

primrec memset_loop :: "nat \<Rightarrow> u32 \<Rightarrow> u8 \<Rightarrow> mem \<Rightarrow> mem" where
  "memset_loop 0 ref c m = m"
| "memset_loop (Suc n) ref c m = memset_loop n (ref + 1) c (m(ref := c))"

definition kaos_memset :: "u32 \<Rightarrow> u32 \<Rightarrow> u32 \<Rightarrow> mem \<Rightarrow> u32 \<times> mem" where
  "kaos_memset str c n m = (str, memset_loop (unat n) str (ucast c) m)"

partial_function (option) strlen_loop :: "mem \<Rightarrow> u32 \<Rightarrow> u32 \<Rightarrow> u32 option" where
  "strlen_loop m s count = (if m s \<noteq> 0 then strlen_loop m (s + 1) (count + 1) else Some count)"

definition kaos_strlen :: "mem \<Rightarrow> u32 \<Rightarrow> u32 option" where
  "kaos_strlen m s = strlen_loop m s 0"

text \<open>The pointer is not advanced in this loop.\<close>

primrec strnlen_loop :: "nat \<Rightarrow> mem \<Rightarrow> u32 \<Rightarrow> u32 \<Rightarrow> u32" where
  "strnlen_loop 0 m s count = count"
| "strnlen_loop (Suc n) m s count = (if m s = 0 then count else strnlen_loop n m s (count + 1))"

definition kaos_strnlen :: "mem \<Rightarrow> u32 \<Rightarrow> u32 \<Rightarrow> u32" where
  "kaos_strnlen m s n = strnlen_loop (unat n) m s 0"

partial_function (option) kaos_strcmp :: "mem \<Rightarrow> u32 \<Rightarrow> u32 \<Rightarrow> int option" where
  "kaos_strcmp m s1 s2 =
     (if m s1 \<noteq> 0 \<and> m s2 \<noteq> 0 \<and> m s1 = m s2 then kaos_strcmp m (s1 + 1) (s2 + 1)
      else Some (sint (m s1) - sint (m s2)))"

primrec strncmp_loop :: "nat \<Rightarrow> mem \<Rightarrow> u32 \<Rightarrow> u32 \<Rightarrow> int" where
  "strncmp_loop 0 m s1 s2 = 0"
| "strncmp_loop (Suc n) m s1 s2 =
     (if m s1 \<noteq> m s2 then sint (m s1) - sint (m s2)
      else if m s1 = 0 then 0
      else strncmp_loop n m (s1 + 1) (s2 + 1))"

definition kaos_strncmp :: "mem \<Rightarrow> u32 \<Rightarrow> u32 \<Rightarrow> u32 \<Rightarrow> int" where
  "kaos_strncmp m s1 s2 n = strncmp_loop (unat n) m s1 s2"

definition kaos_strcpy :: "u32 \<Rightarrow> u32 \<Rightarrow> mem \<Rightarrow> (u32 \<times> mem) option" where
  "kaos_strcpy dest source m = do {
     len \<leftarrow> kaos_strlen m source;
     let m1 = snd (kaos_memcpy dest source len m);
     Some (dest + len, m1(dest + len := 0))
   }"

definition kaos_strncpy :: "u32 \<Rightarrow> u32 \<Rightarrow> u32 \<Rightarrow> mem \<Rightarrow> u32 \<times> mem" where
  "kaos_strncpy dest source n m =
     (let len = kaos_strnlen m source n;
          m1 = snd (kaos_memcpy dest source len m);
          len1 = (if len = n then len - 1 else len)
      in (dest + len1, m1(dest + len1 := 0)))"

partial_function (option) strcat_end :: "mem \<Rightarrow> u32 \<Rightarrow> u32 option" where
  "strcat_end m ptr = (if m ptr \<noteq> 0 then strcat_end m (ptr + 1) else Some ptr)"

partial_function (option) strcat_copy :: "u32 \<Rightarrow> u32 \<Rightarrow> mem \<Rightarrow> mem option" where
  "strcat_copy ptr ptr2 m =
     (if m ptr2 \<noteq> 0 then strcat_copy (ptr + 1) (ptr2 + 1) (m(ptr := m ptr2))
      else Some (m(ptr := 0)))"

definition strcat :: "u32 \<Rightarrow> u32 \<Rightarrow> mem \<Rightarrow> (u32 \<times> mem) option" where
  "strcat dest src m = do {
     ptr \<leftarrow> strcat_end m dest;
     m' \<leftarrow> strcat_copy ptr src m;
     Some (dest, m')
   }"

text \<open>The null pointer is 0; the byte read is sign-extended before it is compared with \<^verbatim>\<open>ch\<close>.\<close>

partial_function (option) strchr :: "mem \<Rightarrow> u32 \<Rightarrow> u32 \<Rightarrow> u32 option" where
  "strchr m ptr ch =
     (if m ptr \<noteq> 0 then (if scast (m ptr) = ch then Some ptr else strchr m (ptr + 1) ch) else Some 0)"

section \<open>Address ranges\<close>

text \<open>The \<open>n\<close> bytes from \<open>d\<close> on, around the end of the address space if need be.\<close>

definition in_range :: "u32 \<Rightarrow> nat \<Rightarrow> u32 \<Rightarrow> bool" where
  "in_range d n a \<longleftrightarrow> unat (a - d) < n"

definition no_overlap :: "u32 \<Rightarrow> nat \<Rightarrow> u32 \<Rightarrow> nat \<Rightarrow> bool" where
  "no_overlap d n s k \<longleftrightarrow> (\<forall>i<k. \<not> in_range d n (s + of_nat i))"

lemma in_range_Suc: "Suc n \<le> 4294967296 \<Longrightarrow> in_range d (Suc n) a \<longleftrightarrow> a = d \<or> in_range (d + 1) n a"
proof -
  assume n: "Suc n \<le> 4294967296"
  have eq: "a - (d + 1) = (a - d) - 1" by simp
  show ?thesis
  proof (cases "a = d")
    case False
    then have "a - d \<noteq> 0" by simp
    then have "unat (a - (d + 1)) = unat (a - d) - 1" "0 < unat (a - d)"
      unfolding eq by (simp_all add: unat_minus_one unat_gt_0)
    with False show ?thesis by (auto simp: in_range_def)
  qed (simp add: in_range_def)
qed

lemma in_range_next: "Suc n \<le> 4294967296 \<Longrightarrow> \<not> in_range (d + 1) n d"
  by (simp add: in_range_def unsigned_minus_1_eq_mask mask_eq_exp_minus_1)

lemma in_range_offset: "in_range d n a \<longleftrightarrow> (\<exists>i<n. a = d + of_nat i)" if "n \<le> 4294967296"
proof
  assume "in_range d n a"
  then show "\<exists>i<n. a = d + of_nat i" by (intro exI [of _ "unat (a - d)"]) (simp add: in_range_def)
next
  assume "\<exists>i<n. a = d + of_nat i"
  with that show "in_range d n a" by (auto simp: in_range_def unat_of_nat)
qed

lemma no_overlap_step:
  assumes "no_overlap d (Suc n) s (Suc k)" "Suc n \<le> 4294967296"
  shows "no_overlap (d + 1) n (s + 1) k"
  unfolding no_overlap_def
proof (intro allI impI)
  fix i assume "i < k"
  then have "\<not> in_range d (Suc n) (s + of_nat (Suc i))" using assms(1) by (auto simp: no_overlap_def)
  then show "\<not> in_range (d + 1) n (s + 1 + of_nat i)"
    using in_range_Suc [OF assms(2)] by (simp add: add.assoc)
qed

lemma no_overlap_apart:
  assumes "unat d + n \<le> unat s \<and> unat s + k \<le> 4294967296 \<or> unat s + k \<le> unat d \<and> unat d + n \<le> 4294967296"
  shows "no_overlap d n s k"
  unfolding no_overlap_def in_range_def
proof (intro allI impI)
  fix i assume "i < k"
  with assms have i: "unat s + i < 4294967296" by auto
  then have "unat (s + of_nat i) = unat s + i" by (simp add: unat_word_ariths unat_of_nat)
  with assms \<open>i < k\<close> show "\<not> unat (s + of_nat i - d) < n" by (auto simp: unat_sub_if')
qed

section \<open>Copying and filling\<close>

lemma memcpy_loop_apply:
  assumes "n \<le> 4294967296" "no_overlap d n s n"
  shows "memcpy_loop n d s m a = (if in_range d n a then m (s + (a - d)) else m a)"
  using assms
proof (induction n arbitrary: d s m)
  case 0
  then show ?case by (simp add: in_range_def)
next
  case (Suc n)
  have IH: "memcpy_loop n (d + 1) (s + 1) m' a =
      (if in_range (d + 1) n a then m' (s + 1 + (a - (d + 1))) else m' a)" for m'
    using Suc by (intro Suc.IH no_overlap_step) auto
  have at: "s + 1 + (a - (d + 1)) = s + (a - d)" by simp
  have src: "s + (a - d) \<noteq> d" if "in_range (d + 1) n a"
  proof -
    have "in_range d (Suc n) a" using that in_range_Suc [OF Suc.prems(1)] by blast
    then obtain i where i: "i < Suc n" "a = d + of_nat i" using in_range_offset [OF Suc.prems(1)] by blast
    then have "\<not> in_range d (Suc n) (s + of_nat i)" using Suc.prems(2) by (auto simp: no_overlap_def)
    then show ?thesis using i by (auto simp: in_range_def)
  qed
  show ?case
    unfolding memcpy_loop.simps IH at
    using in_range_Suc [OF Suc.prems(1), of d a] in_range_next [OF Suc.prems(1), of d] src by auto
qed

lemma memset_loop_apply:
  assumes "n \<le> 4294967296"
  shows "memset_loop n d c m a = (if in_range d n a then c else m a)"
  using assms
proof (induction n arbitrary: d m)
  case (Suc n)
  then show ?case using in_range_Suc [OF Suc.prems, of d a] by auto
qed (simp add: in_range_def)

section \<open>Strings in memory\<close>

text \<open>At \<open>s\<close> memory holds the characters of \<open>xs\<close> and then the terminator.\<close>

fun cstring_at :: "mem \<Rightarrow> u32 \<Rightarrow> u8 list \<Rightarrow> bool" where
  "cstring_at m s [] \<longleftrightarrow> m s = 0"
| "cstring_at m s (x # xs) \<longleftrightarrow> m s = x \<and> x \<noteq> 0 \<and> cstring_at m (s + 1) xs"

lemma cstring_at_nth:
  "cstring_at m s xs \<longleftrightarrow> (\<forall>i<length xs. m (s + of_nat i) = xs ! i \<and> xs ! i \<noteq> 0) \<and> m (s + of_nat (length xs)) = 0"
proof (induction xs arbitrary: s)
  case (Cons x xs)
  have "m (s + 1 + of_nat i) = m (s + of_nat (Suc i))" for i by (simp add: add.assoc)
  with Cons show ?case by (simp add: All_less_Suc2 add.assoc)
qed simp

lemma strlen_loop_cstring:
  "cstring_at m s xs \<Longrightarrow> strlen_loop m s count = Some (count + of_nat (length xs))"
  by (induction xs arbitrary: s count) (simp_all add: strlen_loop.simps add.assoc)

lemma kaos_strlen_cstring: "cstring_at m s xs \<Longrightarrow> kaos_strlen m s = Some (of_nat (length xs))"
  by (simp add: kaos_strlen_def strlen_loop_cstring)

lemma cstring_unique: "cstring_at m s xs \<Longrightarrow> cstring_at m s ys \<Longrightarrow> xs = ys"
proof (induction xs arbitrary: s ys)
  case Nil
  then show ?case by (cases ys) auto
next
  case (Cons x xs)
  then show ?case by (cases ys) auto
qed

text \<open>The order that comparison uses: by the first difference, characters taken as signed.\<close>

fun cstring_less :: "u8 list \<Rightarrow> u8 list \<Rightarrow> bool" where
  "cstring_less [] [] = False"
| "cstring_less [] (y # ys) = (0 < sint y)"
| "cstring_less (x # xs) [] = (sint x < 0)"
| "cstring_less (x # xs) (y # ys) = (sint x < sint y \<or> x = y \<and> cstring_less xs ys)"

lemma sint_eq_0: "sint (x :: u8) = 0 \<longleftrightarrow> x = 0"
  using signed_eq_0_iff by blast

lemma kaos_strcmp_cstring:
  assumes "cstring_at m s xs" "cstring_at m t ys"
  shows "\<exists>r. kaos_strcmp m s t = Some r \<and> (r = 0 \<longleftrightarrow> xs = ys) \<and> (r < 0 \<longleftrightarrow> cstring_less xs ys)"
  using assms
proof (induction xs ys arbitrary: s t rule: cstring_less.induct)
  case (4 x xs y ys)
  show ?case
  proof (cases "x = y")
    case True
    with 4 have "kaos_strcmp m s t = kaos_strcmp m (s + 1) (t + 1)"
      by (simp add: kaos_strcmp.simps [of m s t])
    with 4 True show ?thesis by auto
  next
    case False
    then have "sint x \<noteq> sint y" using signed_word_eqI [of x y] by blast
    with 4 False show ?thesis by (auto simp: kaos_strcmp.simps [of m s t])
  qed
qed (auto simp: kaos_strcmp.simps sint_eq_0)

text \<open>Comparing at most \<open>n\<close> characters is comparing the prefixes of length \<open>n\<close>.\<close>

lemma strncmp_loop_cstring:
  assumes "cstring_at m s xs" "cstring_at m t ys"
  shows "(strncmp_loop n m s t = 0 \<longleftrightarrow> take n xs = take n ys) \<and>
     (strncmp_loop n m s t < 0 \<longleftrightarrow> cstring_less (take n xs) (take n ys))"
  using assms
proof (induction n arbitrary: s t xs ys)
  case 0
  then show ?case by simp
next
  case (Suc n)
  have inj: "sint x = sint y \<Longrightarrow> x = y" for x y :: u8 by (rule signed_word_eqI)
  show ?case
  proof (cases xs; cases ys)
    fix x xs' y ys' assume "xs = x # xs'" "ys = y # ys'"
    with Suc inj [of x y] show ?thesis by auto
  qed (use Suc.prems in \<open>auto simp: sint_eq_0\<close>)
qed


section \<open>Copying strings\<close>

text \<open>A terminated copy of the first \<open>k\<close> bytes, as the copying routines leave it.\<close>

definition terminated_copy :: "u32 \<Rightarrow> u32 \<Rightarrow> nat \<Rightarrow> mem \<Rightarrow> mem" where
  "terminated_copy d s k m =
     (\<lambda>a. if a = d + of_nat k then 0 else if in_range d k a then m (s + (a - d)) else m a)"

lemma terminated_copy_frame:
  "k < 4294967296 \<Longrightarrow> \<not> in_range d (k + 1) a \<Longrightarrow> terminated_copy d s k m a = m a"
  using in_range_offset [of "k + 1" d a] by (auto simp: terminated_copy_def in_range_def)

lemma terminated_copy_cstring:
  assumes "cstring_at m s xs" "length xs < 4294967296"
  shows "cstring_at (terminated_copy d s (length xs) m) d xs"
proof -
  have "terminated_copy d s (length xs) m (d + of_nat i) = xs ! i" if "i < length xs" for i
  proof -
    have i: "unat (of_nat i :: u32) = i" "unat (of_nat (length xs) :: u32) = length xs"
      using that assms(2) by (simp_all add: unat_of_nat_u32)
    then have "(of_nat i :: u32) \<noteq> of_nat (length xs)" using that by (metis nat_neq_iff)
    with i that assms(1) show ?thesis by (simp add: terminated_copy_def in_range_def cstring_at_nth)
  qed
  with assms(1) show ?thesis unfolding cstring_at_nth by (simp add: terminated_copy_def)
qed

lemma kaos_strcpy_eq:
  assumes "cstring_at m s xs" "length xs < 4294967296" "no_overlap d (length xs) s (length xs)"
  shows "kaos_strcpy d s m = Some (d + of_nat (length xs), terminated_copy d s (length xs) m)"
proof -
  have "unat (of_nat (length xs) :: u32) = length xs" using assms(2) by (rule unat_of_nat_u32)
  then show ?thesis
    using assms by (simp add: kaos_strcpy_def kaos_strlen_cstring [OF assms(1)] kaos_memcpy_def
        terminated_copy_def fun_eq_iff memcpy_loop_apply Let_def)
qed

lemma strcat_end_cstring: "cstring_at m s xs \<Longrightarrow> strcat_end m s = Some (s + of_nat (length xs))"
  by (induction xs arbitrary: s) (simp_all add: strcat_end.simps add.assoc)

lemma cstring_at_frame:
  assumes "cstring_at m s xs" "\<And>i. i \<le> length xs \<Longrightarrow> m' (s + of_nat i) = m (s + of_nat i)"
  shows "cstring_at m' s xs"
  using assms by (simp add: cstring_at_nth)

lemma strcat_copy_eq:
  assumes "cstring_at m s xs" "length xs < 4294967296" "no_overlap d (length xs) s (length xs + 1)"
  shows "strcat_copy d s m = Some (terminated_copy d s (length xs) m)"
  using assms
proof (induction xs arbitrary: d s m)
  case Nil
  then show ?case by (simp add: strcat_copy.simps terminated_copy_def in_range_def fun_eq_iff)
next
  case (Cons x xs)
  let ?m = "m(d := m s)"
  have same: "?m (s + of_nat i) = m (s + of_nat i)" if "i < length (x # xs) + 1" for i
    using Cons.prems(3) that by (auto simp: no_overlap_def in_range_def)
  have "cstring_at ?m (s + 1) xs"
  proof (rule cstring_at_frame)
    show "cstring_at m (s + 1) xs" using Cons.prems by simp
    show "?m (s + 1 + of_nat i) = m (s + 1 + of_nat i)" if "i \<le> length xs" for i
      using same [of "Suc i"] that by (simp add: add.assoc)
  qed
  moreover have "no_overlap (d + 1) (length xs) (s + 1) (length xs + 1)"
    using Cons.prems by (intro no_overlap_step) auto
  ultimately have "strcat_copy (d + 1) (s + 1) ?m = Some (terminated_copy (d + 1) (s + 1) (length xs) ?m)"
    using Cons.IH Cons.prems by simp
  moreover have "terminated_copy (d + 1) (s + 1) (length xs) ?m = terminated_copy d s (length (x # xs)) m"
  proof
    fix a
    have len: "Suc (length xs) \<le> 4294967296" using Cons.prems(2) by simp
    have "s + 1 + (a - (d + 1)) = s + (a - d)" "d + 1 + of_nat (length xs) = d + of_nat (length (x # xs))" by simp_all
    moreover have "?m (s + (a - d)) = m (s + (a - d))" if "in_range (d + 1) (length xs) a"
    proof -
      have "in_range d (Suc (length xs)) a" using that in_range_Suc [OF len] by blast
      then obtain i where "i < Suc (length xs)" "a = d + of_nat i" using in_range_offset [OF len] by blast
      with same [of i] show ?thesis by simp
    qed
    ultimately show "terminated_copy (d + 1) (s + 1) (length xs) ?m a = terminated_copy d s (length (x # xs)) m a"
      using in_range_Suc [OF len, of d a] in_range_next [OF len, of d] len
      by (auto simp: terminated_copy_def)
  qed
  ultimately show ?case using Cons.prems by (simp add: strcat_copy.simps [of d s])
qed

lemma cstring_at_append:
  "cstring_at m s (xs @ ys) \<longleftrightarrow>
     (\<forall>i<length xs. m (s + of_nat i) = xs ! i \<and> xs ! i \<noteq> 0) \<and> cstring_at m (s + of_nat (length xs)) ys"
proof (induction xs arbitrary: s)
  case (Cons x xs)
  have "m (s + 1 + of_nat i) = m (s + of_nat (Suc i))" for i by (simp add: add.assoc)
  with Cons show ?case by (simp add: All_less_Suc2 add.assoc)
qed simp

section \<open>Loads and stores\<close>

lemma load16_store16 [simp]: "load16 (store16 p v m) p = v"
proof (rule bit_word_eqI)
  fix n assume n: "n < LENGTH(16)"
  then show "bit (load16 (store16 p v m) p) n \<longleftrightarrow> bit v n"
    by (cases "n < 8") (auto simp: load16_def store16_def bit_or_iff bit_push_bit_iff bit_unsigned_iff bit_drop_bit_eq)
qed

lemma load32_bit:
  "bit (load32 m p) n \<longleftrightarrow> n < 32 \<and>
     (if n < 8 then bit (m p) n else if n < 16 then bit (m (p + 1)) (n - 8)
      else if n < 24 then bit (m (p + 2)) (n - 16) else bit (m (p + 3)) (n - 24))"
proof (cases "n < 32")
  case True
  have l: "bit (m a) k \<Longrightarrow> k < 8" for a k using bit_imp_le_length [of "m a" k] by simp
  consider "n < 8" | "8 \<le> n" "n < 16" | "16 \<le> n" "n < 24" | "24 \<le> n" by linarith
  then show ?thesis using True
    by cases (auto simp: load32_def load16_def bit_or_iff bit_push_bit_iff bit_unsigned_iff add.assoc dest: l)
next
  case False
  then show ?thesis using bit_imp_le_length [of "load32 m p" n] by auto
qed

lemma load32_store32 [simp]: "load32 (store32 p v m) p = v"
proof (rule bit_word_eqI)
  fix n assume n: "n < LENGTH(32)"
  have ne: "p + 1 \<noteq> p" "p + 2 \<noteq> p" "p + 3 \<noteq> p" "p + 2 \<noteq> p + 1" "p + 3 \<noteq> p + 1" "p + 3 \<noteq> p + 2" by simp_all
  have st: "store32 p v m p = ucast v" "store32 p v m (p + 1) = ucast (drop_bit 8 v)"
    "store32 p v m (p + 2) = ucast (drop_bit 16 v)" "store32 p v m (p + 3) = ucast (drop_bit 24 v)"
    using ne by (simp_all add: store32_def)
  show "bit (load32 (store32 p v m) p) n \<longleftrightarrow> bit v n"
    unfolding load32_bit st using n by (auto simp: bit_unsigned_iff bit_drop_bit_eq)
qed

lemma load16_cong: "(\<And>i. i < 2 \<Longrightarrow> m (p + of_nat i) = m' (q + of_nat i)) \<Longrightarrow> load16 m p = load16 m' q"
proof -
  assume a: "\<And>i. i < 2 \<Longrightarrow> m (p + of_nat i) = m' (q + of_nat i)"
  show ?thesis using a [of 0] a [of 1] by (simp add: load16_def)
qed

lemma load32_cong: "(\<And>i. i < 4 \<Longrightarrow> m (p + of_nat i) = m' (q + of_nat i)) \<Longrightarrow> load32 m p = load32 m' q"
proof -
  assume a: "\<And>i. i < 4 \<Longrightarrow> m (p + of_nat i) = m' (q + of_nat i)"
  show ?thesis using a [of 0] a [of 1] a [of 2] a [of 3] by (simp add: load32_def load16_def add.assoc)
qed

lemma store32_outside: "\<not> in_range p 4 a \<Longrightarrow> store32 p v m a = m a"
  by (auto simp: store32_def in_range_def)

lemma store16_outside: "\<not> in_range p 2 a \<Longrightarrow> store16 p v m a = m a"
  by (auto simp: store16_def in_range_def)

lemma load32_store32_other: "no_overlap q 4 p 4 \<Longrightarrow> load32 (store32 q v m) p = load32 m p"
  by (rule load32_cong) (auto simp: no_overlap_def intro!: store32_outside)

section \<open>Properties\<close>

text \<open>
  C14: copying a string to a place that does not overlap it leaves the same string at the
  destination, returns the address of its terminator, and changes nothing but the bytes of the copy.
\<close>

theorem strcpy_copies:
  assumes "cstring_at m s xs" "length xs < 4294967296" "no_overlap d (length xs) s (length xs)"
  shows "\<exists>m'. kaos_strcpy d s m = Some (d + of_nat (length xs), m') \<and> cstring_at m' d xs \<and>
     (\<forall>a. \<not> in_range d (length xs + 1) a \<longrightarrow> m' a = m a)"
  using kaos_strcpy_eq [OF assms] terminated_copy_cstring [OF assms(1,2)] terminated_copy_frame [OF assms(2)]
  by blast

theorem strcpy_copies_witness:
  "\<exists>m'. kaos_strcpy 0x2000 0x1000 ((\<lambda>_. 0)(0x1000 := 0x6C, 0x1001 := 0x73)) = Some (0x2002, m') \<and>
     cstring_at m' 0x2000 [0x6C, 0x73]"
  using strcpy_copies [of "(\<lambda>_. 0)(0x1000 := 0x6C, 0x1001 := 0x73)" "0x1000" "[0x6C, 0x73]" "0x2000"]
  by (auto simp: no_overlap_apart)

text \<open>
  Appending a string to another one gives their concatenation when the result does not
  overlap the appended string; nothing outside the result changes.
\<close>

theorem strcat_appends:
  assumes "cstring_at m d xs" "cstring_at m s ys" "length xs + length ys < 4294967296"
    and "no_overlap d (length xs + length ys) s (length ys + 1)"
  shows "\<exists>m'. strcat d s m = Some (d, m') \<and> cstring_at m' d (xs @ ys) \<and>
     (\<forall>a. \<not> in_range d (length xs + length ys + 1) a \<longrightarrow> m' a = m a)"
proof -
  let ?e = "d + of_nat (length xs)" and ?n = "length ys"
  let ?m = "terminated_copy ?e s ?n m"
  have sub: "in_range d (length xs + k) a" if "in_range ?e k a" "length xs + k \<le> 4294967296" for a k
  proof -
    from that obtain i where i: "i < k" "a = ?e + of_nat i" using in_range_offset [of k ?e a] by auto
    then show ?thesis unfolding in_range_offset [OF that(2)]
      by (intro exI [of _ "length xs + i"]) (simp add: add.assoc)
  qed
  have "no_overlap ?e ?n s (?n + 1)"
    using assms(3,4) sub [of ?n] unfolding no_overlap_def by fastforce
  then have copy: "strcat_copy ?e s m = Some ?m"
    using assms(2,3) by (intro strcat_copy_eq) auto
  have keep: "?m (d + of_nat i) = m (d + of_nat i)" if "i < length xs" for i
  proof (rule terminated_copy_frame)
    show "\<not> in_range ?e (?n + 1) (d + of_nat i)"
    proof
      assume "in_range ?e (?n + 1) (d + of_nat i)"
      then obtain j where j: "j < ?n + 1" "d + of_nat i = ?e + of_nat j"
        using in_range_offset [of "?n + 1" ?e] assms(3) by auto
      then have "(of_nat i :: u32) = of_nat (length xs + j)" by (simp add: add.assoc)
      then have "unat (of_nat i :: u32) = unat (of_nat (length xs + j) :: u32)" by simp
      with that j(1) assms(3) show False by (simp only: unat_of_nat_u32)
    qed
  qed (use assms(3) in simp)
  have "cstring_at ?m ?e ys" using assms(2,3) by (intro terminated_copy_cstring) auto
  then have "cstring_at ?m d (xs @ ys)"
    using assms(1) keep by (simp add: cstring_at_append cstring_at_nth [of m d])
  moreover have "?m a = m a" if "\<not> in_range d (length xs + ?n + 1) a" for a
    using that sub [of "?n + 1" a] assms(3) by (intro terminated_copy_frame) auto
  ultimately show ?thesis
    by (simp add: strcat_def strcat_end_cstring [OF assms(1)] copy)
qed

theorem strcat_appends_witness:
  "\<exists>m'. strcat 0x1000 0x2000 ((\<lambda>_. 0)(0x1000 := 0x61, 0x2000 := 0x62)) = Some (0x1000, m') \<and>
     cstring_at m' 0x1000 [0x61, 0x62]"
  using strcat_appends [of "(\<lambda>_. 0)(0x1000 := 0x61, 0x2000 := 0x62)" "0x1000" "[0x61]" "0x2000" "[0x62]"]
  by (auto simp: no_overlap_apart)

text \<open>
  C15: comparison of two strings returns 0 exactly for equal strings and is negative exactly
  when the first one comes first in the order of signed characters; comparing at most \<open>n\<close>
  characters does the same for the prefixes of length \<open>n\<close>.
\<close>

theorem strcmp_orders:
  assumes "cstring_at m s xs" "cstring_at m t ys"
  shows "(\<exists>r. kaos_strcmp m s t = Some r \<and> (r = 0 \<longleftrightarrow> xs = ys) \<and> (r < 0 \<longleftrightarrow> cstring_less xs ys)) \<and>
     (kaos_strncmp m s t n = 0 \<longleftrightarrow> take (unat n) xs = take (unat n) ys) \<and>
     (kaos_strncmp m s t n < 0 \<longleftrightarrow> cstring_less (take (unat n) xs) (take (unat n) ys))"
  using kaos_strcmp_cstring [OF assms] strncmp_loop_cstring [OF assms] by (simp add: kaos_strncmp_def)

theorem strcmp_orders_witness:
  "kaos_strncmp ((\<lambda>_. 0)(0x10 := 0x61, 0x11 := 0x62, 0x20 := 0x61, 0x21 := 0x63)) 0x10 0x20 1 = 0 \<and>
   kaos_strncmp ((\<lambda>_. 0)(0x10 := 0x61, 0x11 := 0x62, 0x20 := 0x61, 0x21 := 0x63)) 0x10 0x20 2 < 0"
  using strcmp_orders [of "(\<lambda>_. 0)(0x10 := 0x61, 0x11 := 0x62, 0x20 := 0x61, 0x21 := 0x63)"
      "0x10" "[0x61, 0x62]" "0x20" "[0x61, 0x63]" 1]
    strcmp_orders [of "(\<lambda>_. 0)(0x10 := 0x61, 0x11 := 0x62, 0x20 := 0x61, 0x21 := 0x63)"
      "0x10" "[0x61, 0x62]" "0x20" "[0x61, 0x63]" 2] by simp

text \<open>
  The bounded length never looks past the first character: it is \<open>n\<close> for every non-empty
  string, so the bounded copy always copies \<open>n\<close> bytes of memory and overwrites the last of them.
\<close>

theorem strnlen_ignores_terminator:
  assumes "m s \<noteq> 0" "no_overlap d (unat n) s (unat n)"
  shows "kaos_strnlen m s n = n \<and>
     kaos_strncpy d s n m = (d + n - 1,
       \<lambda>a. if a = d + n - 1 then 0 else if in_range d (unat n) a then m (s + (a - d)) else m a)"
proof -
  have "strnlen_loop k m s c = c + of_nat k" for k c
    using assms(1) by (induction k arbitrary: c) (simp_all add: add.assoc)
  then have len: "kaos_strnlen m s n = n" by (simp add: kaos_strnlen_def)
  moreover have "unat n \<le> 4294967296" using unat_u32_less [of n] by simp
  ultimately show ?thesis
    using memcpy_loop_apply [OF _ assms(2)]
    by (simp add: kaos_strncpy_def kaos_memcpy_def Let_def fun_eq_iff algebra_simps)
qed

theorem strnlen_ignores_terminator_witness:
  "kaos_strnlen ((\<lambda>_. 0)(0x10 := 0x61)) 0x10 8 = 8"
  using strnlen_ignores_terminator [of "(\<lambda>_. 0)(0x10 := 0x61)" "0x10" "0x100" 8]
  by (auto simp: no_overlap_apart)

end
