(* ===== verification/PortIo.thy ===== *)
theory PortIo
  imports CString
begin

text \<open>
  Port input and output, \<^verbatim>\<open>src/kernel/arch/i686/iobase.c\<close>. What a processor's \<^verbatim>\<open>in\<close> and
  \<^verbatim>\<open>out\<close> instructions do depends on the devices: the model takes a record of functions on the state \<open>'w\<close> of
  the devices as its parameter, one for each instruction.
\<close>

record 'w port_io =
  in8 :: "u16 \<Rightarrow> 'w \<Rightarrow> u8 \<times> 'w"
  out8 :: "u16 \<Rightarrow> u8 \<Rightarrow> 'w \<Rightarrow> 'w"
  in16 :: "u16 \<Rightarrow> 'w \<Rightarrow> u16 \<times> 'w"
  out16 :: "u16 \<Rightarrow> u16 \<Rightarrow> 'w \<Rightarrow> 'w"
  in32 :: "u16 \<Rightarrow> 'w \<Rightarrow> u32 \<times> 'w"
  out32 :: "u16 \<Rightarrow> u32 \<Rightarrow> 'w \<Rightarrow> 'w"

definition outb :: "'w port_io \<Rightarrow> u16 \<Rightarrow> u8 \<Rightarrow> 'w \<Rightarrow> 'w" where
  "outb io addr val w = out8 io addr val w"

definition inb :: "'w port_io \<Rightarrow> u16 \<Rightarrow> 'w \<Rightarrow> u8 \<times> 'w" where
  "inb io addr w = in8 io addr w"

definition outw :: "'w port_io \<Rightarrow> u16 \<Rightarrow> u16 \<Rightarrow> 'w \<Rightarrow> 'w" where
  "outw io addr val w = out16 io addr val w"

definition inw :: "'w port_io \<Rightarrow> u16 \<Rightarrow> 'w \<Rightarrow> u16 \<times> 'w" where
  "inw io addr w = in16 io addr w"

definition outl :: "'w port_io \<Rightarrow> u16 \<Rightarrow> u32 \<Rightarrow> 'w \<Rightarrow> 'w" where
  "outl io addr val w = out32 io addr val w"

definition inl :: "'w port_io \<Rightarrow> u16 \<Rightarrow> 'w \<Rightarrow> u32 \<times> 'w" where
  "inl io addr w = in32 io addr w"

text \<open>\<^verbatim>\<open>rep insw\<close> and \<^verbatim>\<open>rep outsw\<close>: words of two bytes, the low byte first.\<close>

primrec insw_loop :: "'w port_io \<Rightarrow> u16 \<Rightarrow> nat \<Rightarrow> u32 \<Rightarrow> mem \<Rightarrow> 'w \<Rightarrow> mem \<times> 'w" where
  "insw_loop io addr 0 dst m w = (m, w)"
| "insw_loop io addr (Suc n) dst m w =
     (let (v, w1) = in16 io addr w
      in insw_loop io addr n (dst + 2) (m(dst := ucast v, dst + 1 := ucast (drop_bit 8 v))) w1)"

definition insw :: "'w port_io \<Rightarrow> u16 \<Rightarrow> u32 \<Rightarrow> u32 \<Rightarrow> mem \<Rightarrow> 'w \<Rightarrow> mem \<times> 'w" where
  "insw io addr dst len m w = insw_loop io addr (unat (len div 2)) dst m w"

primrec outsw_loop :: "'w port_io \<Rightarrow> u16 \<Rightarrow> nat \<Rightarrow> u32 \<Rightarrow> mem \<Rightarrow> 'w \<Rightarrow> 'w" where
  "outsw_loop io addr 0 src m w = w"
| "outsw_loop io addr (Suc n) src m w =
     outsw_loop io addr n (src + 2) m
       (out16 io addr (ucast (m src) OR push_bit 8 (ucast (m (src + 1)))) w)"

definition outsw :: "'w port_io \<Rightarrow> u16 \<Rightarrow> u32 \<Rightarrow> u32 \<Rightarrow> mem \<Rightarrow> 'w \<Rightarrow> 'w" where
  "outsw io addr src len m w = outsw_loop io addr (unat (len div 2)) src m w"

text \<open>\<^verbatim>\<open>rep insl\<close> and \<^verbatim>\<open>rep outsl\<close>: words of four bytes. Nothing in the kernel calls the two.\<close>

primrec insl_loop :: "'w port_io \<Rightarrow> u16 \<Rightarrow> nat \<Rightarrow> u32 \<Rightarrow> mem \<Rightarrow> 'w \<Rightarrow> mem \<times> 'w" where
  "insl_loop io addr 0 dst m w = (m, w)"
| "insl_loop io addr (Suc n) dst m w = (let (v, w1) = in32 io addr w in insl_loop io addr n (dst + 4) (store32 dst v m) w1)"

definition insl :: "'w port_io \<Rightarrow> u16 \<Rightarrow> u32 \<Rightarrow> u32 \<Rightarrow> mem \<Rightarrow> 'w \<Rightarrow> mem \<times> 'w" where
  "insl io addr dst len m w = insl_loop io addr (unat (len div 4)) dst m w"

primrec outsl_loop :: "'w port_io \<Rightarrow> u16 \<Rightarrow> nat \<Rightarrow> u32 \<Rightarrow> mem \<Rightarrow> 'w \<Rightarrow> 'w" where
  "outsl_loop io addr 0 src m w = w"
| "outsl_loop io addr (Suc n) src m w = outsl_loop io addr n (src + 4) m (out32 io addr (load32 m src) w)"

definition outsl :: "'w port_io \<Rightarrow> u16 \<Rightarrow> u32 \<Rightarrow> u32 \<Rightarrow> mem \<Rightarrow> 'w \<Rightarrow> 'w" where
  "outsl io addr src len m w = outsl_loop io addr (unat (len div 4)) src m w"

end
