(* ===== verification/Ide.thy ===== *)
theory Ide
  imports PortIo
begin

text \<open>
  Disk drives: the driver \<^verbatim>\<open>src/kernel/dev/ide.c\<close>, its port accesses
  \<^verbatim>\<open>src/kernel/arch/i686/dev/ide/ide.c\<close> and the block device \<^verbatim>\<open>src/kernel/dev/block_dev.c\<close>. A drive is
  reached through the ports only, so everything is a function of the port accesses \<open>io\<close>; a loop that waits for a
  drive that never becomes ready does not return. Messages to the console are left out.
\<close>

section \<open>Data\<close>

record ide_channel =
  cmdRegsBase :: u16
  ctrlReg :: u16
  bmide :: u16

record ide_device =
  deviceId :: u8
  deviceExists :: bool
  capacityKb :: u32
  dmaSupported :: bool
  lbaSupported :: bool
  serialNumber :: "nat \<Rightarrow> u8"
  modelNumber :: "nat \<Rightarrow> u8"
  channel :: ide_channel

record ide_ctrl =
  channels :: "nat \<Rightarrow> ide_channel"
  devices :: "nat \<Rightarrow> ide_device"

record block_device =
  sectorSize :: u32
  size_in_kb :: u32
  ide_dev :: ide_device

text \<open>Registers, commands and status bits of \<^verbatim>\<open>ata.h\<close>.\<close>

definition ATA_REG_DATA_OFFSET :: u8 where "ATA_REG_DATA_OFFSET = 0x00"
definition ATA_REG_SECCOUNT_OFFSET :: u8 where "ATA_REG_SECCOUNT_OFFSET = 0x02"
definition ATA_REG_LBA0_7_OFFSET :: u8 where "ATA_REG_LBA0_7_OFFSET = 0x03"
definition ATA_REG_LBA8_15_OFFSET :: u8 where "ATA_REG_LBA8_15_OFFSET = 0x04"
definition ATA_REG_LBA16_23_OFFSET :: u8 where "ATA_REG_LBA16_23_OFFSET = 0x05"
definition ATA_REG_LBA24_27_OFFSET :: u8 where "ATA_REG_LBA24_27_OFFSET = 0x06"
definition ATA_REG_DRIVEHEAD_OFFSET :: u8 where "ATA_REG_DRIVEHEAD_OFFSET = 0x06"
definition ATA_REG_COMMAND_OFFSET :: u8 where "ATA_REG_COMMAND_OFFSET = 0x07"

definition ATA_CMD_IDENTIFY :: u8 where "ATA_CMD_IDENTIFY = 0xEC"
definition ATA_CMD_READ :: u8 where "ATA_CMD_READ = 0x20"
definition ATA_CMD_WRITE :: u8 where "ATA_CMD_WRITE = 0x30"

definition ATA_STATUS_BSY_MASK :: u8 where "ATA_STATUS_BSY_MASK = 0x80"
definition ATA_STATUS_DRQ_MASK :: u8 where "ATA_STATUS_DRQ_MASK = 0x08"
definition ATA_STATUS_ERR_MASK :: u8 where "ATA_STATUS_ERR_MASK = 0x01"

definition ATA_CAPABILITY_DMA_SUPPORTED_MASK :: u16 where "ATA_CAPABILITY_DMA_SUPPORTED_MASK = 0x100"
definition ATA_CAPABILITY_LBA_SUPPORTED_MASK :: u16 where "ATA_CAPABILITY_LBA_SUPPORTED_MASK = 0x200"

lemmas ata_registers = ATA_REG_DATA_OFFSET_def ATA_REG_SECCOUNT_OFFSET_def ATA_REG_LBA0_7_OFFSET_def
  ATA_REG_LBA8_15_OFFSET_def ATA_REG_LBA16_23_OFFSET_def ATA_REG_LBA24_27_OFFSET_def ATA_REG_DRIVEHEAD_OFFSET_def
  ATA_REG_COMMAND_OFFSET_def

lemmas ata_commands = ATA_CMD_IDENTIFY_def ATA_CMD_READ_def ATA_CMD_WRITE_def

lemmas ata_status = ATA_STATUS_BSY_MASK_def ATA_STATUS_DRQ_MASK_def ATA_STATUS_ERR_MASK_def

section \<open>Port accesses\<close>

definition arch_ide_readaltstatus :: "'w port_io \<Rightarrow> ide_channel \<Rightarrow> 'w \<Rightarrow> u8 \<times> 'w" where
  "arch_ide_readaltstatus io ch w = inb io (ctrlReg ch) w"

definition arch_ide_writecmd :: "'w port_io \<Rightarrow> ide_channel \<Rightarrow> u8 \<Rightarrow> 'w \<Rightarrow> SYS_RET \<times> 'w" where
  "arch_ide_writecmd io ch data w = (SYS_RET_NO_ERROR, outb io (ctrlReg ch) data w)"

definition arch_ide_writectrl :: "'w port_io \<Rightarrow> ide_channel \<Rightarrow> u8 \<Rightarrow> u8 \<Rightarrow> 'w \<Rightarrow> SYS_RET \<times> 'w" where
  "arch_ide_writectrl io ch offset data w = (SYS_RET_NO_ERROR, outb io (cmdRegsBase ch + ucast offset) data w)"

definition arch_ide_readbuffer :: "'w port_io \<Rightarrow> ide_channel \<Rightarrow> u32 \<Rightarrow> u32 \<Rightarrow> mem \<times> 'w \<Rightarrow> SYS_RET \<times> mem \<times> 'w" where
  "arch_ide_readbuffer io ch buffer len s =
     (SYS_RET_NO_ERROR, insw io (cmdRegsBase ch + ucast ATA_REG_DATA_OFFSET) buffer len (fst s) (snd s))"

definition arch_ide_writebuffer :: "'w port_io \<Rightarrow> ide_channel \<Rightarrow> u32 \<Rightarrow> u32 \<Rightarrow> mem \<times> 'w \<Rightarrow> SYS_RET \<times> mem \<times> 'w" where
  "arch_ide_writebuffer io ch buffer len s =
     (SYS_RET_NO_ERROR, fst s, outsw io (cmdRegsBase ch + ucast ATA_REG_DATA_OFFSET) buffer len (fst s) (snd s))"

section \<open>The driver\<close>

definition ide_writecmd :: "'w port_io \<Rightarrow> ide_channel \<Rightarrow> u8 \<Rightarrow> 'w \<Rightarrow> SYS_RET \<times> 'w" where
  "ide_writecmd io ch data w = arch_ide_writecmd io ch data w"

definition ide_writectrl :: "'w port_io \<Rightarrow> ide_channel \<Rightarrow> u8 \<Rightarrow> u8 \<Rightarrow> 'w \<Rightarrow> SYS_RET \<times> 'w" where
  "ide_writectrl io ch offset data w = arch_ide_writectrl io ch offset data w"

definition ide_readaltstatus :: "'w port_io \<Rightarrow> ide_channel \<Rightarrow> 'w \<Rightarrow> u8 \<times> 'w" where
  "ide_readaltstatus io ch w = arch_ide_readaltstatus io ch w"

partial_function (option) poll_drive :: "'w port_io \<Rightarrow> ide_channel \<Rightarrow> 'w \<Rightarrow> (SYS_RET \<times> 'w) option" where
  "poll_drive io ch w =
     (let (status, w1) = ide_readaltstatus io ch w;
          bsy = (status AND ATA_STATUS_BSY_MASK \<noteq> 0);
          drq = (status AND ATA_STATUS_DRQ_MASK \<noteq> 0)
      in if \<not> bsy \<and> drq then Some (SYS_RET_NO_ERROR, w1)
         else if \<not> bsy \<and> \<not> drq then Some (SYS_RET_UNIDENTIFIED_ERROR, w1)
         else if status AND ATA_STATUS_ERR_MASK \<noteq> 0 then Some (SYS_RET_UNIDENTIFIED_ERROR, w1)
         else poll_drive io ch w1)"

definition wait_for_drive_ready :: "'w port_io \<Rightarrow> ide_channel \<Rightarrow> 'w \<Rightarrow> (SYS_RET \<times> 'w) option" where
  "wait_for_drive_ready io ch w0 =
     (let w1 = ((\<lambda>w. snd (ide_readaltstatus io ch w)) ^^ 4) w0;
          (status, w2) = ide_readaltstatus io ch w1
      in if status = 0 then Some (SYS_RET_NO_DEVICE, w2) else poll_drive io ch w2)"

text \<open>The registers of a command: the number of sectors, the address and the drive; then the command.\<close>

definition ide_command :: "'w port_io \<Rightarrow> ide_device \<Rightarrow> u32 \<Rightarrow> u32 \<Rightarrow> u8 \<Rightarrow> 'w \<Rightarrow> 'w" where
  "ide_command io device lba numSectors cmd w =
     (let ch = channel device; wr = (\<lambda>offset data w. snd (ide_writectrl io ch offset data w))
      in (wr ATA_REG_COMMAND_OFFSET cmd
          \<circ> wr ATA_REG_LBA24_27_OFFSET (ucast ((drop_bit 24 lba AND 0xFF) OR push_bit 4 (ucast (deviceId device))) OR 0xE0)
          \<circ> wr ATA_REG_LBA16_23_OFFSET (ucast (drop_bit 16 lba AND 0xFF))
          \<circ> wr ATA_REG_LBA8_15_OFFSET (ucast (drop_bit 8 lba AND 0xFF))
          \<circ> wr ATA_REG_LBA0_7_OFFSET (ucast (lba AND 0xFF))
          \<circ> wr ATA_REG_SECCOUNT_OFFSET (ucast numSectors)) w)"

definition ide_readsector ::
  "'w port_io \<Rightarrow> ide_device \<Rightarrow> u32 \<Rightarrow> u32 \<Rightarrow> u32 \<Rightarrow> mem \<times> 'w \<Rightarrow> (SYS_RET \<times> mem \<times> 'w) option" where
  "ide_readsector io device buffer lba numSectors s =
     (if \<not> deviceExists device then Some (SYS_RET_NO_DEVICE, s)
      else if lbaSupported device then do {
        let w1 = ide_command io device lba numSectors ATA_CMD_READ (snd s);
        (ret, w2) \<leftarrow> wait_for_drive_ready io (channel device) w1;
        if ret \<noteq> SYS_RET_NO_ERROR then Some (ret, fst s, w2)
        else Some (SYS_RET_NO_ERROR, snd (arch_ide_readbuffer io (channel device) buffer (numSectors * 512) (fst s, w2)))
      }
      else Some (SYS_RET_NOT_IMPLEMENTED, s))"

definition ide_writesector ::
  "'w port_io \<Rightarrow> ide_device \<Rightarrow> u32 \<Rightarrow> u32 \<Rightarrow> u32 \<Rightarrow> mem \<times> 'w \<Rightarrow> (SYS_RET \<times> mem \<times> 'w) option" where
  "ide_writesector io device buffer lba numSectors s =
     (if \<not> deviceExists device then Some (SYS_RET_NO_DEVICE, s)
      else if lbaSupported device then do {
        let w1 = ide_command io device lba numSectors ATA_CMD_WRITE (snd s);
        (ret, w2) \<leftarrow> wait_for_drive_ready io (channel device) w1;
        if ret \<noteq> SYS_RET_NO_ERROR then Some (ret, fst s, w2)
        else do {
          let (m3, w3) = snd (arch_ide_writebuffer io (channel device) buffer (numSectors * 512) (fst s, w2));
          (_, w4) \<leftarrow> wait_for_drive_ready io (channel device) w3;
          Some (SYS_RET_NO_ERROR, m3, w4)
        }
      }
      else Some (SYS_RET_NOT_IMPLEMENTED, s))"

text \<open>
  The functions of the block device have no \<^verbatim>\<open>return\<close>; their caller finds the driver's result in the result
  register, where the call that they end with has left it.
\<close>

definition block_dev_read ::
  "'w port_io \<Rightarrow> block_device \<Rightarrow> u64 \<Rightarrow> u32 \<Rightarrow> mem \<times> 'w \<Rightarrow> (SYS_RET \<times> mem \<times> 'w) option" where
  "block_dev_read io device sectorNum buffer s = ide_readsector io (ide_dev device) buffer (ucast sectorNum) 1 s"

definition block_dev_write ::
  "'w port_io \<Rightarrow> block_device \<Rightarrow> u64 \<Rightarrow> u32 \<Rightarrow> mem \<times> 'w \<Rightarrow> (SYS_RET \<times> mem \<times> 'w) option" where
  "block_dev_write io device sectorNum buffer s = ide_writesector io (ide_dev device) buffer (ucast sectorNum) 1 s"

section \<open>Finding the drives\<close>

text \<open>The 512 bytes of the answer to \<^verbatim>\<open>IDENTIFY\<close> are a local array; its fields are read at their offsets.\<close>

definition ide_identify_drive :: "'w port_io \<Rightarrow> ide_channel \<Rightarrow> mem \<times> 'w \<Rightarrow> (SYS_RET \<times> mem \<times> 'w) option" where
  "ide_identify_drive io ch s = do {
     let w1 = snd (ide_writectrl io ch ATA_REG_COMMAND_OFFSET ATA_CMD_IDENTIFY (snd s));
     (ret, w2) \<leftarrow> wait_for_drive_ready io ch w1;
     if ret \<noteq> SYS_RET_NO_ERROR then Some (ret, fst s, w2)
     else Some (SYS_RET_NO_ERROR, snd (arch_ide_readbuffer io ch 0 512 (fst s, w2)))
   }"

text \<open>\<open>swap_pairs n f g\<close> is the loop that copies \<open>n\<close> characters and exchanges the two of each word.\<close>

definition swap_pairs :: "nat \<Rightarrow> (nat \<Rightarrow> u8) \<Rightarrow> (nat \<Rightarrow> u8) \<Rightarrow> nat \<Rightarrow> u8" where
  "swap_pairs n src dst = fold (\<lambda>k d. d(2 * k := src (2 * k + 1), 2 * k + 1 := src (2 * k))) [0..<n div 2] dst"

definition fill_device_info :: "ide_channel \<Rightarrow> mem \<Rightarrow> ide_device \<Rightarrow> ide_device" where
  "fill_device_info ch info device =
     device\<lparr>deviceExists := True,
       capacityKb := ucast (load64 info 200 div 2),
       channel := ch,
       lbaSupported := (load16 info 98 AND ATA_CAPABILITY_LBA_SUPPORTED_MASK \<noteq> 0),
       dmaSupported := (load16 info 98 AND ATA_CAPABILITY_DMA_SUPPORTED_MASK \<noteq> 0),
       serialNumber := (swap_pairs 20 (\<lambda>i. info (20 + of_nat i)) (serialNumber device))(19 := 0),
       modelNumber := (swap_pairs 40 (\<lambda>i. info (54 + of_nat i)) (modelNumber device))(39 := 0)\<rparr>"

text \<open>Select a drive of a channel, identify it, and note it if it answers; the delay loop has no effect.\<close>

definition probe_drive ::
  "'w port_io \<Rightarrow> nat \<Rightarrow> nat \<Rightarrow> u8 \<Rightarrow> ide_ctrl \<times> mem \<times> 'w \<Rightarrow> (ide_ctrl \<times> mem \<times> 'w) option" where
  "probe_drive io c d sel st = do {
     let ctrl = fst st;
     let ch = channels ctrl c;
     let w1 = snd (ide_writectrl io ch ATA_REG_DRIVEHEAD_OFFSET sel (snd (snd st)));
     (ret, m2, w2) \<leftarrow> ide_identify_drive io ch (fst (snd st), w1);
     Some (if ret = SYS_RET_NO_ERROR
           then ctrl\<lparr>devices := (devices ctrl)(d := fill_device_info ch m2 (devices ctrl d))\<rparr>
           else ctrl, m2, w2)
   }"

definition ide_ctrlinit ::
  "'w port_io \<Rightarrow> u16 \<Rightarrow> u16 \<Rightarrow> u16 \<Rightarrow> u16 \<Rightarrow> u16 \<Rightarrow> ide_ctrl \<Rightarrow> mem \<Rightarrow> 'w \<Rightarrow> (ide_ctrl \<times> 'w) option" where
  "ide_ctrlinit io BAR0 BAR1 BAR2 BAR3 BAR4 ctrl buffer w = do {
     let ctrl1 = ctrl\<lparr>channels := (channels ctrl)(
         0 := \<lparr>cmdRegsBase = BAR0, ctrlReg = BAR1, bmide = BAR4\<rparr>,
         1 := \<lparr>cmdRegsBase = BAR2, ctrlReg = BAR3, bmide = BAR4 + 8\<rparr>),
       devices := for_update 0 0 4 (\<lambda>i d. d\<lparr>deviceId := of_nat (i mod 2), deviceExists := False\<rparr>) (devices ctrl)\<rparr>;
     st1 \<leftarrow> probe_drive io 0 0 0xA0 (ctrl1, buffer, w);
     st2 \<leftarrow> probe_drive io 0 1 0xB0 st1;
     st3 \<leftarrow> probe_drive io 1 2 0xA0 st2;
     (ctrl4, _, w4) \<leftarrow> probe_drive io 1 3 0xB0 st3;
     Some (ctrl4, w4)
   }"

section \<open>What a file system relies on\<close>

text \<open>\<open>place buf n f m\<close> is memory with \<open>n\<close> bytes at \<open>buf\<close> replaced by those of \<open>f\<close>.\<close>

definition place :: "u32 \<Rightarrow> nat \<Rightarrow> (nat \<Rightarrow> u8) \<Rightarrow> mem \<Rightarrow> mem" where
  "place buf n f m = (\<lambda>a. if in_range buf n a then f (unat (a - buf)) else m a)"

lemma place_cong: "(\<And>i. i < n \<Longrightarrow> f i = g i) \<Longrightarrow> place buf n f m = place buf n g m"
  by (auto simp: place_def in_range_def fun_eq_iff)

lemma place_apply: "k < n \<Longrightarrow> n \<le> 4294967296 \<Longrightarrow> place b n f m (b + of_nat k) = f k"
  by (simp add: place_def in_range_def unat_of_nat_u32)

lemma place_outside: "\<not> in_range b n a \<Longrightarrow> place b n f m a = m a"
  by (simp add: place_def)

lemma place_append:
  assumes "n + k \<le> 4294967296"
  shows "place (b + of_nat n) k g (place b n f m) = place b (n + k) (\<lambda>i. if i < n then f i else g (i - n)) m"
proof
  fix a
  let ?d = "unat (a - b)"
  show "place (b + of_nat n) k g (place b n f m) a = place b (n + k) (\<lambda>i. if i < n then f i else g (i - n)) m a"
  proof (cases "k = 0 \<or> n = 0")
    case True
    then show ?thesis by (auto simp: place_def in_range_def)
  next
    case False
    with assms have n: "n < 4294967296" by simp
    have eq: "a - (b + of_nat n) = (a - b) - of_nat n" by simp
    have off: "unat (a - (b + of_nat n)) = (if n \<le> ?d then ?d - n else ?d + 4294967296 - n)"
      unfolding eq using n by (simp add: unat_sub_if' unat_of_nat_u32)
    show ?thesis using assms unat_u32_less [of "a - b"] by (auto simp: place_def in_range_def off)
  qed
qed

lemma memcpy_place:
  assumes "no_overlap d (unat n) s (unat n)"
  shows "snd (kaos_memcpy d s n m) = place d (unat n) (\<lambda>i. m (s + of_nat i)) m"
  using memcpy_loop_apply [OF _ assms, of m] unat_u32_less [of n]
  by (auto simp: kaos_memcpy_def place_def fun_eq_iff)

text \<open>A block device that works: reads deliver the sectors, writes replace them, nothing else changes.\<close>

locale good_disk =
  fixes io :: "'w port_io" and device :: block_device
    and ready :: "'w \<Rightarrow> bool" and sector :: "'w \<Rightarrow> u32 \<Rightarrow> nat \<Rightarrow> u8"
  assumes read_sector: "ready w \<Longrightarrow> n < 0x10000000 \<Longrightarrow>
      \<exists>w'. block_dev_read io device (ucast n) buf (m, w) = Some (SYS_RET_NO_ERROR, place buf 512 (sector w n) m, w') \<and>
        ready w' \<and> sector w' = sector w"
    and write_sector: "ready w \<Longrightarrow> n < 0x10000000 \<Longrightarrow>
      \<exists>w'. block_dev_write io device (ucast n) buf (m, w) = Some (SYS_RET_NO_ERROR, m, w') \<and> ready w' \<and>
        (\<forall>k i. i < 512 \<longrightarrow> sector w' k i = (if k = n then m (buf + of_nat i) else sector w k i))"
begin

lemma write_read:
  assumes "ready w" "n < 0x10000000"
  shows "\<exists>w1 w2. block_dev_write io device (ucast n) buf (m, w) = Some (SYS_RET_NO_ERROR, m, w1) \<and>
     block_dev_read io device (ucast n) buf2 (m2, w1) =
       Some (SYS_RET_NO_ERROR, place buf2 512 (\<lambda>i. m (buf + of_nat i)) m2, w2) \<and>
     ready w2 \<and> (\<forall>k i. k \<noteq> n \<and> i < 512 \<longrightarrow> sector w2 k i = sector w k i)"
proof -
  from write_sector [OF assms] obtain w1 where w1: "block_dev_write io device (ucast n) buf (m, w) = Some (SYS_RET_NO_ERROR, m, w1)"
    "ready w1" "\<forall>k i. i < 512 \<longrightarrow> sector w1 k i = (if k = n then m (buf + of_nat i) else sector w k i)" by blast
  from read_sector [OF w1(2) assms(2)] obtain w2 where
    w2: "block_dev_read io device (ucast n) buf2 (m2, w1) = Some (SYS_RET_NO_ERROR, place buf2 512 (sector w1 n) m2, w2)"
      "ready w2" "sector w2 = sector w1" by blast
  have "place buf2 512 (sector w1 n) m2 = place buf2 512 (\<lambda>i. m (buf + of_nat i)) m2"
    using w1(3) by (intro place_cong) auto
  with w1 w2 show ?thesis by auto
qed

end

section \<open>A drive\<close>

text \<open>
  The only drive of a channel, which follows the ATA protocol for the commands READ SECTORS and WRITE SECTORS.
  Register 6 selects the drive (bit 4) and the kind of address: bit 6 asks for a logical block address, and bits 5 and 7
  are set as the older standards demand. Register 2 holds the number of sectors, 0 standing for 256. The drive is busy for some
  time after a command, between two sectors and after the last word of a write; while it is busy it takes no command and
  moves no data. A command it does not know, or one without the bits of a logical block
  address, is aborted: the drive sets the error bit and has no data. Where no drive is selected the status is 0.
\<close>

text \<open>A transfer has the address of the sector, the number of sectors after it and the next of its 256 words.\<close>

datatype transfer = Idle | Sending u32 nat nat | Receiving u32 nat nat

record ata_drive =
  task_file :: "u16 \<Rightarrow> u8"
  transfer :: transfer
  busy :: nat
  latency :: nat
  drive_err :: bool
  words :: "u32 \<Rightarrow> nat \<Rightarrow> u16"

definition drive_lba :: "ata_drive \<Rightarrow> u32" where
  "drive_lba d = ucast (task_file d 3) OR push_bit 8 (ucast (task_file d 4)) OR push_bit 16 (ucast (task_file d 5)) OR
     push_bit 24 (ucast (task_file d 6 AND 0x0F))"

definition drive_count :: "ata_drive \<Rightarrow> nat" where
  "drive_count d = (if task_file d 2 = 0 then 256 else unat (task_file d 2))"

definition drive_selected :: "ata_drive \<Rightarrow> bool" where
  "drive_selected d \<longleftrightarrow> task_file d 6 AND 0x10 = 0"

definition drive_command :: "u8 \<Rightarrow> ata_drive \<Rightarrow> ata_drive" where
  "drive_command c d =
     (let start = (\<lambda>t e. d\<lparr>transfer := t, busy := latency d, drive_err := e\<rparr>)
      in if \<not> drive_selected d then d
         else if task_file d 6 AND 0xE0 \<noteq> 0xE0 then start Idle True
         else if c = 0x20 then start (Sending (drive_lba d) (drive_count d - 1) 0) False
         else if c = 0x30 then start (Receiving (drive_lba d) (drive_count d - 1) 0) False
         else start Idle True)"

definition drive_status :: "ata_drive \<Rightarrow> u8" where
  "drive_status d =
     (if \<not> drive_selected d then 0
      else if 0 < busy d then 0x80
      else 0x40 OR (if transfer d = Idle then 0 else 0x08) OR (if drive_err d then 0x01 else 0))"

definition drive_io :: "ata_drive port_io" where
  "drive_io = \<lparr>
     in8 = (\<lambda>a d. if a = 0x3F6 then (drive_status d, d\<lparr>busy := busy d - 1\<rparr>) else (0, d)),
     out8 = (\<lambda>a v d. if 0 < busy d then d
       else if a = 0x1F7 then drive_command v d
       else if 0x1F0 < a \<and> a < 0x1F7 then d\<lparr>task_file := (task_file d)(a - 0x1F0 := v)\<rparr> else d),
     in16 = (\<lambda>a d. if 0 < busy d \<or> a \<noteq> 0x1F0 then (0, d) else case transfer d of
         Sending l r k \<Rightarrow> (words d l k,
           if k < 255 then d\<lparr>transfer := Sending l r (Suc k)\<rparr>
           else if r = 0 then d\<lparr>transfer := Idle\<rparr>
           else d\<lparr>transfer := Sending (l + 1) (r - 1) 0, busy := latency d\<rparr>)
       | _ \<Rightarrow> (0, d)),
     out16 = (\<lambda>a v d. if 0 < busy d \<or> a \<noteq> 0x1F0 then d else case transfer d of
         Receiving l r k \<Rightarrow>
           (let d1 = d\<lparr>words := (words d)(l := (words d l)(k := v))\<rparr>
            in if k < 255 then d1\<lparr>transfer := Receiving l r (Suc k)\<rparr>
               else d1\<lparr>transfer := if r = 0 then Idle else Receiving (l + 1) (r - 1) 0, busy := latency d\<rparr>)
       | _ \<Rightarrow> d),
     in32 = (\<lambda>a d. (0, d)), out32 = (\<lambda>a v d. d)\<rparr>"

definition drive_ready :: "ata_drive \<Rightarrow> bool" where
  "drive_ready d \<longleftrightarrow> transfer d = Idle \<and> busy d = 0"

definition sector_byte :: "ata_drive \<Rightarrow> u32 \<Rightarrow> nat \<Rightarrow> u8" where
  "sector_byte d l i = (if even i then ucast (words d l (i div 2)) else ucast (drop_bit 8 (words d l (i div 2))))"

definition first_drive :: ide_device where
  "first_drive = \<lparr>deviceId = 0, deviceExists = True, capacityKb = 65536, dmaSupported = False, lbaSupported = True,
     serialNumber = (\<lambda>_. 0), modelNumber = (\<lambda>_. 0), channel = \<lparr>cmdRegsBase = 0x1F0, ctrlReg = 0x3F6, bmide = 0\<rparr>\<rparr>"

definition first_disk :: block_device where
  "first_disk = \<lparr>sectorSize = 512, size_in_kb = 65536, ide_dev = first_drive\<rparr>"

lemmas port_defs = ide_readaltstatus_def arch_ide_readaltstatus_def ide_writectrl_def arch_ide_writectrl_def inb_def outb_def

lemma read_status: "ide_readaltstatus drive_io (channel first_drive) d = (drive_status d, d\<lparr>busy := busy d - 1\<rparr>)"
  by (simp add: port_defs drive_io_def first_drive_def)

lemma poll_drive_ready:
  assumes "drive_selected d"
  shows "poll_drive drive_io (channel first_drive) d =
     Some (if transfer d = Idle then SYS_RET_UNIDENTIFIED_ERROR else SYS_RET_NO_ERROR, d\<lparr>busy := 0\<rparr>)"
  using assms
proof (induction "busy d" arbitrary: d)
  case 0
  then show ?case by (subst poll_drive.simps) (auto simp: read_status drive_status_def ata_status)
next
  case (Suc n)
  let ?d = "d\<lparr>busy := busy d - 1\<rparr>"
  have "busy ?d = n" "drive_selected ?d" using Suc(2,3) by (simp_all add: drive_selected_def)
  then have "poll_drive drive_io (channel first_drive) ?d =
      Some (if transfer d = Idle then SYS_RET_UNIDENTIFIED_ERROR else SYS_RET_NO_ERROR, d\<lparr>busy := 0\<rparr>)"
    using Suc(1) [of ?d] by simp
  then show ?case using Suc(2,3) by (subst poll_drive.simps) (simp add: read_status drive_status_def ata_status)
qed

lemma wait_ready:
  assumes "drive_selected d"
  shows "wait_for_drive_ready drive_io (channel first_drive) d =
     Some (if transfer d = Idle then SYS_RET_UNIDENTIFIED_ERROR else SYS_RET_NO_ERROR, d\<lparr>busy := 0\<rparr>)"
proof -
  have wait: "\<exists>n. ((\<lambda>w. snd (ide_readaltstatus drive_io (channel first_drive) w)) ^^ k) d = d\<lparr>busy := n\<rparr>" for k
  proof (induction k)
    case 0
    then show ?case by (intro exI [of _ "busy d"]) simp
  next
    case (Suc k)
    then show ?case by (auto simp: read_status)
  qed
  then obtain n where n: "((\<lambda>w. snd (ide_readaltstatus drive_io (channel first_drive) w)) ^^ 4) d = d\<lparr>busy := n\<rparr>" by blast
  have sel: "drive_selected (d\<lparr>busy := k\<rparr>)" for k using assms by (simp add: drive_selected_def)
  then have "drive_status (d\<lparr>busy := n\<rparr>) \<noteq> 0" by (simp add: drive_status_def)
  then show ?thesis unfolding wait_for_drive_ready_def n
    by (simp add: read_status poll_drive_ready [OF sel] Let_def)
qed

text \<open>A command reaches the drive with its address.\<close>

lemma small_bits:
  assumes "(n :: u32) < 0x10000000"
  shows "bit n k \<Longrightarrow> k < 28"
proof -
  have "unat n < 2 ^ 28" using assms by (simp add: word_less_nat_alt)
  then have "take_bit 28 n = n" by (simp add: word_unat_eq_iff unsigned_take_bit_eq take_bit_nat_eq_self)
  then show "bit n k \<Longrightarrow> k < 28" by (metis bit_take_bit_iff)
qed

lemma or_and_disjoint: "b AND c = 0 \<Longrightarrow> (x OR b) AND c = x AND (c :: 'a :: len word)"
  by (simp add: bit.conj_disj_distrib2)

lemma lba_bytes:
  assumes "(n :: u32) < 0x10000000"
  shows "ucast (ucast (n AND 0xFF) :: u8) OR push_bit 8 (ucast (ucast (drop_bit 8 n AND 0xFF) :: u8)) OR
      push_bit 16 (ucast (ucast (drop_bit 16 n AND 0xFF) :: u8)) OR
      push_bit 24 (ucast ((ucast (drop_bit 24 n AND 0xFF) OR 0xE0 :: u8) AND 0x0F)) = n"
    and "(ucast (drop_bit 24 n AND 0xFF) OR 0xE0 :: u8) AND 0x10 = 0"
    and "(x OR 0xE0 :: u8) AND 0xE0 = 0xE0"
proof -
  have masks: "(0xFF :: u32) = mask 8" "(0x0F :: u8) = mask 4" "(0x10 :: u8) = 2 ^ 4"
    by (simp_all add: mask_eq_exp_minus_1)
  have e: "(ucast (drop_bit 24 n AND 0xFF) OR 0xE0 :: u8) AND 0x0F = ucast (drop_bit 24 n AND 0xFF) AND 0x0F"
      "(ucast (drop_bit 24 n AND 0xFF) OR 0xE0 :: u8) AND 0x10 = ucast (drop_bit 24 n AND 0xFF) AND 0x10"
    by (intro or_and_disjoint, simp)+
  show "ucast (ucast (n AND 0xFF) :: u8) OR push_bit 8 (ucast (ucast (drop_bit 8 n AND 0xFF) :: u8)) OR
      push_bit 16 (ucast (ucast (drop_bit 16 n AND 0xFF) :: u8)) OR
      push_bit 24 (ucast ((ucast (drop_bit 24 n AND 0xFF) OR 0xE0 :: u8) AND 0x0F)) = n"
    unfolding e unfolding masks
  proof (rule bit_word_eqI)
    fix k assume "k < LENGTH(32)"
    consider "k < 8" | "8 \<le> k" "k < 16" | "16 \<le> k" "k < 24" | "24 \<le> k" by linarith
    then show "bit (ucast (ucast (n AND mask 8) :: u8) OR push_bit 8 (ucast (ucast (drop_bit 8 n AND mask 8) :: u8)) OR
      push_bit 16 (ucast (ucast (drop_bit 16 n AND mask 8) :: u8)) OR
      push_bit 24 (ucast (ucast (drop_bit 24 n AND mask 8) AND mask 4 :: u8)) :: u32) k = bit n k"
      using \<open>k < LENGTH(32)\<close> by cases (auto simp: bit_simps dest: small_bits [OF assms])
  qed
  have "\<not> bit n 28" using small_bits [OF assms, of 28] by auto
  then show "(ucast (drop_bit 24 n AND 0xFF) OR 0xE0 :: u8) AND 0x10 = 0"
    unfolding e unfolding masks and_exp_eq_0_iff_not_bit by (simp add: bit_simps)
  show "(x OR 0xE0 :: u8) AND 0xE0 = 0xE0" by (simp add: bit.conj_disj_distrib2 and.commute)
qed

lemma ide_command_drive:
  assumes "n < 0x10000000" "c = 0x20 \<or> c = 0x30" "drive_ready d"
  shows "\<exists>tf. ide_command drive_io first_drive n 1 c d =
     d\<lparr>task_file := tf, transfer := if c = 0x20 then Sending n 0 0 else Receiving n 0 0, busy := latency d, drive_err := False\<rparr> \<and>
     tf 6 AND 0x10 = 0"
  using assms(2,3) lba_bytes [OF assms(1)]
  by (auto simp: ide_command_def Let_def port_defs ata_registers drive_io_def first_drive_def drive_command_def drive_lba_def
      drive_count_def drive_selected_def drive_ready_def)

text \<open>The words of a sector on their way through the data port.\<close>

lemma receive_words:
  assumes "transfer d = Sending l 0 k" "k + n = 256" "0 < n" "busy d = 0"
  shows "insw_loop drive_io 0x1F0 n dst m d = (place dst (2 * n) (\<lambda>i. sector_byte d l (2 * k + i)) m, d\<lparr>transfer := Idle\<rparr>)"
  using assms
proof (induction n arbitrary: k dst m d)
  case (Suc n)
  let ?v = "words d l k"
  let ?m = "m(dst := ucast ?v, dst + 1 := ucast (drop_bit 8 ?v))"
  let ?d = "d\<lparr>transfer := if k = 255 then Idle else Sending l 0 (Suc k)\<rparr>"
  have step: "insw_loop drive_io 0x1F0 (Suc n) dst m d = insw_loop drive_io 0x1F0 n (dst + 2) ?m ?d"
    using Suc.prems by (simp add: drive_io_def)
  have byte: "sector_byte d l (2 * k) = ucast ?v" "sector_byte d l (Suc (2 * k)) = ucast (drop_bit 8 ?v)"
    by (simp_all add: sector_byte_def)
  have range: "in_range dst (Suc (Suc j)) a \<longleftrightarrow> a = dst \<or> a = dst + 1 \<or> in_range (dst + 2) j a" if "j \<le> 1000" for j a
    using that in_range_Suc [of "Suc j" dst a] in_range_Suc [of j "dst + 1" a] by (simp add: add.assoc)
  have fits: "place (dst + 2) (2 * n) (\<lambda>i. sector_byte d l (2 * Suc k + i)) ?m =
      place dst (2 * Suc n) (\<lambda>i. sector_byte d l (2 * k + i)) m"
  proof
    fix a
    have n: "2 * n \<le> 1000" "2 * Suc n = Suc (Suc (2 * n))" using Suc.prems by auto
    have off: "unat (a - dst) = Suc (Suc (unat (a - (dst + 2))))" if "in_range (dst + 2) (2 * n) a"
    proof -
      have "unat (x + 2) = Suc (Suc (unat x))" if "unat x < 1000" for x :: u32 using that by (simp add: unat_word_ariths)
      then have "unat (a - (dst + 2) + 2) = Suc (Suc (unat (a - (dst + 2))))"
        using that n(1) unfolding in_range_def by (meson less_le_trans)
      moreover have "a - (dst + 2) + 2 = a - dst" by simp
      ultimately show ?thesis by metis
    qed
    consider "a = dst" | "a = dst + 1" | "in_range (dst + 2) (2 * n) a" | "\<not> in_range dst (2 * Suc n) a"
      using range [OF n(1), of a] n(2) by metis
    then show "place (dst + 2) (2 * n) (\<lambda>i. sector_byte d l (2 * Suc k + i)) ?m a =
        place dst (2 * Suc n) (\<lambda>i. sector_byte d l (2 * k + i)) m a"
    proof cases
      case 1
      moreover have "\<not> in_range (dst + 2) (2 * n) dst" using n(1) by (simp add: in_range_def)
      ultimately show ?thesis using range [OF n(1), of a] byte n(2) by (simp add: place_def)
    next
      case 2
      moreover have "\<not> in_range (dst + 2) (2 * n) (dst + 1)"
        using n(1) by (simp add: in_range_def unsigned_minus_1_eq_mask mask_eq_exp_minus_1)
      ultimately show ?thesis using range [OF n(1), of a] byte n(2) by (simp add: place_def)
    next
      case 3
      then show ?thesis using range [OF n(1), of a] off n(2) by (simp add: place_def)
    next
      case 4
      then show ?thesis using range [OF n(1), of a] n(2) by (auto simp: place_def)
    qed
  qed
  show ?case
  proof (cases n)
    case 0
    then have "place (dst + 2) (2 * n) g ?m = ?m" for g by (simp add: place_def in_range_def fun_eq_iff)
    then show ?thesis unfolding step fits [symmetric] using 0 Suc.prems by (simp add: fun_upd_def cong: if_cong)
  next
    case (Suc n')
    have "insw_loop drive_io 0x1F0 n (dst + 2) ?m ?d =
        (place (dst + 2) (2 * n) (\<lambda>i. sector_byte ?d l (2 * Suc k + i)) ?m, ?d\<lparr>transfer := Idle\<rparr>)"
      using Suc.prems Suc by (intro Suc.IH) auto
    moreover have "sector_byte ?d = sector_byte d" by (simp add: sector_byte_def fun_eq_iff)
    ultimately show ?thesis using step fits by simp
  qed
qed simp


lemma send_words:
  assumes "transfer d = Receiving l 0 k" "k + n = 256" "0 < n" "busy d = 0"
  shows "outsw_loop drive_io 0x1F0 n src m d = d\<lparr>transfer := Idle, busy := latency d,
     words := (words d)(l := (\<lambda>i. if k \<le> i \<and> i < 256 then load16 m (src + of_nat (2 * (i - k))) else words d l i))\<rparr>"
  using assms
proof (induction n arbitrary: k src d)
  case (Suc n)
  let ?d1 = "d\<lparr>words := (words d)(l := (words d l)(k := load16 m src))\<rparr>"
  let ?d = "if k = 255 then ?d1\<lparr>transfer := Idle, busy := latency d\<rparr> else ?d1\<lparr>transfer := Receiving l 0 (Suc k)\<rparr>"
  have step: "outsw_loop drive_io 0x1F0 (Suc n) src m d = outsw_loop drive_io 0x1F0 n (src + 2) m ?d"
    using Suc.prems by (simp add: drive_io_def load16_def Let_def)
  have addr: "src + 2 + of_nat (2 * (i - Suc k)) = src + of_nat (2 * (i - k))" if "Suc k \<le> i" for i
  proof -
    have "2 * (i - k) = 2 + 2 * (i - Suc k)" using that by simp
    then show ?thesis by simp
  qed
  show ?case
  proof (cases n)
    case 0
    then have k: "k = 255" using Suc.prems by simp
    have w: "(\<lambda>i. if k \<le> i \<and> i < 256 then load16 m (src + of_nat (2 * (i - k))) else words d l i) =
        (words d l)(k := load16 m src)" using k by (auto simp: fun_eq_iff)
    show ?thesis unfolding step w using 0 k by (simp add: fun_upd_def)
  next
    case (Suc n')
    then have d: "?d = ?d1\<lparr>transfer := Receiving l 0 (Suc k)\<rparr>" using Suc.prems by auto
    have "outsw_loop drive_io 0x1F0 n (src + 2) m ?d = ?d\<lparr>transfer := Idle, busy := latency ?d,
        words := (words ?d)(l := (\<lambda>i. if Suc k \<le> i \<and> i < 256 then load16 m (src + 2 + of_nat (2 * (i - Suc k))) else words ?d l i))\<rparr>"
      using Suc.prems Suc d by (intro Suc.IH) auto
    moreover have "(\<lambda>i. if Suc k \<le> i \<and> i < 256 then load16 m (src + 2 + of_nat (2 * (i - Suc k))) else words ?d l i) =
        (\<lambda>i. if k \<le> i \<and> i < 256 then load16 m (src + of_nat (2 * (i - k))) else words d l i)"
      using Suc.prems addr by (auto simp: fun_eq_iff d not_le less_Suc_eq)
    ultimately show ?thesis using step by (simp add: d fun_upd_def cong: if_cong)
  qed
qed simp

text \<open>The driver on this drive.\<close>

lemma ide_read_drive:
  assumes "drive_ready d" "n < 0x10000000"
  shows "\<exists>tf. ide_readsector drive_io first_drive buf n 1 (m, d) =
     Some (SYS_RET_NO_ERROR, place buf 512 (sector_byte d n) m, d\<lparr>task_file := tf, busy := 0, drive_err := False\<rparr>)"
proof -
  obtain tf where c: "ide_command drive_io first_drive n 1 0x20 d =
      d\<lparr>task_file := tf, transfer := Sending n 0 0, busy := latency d, drive_err := False\<rparr>" "tf 6 AND 0x10 = 0"
    using ide_command_drive [OF assms(2) _ assms(1), of "0x20"] by auto
  let ?d = "d\<lparr>task_file := tf, transfer := Sending n 0 0, busy := 0, drive_err := False\<rparr>"
  have w: "wait_for_drive_ready drive_io (channel first_drive) (ide_command drive_io first_drive n 1 0x20 d) =
      Some (SYS_RET_NO_ERROR, ?d)" unfolding c(1) by (subst wait_ready) (simp_all add: drive_selected_def c(2))
  have "insw drive_io 0x1F0 buf 512 m ?d = (place buf 512 (sector_byte ?d n) m, ?d\<lparr>transfer := Idle\<rparr>)"
    using receive_words [of ?d n 0 256 buf m] by (simp add: insw_def)
  moreover have "sector_byte ?d = sector_byte d" by (simp add: sector_byte_def fun_eq_iff)
  ultimately show ?thesis using w assms(1)
    by (intro exI [of _ tf]) (simp add: ide_readsector_def first_drive_def arch_ide_readbuffer_def ATA_CMD_READ_def
        ATA_REG_DATA_OFFSET_def drive_ready_def)
qed

lemma load16_bytes: "ucast (load16 m p) = m p" "ucast (drop_bit 8 (load16 m p)) = m (p + 1)"
  by (rule bit_word_eqI, auto simp: load16_def bit_simps dest: bit_imp_le_length)+

lemma ide_write_drive:
  assumes "drive_ready d" "n < 0x10000000"
  shows "\<exists>d'. ide_writesector drive_io first_drive buf n 1 (m, d) = Some (SYS_RET_NO_ERROR, m, d') \<and> drive_ready d' \<and>
     (\<forall>k i. i < 512 \<longrightarrow> sector_byte d' k i = (if k = n then m (buf + of_nat i) else sector_byte d k i))"
proof -
  obtain tf where c: "ide_command drive_io first_drive n 1 0x30 d =
      d\<lparr>task_file := tf, transfer := Receiving n 0 0, busy := latency d, drive_err := False\<rparr>" "tf 6 AND 0x10 = 0"
    using ide_command_drive [OF assms(2) _ assms(1), of "0x30"] by auto
  let ?d = "d\<lparr>task_file := tf, transfer := Receiving n 0 0, busy := 0, drive_err := False\<rparr>"
  let ?d' = "?d\<lparr>transfer := Idle, busy := 0,
    words := (words d)(n := (\<lambda>i. if i < 256 then load16 m (buf + of_nat (2 * i)) else words d n i))\<rparr>"
  have w: "wait_for_drive_ready drive_io (channel first_drive) (ide_command drive_io first_drive n 1 0x30 d) =
      Some (SYS_RET_NO_ERROR, ?d)" unfolding c(1) by (subst wait_ready) (simp_all add: drive_selected_def c(2))
  have o: "outsw drive_io 0x1F0 buf 512 m ?d = ?d'\<lparr>busy := latency d\<rparr>"
    using send_words [of ?d n 0 256 buf m] by (simp add: outsw_def fun_upd_def cong: if_cong)
  moreover have "wait_for_drive_ready drive_io (channel first_drive) (?d'\<lparr>busy := latency d\<rparr>) =
      Some (SYS_RET_UNIDENTIFIED_ERROR, ?d')" by (subst wait_ready) (simp_all add: drive_selected_def c(2))
  ultimately have "ide_writesector drive_io first_drive buf n 1 (m, d) = Some (SYS_RET_NO_ERROR, m, ?d')"
    using w o by (simp add: ide_writesector_def arch_ide_writebuffer_def ATA_CMD_WRITE_def ATA_REG_DATA_OFFSET_def
        first_drive_def [THEN arg_cong, of deviceExists] first_drive_def [THEN arg_cong, of lbaSupported]
        first_drive_def [THEN arg_cong, of "\<lambda>d. cmdRegsBase (channel d)"])
  moreover have "sector_byte ?d' k i = (if k = n then m (buf + of_nat i) else sector_byte d k i)" if "i < 512" for k i
  proof (cases "k = n")
    case True
    have "i div 2 < 256" using that by simp
    moreover obtain j where "i = 2 * j \<or> i = Suc (2 * j)" by (metis oddE evenE Suc_eq_plus1)
    ultimately show ?thesis using True by (auto simp: sector_byte_def load16_bytes add_ac)
  qed (simp add: sector_byte_def)
  ultimately show ?thesis by (intro exI [of _ ?d']) (auto simp: drive_ready_def)
qed

text \<open>The driver provides what file systems rely on.\<close>

interpretation ata: good_disk drive_io first_disk drive_ready sector_byte
proof
  fix w m buf and n :: u32
  assume r: "drive_ready w" "n < 0x10000000"
  have u: "ucast (ucast n :: u64) = n" by (rule bit_word_eqI) (auto simp: bit_simps)
  obtain tf where tf: "ide_readsector drive_io first_drive buf n 1 (m, w) =
      Some (SYS_RET_NO_ERROR, place buf 512 (sector_byte w n) m, w\<lparr>task_file := tf, busy := 0, drive_err := False\<rparr>)"
    using ide_read_drive [OF r] by blast
  show "\<exists>w'. block_dev_read drive_io first_disk (ucast n) buf (m, w) = Some (SYS_RET_NO_ERROR, place buf 512 (sector_byte w n) m, w') \<and>
        drive_ready w' \<and> sector_byte w' = sector_byte w"
    using tf r(1) by (intro exI [of _ "w\<lparr>task_file := tf, busy := 0, drive_err := False\<rparr>"])
      (simp add: block_dev_read_def first_disk_def u drive_ready_def sector_byte_def fun_eq_iff)
  show "\<exists>w'. block_dev_write drive_io first_disk (ucast n) buf (m, w) = Some (SYS_RET_NO_ERROR, m, w') \<and> drive_ready w' \<and>
        (\<forall>k i. i < 512 \<longrightarrow> sector_byte w' k i = (if k = n then m (buf + of_nat i) else sector_byte w k i))"
    using ide_write_drive [OF r, of buf m] by (simp add: block_dev_write_def first_disk_def u)
qed


section \<open>Properties\<close>

text \<open>
  C26: on a drive that follows the ATA protocol, however long it stays busy, the driver stores a sector and reads back
  exactly the bytes stored, through the ports and registers of the controller; every other sector keeps its contents,
  and the drive is ready for the next command. The drive has 28-bit logical block addresses, moves as many sectors as its
  register asks for and aborts a command without the bits of a logical block address.
\<close>

theorem ide_sector_roundtrip:
  assumes "drive_ready d" "n < 0x10000000"
  shows "\<exists>d1 d2. block_dev_write drive_io first_disk (ucast n) buf (m, d) = Some (SYS_RET_NO_ERROR, m, d1) \<and>
     block_dev_read drive_io first_disk (ucast n) buf2 (m2, d1) =
       Some (SYS_RET_NO_ERROR, place buf2 512 (\<lambda>i. m (buf + of_nat i)) m2, d2) \<and>
     drive_ready d2 \<and> (\<forall>k i. k \<noteq> n \<and> i < 512 \<longrightarrow> sector_byte d2 k i = sector_byte d k i)"
  by (rule ata.write_read [OF assms])

definition blank_drive :: ata_drive where
  "blank_drive = \<lparr>task_file = (\<lambda>_. 0), transfer = Idle, busy = 0, latency = 7, drive_err = False, words = (\<lambda>_ _. 0)\<rparr>"

theorem ide_sector_roundtrip_witness:
  "\<exists>d1 d2. block_dev_write drive_io first_disk 1000 0x5000 ((\<lambda>_. 0)(0x5001 := 0xAB), blank_drive) =
       Some (SYS_RET_NO_ERROR, (\<lambda>_. 0)(0x5001 := 0xAB), d1) \<and>
     block_dev_read drive_io first_disk 1000 0x9000 (\<lambda>_. 0, d1) =
       Some (SYS_RET_NO_ERROR, place 0x9000 512 (\<lambda>i. ((\<lambda>_. 0)(0x5001 := 0xAB) :: mem) (0x5000 + of_nat i)) (\<lambda>_. 0), d2)"
proof -
  have "drive_ready blank_drive" by (simp add: drive_ready_def blank_drive_def)
  then show ?thesis
    using ide_sector_roundtrip [of blank_drive 1000 "0x5000" "(\<lambda>_. 0)(0x5001 := 0xAB)" "0x9000" "\<lambda>_. 0"] by auto
qed

text \<open>The wait on a channel whose status does not change.\<close>

definition status_is :: "'w port_io \<Rightarrow> ide_channel \<Rightarrow> u8 \<Rightarrow> bool" where
  "status_is io ch st \<longleftrightarrow> (\<forall>w. in8 io (ctrlReg ch) w = (st, w))"

lemma status_bits:
  "st AND ATA_STATUS_BSY_MASK = 0 \<longleftrightarrow> \<not> bit st 7" "st AND ATA_STATUS_DRQ_MASK = 0 \<longleftrightarrow> \<not> bit st 3"
  "st AND ATA_STATUS_ERR_MASK = 0 \<longleftrightarrow> \<not> bit st 0"
  using and_exp_eq_0_iff_not_bit [of st 7] and_exp_eq_0_iff_not_bit [of st 3] and_exp_eq_0_iff_not_bit [of st 0]
  by (simp_all add: ata_status)

lemma status_read: "status_is io ch st \<Longrightarrow> ide_readaltstatus io ch w = (st, w)"
  by (simp add: status_is_def port_defs)

lemma poll_stuck:
  assumes "status_is io ch st" "bit st 7" "\<not> bit st 0"
  shows "poll_drive io ch w = None"
proof (rule ccontr)
  assume "poll_drive io ch w \<noteq> None"
  then obtain r where r: "poll_drive io ch w = Some r" by blast
  have "io = io \<and> ch = ch \<longrightarrow> False"
  proof (rule poll_drive.raw_induct [where P = "\<lambda>i c w r. i = io \<and> c = ch \<longrightarrow> False", OF _ r])
    fix f :: "'a port_io \<Rightarrow> ide_channel \<Rightarrow> 'a \<Rightarrow> (SYS_RET \<times> 'a) option" and i c w r
    assume IH: "\<And>i c w r. f i c w = Some r \<Longrightarrow> i = io \<and> c = ch \<longrightarrow> False"
      and step: "(let (status, w1) = ide_readaltstatus i c w; bsy = (status AND ATA_STATUS_BSY_MASK \<noteq> 0);
            drq = (status AND ATA_STATUS_DRQ_MASK \<noteq> 0)
        in if \<not> bsy \<and> drq then Some (SYS_RET_NO_ERROR, w1)
           else if \<not> bsy \<and> \<not> drq then Some (SYS_RET_UNIDENTIFIED_ERROR, w1)
           else if status AND ATA_STATUS_ERR_MASK \<noteq> 0 then Some (SYS_RET_UNIDENTIFIED_ERROR, w1) else f i c w1) = Some r"
    show "i = io \<and> c = ch \<longrightarrow> False"
    proof
      assume "i = io \<and> c = ch"
      then have "f io ch w = Some r" using step assms by (simp add: status_read [OF assms(1)] status_bits Let_def)
      then show False using IH by blast
    qed
  qed
  then show False by simp
qed

lemma wait_constant:
  assumes "status_is io ch st"
  shows "wait_for_drive_ready io ch w =
     (if st = 0 then Some (SYS_RET_NO_DEVICE, w)
      else if bit st 7 then (if bit st 0 then Some (SYS_RET_UNIDENTIFIED_ERROR, w) else None)
      else Some (if bit st 3 then SYS_RET_NO_ERROR else SYS_RET_UNIDENTIFIED_ERROR, w))"
proof -
  note st = status_read [OF assms]
  have four: "((\<lambda>w. snd (ide_readaltstatus io ch w)) ^^ 4) w = w" unfolding st by (simp add: eval_nat_numeral)
  show ?thesis
  proof (cases "st \<noteq> 0 \<and> bit st 7 \<and> \<not> bit st 0")
    case True
    then show ?thesis using poll_stuck [OF assms] unfolding wait_for_drive_ready_def four by (simp add: st)
  next
    case False
    then show ?thesis unfolding wait_for_drive_ready_def Let_def four
      by (subst poll_drive.simps) (auto simp: st status_bits)
  qed
qed

text \<open>
  C27: a read by what the drive answers, memory unchanged in every failure. Without a drive, without support for logical
  block addresses, and from a channel whose status is zero, the driver returns its error. With any other status that does not
  change: busy with the error bit is an error, and busy without it makes the driver wait for ever; not busy and without data is an
  error; not busy with data is read, whatever the error bit says.
\<close>

theorem ide_read_errors:
  "(\<not> deviceExists dev \<longrightarrow> ide_readsector io dev buf n k (m, w) = Some (SYS_RET_NO_DEVICE, m, w)) \<and>
   (deviceExists dev \<and> \<not> lbaSupported dev \<longrightarrow> ide_readsector io dev buf n k (m, w) = Some (SYS_RET_NOT_IMPLEMENTED, m, w)) \<and>
   (deviceExists dev \<and> lbaSupported dev \<and> (\<forall>w. in8 io (ctrlReg (channel dev)) w = (st, w)) \<longrightarrow>
      ide_readsector io dev buf n k (m, w) =
        (let w1 = ide_command io dev n k ATA_CMD_READ w; BSY = bit st 7; DRQ = bit st 3; ERR = bit st 0
         in if st = 0 then Some (SYS_RET_NO_DEVICE, m, w1)
            else if BSY \<and> ERR then Some (SYS_RET_UNIDENTIFIED_ERROR, m, w1)
            else if BSY then None
            else if \<not> DRQ then Some (SYS_RET_UNIDENTIFIED_ERROR, m, w1)
            else Some (SYS_RET_NO_ERROR, insw io (cmdRegsBase (channel dev)) buf (k * 512) m w1)))"
  using wait_constant [of io "channel dev" st]
  by (auto simp: ide_readsector_def status_is_def Let_def arch_ide_readbuffer_def ATA_REG_DATA_OFFSET_def)

text \<open>A channel that always answers with the same status.\<close>

definition constant_io :: "u8 \<Rightarrow> ata_drive port_io" where
  "constant_io st = drive_io\<lparr>in8 := (\<lambda>a d. (st, d)), out8 := (\<lambda>a v d. d)\<rparr>"

theorem ide_read_errors_witness:
  "ide_readsector (constant_io 0x81) first_drive 0x5000 7 1 (\<lambda>_. 0, blank_drive) = Some (SYS_RET_UNIDENTIFIED_ERROR, \<lambda>_. 0, blank_drive) \<and>
   ide_readsector (constant_io 0x41) first_drive 0x5000 7 1 (\<lambda>_. 0, blank_drive) = Some (SYS_RET_UNIDENTIFIED_ERROR, \<lambda>_. 0, blank_drive) \<and>
   ide_readsector (constant_io 0x80) first_drive 0x5000 7 1 (\<lambda>_. 0, blank_drive) = None \<and>
   ide_readsector (constant_io 0) first_drive 0x5000 7 1 (\<lambda>_. 0, blank_drive) = Some (SYS_RET_NO_DEVICE, \<lambda>_. 0, blank_drive)"
proof -
  have c: "ide_command (constant_io st) first_drive 7 1 ATA_CMD_READ blank_drive = blank_drive" for st
    by (simp add: ide_command_def Let_def port_defs constant_io_def)
  have d: "deviceExists first_drive" "lbaSupported first_drive" "\<forall>w. in8 (constant_io st) a w = (st, w)" for st a
    by (simp_all add: first_drive_def constant_io_def)
  have b: "bit (0x81 :: u8) 7" "bit (0x81 :: u8) 0" "\<not> bit (0x41 :: u8) 7" "\<not> bit (0x41 :: u8) 3" "bit (0x80 :: u8) 7" "\<not> bit (0x80 :: u8) 0"
    by (simp_all add: bit_numeral_word_iff)
  note r = ide_read_errors [of first_drive "constant_io st" "0x5000" 7 1 "\<lambda>_. 0" blank_drive st for st, unfolded c Let_def]
  show ?thesis using r [of "0x81"] r [of "0x41"] r [of "0x80"] r [of 0] d b by simp
qed

end
