(* ===== verification/Bitmap.thy ===== *)
theory Bitmap
  imports Prelude
begin

text \<open>
  Bit maps stored in byte arrays. The page allocator (\<^verbatim>\<open>src/kernel/include/mm/mm.h\<close>) and the
  inode bitmaps (\<^verbatim>\<open>src/kernel/fs/ext2.c\<close>) address bit \<open>x\<close> as bit \<open>x % 8\<close> of byte
  \<open>x / 8\<close>. The locale states what a client may rely on; each component interprets it on its
  own operations.
\<close>

section \<open>The access pattern of the byte arrays\<close>

definition bit_array_test :: "(nat \<Rightarrow> u8) \<Rightarrow> u32 \<Rightarrow> bool" where
  "bit_array_test b x \<longleftrightarrow> b (unat (x div 8)) AND push_bit (unat (x mod 8)) 1 \<noteq> 0"

definition bit_array_set :: "(nat \<Rightarrow> u8) \<Rightarrow> u32 \<Rightarrow> nat \<Rightarrow> u8" where
  "bit_array_set b x =
     b(unat (x div 8) := b (unat (x div 8)) OR push_bit (unat (x mod 8)) 1)"

definition bit_array_clear :: "(nat \<Rightarrow> u8) \<Rightarrow> u32 \<Rightarrow> nat \<Rightarrow> u8" where
  "bit_array_clear b x =
     b(unat (x div 8) := b (unat (x div 8)) AND NOT (push_bit (unat (x mod 8)) 1))"

section \<open>The interface\<close>

locale bitmap_ops =
  fixes used :: "'b \<Rightarrow> u32 \<Rightarrow> bool"
    and mark :: "u32 \<Rightarrow> 'b \<Rightarrow> 'b"
    and unmark :: "u32 \<Rightarrow> 'b \<Rightarrow> 'b"
  assumes used_mark: "used (mark x b) y \<longleftrightarrow> x = y \<or> used b y"
    and used_unmark: "used (unmark x b) y \<longleftrightarrow> x \<noteq> y \<and> used b y"
begin

lemma used_mark_same [simp]: "used (mark x b) x"
  by (simp add: used_mark)

lemma unmark_mark: "\<not> used b x \<Longrightarrow> used (unmark x (mark x b)) = used b"
  by (auto simp: used_mark used_unmark)

lemma mark_commute: "used (mark x (mark y b)) = used (mark y (mark x b))"
  by (auto simp: used_mark)

lemma used_fold_mark: "used (fold mark xs b) y \<longleftrightarrow> y \<in> set xs \<or> used b y"
  by (induction xs arbitrary: b) (auto simp: used_mark)

lemma used_fold_unmark: "used (fold unmark xs b) y \<longleftrightarrow> y \<notin> set xs \<and> used b y"
  by (induction xs arbitrary: b) (auto simp: used_unmark)

lemma mark_set: "{y. used (mark x b) y} = insert x {y. used b y}"
  by (auto simp: used_mark)

lemma unmark_set: "{y. used (unmark x b) y} = {y. used b y} - {x}"
  by (auto simp: used_unmark)

end

section \<open>The byte arrays satisfy the laws\<close>

lemma unat_mod_8: "unat ((x :: u32) mod 8) < 8"
  by (simp add: unat_mod)

lemma div_mod_8_eq_iff: "unat ((x :: u32) div 8) = unat (y div 8) \<and> unat (x mod 8) = unat (y mod 8) \<longleftrightarrow> x = y"
proof
  assume "unat (x div 8) = unat (y div 8) \<and> unat (x mod 8) = unat (y mod 8)"
  then have "unat x div 8 = unat y div 8" "unat x mod 8 = unat y mod 8"
    by (simp_all add: unat_div unat_mod)
  then have "unat x = unat y" by (metis div_mult_mod_eq)
  then show "x = y" by (simp only: word_unat_eq_iff)
qed simp

lemma bit_array_test_iff: "bit_array_test b x \<longleftrightarrow> bit (b (unat (x div 8))) (unat (x mod 8))"
  by (simp add: bit_array_test_def)

lemma bit_array_test_set: "bit_array_test (bit_array_set b x) y \<longleftrightarrow> x = y \<or> bit_array_test b y"
  using div_mod_8_eq_iff [of x y] unat_mod_8 [of x]
  by (auto simp: bit_array_test_iff bit_array_set_def)

lemma bit_array_test_clear: "bit_array_test (bit_array_clear b x) y \<longleftrightarrow> x \<noteq> y \<and> bit_array_test b y"
  using div_mod_8_eq_iff [of x y] unat_mod_8 [of x]
  by (auto simp: bit_array_test_iff bit_array_clear_def)

text \<open>Clearing a bit that was clear before it was set restores the array itself.\<close>

lemma bit_array_clear_set:
  assumes "\<not> bit_array_test b x"
  shows "bit_array_clear (bit_array_set b x) x = b"
proof -
  let ?i = "unat (x div 8)" and ?k = "unat (x mod 8)"
  have "\<not> bit (b ?i) ?k" using assms by (simp add: bit_array_test_iff)
  then have "b ?i OR 2 ^ ?k AND NOT (2 ^ ?k) = b ?i"
    using unat_mod_8 [of x] by (intro bit_word_eqI) auto
  moreover have "(b ?i OR 2 ^ ?k) AND NOT (2 ^ ?k) = b ?i"
    using unat_mod_8 [of x] \<open>\<not> bit (b ?i) ?k\<close> by (intro bit_word_eqI) auto
  ultimately show ?thesis by (simp add: bit_array_clear_def bit_array_set_def)
qed

end
