(* ===== verification/Ext2.thy ===== *)
theory Ext2
  imports Ide Bitmap
begin

text \<open>
  The ext2 file system of \<^verbatim>\<open>src/kernel/fs/ext2.c\<close>: blocks of 1024 bytes on a block device, mounting, inodes,
  links of directories, allocation of blocks and inodes, and formatting. The structures of
  \<^verbatim>\<open>src/kernel/include/fs/ext2/ext2.h\<close> are packed, so that a field is an offset into a memory. The arrays and
  structures on the stack are memories of their own, which start at address 0 and hold \<open>junk\<close> before they are
  filled. The messages that the operations print are not part of the state.
\<close>

section \<open>Constants and layouts\<close>

definition EXT2_VALID_FS :: u16 where "EXT2_VALID_FS = 1"
definition EXT2_ERROR_FS :: u16 where "EXT2_ERROR_FS = 2"
definition EXT2_ERRORS_RO :: u16 where "EXT2_ERRORS_RO = 2"
definition EXT2_OS_KARACAOS :: u32 where "EXT2_OS_KARACAOS = 10"
definition EXT2_DYNAMIC_REV :: u32 where "EXT2_DYNAMIC_REV = 1"
definition EXT2_S_IFDIR :: u16 where "EXT2_S_IFDIR = 0x4000"

text \<open>The structures are packed; a field is known by its offset.\<close>

definition s_inodes_count :: u32 where "s_inodes_count = 0"
definition s_blocks_count :: u32 where "s_blocks_count = 4"
definition s_r_blocks_count :: u32 where "s_r_blocks_count = 8"
definition s_free_blocks_count :: u32 where "s_free_blocks_count = 12"
definition s_free_inodes_count :: u32 where "s_free_inodes_count = 16"
definition s_first_data_block :: u32 where "s_first_data_block = 20"
definition s_log_block_size :: u32 where "s_log_block_size = 24"
definition s_log_frag_size :: u32 where "s_log_frag_size = 28"
definition s_blocks_per_group :: u32 where "s_blocks_per_group = 32"
definition s_frags_per_group :: u32 where "s_frags_per_group = 36"
definition s_inodes_per_group :: u32 where "s_inodes_per_group = 40"
definition s_mtime :: u32 where "s_mtime = 44"
definition s_wtime :: u32 where "s_wtime = 48"
definition s_mnt_count :: u32 where "s_mnt_count = 52"
definition s_max_mnt_count :: u32 where "s_max_mnt_count = 54"
definition s_magic :: u32 where "s_magic = 56"
definition s_state :: u32 where "s_state = 58"
definition s_errors :: u32 where "s_errors = 60"
definition s_minor_rev_level :: u32 where "s_minor_rev_level = 62"
definition s_lastcheck :: u32 where "s_lastcheck = 64"
definition s_checkinterval :: u32 where "s_checkinterval = 68"
definition s_creator_os :: u32 where "s_creator_os = 72"
definition s_rev_level :: u32 where "s_rev_level = 76"
definition s_def_resuid :: u32 where "s_def_resuid = 80"
definition s_def_resgid :: u32 where "s_def_resgid = 82"
definition s_first_ino :: u32 where "s_first_ino = 84"
definition s_inode_size :: u32 where "s_inode_size = 88"
definition s_block_group_nr :: u32 where "s_block_group_nr = 90"
definition s_feature_compat :: u32 where "s_feature_compat = 92"
definition s_feature_incompat :: u32 where "s_feature_incompat = 96"
definition s_feature_ro_compat :: u32 where "s_feature_ro_compat = 100"
definition s_uuid :: u32 where "s_uuid = 104"
definition s_volume_name :: u32 where "s_volume_name = 120"
definition s_last_mounted :: u32 where "s_last_mounted = 136"
definition s_algo_bitmap :: u32 where "s_algo_bitmap = 200"
definition s_prealloc_blocks :: u32 where "s_prealloc_blocks = 204"
definition s_prealloc_dir_blocks :: u32 where "s_prealloc_dir_blocks = 205"
definition s_default_mount_options :: u32 where "s_default_mount_options = 256"
definition s_first_meta_bg :: u32 where "s_first_meta_bg = 260"

lemmas superblock_layout = s_inodes_count_def s_blocks_count_def s_r_blocks_count_def s_free_blocks_count_def
  s_free_inodes_count_def s_first_data_block_def s_log_block_size_def s_log_frag_size_def s_blocks_per_group_def
  s_frags_per_group_def s_inodes_per_group_def s_mtime_def s_wtime_def s_mnt_count_def s_max_mnt_count_def s_magic_def
  s_state_def s_errors_def s_minor_rev_level_def s_lastcheck_def s_checkinterval_def s_creator_os_def s_rev_level_def
  s_def_resuid_def s_def_resgid_def s_first_ino_def s_inode_size_def s_block_group_nr_def s_feature_compat_def
  s_feature_incompat_def s_feature_ro_compat_def s_uuid_def s_volume_name_def s_last_mounted_def s_algo_bitmap_def
  s_prealloc_blocks_def s_prealloc_dir_blocks_def s_default_mount_options_def s_first_meta_bg_def

text \<open>A descriptor of a block group has 32 bytes; \<open>desc f i\<close> is the offset of a field of entry \<open>i\<close> of the table.\<close>

definition bg_block_bitmap :: u32 where "bg_block_bitmap = 0"
definition bg_inode_bitmap :: u32 where "bg_inode_bitmap = 4"
definition bg_inode_table :: u32 where "bg_inode_table = 8"
definition bg_free_blocks_count :: u32 where "bg_free_blocks_count = 12"
definition bg_free_inodes_count :: u32 where "bg_free_inodes_count = 14"
definition bg_used_dirs_count :: u32 where "bg_used_dirs_count = 16"
definition bg_pad :: u32 where "bg_pad = 18"
definition bg_reserved :: u32 where "bg_reserved = 20"

definition desc :: "u32 \<Rightarrow> u32 \<Rightarrow> u32" where
  "desc f i = i * 32 + f"

text \<open>An inode has 128 bytes.\<close>

definition sizeof_inode :: u32 where "sizeof_inode = 128"

definition i_mode :: u32 where "i_mode = 0"
definition i_uid :: u32 where "i_uid = 2"
definition i_size :: u32 where "i_size = 4"
definition i_atime :: u32 where "i_atime = 8"
definition i_ctime :: u32 where "i_ctime = 12"
definition i_mtime :: u32 where "i_mtime = 16"
definition i_dtime :: u32 where "i_dtime = 20"
definition i_gid :: u32 where "i_gid = 24"
definition i_links_count :: u32 where "i_links_count = 26"
definition i_blocks :: u32 where "i_blocks = 28"
definition i_flags :: u32 where "i_flags = 32"
definition i_osd1 :: u32 where "i_osd1 = 36"
definition i_block :: u32 where "i_block = 40"
definition i_generation :: u32 where "i_generation = 100"
definition i_file_acl :: u32 where "i_file_acl = 104"
definition i_dir_acl :: u32 where "i_dir_acl = 108"
definition i_faddr :: u32 where "i_faddr = 112"
definition i_osd2 :: u32 where "i_osd2 = 116"

lemmas inode_layout = i_mode_def i_uid_def i_size_def i_atime_def i_ctime_def i_mtime_def i_dtime_def i_gid_def i_links_count_def
  i_blocks_def i_flags_def i_osd1_def i_block_def i_generation_def i_file_acl_def i_dir_acl_def i_faddr_def i_osd2_def

section \<open>Blocks\<close>

primrec read_block_sectors ::
  "nat \<Rightarrow> 'w port_io \<Rightarrow> block_device \<Rightarrow> u32 \<Rightarrow> u32 \<Rightarrow> u32 \<Rightarrow> mem \<times> 'w \<Rightarrow> (SYS_RET \<times> mem \<times> 'w) option" where
  "read_block_sectors 0 io device first i buffer s = Some (SYS_RET_NO_ERROR, s)"
| "read_block_sectors (Suc n) io device first i buffer s = do {
     (ret, s1) \<leftarrow> block_dev_read io device (ucast (first + i)) (buffer + i * sectorSize device) s;
     if ret \<noteq> SYS_RET_NO_ERROR then Some (ret, s1)
     else read_block_sectors n io device first (i + 1) buffer s1
   }"

definition ext2_read_blocks ::
  "'w port_io \<Rightarrow> block_device \<Rightarrow> u32 \<Rightarrow> u32 \<Rightarrow> u32 \<Rightarrow> mem \<times> 'w \<Rightarrow> (SYS_RET \<times> mem \<times> 'w) option" where
  "ext2_read_blocks io device block_id buffer count s =
     (if sectorSize device = 0 then None
      else let sectors_per_block = 1024 div sectorSize device
        in read_block_sectors (unat (count * sectors_per_block)) io device (block_id * sectors_per_block) 0 buffer s)"

primrec write_block_sectors ::
  "nat \<Rightarrow> 'w port_io \<Rightarrow> block_device \<Rightarrow> u32 \<Rightarrow> u32 \<Rightarrow> u32 \<Rightarrow> mem \<times> 'w \<Rightarrow> (SYS_RET \<times> mem \<times> 'w) option" where
  "write_block_sectors 0 io device first i buffer s = Some (SYS_RET_NO_ERROR, s)"
| "write_block_sectors (Suc n) io device first i buffer s = do {
     (ret, s1) \<leftarrow> block_dev_write io device (ucast (first + i)) (buffer + i * sectorSize device) s;
     if ret \<noteq> SYS_RET_NO_ERROR then Some (ret, s1)
     else write_block_sectors n io device first (i + 1) buffer s1
   }"

definition ext2_write_blocks ::
  "'w port_io \<Rightarrow> block_device \<Rightarrow> u32 \<Rightarrow> u32 \<Rightarrow> u32 \<Rightarrow> mem \<times> 'w \<Rightarrow> (SYS_RET \<times> mem \<times> 'w) option" where
  "ext2_write_blocks io device block_id buffer count s =
     (if sectorSize device = 0 then None
      else let sectors_per_block = 1024 div sectorSize device
        in write_block_sectors (unat (count * sectors_per_block)) io device (block_id * sectors_per_block) 0 buffer s)"

text \<open>A block read to or written from a structure or an array of its own; the result is not looked at.\<close>

definition load_block :: "'w port_io \<Rightarrow> block_device \<Rightarrow> u32 \<Rightarrow> mem \<Rightarrow> 'w \<Rightarrow> (mem \<times> 'w) option" where
  "load_block io device block_id m w = do { (_, m1, w1) \<leftarrow> ext2_read_blocks io device block_id 0 1 (m, w); Some (m1, w1) }"

definition save_block :: "'w port_io \<Rightarrow> block_device \<Rightarrow> u32 \<Rightarrow> mem \<Rightarrow> 'w \<Rightarrow> 'w option" where
  "save_block io device block_id m w = do { (_, _, w1) \<leftarrow> ext2_write_blocks io device block_id 0 1 (m, w); Some w1 }"

section \<open>Bitmaps of inodes\<close>

definition is_inode_allocated :: "mem \<Rightarrow> u32 \<Rightarrow> bool" where
  "is_inode_allocated inode_bitmap inode_nr \<longleftrightarrow> inode_bitmap (inode_nr div 8) AND push_bit (unat (inode_nr mod 8)) 1 \<noteq> 0"

definition set_inode_bit :: "u32 \<Rightarrow> mem \<Rightarrow> mem" where
  "set_inode_bit inode_nr inode_bitmap = inode_bitmap(inode_nr div 8 := inode_bitmap (inode_nr div 8) OR push_bit (unat (inode_nr mod 8)) 1)"

definition clear_inode_bit :: "u32 \<Rightarrow> mem \<Rightarrow> mem" where
  "clear_inode_bit inode_nr inode_bitmap =
     inode_bitmap(inode_nr div 8 := inode_bitmap (inode_nr div 8) AND NOT (push_bit (unat (inode_nr mod 8)) 1))"

section \<open>Mounted devices\<close>

text \<open>
  The superblock of the context, the buffer of the device and the devices behind it. The structures and arrays are
  memories of their own, which start at 0.
\<close>

record 'w ext2_mount_context =
  ctx_block_device :: block_device
  ctx_superblock :: mem
  rw_buffer :: mem
  ctx_world :: 'w

definition ext2_mount_device :: "'w port_io \<Rightarrow> block_device \<Rightarrow> 'w ext2_mount_context \<Rightarrow> (SYS_RET \<times> 'w ext2_mount_context) option" where
  "ext2_mount_device io block_device mnt =
     (if sectorSize block_device \<noteq> 512 then Some (SYS_RET_OUT_OF_RANGE, mnt)
      else do {
        (ret, sb, w) \<leftarrow> ext2_read_blocks io block_device 1 0 1 (ctx_superblock mnt, ctx_world mnt);
        let mnt1 = mnt\<lparr>ctx_superblock := sb, ctx_world := w\<rparr>;
        if ret \<noteq> SYS_RET_NO_ERROR then Some (ret, mnt1)
        else do {
          let sb1 = store16 s_state EXT2_ERROR_FS sb;
          (ret, sb2, w2) \<leftarrow> ext2_write_blocks io block_device 1 0 1 (sb1, w);
          let mnt2 = mnt1\<lparr>ctx_superblock := sb2, ctx_world := w2\<rparr>;
          if ret \<noteq> SYS_RET_NO_ERROR then Some (ret, mnt2)
          else Some (ret, mnt2\<lparr>ctx_block_device := block_device\<rparr>)
        }
      })"

text \<open>The device of a cleared context is the null pointer, so it is left to the parameter \<open>null_device\<close>.\<close>

definition ext2_unmount_device :: "'w port_io \<Rightarrow> block_device \<Rightarrow> 'w ext2_mount_context \<Rightarrow> (SYS_RET \<times> 'w ext2_mount_context) option" where
  "ext2_unmount_device io null_device mnt = do {
     let sb = store16 s_state EXT2_VALID_FS (ctx_superblock mnt);
     (ret, sb1, w) \<leftarrow> ext2_write_blocks io (ctx_block_device mnt) 1 0 1 (sb, ctx_world mnt);
     let mnt1 = mnt\<lparr>ctx_superblock := sb1, ctx_world := w\<rparr>;
     if ret \<noteq> SYS_RET_NO_ERROR then Some (ret, mnt1)
     else Some (ret, mnt1\<lparr>ctx_superblock := (\<lambda>_. 0), ctx_block_device := null_device\<rparr>)
   }"

section \<open>Inodes\<close>

text \<open>
  The group of an inode and its index there; the table of descriptors has 32 entries and the bitmap 1024 bytes, so
  other inodes are outside the arrays. A division by zero and an access outside them have no result.
\<close>

definition inode_place :: "mem \<Rightarrow> u32 \<Rightarrow> (u32 \<times> u32) option" where
  "inode_place superblock inode_nr =
     (let inodes_per_group = load32 superblock s_inodes_per_group
      in if inodes_per_group = 0 then None
         else let g = (inode_nr - 1) div inodes_per_group; i = (inode_nr - 1) mod inodes_per_group
           in if g < 32 \<and> i div 8 < 1024 then Some (g, i) else None)"

definition copy_inode :: "u32 \<Rightarrow> mem \<Rightarrow> u32 \<Rightarrow> mem \<Rightarrow> mem" where
  "copy_inode d dst s src = place d 128 (\<lambda>k. src (s + of_nat k)) dst"

text \<open>The arrays on the stack hold \<open>junk\<close> before they are filled; an inode is a memory of 128 bytes.\<close>

definition ext2_read_inode ::
  "'w port_io \<Rightarrow> mem \<Rightarrow> mem \<Rightarrow> u32 \<Rightarrow> 'w ext2_mount_context \<Rightarrow> (SYS_RET \<times> mem \<times> 'w ext2_mount_context) option" where
  "ext2_read_inode io junk inode inode_nr mnt = do {
     (target_block_group, local_inode_index) \<leftarrow> inode_place (ctx_superblock mnt) inode_nr;
     let device = ctx_block_device mnt;
     (desc_table, w1) \<leftarrow> load_block io device 2 junk (ctx_world mnt);
     (inode_bitmap_block, w2) \<leftarrow> load_block io device (load32 desc_table (desc bg_inode_bitmap target_block_group)) (\<lambda>_. 0) w1;
     if \<not> is_inode_allocated inode_bitmap_block local_inode_index
     then Some (SYS_RET_NOT_FOUND, snd (kaos_memset 0 0 sizeof_inode inode), mnt\<lparr>ctx_world := w2\<rparr>)
     else do {
       let target_block = load32 desc_table (desc bg_inode_table target_block_group) + local_inode_index div 8;
       (rw, w3) \<leftarrow> load_block io device target_block (rw_buffer mnt) w2;
       Some (SYS_RET_NO_ERROR, copy_inode 0 inode (local_inode_index mod 8 * sizeof_inode) rw, mnt\<lparr>rw_buffer := rw, ctx_world := w3\<rparr>)
     }
   }"

definition ext2_write_inode ::
  "'w port_io \<Rightarrow> mem \<Rightarrow> mem \<Rightarrow> u32 \<Rightarrow> 'w ext2_mount_context \<Rightarrow> (SYS_RET \<times> 'w ext2_mount_context) option" where
  "ext2_write_inode io junk inode inode_nr mnt = do {
     (target_block_group, local_inode_index) \<leftarrow> inode_place (ctx_superblock mnt) inode_nr;
     let device = ctx_block_device mnt;
     (desc_table, w1) \<leftarrow> load_block io device 2 junk (ctx_world mnt);
     let bitmap_block = load32 desc_table (desc bg_inode_bitmap target_block_group);
     (inode_bitmap_block, w2) \<leftarrow> load_block io device bitmap_block (\<lambda>_. 0) w1;
     w3 \<leftarrow> save_block io device bitmap_block (set_inode_bit local_inode_index inode_bitmap_block) w2;
     let target_block = load32 desc_table (desc bg_inode_table target_block_group) + local_inode_index div 8;
     (rw, w4) \<leftarrow> load_block io device target_block (rw_buffer mnt) w3;
     let rw1 = copy_inode (local_inode_index mod 8 * sizeof_inode) rw 0 inode;
     w5 \<leftarrow> save_block io device target_block rw1 w4;
     Some (SYS_RET_NO_ERROR, mnt\<lparr>rw_buffer := rw1, ctx_world := w5\<rparr>)
   }"

section \<open>Directories\<close>

record ext2_directory_element =
  el_inode :: u32
  rec_len :: u16
  name_len :: u8
  file_type :: u8
  el_name :: u32
  buffer_pos :: u32

definition directory_element_at :: "mem \<Rightarrow> u32 \<Rightarrow> ext2_directory_element" where
  "directory_element_at m buffer = \<lparr>el_inode = load32 m buffer, rec_len = load16 m (buffer + 4), name_len = m (buffer + 6),
     file_type = m (buffer + 7), el_name = buffer + 8, buffer_pos = buffer\<rparr>"

definition ext2_init_dir_walk :: "mem \<Rightarrow> u32 \<Rightarrow> SYS_RET \<times> ext2_directory_element" where
  "ext2_init_dir_walk m buffer = (SYS_RET_NO_ERROR, directory_element_at m buffer)"

definition ext2_dir_walk_next :: "mem \<Rightarrow> ext2_directory_element \<Rightarrow> SYS_RET \<times> ext2_directory_element" where
  "ext2_dir_walk_next m element = (SYS_RET_NO_ERROR, directory_element_at m (buffer_pos element + ucast (rec_len element)))"

text \<open>The walk to the first entry without an inode; the buffer has 4096 bytes.\<close>

partial_function (option) dir_walk_end :: "mem \<Rightarrow> ext2_directory_element \<Rightarrow> ext2_directory_element option" where
  "dir_walk_end m element =
     (if el_inode element = 0 then Some element
      else if unat (buffer_pos element) + unat (rec_len element) + 8 > 4096 then None
      else dir_walk_end m (snd (ext2_dir_walk_next m element)))"

text \<open>
  An entry put at the end of the list, and the new end behind it. The characters of \<open>name\<close> lie in memory with a
  terminator after them; what lies outside them or outside the buffer has no result.
\<close>

definition put_link :: "u32 \<Rightarrow> u8 list \<Rightarrow> u8 \<Rightarrow> u8 \<Rightarrow> u32 \<Rightarrow> mem \<Rightarrow> mem option" where
  "put_link pos name ty nlen inode rw = do {
     let name_len_with_padding = (ucast nlen + (4 - ucast nlen mod 4) mod 4 :: u16);
     let reclen = 8 + name_len_with_padding;
     if unat nlen > length name + 1 \<or> unat pos + unat reclen + 8 > 4096 then None
     else do {
       let rw1 = store32 pos inode rw;
       let rw2 = store16 (pos + 4) reclen rw1;
       let rw3 = rw2(pos + 6 := nlen, pos + 7 := ty);
       let rw4 = place (pos + 8) (unat nlen) (\<lambda>k. (name @ [0]) ! k) rw3;
       let rw5 = snd (kaos_memset (pos + 8 + ucast nlen) 0 (4 - ucast nlen mod 4) rw4);
       let pos1 = pos + ucast reclen;
       let rw6 = store32 pos1 0 rw5;
       let rw7 = store16 (pos1 + 4) (ucast (1024 - pos1)) rw6;
       Some (rw7(pos1 + 6 := 0, pos1 + 7 := 0))
     }
   }"

definition ext2_add_link ::
  "'w port_io \<Rightarrow> mem \<Rightarrow> u32 \<Rightarrow> u8 list \<Rightarrow> u8 \<Rightarrow> u8 \<Rightarrow> u32 \<Rightarrow> 'w ext2_mount_context \<Rightarrow> (SYS_RET \<times> 'w ext2_mount_context) option" where
  "ext2_add_link io junk dir_inode name ty nlen inode mnt = do {
     (_, dir, mnt1) \<leftarrow> ext2_read_inode io junk junk dir_inode mnt;
     (_, added_inode, mnt2) \<leftarrow> ext2_read_inode io junk junk inode mnt1;
     let dir_block_nr = load32 dir i_block;
     (rw, w3) \<leftarrow> load_block io (ctx_block_device mnt2) dir_block_nr (rw_buffer mnt2) (ctx_world mnt2);
     element \<leftarrow> dir_walk_end rw (snd (ext2_init_dir_walk rw 0));
     rw1 \<leftarrow> put_link (buffer_pos element) name ty nlen inode rw;
     w4 \<leftarrow> save_block io (ctx_block_device mnt2) dir_block_nr rw1 w3;
     let added1 = store16 i_links_count (load16 added_inode i_links_count + 1) added_inode;
     (_, mnt5) \<leftarrow> ext2_write_inode io junk added1 inode (mnt2\<lparr>rw_buffer := rw1, ctx_world := w4\<rparr>);
     Some (SYS_RET_NO_ERROR, mnt5)
   }"

section \<open>Making a file system\<close>

definition fill_superblock :: "u32 \<Rightarrow> u32 \<Rightarrow> u32 \<Rightarrow> u32 \<Rightarrow> mem \<Rightarrow> (SYS_RET \<times> mem) option" where
  "fill_superblock block_size sector_size nr_kbytes inodes_per_group superblock =
     (if sector_size > 1024 then Some (SYS_RET_OUT_OF_RANGE, superblock)
      else if sector_size = 0 \<or> block_size * 8 = 0 then None
      else
        (let nr_blocks = nr_kbytes;
             nr_block_groups = nr_blocks div (block_size * 8) + 1;
             nr_inodes = nr_block_groups * inodes_per_group;
             sb1 = store32 s_inodes_count nr_inodes (snd (kaos_memset 0 0 1024 superblock));
             sb2 = store32 s_blocks_count nr_blocks sb1;
             sb3 = store32 s_r_blocks_count 100 sb2;
             sb4 = store32 s_free_blocks_count nr_blocks sb3;
             sb5 = store32 s_free_inodes_count nr_inodes sb4;
             sb6 = store32 s_first_data_block (if block_size > 1024 then 0 else 1) sb5;
             sb7 = store32 s_log_frag_size 0 (store32 s_log_block_size 0 sb6);
             sb8 = store32 s_frags_per_group (block_size * 8) (store32 s_blocks_per_group (block_size * 8) sb7);
             sb9 = store32 s_inodes_per_group inodes_per_group sb8;
             sb10 = store16 s_mnt_count 0 (store32 s_wtime 0 (store32 s_mtime 0 sb9));
             sb11 = store16 s_magic 0xEF53 (store16 s_max_mnt_count 32767 sb10);
             sb12 = store16 s_errors EXT2_ERRORS_RO (store16 s_state EXT2_VALID_FS sb11);
             sb13 = store32 s_checkinterval 0 (store32 s_lastcheck 0 (store16 s_minor_rev_level 0 sb12));
             sb14 = store32 s_rev_level EXT2_DYNAMIC_REV (store32 s_creator_os EXT2_OS_KARACAOS sb13);
             sb15 = store16 s_def_resgid 0 (store16 s_def_resuid 0 sb14);
             sb16 = store16 s_block_group_nr 0 (store16 s_inode_size 128 (store32 s_first_ino 11 sb15));
             sb17 = store32 s_feature_ro_compat 0 (store32 s_feature_incompat 0 (store32 s_feature_compat 0 sb16));
             sb18 = place s_uuid 16 (\<lambda>k. map chr ''wowdiskuuid10000'' ! k) sb17;
             sb19 = place s_volume_name 9 (\<lambda>k. (map chr ''KaracaOS'' @ [0]) ! k) sb18;
             sb20 = sb19(s_last_mounted := chr CHR ''/'', s_last_mounted + 1 := 0);
             sb21 = (store32 s_algo_bitmap 0 sb20)(s_prealloc_blocks := 0, s_prealloc_dir_blocks := 0)
         in Some (SYS_RET_NO_ERROR, store32 s_first_meta_bg 0 (store32 s_default_mount_options 0 sb21))))"

text \<open>\<open>table\<close> is the address of the table of descriptors.\<close>

definition fill_block_group_descriptor :: "u32 \<Rightarrow> mem \<Rightarrow> u32 \<Rightarrow> mem \<Rightarrow> mem option" where
  "fill_block_group_descriptor table superblock bg_index m =
     (let total_blocks = load32 superblock s_blocks_count;
          inodes_per_group = 1712;
          blocks_per_group = load32 superblock s_blocks_per_group;
          block_size = push_bit (unat (load32 superblock s_log_block_size)) 1024 :: u32;
          inode_size = ucast (load16 superblock s_inode_size) :: u32
      in if inode_size = 0 \<or> block_size div inode_size = 0 then None
         else
           (let inode_table_length = inodes_per_group div (block_size div inode_size);
                free_blocks_count =
                  (if (bg_index + 1) * blocks_per_group > total_blocks
                   then total_blocks - bg_index * blocks_per_group - inode_table_length - 4 - 1
                   else blocks_per_group - inode_table_length - 4);
                at = (\<lambda>f. table + desc f bg_index);
                m1 = store32 (at bg_block_bitmap) (bg_index * blocks_per_group + 3) m;
                m2 = store32 (at bg_inode_bitmap) (bg_index * blocks_per_group + 4) m1;
                m3 = store32 (at bg_inode_table) (bg_index * blocks_per_group + 5) m2;
                m4 = store16 (at bg_free_blocks_count) (ucast free_blocks_count) m3;
                m5 = store16 (at bg_free_inodes_count) (ucast inodes_per_group) m4;
                m6 = store16 (at bg_pad) 0 (store16 (at bg_used_dirs_count) 0 m5)
            in Some (fold (\<lambda>k. store16 (at bg_reserved + 2 * of_nat k) 0) [0..<6] m6)))"

definition setup_initial_block_bitmap :: "u32 \<Rightarrow> mem \<Rightarrow> mem option" where
  "setup_initial_block_bitmap inode_table_length initial_block_bitmap =
     (let n = inode_table_length + 4
      in if n div 8 \<ge> 1024 then None
         else
           (let b1 = fold (\<lambda>i b. b(of_nat i := 0xFF)) [0..<unat (n div 8)] initial_block_bitmap;
                last_val = fold (\<lambda>_ v. push_bit 1 v + 1) [0..<unat (n mod 8)] 0
            in Some (b1(n div 8 := last_val))))"

definition setup_initial_inode_bitmap :: "u32 \<Rightarrow> mem \<Rightarrow> mem option" where
  "setup_initial_inode_bitmap inodes_per_group initial_inode_bitmap =
     (if inodes_per_group div 8 \<ge> 1024 then None
      else
        (let transition_byte = fold (\<lambda>_ v. push_bit 1 v) [0..<unat (inodes_per_group mod 8)] 0xFF;
             b1 = initial_inode_bitmap(inodes_per_group div 8 := transition_byte);
             b2 = fold (\<lambda>i b. b(of_nat i := 0)) [0..<unat (inodes_per_group div 8)] b1
         in Some (fold (\<lambda>i b. b(of_nat i := 0xFF)) [unat (inodes_per_group div 8) + 1..<1024] b2)))"

definition create_dir_inode :: "mem \<Rightarrow> SYS_RET \<times> mem" where
  "create_dir_inode root =
     (let r1 = store16 i_uid 0 (store16 i_mode (EXT2_S_IFDIR OR 0x1FF) root);
          r2 = store32 i_size 1024 r1;
          r3 = store32 i_dtime 0 (store32 i_mtime 0 (store32 i_ctime 0 (store32 i_atime 0 r2)));
          r4 = store16 i_links_count 0 (store16 i_gid 0 r3);
          r5 = store32 i_osd1 0 (store32 i_flags 0 (store32 i_blocks 2 r4));
          r6 = snd (kaos_memset i_block 0 60 r5);
          r7 = store32 i_faddr 0 (store32 i_dir_acl 0 (store32 i_file_acl 0 (store32 i_generation 0 r6)))
      in (SYS_RET_NO_ERROR, snd (kaos_memset i_osd2 0 12 r7)))"

section \<open>Allocation\<close>

text \<open>The first clear bit of a byte that is not full.\<close>

definition first_clear_bit :: "u8 \<Rightarrow> u32" where
  "first_clear_bit v = of_nat (case find (\<lambda>k. v AND push_bit k 1 = 0) [0..<8] of Some k \<Rightarrow> k | None \<Rightarrow> 8)"

text \<open>
  The search of one group: at most one block is taken from each byte. \<open>out\<close> is the array of the caller, of which \<open>n\<close>
  elements have been written; it has room for \<open>count\<close>.
\<close>

fun scan_block_bitmap :: "u32 \<Rightarrow> nat \<Rightarrow> mem \<Rightarrow> u32 list \<Rightarrow> nat \<Rightarrow> (nat \<Rightarrow> u32) \<Rightarrow> (bool \<times> (nat \<Rightarrow> u32)) option" where
  "scan_block_bitmap base count bm [] n out = Some (False, out)"
| "scan_block_bitmap base count bm (j # js) n out =
     (if bm j = 0xFF then scan_block_bitmap base count bm js n out
      else if n \<ge> count then None
      else
        (let out1 = out(n := base + j * 8 + first_clear_bit (bm j) + 1)
         in if Suc n = count then Some (True, out1) else scan_block_bitmap base count bm js (Suc n) out1))"

definition bytes_1024 :: "u32 list" where "bytes_1024 = map of_nat [0..<1024]"

text \<open>The bits of the blocks that were found.\<close>

primrec mark_blocks :: "u32 \<Rightarrow> u32 list \<Rightarrow> mem \<Rightarrow> mem option" where
  "mark_blocks blocks_per_group [] bm = Some bm"
| "mark_blocks blocks_per_group (b # bs) bm =
     (if blocks_per_group = 0 then None
      else
        (let x = (b - 1) mod blocks_per_group
         in if x div 8 < 1024 then mark_blocks blocks_per_group bs (bm(x div 8 := bm (x div 8) OR push_bit (unat (x mod 8)) 1))
            else None))"

fun allocate_in_groups ::
  "u32 list \<Rightarrow> 'w port_io \<Rightarrow> mem \<Rightarrow> nat \<Rightarrow> mem \<Rightarrow> (nat \<Rightarrow> u32) \<Rightarrow> 'w ext2_mount_context \<Rightarrow>
     (SYS_RET \<times> (nat \<Rightarrow> u32) \<times> 'w ext2_mount_context) option" where
  "allocate_in_groups [] io junk count desc_table out mnt = Some (SYS_RET_NO_ERROR, out, mnt)"
| "allocate_in_groups (i # is) io junk count desc_table out mnt =
     (let bitmap_block = load32 desc_table (desc bg_block_bitmap i);
          free_blocks = load16 desc_table (desc bg_free_blocks_count i);
          blocks_per_group = load32 (ctx_superblock mnt) s_blocks_per_group
      in if bitmap_block = 0 then Some (SYS_RET_NOT_FOUND, out, mnt)
         else if unat free_blocks < count then allocate_in_groups is io junk count desc_table out mnt
         else do {
           (bm, w1) \<leftarrow> load_block io (ctx_block_device mnt) bitmap_block junk (ctx_world mnt);
           (found_all, out1) \<leftarrow> scan_block_bitmap (i * blocks_per_group) count bm bytes_1024 0 out;
           if found_all then do {
             bm1 \<leftarrow> mark_blocks blocks_per_group (map out1 [0..<count]) bm;
             w2 \<leftarrow> save_block io (ctx_block_device mnt) bitmap_block bm1 w1;
             let sb = store32 s_free_blocks_count (load32 (ctx_superblock mnt) s_free_blocks_count - of_nat count) (ctx_superblock mnt);
             let desc_table1 = store16 (desc bg_free_blocks_count i) (free_blocks - of_nat count) desc_table;
             w3 \<leftarrow> save_block io (ctx_block_device mnt) 2 desc_table1 w2;
             Some (SYS_RET_NO_ERROR, out1, mnt\<lparr>ctx_superblock := sb, ctx_world := w3\<rparr>)
           }
           else allocate_in_groups is io junk count desc_table out1 (mnt\<lparr>ctx_world := w1\<rparr>)
         })"

definition groups_32 :: "u32 list" where "groups_32 = map of_nat [0..<32]"

definition allocate_blocks ::
  "'w port_io \<Rightarrow> mem \<Rightarrow> nat \<Rightarrow> (nat \<Rightarrow> u32) \<Rightarrow> 'w ext2_mount_context \<Rightarrow> (SYS_RET \<times> (nat \<Rightarrow> u32) \<times> 'w ext2_mount_context) option" where
  "allocate_blocks io junk count allocated_blocks mnt = do {
     (desc_table, w1) \<leftarrow> load_block io (ctx_block_device mnt) 2 junk (ctx_world mnt);
     allocate_in_groups groups_32 io junk count desc_table allocated_blocks (mnt\<lparr>ctx_world := w1\<rparr>)
   }"

text \<open>The end of \<^verbatim>\<open>allocate_inode\<close>: bit \<open>k\<close> of byte \<open>j\<close> of the bitmap of group \<open>i\<close> is set and the counts are adjusted.\<close>

definition take_inode ::
  "'w port_io \<Rightarrow> bool \<Rightarrow> u32 \<Rightarrow> u32 \<Rightarrow> u32 \<Rightarrow> mem \<Rightarrow> mem \<Rightarrow> 'w ext2_mount_context \<Rightarrow> 'w ext2_mount_context option" where
  "take_inode io is_dir i j k inode_bitmap desc_table mnt =
     (if i < 32 \<and> j < 1024 then do {
        let sb = store32 s_free_inodes_count (load32 (ctx_superblock mnt) s_free_inodes_count - 1) (ctx_superblock mnt);
        let bm = inode_bitmap(j := inode_bitmap j OR push_bit (unat k) 1);
        w1 \<leftarrow> save_block io (ctx_block_device mnt) (load32 desc_table (desc bg_inode_bitmap i)) bm (ctx_world mnt);
        let d1 = store16 (desc bg_free_inodes_count i) (load16 desc_table (desc bg_free_inodes_count i) - 1) desc_table;
        let d2 = (if is_dir then store16 (desc bg_used_dirs_count i) (load16 d1 (desc bg_used_dirs_count i) + 1) d1 else d1);
        w2 \<leftarrow> save_block io (ctx_block_device mnt) 2 d2 w1;
        Some (mnt\<lparr>ctx_superblock := sb, ctx_world := w2\<rparr>)
      } else None)"

text \<open>The search of all groups, which goes on after an inode has been found; \<open>j\<close> and \<open>k\<close> are left where it ends.\<close>

record inode_search =
  is_found :: bool
  is_j :: u32
  is_k :: u32
  is_inode :: u32
  is_bitmap :: mem

definition search_group :: "u32 \<Rightarrow> mem \<Rightarrow> inode_search \<Rightarrow> inode_search" where
  "search_group base bm st =
     (case find (\<lambda>j. bm j \<noteq> 0xFF) bytes_1024 of
        None \<Rightarrow> st\<lparr>is_j := 1024, is_bitmap := bm\<rparr>
      | Some j \<Rightarrow> st\<lparr>is_found := True, is_j := j, is_k := first_clear_bit (bm j),
          is_inode := base + j * 8 + first_clear_bit (bm j) + 1, is_bitmap := bm\<rparr>)"

fun search_inode_groups ::
  "u32 list \<Rightarrow> 'w port_io \<Rightarrow> mem \<Rightarrow> inode_search \<Rightarrow> 'w ext2_mount_context \<Rightarrow> (inode_search \<times> 'w ext2_mount_context) option" where
  "search_inode_groups [] io desc_table st mnt = Some (st, mnt)"
| "search_inode_groups (i # is) io desc_table st mnt =
     (if load16 desc_table (desc bg_free_inodes_count i) \<noteq> 0 then do {
        (bm, w1) \<leftarrow> load_block io (ctx_block_device mnt) (load32 desc_table (desc bg_inode_bitmap i)) (is_bitmap st) (ctx_world mnt);
        search_inode_groups is io desc_table (search_group (i * load32 (ctx_superblock mnt) s_inodes_per_group) bm st) (mnt\<lparr>ctx_world := w1\<rparr>)
      }
      else search_inode_groups is io desc_table st mnt)"

text \<open>Returned are the status, the number of the inode and the context; after the search of all groups \<open>i\<close> is 32.\<close>

definition allocate_inode ::
  "'w port_io \<Rightarrow> mem \<Rightarrow> u32 \<Rightarrow> bool \<Rightarrow> bool \<Rightarrow> 'w ext2_mount_context \<Rightarrow> (SYS_RET \<times> u32 \<times> 'w ext2_mount_context) option" where
  "allocate_inode io junk allocated_inode is_dir allocate_given mnt = do {
     (desc_table, w1) \<leftarrow> load_block io (ctx_block_device mnt) 2 junk (ctx_world mnt);
     if allocate_given then do {
       (i, x) \<leftarrow> inode_place (ctx_superblock mnt) allocated_inode;
       let k = x mod 8;
       let j = x div 8;
       (bm, w2) \<leftarrow> load_block io (ctx_block_device mnt) (load32 desc_table (desc bg_inode_bitmap i)) junk w1;
       if bm j AND push_bit (unat k) 1 = 0 then do {
         mnt1 \<leftarrow> take_inode io is_dir i j k bm desc_table (mnt\<lparr>ctx_world := w2\<rparr>);
         Some (SYS_RET_NO_ERROR, allocated_inode, mnt1)
       }
       else Some (SYS_RET_UNAVAILABLE, allocated_inode, mnt\<lparr>ctx_world := w2\<rparr>)
     }
     else do {
       (st, mnt1) \<leftarrow> search_inode_groups groups_32 io desc_table
         \<lparr>is_found = False, is_j = 0, is_k = 0, is_inode = allocated_inode, is_bitmap = junk\<rparr> (mnt\<lparr>ctx_world := w1\<rparr>);
       if is_found st then do {
         mnt2 \<leftarrow> take_inode io is_dir 32 (is_j st) (is_k st) (is_bitmap st) desc_table mnt1;
         Some (SYS_RET_NO_ERROR, is_inode st, mnt2)
       }
       else Some (SYS_RET_NO_ERROR, is_inode st, mnt1)
     }
   }"

section \<open>Formatting\<close>

text \<open>The kernel's heap only grows.\<close>

definition kaos_kernmalloc :: "u32 \<Rightarrow> u32 \<Rightarrow> mem \<Rightarrow> u32 \<times> u32 \<times> mem" where
  "kaos_kernmalloc sz heap_ptr m = (heap_ptr, heap_ptr + sz, snd (kaos_memset heap_ptr 0 sz m))"

text \<open>The bitmap of the last group, in which the blocks behind the end of the device count as used.\<close>

definition pad_block_bitmap :: "u32 \<Rightarrow> mem \<Rightarrow> mem option" where
  "pad_block_bitmap free_blocks bm =
     (let breaking_byte = free_blocks div 8; nr_empty = free_blocks mod 8
      in if breaking_byte \<ge> 1024 then None
         else
           (let v = fold (\<lambda>_ v. push_bit 1 v + 1) [0..<unat nr_empty] (bm breaking_byte)
            in Some (fold (\<lambda>j b. b(of_nat j := 0xFF)) [unat breaking_byte + 1..<1024] (bm(breaking_byte := NOT v)))))"

text \<open>One group: superblock, descriptors, the two bitmaps, and an inode table of copies of the inode bitmap.\<close>

definition format_group ::
  "'w port_io \<Rightarrow> block_device \<Rightarrow> mem \<Rightarrow> u32 \<Rightarrow> mem \<Rightarrow> u32 \<Rightarrow> u32 \<Rightarrow> u32 \<Rightarrow> u32 \<times> mem \<times> mem \<times> 'w \<Rightarrow> (u32 \<times> mem \<times> mem \<times> 'w) option" where
  "format_group io device superblock table m inode_table_length block_group_count i st = do {
     let (curr, bbm, ibm, w) = st;
     w1 \<leftarrow> save_block io device curr superblock w;
     (_, _, w2) \<leftarrow> ext2_write_blocks io device (curr + 1) table 1 (m, w1);
     let free = load16 m (table + desc bg_free_blocks_count i);
     bbm1 \<leftarrow> (if i = block_group_count - 1 then pad_block_bitmap (ucast free + inode_table_length + 4) bbm else Some bbm);
     w3 \<leftarrow> save_block io device (curr + 2) bbm1 w2;
     ibm1 \<leftarrow> setup_initial_inode_bitmap 1712 ibm;
     w4 \<leftarrow> save_block io device (curr + 3) ibm1 w3;
     (curr1, w5) \<leftarrow> for_each (\<lambda>_ (c, w). do { w' \<leftarrow> save_block io device c ibm1 w; Some (c + 1, w') }) [0..<unat inode_table_length] (curr + 4, w4);
     Some (curr1 + ucast free, bbm1, ibm1, w5)
   }"

text \<open>The root directory and \<^verbatim>\<open>lost+found\<close>; \<open>uninit\<close> is what the numbers of their blocks are before they are assigned.\<close>

definition format_directory :: "'w port_io \<Rightarrow> mem \<Rightarrow> u32 \<Rightarrow> u32 \<Rightarrow> 'w ext2_mount_context \<Rightarrow> 'w ext2_mount_context option" where
  "format_directory io junk uninit nr mnt = do {
     let dir = snd (create_dir_inode junk);
     (_, out, mnt1) \<leftarrow> allocate_blocks io junk 1 (\<lambda>_. uninit) mnt;
     (_, mnt2) \<leftarrow> ext2_write_inode io junk (store32 i_block (out 0) dir) nr mnt1;
     Some mnt2
   }"

definition format_links :: "'w port_io \<Rightarrow> mem \<Rightarrow> 'w ext2_mount_context \<Rightarrow> 'w ext2_mount_context option" where
  "format_links io junk mnt = do {
     (_, mnt1) \<leftarrow> ext2_add_link io junk 2 (map chr ''.'') 0 1 2 mnt;
     (_, mnt2) \<leftarrow> ext2_add_link io junk 2 (map chr ''..'') 0 2 2 mnt1;
     (_, mnt3) \<leftarrow> ext2_add_link io junk 2 (map chr ''lost+found'') 0 10 11 mnt2;
     (_, mnt4) \<leftarrow> ext2_add_link io junk 11 (map chr ''.'') 0 1 11 mnt3;
     (_, mnt5) \<leftarrow> ext2_add_link io junk 11 (map chr ''..'') 0 2 2 mnt4;
     Some mnt5
   }"

text \<open>\<open>mnt0\<close> is the context on the stack; \<open>heap_ptr\<close> and \<open>m\<close> are the heap and the memory that it lies in.\<close>

definition ext2_format_device ::
  "'w port_io \<Rightarrow> mem \<Rightarrow> u32 \<Rightarrow> block_device \<Rightarrow> block_device \<Rightarrow> u32 \<Rightarrow> mem \<Rightarrow> 'w ext2_mount_context \<Rightarrow>
     (SYS_RET \<times> u32 \<times> mem \<times> 'w ext2_mount_context) option" where
  "ext2_format_device io junk uninit null_device device heap_ptr m mnt0 = do {
     let block_size = 1024;
     let inodes_per_group = 1712;
     let initial_block_bitmap = snd (kaos_memset 0 0 1024 junk);
     let initial_inode_bitmap = snd (kaos_memset 0 0 1024 junk);
     (ret, sb) \<leftarrow> fill_superblock block_size (sectorSize device) (size_in_kb device) inodes_per_group junk;
     if ret \<noteq> SYS_RET_NO_ERROR then Some (ret, heap_ptr, m, mnt0)
     else do {
       let count0 = load32 sb s_blocks_count div (block_size * 8) + 1;
       let block_group_count = (if count0 * 32 > 1024 then 51 else count0);
       let (table, heap1, m1) = kaos_kernmalloc 1024 heap_ptr m;
       let groups = map of_nat [0..<unat block_group_count];
       m2 \<leftarrow> for_each (fill_block_group_descriptor table sb) groups m1;
       let free_blocks = fold (\<lambda>i n. n + ucast (load16 m2 (table + desc bg_free_blocks_count i))) groups 0;
       let free_inodes = fold (\<lambda>i n. n + ucast (load16 m2 (table + desc bg_free_inodes_count i))) groups 0;
       let sb1 = store32 s_free_inodes_count free_inodes (store32 s_free_blocks_count free_blocks sb);
       let inode_table_length = inodes_per_group div (block_size div ucast (load16 sb1 s_inode_size));
       bbm \<leftarrow> setup_initial_block_bitmap inode_table_length initial_block_bitmap;
       (_, _, _, w1) \<leftarrow> for_each (format_group io device sb1 table m2 inode_table_length block_group_count) groups
         (1, bbm, initial_inode_bitmap, ctx_world mnt0);
       (ret, mnt1) \<leftarrow> ext2_mount_device io device (mnt0\<lparr>ctx_world := w1\<rparr>);
       if ret \<noteq> SYS_RET_NO_ERROR then Some (ret, heap1, m2, mnt1)
       else do {
         (_, _, mnt2) \<leftarrow> allocate_inode io junk 1 False True mnt1;
         (_, _, mnt3) \<leftarrow> allocate_inode io junk 2 True True mnt2;
         (_, _, mnt4) \<leftarrow> allocate_inode io junk 11 True True mnt3;
         mnt5 \<leftarrow> format_directory io junk uninit 2 mnt4;
         mnt6 \<leftarrow> format_directory io junk uninit 11 mnt5;
         mnt7 \<leftarrow> format_links io junk mnt6;
         (_, mnt8) \<leftarrow> ext2_unmount_device io null_device mnt7;
         Some (SYS_RET_NO_ERROR, heap1, m2, mnt8)
       }
     }
   }"

end
