(* ===== verification/Ext2Disk.thy ===== *)
theory Ext2Disk
  imports Ext2
begin

text \<open>
  What the operations of the ext2 file system do on a disk that works: a block that is written is read back, an inode
  that is written is read back and nothing else changes, blocks and inodes are allocated as the bitmaps say, and the
  bitmaps of a new group mark exactly the blocks and inodes that are not to be allocated. The locale \<open>block_disk\<close>
  holds what the file system relies on; it is interpreted on the disk driver.
\<close>

section \<open>The bitmaps satisfy the laws\<close>

lemma byte_bit_eq_iff: "(x :: u32) div 8 = y div 8 \<and> unat (x mod 8) = unat (y mod 8) \<longleftrightarrow> x = y"
  using div_mod_8_eq_iff [of x y] by (auto simp: word_unat_eq_iff)

lemma is_inode_allocated_bit: "is_inode_allocated b x \<longleftrightarrow> bit (b (x div 8)) (unat (x mod 8))"
  by (simp add: is_inode_allocated_def)

interpretation inodes: bitmap_ops is_inode_allocated set_inode_bit clear_inode_bit
proof
  show "is_inode_allocated (set_inode_bit x b) y \<longleftrightarrow> x = y \<or> is_inode_allocated b y" for x b y
    using byte_bit_eq_iff [of x y] unat_mod_8 [of x] by (auto simp: is_inode_allocated_bit set_inode_bit_def)
  show "is_inode_allocated (clear_inode_bit x b) y \<longleftrightarrow> x \<noteq> y \<and> is_inode_allocated b y" for x b y
    using byte_bit_eq_iff [of x y] unat_mod_8 [of x] by (auto simp: is_inode_allocated_bit clear_inode_bit_def)
qed

section \<open>Blocks on a disk that works\<close>

text \<open>Byte \<open>k\<close> of block \<open>b\<close>, and the block as a memory.\<close>

definition block_byte :: "('w \<Rightarrow> u32 \<Rightarrow> nat \<Rightarrow> u8) \<Rightarrow> 'w \<Rightarrow> u32 \<Rightarrow> nat \<Rightarrow> u8" where
  "block_byte sector w b k = sector w (2 * b + of_nat (k div 512)) (k mod 512)"

definition disk_block :: "('w \<Rightarrow> u32 \<Rightarrow> nat \<Rightarrow> u8) \<Rightarrow> 'w \<Rightarrow> u32 \<Rightarrow> mem" where
  "disk_block sector w b a = block_byte sector w b (unat a)"

abbreviation block_limit :: u32 where "block_limit \<equiv> 0x8000000"

lemma place_two: "place (buf + 512) 512 g (place buf 512 f m) = place buf 1024 (\<lambda>k. if k < 512 then f k else g (k - 512)) m"
  using place_append [of 512 512 buf g f m] by simp

lemma two_sectors:
  "read_block_sectors 2 io device first i buffer s = read_block_sectors (Suc (Suc 0)) io device first i buffer s"
  "write_block_sectors 2 io device first i buffer s = write_block_sectors (Suc (Suc 0)) io device first i buffer s"
  by (simp_all only: numeral_2_eq_2)

locale block_disk = good_disk io device ready sector
  for io :: "'w port_io" and device :: block_device and ready :: "'w \<Rightarrow> bool" and sector :: "'w \<Rightarrow> u32 \<Rightarrow> nat \<Rightarrow> u8" +
  assumes sector_bytes: "sectorSize device = 512"
begin

lemma sectors_of_block:
  assumes "b < block_limit"
  shows "b * 2 < 0x10000000" "b * 2 + 1 < 0x10000000"
proof -
  have "unat (b * 2) = unat b * 2" "unat (b * 2 + 1) = unat b * 2 + 1"
    using assms by (simp_all add: word_less_nat_alt unat_word_ariths)
  then show "b * 2 < 0x10000000" "b * 2 + 1 < 0x10000000" using assms by (simp_all add: word_less_nat_alt)
qed

lemma read_block:
  assumes "ready w" "b < block_limit"
  shows "\<exists>w'. ext2_read_blocks io device b buf 1 (m, w) = Some (SYS_RET_NO_ERROR, place buf 1024 (block_byte sector w b) m, w') \<and>
     ready w' \<and> sector w' = sector w"
proof -
  note s = sectors_of_block [OF assms(2)]
  obtain w1 where w1: "block_dev_read io device (ucast (b * 2)) buf (m, w) = Some (SYS_RET_NO_ERROR, place buf 512 (sector w (b * 2)) m, w1)"
      "ready w1" "sector w1 = sector w" using read_sector [OF assms(1) s(1)] by blast
  obtain w2 where w2: "block_dev_read io device (ucast (b * 2 + 1)) (buf + 512) (place buf 512 (sector w (b * 2)) m, w1) =
      Some (SYS_RET_NO_ERROR, place (buf + 512) 512 (sector w1 (b * 2 + 1)) (place buf 512 (sector w (b * 2)) m), w2)"
      "ready w2" "sector w2 = sector w1" using read_sector [OF w1(2) s(2)] by blast
  have "place (buf + 512) 512 (sector w (b * 2 + 1)) (place buf 512 (sector w (b * 2)) m) = place buf 1024 (block_byte sector w b) m"
    unfolding place_two by (rule place_cong) (auto simp: block_byte_def mult.commute not_less le_div_geq le_mod_geq)
  then show ?thesis using w1 w2 by (simp add: ext2_read_blocks_def sector_bytes two_sectors)
qed

lemma write_block:
  assumes "ready w" "b < block_limit"
  shows "\<exists>w'. ext2_write_blocks io device b buf 1 (m, w) = Some (SYS_RET_NO_ERROR, m, w') \<and> ready w' \<and>
     (\<forall>c k. c < block_limit \<longrightarrow> k < 1024 \<longrightarrow> block_byte sector w' c k = (if c = b then m (buf + of_nat k) else block_byte sector w c k))"
proof -
  note s = sectors_of_block [OF assms(2)]
  obtain w1 where w1: "block_dev_write io device (ucast (b * 2)) buf (m, w) = Some (SYS_RET_NO_ERROR, m, w1)" "ready w1"
      "\<forall>k i. i < 512 \<longrightarrow> sector w1 k i = (if k = b * 2 then m (buf + of_nat i) else sector w k i)" using write_sector [OF assms(1) s(1)] by blast
  obtain w2 where w2: "block_dev_write io device (ucast (b * 2 + 1)) (buf + 512) (m, w1) = Some (SYS_RET_NO_ERROR, m, w2)" "ready w2"
      "\<forall>k i. i < 512 \<longrightarrow> sector w2 k i = (if k = b * 2 + 1 then m (buf + 512 + of_nat i) else sector w1 k i)" using write_sector [OF w1(2) s(2)] by blast
  have "block_byte sector w2 c k = (if c = b then m (buf + of_nat k) else block_byte sector w c k)" if c: "c < block_limit" and k: "k < 1024" for c k
  proof -
    have u: "unat (c * 2) = unat c * 2" "unat (c * 2 + 1) = unat c * 2 + 1" "unat (b * 2) = unat b * 2" "unat (b * 2 + 1) = unat b * 2 + 1"
      using c assms(2) by (simp_all add: word_less_nat_alt unat_word_ariths)
    have parity: "2 * unat x = Suc (2 * unat y) \<longleftrightarrow> False" "Suc (2 * unat x) = 2 * unat y \<longleftrightarrow> False" for x y :: u32 by presburger+
    have ne: "(c * 2 = b * 2) = (c = b)" "(c * 2 + 1 = b * 2 + 1) = (c = b)" "c * 2 \<noteq> b * 2 + 1" "c * 2 + 1 \<noteq> b * 2"
      using u parity by (auto simp: word_unat_eq_iff mult.commute)
    show ?thesis
    proof (cases "k < 512")
      case True
      then show ?thesis using w1(3) w2(3) ne by (simp add: block_byte_def mult.commute)
    next
      case False
      define j where "j = k - 512"
      have j: "k = 512 + j" "j < 512" using False k by (simp_all add: j_def)
      have dm: "(512 + j) div 512 = 1" "(512 + j) mod 512 = j" using j(2) by simp_all
      then show ?thesis using w1(3) w2(3) ne j(2) dm unfolding block_byte_def j(1) by (simp add: mult.commute add.assoc)
    qed
  qed
  then show ?thesis using w1 w2 by (auto simp: ext2_write_blocks_def sector_bytes two_sectors)
qed

lemma load_block_spec:
  assumes "ready w" "b < block_limit"
  shows "\<exists>w'. load_block io device b m w = Some (place 0 1024 (block_byte sector w b) m, w') \<and> ready w' \<and> sector w' = sector w"
  using read_block [OF assms, of 0 m] by (auto simp: load_block_def)

lemma save_block_spec:
  assumes "ready w" "b < block_limit"
  shows "\<exists>w'. save_block io device b m w = Some w' \<and> ready w' \<and>
     (\<forall>c k. c < block_limit \<longrightarrow> k < 1024 \<longrightarrow> block_byte sector w' c k = (if c = b then m (of_nat k) else block_byte sector w c k))"
  using write_block [OF assms, of 0 m] by (auto simp: save_block_def)

end

interpretation ata_blocks: block_disk drive_io first_disk drive_ready sector_byte
  by unfold_locales (simp add: first_disk_def)

section \<open>Inodes on a disk that works\<close>

lemma load32_loaded:
  assumes "unat a + 4 \<le> 1024"
  shows "load32 (place 0 1024 (block_byte sector w b) m) a = load32 (disk_block sector w b) a"
proof (rule load32_cong)
  fix i :: nat assume "i < 4"
  then have "unat (a + of_nat i) = unat a + i" using assms by (simp add: unat_word_ariths(1) unat_of_nat_u32)
  then show "place 0 1024 (block_byte sector w b) m (a + of_nat i) = disk_block sector w b (a + of_nat i)"
    using assms \<open>i < 4\<close> by (simp add: place_def in_range_def disk_block_def)
qed

lemma desc_bound:
  assumes "g < 32" "f \<le> 28"
  shows "unat (desc f g) = 32 * unat g + unat f" "unat (desc f g) + 4 \<le> 1024"
proof -
  have b: "unat g < 32" "unat f \<le> 28" using assms by (simp_all add: word_less_nat_alt word_le_nat_alt)
  then show "unat (desc f g) = 32 * unat g + unat f" by (simp add: desc_def unat_word_ariths)
  then show "unat (desc f g) + 4 \<le> 1024" using b by simp
qed

lemma inode_place_bounds:
  assumes "inode_place sb nr = Some (g, i)"
  shows "g < 32" "unat i < 8192" "unat (i div 8) < 1024"
proof -
  show g: "g < 32" using assms by (auto simp: inode_place_def Let_def split: if_splits)
  show "unat (i div 8) < 1024" using assms by (auto simp: inode_place_def Let_def word_less_nat_alt unat_div split: if_splits)
  then show "unat i < 8192" by (simp add: unat_div)
qed

text \<open>Where the bitmap and the inodes of a group lie, according to the table of descriptors in block 2.\<close>

definition inode_bitmap_of :: "('w \<Rightarrow> u32 \<Rightarrow> nat \<Rightarrow> u8) \<Rightarrow> 'w \<Rightarrow> u32 \<Rightarrow> u32" where
  "inode_bitmap_of sector w g = load32 (disk_block sector w 2) (desc bg_inode_bitmap g)"

definition inode_block_of :: "('w \<Rightarrow> u32 \<Rightarrow> nat \<Rightarrow> u8) \<Rightarrow> 'w \<Rightarrow> u32 \<Rightarrow> u32 \<Rightarrow> u32" where
  "inode_block_of sector w g i = load32 (disk_block sector w 2) (desc bg_inode_table g) + i div 8"

lemma desc_loaded:
  assumes "g < 32"
  shows "load32 (place 0 1024 (block_byte sector w 2) m) (desc bg_inode_bitmap g) = inode_bitmap_of sector w g"
    and "load32 (place 0 1024 (block_byte sector w 2) m) (desc bg_inode_table g) + i div 8 = inode_block_of sector w g i"
  using load32_loaded [OF desc_bound(2) [OF assms, of bg_inode_bitmap], of sector w 2 m]
    load32_loaded [OF desc_bound(2) [OF assms, of bg_inode_table], of sector w 2 m]
  by (simp_all add: inode_bitmap_of_def inode_block_of_def bg_inode_bitmap_def bg_inode_table_def)

lemma same_desc:
  assumes "\<forall>k<1024. block_byte sector w' 2 k = block_byte sector w 2 k" "g < 32"
  shows "inode_bitmap_of sector w' g = inode_bitmap_of sector w g" "inode_block_of sector w' g i = inode_block_of sector w g i"
proof -
  have "place 0 1024 (block_byte sector w' 2) (\<lambda>_. 0) = place 0 1024 (block_byte sector w 2) (\<lambda>_. 0)"
    using assms(1) by (intro place_cong) auto
  then show "inode_bitmap_of sector w' g = inode_bitmap_of sector w g" "inode_block_of sector w' g i = inode_block_of sector w g i"
    by (simp_all only: desc_loaded [OF assms(2), where m = "\<lambda>_. 0", symmetric])
qed

text \<open>What an inode holds on the disk.\<close>

definition inode_byte :: "('w \<Rightarrow> u32 \<Rightarrow> nat \<Rightarrow> u8) \<Rightarrow> 'w \<Rightarrow> u32 \<Rightarrow> u32 \<Rightarrow> nat \<Rightarrow> u8" where
  "inode_byte sector w g i k = block_byte sector w (inode_block_of sector w g i) (unat i mod 8 * 128 + k)"

definition inode_used :: "('w \<Rightarrow> u32 \<Rightarrow> nat \<Rightarrow> u8) \<Rightarrow> 'w \<Rightarrow> u32 \<Rightarrow> u32 \<Rightarrow> bool" where
  "inode_used sector w g i \<longleftrightarrow> is_inode_allocated (disk_block sector w (inode_bitmap_of sector w g)) i"

lemma allocated_loaded:
  assumes "unat (i div 8) < 1024"
  shows "is_inode_allocated (place 0 1024 (block_byte sector w b) m) i = is_inode_allocated (disk_block sector w b) i"
  using assms by (simp add: is_inode_allocated_bit place_def in_range_def disk_block_def)

lemma inode_slot:
  "unat (i mod 8 * sizeof_inode) = unat i mod 8 * 128" "unat i mod 8 * 128 + 128 \<le> 1024"
  using mod_less_divisor [of 8 "unat i"] by (simp_all add: sizeof_inode_def unat_word_ariths unat_mod)

lemma copy_inode_out:
  "copy_inode 0 inode (i mod 8 * sizeof_inode) (place 0 1024 f m) = place 0 128 (\<lambda>k. f (unat i mod 8 * 128 + k)) inode"
  unfolding copy_inode_def
proof (rule place_cong)
  fix k :: nat assume "k < 128"
  then have "unat (i mod 8 * sizeof_inode + of_nat k) = unat i mod 8 * 128 + k"
    using inode_slot [of i] by (simp add: unat_word_ariths(1) unat_of_nat_u32)
  then show "place 0 1024 f m (i mod 8 * sizeof_inode + of_nat k) = f (unat i mod 8 * 128 + k)"
    using \<open>k < 128\<close> inode_slot(2) [of i] by (simp add: place_def in_range_def)
qed

lemma memset_place: "snd (kaos_memset p c n m) = place p (unat n) (\<lambda>_. ucast c) m"
  by (simp add: kaos_memset_def place_def memset_loop_apply unat_u32_less less_imp_le fun_eq_iff)

context block_disk
begin

lemma read_inode_spec:
  assumes r: "ready (ctx_world mnt)" and dev: "ctx_block_device mnt = device"
    and pl: "inode_place (ctx_superblock mnt) nr = Some (g, i)"
    and b: "inode_bitmap_of sector (ctx_world mnt) g < block_limit" "inode_block_of sector (ctx_world mnt) g i < block_limit"
  shows "\<exists>mnt'. ext2_read_inode io junk inode nr mnt =
       (if inode_used sector (ctx_world mnt) g i
        then Some (SYS_RET_NO_ERROR, place 0 128 (inode_byte sector (ctx_world mnt) g i) inode, mnt')
        else Some (SYS_RET_NOT_FOUND, place 0 128 (\<lambda>_. 0) inode, mnt')) \<and>
     ready (ctx_world mnt') \<and> sector (ctx_world mnt') = sector (ctx_world mnt) \<and>
     ctx_superblock mnt' = ctx_superblock mnt \<and> ctx_block_device mnt' = device"
proof -
  let ?w = "ctx_world mnt"
  let ?D = "place 0 1024 (block_byte sector ?w 2) junk"
  let ?B = "place 0 1024 (block_byte sector ?w (inode_bitmap_of sector ?w g)) (\<lambda>_. 0)"
  note g = inode_place_bounds [OF pl]
  obtain w1 where w1: "load_block io device 2 junk ?w = Some (?D, w1)" "ready w1" "sector w1 = sector ?w"
    using load_block_spec [OF r, of 2 junk] by auto
  obtain w2 where w2: "load_block io device (inode_bitmap_of sector ?w g) (\<lambda>_. 0) w1 =
      Some (place 0 1024 (block_byte sector w1 (inode_bitmap_of sector ?w g)) (\<lambda>_. 0), w2)" "ready w2" "sector w2 = sector w1"
    using load_block_spec [OF w1(2) b(1)] by blast
  obtain w3 where w3: "load_block io device (inode_block_of sector ?w g i) (rw_buffer mnt) w2 =
      Some (place 0 1024 (block_byte sector w2 (inode_block_of sector ?w g i)) (rw_buffer mnt), w3)" "ready w3" "sector w3 = sector w2"
    using load_block_spec [OF w2(2) b(2)] by blast
  have bb: "block_byte sector w1 = block_byte sector ?w" "block_byte sector w2 = block_byte sector ?w"
    using w1(3) w2(3) by (simp_all add: block_byte_def fun_eq_iff)
  show ?thesis
  proof (cases "inode_used sector ?w g i")
    case True
    then have "is_inode_allocated ?B i" by (simp add: inode_used_def allocated_loaded [OF g(3)])
    then have "ext2_read_inode io junk inode nr mnt = Some (SYS_RET_NO_ERROR, place 0 128 (inode_byte sector ?w g i) inode,
        mnt\<lparr>rw_buffer := place 0 1024 (block_byte sector ?w (inode_block_of sector ?w g i)) (rw_buffer mnt), ctx_world := w3\<rparr>)"
      using w1 w2 w3 pl dev by (simp add: ext2_read_inode_def desc_loaded [OF g(1)] bb copy_inode_out inode_byte_def [abs_def])
    then show ?thesis using True w1(3) w2(3) w3(2,3) dev by simp
  next
    case False
    then have "\<not> is_inode_allocated ?B i" by (simp add: inode_used_def allocated_loaded [OF g(3)])
    then have "ext2_read_inode io junk inode nr mnt = Some (SYS_RET_NOT_FOUND, place 0 128 (\<lambda>_. 0) inode, mnt\<lparr>ctx_world := w2\<rparr>)"
      using w1 w2 pl dev by (simp add: ext2_read_inode_def desc_loaded [OF g(1)] bb sizeof_inode_def memset_place)
    then show ?thesis using False w1(3) w2(2,3) dev by simp
  qed
qed

end

lemma copy_inode_in:
  assumes "k < 1024"
  shows "copy_inode (i mod 8 * sizeof_inode) (place 0 1024 f m) 0 inode (of_nat k) =
    (if k div 128 = unat i mod 8 then inode (of_nat (k mod 128)) else f k)"
proof -
  let ?o = "unat i mod 8 * 128"
  have k: "place 0 1024 f m (of_nat k) = f k" using assms by (simp add: place_def in_range_def unat_of_nat_u32)
  show ?thesis
  proof (cases "k div 128 = unat i mod 8")
    case True
    then have e: "k = ?o + k mod 128" by (metis div_mult_mod_eq)
    have "place (i mod 8 * sizeof_inode) 128 g m' (i mod 8 * sizeof_inode + of_nat (k mod 128)) = g (k mod 128)" for g m'
      by (rule place_apply) simp_all
    moreover have "(of_nat k :: u32) = i mod 8 * sizeof_inode + of_nat (k mod 128)"
    proof -
      have "unat (i mod 8 * sizeof_inode + of_nat (k mod 128)) = k"
        using inode_slot [of i] e assms by (simp add: unat_word_ariths(1) unat_of_nat_u32)
      then show ?thesis using assms by (simp add: word_unat_eq_iff unat_of_nat_u32)
    qed
    ultimately show ?thesis using True by (simp add: copy_inode_def)
  next
    case False
    have "\<not> in_range (i mod 8 * sizeof_inode) 128 (of_nat k)"
    proof
      assume "in_range (i mod 8 * sizeof_inode) 128 (of_nat k)"
      then obtain j where j: "j < 128" "of_nat k = i mod 8 * sizeof_inode + (of_nat j :: u32)" by (auto simp: in_range_offset)
      then have "k = ?o + j"
        using inode_slot [of i] assms by (simp add: word_unat_eq_iff unat_word_ariths(1) unat_of_nat_u32)
      then show False using False j(1) by simp
    qed
    then show ?thesis using False k by (simp add: copy_inode_def place_def)
  qed
qed

context block_disk
begin

lemma write_inode_spec:
  assumes r: "ready (ctx_world mnt)" and dev: "ctx_block_device mnt = device"
    and pl: "inode_place (ctx_superblock mnt) nr = Some (g, i)"
    and b: "inode_bitmap_of sector (ctx_world mnt) g < block_limit" "inode_block_of sector (ctx_world mnt) g i < block_limit"
      "inode_bitmap_of sector (ctx_world mnt) g \<noteq> inode_block_of sector (ctx_world mnt) g i"
  shows "\<exists>mnt'. ext2_write_inode io junk inode nr mnt = Some (SYS_RET_NO_ERROR, mnt') \<and>
     ready (ctx_world mnt') \<and> ctx_superblock mnt' = ctx_superblock mnt \<and> ctx_block_device mnt' = device \<and>
     (\<forall>c k. c < block_limit \<longrightarrow> k < 1024 \<longrightarrow> block_byte sector (ctx_world mnt') c k =
       (if c = inode_bitmap_of sector (ctx_world mnt) g then set_inode_bit i (disk_block sector (ctx_world mnt) c) (of_nat k)
        else if c = inode_block_of sector (ctx_world mnt) g i \<and> k div 128 = unat i mod 8 then inode (of_nat (k mod 128))
        else block_byte sector (ctx_world mnt) c k))"
proof -
  let ?w = "ctx_world mnt"
  let ?D = "place 0 1024 (block_byte sector ?w 2) junk"
  define B where "B = inode_bitmap_of sector ?w g"
  define T where "T = inode_block_of sector ?w g i"
  let ?bm = "place 0 1024 (block_byte sector ?w B) (\<lambda>_. 0)"
  note g = inode_place_bounds [OF pl]
  note b' = b [folded B_def T_def]
  obtain w1 where w1: "load_block io device 2 junk ?w = Some (?D, w1)" "ready w1" "sector w1 = sector ?w"
    using load_block_spec [OF r, of 2 junk] by auto
  have bb: "block_byte sector w1 = block_byte sector ?w" using w1(3) by (simp add: block_byte_def fun_eq_iff)
  obtain w2 where w2: "load_block io device B (\<lambda>_. 0) w1 = Some (?bm, w2)" "ready w2" "sector w2 = sector w1"
    using load_block_spec [OF w1(2) b'(1)] unfolding bb by blast
  have bb2: "block_byte sector w2 = block_byte sector ?w" using w1(3) w2(3) by (simp add: block_byte_def fun_eq_iff)
  obtain w3 where w3: "save_block io device B (set_inode_bit i ?bm) w2 = Some w3" "ready w3"
      "\<forall>c k. c < block_limit \<longrightarrow> k < 1024 \<longrightarrow> block_byte sector w3 c k = (if c = B then set_inode_bit i ?bm (of_nat k) else block_byte sector ?w c k)"
    using save_block_spec [OF w2(2) b'(1)] unfolding bb2 by blast
  let ?rw = "place 0 1024 (block_byte sector w3 T) (rw_buffer mnt)"
  obtain w4 where w4: "load_block io device T (rw_buffer mnt) w3 = Some (?rw, w4)" "ready w4" "sector w4 = sector w3"
    using load_block_spec [OF w3(2) b'(2)] by blast
  have bb4: "block_byte sector w4 = block_byte sector w3" using w4(3) by (simp add: block_byte_def fun_eq_iff)
  let ?rw1 = "copy_inode (i mod 8 * sizeof_inode) ?rw 0 inode"
  obtain w5 where w5: "save_block io device T ?rw1 w4 = Some w5" "ready w5"
      "\<forall>c k. c < block_limit \<longrightarrow> k < 1024 \<longrightarrow> block_byte sector w5 c k = (if c = T then ?rw1 (of_nat k) else block_byte sector w3 c k)"
    using save_block_spec [OF w4(2) b'(2)] unfolding bb4 by blast
  have run: "ext2_write_inode io junk inode nr mnt = Some (SYS_RET_NO_ERROR, mnt\<lparr>rw_buffer := ?rw1, ctx_world := w5\<rparr>)"
    using w1 w2 w3 w4 w5 pl dev
    by (simp add: ext2_write_inode_def desc_loaded [OF g(1)] B_def [symmetric] T_def [symmetric])
  have bit: "set_inode_bit i ?bm (of_nat k) = set_inode_bit i (disk_block sector ?w B) (of_nat k)" if "k < 1024" for k
    using that g(3) by (simp add: set_inode_bit_def place_def in_range_def disk_block_def unat_of_nat_u32)
  have "block_byte sector w5 c k = (if c = B then set_inode_bit i (disk_block sector ?w c) (of_nat k)
      else if c = T \<and> k div 128 = unat i mod 8 then inode (of_nat (k mod 128)) else block_byte sector ?w c k)"
    if c: "c < block_limit" and k: "k < 1024" for c k
    using w3(3) w5(3) c k b'(3) bit [OF k] copy_inode_in [OF k, of i "block_byte sector w3 T" "rw_buffer mnt" inode] by auto
  then show ?thesis using run w5(2) dev unfolding B_def [symmetric] T_def [symmetric]
    by (intro exI [of _ "mnt\<lparr>rw_buffer := ?rw1, ctx_world := w5\<rparr>"]) simp
qed

lemma write_read_inode:
  assumes r: "ready (ctx_world mnt)" and dev: "ctx_block_device mnt = device"
    and pl: "inode_place (ctx_superblock mnt) nr = Some (g, i)"
    and B: "B = inode_bitmap_of sector (ctx_world mnt) g" and T: "T = inode_block_of sector (ctx_world mnt) g i"
    and b: "B < block_limit" "T < block_limit" "distinct [2, B, T]"
  shows "\<exists>mnt1 mnt2. ext2_write_inode io junk inode nr mnt = Some (SYS_RET_NO_ERROR, mnt1) \<and>
     ext2_read_inode io junk' inode' nr mnt1 = Some (SYS_RET_NO_ERROR, place 0 128 (\<lambda>k. inode (of_nat k)) inode', mnt2) \<and>
     ready (ctx_world mnt2) \<and>
     (\<forall>x. unat x < 8192 \<longrightarrow> is_inode_allocated (disk_block sector (ctx_world mnt2) B) x =
        (x = i \<or> is_inode_allocated (disk_block sector (ctx_world mnt) B) x)) \<and>
     (\<forall>c k. c < block_limit \<longrightarrow> k < 1024 \<longrightarrow> c \<noteq> B \<longrightarrow> \<not> (c = T \<and> k div 128 = unat i mod 8) \<longrightarrow>
        block_byte sector (ctx_world mnt2) c k = block_byte sector (ctx_world mnt) c k)"
proof -
  let ?w = "ctx_world mnt"
  note g = inode_place_bounds [OF pl]
  obtain mnt1 where m1: "ext2_write_inode io junk inode nr mnt = Some (SYS_RET_NO_ERROR, mnt1)" "ready (ctx_world mnt1)"
      "ctx_superblock mnt1 = ctx_superblock mnt" "ctx_block_device mnt1 = device"
    and bytes: "\<And>c k. c < block_limit \<Longrightarrow> k < 1024 \<Longrightarrow> block_byte sector (ctx_world mnt1) c k =
       (if c = B then set_inode_bit i (disk_block sector ?w c) (of_nat k)
        else if c = T \<and> k div 128 = unat i mod 8 then inode (of_nat (k mod 128)) else block_byte sector ?w c k)"
    using write_inode_spec [OF r dev pl, of junk inode] b B T by fastforce
  let ?w1 = "ctx_world mnt1"
  have "\<forall>k<1024. block_byte sector ?w1 2 k = block_byte sector ?w 2 k" using bytes [of 2] b(3) by auto
  note d = same_desc [OF this g(1)]
  have used: "is_inode_allocated (disk_block sector ?w1 B) x = (x = i \<or> is_inode_allocated (disk_block sector ?w B) x)"
    if "unat x < 8192" for x
  proof -
    have "unat (x div 8) < 1024" using that by (simp add: unat_div)
    then have "disk_block sector ?w1 B (x div 8) = set_inode_bit i (disk_block sector ?w B) (x div 8)"
      using bytes [OF b(1), of "unat (x div 8)"] by (simp add: disk_block_def)
    then have "is_inode_allocated (disk_block sector ?w1 B) x = is_inode_allocated (set_inode_bit i (disk_block sector ?w B)) x"
      by (simp add: is_inode_allocated_bit)
    then show ?thesis using inodes.used_mark [of i "disk_block sector ?w B" x] by auto
  qed
  have content: "inode_byte sector ?w1 g i k = inode (of_nat k)" if "k < 128" for k
  proof -
    have s: "(unat i mod 8 * 128 + k) div 128 = unat i mod 8" "(unat i mod 8 * 128 + k) mod 128 = k" using that by simp_all
    have "T \<noteq> B" using b(3) by auto
    then show ?thesis using bytes [OF b(2), of "unat i mod 8 * 128 + k"] inode_slot(2) [of i] that s
      unfolding inode_byte_def d(2) T [symmetric] by simp
  qed
  obtain mnt2 where m2: "ext2_read_inode io junk' inode' nr mnt1 =
       Some (SYS_RET_NO_ERROR, place 0 128 (inode_byte sector ?w1 g i) inode', mnt2)" "ready (ctx_world mnt2)" "sector (ctx_world mnt2) = sector ?w1"
    using read_inode_spec [OF m1(2,4) pl [folded m1(3)], of junk' inode'] used [OF g(2)] d b B T unfolding inode_used_def by auto
  have eq: "disk_block sector (ctx_world mnt2) = disk_block sector ?w1" "block_byte sector (ctx_world mnt2) = block_byte sector ?w1"
    using m2(3) by (simp_all add: disk_block_def block_byte_def fun_eq_iff)
  have pl: "place 0 128 (inode_byte sector ?w1 g i) inode' = place 0 128 (\<lambda>k. inode (of_nat k)) inode'"
    by (rule place_cong) (rule content)
  show ?thesis
  proof (rule exI [of _ mnt1], rule exI [of _ mnt2], intro conjI allI impI)
    fix c k assume "c < block_limit" "k < 1024" "c \<noteq> B" "\<not> (c = T \<and> k div 128 = unat i mod 8)"
    then show "block_byte sector (ctx_world mnt2) c k = block_byte sector ?w c k" unfolding eq using bytes [of c k] by auto
  qed (use m1(1) m2(1,2) pl used in \<open>simp_all add: eq\<close>)
qed

end

section \<open>The bitmaps of a new group\<close>

lemma fold_const_update:
  assumes "n \<le> 4294967296"
  shows "fold (\<lambda>i b. b(of_nat i := c)) [l..<n] b (a :: u32) = (if l \<le> unat a \<and> unat a < n then c else b a)"
  using assms
proof (induction n)
  case (Suc n)
  have "(a = of_nat n) = (unat a = n)" using Suc.prems by (auto simp: word_unat_eq_iff unat_of_nat_u32)
  then show ?case using Suc by (cases "l \<le> n") auto
qed simp

lemma fold_ones: "k < 8 \<Longrightarrow> fold (\<lambda>_ v. push_bit 1 v + 1) [0..<k] 0 = (mask k :: u8)"
proof (induction k)
  case (Suc k)
  have "push_bit 1 (mask k :: u8) + 1 = mask (Suc k)" by (simp add: mask_eq_exp_minus_1 algebra_simps)
  then show ?case using Suc by simp
qed simp

lemma fold_zeros: "fold (\<lambda>_ v. push_bit 1 v) [0..<k] b = push_bit k (b :: u8)"
proof (induction k)
  case (Suc k)
  then have "fold (\<lambda>_ v. push_bit 1 v) [0..<Suc k] b = push_bit 1 (push_bit k b)"
    by (simp only: upt_Suc_append le0 fold_append o_apply fold_simps id_apply)
  then show ?case by (simp only: push_bit_push_bit plus_1_eq_Suc)
qed simp

lemma byte_bit_less: "unat (x :: u32) < unat n \<longleftrightarrow> unat (x div 8) < unat (n div 8) \<or> unat (x div 8) = unat (n div 8) \<and> unat (x mod 8) < unat ((n :: u32) mod 8)"
proof -
  have u: "unat (x div 8) = unat x div 8" "unat (n div 8) = unat n div 8" "unat (x mod 8) = unat x mod 8" "unat (n mod 8) = unat n mod 8"
    by (simp_all add: unat_div unat_mod)
  have "unat x = 8 * (unat x div 8) + unat x mod 8" "unat n = 8 * (unat n div 8) + unat n mod 8" "unat x mod 8 < 8" "unat n mod 8 < 8" by simp_all
  then show ?thesis unfolding u by (cases "unat x div 8" "unat n div 8" rule: linorder_cases) linarith+
qed

lemma initial_block_bitmap_bits:
  assumes "unat n < 8188"
  shows "\<exists>b. setup_initial_block_bitmap n bm = Some b \<and>
     (\<forall>x. is_inode_allocated b x \<longleftrightarrow> unat x < unat n + 4 \<or> (unat n + 4) div 8 < unat (x div 8) \<and> is_inode_allocated bm x)"
proof -
  let ?n = "n + 4"
  have n: "unat ?n = unat n + 4" using assms by (simp add: unat_word_ariths)
  then have d: "unat (?n div 8) < 1024" "unat (?n div 8) = (unat n + 4) div 8" using assms by (simp_all add: unat_div)
  then have ge: "\<not> 1024 \<le> ?n div 8" by (simp add: word_le_nat_alt)
  define b where "b = (fold (\<lambda>i b. b(of_nat i := 0xFF)) [0..<unat (?n div 8)] bm)(?n div 8 := mask (unat (?n mod 8)))"
  have "setup_initial_block_bitmap n bm = Some b"
    using ge fold_ones [OF unat_mod_8 [of ?n]] by (simp add: setup_initial_block_bitmap_def b_def Let_def)
  moreover have "is_inode_allocated b x \<longleftrightarrow> unat x < unat ?n \<or> unat (?n div 8) < unat (x div 8) \<and> is_inode_allocated bm x" for x
  proof -
    have r: "unat (x mod 8) < 8" by (rule unat_mod_8)
    have e: "x div 8 = ?n div 8 \<longleftrightarrow> unat (x div 8) = unat (?n div 8)" by (simp add: word_unat_eq_iff)
    have f: "b (x div 8) = (if unat (x div 8) = unat (?n div 8) then mask (unat (?n mod 8)) else if unat (x div 8) < unat (?n div 8) then 0xFF else bm (x div 8))"
      using d(1) e by (simp add: b_def fold_const_update)
    show ?thesis unfolding is_inode_allocated_bit f byte_bit_less [of x ?n] using r by (auto simp: bit_mask_iff)
  qed
  ultimately show ?thesis using n d(2) by auto
qed

lemma initial_inode_bitmap_bits:
  assumes "unat n < 8192"
  shows "\<exists>b. setup_initial_inode_bitmap n bm = Some b \<and> (\<forall>x. unat x < 8192 \<longrightarrow> is_inode_allocated b x = (unat n \<le> unat x))"
proof -
  have d: "unat (n div 8) < 1024" using assms by (simp add: unat_div)
  then have ge: "\<not> 1024 \<le> n div 8" by (simp add: word_le_nat_alt)
  define b where "b = fold (\<lambda>i b. b(of_nat i := 0xFF)) [unat (n div 8) + 1..<1024]
    (fold (\<lambda>i b. b(of_nat i := 0)) [0..<unat (n div 8)] (bm(n div 8 := push_bit (unat (n mod 8)) 0xFF)))"
  have "setup_initial_inode_bitmap n bm = Some b"
    unfolding setup_initial_inode_bitmap_def Let_def fold_zeros b_def using ge by simp
  moreover have "is_inode_allocated b x \<longleftrightarrow> \<not> unat x < unat n" if x: "unat x < 8192" for x
  proof -
    have r: "unat (x mod 8) < 8" "unat (x div 8) < 1024" using x by (simp_all add: unat_mod_8 unat_div)
    have e: "x div 8 = n div 8 \<longleftrightarrow> unat (x div 8) = unat (n div 8)" by (simp add: word_unat_eq_iff)
    have f: "b (x div 8) = (if unat (n div 8) < unat (x div 8) then 0xFF else if unat (x div 8) < unat (n div 8) then 0 else push_bit (unat (n mod 8)) 0xFF)"
      using d r(2) e by (auto simp: b_def fold_const_update)
    show ?thesis unfolding is_inode_allocated_bit f byte_bit_less [of x n] using r(1) by (auto simp: bit_push_bit_iff)
  qed
  ultimately show ?thesis by (auto simp: not_less)
qed

section \<open>The first free block\<close>

lemma first_clear_bit_bits:
  assumes "k < 8" "\<not> bit v k" "\<And>j. j < k \<Longrightarrow> bit v j"
  shows "first_clear_bit v = of_nat k"
proof -
  have "find (\<lambda>k. v AND push_bit k 1 = 0) [0..<8] = Some k"
    using assms by (auto simp: find_Some_iff)
  then show ?thesis by (simp add: first_clear_bit_def)
qed

text \<open>The lowest clear bit of a bitmap, the bit that the searches look for.\<close>

definition lowest_clear :: "mem \<Rightarrow> u32 \<Rightarrow> bool" where
  "lowest_clear bm x \<longleftrightarrow> unat x < 8192 \<and> \<not> is_inode_allocated bm x \<and> (\<forall>y < x. is_inode_allocated bm y)"

lemma byte_bit_word: "unat (q * 8 + of_nat r :: u32) = unat q * 8 + r \<and> (q * 8 + of_nat r) div 8 = q \<and> unat ((q * 8 + of_nat r) mod 8) = r"
  if "unat q < 1024" "r < 8" for q :: u32
proof -
  have u: "unat (q * 8 + of_nat r :: u32) = unat q * 8 + r"
    using that by (simp add: unat_word_ariths unat_of_nat_u32)
  have "unat ((q * 8 + of_nat r) div 8) = unat q" unfolding unat_div u using that by simp
  moreover have "unat ((q * 8 + of_nat r) mod 8) = r" unfolding unat_mod u using that by simp
  ultimately show ?thesis using u by (simp add: word_unat_eq_iff)
qed

lemma lowest_clear_search:
  assumes "lowest_clear bm x"
  shows "find (\<lambda>j. bm j \<noteq> 0xFF) bytes_1024 = Some (x div 8)" "first_clear_bit (bm (x div 8)) = x mod 8"
proof -
  have x: "unat x < 8192" "\<not> bit (bm (x div 8)) (unat (x mod 8))" and low: "\<And>y. unat y < unat x \<Longrightarrow> bit (bm (y div 8)) (unat (y mod 8))"
    using assms by (simp_all add: lowest_clear_def is_inode_allocated_bit word_less_nat_alt)
  have q: "unat (x div 8) < 1024" "unat (x div 8) = unat x div 8" "unat (x mod 8) = unat x mod 8" using x(1) by (simp_all add: unat_div unat_mod)
  have full: "bm (of_nat j) = 0xFF" if "j < unat x div 8" for j
    unfolding u8_all_ones_iff
  proof (intro allI impI)
    fix r :: nat assume r: "r < 8"
    have j: "unat (of_nat j :: u32) = j" using that x(1) by (simp add: unat_of_nat_u32)
    have b: "unat (of_nat j * 8 + of_nat r :: u32) = j * 8 + r \<and> (of_nat j * 8 + of_nat r :: u32) div 8 = of_nat j \<and>
        unat ((of_nat j * 8 + of_nat r :: u32) mod 8) = r"
      using byte_bit_word [of "of_nat j" r] j that r x(1) by simp
    then have "unat (of_nat j * 8 + of_nat r :: u32) < unat x" using that r by simp
    from low [OF this] show "bit (bm (of_nat j)) r" using b by simp
  qed
  have "bm (x div 8) \<noteq> 0xFF" using x(2) unat_mod_8 [of x] by auto
  moreover have "bytes_1024 ! (unat x div 8) = x div 8" using q by (simp add: bytes_1024_def word_unat_eq_iff unat_of_nat_u32)
  ultimately show "find (\<lambda>j. bm j \<noteq> 0xFF) bytes_1024 = Some (x div 8)"
    using q full by (auto simp: find_Some_iff bytes_1024_def intro!: exI [of _ "unat x div 8"])
  have "bit (bm (x div 8)) j" if "j < unat (x mod 8)" for j
  proof -
    have j: "j < 8" using that q(3) by simp
    have b: "unat (x div 8 * 8 + of_nat j) = unat x div 8 * 8 + j \<and> (x div 8 * 8 + of_nat j) div 8 = x div 8 \<and> unat ((x div 8 * 8 + of_nat j) mod 8) = j"
      using byte_bit_word [OF q(1) j] q(2) by simp
    have "unat x div 8 * 8 + j < unat x" using that q(3) div_mult_mod_eq [of "unat x" 8] by linarith
    then have "unat (x div 8 * 8 + of_nat j) < unat x" using b by simp
    from low [OF this] show ?thesis using b by simp
  qed
  then have "first_clear_bit (bm (x div 8)) = of_nat (unat (x mod 8))" using x(2) unat_mod_8 [of x] by (intro first_clear_bit_bits)
  then show "first_clear_bit (bm (x div 8)) = x mod 8" by simp
qed

lemma scan_one: "scan_block_bitmap base 1 bm js 0 out =
    Some (case find (\<lambda>j. bm j \<noteq> 0xFF) js of None \<Rightarrow> (False, out) | Some j \<Rightarrow> (True, out(0 := base + j * 8 + first_clear_bit (bm j) + 1)))"
  by (induction js) (simp_all add: Let_def)

lemma skip_groups:
  assumes "\<And>j. j \<in> set js \<Longrightarrow> load32 d (desc bg_block_bitmap j) \<noteq> 0 \<and> unat (load16 d (desc bg_free_blocks_count j)) < count"
  shows "allocate_in_groups (js @ is) io junk count d out mnt = allocate_in_groups is io junk count d out mnt"
  using assms by (induction js) (simp_all add: Let_def)

lemma groups_split:
  assumes "(i :: u32) < 32"
  shows "groups_32 = map of_nat [0..<unat i] @ i # map of_nat [Suc (unat i)..<32]"
proof -
  have "unat i < 32" using assms by (simp add: word_less_nat_alt)
  then have "[0..<32] = [0..<unat i] @ unat i # [Suc (unat i)..<32]"
    using upt_add_eq_append [of 0 "unat i" "32 - unat i"] upt_conv_Cons [of "unat i" 32] by simp
  then show ?thesis by (simp add: groups_32_def)
qed

lemma div_mod_8_word: "x div 8 * 8 + x mod 8 = (x :: u32)"
  by (rule div_mult_mod_eq)

lemma block_number_mod:
  assumes "i < 32" "unat x < 8192"
  shows "(i * 8192 + x div 8 * 8 + x mod 8 + 1 - 1) mod 8192 = (x :: u32)"
proof -
  have "unat (i * 8192 + x) = unat i * 8192 + unat x" using assms by (simp add: unat_word_ariths word_less_nat_alt)
  then have "unat ((i * 8192 + x) mod 8192) = unat x" using assms(2) by (simp add: unat_mod)
  then show ?thesis by (simp add: word_unat_eq_iff add.assoc div_mod_8_word)
qed

lemma load16_loaded:
  assumes "unat a + 4 \<le> 1024"
  shows "load16 (place 0 1024 (block_byte sector w b) m) a = load16 (disk_block sector w b) a"
proof (rule load16_cong)
  fix i :: nat assume "i < 2"
  then have "unat (a + of_nat i) = unat a + i" using assms by (simp add: unat_word_ariths(1) unat_of_nat_u32)
  then show "place 0 1024 (block_byte sector w b) m (a + of_nat i) = disk_block sector w b (a + of_nat i)"
    using assms \<open>i < 2\<close> by (simp add: place_def in_range_def disk_block_def)
qed

lemma disk_block_loaded: "k < 1024 \<Longrightarrow> place 0 1024 (block_byte sector w b) m (of_nat k) = disk_block sector w b (of_nat k)"
  by (simp add: place_def in_range_def disk_block_def unat_of_nat_u32)

lemma store16_loaded:
  assumes "k < 1024"
  shows "store16 a v (place 0 1024 (block_byte sector w b) m) (of_nat k) = store16 a v (disk_block sector w b) (of_nat k)"
  by (simp add: store16_def disk_block_loaded [OF assms])

text \<open>Bitmap and count of free blocks of a group, according to its descriptor.\<close>

definition block_bitmap_of :: "('w \<Rightarrow> u32 \<Rightarrow> nat \<Rightarrow> u8) \<Rightarrow> 'w \<Rightarrow> u32 \<Rightarrow> u32" where
  "block_bitmap_of sector w g = load32 (disk_block sector w 2) (desc bg_block_bitmap g)"

definition free_blocks_of :: "('w \<Rightarrow> u32 \<Rightarrow> nat \<Rightarrow> u8) \<Rightarrow> 'w \<Rightarrow> u32 \<Rightarrow> u16" where
  "free_blocks_of sector w g = load16 (disk_block sector w 2) (desc bg_free_blocks_count g)"

lemma block_desc_loaded:
  assumes "g < 32"
  shows "load32 (place 0 1024 (block_byte sector w 2) m) (desc bg_block_bitmap g) = block_bitmap_of sector w g"
    and "load16 (place 0 1024 (block_byte sector w 2) m) (desc bg_free_blocks_count g) = free_blocks_of sector w g"
  using load32_loaded [OF desc_bound(2) [OF assms, of bg_block_bitmap], of sector w 2 m]
    load16_loaded [OF desc_bound(2) [OF assms, of bg_free_blocks_count], of sector w 2 m]
  by (simp_all add: block_bitmap_of_def free_blocks_of_def bg_block_bitmap_def bg_free_blocks_count_def)

lemma lowest_clear_loaded:
  assumes "lowest_clear (disk_block sector w b) x"
  shows "lowest_clear (place 0 1024 (block_byte sector w b) m) x"
proof -
  have "unat (y div 8) < 1024" if "y \<le> x" for y
  proof -
    have "unat y < 8192" using that assms by (simp add: lowest_clear_def word_le_nat_alt)
    then show ?thesis by (simp add: unat_div)
  qed
  then show ?thesis using assms allocated_loaded [where sector = sector and w = w and b = b and m = m] by (auto simp: lowest_clear_def)
qed

lemma mark_one:
  assumes "unat ((b - 1) mod 8192) < 8192"
  shows "mark_blocks 8192 [b] bm = Some (set_inode_bit ((b - 1) mod 8192) bm)"
proof -
  have "(b - 1) mod 8192 div 8 < 1024" using assms by (simp add: word_less_nat_alt unat_div)
  then show ?thesis by (simp add: set_inode_bit_def Let_def)
qed

context block_disk
begin

lemma allocate_block_spec:
  fixes mnt :: "'w ext2_mount_context"
  defines "w \<equiv> ctx_world mnt"
  assumes r: "ready w" and dev: "ctx_block_device mnt = device" and i: "i < 32"
    and bpg: "load32 (ctx_superblock mnt) s_blocks_per_group = 8192"
    and full: "\<And>j. j < i \<Longrightarrow> block_bitmap_of sector w j \<noteq> 0 \<and> free_blocks_of sector w j = 0"
    and free: "free_blocks_of sector w i \<noteq> 0"
    and B: "B = block_bitmap_of sector w i" "B \<notin> {0, 2}" "B < block_limit"
    and x: "lowest_clear (disk_block sector w B) x"
  shows "\<exists>mnt'. allocate_blocks io junk 1 out mnt = Some (SYS_RET_NO_ERROR, out(0 := i * 8192 + x + 1), mnt') \<and>
     ready (ctx_world mnt') \<and> ctx_block_device mnt' = device \<and>
     ctx_superblock mnt' = store32 s_free_blocks_count (load32 (ctx_superblock mnt) s_free_blocks_count - 1) (ctx_superblock mnt) \<and>
     (\<forall>c k. c < block_limit \<longrightarrow> k < 1024 \<longrightarrow> block_byte sector (ctx_world mnt') c k =
       (if c = B then set_inode_bit x (disk_block sector w B) (of_nat k)
        else if c = 2 then store16 (desc bg_free_blocks_count i) (free_blocks_of sector w i - 1) (disk_block sector w 2) (of_nat k)
        else block_byte sector w c k))"
proof -
  let ?D = "place 0 1024 (block_byte sector w 2) junk"
  let ?bm = "place 0 1024 (block_byte sector w B) junk"
  let ?f = "free_blocks_of sector w i"
  obtain w1 where w1: "load_block io device 2 junk w = Some (?D, w1)" "ready w1" "sector w1 = sector w"
    using load_block_spec [OF r, of 2 junk] by auto
  have bb1: "block_byte sector w1 = block_byte sector w" using w1(3) by (simp add: block_byte_def fun_eq_iff)
  obtain w2 where w2: "load_block io device B junk w1 = Some (?bm, w2)" "ready w2" "sector w2 = sector w1"
    using load_block_spec [OF w1(2) B(3)] unfolding bb1 by blast
  have bb2: "block_byte sector w2 = block_byte sector w" using w1(3) w2(3) by (simp add: block_byte_def fun_eq_iff)
  obtain w3 where w3: "save_block io device B (set_inode_bit x ?bm) w2 = Some w3" "ready w3"
      "\<forall>c k. c < block_limit \<longrightarrow> k < 1024 \<longrightarrow> block_byte sector w3 c k = (if c = B then set_inode_bit x ?bm (of_nat k) else block_byte sector w c k)"
    using save_block_spec [OF w2(2) B(3)] unfolding bb2 by blast
  let ?D1 = "store16 (desc bg_free_blocks_count i) (?f - 1) ?D"
  obtain w4 where w4: "save_block io device 2 ?D1 w3 = Some w4" "ready w4"
      "\<forall>c k. c < block_limit \<longrightarrow> k < 1024 \<longrightarrow> block_byte sector w4 c k = (if c = 2 then ?D1 (of_nat k) else block_byte sector w3 c k)"
    using save_block_spec [OF w3(2), of 2 ?D1] by auto
  have x8: "unat x < 8192" using x by (simp add: lowest_clear_def)
  note s = lowest_clear_search [OF lowest_clear_loaded [OF x, of junk]]
  have xw: "i * 8192 + x div 8 * 8 + x mod 8 + 1 = i * 8192 + x + 1" by (simp add: add.assoc div_mod_8_word)
  have scan: "scan_block_bitmap (i * 8192) 1 ?bm bytes_1024 0 out = Some (True, out(0 := i * 8192 + x + 1))"
    by (simp only: scan_one s option.case xw)
  have xm: "(i * 8192 + x + 1 - 1) mod 8192 = x" using block_number_mod [OF i x8] by (simp only: xw)
  have mark: "mark_blocks 8192 [i * 8192 + x + 1] ?bm = Some (set_inode_bit x ?bm)" using mark_one [of "i * 8192 + x + 1" ?bm] xm x8 by simp
  have nz: "unat ?f \<ge> 1" using free by (simp add: Suc_le_eq unat_gt_0)
  have skip: "allocate_in_groups groups_32 io junk 1 ?D out mnt1 = allocate_in_groups (i # map of_nat [Suc (unat i)..<32]) io junk 1 ?D out mnt1"
    for mnt1 :: "'w ext2_mount_context"
    unfolding groups_split [OF i]
  proof (rule skip_groups)
    fix j :: u32 assume "j \<in> set (map of_nat [0..<unat i])"
    then have j: "j < i" using i by (auto simp: word_less_nat_alt unat_of_nat_u32)
    then show "load32 ?D (desc bg_block_bitmap j) \<noteq> 0 \<and> unat (load16 ?D (desc bg_free_blocks_count j)) < 1"
      using full [OF j] i block_desc_loaded [of j sector w junk] by simp
  qed
  let ?mnt = "mnt\<lparr>ctx_superblock := store32 s_free_blocks_count (load32 (ctx_superblock mnt) s_free_blocks_count - 1) (ctx_superblock mnt), ctx_world := w4\<rparr>"
  have "allocate_blocks io junk 1 out mnt = Some (SYS_RET_NO_ERROR, out(0 := i * 8192 + x + 1), ?mnt)"
    using w1(1) w2(1) w3(1) w4(1) nz B(1,2) bpg dev mark scan
    by (simp add: allocate_blocks_def w_def [symmetric] skip [unfolded One_nat_def] Let_def block_desc_loaded [OF i] del: mark_blocks.simps)
  moreover have "set_inode_bit x ?bm (of_nat k) = set_inode_bit x (disk_block sector w B) (of_nat k)" if "k < 1024" for k
  proof -
    have "unat (x div 8) < 1024" using x8 by (simp add: unat_div)
    then have "?bm (x div 8) = disk_block sector w B (x div 8)" using disk_block_loaded [of "unat (x div 8)" sector w B junk] by simp
    then show ?thesis by (simp add: set_inode_bit_def disk_block_loaded [OF that])
  qed
  ultimately show ?thesis using w3(3) w4(2,3) B dev store16_loaded [where sector = sector and w = w and b = 2 and m = junk]
    by (intro exI [of _ ?mnt]) auto
qed

end

section \<open>Inodes for new files\<close>

definition free_inodes_of :: "('w \<Rightarrow> u32 \<Rightarrow> nat \<Rightarrow> u8) \<Rightarrow> 'w \<Rightarrow> u32 \<Rightarrow> u16" where
  "free_inodes_of sector w g = load16 (disk_block sector w 2) (desc bg_free_inodes_count g)"

text \<open>The table of descriptors after an inode of group \<open>g\<close> has been taken.\<close>

definition table_with_inode_taken :: "bool \<Rightarrow> u32 \<Rightarrow> mem \<Rightarrow> mem" where
  "table_with_inode_taken is_dir g d =
     (let d1 = store16 (desc bg_free_inodes_count g) (load16 d (desc bg_free_inodes_count g) - 1) d
      in if is_dir then store16 (desc bg_used_dirs_count g) (load16 d (desc bg_used_dirs_count g) + 1) d1 else d1)"

lemma inode_desc_loaded:
  assumes "g < 32"
  shows "load16 (place 0 1024 (block_byte sector w 2) m) (desc bg_free_inodes_count g) = free_inodes_of sector w g"
    and "load16 (place 0 1024 (block_byte sector w 2) m) (desc bg_used_dirs_count g) = load16 (disk_block sector w 2) (desc bg_used_dirs_count g)"
  using load16_loaded [OF desc_bound(2) [OF assms, of bg_free_inodes_count], of sector w 2 m]
    load16_loaded [OF desc_bound(2) [OF assms, of bg_used_dirs_count], of sector w 2 m]
  by (simp_all add: free_inodes_of_def bg_free_inodes_count_def bg_used_dirs_count_def)

lemma used_dirs_apart: "load16 (store16 (desc bg_free_inodes_count g) v d) (desc bg_used_dirs_count g) = load16 d (desc bg_used_dirs_count g)"
  by (simp add: load16_def store16_def desc_def bg_free_inodes_count_def bg_used_dirs_count_def)

lemma table_loaded:
  assumes "g < 32" "k < 1024"
  shows "table_with_inode_taken is_dir g (place 0 1024 (block_byte sector w 2) m) (of_nat k) = table_with_inode_taken is_dir g (disk_block sector w 2) (of_nat k)"
  unfolding table_with_inode_taken_def Let_def inode_desc_loaded [OF assms(1)] free_inodes_of_def
  by (simp add: store16_def disk_block_loaded [OF assms(2)])

lemma set_bit_loaded:
  assumes "unat (x div 8) < 1024" "k < 1024"
  shows "set_inode_bit x (place 0 1024 (block_byte sector w B) m) (of_nat k) = set_inode_bit x (disk_block sector w B) (of_nat k)"
  using disk_block_loaded [OF assms(1), of sector w B m] by (simp add: set_inode_bit_def disk_block_loaded [OF assms(2)])

lemma take_inode_eq:
  assumes "i < 32" "unat (x div 8) < 1024"
  shows "take_inode io is_dir i (x div 8) (x mod 8) bm d mnt = do {
     w1 \<leftarrow> save_block io (ctx_block_device mnt) (load32 d (desc bg_inode_bitmap i)) (set_inode_bit x bm) (ctx_world mnt);
     w2 \<leftarrow> save_block io (ctx_block_device mnt) 2 (table_with_inode_taken is_dir i d) w1;
     Some (mnt\<lparr>ctx_superblock := store32 s_free_inodes_count (load32 (ctx_superblock mnt) s_free_inodes_count - 1) (ctx_superblock mnt), ctx_world := w2\<rparr>) }"
proof -
  have "x div 8 < 1024" using assms(2) by (simp add: word_less_nat_alt)
  then show ?thesis using assms(1)
    by (simp add: take_inode_def set_inode_bit_def table_with_inode_taken_def Let_def used_dirs_apart)
qed

context block_disk
begin

lemma allocate_given_spec:
  fixes mnt :: "'w ext2_mount_context"
  defines "w \<equiv> ctx_world mnt"
  assumes r: "ready w" and dev: "ctx_block_device mnt = device"
    and pl: "inode_place (ctx_superblock mnt) nr = Some (g, i)"
    and B: "B = inode_bitmap_of sector w g" "B \<noteq> 2" "B < block_limit"
  shows "\<exists>mnt'. allocate_inode io junk nr is_dir True mnt =
       Some (if inode_used sector w g i then SYS_RET_UNAVAILABLE else SYS_RET_NO_ERROR, nr, mnt') \<and>
     ready (ctx_world mnt') \<and>
     (if inode_used sector w g i then ctx_superblock mnt' = ctx_superblock mnt \<and> sector (ctx_world mnt') = sector w
      else ctx_superblock mnt' = store32 s_free_inodes_count (load32 (ctx_superblock mnt) s_free_inodes_count - 1) (ctx_superblock mnt) \<and>
       (\<forall>c k. c < block_limit \<longrightarrow> k < 1024 \<longrightarrow> block_byte sector (ctx_world mnt') c k =
         (if c = B then set_inode_bit i (disk_block sector w B) (of_nat k)
          else if c = 2 then table_with_inode_taken is_dir g (disk_block sector w 2) (of_nat k)
          else block_byte sector w c k)))"
proof -
  let ?D = "place 0 1024 (block_byte sector w 2) junk"
  let ?bm = "place 0 1024 (block_byte sector w B) junk"
  note g = inode_place_bounds [OF pl]
  obtain w1 where w1: "load_block io device 2 junk w = Some (?D, w1)" "ready w1" "sector w1 = sector w"
    using load_block_spec [OF r, of 2 junk] by auto
  have bb1: "block_byte sector w1 = block_byte sector w" using w1(3) by (simp add: block_byte_def fun_eq_iff)
  obtain w2 where w2: "load_block io device B junk w1 = Some (?bm, w2)" "ready w2" "sector w2 = sector w1"
    using load_block_spec [OF w1(2) B(3)] unfolding bb1 by blast
  have bb2: "block_byte sector w2 = block_byte sector w" using w1(3) w2(3) by (simp add: block_byte_def fun_eq_iff)
  have test: "?bm (i div 8) AND push_bit (unat (i mod 8)) 1 = 0 \<longleftrightarrow> \<not> inode_used sector w g i"
    unfolding inode_used_def B(1) [symmetric] using allocated_loaded [OF g(3), of sector w B junk] by (simp add: is_inode_allocated_def)
  show ?thesis
  proof (cases "inode_used sector w g i")
    case True
    then show ?thesis using w1 w2 pl dev B(1) test
      by (intro exI [of _ "mnt\<lparr>ctx_world := w2\<rparr>"]) (simp add: allocate_inode_def w_def [symmetric] desc_loaded(1) [OF g(1)])
  next
    case False
    obtain w3 where w3: "save_block io device B (set_inode_bit i ?bm) w2 = Some w3" "ready w3"
        "\<forall>c k. c < block_limit \<longrightarrow> k < 1024 \<longrightarrow> block_byte sector w3 c k = (if c = B then set_inode_bit i ?bm (of_nat k) else block_byte sector w c k)"
      using save_block_spec [OF w2(2) B(3)] unfolding bb2 by blast
    let ?D1 = "table_with_inode_taken is_dir g ?D"
    obtain w4 where w4: "save_block io device 2 ?D1 w3 = Some w4" "ready w4"
        "\<forall>c k. c < block_limit \<longrightarrow> k < 1024 \<longrightarrow> block_byte sector w4 c k = (if c = 2 then ?D1 (of_nat k) else block_byte sector w3 c k)"
      using save_block_spec [OF w3(2), of 2 ?D1] by auto
    let ?mnt = "mnt\<lparr>ctx_superblock := store32 s_free_inodes_count (load32 (ctx_superblock mnt) s_free_inodes_count - 1) (ctx_superblock mnt), ctx_world := w4\<rparr>"
    have "allocate_inode io junk nr is_dir True mnt = Some (SYS_RET_NO_ERROR, nr, ?mnt)"
      using False w1(1) w2(1) w3(1) w4(1) pl dev B(1) test
      by (simp add: allocate_inode_def w_def [symmetric] desc_loaded(1) [OF g(1)] take_inode_eq [OF g(1,3)])
    then show ?thesis using False w3(3) w4(2,3) B(2)
        table_loaded [OF g(1), where sector = sector and w = w and m = junk] set_bit_loaded [OF g(3), where sector = sector and w = w and B = B and m = junk]
      by (intro exI [of _ ?mnt]) auto
  qed
qed

end

text \<open>A group with a clear bit in its bitmap and a count that says so.\<close>

definition group_offers :: "('w \<Rightarrow> u32 \<Rightarrow> nat \<Rightarrow> u8) \<Rightarrow> 'w \<Rightarrow> u32 \<Rightarrow> bool" where
  "group_offers sector w g \<longleftrightarrow> free_inodes_of sector w g \<noteq> 0 \<and> (\<exists>x. unat x < 8192 \<and> \<not> inode_used sector w g x)"

lemma find_bytes:
  "find (\<lambda>j. place 0 1024 (block_byte sector w b) m j \<noteq> 0xFF) bytes_1024 = None \<longleftrightarrow>
     (\<forall>x. unat x < 8192 \<longrightarrow> is_inode_allocated (disk_block sector w b) x)"
proof
  assume f: "find (\<lambda>j. place 0 1024 (block_byte sector w b) m j \<noteq> 0xFF) bytes_1024 = None"
  show "\<forall>x. unat x < 8192 \<longrightarrow> is_inode_allocated (disk_block sector w b) x"
  proof (intro allI impI)
    fix x :: u32 assume "unat x < 8192"
    then have q: "unat (x div 8) < 1024" by (simp add: unat_div)
    then have "x div 8 \<in> set bytes_1024" by (auto simp: bytes_1024_def intro!: image_eqI [of _ _ "unat (x div 8)"])
    then have "place 0 1024 (block_byte sector w b) m (x div 8) = 0xFF" using f by (auto simp: find_None_iff)
    then have "is_inode_allocated (place 0 1024 (block_byte sector w b) m) x" by (simp add: is_inode_allocated_bit unat_mod_8)
    then show "is_inode_allocated (disk_block sector w b) x" by (simp add: allocated_loaded [OF q])
  qed
next
  assume all: "\<forall>x. unat x < 8192 \<longrightarrow> is_inode_allocated (disk_block sector w b) x"
  have "place 0 1024 (block_byte sector w b) m (of_nat j) = 0xFF" if j: "j < 1024" for j
    unfolding u8_all_ones_iff
  proof (intro allI impI)
    fix r :: nat assume r: "r < 8"
    have u: "unat (of_nat j :: u32) < 1024" "unat (of_nat j :: u32) = j" using j by (simp_all add: unat_of_nat_u32)
    note b = byte_bit_word [OF u(1) r]
    have "is_inode_allocated (disk_block sector w b) (of_nat j * 8 + of_nat r)" using all b u(2) j r by simp
    then show "bit (place 0 1024 (block_byte sector w b) m (of_nat j)) r" using b j by (simp add: is_inode_allocated_bit disk_block_loaded)
  qed
  then show "find (\<lambda>j. place 0 1024 (block_byte sector w b) m j \<noteq> 0xFF) bytes_1024 = None"
    by (auto simp: find_None_iff bytes_1024_def)
qed

context block_disk
begin

lemma search_groups_spec:
  assumes "ready (ctx_world mnt)" "sector (ctx_world mnt) = sector w" "ctx_block_device mnt = device"
    and "\<And>g. g \<in> set gs \<Longrightarrow> g < 32 \<and> inode_bitmap_of sector w g < block_limit"
  shows "\<exists>st' w'. search_inode_groups gs io (place 0 1024 (block_byte sector w 2) junk) st mnt = Some (st', mnt\<lparr>ctx_world := w'\<rparr>) \<and>
     ready w' \<and> sector w' = sector w \<and> (is_found st' \<longleftrightarrow> is_found st \<or> (\<exists>g \<in> set gs. group_offers sector w g)) \<and>
     ((\<forall>g \<in> set gs. \<not> group_offers sector w g) \<longrightarrow> is_inode st' = is_inode st)"
  using assms
proof (induction gs arbitrary: st mnt)
  case Nil
  then show ?case by (auto intro!: exI [of _ "ctx_world mnt"])
next
  case (Cons g gs)
  have g: "g < 32" "inode_bitmap_of sector w g < block_limit" using Cons.prems(4) by auto
  show ?case
  proof (cases "free_inodes_of sector w g = 0")
    case True
    then have "\<not> group_offers sector w g" by (simp add: group_offers_def)
    then show ?thesis using Cons.IH [of mnt st] Cons.prems True by (simp add: inode_desc_loaded [OF g(1)])
  next
    case False
    let ?b = "inode_bitmap_of sector w g"
    have bb: "block_byte sector (ctx_world mnt) = block_byte sector w" using Cons.prems(2) by (simp add: block_byte_def fun_eq_iff)
    obtain w1 where w1: "load_block io device ?b (is_bitmap st) (ctx_world mnt) = Some (place 0 1024 (block_byte sector w ?b) (is_bitmap st), w1)"
        "ready w1" "sector w1 = sector (ctx_world mnt)"
      using load_block_spec [OF Cons.prems(1) g(2)] unfolding bb by blast
    define st1 where "st1 = search_group (g * load32 (ctx_superblock mnt) s_inodes_per_group) (place 0 1024 (block_byte sector w ?b) (is_bitmap st)) st"
    have st1: "is_found st1 \<longleftrightarrow> is_found st \<or> group_offers sector w g" "\<not> group_offers sector w g \<Longrightarrow> is_inode st1 = is_inode st"
      using find_bytes [of sector w ?b "is_bitmap st"] False
      by (auto simp: st1_def search_group_def group_offers_def inode_used_def split: option.splits)
    obtain st' w' where IH: "search_inode_groups gs io (place 0 1024 (block_byte sector w 2) junk) st1 (mnt\<lparr>ctx_world := w1\<rparr>) = Some (st', mnt\<lparr>ctx_world := w'\<rparr>)"
        "ready w'" "sector w' = sector w" "is_found st' \<longleftrightarrow> is_found st1 \<or> (\<exists>g \<in> set gs. group_offers sector w g)"
        "(\<forall>g \<in> set gs. \<not> group_offers sector w g) \<longrightarrow> is_inode st' = is_inode st1"
      using Cons.IH [of "mnt\<lparr>ctx_world := w1\<rparr>" st1] Cons.prems w1(2,3) by auto
    show ?thesis using IH w1(1) st1 False Cons.prems(3)
      by (intro exI [of _ st'] exI [of _ w']) (auto simp: inode_desc_loaded [OF g(1)] desc_loaded(1) [OF g(1)] st1_def)
  qed
qed

lemma allocate_search_spec:
  fixes mnt :: "'w ext2_mount_context"
  defines "w \<equiv> ctx_world mnt"
  assumes r: "ready w" and dev: "ctx_block_device mnt = device"
    and B: "\<And>g. g < 32 \<Longrightarrow> inode_bitmap_of sector w g < block_limit"
  shows "if \<exists>g < 32. group_offers sector w g then allocate_inode io junk nr is_dir False mnt = None
     else \<exists>w'. allocate_inode io junk nr is_dir False mnt = Some (SYS_RET_NO_ERROR, nr, mnt\<lparr>ctx_world := w'\<rparr>) \<and> ready w' \<and> sector w' = sector w"
proof -
  let ?D = "place 0 1024 (block_byte sector w 2) junk"
  obtain w1 where w1: "load_block io device 2 junk w = Some (?D, w1)" "ready w1" "sector w1 = sector w"
    using load_block_spec [OF r, of 2 junk] by auto
  let ?st = "\<lparr>is_found = False, is_j = 0, is_k = 0, is_inode = nr, is_bitmap = junk\<rparr>"
  have groups: "set groups_32 = {g. g < 32}"
    by (auto simp: groups_32_def word_less_nat_alt unat_of_nat_u32 intro!: image_eqI [of _ _ "unat _"])
  obtain st' w' where s: "search_inode_groups groups_32 io ?D ?st (mnt\<lparr>ctx_world := w1\<rparr>) = Some (st', mnt\<lparr>ctx_world := w'\<rparr>)"
      "ready w'" "sector w' = sector w" "is_found st' \<longleftrightarrow> (\<exists>g < 32. group_offers sector w g)"
      "(\<forall>g < 32. \<not> group_offers sector w g) \<longrightarrow> is_inode st' = nr"
    using search_groups_spec [of "mnt\<lparr>ctx_world := w1\<rparr>" w groups_32 junk ?st] w1 dev B by (auto simp: groups)
  show ?thesis using w1(1) s dev by (auto simp: allocate_inode_def w_def [symmetric] take_inode_def)
qed

end

section \<open>Mounting\<close>

context block_disk
begin

lemma mount_unmount:
  assumes r: "ready (ctx_world mnt)"
  shows "\<exists>mnt1 mnt2. ext2_mount_device io device mnt = Some (SYS_RET_NO_ERROR, mnt1) \<and>
     ext2_unmount_device io null_device mnt1 = Some (SYS_RET_NO_ERROR, mnt2) \<and> ready (ctx_world mnt2) \<and>
     (\<forall>a. unat a < 1024 \<longrightarrow> ctx_superblock mnt1 a = store16 s_state EXT2_ERROR_FS (disk_block sector (ctx_world mnt) 1) a) \<and>
     (\<forall>c k. c < block_limit \<longrightarrow> k < 1024 \<longrightarrow>
        block_byte sector (ctx_world mnt1) c k = (if c = 1 then ctx_superblock mnt1 (of_nat k) else block_byte sector (ctx_world mnt) c k) \<and>
        block_byte sector (ctx_world mnt2) c k =
          (if c = 1 then store16 s_state EXT2_VALID_FS (disk_block sector (ctx_world mnt) 1) (of_nat k) else block_byte sector (ctx_world mnt) c k))"
proof -
  let ?w = "ctx_world mnt"
  let ?sb = "place 0 1024 (block_byte sector ?w 1) (ctx_superblock mnt)"
  let ?sb1 = "store16 s_state EXT2_ERROR_FS ?sb" and ?sb2 = "store16 s_state EXT2_VALID_FS (store16 s_state EXT2_ERROR_FS ?sb)"
  obtain w1 where w1: "ext2_read_blocks io device 1 0 1 (ctx_superblock mnt, ?w) = Some (SYS_RET_NO_ERROR, ?sb, w1)" "ready w1" "sector w1 = sector ?w"
    using read_block [OF r, of 1 0 "ctx_superblock mnt"] by auto
  have bb: "block_byte sector w1 = block_byte sector ?w" using w1(3) by (simp add: block_byte_def fun_eq_iff)
  obtain w2 where w2: "ext2_write_blocks io device 1 0 1 (?sb1, w1) = Some (SYS_RET_NO_ERROR, ?sb1, w2)" "ready w2"
      "\<forall>c k. c < block_limit \<longrightarrow> k < 1024 \<longrightarrow> block_byte sector w2 c k = (if c = 1 then ?sb1 (of_nat k) else block_byte sector ?w c k)"
    using write_block [OF w1(2), of 1 0 ?sb1] unfolding bb by auto
  obtain w3 where w3: "ext2_write_blocks io device 1 0 1 (?sb2, w2) = Some (SYS_RET_NO_ERROR, ?sb2, w3)" "ready w3"
      "\<forall>c k. c < block_limit \<longrightarrow> k < 1024 \<longrightarrow> block_byte sector w3 c k = (if c = 1 then ?sb2 (of_nat k) else block_byte sector w2 c k)"
    using write_block [OF w2(2), of 1 0 ?sb2] by auto
  let ?m1 = "mnt\<lparr>ctx_superblock := ?sb1, ctx_world := w2, ctx_block_device := device\<rparr>"
  let ?m2 = "?m1\<lparr>ctx_superblock := (\<lambda>_. 0), ctx_world := w3, ctx_block_device := null_device\<rparr>"
  have mount: "ext2_mount_device io device mnt = Some (SYS_RET_NO_ERROR, ?m1)"
    using w1(1) w2(1) by (simp add: ext2_mount_device_def sector_bytes Let_def)
  have unmount: "ext2_unmount_device io null_device ?m1 = Some (SYS_RET_NO_ERROR, ?m2)"
    using w3(1) by (simp add: ext2_unmount_device_def Let_def)
  have twice: "?sb2 = store16 s_state EXT2_VALID_FS ?sb" by (rule ext) (simp add: store16_def)
  have sb: "?sb1 a = store16 s_state EXT2_ERROR_FS (disk_block sector ?w 1) a" if "unat a < 1024" for a
    using store16_loaded [of "unat a" s_state EXT2_ERROR_FS sector ?w 1 "ctx_superblock mnt"] that by simp
  have last: "?sb2 (of_nat k) = store16 s_state EXT2_VALID_FS (disk_block sector ?w 1) (of_nat k)" if "k < 1024" for k
    unfolding twice by (rule store16_loaded [OF that])
  show ?thesis
    by (rule exI [of _ ?m1], rule exI [of _ ?m2]) (use mount unmount w2(3) w3(2,3) sb last in auto)
qed

end

section \<open>Properties\<close>

text \<open>
  Mounting reads the superblock and marks the file system as in use, in the context and on the disk, and
  unmounting marks it as cleanly unmounted; afterwards the disk is the one before, but for that mark.
\<close>

theorem ext2_mount_unmount:
  assumes "block_disk io device ready sector" "ready (ctx_world mnt)"
  shows "\<exists>mnt1 mnt2. ext2_mount_device io device mnt = Some (SYS_RET_NO_ERROR, mnt1) \<and>
     ext2_unmount_device io null_device mnt1 = Some (SYS_RET_NO_ERROR, mnt2) \<and> ready (ctx_world mnt2) \<and>
     (\<forall>a. unat a < 1024 \<longrightarrow> ctx_superblock mnt1 a = store16 s_state EXT2_ERROR_FS (disk_block sector (ctx_world mnt) 1) a) \<and>
     (\<forall>c k. c < block_limit \<longrightarrow> k < 1024 \<longrightarrow>
        block_byte sector (ctx_world mnt1) c k = (if c = 1 then ctx_superblock mnt1 (of_nat k) else block_byte sector (ctx_world mnt) c k) \<and>
        block_byte sector (ctx_world mnt2) c k =
          (if c = 1 then store16 s_state EXT2_VALID_FS (disk_block sector (ctx_world mnt) 1) (of_nat k) else block_byte sector (ctx_world mnt) c k))"
  by (rule block_disk.mount_unmount [OF assms])

text \<open>
  C35: writing an inode and reading it back: the 128 bytes written are read, the inode counts as allocated, no other bit
  of the bitmap and no other byte of any block changes. The bitmap and the table are where the table of descriptors says.
\<close>

theorem ext2_inode_roundtrip:
  assumes "block_disk io device ready sector" "ready (ctx_world mnt)" "ctx_block_device mnt = device"
    and "inode_place (ctx_superblock mnt) nr = Some (g, i)"
    and "B = inode_bitmap_of sector (ctx_world mnt) g" "T = inode_block_of sector (ctx_world mnt) g i"
    and "B < block_limit" "T < block_limit" "distinct [2, B, T]"
  shows "\<exists>mnt1 mnt2. ext2_write_inode io junk inode nr mnt = Some (SYS_RET_NO_ERROR, mnt1) \<and>
     ext2_read_inode io junk' inode' nr mnt1 = Some (SYS_RET_NO_ERROR, place 0 128 (\<lambda>k. inode (of_nat k)) inode', mnt2) \<and>
     ready (ctx_world mnt2) \<and>
     (\<forall>x. unat x < 8192 \<longrightarrow> is_inode_allocated (disk_block sector (ctx_world mnt2) B) x =
        (x = i \<or> is_inode_allocated (disk_block sector (ctx_world mnt) B) x)) \<and>
     (\<forall>c k. c < block_limit \<longrightarrow> k < 1024 \<longrightarrow> c \<noteq> B \<longrightarrow> \<not> (c = T \<and> k div 128 = unat i mod 8) \<longrightarrow>
        block_byte sector (ctx_world mnt2) c k = block_byte sector (ctx_world mnt) c k)"
  by (rule block_disk.write_read_inode [OF assms])

text \<open>
  The bitmaps of a new group: exactly the blocks of its superblock, descriptors, bitmaps and inode table are in
  use when the bitmap was clear, and exactly the inodes behind the last one of the group.
\<close>

theorem ext2_initial_bitmaps:
  assumes "unat inode_table_length < 8188" "unat inodes_per_group < 8192"
  shows "(\<exists>b. setup_initial_block_bitmap inode_table_length (\<lambda>_. 0) = Some b \<and>
       (\<forall>x. is_inode_allocated b x \<longleftrightarrow> unat x < unat inode_table_length + 4)) \<and>
     (\<exists>b. setup_initial_inode_bitmap inodes_per_group bm = Some b \<and>
       (\<forall>x. unat x < 8192 \<longrightarrow> is_inode_allocated b x = (unat inodes_per_group \<le> unat x)))"
  using initial_block_bitmap_bits [OF assms(1), of "\<lambda>_. 0"] initial_inode_bitmap_bits [OF assms(2), of bm]
  by (auto simp: is_inode_allocated_bit)

text \<open>
  C36: allocating a block: from the first group whose count of free blocks is not zero the lowest clear bit of its
  bitmap is taken and its number returned; exactly that bit is set, the counts of the group and of the superblock go
  down by one, and no other byte of the disk changes.
\<close>

theorem ext2_allocate_block:
  fixes mnt :: "'w ext2_mount_context"
  defines "w \<equiv> ctx_world mnt"
  assumes "block_disk io device ready sector" "ready w" "ctx_block_device mnt = device" "i < 32"
    and "load32 (ctx_superblock mnt) s_blocks_per_group = 8192"
    and "\<And>j. j < i \<Longrightarrow> block_bitmap_of sector w j \<noteq> 0 \<and> free_blocks_of sector w j = 0" "free_blocks_of sector w i \<noteq> 0"
    and "B = block_bitmap_of sector w i" "B \<notin> {0, 2}" "B < block_limit" "lowest_clear (disk_block sector w B) x"
  shows "\<exists>mnt'. allocate_blocks io junk 1 out mnt = Some (SYS_RET_NO_ERROR, out(0 := i * 8192 + x + 1), mnt') \<and>
     ready (ctx_world mnt') \<and> ctx_block_device mnt' = device \<and>
     ctx_superblock mnt' = store32 s_free_blocks_count (load32 (ctx_superblock mnt) s_free_blocks_count - 1) (ctx_superblock mnt) \<and>
     (\<forall>c k. c < block_limit \<longrightarrow> k < 1024 \<longrightarrow> block_byte sector (ctx_world mnt') c k =
       (if c = B then set_inode_bit x (disk_block sector w B) (of_nat k)
        else if c = 2 then store16 (desc bg_free_blocks_count i) (free_blocks_of sector w i - 1) (disk_block sector w 2) (of_nat k)
        else block_byte sector w c k))"
  using block_disk.allocate_block_spec [OF assms(2), of mnt i B x junk out] assms(3-) unfolding w_def by blast

text \<open>
  C37: allocating an inode. A given inode that is in use is refused and nothing changes; one that is not is marked, with
  the counts of its group and of the superblock. The search for any free inode goes past the last descriptor when a
  group has one, an access outside the table; otherwise it reports success without an inode.
\<close>

theorem ext2_allocate_inode:
  fixes mnt :: "'w ext2_mount_context"
  defines "w \<equiv> ctx_world mnt"
  assumes "block_disk io device ready sector" "ready w" "ctx_block_device mnt = device"
  shows "(inode_place (ctx_superblock mnt) nr = Some (g, i) \<and> B = inode_bitmap_of sector w g \<and> B \<noteq> 2 \<and> B < block_limit \<longrightarrow>
     (\<exists>mnt'. allocate_inode io junk nr is_dir True mnt =
         Some (if inode_used sector w g i then SYS_RET_UNAVAILABLE else SYS_RET_NO_ERROR, nr, mnt') \<and>
       ready (ctx_world mnt') \<and>
       (if inode_used sector w g i then ctx_superblock mnt' = ctx_superblock mnt \<and> sector (ctx_world mnt') = sector w
        else ctx_superblock mnt' = store32 s_free_inodes_count (load32 (ctx_superblock mnt) s_free_inodes_count - 1) (ctx_superblock mnt) \<and>
         (\<forall>c k. c < block_limit \<longrightarrow> k < 1024 \<longrightarrow> block_byte sector (ctx_world mnt') c k =
           (if c = B then set_inode_bit i (disk_block sector w B) (of_nat k)
            else if c = 2 then table_with_inode_taken is_dir g (disk_block sector w 2) (of_nat k)
            else block_byte sector w c k))))) \<and>
     ((\<forall>g<32. inode_bitmap_of sector w g < block_limit) \<longrightarrow>
     (if \<exists>g<32. group_offers sector w g then allocate_inode io junk nr is_dir False mnt = None
      else \<exists>w'. allocate_inode io junk nr is_dir False mnt = Some (SYS_RET_NO_ERROR, nr, mnt\<lparr>ctx_world := w'\<rparr>) \<and> ready w' \<and> sector w' = sector w))"
  using block_disk.allocate_given_spec [OF assms(2), of mnt nr g i B junk is_dir] block_disk.allocate_search_spec [OF assms(2), of mnt junk nr is_dir] assms(3,4)
  unfolding w_def by blast

section \<open>An example\<close>

text \<open>A disk with one group: its bitmaps are in blocks 3 and 4, its inode table starts at block 5, and eight blocks are in use.\<close>

definition ext2_drive :: ata_drive where
  "ext2_drive = blank_drive\<lparr>words := (\<lambda>_ _. 0)(4 := (\<lambda>_. 0)(0 := 3, 2 := 4, 4 := 5, 6 := 10, 7 := 3), 6 := (\<lambda>_. 0)(0 := 0xFF))\<rparr>"

definition ext2_mounted :: "ata_drive ext2_mount_context" where
  "ext2_mounted = \<lparr>ctx_block_device = first_disk, ctx_superblock = store32 s_blocks_per_group 8192 (store32 s_inodes_per_group 1712 (\<lambda>_. 0)),
     rw_buffer = (\<lambda>_. 0), ctx_world = ext2_drive\<rparr>"

lemma ext2_mounted_sel:
  "ctx_block_device ext2_mounted = first_disk" "ctx_world ext2_mounted = ext2_drive" "drive_ready ext2_drive"
  "load32 (ctx_superblock ext2_mounted) s_blocks_per_group = 8192" "load32 (ctx_superblock ext2_mounted) s_inodes_per_group = 1712"
  "load32 (ctx_superblock ext2_mounted) s_free_blocks_count = 0" "load32 (ctx_superblock ext2_mounted) s_free_inodes_count = 0"
proof -
  have apart: "no_overlap 32 4 40 4" "no_overlap 32 4 12 4" "no_overlap 40 4 12 4" "no_overlap 32 4 16 4" "no_overlap 40 4 16 4"
    by (simp_all add: no_overlap_apart)
  have zero: "load32 (\<lambda>_. 0) p = 0" for p by (simp add: load32_def load16_def)
  show "load32 (ctx_superblock ext2_mounted) s_blocks_per_group = 8192" "load32 (ctx_superblock ext2_mounted) s_inodes_per_group = 1712"
    "load32 (ctx_superblock ext2_mounted) s_free_blocks_count = 0" "load32 (ctx_superblock ext2_mounted) s_free_inodes_count = 0"
    using apart by (simp_all add: ext2_mounted_def superblock_layout load32_store32_other zero)
qed (simp_all add: ext2_mounted_def ext2_drive_def blank_drive_def drive_ready_def)

lemma ext2_table:
  "disk_block sector_byte ext2_drive 2 a = (if a = 0 then 3 else if a = 4 then 4 else if a = 8 then 5 else if a = 12 then 10 else if a = 14 then 3 else 0)"
  if "unat a < 1024" for a
proof -
  have e: "(a = n) = (unat a = unat n)" for n by (simp add: word_unat_eq_iff)
  have h: "n div 2 = k \<longleftrightarrow> n = 2 * k \<or> n = Suc (2 * k)" for n k :: nat by presburger
  have "unat a div 512 = 0 \<or> unat a div 512 = 1" using that by auto
  then show ?thesis
  proof
    assume "unat a div 512 = 0"
    then have "unat a < 512" by simp
    then show ?thesis unfolding e by (auto simp: disk_block_def block_byte_def sector_byte_def ext2_drive_def h)
  next
    assume d: "unat a div 512 = 1"
    then have "512 \<le> unat a" by simp
    then show ?thesis unfolding e using d by (auto simp: disk_block_def block_byte_def sector_byte_def ext2_drive_def)
  qed
qed

lemma ext2_group0:
  "inode_bitmap_of sector_byte ext2_drive 0 = 4" "inode_block_of sector_byte ext2_drive 0 10 = 6" "block_bitmap_of sector_byte ext2_drive 0 = 3"
  "free_blocks_of sector_byte ext2_drive 0 = 10" "free_inodes_of sector_byte ext2_drive 0 = 3"
  by (simp_all add: inode_bitmap_of_def inode_block_of_def block_bitmap_of_def free_blocks_of_def free_inodes_of_def load32_def load16_def desc_def
      bg_inode_bitmap_def bg_inode_table_def bg_block_bitmap_def bg_free_blocks_count_def bg_free_inodes_count_def ext2_table)

lemma ext2_place: "inode_place (ctx_superblock ext2_mounted) 11 = Some (0, 10)"
  by (simp add: inode_place_def ext2_mounted_sel Let_def)

lemma ext2_bitmap_byte: "disk_block sector_byte ext2_drive 3 a = (if a = 0 then 0xFF else 0)" if "unat a < 512"
  using that by (auto simp: disk_block_def block_byte_def sector_byte_def ext2_drive_def word_unat_eq_iff)

lemma ext2_lowest: "lowest_clear (disk_block sector_byte ext2_drive 3) 8"
proof -
  have "is_inode_allocated (disk_block sector_byte ext2_drive 3) y" if "y < 8" for y
  proof -
    have "unat y < 8" using that by (simp add: word_less_nat_alt)
    then have "y div 8 = 0" by (simp add: word_unat_eq_iff unat_div)
    then show ?thesis using ext2_bitmap_byte [of 0] unat_mod_8 [of y] by (simp add: is_inode_allocated_bit)
  qed
  moreover have "\<not> is_inode_allocated (disk_block sector_byte ext2_drive 3) 8"
    using ext2_bitmap_byte [of 1] by (simp add: is_inode_allocated_bit)
  ultimately show ?thesis by (simp add: lowest_clear_def)
qed

lemma byte_bound: "unat (ucast (ucast (x :: u8) :: u16) :: u32) < 256"
proof -
  have "unat x < 2 ^ LENGTH(8)" by (rule unsigned_less)
  then have "unat x < 256" by simp
  then show ?thesis by (simp add: unsigned_ucast_eq unsigned_take_bit_eq take_bit_nat_eq_self)
qed

theorem ext2_mount_unmount_witness:
  "\<exists>mnt1 mnt2. ext2_mount_device drive_io first_disk ext2_mounted = Some (SYS_RET_NO_ERROR, mnt1) \<and>
     ext2_unmount_device drive_io first_disk mnt1 = Some (SYS_RET_NO_ERROR, mnt2) \<and> drive_ready (ctx_world mnt2)"
  using ext2_mount_unmount [OF ata_blocks.block_disk_axioms, of ext2_mounted first_disk] by (auto simp: ext2_mounted_sel)

theorem ext2_inode_roundtrip_witness:
  "\<exists>mnt1 mnt2. ext2_write_inode drive_io (\<lambda>_. 0) (\<lambda>a. ucast a) 11 ext2_mounted = Some (SYS_RET_NO_ERROR, mnt1) \<and>
     ext2_read_inode drive_io (\<lambda>_. 1) (\<lambda>_. 2) 11 mnt1 = Some (SYS_RET_NO_ERROR, place 0 128 (\<lambda>k. ucast (of_nat k :: u32)) (\<lambda>_. 2), mnt2)"
  using ext2_inode_roundtrip [OF ata_blocks.block_disk_axioms _ _ ext2_place refl refl, of "\<lambda>_. 0" "\<lambda>a. ucast a" "\<lambda>_. 1" "\<lambda>_. 2"]
  by (simp add: ext2_mounted_sel ext2_group0) blast

theorem ext2_initial_bitmaps_witness:
  "(\<exists>b. setup_initial_block_bitmap 214 (\<lambda>_. 0) = Some b \<and> (\<forall>x. is_inode_allocated b x \<longleftrightarrow> unat x < 218)) \<and>
   (\<exists>b. setup_initial_inode_bitmap 1712 (\<lambda>_. 0) = Some b \<and> (\<forall>x. unat x < 8192 \<longrightarrow> is_inode_allocated b x = (1712 \<le> unat x)))"
  using ext2_initial_bitmaps [of 214 1712 "\<lambda>_. 0"] by simp

theorem ext2_allocate_block_witness:
  "\<exists>mnt'. allocate_blocks drive_io (\<lambda>_. 0) 1 (\<lambda>_. 0) ext2_mounted = Some (SYS_RET_NO_ERROR, (\<lambda>_. 0)(0 := 9), mnt')"
proof -
  have "\<exists>mnt'. allocate_blocks drive_io (\<lambda>_. 0) 1 (\<lambda>_. 0) ext2_mounted = Some (SYS_RET_NO_ERROR, (\<lambda>_. 0)(0 := 0 * 8192 + 8 + 1), mnt') \<and>
     drive_ready (ctx_world mnt') \<and> ctx_block_device mnt' = first_disk \<and>
     ctx_superblock mnt' = store32 s_free_blocks_count (load32 (ctx_superblock ext2_mounted) s_free_blocks_count - 1) (ctx_superblock ext2_mounted) \<and>
     (\<forall>c k. c < block_limit \<longrightarrow> k < 1024 \<longrightarrow> block_byte sector_byte (ctx_world mnt') c k =
       (if c = 3 then set_inode_bit 8 (disk_block sector_byte (ctx_world ext2_mounted) 3) (of_nat k)
        else if c = 2 then store16 (desc bg_free_blocks_count 0) (free_blocks_of sector_byte (ctx_world ext2_mounted) 0 - 1) (disk_block sector_byte (ctx_world ext2_mounted) 2) (of_nat k)
        else block_byte sector_byte (ctx_world ext2_mounted) c k))"
    by (rule ext2_allocate_block [OF ata_blocks.block_disk_axioms]) (simp_all add: ext2_mounted_sel ext2_group0 ext2_lowest)
  then show ?thesis by auto
qed

theorem ext2_allocate_inode_witness:
  "(\<exists>mnt'. allocate_inode drive_io (\<lambda>_. 0) 11 True True ext2_mounted = Some (SYS_RET_NO_ERROR, 11, mnt')) \<and>
   allocate_inode drive_io (\<lambda>_. 0) 11 True False ext2_mounted = None"
proof -
  have clear: "disk_block sector_byte ext2_drive 4 a = 0" if "unat a < 512" for a
    using that by (auto simp: disk_block_def block_byte_def sector_byte_def ext2_drive_def)
  have unused: "\<not> inode_used sector_byte ext2_drive 0 10"
    unfolding inode_used_def ext2_group0 using clear [of 1] by (simp add: is_inode_allocated_bit)
  then have offers: "group_offers sector_byte ext2_drive 0"
    unfolding group_offers_def ext2_group0 by (intro conjI exI [of _ 10]) simp_all
  have bitmaps: "inode_bitmap_of sector_byte ext2_drive g < block_limit" if "g < 32" for g
  proof -
    have "unat (desc bg_inode_bitmap g) = 32 * unat g + 4" "unat (desc bg_inode_bitmap g) + 4 \<le> 1024"
      using desc_bound [OF that, of bg_inode_bitmap] by (simp_all add: bg_inode_bitmap_def)
    then have u: "unat (desc bg_inode_bitmap g + of_nat k) = 32 * unat g + 4 + k" if "k < 4" for k
      using that by (simp add: unat_word_ariths(1) unat_of_nat_u32)
    have small: "disk_block sector_byte ext2_drive 2 (desc bg_inode_bitmap g + of_nat k) = 0" if "0 < k" "k < 4" for k
      using that u [of k] \<open>unat (desc bg_inode_bitmap g) + 4 \<le> 1024\<close> \<open>unat (desc bg_inode_bitmap g) = _\<close>
      by (subst ext2_table) (auto simp: word_unat_eq_iff, presburger+)
    have "inode_bitmap_of sector_byte ext2_drive g = ucast (ucast (disk_block sector_byte ext2_drive 2 (desc bg_inode_bitmap g)) :: u16)"
      unfolding inode_bitmap_of_def load32_def load16_def using small [of 1] small [of 2] small [of 3] by (simp add: add.assoc)
    moreover have "unat (ucast (ucast (disk_block sector_byte ext2_drive 2 (desc bg_inode_bitmap g)) :: u16) :: u32) < 256"
      by (rule byte_bound)
    ultimately show ?thesis by (simp add: word_less_nat_alt)
  qed
  have "0 < (32 :: u32)" by simp
  with offers have some: "\<exists>g<32. group_offers sector_byte ext2_drive g" by blast
  have ready: "drive_ready (ctx_world ext2_mounted)" by (simp add: ext2_mounted_sel)
  note th = ext2_allocate_inode [OF ata_blocks.block_disk_axioms ready, of 11 0 10 4 "\<lambda>_. 0" True]
  show ?thesis using th bitmaps some unused unfolding ext2_mounted_sel ext2_group0 ext2_place by auto
qed

end
