(* ===== verification/Ext2Dirs.thy ===== *)
theory Ext2Dirs
  imports Ext2Disk
begin

text \<open>
  Directories of the ext2 file system. A directory's block holds a list of entries, \<open>dir_holds\<close>; the walk ends behind
  the last one, and \<^verbatim>\<open>ext2_add_link\<close> puts an entry there. The relation \<open>shows_dirs\<close> connects a disk with the
  directories and numbers of links that it holds, and adding a link is a step of both: one entry more, one link more and
  nothing else. The links that formatting makes follow by five such steps.
\<close>

section \<open>Addresses in a buffer\<close>

lemma buffer_address: "a < 4096 \<Longrightarrow> b < 4096 \<Longrightarrow> (of_nat a :: u32) = of_nat b \<longleftrightarrow> a = b"
  by (simp add: word_unat_eq_iff unat_of_nat_u32)

lemma in_range_buffer: "a + n \<le> 4096 \<Longrightarrow> b < 4096 \<Longrightarrow> in_range (of_nat a) n (of_nat b) \<longleftrightarrow> a \<le> b \<and> b < a + n"
proof -
  assume h: "a + n \<le> 4096" "b < 4096"
  have "in_range (of_nat a) n (of_nat b) \<longleftrightarrow> (\<exists>i<n. of_nat b = (of_nat (a + i) :: u32))" using h by (simp add: in_range_offset)
  also have "\<dots> \<longleftrightarrow> (\<exists>i<n. b = a + i)" using h by (auto simp del: of_nat_add simp: buffer_address)
  also have "\<dots> \<longleftrightarrow> a \<le> b \<and> b < a + n" by presburger
  finally show ?thesis .
qed

lemma place_buffer:
  "a + n \<le> 4096 \<Longrightarrow> b < 4096 \<Longrightarrow> place (of_nat a) n f m (of_nat b) = (if a \<le> b \<and> b < a + n then f (b - a) else m (of_nat b))"
  using in_range_buffer [of a n b] place_outside [of "of_nat a" n "of_nat b" f m] place_apply [of "b - a" n "of_nat a" f m]
  by (auto simp flip: of_nat_add)

lemma store_buffer:
  "a + 4 \<le> 4096 \<Longrightarrow> b < 4096 \<Longrightarrow> \<not> (a \<le> b \<and> b < a + 4) \<Longrightarrow> store32 (of_nat a) v m (of_nat b) = m (of_nat b)"
  "a + 2 \<le> 4096 \<Longrightarrow> b < 4096 \<Longrightarrow> \<not> (a \<le> b \<and> b < a + 2) \<Longrightarrow> store16 (of_nat a) u m (of_nat b) = m (of_nat b)"
  using in_range_buffer [of a 4 b] in_range_buffer [of a 2 b] by (simp_all add: store32_outside store16_outside)

lemma loads_buffer:
  "(\<And>i. i < 4 \<Longrightarrow> m (of_nat (a + i)) = m' (of_nat (a + i))) \<Longrightarrow> load32 m (of_nat a) = load32 m' (of_nat a)"
  "(\<And>i. i < 2 \<Longrightarrow> m (of_nat (a + i)) = m' (of_nat (a + i))) \<Longrightarrow> load16 m (of_nat a) = load16 m' (of_nat a)"
proof -
  show "(\<And>i. i < 4 \<Longrightarrow> m (of_nat (a + i)) = m' (of_nat (a + i))) \<Longrightarrow> load32 m (of_nat a) = load32 m' (of_nat a)"
    by (rule load32_cong) simp
  assume h: "\<And>i. i < 2 \<Longrightarrow> m (of_nat (a + i)) = m' (of_nat (a + i))"
  show "load16 m (of_nat a) = load16 m' (of_nat a)" using h [of 0] h [of 1] by (simp add: load16_def add.commute)
qed

section \<open>A directory as a list\<close>

text \<open>
  What a directory holds is the list of its entries: the inode, the type and the name of each. An entry takes eight bytes
  and its name, filled up to a multiple of four; the entry behind the last one has no inode.
\<close>

type_synonym dir_entry = "u32 \<times> u8 \<times> u8 list"

definition link_bytes :: "u8 list \<Rightarrow> nat" where
  "link_bytes nm = 8 + (length nm + 3) div 4 * 4"

primrec dir_bytes :: "dir_entry list \<Rightarrow> nat" where
  "dir_bytes [] = 0"
| "dir_bytes (e # es) = link_bytes (snd (snd e)) + dir_bytes es"

fun link_at :: "mem \<Rightarrow> nat \<Rightarrow> dir_entry \<Rightarrow> bool" where
  "link_at m p (ino, ty, nm) \<longleftrightarrow> ino \<noteq> 0 \<and> load32 m (of_nat p) = ino \<and> load16 m (of_nat (p + 4)) = of_nat (link_bytes nm) \<and>
     length nm < 256 \<and> m (of_nat (p + 6)) = of_nat (length nm) \<and> m (of_nat (p + 7)) = ty \<and>
     (\<forall>k<length nm. m (of_nat (p + 8 + k)) = nm ! k)"

primrec links_at :: "mem \<Rightarrow> nat \<Rightarrow> dir_entry list \<Rightarrow> bool" where
  "links_at m p [] \<longleftrightarrow> True"
| "links_at m p (e # es) \<longleftrightarrow> link_at m p e \<and> links_at m (p + link_bytes (snd (snd e))) es"

definition dir_holds :: "mem \<Rightarrow> dir_entry list \<Rightarrow> bool" where
  "dir_holds m es \<longleftrightarrow> links_at m 0 es \<and> load32 m (of_nat (dir_bytes es)) = 0"

lemma dir_bytes_append [simp]: "dir_bytes (es @ fs) = dir_bytes es + dir_bytes fs"
  by (induction es) simp_all

lemma links_at_append [simp]: "links_at m p (es @ fs) \<longleftrightarrow> links_at m p es \<and> links_at m (p + dir_bytes es) fs"
  by (induction es arbitrary: p) (simp_all add: add.assoc)

lemma link_bytes_bounds: "8 + length nm \<le> link_bytes nm" "length nm < 256 \<Longrightarrow> link_bytes nm \<le> 264" "link_bytes nm < length nm + 12"
proof -
  have "8 + n \<le> 8 + (n + 3) div 4 * 4 \<and> (n < 256 \<longrightarrow> 8 + (n + 3) div 4 * 4 \<le> 264) \<and> 8 + (n + 3) div 4 * 4 < n + 12" for n :: nat
    by presburger
  then show "8 + length nm \<le> link_bytes nm" "length nm < 256 \<Longrightarrow> link_bytes nm \<le> 264" "link_bytes nm < length nm + 12"
    by (simp_all add: link_bytes_def)
qed

lemma link_at_cong:
  assumes "\<And>k. p \<le> k \<Longrightarrow> k < p + link_bytes (snd (snd e)) \<Longrightarrow> m (of_nat k) = m' (of_nat k)"
  shows "link_at m p e = link_at m' p e"
proof (cases e)
  case (fields ino ty nm)
  note b = link_bytes_bounds(1) [of nm]
  have c: "m (of_nat (p + k)) = m' (of_nat (p + k))" if "k < 8 + length nm" for k
    using assms [of "p + k"] that b fields by simp
  have "load32 m (of_nat p) = load32 m' (of_nat p)" "load16 m (of_nat (p + 4)) = load16 m' (of_nat (p + 4))"
    by (rule loads_buffer, simp add: c add.assoc del: of_nat_add)+
  moreover have "m (of_nat (p + 8 + k)) = m' (of_nat (p + 8 + k))" if "k < length nm" for k
    using c [of "8 + k"] that by (simp add: add.assoc)
  ultimately show ?thesis using c [of 6] c [of 7] fields by (simp del: of_nat_add)
qed

lemma links_at_cong:
  "(\<And>k. p \<le> k \<Longrightarrow> k < p + dir_bytes es \<Longrightarrow> m (of_nat k) = m' (of_nat k)) \<Longrightarrow> links_at m p es = links_at m' p es"
proof (induction es arbitrary: p)
  case (Cons e es)
  have "link_at m p e = link_at m' p e" by (rule link_at_cong) (simp add: Cons.prems)
  moreover have "links_at m (p + link_bytes (snd (snd e))) es = links_at m' (p + link_bytes (snd (snd e))) es"
    by (rule Cons.IH) (simp add: Cons.prems)
  ultimately show ?case by simp
qed simp

text \<open>The walk ends behind the last entry.\<close>

lemma walk_entries:
  assumes "links_at m p es" "load32 m (of_nat (p + dir_bytes es)) = 0" "p + dir_bytes es + 8 \<le> 4096"
  shows "dir_walk_end m (directory_element_at m (of_nat p)) = Some (directory_element_at m (of_nat (p + dir_bytes es)))"
  using assms
proof (induction es arbitrary: p)
  case Nil
  then show ?case by (simp add: directory_element_at_def dir_walk_end.simps)
next
  case (Cons e es)
  obtain ino ty nm where e: "e = (ino, ty, nm)" by (cases e)
  have h: "link_at m p (ino, ty, nm)" using Cons.prems(1) e by simp
  have b: "link_bytes nm \<le> 264" using h link_bytes_bounds(2) [of nm] by simp
  have r: "unat (load16 m (of_nat (p + 4))) = link_bytes nm" "(ucast (load16 m (of_nat (p + 4))) :: u32) = of_nat (link_bytes nm)"
  proof -
    show "unat (load16 m (of_nat (p + 4))) = link_bytes nm" using h b by (simp add: unat_of_nat)
    then show "(ucast (load16 m (of_nat (p + 4))) :: u32) = of_nat (link_bytes nm)"
      using b by (simp add: word_unat_eq_iff unat_of_nat_u32 unsigned_ucast_eq unsigned_take_bit_eq take_bit_nat_eq_self)
  qed
  have u: "unat (of_nat p :: u32) = p" using Cons.prems(3) by (simp add: unat_of_nat_u32)
  have n0: "load32 m (of_nat p) \<noteq> 0" using h by simp
  have le: "p + link_bytes nm + 8 \<le> 4096" using Cons.prems(3) e by simp
  have r4: "load16 m (of_nat p + 4) = load16 m (of_nat (p + 4))" by (simp add: add.commute)
  have "dir_walk_end m (directory_element_at m (of_nat p)) = dir_walk_end m (directory_element_at m (of_nat p + of_nat (link_bytes nm)))"
    by (subst dir_walk_end.simps, simp only: ext2_dir_walk_next_def directory_element_at_def)
       (simp add: n0 r4 r u del: of_nat_add, use le in simp)
  also have "\<dots> = dir_walk_end m (directory_element_at m (of_nat (p + link_bytes nm)))" by simp
  also have "\<dots> = Some (directory_element_at m (of_nat (p + link_bytes nm + dir_bytes es)))"
    by (rule Cons.IH) (use Cons.prems e in \<open>simp_all add: add.assoc\<close>)
  finally show ?case using e by (simp add: add.assoc)
qed

section \<open>An entry that is put at the end\<close>

lemma padded_length:
  assumes "n < 256"
  shows "unat (8 + (ucast (of_nat n :: u8) + (4 - ucast (of_nat n :: u8) mod 4) mod 4) :: u16) = 8 + (n + 3) div 4 * 4"
    and "unat (4 - ucast (of_nat n :: u8) mod 4 :: u32) = 4 - n mod 4"
proof -
  have c: "(ucast (of_nat n :: u8) :: u16) = of_nat n" "(ucast (of_nat n :: u8) :: u32) = of_nat n"
    using assms by (simp_all add: word_unat_eq_iff unsigned_ucast_eq unsigned_take_bit_eq take_bit_nat_eq_self unat_of_nat)
  have m: "(of_nat n mod 4 :: u16) = of_nat (n mod 4)" "(of_nat n mod 4 :: u32) = of_nat (n mod 4)"
    using assms by (simp_all add: word_unat_eq_iff unat_mod unat_of_nat)
  have r: "n mod 4 = 0 \<or> n mod 4 = 1 \<or> n mod 4 = 2 \<or> n mod 4 = 3" by presburger
  have f: "(4 - of_nat (n mod 4) :: u16) mod 4 = of_nat ((4 - n mod 4) mod 4)" using r by (elim disjE) simp_all
  have "8 + (of_nat n + of_nat ((4 - n mod 4) mod 4)) = (of_nat (8 + (n + (4 - n mod 4) mod 4)) :: u16)" by simp
  moreover have "8 + (n + (4 - n mod 4) mod 4) = 8 + (n + 3) div 4 * 4"
  proof -
    define q t where "q = n div 4" and "t = n mod 4"
    have n: "n = 4 * q + t" "t = 0 \<or> t = 1 \<or> t = 2 \<or> t = 3" using r by (simp_all add: q_def t_def)
    have "(4 * q + t + 3) div 4 * 4 = 4 * q + t + (4 - t) mod 4" using n(2) by (elim disjE) simp_all
    then have "(n + 3) div 4 * 4 = n + (4 - t) mod 4" unfolding n(1) [symmetric] .
    then show ?thesis unfolding t_def by simp
  qed
  moreover have "8 + (n + 3) div 4 * 4 < 65536" using assms by linarith
  ultimately show "unat (8 + (ucast (of_nat n :: u8) + (4 - ucast (of_nat n :: u8) mod 4) mod 4) :: u16) = 8 + (n + 3) div 4 * 4"
    unfolding c m f by (simp only: unat_of_nat) simp
  show "unat (4 - ucast (of_nat n :: u8) mod 4 :: u32) = 4 - n mod 4" unfolding c m using r by (elim disjE) simp_all
qed

lemma offset_buffer: "(of_nat p :: u32) + numeral n = of_nat (p + numeral n)"
  by simp

lemma put_link_spec:
  assumes n: "length name < 256" and i: "ino \<noteq> 0" and P: "P + link_bytes name + 8 \<le> 1024"
  shows "\<exists>m'. put_link (of_nat P) name ty (of_nat (length name)) ino m = Some m' \<and> link_at m' P (ino, ty, name) \<and>
     load32 m' (of_nat (P + link_bytes name)) = 0 \<and>
     load16 m' (of_nat (P + link_bytes name + 4)) = of_nat (1024 - (P + link_bytes name)) \<and>
     (\<forall>k<4096. k < P \<or> P + link_bytes name + 8 \<le> k \<longrightarrow> m' (of_nat k) = m (of_nat k))"
proof -
  let ?n = "length name"
  let ?len = "of_nat ?n :: u8"
  let ?rec = "8 + (ucast ?len + (4 - ucast ?len mod 4) mod 4) :: u16"
  define Q where "Q = P + link_bytes name"
  have u: "unat ?rec = link_bytes name" using padded_length(1) [OF n] by (simp add: link_bytes_def)
  have rec: "?rec = of_nat (link_bytes name)" using u link_bytes_bounds(2) [OF n] by (simp add: word_unat_eq_iff unat_of_nat)
  have l: "unat ?len = ?n" using n by (simp add: unat_of_nat)
  have b: "P + 8 + ?n \<le> Q" "Q + 8 \<le> 1024" "Q < P + ?n + 12" "P + 8 \<le> Q"
    using P link_bytes_bounds [of name] by (simp_all add: Q_def)
  have pad: "?n + (4 - ?n mod 4) \<le> link_bytes name - 8 + 4" unfolding link_bytes_def by presburger
  have q: "of_nat P + ucast ?rec = (of_nat Q :: u32)" "of_nat P + 8 + ucast ?len = (of_nat (P + 8 + ?n) :: u32)"
  proof -
    have "(ucast ?rec :: u32) = of_nat (link_bytes name)" "(ucast ?len :: u32) = of_nat ?n"
      using u l n link_bytes_bounds(2) [OF n]
      by (simp_all only: word_unat_eq_iff unsigned_ucast_eq unsigned_take_bit_eq take_bit_nat_eq_self unat_of_nat)
         (simp_all add: take_bit_nat_eq_self)
    then show "of_nat P + ucast ?rec = (of_nat Q :: u32)" "of_nat P + 8 + ucast ?len = (of_nat (P + 8 + ?n) :: u32)"
      by (simp_all add: Q_def)
  qed
  define m1 where "m1 = store32 (of_nat P) ino m"
  define m2 where "m2 = store16 (of_nat (P + 4)) (of_nat (link_bytes name)) m1"
  define m3 where "m3 = m2(of_nat (P + 6) := ?len, of_nat (P + 7) := ty)"
  define m4 where "m4 = place (of_nat (P + 8)) ?n (\<lambda>k. (name @ [0]) ! k) m3"
  define m5 where "m5 = place (of_nat (P + 8 + ?n)) (4 - ?n mod 4) (\<lambda>_. 0) m4"
  define m6 where "m6 = store32 (of_nat Q) 0 m5"
  define m7 where "m7 = store16 (of_nat (Q + 4)) (of_nat (1024 - Q)) m6"
  define m8 where "m8 = m7(of_nat (Q + 6) := 0, of_nat (Q + 7) := 0)"
  have t: "(ucast (1024 - of_nat Q :: u32) :: u16) = of_nat (1024 - Q)" 
  proof -
    have "1024 - of_nat Q = (of_nat (1024 - Q) :: u32)" "1024 - Q < 65536" using b(2) by (simp_all add: of_nat_diff)
    moreover have "(ucast (of_nat k :: u32) :: u16) = of_nat k" if "k < 65536" for k
      using that by (simp add: word_unat_eq_iff unsigned_ucast_eq unsigned_take_bit_eq unat_of_nat take_bit_nat_eq_self)
    ultimately show ?thesis using b(2) by (simp only:)
  qed
  have run: "put_link (of_nat P) name ty ?len ino m = Some m8"
    unfolding put_link_def m8_def m7_def m6_def m5_def m4_def m3_def m2_def m1_def
    unfolding Let_def memset_place padded_length(2) [OF n] q t unfolding rec l using b
    by (simp add: unat_of_nat_u32 u [unfolded rec] Q_def)
  note addr = buffer_address store_buffer place_buffer
  have head: "m8 (of_nat k) = m3 (of_nat k)" if "P \<le> k" "k < P + 8" for k
    unfolding m8_def m7_def m6_def m5_def m4_def using that b pad by (simp add: addr del: of_nat_add)
  have "load32 m8 (of_nat P) = load32 m1 (of_nat P)"
    by (rule loads_buffer) (use b in \<open>simp add: head m3_def m2_def addr del: of_nat_add\<close>)
  moreover have "load16 m8 (of_nat (P + 4)) = load16 m2 (of_nat (P + 4))"
    by (rule loads_buffer) (use b in \<open>simp add: head m3_def addr del: of_nat_add\<close>)
  moreover have "m8 (of_nat (P + 6)) = ?len" "m8 (of_nat (P + 7)) = ty"
    using b by (simp_all add: head m3_def addr del: of_nat_add)
  moreover have "m8 (of_nat (P + 8 + k)) = name ! k" if "k < ?n" for k
    unfolding m8_def m7_def m6_def m5_def m4_def using that b pad by (simp add: addr nth_append del: of_nat_add)
  ultimately have entry: "link_at m8 P (ino, ty, name)" using i n by (simp add: m1_def m2_def del: of_nat_add)
  have "load32 m8 (of_nat Q) = load32 m6 (of_nat Q)"
    by (rule loads_buffer) (use b in \<open>simp add: m8_def m7_def addr del: of_nat_add\<close>)
  then have stop: "load32 m8 (of_nat Q) = 0" by (simp add: m6_def)
  have "load16 m8 (of_nat (Q + 4)) = load16 m7 (of_nat (Q + 4))"
    by (rule loads_buffer) (use b in \<open>simp add: m8_def addr del: of_nat_add\<close>)
  then have rest: "load16 m8 (of_nat (Q + 4)) = of_nat (1024 - Q)" by (simp add: m7_def del: of_nat_add)
  have "m8 (of_nat k) = m (of_nat k)" if "k < 4096" "k < P \<or> Q + 8 \<le> k" for k
    unfolding m8_def m7_def m6_def m5_def m4_def m3_def m2_def m1_def using that b pad by (auto simp: addr simp del: of_nat_add)
  then show ?thesis using run entry stop rest unfolding Q_def by blast
qed

section \<open>Links on a disk that works\<close>

text \<open>The inode on the disk as a memory.\<close>

definition disk_inode :: "('w \<Rightarrow> u32 \<Rightarrow> nat \<Rightarrow> u8) \<Rightarrow> 'w \<Rightarrow> u32 \<Rightarrow> u32 \<Rightarrow> mem" where
  "disk_inode sector w g i a = inode_byte sector w g i (unat a)"

lemma inode_loaded: "k < 128 \<Longrightarrow> place 0 128 (inode_byte sector w g i) m (of_nat k) = disk_inode sector w g i (of_nat k)"
  by (simp add: place_def in_range_def disk_inode_def unat_of_nat_u32)

lemma inode_block_loaded: "load32 (place 0 128 (inode_byte sector w g i) m) i_block = load32 (disk_inode sector w g i) i_block"
  using loads_buffer(1) [of "place 0 128 (inode_byte sector w g i) m" 40 "disk_inode sector w g i"]
  by (simp add: i_block_def inode_loaded del: of_nat_add)

lemma inode_links_loaded:
  "load16 (place 0 128 (inode_byte sector w g i) m) i_links_count = load16 (disk_inode sector w g i) i_links_count"
  using loads_buffer(2) [of "place 0 128 (inode_byte sector w g i) m" 26 "disk_inode sector w g i"]
  by (simp add: i_links_count_def inode_loaded del: of_nat_add)

lemma inode_links_stored:
  assumes "k < 128"
  shows "store16 i_links_count v (place 0 128 (inode_byte sector w g i) m) (of_nat k) = store16 i_links_count v (disk_inode sector w g i) (of_nat k)"
  using inode_loaded [OF assms, of sector w g i m] by (simp add: store16_def)

lemma set_inode_bit_same: "is_inode_allocated b i \<Longrightarrow> set_inode_bit i b = b"
proof -
  assume "is_inode_allocated b i"
  then have "b (i div 8) OR push_bit (unat (i mod 8)) 1 = b (i div 8)"
    by (intro bit_word_eqI) (auto simp: is_inode_allocated_bit bit_or_iff bit_exp_iff)
  then show "set_inode_bit i b = b" by (simp add: set_inode_bit_def)
qed

lemma dir_holds_cong:
  assumes "\<And>k. k < 1024 \<Longrightarrow> m (of_nat k) = m' (of_nat k)" "dir_bytes es + 4 \<le> 1024"
  shows "dir_holds m es = dir_holds m' es"
proof -
  have "links_at m 0 es = links_at m' 0 es" by (rule links_at_cong) (use assms in simp)
  moreover have "load32 m (of_nat (dir_bytes es)) = load32 m' (of_nat (dir_bytes es))" by (rule loads_buffer) (use assms in \<open>simp del: of_nat_add\<close>)
  ultimately show ?thesis by (simp add: dir_holds_def)
qed

text \<open>The part of the operation in memory: from the block that is read to the one that is written.\<close>

lemma append_link:
  assumes "dir_holds rw es" "length name < 256" "ino \<noteq> 0" "dir_bytes es + link_bytes name + 8 \<le> 1024"
  shows "\<exists>element rw'. dir_walk_end rw (snd (ext2_init_dir_walk rw 0)) = Some element \<and>
     put_link (buffer_pos element) name ty (of_nat (length name)) ino rw = Some rw' \<and>
     dir_holds rw' (es @ [(ino, ty, name)]) \<and>
     load16 rw' (of_nat (dir_bytes es + link_bytes name + 4)) = of_nat (1024 - (dir_bytes es + link_bytes name)) \<and>
     (\<forall>k<1024. k < dir_bytes es \<or> dir_bytes es + link_bytes name + 8 \<le> k \<longrightarrow> rw' (of_nat k) = rw (of_nat k))"
proof -
  let ?P = "dir_bytes es"
  have walk: "dir_walk_end rw (snd (ext2_init_dir_walk rw 0)) = Some (directory_element_at rw (of_nat ?P))"
    using walk_entries [of rw 0 es] assms(1,4) by (simp add: dir_holds_def ext2_init_dir_walk_def)
  obtain rw' where rw': "put_link (of_nat ?P) name ty (of_nat (length name)) ino rw = Some rw'" "link_at rw' ?P (ino, ty, name)"
      "load32 rw' (of_nat (?P + link_bytes name)) = 0"
      "load16 rw' (of_nat (?P + link_bytes name + 4)) = of_nat (1024 - (?P + link_bytes name))"
      "\<forall>k<4096. k < ?P \<or> ?P + link_bytes name + 8 \<le> k \<longrightarrow> rw' (of_nat k) = rw (of_nat k)"
    using put_link_spec [OF assms(2,3,4), of ty rw] by blast
  have "links_at rw' 0 es = links_at rw 0 es" by (rule links_at_cong) (use rw'(5) assms(4) in simp)
  then have "dir_holds rw' (es @ [(ino, ty, name)])" using assms(1) rw'(2,3) unfolding dir_holds_def by (simp del: link_at.simps of_nat_add)
  then show ?thesis using walk rw'(1,4,5) by (intro exI conjI) (auto simp: directory_element_at_def)
qed

context block_disk
begin

lemma add_link_spec:
  fixes mnt :: "'w ext2_mount_context"
  defines "w \<equiv> ctx_world mnt"
  assumes r: "ready w" and dev: "ctx_block_device mnt = device"
    and dp: "inode_place (ctx_superblock mnt) dir = Some (gd, d)" and pl: "inode_place (ctx_superblock mnt) ino = Some (g, i)"
    and used: "inode_used sector w gd d" "inode_used sector w g i"
    and db: "inode_bitmap_of sector w gd < block_limit" "inode_block_of sector w gd d < block_limit"
    and B: "B = inode_bitmap_of sector w g" and T: "T = inode_block_of sector w g i" and D: "D = load32 (disk_inode sector w gd d) i_block"
    and b: "B < block_limit" "T < block_limit" "D < block_limit" "distinct [2, B, T, D]"
    and es: "dir_holds (disk_block sector w D) es" and fit: "dir_bytes es + link_bytes name + 8 \<le> 1024"
    and name: "length name < 256" and ino: "ino \<noteq> 0"
  shows "\<exists>mnt'. ext2_add_link io junk dir name ty (of_nat (length name)) ino mnt = Some (SYS_RET_NO_ERROR, mnt') \<and>
     ready (ctx_world mnt') \<and> ctx_superblock mnt' = ctx_superblock mnt \<and> ctx_block_device mnt' = device \<and>
     dir_holds (disk_block sector (ctx_world mnt') D) (es @ [(ino, ty, name)]) \<and>
     (\<forall>k<128. disk_inode sector (ctx_world mnt') g i (of_nat k) =
        store16 i_links_count (load16 (disk_inode sector w g i) i_links_count + 1) (disk_inode sector w g i) (of_nat k)) \<and>
     (\<forall>c k. c < block_limit \<longrightarrow> k < 1024 \<longrightarrow> \<not> (c = T \<and> k div 128 = unat i mod 8) \<longrightarrow>
        \<not> (c = D \<and> dir_bytes es \<le> k \<and> k < dir_bytes es + link_bytes name + 8) \<longrightarrow>
        block_byte sector (ctx_world mnt') c k = block_byte sector w c k)"
proof -
  note g = inode_place_bounds [OF pl]
  have ne: "B \<noteq> T" "T \<noteq> B" "D \<noteq> B" "D \<noteq> T" "B \<noteq> D" "T \<noteq> D" using b(4) by auto
  obtain mnt1 where m1: "ext2_read_inode io junk junk dir mnt = Some (SYS_RET_NO_ERROR, place 0 128 (inode_byte sector w gd d) junk, mnt1)"
      "ready (ctx_world mnt1)" "sector (ctx_world mnt1) = sector w" "ctx_superblock mnt1 = ctx_superblock mnt" "ctx_block_device mnt1 = device"
    using read_inode_spec [OF r [unfolded w_def] dev dp db [unfolded w_def], of junk junk] used(1) unfolding w_def by auto
  have same: "block_byte sector w' = block_byte sector w" "disk_block sector w' = disk_block sector w" "inode_byte sector w' = inode_byte sector w"
    "inode_bitmap_of sector w' = inode_bitmap_of sector w" "inode_block_of sector w' = inode_block_of sector w"
    "inode_used sector w' = inode_used sector w" if "sector w' = sector w" for w'
    using that by (simp_all add: fun_eq_iff inode_byte_def inode_used_def inode_bitmap_of_def inode_block_of_def disk_block_def [abs_def] block_byte_def)
  obtain mnt2 where m2: "ext2_read_inode io junk junk ino mnt1 = Some (SYS_RET_NO_ERROR, place 0 128 (inode_byte sector w g i) junk, mnt2)"
      "ready (ctx_world mnt2)" "sector (ctx_world mnt2) = sector w" "ctx_superblock mnt2 = ctx_superblock mnt" "ctx_block_device mnt2 = device"
    using read_inode_spec [OF m1(2,5) pl [folded m1(4)], of junk junk] used(2) b(1,2) B T m1(3,4) by (auto simp: same [OF m1(3)])
  let ?rw = "place 0 1024 (block_byte sector w D) (rw_buffer mnt2)"
  obtain w3 where w3: "load_block io device D (rw_buffer mnt2) (ctx_world mnt2) = Some (?rw, w3)" "ready w3" "sector w3 = sector w"
    using load_block_spec [OF m2(2) b(3), of "rw_buffer mnt2"] m2(3) by (auto simp: same [OF m2(3)])
  have rw: "?rw (of_nat k) = disk_block sector w D (of_nat k)" if "k < 1024" for k using that by (rule disk_block_loaded)
  have "dir_holds ?rw es" using dir_holds_cong [of ?rw "disk_block sector w D" es] rw es fit by simp
  then obtain element rw' where l: "dir_walk_end ?rw (snd (ext2_init_dir_walk ?rw 0)) = Some element"
      "put_link (buffer_pos element) name ty (of_nat (length name)) ino ?rw = Some rw'" "dir_holds rw' (es @ [(ino, ty, name)])"
      "\<forall>k<1024. k < dir_bytes es \<or> dir_bytes es + link_bytes name + 8 \<le> k \<longrightarrow> rw' (of_nat k) = ?rw (of_nat k)"
    using append_link [OF _ name ino fit, of ?rw ty] by blast
  obtain w4 where w4: "save_block io device D rw' w3 = Some w4" "ready w4"
      "\<forall>c k. c < block_limit \<longrightarrow> k < 1024 \<longrightarrow> block_byte sector w4 c k = (if c = D then rw' (of_nat k) else block_byte sector w c k)"
    using save_block_spec [OF w3(2) b(3), of rw'] by (auto simp: same [OF w3(3)])
  have "\<forall>k<1024. block_byte sector w4 2 k = block_byte sector w 2 k" using w4(3) b(4) by auto
  note d4 = same_desc [OF this g(1)]
  let ?added = "store16 i_links_count (load16 (place 0 128 (inode_byte sector w g i) junk) i_links_count + 1) (place 0 128 (inode_byte sector w g i) junk)"
  let ?mnt3 = "mnt2\<lparr>rw_buffer := rw', ctx_world := w4\<rparr>"
  have "inode_place (ctx_superblock ?mnt3) ino = Some (g, i)" using pl m2(4) by simp
  then obtain mnt' where m': "ext2_write_inode io junk ?added ino ?mnt3 = Some (SYS_RET_NO_ERROR, mnt')" "ready (ctx_world mnt')"
      "ctx_superblock mnt' = ctx_superblock mnt" "ctx_block_device mnt' = device"
    and bytes: "\<And>c k. c < block_limit \<Longrightarrow> k < 1024 \<Longrightarrow> block_byte sector (ctx_world mnt') c k =
       (if c = B then set_inode_bit i (disk_block sector w4 c) (of_nat k)
        else if c = T \<and> k div 128 = unat i mod 8 then ?added (of_nat (k mod 128)) else block_byte sector w4 c k)"
    using write_inode_spec [of ?mnt3 ino g i junk ?added] w4(2) m2(4,5) b d4 B T by fastforce
  have run: "ext2_add_link io junk dir name ty (of_nat (length name)) ino mnt = Some (SYS_RET_NO_ERROR, mnt')"
    using m1(1) m2(1) w3(1) l(1,2) w4(1) m'(1) m2(5) by (simp add: ext2_add_link_def inode_block_loaded D [symmetric])
  have bitmap: "set_inode_bit i (disk_block sector w4 B) (of_nat k) = block_byte sector w B k" if "k < 1024" for k
  proof -
    have e: "disk_block sector w4 B (of_nat j) = disk_block sector w B (of_nat j)" if "j < 1024" for j
      using w4(3) b(1) ne that by (simp add: disk_block_def unat_of_nat_u32)
    have "set_inode_bit i (disk_block sector w4 B) (of_nat k) = set_inode_bit i (disk_block sector w B) (of_nat k)"
      using e [OF \<open>k < 1024\<close>] e [of "unat (i div 8)"] g(3) by (simp add: set_inode_bit_def)
    also have "\<dots> = block_byte sector w B k"
      using used(2) that by (simp add: inode_used_def B set_inode_bit_same disk_block_def unat_of_nat_u32)
    finally show ?thesis .
  qed
  have dir: "disk_block sector (ctx_world mnt') D (of_nat k) = rw' (of_nat k)" if "k < 1024" for k
    using bytes [OF b(3) that] w4(3) b(3) ne that by (simp add: disk_block_def unat_of_nat_u32)
  have "dir_bytes (es @ [(ino, ty, name)]) + 4 \<le> 1024" using fit by simp
  then have holds: "dir_holds (disk_block sector (ctx_world mnt') D) (es @ [(ino, ty, name)])"
    using dir_holds_cong [of "disk_block sector (ctx_world mnt') D" rw' "es @ [(ino, ty, name)]"] dir l(3) by simp
  have "\<forall>k<1024. block_byte sector (ctx_world mnt') 2 k = block_byte sector w4 2 k" using bytes [of 2] b(4) by auto
  note d5 = same_desc [OF this g(1)]
  have "disk_inode sector (ctx_world mnt') g i (of_nat k) = ?added (of_nat k)" if "k < 128" for k
    using bytes [OF b(2), of "unat i mod 8 * 128 + k"] inode_slot(2) [of i] ne that
    by (simp add: disk_inode_def inode_byte_def d5 d4 T [symmetric] unat_of_nat_u32)
  then have links: "\<forall>k<128. disk_inode sector (ctx_world mnt') g i (of_nat k) =
      store16 i_links_count (load16 (disk_inode sector w g i) i_links_count + 1) (disk_inode sector w g i) (of_nat k)"
    by (simp add: inode_links_loaded inode_links_stored)
  have "block_byte sector (ctx_world mnt') c k = block_byte sector w c k"
    if "c < block_limit" "k < 1024" "\<not> (c = T \<and> k div 128 = unat i mod 8)"
      "\<not> (c = D \<and> dir_bytes es \<le> k \<and> k < dir_bytes es + link_bytes name + 8)" for c k
    using bytes [OF that(1,2)] w4(3) l(4) rw [OF that(2)] bitmap [OF that(2)] that b(4)
    by (auto simp: disk_block_def unat_of_nat_u32 not_le not_less)
  then show ?thesis using run m'(2,3,4) holds links by blast
qed

end

section \<open>The directories of a file system\<close>

text \<open>
  Where an inode lies: its group and index, the blocks of the bitmap and of the table that hold it, its bytes, and the block
  of the directory that it describes.
\<close>

definition node_at :: "'w ext2_mount_context \<Rightarrow> u32 \<Rightarrow> u32 \<times> u32" where
  "node_at mnt n = the (inode_place (ctx_superblock mnt) n)"

definition node_bitmap :: "('w \<Rightarrow> u32 \<Rightarrow> nat \<Rightarrow> u8) \<Rightarrow> 'w ext2_mount_context \<Rightarrow> u32 \<Rightarrow> u32" where
  "node_bitmap sector mnt n = inode_bitmap_of sector (ctx_world mnt) (fst (node_at mnt n))"

definition node_table :: "('w \<Rightarrow> u32 \<Rightarrow> nat \<Rightarrow> u8) \<Rightarrow> 'w ext2_mount_context \<Rightarrow> u32 \<Rightarrow> u32" where
  "node_table sector mnt n = inode_block_of sector (ctx_world mnt) (fst (node_at mnt n)) (snd (node_at mnt n))"

definition node_slot :: "('w \<Rightarrow> u32 \<Rightarrow> nat \<Rightarrow> u8) \<Rightarrow> 'w ext2_mount_context \<Rightarrow> u32 \<Rightarrow> u32 \<times> nat" where
  "node_slot sector mnt n = (node_table sector mnt n, unat (snd (node_at mnt n)) mod 8)"

definition node_mem :: "('w \<Rightarrow> u32 \<Rightarrow> nat \<Rightarrow> u8) \<Rightarrow> 'w ext2_mount_context \<Rightarrow> u32 \<Rightarrow> mem" where
  "node_mem sector mnt n = disk_inode sector (ctx_world mnt) (fst (node_at mnt n)) (snd (node_at mnt n))"

definition node_data :: "('w \<Rightarrow> u32 \<Rightarrow> nat \<Rightarrow> u8) \<Rightarrow> 'w ext2_mount_context \<Rightarrow> u32 \<Rightarrow> u32" where
  "node_data sector mnt n = load32 (node_mem sector mnt n) i_block"

text \<open>
  A file system shows \<open>dirs\<close> and \<open>links\<close>: of the inodes \<open>nodes\<close>, which are in use, \<open>dirs\<close> gives the entries of the
  directories and \<open>links\<close> the numbers of links. The blocks of the descriptors, bitmaps, tables and directories are apart.
\<close>

definition nodes_apart :: "('w \<Rightarrow> u32 \<Rightarrow> nat \<Rightarrow> u8) \<Rightarrow> 'w ext2_mount_context \<Rightarrow> u32 set \<Rightarrow> bool" where
  "nodes_apart sector mnt nodes \<longleftrightarrow> inj_on (node_slot sector mnt) nodes \<and>
     (\<forall>n\<in>nodes. n \<noteq> 0 \<and> inode_place (ctx_superblock mnt) n = Some (node_at mnt n) \<and>
        node_bitmap sector mnt n < block_limit \<and> node_table sector mnt n < block_limit \<and>
        node_bitmap sector mnt n \<noteq> 2 \<and> node_table sector mnt n \<noteq> 2 \<and>
        (\<forall>n'\<in>nodes. node_bitmap sector mnt n \<noteq> node_table sector mnt n'))"

definition nodes_ok :: "('w \<Rightarrow> u32 \<Rightarrow> nat \<Rightarrow> u8) \<Rightarrow> 'w ext2_mount_context \<Rightarrow> u32 set \<Rightarrow> bool" where
  "nodes_ok sector mnt nodes \<longleftrightarrow> nodes_apart sector mnt nodes \<and>
     (\<forall>n\<in>nodes. inode_used sector (ctx_world mnt) (fst (node_at mnt n)) (snd (node_at mnt n)))"

definition dirs_ok :: "('w \<Rightarrow> u32 \<Rightarrow> nat \<Rightarrow> u8) \<Rightarrow> 'w ext2_mount_context \<Rightarrow> u32 set \<Rightarrow> u32 set \<Rightarrow> bool" where
  "dirs_ok sector mnt nodes ds \<longleftrightarrow> ds \<subseteq> nodes \<and> inj_on (node_data sector mnt) ds \<and>
     (\<forall>d\<in>ds. node_data sector mnt d < block_limit \<and> node_data sector mnt d \<noteq> 2 \<and>
        (\<forall>n\<in>nodes. node_data sector mnt d \<noteq> node_bitmap sector mnt n \<and> node_data sector mnt d \<noteq> node_table sector mnt n))"

definition shows_dirs ::
  "('w \<Rightarrow> u32 \<Rightarrow> nat \<Rightarrow> u8) \<Rightarrow> 'w ext2_mount_context \<Rightarrow> u32 set \<Rightarrow> (u32 \<rightharpoonup> dir_entry list) \<Rightarrow> (u32 \<Rightarrow> u16) \<Rightarrow> bool" where
  "shows_dirs sector mnt nodes dirs links \<longleftrightarrow> nodes_ok sector mnt nodes \<and> dirs_ok sector mnt nodes (dom dirs) \<and>
     (\<forall>d es. dirs d = Some es \<longrightarrow> dir_bytes es + 8 \<le> 1024 \<and> dir_holds (disk_block sector (ctx_world mnt) (node_data sector mnt d)) es) \<and>
     (\<forall>n\<in>nodes. load16 (node_mem sector mnt n) i_links_count = links n)"

lemma nodes_okD:
  assumes "nodes_ok sector mnt nodes" "n \<in> nodes"
  shows "n \<noteq> 0" "inode_place (ctx_superblock mnt) n = Some (fst (node_at mnt n), snd (node_at mnt n))"
    "inode_used sector (ctx_world mnt) (fst (node_at mnt n)) (snd (node_at mnt n))"
    "node_bitmap sector mnt n < block_limit" "node_table sector mnt n < block_limit" "node_bitmap sector mnt n \<noteq> 2" "node_table sector mnt n \<noteq> 2"
    "n' \<in> nodes \<Longrightarrow> node_bitmap sector mnt n \<noteq> node_table sector mnt n'"
  using assms unfolding nodes_ok_def nodes_apart_def by simp_all

lemma dirs_okD:
  assumes "dirs_ok sector mnt nodes ds" "d \<in> ds"
  shows "d \<in> nodes" "node_data sector mnt d < block_limit" "node_data sector mnt d \<noteq> 2"
    "n \<in> nodes \<Longrightarrow> node_data sector mnt d \<noteq> node_bitmap sector mnt n" "n \<in> nodes \<Longrightarrow> node_data sector mnt d \<noteq> node_table sector mnt n"
    "d' \<in> ds \<Longrightarrow> node_data sector mnt d = node_data sector mnt d' \<Longrightarrow> d = d'"
  using assms unfolding dirs_ok_def inj_on_def by blast+

text \<open>Only the inode \<open>ino\<close> and the directory \<open>d\<close> change.\<close>

lemma nodes_stay:
  assumes ok: "nodes_ok sector mnt nodes" "dirs_ok sector mnt nodes ds" and i: "ino \<in> nodes" and d: "d \<in> ds"
    and sb: "ctx_superblock mnt' = ctx_superblock mnt"
    and bytes: "\<And>c k. c < block_limit \<Longrightarrow> k < 1024 \<Longrightarrow> \<not> (c = node_table sector mnt ino \<and> k div 128 = snd (node_slot sector mnt ino)) \<Longrightarrow>
        c \<noteq> node_data sector mnt d \<Longrightarrow> block_byte sector (ctx_world mnt') c k = block_byte sector (ctx_world mnt) c k"
    and node: "\<And>k. k < 128 \<Longrightarrow> node_mem sector mnt' ino (of_nat k) = store16 i_links_count v (node_mem sector mnt ino) (of_nat k)"
    and n: "n \<in> nodes"
  shows "node_at mnt' n = node_at mnt n" "node_bitmap sector mnt' n = node_bitmap sector mnt n"
    "node_table sector mnt' n = node_table sector mnt n" "node_slot sector mnt' n = node_slot sector mnt n"
    "inode_used sector (ctx_world mnt') (fst (node_at mnt n)) (snd (node_at mnt n)) =
       inode_used sector (ctx_world mnt) (fst (node_at mnt n)) (snd (node_at mnt n))"
    "node_data sector mnt' n = node_data sector mnt n"
    "load16 (node_mem sector mnt' n) i_links_count = (if n = ino then v else load16 (node_mem sector mnt n) i_links_count)"
proof -
  let ?w = "ctx_world mnt" and ?w' = "ctx_world mnt'"
  show a: "node_at mnt' n = node_at mnt n" using sb by (simp add: node_at_def)
  note g = inode_place_bounds [OF nodes_okD(2) [OF ok(1) n]]
  have two: "\<forall>k<1024. block_byte sector ?w' 2 k = block_byte sector ?w 2 k"
    using bytes [of 2] nodes_okD(7) [OF ok(1) i] dirs_okD(3) [OF ok(2) d] by auto
  note sd = same_desc [OF two g(1)]
  show b: "node_bitmap sector mnt' n = node_bitmap sector mnt n" and t: "node_table sector mnt' n = node_table sector mnt n"
    by (simp_all add: node_bitmap_def node_table_def a sd)
  show "node_slot sector mnt' n = node_slot sector mnt n" by (simp add: node_slot_def a t)
  have lim: "node_bitmap sector mnt n < block_limit" "node_table sector mnt n < block_limit"
    "node_bitmap sector mnt n \<noteq> node_table sector mnt ino" "node_bitmap sector mnt n \<noteq> node_data sector mnt d"
    "node_table sector mnt n \<noteq> node_data sector mnt d"
    using nodes_okD(4,5,8) [OF ok(1) n] dirs_okD(4,5) [OF ok(2) d n] i by auto
  have "disk_block sector ?w' (node_bitmap sector mnt n) (of_nat k) = disk_block sector ?w (node_bitmap sector mnt n) (of_nat k)" if "k < 1024" for k
    using bytes [of "node_bitmap sector mnt n" k] lim that by (simp add: disk_block_def unat_of_nat_u32)
  from this [of "unat (snd (node_at mnt n) div 8)"]
  show "inode_used sector ?w' (fst (node_at mnt n)) (snd (node_at mnt n)) = inode_used sector ?w (fst (node_at mnt n)) (snd (node_at mnt n))"
    using g(3) by (simp add: inode_used_def is_inode_allocated_bit sd node_bitmap_def)
  have same: "node_mem sector mnt' n (of_nat k) = node_mem sector mnt n (of_nat k)" if k: "k < 128" and ne: "n \<noteq> ino" for k
  proof -
    have "node_slot sector mnt n \<noteq> node_slot sector mnt ino" using ok(1) n i ne by (auto simp: nodes_ok_def nodes_apart_def dest: inj_onD)
    moreover have "(unat (snd (node_at mnt n)) mod 8 * 128 + k) div 128 = unat (snd (node_at mnt n)) mod 8" using k by simp
    ultimately have "\<not> (node_table sector mnt n = node_table sector mnt ino \<and>
        (unat (snd (node_at mnt n)) mod 8 * 128 + k) div 128 = snd (node_slot sector mnt ino))" by (simp add: node_slot_def)
    then show ?thesis
      using bytes [OF lim(2), of "unat (snd (node_at mnt n)) mod 8 * 128 + k"] lim(5) k inode_slot(2) [of "snd (node_at mnt n)"]
      by (simp add: node_mem_def disk_inode_def inode_byte_def a sd unat_of_nat_u32 node_table_def)
  qed
  have l: "node_mem sector mnt' n (of_nat k) = (if n = ino then store16 i_links_count v (node_mem sector mnt n) else node_mem sector mnt n) (of_nat k)" if "k < 128" for k
    using same node that by auto
  have far: "store16 i_links_count v m (of_nat (40 + j)) = m (of_nat (40 + j))" if "j < 4" for j m
    using store_buffer(2) [of 26 "40 + j" v m] that by (simp add: i_links_count_def)
  show "node_data sector mnt' n = node_data sector mnt n"
    using loads_buffer(1) [of "node_mem sector mnt' n" 40 "node_mem sector mnt n"] l far by (auto simp: node_data_def i_block_def simp del: of_nat_add)
  show "load16 (node_mem sector mnt' n) i_links_count = (if n = ino then v else load16 (node_mem sector mnt n) i_links_count)"
    using loads_buffer(2) [of "node_mem sector mnt' n" 26 "if n = ino then store16 i_links_count v (node_mem sector mnt n) else node_mem sector mnt n"] l
    by (auto simp: i_links_count_def simp del: of_nat_add)
qed

context block_disk
begin

text \<open>Adding a link keeps the picture: one entry more in the directory, one link more to the inode.\<close>

lemma add_link_shows:
  fixes mnt :: "'w ext2_mount_context"
  assumes r: "ready (ctx_world mnt)" and dev: "ctx_block_device mnt = device"
    and sh: "shows_dirs sector mnt nodes dirs links" and d: "dirs d = Some es" and i: "ino \<in> nodes"
    and fit: "dir_bytes es + link_bytes name + 8 \<le> 1024" and name: "length name < 256"
  shows "\<exists>mnt'. ext2_add_link io junk d name ty (of_nat (length name)) ino mnt = Some (SYS_RET_NO_ERROR, mnt') \<and>
     ready (ctx_world mnt') \<and> ctx_block_device mnt' = device \<and>
     shows_dirs sector mnt' nodes (dirs(d \<mapsto> es @ [(ino, ty, name)])) (links(ino := links ino + 1))"
proof -
  let ?w = "ctx_world mnt" and ?D = "node_data sector mnt"
  have ok: "nodes_ok sector mnt nodes" "dirs_ok sector mnt nodes (dom dirs)" using sh by (simp_all add: shows_dirs_def)
  have dd: "d \<in> dom dirs" using d by blast
  note nd = nodes_okD [OF ok(1) dirs_okD(1) [OF ok(2) dd]] and ni = nodes_okD [OF ok(1) i] and da = dirs_okD [OF ok(2) dd]
  have es: "dir_holds (disk_block sector ?w (?D d)) es" using sh d by (simp add: shows_dirs_def)
  have apart: "distinct [2, node_bitmap sector mnt ino, node_table sector mnt ino, ?D d]"
    using ni(6,7) ni(8) [OF i] da(3) da(4,5) [OF i] by auto
  obtain mnt' where m': "ext2_add_link io junk d name ty (of_nat (length name)) ino mnt = Some (SYS_RET_NO_ERROR, mnt')"
      "ready (ctx_world mnt')" "ctx_superblock mnt' = ctx_superblock mnt" "ctx_block_device mnt' = device"
      "dir_holds (disk_block sector (ctx_world mnt') (?D d)) (es @ [(ino, ty, name)])"
    and node: "\<forall>k<128. disk_inode sector (ctx_world mnt') (fst (node_at mnt ino)) (snd (node_at mnt ino)) (of_nat k) =
        store16 i_links_count (load16 (node_mem sector mnt ino) i_links_count + 1) (node_mem sector mnt ino) (of_nat k)"
    and bytes: "\<forall>c k. c < block_limit \<longrightarrow> k < 1024 \<longrightarrow>
        \<not> (c = node_table sector mnt ino \<and> k div 128 = unat (snd (node_at mnt ino)) mod 8) \<longrightarrow>
        \<not> (c = ?D d \<and> dir_bytes es \<le> k \<and> k < dir_bytes es + link_bytes name + 8) \<longrightarrow>
        block_byte sector (ctx_world mnt') c k = block_byte sector ?w c k"
    using add_link_spec [OF r dev nd(2) ni(2) nd(3) ni(3) nd(4,5) [unfolded node_bitmap_def node_table_def]
        node_bitmap_def node_table_def node_data_def [unfolded node_mem_def] ni(4,5) da(2) apart es fit name ni(1), of junk ty]
    unfolding node_mem_def by blast
  let ?v = "links ino + 1"
  have v: "load16 (node_mem sector mnt ino) i_links_count + 1 = ?v" using sh i by (simp add: shows_dirs_def)
  have at: "node_at mnt' n = node_at mnt n" for n using m'(3) by (simp add: node_at_def)
  have node': "node_mem sector mnt' ino (of_nat k) = store16 i_links_count ?v (node_mem sector mnt ino) (of_nat k)" if "k < 128" for k
    using node that unfolding v by (simp add: node_mem_def at)
  have bytes': "block_byte sector (ctx_world mnt') c k = block_byte sector ?w c k"
    if "c < block_limit" "k < 1024" "\<not> (c = node_table sector mnt ino \<and> k div 128 = snd (node_slot sector mnt ino))" "c \<noteq> ?D d" for c k
    using bytes that by (simp add: node_slot_def)
  note stay = nodes_stay [OF ok i dd m'(3) bytes' node']
  have nodes': "nodes_ok sector mnt' nodes"
    using ok(1) inj_on_cong [of nodes "node_slot sector mnt'" "node_slot sector mnt"] unfolding nodes_ok_def nodes_apart_def by (simp add: stay m'(3))
  have sub: "dom dirs \<subseteq> nodes" using ok(2) by (simp add: dirs_ok_def)
  have data: "node_data sector mnt' x = ?D x" if "x \<in> dom dirs" for x using stay(6) [of x] subsetD [OF sub that] by blast
  have dirs': "dirs_ok sector mnt' nodes (dom dirs)"
    using ok(2) inj_on_cong [of "dom dirs" "node_data sector mnt'" ?D] data unfolding dirs_ok_def by (simp add: stay)
  have holds: "dir_bytes fs + 8 \<le> 1024 \<and> dir_holds (disk_block sector (ctx_world mnt') (node_data sector mnt' x)) fs"
    if x: "(dirs(d \<mapsto> es @ [(ino, ty, name)])) x = Some fs" for x fs
  proof (cases "x = d")
    case True
    then show ?thesis using x m'(5) fit data [OF dd] by auto
  next
    case False
    then have f: "dirs x = Some fs" "x \<in> dom dirs" using x by auto
    then have old: "dir_bytes fs + 8 \<le> 1024" "dir_holds (disk_block sector ?w (?D x)) fs" using sh by (simp_all add: shows_dirs_def)
    note dx = dirs_okD [OF ok(2) f(2)]
    have "disk_block sector (ctx_world mnt') (?D x) (of_nat k) = disk_block sector ?w (?D x) (of_nat k)" if "k < 1024" for k
      using bytes' [OF dx(2) that] dx(5) [OF i] dx(6) [OF dd] False that by (auto simp: disk_block_def unat_of_nat_u32)
    then show ?thesis using dir_holds_cong [of "disk_block sector (ctx_world mnt') (?D x)" "disk_block sector ?w (?D x)" fs] old data [OF f(2)] by simp
  qed
  have "load16 (node_mem sector mnt' n) i_links_count = (links(ino := ?v)) n" if "n \<in> nodes" for n
    using stay(7) [of n] sh that by (simp add: shows_dirs_def)
  moreover have "dom (dirs(d \<mapsto> es @ [(ino, ty, name)])) = dom dirs" using dd by auto
  ultimately have "shows_dirs sector mnt' nodes (dirs(d \<mapsto> es @ [(ino, ty, name)])) (links(ino := ?v))"
    unfolding shows_dirs_def using nodes' dirs' holds by metis
  then show ?thesis using m'(1,2,4) by blast
qed

end

section \<open>The links that formatting makes\<close>

context block_disk
begin

lemma format_links_shows:
  fixes mnt :: "'w ext2_mount_context"
  assumes r: "ready (ctx_world mnt)" "ctx_block_device mnt = device"
    and sh: "shows_dirs sector mnt nodes dirs links" and d: "dirs 2 = Some []" "dirs 11 = Some []"
  shows "\<exists>mnt'. format_links io junk mnt = Some mnt' \<and> ready (ctx_world mnt') \<and> ctx_block_device mnt' = device \<and>
     shows_dirs sector mnt' nodes
       (dirs(2 \<mapsto> [(2, 0, map chr ''.''), (2, 0, map chr ''..''), (11, 0, map chr ''lost+found'')],
         11 \<mapsto> [(11, 0, map chr ''.''), (2, 0, map chr ''..'')]))
       (links(2 := links 2 + 3, 11 := links 11 + 2))"
proof -
  have n: "2 \<in> nodes" "11 \<in> nodes" using sh d dirs_okD(1) [of sector mnt nodes "dom dirs"] by (auto simp: shows_dirs_def)
  define dot dots lf where "dot = map chr ''.''" and "dots = map chr ''..''" and "lf = map chr ''lost+found''"
  have len: "link_bytes dot = 12" "link_bytes dots = 12" "link_bytes lf = 20" "length dot = 1" "length dots = 2" "length lf = 10"
    by (simp_all add: link_bytes_def dot_def dots_def lf_def)
  have c: "2 + links 2 = links 2 + 2" "3 + links 2 = links 2 + 3" "2 + links 11 = links 11 + 2" by simp_all
  obtain mnt1 where m1: "ext2_add_link io junk 2 dot 0 1 2 mnt = Some (SYS_RET_NO_ERROR, mnt1)" "ready (ctx_world mnt1)"
      "ctx_block_device mnt1 = device" "shows_dirs sector mnt1 nodes (dirs(2 \<mapsto> [(2, 0, dot)])) (links(2 := links 2 + 1))"
    using add_link_shows [OF r sh d(1) n(1), of dot junk 0] by (auto simp: len)
  obtain mnt2 where m2: "ext2_add_link io junk 2 dots 0 2 2 mnt1 = Some (SYS_RET_NO_ERROR, mnt2)" "ready (ctx_world mnt2)"
      "ctx_block_device mnt2 = device" "shows_dirs sector mnt2 nodes (dirs(2 \<mapsto> [(2, 0, dot), (2, 0, dots)])) (links(2 := links 2 + 2))"
    using add_link_shows [OF m1(2-4), of 2 "[(2, 0, dot)]" 2 dots junk 0] n by (auto simp: len c)
  obtain mnt3 where m3: "ext2_add_link io junk 2 lf 0 10 11 mnt2 = Some (SYS_RET_NO_ERROR, mnt3)" "ready (ctx_world mnt3)"
      "ctx_block_device mnt3 = device"
      "shows_dirs sector mnt3 nodes (dirs(2 \<mapsto> [(2, 0, dot), (2, 0, dots), (11, 0, lf)])) (links(2 := links 2 + 2, 11 := links 11 + 1))"
    using add_link_shows [OF m2(2-4), of 2 "[(2, 0, dot), (2, 0, dots)]" 11 lf junk 0] n by (auto simp: len)
  obtain mnt4 where m4: "ext2_add_link io junk 11 dot 0 1 11 mnt3 = Some (SYS_RET_NO_ERROR, mnt4)" "ready (ctx_world mnt4)"
      "ctx_block_device mnt4 = device"
      "shows_dirs sector mnt4 nodes (dirs(2 \<mapsto> [(2, 0, dot), (2, 0, dots), (11, 0, lf)], 11 \<mapsto> [(11, 0, dot)])) (links(2 := links 2 + 2, 11 := links 11 + 2))"
    using add_link_shows [OF m3(2-4), of 11 "[]" 11 dot junk 0] n d by (auto simp: len c)
  have u: "(links(2 := links 2 + 2, 11 := links 11 + 2))(2 := links 2 + 3) = links(2 := links 2 + 3, 11 := links 11 + 2)"
    by auto
  obtain mnt5 where m5: "ext2_add_link io junk 11 dots 0 2 2 mnt4 = Some (SYS_RET_NO_ERROR, mnt5)" "ready (ctx_world mnt5)"
      "ctx_block_device mnt5 = device"
      "shows_dirs sector mnt5 nodes (dirs(2 \<mapsto> [(2, 0, dot), (2, 0, dots), (11, 0, lf)], 11 \<mapsto> [(11, 0, dot), (2, 0, dots)]))
        (links(2 := links 2 + 3, 11 := links 11 + 2))"
    using add_link_shows [OF m4(2-4), of 11 "[(11, 0, dot)]" 2 dots junk 0] n by (auto simp: len u c)
  have "format_links io junk mnt = Some mnt5"
    unfolding format_links_def dot_def [symmetric] dots_def [symmetric] lf_def [symmetric] by (simp add: m1(1) m2(1) m3(1) m4(1) m5(1))
  then show ?thesis using m5(2-4) unfolding dot_def dots_def lf_def by blast
qed

end

section \<open>Properties\<close>

text \<open>
  C38: adding a link, on any file system that shows \<open>dirs\<close> and \<open>links\<close>: it returns without an error, and the file system
  then shows the directory with the new entry at its end and one more link to the inode, every other directory and every
  other number of links as before. The entry has to fit into the block with the end behind it.
\<close>

theorem ext2_add_link_refines:
  assumes "block_disk io device ready sector" "ready (ctx_world mnt)" "ctx_block_device mnt = device"
    and "shows_dirs sector mnt nodes dirs links" "dirs d = Some es" "ino \<in> nodes"
    and "dir_bytes es + link_bytes name + 8 \<le> 1024" "length name < 256"
  shows "\<exists>mnt'. ext2_add_link io junk d name ty (of_nat (length name)) ino mnt = Some (SYS_RET_NO_ERROR, mnt') \<and>
     ready (ctx_world mnt') \<and> ctx_block_device mnt' = device \<and>
     shows_dirs sector mnt' nodes (dirs(d \<mapsto> es @ [(ino, ty, name)])) (links(ino := links ino + 1))"
  by (rule block_disk.add_link_shows [OF assms])

section \<open>An example\<close>

text \<open>
  A disk with one group whose inodes 2 and 11 are in use: the bitmap is in block 4, the table starts at block 5, and the
  blocks of the directories are 20 and 21.
\<close>

definition dirs_drive :: ata_drive where
  "dirs_drive = blank_drive\<lparr>words := (\<lambda>_ _. 0)(4 := (\<lambda>_. 0)(0 := 3, 2 := 4, 4 := 5), 8 := (\<lambda>_. 0)(0 := 0x402),
     10 := (\<lambda>_. 0)(84 := 20), 12 := (\<lambda>_. 0)(148 := 21))\<rparr>"

definition dirs_mounted :: "ata_drive ext2_mount_context" where
  "dirs_mounted = \<lparr>ctx_block_device = first_disk, ctx_superblock = store32 s_inodes_per_group 1712 (\<lambda>_. 0),
     rw_buffer = (\<lambda>_. 0), ctx_world = dirs_drive\<rparr>"

lemma dirs_mounted_sel: "ctx_block_device dirs_mounted = first_disk" "ctx_world dirs_mounted = dirs_drive" "drive_ready dirs_drive"
  by (simp_all add: dirs_mounted_def dirs_drive_def blank_drive_def drive_ready_def)

lemma dirs_places:
  "inode_place (ctx_superblock dirs_mounted) 2 = Some (0, 1)" "inode_place (ctx_superblock dirs_mounted) 11 = Some (0, 10)"
  "node_at dirs_mounted 2 = (0, 1)" "node_at dirs_mounted 11 = (0, 10)"
  by (simp_all add: node_at_def inode_place_def dirs_mounted_def)

lemmas dirs_read = load32_def load16_def disk_block_def disk_inode_def inode_byte_def block_byte_def sector_byte_def dirs_drive_def

lemma dirs_group:
  "inode_bitmap_of sector_byte dirs_drive 0 = 4" "inode_block_of sector_byte dirs_drive 0 1 = 5" "inode_block_of sector_byte dirs_drive 0 10 = 6"
  by (simp_all add: inode_bitmap_of_def inode_block_of_def desc_def bg_inode_bitmap_def bg_inode_table_def dirs_read)

lemma dirs_used: "inode_used sector_byte dirs_drive 0 1" "inode_used sector_byte dirs_drive 0 10"
  unfolding inode_used_def dirs_group by (simp_all add: is_inode_allocated_def dirs_read)

lemma dirs_nodes:
  "node_bitmap sector_byte dirs_mounted 2 = 4" "node_bitmap sector_byte dirs_mounted 11 = 4"
  "node_table sector_byte dirs_mounted 2 = 5" "node_table sector_byte dirs_mounted 11 = 6"
  by (simp_all add: node_bitmap_def node_table_def dirs_places dirs_mounted_sel dirs_group)

lemma dirs_data:
  "node_data sector_byte dirs_mounted 2 = 20" "node_data sector_byte dirs_mounted 11 = 21"
  "load16 (node_mem sector_byte dirs_mounted 2) i_links_count = 0" "load16 (node_mem sector_byte dirs_mounted 11) i_links_count = 0"
  unfolding node_data_def node_mem_def dirs_places dirs_mounted_sel inode_layout fst_conv snd_conv
  by (simp_all add: load32_def load16_def disk_inode_def inode_byte_def dirs_group)
     (simp_all add: dirs_read)

lemma dirs_shown: "shows_dirs sector_byte dirs_mounted {2, 11} [2 \<mapsto> [], 11 \<mapsto> []] (\<lambda>_. 0)"
proof -
  have "nodes_ok sector_byte dirs_mounted {2, 11}"
    by (simp add: nodes_ok_def nodes_apart_def node_slot_def dirs_nodes dirs_places dirs_used dirs_mounted_sel)
  moreover have "dirs_ok sector_byte dirs_mounted {2, 11} {2, 11}" by (simp add: dirs_ok_def dirs_nodes dirs_data)
  moreover have "dir_holds (disk_block sector_byte dirs_drive 20) []" "dir_holds (disk_block sector_byte dirs_drive 21) []"
    by (simp_all add: dir_holds_def dirs_read)
  ultimately show ?thesis by (simp add: shows_dirs_def dirs_data dirs_mounted_sel insert_commute)
qed

theorem ext2_add_link_refines_witness:
  "\<exists>mnt'. ext2_add_link drive_io (\<lambda>_. 0) 2 [104, 105] 1 2 11 dirs_mounted = Some (SYS_RET_NO_ERROR, mnt') \<and>
     shows_dirs sector_byte mnt' {2, 11} [2 \<mapsto> [(11, 1, [104, 105])], 11 \<mapsto> []] ((\<lambda>_. 0)(11 := 1))"
  using ext2_add_link_refines [OF ata_blocks.block_disk_axioms _ _ dirs_shown, of 2 "[]" 11 "[104, 105]" "\<lambda>_. 0" 1]
  by (auto simp: dirs_mounted_sel link_bytes_def fun_upd_twist)

end
