(* ===== verification/Ext2Format.thy ===== *)
theory Ext2Format
  imports Ext2Dirs
begin

text \<open>
  The directories of a new ext2 file system: \<^verbatim>\<open>ext2_format_device\<close> takes a block for the root directory and one for
  \<^verbatim>\<open>lost+found\<close>, writes their inodes and adds the links. The relation \<open>dir_made\<close> says what one new directory changes
  on the disk, and each is a step from the directories that the disk shows to those and an empty one.
\<close>

section \<open>New directories\<close>

text \<open>Lowering a count of free blocks leaves what the descriptors say of the bitmaps and tables.\<close>

lemma desc_address: "desc f g = of_nat (32 * unat g + unat f)"
  by (simp add: desc_def)

lemma count_stored:
  assumes two: "\<And>k. k < 1024 \<Longrightarrow> block_byte sector w' 2 k = store16 (desc bg_free_blocks_count a) v (disk_block sector w 2) (of_nat k)"
    and b: "a < 32" "g < 32"
  shows "inode_bitmap_of sector w' g = inode_bitmap_of sector w g" "inode_block_of sector w' g i = inode_block_of sector w g i"
    "block_bitmap_of sector w' g = block_bitmap_of sector w g"
    "free_blocks_of sector w' g = (if g = a then v else free_blocks_of sector w g)"
proof -
  have u: "unat a < 32" "unat g < 32" using b by (simp_all add: word_less_nat_alt)
  have d: "desc bg_free_blocks_count h = of_nat (32 * unat h + 12)" "desc bg_inode_bitmap h = of_nat (32 * unat h + 4)"
    "desc bg_inode_table h = of_nat (32 * unat h + 8)" "desc bg_block_bitmap h = of_nat (32 * unat h + 0)" for h
    using desc_address [of _ h] by (simp_all add: bg_free_blocks_count_def bg_inode_bitmap_def bg_inode_table_def bg_block_bitmap_def)
  have t: "disk_block sector w' 2 (of_nat k) = store16 (of_nat (32 * unat a + 12)) v (disk_block sector w 2) (of_nat k)" if "k < 1024" for k
    using two [OF that] d(1) that by (simp add: disk_block_def unat_of_nat_u32)
  have same: "disk_block sector w' 2 (of_nat k) = disk_block sector w 2 (of_nat k)" if "k < 1024" "k \<noteq> 32 * unat a + 12" "k \<noteq> 32 * unat a + 13" for k
    unfolding t [OF that(1)] by (rule store_buffer) (use that u in auto)
  have field: "load32 (disk_block sector w' 2) (of_nat (32 * unat g + f)) = load32 (disk_block sector w 2) (of_nat (32 * unat g + f))"
    if "f = 0 \<or> f = 4 \<or> f = 8" for f
  proof (rule loads_buffer)
    fix j :: nat assume "j < 4"
    have "32 * unat g + f + j \<noteq> 32 * unat a + 12 \<and> 32 * unat g + f + j \<noteq> 32 * unat a + 13" using that \<open>j < 4\<close> by presburger
    then show "disk_block sector w' 2 (of_nat (32 * unat g + f + j)) = disk_block sector w 2 (of_nat (32 * unat g + f + j))"
      using that \<open>j < 4\<close> u by (intro same) auto
  qed
  show "inode_bitmap_of sector w' g = inode_bitmap_of sector w g" "inode_block_of sector w' g i = inode_block_of sector w g i"
    "block_bitmap_of sector w' g = block_bitmap_of sector w g"
    unfolding inode_bitmap_of_def inode_block_of_def block_bitmap_of_def d by (simp_all only: field simp_thms)
  show "free_blocks_of sector w' g = (if g = a then v else free_blocks_of sector w g)"
  proof (cases "g = a")
    case True
    have "load16 (disk_block sector w' 2) (of_nat (32 * unat a + 12)) =
        load16 (store16 (of_nat (32 * unat a + 12)) v (disk_block sector w 2)) (of_nat (32 * unat a + 12))"
      by (rule loads_buffer) (use t u in \<open>simp del: of_nat_add of_nat_mult\<close>)
    then show ?thesis using True by (simp only: free_blocks_of_def d(1) load16_store16 if_True simp_thms)
  next
    case False
    then have ne: "unat g \<noteq> unat a" by (simp add: word_unat_eq_iff)
    have "load16 (disk_block sector w' 2) (of_nat (32 * unat g + 12)) = load16 (disk_block sector w 2) (of_nat (32 * unat g + 12))"
    proof (rule loads_buffer)
      fix j :: nat assume "j < 2"
      have "32 * unat g + 12 + j \<noteq> 32 * unat a + 12 \<and> 32 * unat g + 12 + j \<noteq> 32 * unat a + 13" using ne \<open>j < 2\<close> by presburger
      then show "disk_block sector w' 2 (of_nat (32 * unat g + 12 + j)) = disk_block sector w 2 (of_nat (32 * unat g + 12 + j))"
        using \<open>j < 2\<close> u by (intro same) auto
    qed
    then show ?thesis using False by (simp only: free_blocks_of_def d(1) if_False simp_thms)
  qed
qed

text \<open>The inode of a new directory.\<close>

lemma new_dir_inode:
  "load32 (store32 i_block b (snd (create_dir_inode junk))) i_block = b"
  "load16 (store32 i_block b (snd (create_dir_inode junk))) i_links_count = 0"
  by (simp_all add: create_dir_inode_def Let_def memset_place inode_layout, simp add: load16_def store32_def store16_def place_def in_range_def)

lemma free_count_place:
  "inode_place (store32 s_free_blocks_count v sb) n = inode_place sb n"
  "load32 (store32 s_free_blocks_count v sb) s_blocks_per_group = load32 sb s_blocks_per_group"
proof -
  have "no_overlap 12 4 40 4" "no_overlap 12 4 32 4" by (simp_all add: no_overlap_apart)
  then show "inode_place (store32 s_free_blocks_count v sb) n = inode_place sb n"
    "load32 (store32 s_free_blocks_count v sb) s_blocks_per_group = load32 sb s_blocks_per_group"
    by (simp_all add: inode_place_def superblock_layout load32_store32_other)
qed

lemma nodes_apartD:
  assumes "nodes_apart sector mnt nodes" "n \<in> nodes"
  shows "n \<noteq> 0" "inode_place (ctx_superblock mnt) n = Some (fst (node_at mnt n), snd (node_at mnt n))"
    "node_bitmap sector mnt n < block_limit" "node_table sector mnt n < block_limit" "node_bitmap sector mnt n \<noteq> 2" "node_table sector mnt n \<noteq> 2"
    "n' \<in> nodes \<Longrightarrow> node_bitmap sector mnt n \<noteq> node_table sector mnt n'"
    "n' \<in> nodes \<Longrightarrow> node_slot sector mnt n = node_slot sector mnt n' \<Longrightarrow> n = n'"
  using assms unfolding nodes_apart_def by simp_all (auto dest: inj_onD)

text \<open>Inodes stay where they are when the descriptors keep their bitmaps and tables.\<close>

lemma nodes_apart_same:
  assumes ok: "nodes_apart sector mnt nodes" and sb: "\<And>n. inode_place (ctx_superblock mnt') n = inode_place (ctx_superblock mnt) n"
    and d: "\<And>g i. g < 32 \<Longrightarrow> inode_bitmap_of sector (ctx_world mnt') g = inode_bitmap_of sector (ctx_world mnt) g \<and>
      inode_block_of sector (ctx_world mnt') g i = inode_block_of sector (ctx_world mnt) g i"
  shows "node_at mnt' n = node_at mnt n" "n \<in> nodes \<Longrightarrow> node_bitmap sector mnt' n = node_bitmap sector mnt n"
    "n \<in> nodes \<Longrightarrow> node_table sector mnt' n = node_table sector mnt n" "n \<in> nodes \<Longrightarrow> node_slot sector mnt' n = node_slot sector mnt n"
    "nodes_apart sector mnt' nodes"
proof -
  have a: "node_at mnt' n = node_at mnt n" for n using sb by (simp add: node_at_def)
  have s: "node_bitmap sector mnt' n = node_bitmap sector mnt n" "node_table sector mnt' n = node_table sector mnt n"
    "node_slot sector mnt' n = node_slot sector mnt n" if "n \<in> nodes" for n
    using d [OF inode_place_bounds(1) [OF nodes_apartD(2) [OF ok that]]] by (simp_all add: node_bitmap_def node_table_def node_slot_def a)
  show "node_at mnt' n = node_at mnt n" "n \<in> nodes \<Longrightarrow> node_bitmap sector mnt' n = node_bitmap sector mnt n"
    "n \<in> nodes \<Longrightarrow> node_table sector mnt' n = node_table sector mnt n" "n \<in> nodes \<Longrightarrow> node_slot sector mnt' n = node_slot sector mnt n"
    using a s by simp_all
  show "nodes_apart sector mnt' nodes"
    using ok inj_on_cong [of nodes "node_slot sector mnt'" "node_slot sector mnt"] unfolding nodes_apart_def by (simp add: sb a s)
qed

lemma mem_fields:
  assumes "\<And>k. k < 128 \<Longrightarrow> m (of_nat k) = m' (of_nat k)"
  shows "load32 m i_block = load32 m' i_block" "load16 m i_links_count = load16 m' i_links_count"
  using loads_buffer(1) [of m 40 m'] loads_buffer(2) [of m 26 m'] assms by (simp_all add: i_block_def i_links_count_def del: of_nat_add)

text \<open>A block that holds no descriptors, bitmap or table of these inodes.\<close>

definition block_apart :: "('w \<Rightarrow> u32 \<Rightarrow> nat \<Rightarrow> u8) \<Rightarrow> 'w ext2_mount_context \<Rightarrow> u32 set \<Rightarrow> u32 \<Rightarrow> bool" where
  "block_apart sector mnt nodes c \<longleftrightarrow> c \<noteq> 2 \<and> (\<forall>n\<in>nodes. c \<noteq> node_bitmap sector mnt n \<and> c \<noteq> node_table sector mnt n)"

lemma block_apartD:
  "block_apart sector mnt nodes c \<Longrightarrow> c \<noteq> 2"
  "block_apart sector mnt nodes c \<Longrightarrow> n \<in> nodes \<Longrightarrow> node_bitmap sector mnt n \<noteq> c"
  "block_apart sector mnt nodes c \<Longrightarrow> n \<in> nodes \<Longrightarrow> node_table sector mnt n \<noteq> c"
  by (auto simp: block_apart_def)

text \<open>
  The disk after a new directory: its inode is marked and written, the block \<open>x + 1\<close> is marked in the bitmap \<open>B\<close>, and the
  count of free blocks is lowered.
\<close>

definition dir_made ::
  "('w \<Rightarrow> u32 \<Rightarrow> nat \<Rightarrow> u8) \<Rightarrow> 'w ext2_mount_context \<Rightarrow> u32 \<Rightarrow> u32 \<Rightarrow> u32 \<Rightarrow> mem \<Rightarrow> 'w ext2_mount_context \<Rightarrow> bool" where
  "dir_made sector mnt nr B x new mnt' \<longleftrightarrow> (\<forall>n. inode_place (ctx_superblock mnt') n = inode_place (ctx_superblock mnt) n) \<and>
     load32 (ctx_superblock mnt') s_blocks_per_group = load32 (ctx_superblock mnt) s_blocks_per_group \<and>
     (\<forall>c k. c < block_limit \<longrightarrow> k < 1024 \<longrightarrow> block_byte sector (ctx_world mnt') c k =
       (if c = node_bitmap sector mnt nr then set_inode_bit (snd (node_at mnt nr)) (disk_block sector (ctx_world mnt) c) (of_nat k)
        else if c = node_table sector mnt nr \<and> k div 128 = snd (node_slot sector mnt nr) then new (of_nat (k mod 128))
        else if c = B then set_inode_bit x (disk_block sector (ctx_world mnt) B) (of_nat k)
        else if c = 2 then store16 (desc bg_free_blocks_count 0) (free_blocks_of sector (ctx_world mnt) 0 - 1) (disk_block sector (ctx_world mnt) 2) (of_nat k)
        else block_byte sector (ctx_world mnt) c k))"

context block_disk
begin

text \<open>What the operation does to the blocks of the disk.\<close>

lemma format_directory_bytes:
  fixes mnt :: "'w ext2_mount_context"
  defines "w \<equiv> ctx_world mnt"
  assumes r: "ready w" and dev: "ctx_block_device mnt = device"
    and ap: "nodes_apart sector mnt N" and nr: "nr \<in> N"
    and bpg: "load32 (ctx_superblock mnt) s_blocks_per_group = 8192" and free: "free_blocks_of sector w 0 \<noteq> 0"
    and B: "B = block_bitmap_of sector w 0" "B \<noteq> 0" "B < block_limit" "block_apart sector mnt N B"
    and x: "lowest_clear (disk_block sector w B) x"
  shows "\<exists>mnt'. format_directory io junk uninit nr mnt = Some mnt' \<and> ready (ctx_world mnt') \<and> ctx_block_device mnt' = device \<and>
     dir_made sector mnt nr B x (store32 i_block (x + 1) (snd (create_dir_inode junk))) mnt'"
proof -
  let ?C = "node_bitmap sector mnt nr" and ?T = "node_table sector mnt nr" and ?i = "snd (node_at mnt nr)"
  note na = nodes_apartD [OF ap nr]
  have ne: "?C \<noteq> B" "?T \<noteq> B" "?C \<noteq> ?T" "B \<noteq> 2" using block_apartD [OF B(4)] nr na(7) [OF nr] by auto
  have nofull: "\<And>j :: u32. j < 0 \<Longrightarrow> P j" for P by simp
  obtain mnt1 where m1: "allocate_blocks io junk 1 (\<lambda>_. uninit) mnt = Some (SYS_RET_NO_ERROR, (\<lambda>_. uninit)(0 := 0 * 8192 + x + 1), mnt1)"
      "ready (ctx_world mnt1)" "ctx_block_device mnt1 = device"
      "ctx_superblock mnt1 = store32 s_free_blocks_count (load32 (ctx_superblock mnt) s_free_blocks_count - 1) (ctx_superblock mnt)"
    and bytes1: "\<forall>c k. c < block_limit \<longrightarrow> k < 1024 \<longrightarrow> block_byte sector (ctx_world mnt1) c k =
       (if c = B then set_inode_bit x (disk_block sector w B) (of_nat k)
        else if c = 2 then store16 (desc bg_free_blocks_count 0) (free_blocks_of sector w 0 - 1) (disk_block sector w 2) (of_nat k)
        else block_byte sector w c k)"
    using allocate_block_spec [OF r [unfolded w_def] dev, of 0 B x junk "\<lambda>_. uninit"] bpg free B(1-3) ne(4) x unfolding w_def by auto
  have sb: "inode_place (ctx_superblock mnt1) n = inode_place (ctx_superblock mnt) n" for n by (simp add: m1(4) free_count_place)
  have two: "block_byte sector (ctx_world mnt1) 2 k = store16 (desc bg_free_blocks_count 0) (free_blocks_of sector w 0 - 1) (disk_block sector w 2) (of_nat k)"
    if "k < 1024" for k using bytes1 ne(4) that by auto
  have "(0 :: u32) < 32" by simp
  note cs = count_stored [OF two this inode_place_bounds(1) [OF na(2)]]
  have home: "inode_bitmap_of sector (ctx_world mnt1) (fst (node_at mnt nr)) = ?C" "inode_block_of sector (ctx_world mnt1) (fst (node_at mnt nr)) ?i = ?T"
    by (simp_all add: cs node_bitmap_def node_table_def w_def)
  let ?new = "store32 i_block (x + 1) (snd (create_dir_inode junk))"
  obtain mnt' where m': "ext2_write_inode io junk ?new nr mnt1 = Some (SYS_RET_NO_ERROR, mnt')" "ready (ctx_world mnt')"
      "ctx_superblock mnt' = ctx_superblock mnt1" "ctx_block_device mnt' = device"
    and bytes2: "\<forall>c k. c < block_limit \<longrightarrow> k < 1024 \<longrightarrow> block_byte sector (ctx_world mnt') c k =
       (if c = ?C then set_inode_bit ?i (disk_block sector (ctx_world mnt1) c) (of_nat k)
        else if c = ?T \<and> k div 128 = unat ?i mod 8 then ?new (of_nat (k mod 128)) else block_byte sector (ctx_world mnt1) c k)"
    using write_inode_spec [OF m1(2,3) sb [of nr, unfolded na(2)], of junk ?new] na(3,4) ne(3) unfolding home by blast
  have run: "format_directory io junk uninit nr mnt = Some mnt'"
    using m1(1) m'(1) by (simp add: format_directory_def)
  have bitmap: "set_inode_bit ?i (disk_block sector (ctx_world mnt1) ?C) (of_nat k) = set_inode_bit ?i (disk_block sector w ?C) (of_nat k)" if "k < 1024" for k
  proof -
    have e: "disk_block sector (ctx_world mnt1) ?C (of_nat j) = disk_block sector w ?C (of_nat j)" if "j < 1024" for j
      using bytes1 na(3,5) ne that by (simp add: disk_block_def unat_of_nat_u32)
    show ?thesis using e [OF that] e [of "unat (?i div 8)"] inode_place_bounds(3) [OF na(2)] by (simp add: set_inode_bit_def)
  qed
  have "block_byte sector (ctx_world mnt') c k =
       (if c = ?C then set_inode_bit ?i (disk_block sector w c) (of_nat k)
        else if c = ?T \<and> k div 128 = snd (node_slot sector mnt nr) then ?new (of_nat (k mod 128))
        else if c = B then set_inode_bit x (disk_block sector w B) (of_nat k)
        else if c = 2 then store16 (desc bg_free_blocks_count 0) (free_blocks_of sector w 0 - 1) (disk_block sector w 2) (of_nat k)
        else block_byte sector w c k)" if "c < block_limit" "k < 1024" for c k
    using bytes1 [rule_format, OF that] bytes2 [rule_format, OF that] bitmap [OF that(2)] ne na(6)
    by (simp only: node_slot_def snd_conv split: if_split) blast
  then have "dir_made sector mnt nr B x ?new mnt'" unfolding dir_made_def w_def by (simp add: m'(3) m1(4) free_count_place)
  then show ?thesis using run m'(2,4) by blast
qed

end

lemma dir_made_bytes:
  assumes "dir_made sector mnt nr B x new mnt'" "c < block_limit" "k < 1024"
  shows "block_byte sector (ctx_world mnt') c k =
     (if c = node_bitmap sector mnt nr then set_inode_bit (snd (node_at mnt nr)) (disk_block sector (ctx_world mnt) c) (of_nat k)
      else if c = node_table sector mnt nr \<and> k div 128 = snd (node_slot sector mnt nr) then new (of_nat (k mod 128))
      else if c = B then set_inode_bit x (disk_block sector (ctx_world mnt) B) (of_nat k)
      else if c = 2 then store16 (desc bg_free_blocks_count 0) (free_blocks_of sector (ctx_world mnt) 0 - 1) (disk_block sector (ctx_world mnt) 2) (of_nat k)
      else block_byte sector (ctx_world mnt) c k)"
  using assms unfolding dir_made_def by blast

lemma dir_made_group:
  assumes mk: "dir_made sector mnt nr B x new mnt'" and ap: "nodes_apart sector mnt N" "nr \<in> N" and B: "block_apart sector mnt N B" and g: "g < 32"
  shows "inode_bitmap_of sector (ctx_world mnt') g = inode_bitmap_of sector (ctx_world mnt) g"
    "inode_block_of sector (ctx_world mnt') g i = inode_block_of sector (ctx_world mnt) g i"
    "block_bitmap_of sector (ctx_world mnt') g = block_bitmap_of sector (ctx_world mnt) g"
    "free_blocks_of sector (ctx_world mnt') g = (if g = 0 then free_blocks_of sector (ctx_world mnt) 0 - 1 else free_blocks_of sector (ctx_world mnt) g)"
proof -
  have "block_byte sector (ctx_world mnt') 2 k =
      store16 (desc bg_free_blocks_count 0) (free_blocks_of sector (ctx_world mnt) 0 - 1) (disk_block sector (ctx_world mnt) 2) (of_nat k)"
    if "k < 1024" for k
    using dir_made_bytes [OF mk _ that, of 2] nodes_apartD(5,6) [OF ap] block_apartD(1) [OF B] by auto
  note cs = count_stored [OF this _ g]
  show "inode_bitmap_of sector (ctx_world mnt') g = inode_bitmap_of sector (ctx_world mnt) g"
    "inode_block_of sector (ctx_world mnt') g i = inode_block_of sector (ctx_world mnt) g i"
    "block_bitmap_of sector (ctx_world mnt') g = block_bitmap_of sector (ctx_world mnt) g"
    "free_blocks_of sector (ctx_world mnt') g = (if g = 0 then free_blocks_of sector (ctx_world mnt) 0 - 1 else free_blocks_of sector (ctx_world mnt) g)"
    using cs by simp_all
qed

lemma dir_made_nodes:
  assumes mk: "dir_made sector mnt nr B x new mnt'" and ap: "nodes_apart sector mnt N" "nr \<in> N" and B: "block_apart sector mnt N B"
  shows "node_at mnt' n = node_at mnt n" "n \<in> N \<Longrightarrow> node_bitmap sector mnt' n = node_bitmap sector mnt n"
    "n \<in> N \<Longrightarrow> node_table sector mnt' n = node_table sector mnt n" "nodes_apart sector mnt' N" "block_apart sector mnt' N c = block_apart sector mnt N c"
proof -
  have sb: "inode_place (ctx_superblock mnt') n = inode_place (ctx_superblock mnt) n" for n using mk by (simp add: dir_made_def)
  have "inode_bitmap_of sector (ctx_world mnt') g = inode_bitmap_of sector (ctx_world mnt) g \<and>
      inode_block_of sector (ctx_world mnt') g i = inode_block_of sector (ctx_world mnt) g i" if "g < 32" for g i
    using dir_made_group(1,2) [OF mk ap B that] by simp
  note same = nodes_apart_same [OF ap(1) sb this]
  show "node_at mnt' n = node_at mnt n" "n \<in> N \<Longrightarrow> node_bitmap sector mnt' n = node_bitmap sector mnt n"
    "n \<in> N \<Longrightarrow> node_table sector mnt' n = node_table sector mnt n" "nodes_apart sector mnt' N" "block_apart sector mnt' N c = block_apart sector mnt N c"
    using same by (simp_all add: block_apart_def)
qed

text \<open>Blocks that are apart keep their bytes; the block bitmap gets its bit.\<close>

lemma dir_made_other:
  assumes "dir_made sector mnt nr B x new mnt'" "nr \<in> N" "block_apart sector mnt N c" "c < block_limit" "k < 1024"
  shows "block_byte sector (ctx_world mnt') c k = (if c = B then set_inode_bit x (disk_block sector (ctx_world mnt) B) (of_nat k) else block_byte sector (ctx_world mnt) c k)"
  using dir_made_bytes [OF assms(1,4,5)] block_apartD(1) [OF assms(3)] block_apartD(2,3) [OF assms(3,2)] by auto

lemma dir_made_mem:
  assumes mk: "dir_made sector mnt nr B x new mnt'" and ap: "nodes_apart sector mnt N" "nr \<in> N" and B: "block_apart sector mnt N B"
    and n: "n \<in> N" and k: "k < 128"
  shows "node_mem sector mnt' n (of_nat k) = (if n = nr then new else node_mem sector mnt n) (of_nat k)"
proof -
  let ?k = "unat (snd (node_at mnt n)) mod 8 * 128 + k" and ?T = "node_table sector mnt"
  note na = nodes_apartD [OF ap(1)]
  have k': "?k < 1024" "?k div 128 = snd (node_slot sector mnt n)" "?k mod 128 = k"
    using inode_slot(2) [of "snd (node_at mnt n)"] k by (simp_all add: node_slot_def)
  have t: "?T n \<noteq> node_bitmap sector mnt nr" "?T n \<noteq> B" "?T n \<noteq> 2"
    using na(7) [OF ap(2) n] na(6) [OF n] block_apartD(3) [OF B n] by auto
  have s: "?T n = ?T nr \<and> ?k div 128 = snd (node_slot sector mnt nr) \<longleftrightarrow> n = nr"
    using na(8) [OF n ap(2)] k'(2) by (auto simp: node_slot_def)
  have "block_byte sector (ctx_world mnt') (?T n) ?k = (if n = nr then new (of_nat k) else block_byte sector (ctx_world mnt) (?T n) ?k)"
    using dir_made_bytes [OF mk na(4) [OF n] k'(1)] t s unfolding k'(3) by auto
  then show ?thesis
    using k dir_made_group(2) [OF mk ap B inode_place_bounds(1) [OF na(2) [OF n]], of "snd (node_at mnt n)"]
    by (simp add: node_mem_def disk_inode_def inode_byte_def dir_made_nodes(1) [OF mk ap B] unat_of_nat_u32 node_table_def)
qed

lemma dir_made_used:
  assumes mk: "dir_made sector mnt nr B x new mnt'" and ap: "nodes_apart sector mnt N" "nr \<in> N" and B: "block_apart sector mnt N B"
    and n: "n \<in> N" and old: "n = nr \<or> inode_used sector (ctx_world mnt) (fst (node_at mnt n)) (snd (node_at mnt n))"
  shows "inode_used sector (ctx_world mnt') (fst (node_at mnt n)) (snd (node_at mnt n))"
proof -
  let ?C = "node_bitmap sector mnt n" and ?j = "snd (node_at mnt n)" and ?w = "ctx_world mnt" and ?w' = "ctx_world mnt'"
  let ?m = "if ?C = node_bitmap sector mnt nr then set_inode_bit (snd (node_at mnt nr)) (disk_block sector ?w ?C) else disk_block sector ?w ?C"
  note na = nodes_apartD [OF ap(1) n]
  note g = inode_place_bounds [OF na(2)]
  have "?C \<noteq> node_table sector mnt nr" "?C \<noteq> B" "?C \<noteq> 2" using na(5) na(7) [OF ap(2)] block_apartD(2) [OF B n] by auto
  then have "block_byte sector ?w' ?C (unat (?j div 8)) = ?m (?j div 8)"
    using dir_made_bytes [OF mk na(3) g(3)] by (auto simp: disk_block_def)
  then have "is_inode_allocated (disk_block sector ?w' ?C) ?j = is_inode_allocated ?m ?j"
    by (simp add: is_inode_allocated_bit disk_block_def)
  moreover have "inode_bitmap_of sector ?w' (fst (node_at mnt n)) = ?C" using dir_made_group(1) [OF mk ap B g(1)] by (simp add: node_bitmap_def)
  ultimately show ?thesis
    using old inodes.used_mark [of "snd (node_at mnt nr)" "disk_block sector ?w ?C" ?j] by (auto simp: inode_used_def node_bitmap_def split: if_splits)
qed

lemma dir_made_fields:
  assumes "dir_made sector mnt nr B x new mnt'" "nodes_apart sector mnt N" "nr \<in> N" "block_apart sector mnt N B" "n \<in> N"
  shows "node_data sector mnt' n = (if n = nr then load32 new i_block else node_data sector mnt n)"
    and "load16 (node_mem sector mnt' n) i_links_count = load16 (if n = nr then new else node_mem sector mnt n) i_links_count"
  using mem_fields [of "node_mem sector mnt' n" "if n = nr then new else node_mem sector mnt n", OF dir_made_mem [OF assms]] by (simp_all add: node_data_def)

text \<open>A new directory is one empty directory more.\<close>

lemma dir_made_dirs_ok:
  assumes mk: "dir_made sector mnt nr B x new mnt'" and ap: "nodes_apart sector mnt N" "nr \<in> N" and B: "block_apart sector mnt N B"
    and ok: "dirs_ok sector mnt nodes ds" and N: "nodes \<subseteq> N" "nr \<notin> nodes"
    and b: "load32 new i_block = b" "block_apart sector mnt N b" "b < block_limit"
    and D: "\<And>d. d \<in> ds \<Longrightarrow> block_apart sector mnt N (node_data sector mnt d) \<and> node_data sector mnt d \<noteq> b"
  shows "dirs_ok sector mnt' (insert nr nodes) (insert nr ds)"
proof -
  let ?D = "node_data sector mnt" and ?D' = "node_data sector mnt'"
  have sub: "ds \<subseteq> nodes" "nr \<notin> ds" using ok N(2) by (auto simp: dirs_ok_def)
  have data: "?D' d = (if d = nr then b else ?D d)" if "d \<in> insert nr ds" for d
    using dir_made_fields(1) [OF mk ap B, of d] that sub(1) N(1) ap(2) b(1) by auto
  have away: "block_apart sector mnt N (?D' d)" "?D' d < block_limit" if "d \<in> insert nr ds" for d
    using data [OF that] that b(2,3) D [of d] dirs_okD(2) [OF ok, of d] by auto
  have old: "?D' d = ?D d" if "d \<in> ds" for d using data [of d] that sub(2) by auto
  have "inj_on ?D' ds" using ok inj_on_cong [of ds ?D' ?D, OF old] by (simp add: dirs_ok_def)
  moreover have "?D' nr \<notin> ?D' ` ds" using D data sub(2) by auto
  ultimately have "inj_on ?D' (insert nr ds)" using sub(2) by (simp add: inj_on_insert)
  moreover have "?D' d \<noteq> node_bitmap sector mnt' n \<and> ?D' d \<noteq> node_table sector mnt' n" if "d \<in> insert nr ds" "n \<in> insert nr nodes" for d n
  proof -
    have n: "n \<in> N" using that(2) N(1) ap(2) by blast
    show ?thesis using block_apartD(2,3) [OF away(1) [OF that(1)] n] dir_made_nodes(2,3) [OF mk ap B n] by auto
  qed
  ultimately show ?thesis using away block_apartD(1) [OF away(1)] sub(1) unfolding dirs_ok_def by (simp add: subset_insertI2)
qed

lemma dir_made_shows:
  assumes mk: "dir_made sector mnt nr B x new mnt'" and ap: "nodes_apart sector mnt N" "nr \<in> N" and B: "block_apart sector mnt N B"
    and sh: "shows_dirs sector mnt nodes dirs links" and N: "nodes \<subseteq> N" "nr \<notin> nodes"
    and new: "load32 new i_block = b" "load16 new i_links_count = 0"
    and b: "block_apart sector mnt N b" "b \<noteq> B" "b < block_limit" "load32 (disk_block sector (ctx_world mnt) b) 0 = 0"
    and D: "\<And>d. d \<in> dom dirs \<Longrightarrow> block_apart sector mnt N (node_data sector mnt d) \<and> node_data sector mnt d \<notin> {b, B}"
  shows "shows_dirs sector mnt' (insert nr nodes) (dirs(nr \<mapsto> [])) (links(nr := 0))"
proof -
  let ?D' = "node_data sector mnt'" and ?w = "ctx_world mnt" and ?w' = "ctx_world mnt'"
  have ok: "nodes_ok sector mnt nodes" "dirs_ok sector mnt nodes (dom dirs)" using sh by (simp_all add: shows_dirs_def)
  have sub: "insert nr nodes \<subseteq> N" using N ap(2) by auto
  have at: "node_at mnt' n = node_at mnt n" for n by (rule dir_made_nodes(1) [OF mk ap B])
  have "nodes_apart sector mnt' (insert nr nodes)"
    using dir_made_nodes(4) [OF mk ap B] sub inj_on_subset [of "node_slot sector mnt'" N "insert nr nodes"] unfolding nodes_apart_def by blast
  moreover have "inode_used sector ?w' (fst (node_at mnt n)) (snd (node_at mnt n))" if "n \<in> insert nr nodes" for n
    by (rule dir_made_used [OF mk ap B]) (use that sub nodes_okD(3) [OF ok(1), of n] in auto)
  ultimately have nodes': "nodes_ok sector mnt' (insert nr nodes)" by (simp add: nodes_ok_def at)
  have dirs': "dirs_ok sector mnt' (insert nr nodes) (insert nr (dom dirs))"
    by (rule dir_made_dirs_ok [OF mk ap B ok(2) N new(1) b(1,3)]) (use D in auto)
  have holds: "dir_bytes fs + 8 \<le> 1024 \<and> dir_holds (disk_block sector ?w' (?D' d)) fs" if f: "(dirs(nr \<mapsto> [])) d = Some fs" for d fs
  proof -
    have d: "d \<in> N" "d = nr \<or> d \<in> dom dirs" using f sub dirs_okD(1) [OF ok(2), of d] by (auto split: if_splits)
    have data: "?D' d = (if d = nr then b else node_data sector mnt d)" using dir_made_fields(1) [OF mk ap B d(1)] new(1) by simp
    have away: "block_apart sector mnt N (?D' d)" "?D' d \<noteq> B" "?D' d < block_limit"
      using data d(2) b D [of d] dirs_okD(2) [OF ok(2), of d] by (auto split: if_splits)
    have "disk_block sector ?w' (?D' d) (of_nat k) = disk_block sector ?w (?D' d) (of_nat k)" if "k < 1024" for k
      using dir_made_other [OF mk ap(2) away(1,3) that] away(2) that by (simp add: disk_block_def unat_of_nat_u32)
    moreover have "dir_bytes fs + 8 \<le> 1024 \<and> dir_holds (disk_block sector ?w (?D' d)) fs"
      using f data b(4) sh by (auto simp: shows_dirs_def dir_holds_def split: if_splits)
    ultimately show ?thesis using dir_holds_cong [of "disk_block sector ?w' (?D' d)" "disk_block sector ?w (?D' d)" fs] by simp
  qed
  have "load16 (node_mem sector mnt' n) i_links_count = (links(nr := 0)) n" if "n \<in> insert nr nodes" for n
    using dir_made_fields(2) [OF mk ap B, of n] that sub new(2) sh by (auto simp: shows_dirs_def)
  then show ?thesis unfolding shows_dirs_def using nodes' dirs' holds by simp
qed

lemma lowest_clear_cong:
  assumes "\<And>k. k < 1024 \<Longrightarrow> m (of_nat k) = m' (of_nat k)"
  shows "lowest_clear m x \<longleftrightarrow> lowest_clear m' x"
proof -
  have "is_inode_allocated m y = is_inode_allocated m' y" if "unat y < 8192" for y
  proof -
    have "unat (y div 8) < 1024" using that by (simp add: unat_div)
    from assms [OF this] show ?thesis by (simp add: is_inode_allocated_bit)
  qed
  moreover have "unat y < 8192" if "y < x" "unat x < 8192" for y using that by (simp add: word_less_nat_alt)
  ultimately show ?thesis by (auto simp: lowest_clear_def)
qed

context block_disk
begin

text \<open>Two new directories and their links.\<close>

lemma format_dirs_shows:
  fixes mnt :: "'w ext2_mount_context"
  defines "w \<equiv> ctx_world mnt"
  assumes r: "ready w" and dev: "ctx_block_device mnt = device" and ap: "nodes_apart sector mnt {2, 11}"
    and bpg: "load32 (ctx_superblock mnt) s_blocks_per_group = 8192" and free: "2 \<le> unat (free_blocks_of sector w 0)"
    and B: "B = block_bitmap_of sector w 0" "B \<noteq> 0" "B < block_limit" "block_apart sector mnt {2, 11} B"
    and x: "lowest_clear (disk_block sector w B) x" "block_apart sector mnt {2, 11} (x + 1)" "x + 1 \<noteq> B" "load32 (disk_block sector w (x + 1)) 0 = 0"
    and y: "lowest_clear (set_inode_bit x (disk_block sector w B)) y" "block_apart sector mnt {2, 11} (y + 1)" "y + 1 \<noteq> B"
      "load32 (disk_block sector w (y + 1)) 0 = 0"
  shows "\<exists>mnt1 mnt2 mnt3. format_directory io junk uninit 2 mnt = Some mnt1 \<and> format_directory io junk uninit 11 mnt1 = Some mnt2 \<and>
     format_links io junk mnt2 = Some mnt3 \<and> ready (ctx_world mnt3) \<and> ctx_block_device mnt3 = device \<and>
     node_data sector mnt2 2 = x + 1 \<and> node_data sector mnt2 11 = y + 1 \<and>
     shows_dirs sector mnt3 {2, 11}
       [2 \<mapsto> [(2, 0, map chr ''.''), (2, 0, map chr ''..''), (11, 0, map chr ''lost+found'')], 11 \<mapsto> [(11, 0, map chr ''.''), (2, 0, map chr ''..'')]]
       ((\<lambda>_. 0)(2 := 3, 11 := 2))"
proof -
  let ?N = "{2, 11} :: u32 set" and ?new = "\<lambda>b. store32 i_block b (snd (create_dir_inode junk))"
  have N: "2 \<in> ?N" "11 \<in> ?N" by simp_all
  have f0: "free_blocks_of sector w 0 \<noteq> 0" "free_blocks_of sector w 0 - 1 \<noteq> 0"
    using free by (auto simp: unat_eq_0 [symmetric] unat_sub_if' word_le_nat_alt)
  have xy: "x \<noteq> y" using y(1) inodes.used_mark [of x "disk_block sector w B" y] by (auto simp: lowest_clear_def)
  have lim: "z + 1 < block_limit" if "lowest_clear m z" for m z
  proof -
    have "unat z < 8192" using that by (simp add: lowest_clear_def)
    then show ?thesis by (simp add: word_less_nat_alt unat_word_ariths)
  qed
  obtain mnt1 where m1: "format_directory io junk uninit 2 mnt = Some mnt1" "ready (ctx_world mnt1)" "ctx_block_device mnt1 = device"
      "dir_made sector mnt 2 B x (?new (x + 1)) mnt1"
    using format_directory_bytes [OF r [unfolded w_def] dev ap N(1) bpg f0(1) [unfolded w_def] B(1) [unfolded w_def] B(2-4) x(1) [unfolded w_def]] by blast
  have sh1: "shows_dirs sector mnt1 {2} [2 \<mapsto> []] (\<lambda>_. 0)"
    using dir_made_shows [OF m1(4) ap N(1) B(4), of "{}" Map.empty "\<lambda>_. 0" "x + 1"] new_dir_inode [of "x + 1" junk] x lim [OF x(1)]
    by (simp add: shows_dirs_def [of sector mnt] nodes_ok_def nodes_apart_def dirs_ok_def w_def fun_upd_idem)
  note s1 = dir_made_nodes [OF m1(4) ap N(1) B(4)]
  let ?w1 = "ctx_world mnt1"
  have z: "(0 :: u32) < 32" by simp
  note g1 = dir_made_group(3,4) [OF m1(4) ap N(1) B(4) z]
  have D1: "node_data sector mnt1 2 = x + 1" using dir_made_fields(1) [OF m1(4) ap N(1) B(4) N(1)] new_dir_inode(1) by simp
  have bytes1: "disk_block sector ?w1 c (of_nat k) = (if c = B then set_inode_bit x (disk_block sector w B) else disk_block sector w c) (of_nat k)"
    if "block_apart sector mnt ?N c" "c < block_limit" "k < 1024" for c k
    using dir_made_other [OF m1(4) N(1) that] that(3) by (simp add: disk_block_def unat_of_nat_u32 w_def)
  have y1: "lowest_clear (disk_block sector ?w1 B) y"
    using y(1) lowest_clear_cong [of "disk_block sector ?w1 B" "set_inode_bit x (disk_block sector w B)" y] bytes1 [OF B(4,3)] by simp
  have "load32 (disk_block sector ?w1 (y + 1)) (of_nat 0) = load32 (disk_block sector w (y + 1)) (of_nat 0)"
    by (rule loads_buffer) (use bytes1 [OF y(2) lim [OF y(1)]] y(3) in \<open>simp del: of_nat_add\<close>)
  then have y0: "load32 (disk_block sector ?w1 (y + 1)) 0 = 0" using y(4) by simp
  have bpg1: "load32 (ctx_superblock mnt1) s_blocks_per_group = 8192" using m1(4) bpg by (simp add: dir_made_def)
  have B1: "B = block_bitmap_of sector ?w1 0" "free_blocks_of sector ?w1 0 \<noteq> 0" using g1 B(1) f0(2) by (simp_all add: w_def)
  note B1' = B(4) [folded s1(5)]
  obtain mnt2 where m2: "format_directory io junk uninit 11 mnt1 = Some mnt2" "ready (ctx_world mnt2)" "ctx_block_device mnt2 = device"
      "dir_made sector mnt1 11 B y (?new (y + 1)) mnt2"
    using format_directory_bytes [OF m1(2,3) s1(4) N(2) bpg1 B1(2,1) B(2,3) B1' y1] by blast
  have sh2: "shows_dirs sector mnt2 ?N [2 \<mapsto> [], 11 \<mapsto> []] (\<lambda>_. 0)"
    using dir_made_shows [OF m2(4) s1(4) N(2) B1' sh1, of "y + 1"] new_dir_inode [of "y + 1" junk] x(2,3) y(2,3) y0 lim [OF y(1)] D1 xy
    by (simp add: s1(5) insert_commute fun_upd_idem)
  note F2 = dir_made_fields(1) [OF m2(4) s1(4) N(2) B1']
  have D2: "node_data sector mnt2 2 = x + 1" "node_data sector mnt2 11 = y + 1" using F2 [OF N(1)] F2 [OF N(2)] D1 new_dir_inode(1) by simp_all
  have upd: "[2 :: u32 \<mapsto> [], 11 \<mapsto> []](2 \<mapsto> es, 11 \<mapsto> fs) = [2 \<mapsto> es, 11 \<mapsto> fs]" for es fs :: "dir_entry list" by (simp add: fun_eq_iff)
  have d2: "[2 :: u32 \<mapsto> [], 11 \<mapsto> []] 2 = Some ([] :: dir_entry list)" "[2 :: u32 \<mapsto> [], 11 \<mapsto> []] 11 = Some ([] :: dir_entry list)" by simp_all
  from format_links_shows [OF m2(2,3) sh2 d2, of junk, unfolded upd add_0] m1(1) m2(1) D2 show ?thesis by blast
qed

end

section \<open>Properties\<close>

text \<open>
  C39: the directories that formatting makes: for the root directory and \<^verbatim>\<open>lost+found\<close> it takes the two lowest free blocks
  of the first group, and when these are empty, the root directory then holds itself twice and \<^verbatim>\<open>lost+found\<close>, which
  holds itself and the root directory, and the numbers of links of the two are the numbers of those entries. The block
  bitmap, the inode bitmap, the inode table and the descriptors are apart.
\<close>

theorem ext2_format_directories:
  fixes mnt :: "'w ext2_mount_context"
  defines "w \<equiv> ctx_world mnt"
  assumes "block_disk io device ready sector" "ready w" "ctx_block_device mnt = device" "nodes_apart sector mnt {2, 11}"
    and "load32 (ctx_superblock mnt) s_blocks_per_group = 8192" "2 \<le> unat (free_blocks_of sector w 0)"
    and "B = block_bitmap_of sector w 0" "B \<noteq> 0" "B < block_limit" "block_apart sector mnt {2, 11} B"
    and "lowest_clear (disk_block sector w B) x" "block_apart sector mnt {2, 11} (x + 1)" "x + 1 \<noteq> B" "load32 (disk_block sector w (x + 1)) 0 = 0"
    and "lowest_clear (set_inode_bit x (disk_block sector w B)) y" "block_apart sector mnt {2, 11} (y + 1)" "y + 1 \<noteq> B"
      "load32 (disk_block sector w (y + 1)) 0 = 0"
  shows "\<exists>mnt1 mnt2 mnt3. format_directory io junk uninit 2 mnt = Some mnt1 \<and> format_directory io junk uninit 11 mnt1 = Some mnt2 \<and>
     format_links io junk mnt2 = Some mnt3 \<and> ready (ctx_world mnt3) \<and> ctx_block_device mnt3 = device \<and>
     node_data sector mnt2 2 = x + 1 \<and> node_data sector mnt2 11 = y + 1 \<and>
     shows_dirs sector mnt3 {2, 11}
       [2 \<mapsto> [(2, 0, map chr ''.''), (2, 0, map chr ''..''), (11, 0, map chr ''lost+found'')], 11 \<mapsto> [(11, 0, map chr ''.''), (2, 0, map chr ''..'')]]
       ((\<lambda>_. 0)(2 := 3, 11 := 2))"
  using assms(2-) unfolding w_def by (rule block_disk.format_dirs_shows)

section \<open>A disk with free blocks\<close>

lemma ext2_nodes:
  "node_at ext2_mounted 2 = (0, 1)" "node_at ext2_mounted 11 = (0, 10)" "inode_place (ctx_superblock ext2_mounted) 2 = Some (0, 1)"
  "node_bitmap sector_byte ext2_mounted 2 = 4" "node_bitmap sector_byte ext2_mounted 11 = 4"
  "node_table sector_byte ext2_mounted 2 = 5" "node_table sector_byte ext2_mounted 11 = 6"
proof -
  show p: "inode_place (ctx_superblock ext2_mounted) 2 = Some (0, 1)" by (simp add: inode_place_def ext2_mounted_sel Let_def)
  show n: "node_at ext2_mounted 2 = (0, 1)" "node_at ext2_mounted 11 = (0, 10)" by (simp_all add: node_at_def p ext2_place)
  have "inode_block_of sector_byte ext2_drive 0 1 = 5"
    by (simp add: inode_block_of_def load32_def load16_def desc_def bg_inode_table_def ext2_table)
  then show "node_bitmap sector_byte ext2_mounted 2 = 4" "node_bitmap sector_byte ext2_mounted 11 = 4"
    "node_table sector_byte ext2_mounted 2 = 5" "node_table sector_byte ext2_mounted 11 = 6"
    by (simp_all add: node_bitmap_def node_table_def n ext2_mounted_sel ext2_group0)
qed

lemma ext2_next_clear: "lowest_clear (set_inode_bit 8 (disk_block sector_byte ext2_drive 3)) 9"
proof -
  have "is_inode_allocated (disk_block sector_byte ext2_drive 3) y" if "y < 8" for y using ext2_lowest that by (simp add: lowest_clear_def)
  moreover have "y = 8 \<or> y < 8" if "y < 9" for y :: u32 using that by (auto simp: word_less_nat_alt word_unat_eq_iff)
  moreover have "\<not> is_inode_allocated (disk_block sector_byte ext2_drive 3) 9"
    using ext2_bitmap_byte [of 1] by (simp add: is_inode_allocated_bit)
  ultimately show ?thesis using inodes.used_mark [of 8 "disk_block sector_byte ext2_drive 3"] by (auto simp: lowest_clear_def)
qed

theorem ext2_format_directories_witness:
  "\<exists>mnt1 mnt2 mnt3. format_directory drive_io (\<lambda>_. 7) 0 2 ext2_mounted = Some mnt1 \<and> format_directory drive_io (\<lambda>_. 7) 0 11 mnt1 = Some mnt2 \<and>
     format_links drive_io (\<lambda>_. 7) mnt2 = Some mnt3 \<and> node_data sector_byte mnt2 2 = 9 \<and> node_data sector_byte mnt2 11 = 10"
proof -
  have ap: "nodes_apart sector_byte ext2_mounted {2, 11}"
    by (simp add: nodes_apart_def node_slot_def ext2_nodes ext2_place)
  have empty: "load32 (disk_block sector_byte ext2_drive 9) 0 = 0" "load32 (disk_block sector_byte ext2_drive 10) 0 = 0"
    by (simp_all add: load32_def load16_def disk_block_def block_byte_def sector_byte_def ext2_drive_def)
  show ?thesis
    using ext2_format_directories [OF ata_blocks.block_disk_axioms _ _ ap, of 3 8 9 "\<lambda>_. 7" 0] ext2_lowest ext2_next_clear empty
    by (simp add: ext2_mounted_sel ext2_group0 ext2_nodes block_apart_def) blast
qed

end
