(* ===== verification/Sprintf.thy ===== *)
theory Sprintf
  imports CString
begin

text \<open>
  Formatted output into a buffer, \<^verbatim>\<open>src/kernel/libc/stdio/sprintf.c\<close>, which
  \<^verbatim>\<open>src/libc/stdio/vsprintf.c\<close> repeats: the conversion of integers and the interpreter of format
  strings. Format, arguments and buffer live in one memory. The variable arguments are the words of the
  caller's stack frame; taking more of them than were passed is undefined. A \<^verbatim>\<open>long long\<close> is an
  \<open>int\<close> in the range of 64 bits.
\<close>

section \<open>Constants\<close>

datatype format_state =
    FORMAT_STATE_FLAGS
  | FORMAT_STATE_FIELD_WIDTH
  | FORMAT_STATE_PRECISION
  | FORMAT_STATE_LENGTH
  | FORMAT_STATE_SPECIFIER

definition FORMAT_FLAG_LEFT_JUSTIFY :: u32 where "FORMAT_FLAG_LEFT_JUSTIFY = 0x1"
definition FORMAT_FLAG_BEGIN_WITH_SIGN :: u32 where "FORMAT_FLAG_BEGIN_WITH_SIGN = 0x2"
definition FORMAT_FLAG_PAD_NO_SIGN :: u32 where "FORMAT_FLAG_PAD_NO_SIGN = 0x4"
definition FORMAT_FLAG_ALT_FORM :: u32 where "FORMAT_FLAG_ALT_FORM = 0x8"
definition FORMAT_FLAG_PAD_WITH_ZEROES :: u32 where "FORMAT_FLAG_PAD_WITH_ZEROES = 0x10"
definition FORMAT_FLAG_UNSIGNED :: u32 where "FORMAT_FLAG_UNSIGNED = 0x20"
definition FORMAT_FLAG_UPPERCASE_HEX :: u32 where "FORMAT_FLAG_UPPERCASE_HEX = 0x40"
definition FORMAT_FLAG_PRECISION_DEFINED :: u32 where "FORMAT_FLAG_PRECISION_DEFINED = 0x80"

lemmas format_flags = FORMAT_FLAG_LEFT_JUSTIFY_def FORMAT_FLAG_BEGIN_WITH_SIGN_def FORMAT_FLAG_PAD_NO_SIGN_def
  FORMAT_FLAG_ALT_FORM_def FORMAT_FLAG_PAD_WITH_ZEROES_def FORMAT_FLAG_UNSIGNED_def
  FORMAT_FLAG_UPPERCASE_HEX_def FORMAT_FLAG_PRECISION_DEFINED_def

definition has_flag :: "u32 \<Rightarrow> u32 \<Rightarrow> bool" where
  "has_flag fl f \<longleftrightarrow> fl AND f \<noteq> 0"

section \<open>Integers\<close>

text \<open>Division of C truncates towards zero; \<^verbatim>\<open>(~a) + 1\<close> wraps for the smallest number.\<close>

definition c_div :: "int \<Rightarrow> int \<Rightarrow> int" where
  "c_div a b = sgn a * (\<bar>a\<bar> div b)"

definition c_mod :: "int \<Rightarrow> int \<Rightarrow> int" where
  "c_mod a b = sgn a * (\<bar>a\<bar> mod b)"

definition negate64 :: "int \<Rightarrow> int" where
  "negate64 a = (if a = - (2 ^ 63) then a else - a)"

text \<open>\<^verbatim>\<open>while (arg_temp != 0) { arg_temp /= radix; char_count++; }\<close>; the radix is 8, 10 or 16.\<close>

function count_digits :: "int \<Rightarrow> int \<Rightarrow> u32 \<Rightarrow> u32" where
  "count_digits radix a n = (if a = 0 \<or> radix < 2 then n else count_digits radix (c_div a radix) (n + 1))"
  by pat_completeness auto
termination
proof (relation "measure (\<lambda>(radix, a, n). nat \<bar>a\<bar>)", simp)
  fix radix a :: int and n :: u32
  assume "\<not> (a = 0 \<or> radix < 2)"
  then have "\<bar>a\<bar> div radix < \<bar>a\<bar>" "0 \<le> \<bar>a\<bar> div radix"
    by (auto simp: pos_imp_zdiv_nonneg_iff int_div_less_self)
  then show "((radix, c_div a radix, n + 1), radix, a, n) \<in> measure (\<lambda>(radix, a, n). nat \<bar>a\<bar>)"
    by (auto simp: c_div_def abs_mult abs_sgn_eq)
qed

declare count_digits.simps [simp del]

definition digit_char :: "u8 \<Rightarrow> int \<Rightarrow> u8" where
  "digit_char hex_base_char digit =
     (if 0 \<le> digit \<and> digit \<le> 9 then word_of_int (digit + 48)
      else hex_base_char + word_of_int digit - 10)"

text \<open>The digits, from the last one backwards.\<close>

primrec emit_digits :: "nat \<Rightarrow> u8 \<Rightarrow> int \<Rightarrow> u32 \<Rightarrow> u32 \<Rightarrow> int \<Rightarrow> mem \<Rightarrow> u32 \<times> mem" where
  "emit_digits 0 hex radix out i a m = (i, m)"
| "emit_digits (Suc n) hex radix out i a m =
     emit_digits n hex radix out (i - 1) (c_div a radix)
       (m(out + (i - 1) := digit_char hex (c_mod a radix)))"

text \<open>
  \<^verbatim>\<open>fieldWidth\<close> and \<^verbatim>\<open>precision\<close> are compared with unsigned counters, so they count as unsigned words.
\<close>

definition convert_any_int_to_str ::
  "int \<Rightarrow> u32 \<Rightarrow> u32 \<Rightarrow> u32 \<Rightarrow> int \<Rightarrow> u32 \<Rightarrow> mem \<Rightarrow> u32 \<times> mem" where
  "convert_any_int_to_str arg fl fieldWidth precision0 radix out m =
     (let signed = (\<not> has_flag fl FORMAT_FLAG_UNSIGNED \<and> has_flag fl FORMAT_FLAG_BEGIN_WITH_SIGN);
          minus = (\<not> has_flag fl FORMAT_FLAG_UNSIGNED \<and> arg < 0);
          alt_hex = (has_flag fl FORMAT_FLAG_ALT_FORM \<and> radix = 16);
          (count0, extra0, arg0) =
            (if signed then (1, 1, arg) else if minus then (1, 1, negate64 arg) else (0, 0, arg));
          (count1, extra_chars) = (if alt_hex then (count0 + 2, extra0 + 2) else (count0, extra0));
          count2 = count_digits radix arg0 count1;
          precision = (if precision0 = 0 then 1 else precision0);
          count3 = (if radix = 8 \<and> count2 > precision then count2 + 1 else count2);
          char_count = (if count3 < precision then precision + extra_chars else count3);
          m1 = (if fieldWidth \<noteq> 0 \<and> char_count < fieldWidth
                then memset_loop (unat fieldWidth) out
                       (if has_flag fl FORMAT_FLAG_PAD_WITH_ZEROES then chr CHR ''0'' else chr CHR '' '') m
                else m);
          arg1 = (if arg < 0 then negate64 arg else arg);
          i0 = (if has_flag fl FORMAT_FLAG_LEFT_JUSTIFY then char_count
                else if fieldWidth > char_count then fieldWidth else char_count);
          hex_base_char = (if has_flag fl FORMAT_FLAG_UPPERCASE_HEX then chr CHR ''A'' else chr CHR ''a'');
          (i1, m2) = emit_digits (unat (char_count - extra_chars)) hex_base_char radix out i0 arg1 m1;
          (i2, m3) = (if alt_hex then (i1 - 1, m2(out + (i1 - 1) := hex_base_char + 23)) else (i1, m2));
          m4 = (if signed then m3(out + (i2 - 1) := if arg < 0 then chr CHR ''-'' else chr CHR ''+'')
                else if minus then m3(out + (i2 - 1) := chr CHR ''-'')
                else m3)
      in (if fieldWidth > char_count then fieldWidth else char_count, m4))"

section \<open>The interpreter of format strings\<close>

record conversion =
  conv_state :: format_state
  conv_flags :: u32
  conv_width :: u32
  conv_precision :: u32
  conv_length :: u32
  conv_ptr :: u32
  conv_args :: "u32 list"

text \<open>\<^verbatim>\<open>va_arg\<close> for a word, and for two of them as a signed 64-bit number.\<close>

definition va_arg :: "conversion \<Rightarrow> (u32 \<times> conversion) option" where
  "va_arg c = (case conv_args c of [] \<Rightarrow> None | a # as \<Rightarrow> Some (a, c\<lparr>conv_args := as\<rparr>))"

definition va_arg64 :: "conversion \<Rightarrow> (int \<times> conversion) option" where
  "va_arg64 c = (case conv_args c of
     lo # hi # as \<Rightarrow> Some (sint (push_bit 32 (ucast hi) OR ucast lo :: u64), c\<lparr>conv_args := as\<rparr>)
   | _ \<Rightarrow> None)"

definition is_digit :: "u8 \<Rightarrow> bool" where
  "is_digit ch \<longleftrightarrow> chr CHR ''0'' \<le> ch \<and> ch \<le> chr CHR ''9''"

definition format_flags_step :: "mem \<Rightarrow> conversion \<Rightarrow> conversion" where
  "format_flags_step m c =
     (if conv_state c = FORMAT_STATE_FLAGS then
        (let ch = m (conv_ptr c); add = (\<lambda>f. c\<lparr>conv_flags := conv_flags c OR f\<rparr>)
         in if ch = chr CHR ''-'' then add FORMAT_FLAG_LEFT_JUSTIFY
            else if ch = chr CHR ''+'' then add FORMAT_FLAG_BEGIN_WITH_SIGN
            else if ch = chr CHR '' '' then add FORMAT_FLAG_PAD_NO_SIGN
            else if ch = chr CHR ''#'' then add FORMAT_FLAG_ALT_FORM
            else if ch = chr CHR ''0'' then add FORMAT_FLAG_PAD_WITH_ZEROES
            else c\<lparr>conv_state := FORMAT_STATE_FIELD_WIDTH\<rparr>)
      else c)"

definition format_width_step :: "mem \<Rightarrow> conversion \<Rightarrow> conversion option" where
  "format_width_step m c =
     (if conv_state c = FORMAT_STATE_FIELD_WIDTH then
        (let ch = m (conv_ptr c)
         in if is_digit ch then Some (c\<lparr>conv_width := conv_width c * 10 + ucast (ch - chr CHR ''0'')\<rparr>)
            else if ch = chr CHR ''*'' then do { (a, c1) \<leftarrow> va_arg c; Some (c1\<lparr>conv_width := a\<rparr>) }
            else if ch = chr CHR ''.'' then
              Some (c\<lparr>conv_state := FORMAT_STATE_PRECISION, conv_ptr := conv_ptr c + 1\<rparr>)
            else Some (c\<lparr>conv_state := FORMAT_STATE_LENGTH\<rparr>))
      else Some c)"

definition format_precision_step :: "mem \<Rightarrow> conversion \<Rightarrow> conversion option" where
  "format_precision_step m c =
     (if conv_state c = FORMAT_STATE_PRECISION then
        (let ch = m (conv_ptr c); fl = conv_flags c OR FORMAT_FLAG_PRECISION_DEFINED
         in if is_digit ch then
              Some (c\<lparr>conv_precision := conv_precision c * 10 + ucast (ch - chr CHR ''0''), conv_flags := fl\<rparr>)
            else if ch = chr CHR ''*'' then
              do { (a, c1) \<leftarrow> va_arg c; Some (c1\<lparr>conv_precision := a, conv_flags := fl\<rparr>) }
            else Some (c\<lparr>conv_state := FORMAT_STATE_LENGTH\<rparr>))
      else Some c)"

text \<open>
  The branch for \<^verbatim>\<open>ll\<close> comes after that for \<^verbatim>\<open>l\<close> and is never taken; a character that is no length
  is left in place for the specifier.
\<close>

definition format_length_step :: "mem \<Rightarrow> conversion \<Rightarrow> conversion" where
  "format_length_step m c =
     (if conv_state c = FORMAT_STATE_LENGTH then
        (let ch = m (conv_ptr c);
             add = (\<lambda>len k. c\<lparr>conv_length := conv_length c OR len, conv_ptr := conv_ptr c + k,
                              conv_state := FORMAT_STATE_SPECIFIER\<rparr>)
         in if ch = chr CHR ''h'' \<and> m (conv_ptr c + 1) = chr CHR ''h'' then add 0x1 2
            else if ch = chr CHR ''h'' then add 0x2 1
            else if ch = chr CHR ''l'' then add 0x4 1
            else if ch = chr CHR ''l'' \<and> m (conv_ptr c + 1) = chr CHR ''l'' then add 0x8 2
            else if ch = chr CHR ''j'' then add 0x10 1
            else if ch = chr CHR ''z'' then add 0x20 1
            else if ch = chr CHR ''t'' then add 0x40 1
            else if ch = chr CHR ''L'' then add 0x80 1
            else add 0 0)
      else c)"

text \<open>The integer argument of the size that the length asks for; \<^verbatim>\<open>size_t\<close> is unsigned.\<close>

definition integer_arg :: "conversion \<Rightarrow> (int \<times> conversion) option" where
  "integer_arg c =
     (if conv_length c = 0x80 \<or> conv_length c = 0x10 \<or> conv_length c = 0x8 then va_arg64 c
      else if conv_length c = 0x20 then do { (a, c1) \<leftarrow> va_arg c; Some (uint a, c1) }
      else do { (a, c1) \<leftarrow> va_arg c; Some (sint a, c1) })"

partial_function (option) copy_string_arg ::
  "u32 \<Rightarrow> u32 \<Rightarrow> u32 \<Rightarrow> u32 \<Rightarrow> u32 \<Rightarrow> mem \<Rightarrow> (u32 \<times> mem) option" where
  "copy_string_arg fl precision printed arg buf m =
     (if m arg = 0 then Some (buf, m)
      else if has_flag fl FORMAT_FLAG_PRECISION_DEFINED \<and> precision \<le> printed then Some (buf, m)
      else copy_string_arg fl precision (printed + 1) (arg + 1) (buf + 1) (m(buf := m arg)))"

text \<open>
  The conversion itself: whether it is finished, the buffer pointer and the memory. A character that is no
  specifier finishes nothing; the next one is tried. After \<^verbatim>\<open>%%\<close> the format pointer is not advanced.
\<close>

definition format_specifier_step ::
  "u32 \<Rightarrow> u32 \<Rightarrow> mem \<Rightarrow> conversion \<Rightarrow> (bool \<times> u32 \<times> mem \<times> conversion) option" where
  "format_specifier_step str buf m c =
     (if conv_state c = FORMAT_STATE_SPECIFIER then
        (let ch = m (conv_ptr c); adv = (\<lambda>c. c\<lparr>conv_ptr := conv_ptr c + 1\<rparr>);
             number = (\<lambda>fl radix. do {
               (arg, c1) \<leftarrow> integer_arg c;
               let (n, m1) = convert_any_int_to_str arg (conv_flags c OR fl) (conv_width c)
                               (conv_precision c) radix buf m;
               Some (True, buf + n, m1, adv c1)
             })
         in if ch = chr CHR ''d'' \<or> ch = chr CHR ''i'' then number 0 10
            else if ch = chr CHR ''o'' then number FORMAT_FLAG_UNSIGNED 8
            else if ch = chr CHR ''u'' then number FORMAT_FLAG_UNSIGNED 8
            else if ch = chr CHR ''x'' \<or> ch = chr CHR ''p'' then number FORMAT_FLAG_UNSIGNED 16
            else if ch = chr CHR ''X'' then
              number (FORMAT_FLAG_UNSIGNED OR FORMAT_FLAG_UPPERCASE_HEX) 16
            else if ch = chr CHR ''c'' then do {
              (a, c1) \<leftarrow> va_arg c;
              Some (True, buf + 1, m(buf := ucast a), adv c1)
            }
            else if ch = chr CHR ''s'' then do {
              (a, c1) \<leftarrow> va_arg c;
              (buf1, m1) \<leftarrow> copy_string_arg (conv_flags c) (conv_precision c) 0 a buf m;
              Some (True, buf1, m1, adv c1)
            }
            else if ch = chr CHR ''%'' then Some (True, buf + 1, m(buf := chr CHR ''%''), c)
            else if ch = chr CHR ''n'' then do {
              (a, c1) \<leftarrow> va_arg c;
              Some (True, buf, store32 a (buf - str) m, adv c1)
            }
            else Some (False, buf, m, c))
      else Some (False, buf, m, c))"

definition format_step ::
  "u32 \<Rightarrow> u32 \<Rightarrow> mem \<Rightarrow> conversion \<Rightarrow> (bool \<times> u32 \<times> mem \<times> conversion) option" where
  "format_step str buf m c0 = do {
     let c1 = format_flags_step m (c0\<lparr>conv_ptr := conv_ptr c0 + 1\<rparr>);
     c2 \<leftarrow> format_width_step m c1;
     c3 \<leftarrow> format_precision_step m c2;
     format_specifier_step str buf m (format_length_step m c3)
   }"

partial_function (option) format_conversion ::
  "u32 \<Rightarrow> u32 \<Rightarrow> mem \<Rightarrow> conversion \<Rightarrow> (u32 \<times> mem \<times> conversion) option" where
  "format_conversion str buf m c = do {
     (fin, buf1, m1, c1) \<leftarrow> format_step str buf m c;
     if fin then Some (buf1, m1, c1) else format_conversion str buf1 m1 c1
   }"

definition new_conversion :: "u32 \<Rightarrow> u32 list \<Rightarrow> conversion" where
  "new_conversion p args = \<lparr>conv_state = FORMAT_STATE_FLAGS, conv_flags = 0, conv_width = 0,
     conv_precision = 0, conv_length = 0, conv_ptr = p, conv_args = args\<rparr>"

partial_function (option) vsprintf_loop ::
  "u32 \<Rightarrow> u32 \<Rightarrow> u32 \<Rightarrow> u32 list \<Rightarrow> mem \<Rightarrow> (u32 \<times> mem) option" where
  "vsprintf_loop str buf p args m =
     (if m p = 0 then Some (buf, m)
      else if m p = chr CHR ''%'' then do {
        (buf1, m1, c) \<leftarrow> format_conversion str buf m (new_conversion p args);
        vsprintf_loop str buf1 (conv_ptr c) (conv_args c) m1
      }
      else vsprintf_loop str (buf + 1) (p + 1) args (m(buf := m p)))"

definition kaos_vsprintf :: "u32 \<Rightarrow> u32 \<Rightarrow> u32 list \<Rightarrow> mem \<Rightarrow> (u32 \<times> mem) option" where
  "kaos_vsprintf str format args m = do {
     (buf, m1) \<leftarrow> vsprintf_loop str str format args m;
     Some (buf - str, m1(buf := 0))
   }"

text \<open>\<^verbatim>\<open>kaos_sprintf\<close> collects its variable arguments and calls it.\<close>

definition kaos_sprintf :: "u32 \<Rightarrow> u32 \<Rightarrow> u32 list \<Rightarrow> mem \<Rightarrow> (u32 \<times> mem) option" where
  "kaos_sprintf str format args m = kaos_vsprintf str format args m"

section \<open>Digits\<close>

text \<open>
  Memory holds the bytes of a list; the sixteen digits, the characters 0 to 9 and a to f; the numeral of \<open>n\<close> digits;
  reading a numeral.
\<close>

definition holds :: "mem \<Rightarrow> u32 \<Rightarrow> u8 list \<Rightarrow> bool" where
  "holds m b xs \<longleftrightarrow> (\<forall>p<length xs. m (b + of_nat p) = xs ! p)"

definition digit_glyph :: "int \<Rightarrow> u8" where
  "digit_glyph d = [0x30, 0x31, 0x32, 0x33, 0x34, 0x35, 0x36, 0x37, 0x38, 0x39, 0x61, 0x62, 0x63, 0x64, 0x65, 0x66] ! nat d"

definition numeral_chars :: "int \<Rightarrow> nat \<Rightarrow> int \<Rightarrow> u8 list" where
  "numeral_chars radix n a = map (\<lambda>p. digit_glyph (a div radix ^ (n - 1 - p) mod radix)) [0..<n]"

definition char_value :: "u8 \<Rightarrow> int" where
  "char_value c = (if is_digit c then uint c - 48 else uint c - 87)"

definition parse_number :: "int \<Rightarrow> u8 list \<Rightarrow> int" where
  "parse_number radix cs = foldl (\<lambda>v c. v * radix + char_value c) 0 cs"

lemma length_numeral [simp]: "length (numeral_chars radix n a) = n"
  by (simp add: numeral_chars_def)

lemma numeral_Suc:
  assumes "0 \<le> a" "2 \<le> radix"
  shows "numeral_chars radix (Suc n) a = numeral_chars radix n (a div radix) @ [digit_glyph (a mod radix)]"
proof -
  have "a div radix ^ (n - p) = a div radix div radix ^ (n - 1 - p)" if "p < n" for p
  proof -
    have "radix ^ (n - p) = radix * radix ^ (n - 1 - p)" using that by (simp flip: power_Suc add: Suc_diff_Suc)
    then show ?thesis using assms by (simp add: zdiv_zmult2_eq)
  qed
  then show ?thesis by (simp add: numeral_chars_def)
qed

lemma digit_cases:
  assumes "0 \<le> d" "d < 16"
  shows "d \<in> {0, 1, 2, 3, 4, 5, 6, 7, 8, 9, 10, 11, 12, 13, 14, 15 :: int}"
  using assms by (simp, presburger)

text \<open>The characters that the conversion computes are these digits.\<close>

lemma digit_char_glyph:
  assumes "0 \<le> d" "d < 16"
  shows "digit_char 0x61 d = digit_glyph d"
  using digit_cases [OF assms] by (auto simp: digit_char_def digit_glyph_def)

lemma glyph_range:
  assumes "0 \<le> d" "d < 16"
  shows "0x30 \<le> digit_glyph d" "digit_glyph d \<noteq> 0" "digit_glyph d \<noteq> 0x08" "d < 10 \<Longrightarrow> digit_glyph d \<le> 0x39"
  using digit_cases [OF assms] by (auto simp: digit_glyph_def)

lemma char_value_digit:
  assumes "0 \<le> d" "d < 16"
  shows "char_value (digit_glyph d) = d"
  using digit_cases [OF assms] by (auto simp: char_value_def digit_glyph_def is_digit_def chr_def)

lemma parse_numeral:
  assumes "0 \<le> a" "2 \<le> radix" "radix \<le> 16"
  shows "parse_number radix (numeral_chars radix n a) = a mod radix ^ n"
  using assms(1)
proof (induction n arbitrary: a)
  case (Suc n)
  have "0 \<le> a div radix" "0 \<le> a mod radix" "a mod radix < 16"
    using Suc.prems assms by (auto simp: pos_imp_zdiv_nonneg_iff order.strict_trans2 [OF pos_mod_bound])
  with Suc assms have "parse_number radix (numeral_chars radix (Suc n) a) =
      (a div radix mod radix ^ n) * radix + a mod radix"
    by (simp add: numeral_Suc parse_number_def char_value_digit)
  also have "\<dots> = a mod radix ^ Suc n" using assms by (simp add: zmod_zmult2_eq mult.commute)
  finally show ?case .
qed (simp add: numeral_chars_def parse_number_def)

lemma c_div_nonneg [simp]: "0 \<le> a \<Longrightarrow> c_div a b = a div b"
  by (cases "a = 0") (auto simp: c_div_def sgn_if)

lemma c_mod_nonneg [simp]: "0 \<le> a \<Longrightarrow> c_mod a b = a mod b"
  by (cases "a = 0") (auto simp: c_mod_def sgn_if)

text \<open>The number of digits.\<close>

lemma count_digits_spec:
  assumes "0 \<le> a" "2 \<le> radix"
  shows "\<exists>k. count_digits radix a c = c + of_nat k \<and> a < radix ^ k \<and> (if a = 0 then k = 0 else 0 < k \<and> radix ^ (k - 1) \<le> a)"
  using assms
proof (induction radix a c rule: count_digits.induct)
  case (1 radix a c)
  show ?case
  proof (cases "a = 0")
    case True
    then show ?thesis by (intro exI [of _ 0]) (simp add: count_digits.simps)
  next
    case False
    have "0 \<le> a div radix" using "1.prems" by (simp add: pos_imp_zdiv_nonneg_iff)
    moreover have cd: "c_div a radix = a div radix" using "1.prems" by simp
    ultimately obtain k where k: "count_digits radix (a div radix) (c + 1) = c + 1 + of_nat k"
        "a div radix < radix ^ k" "if a div radix = 0 then k = 0 else 0 < k \<and> radix ^ (k - 1) \<le> a div radix"
      using "1.IH" [unfolded cd] False "1.prems" by auto
    have "a < radix ^ Suc k"
    proof -
      have "a < (a div radix + 1) * radix" using "1.prems" by (simp add: distrib_right) (metis
            add.commute add_le_cancel_left mod_mult_div_eq mult.commute not_le pos_mod_bound zero_less_numeral order_less_le_trans)
      also have "\<dots> \<le> radix ^ k * radix" using k(2) "1.prems" by (intro mult_right_mono) auto
      finally show ?thesis by (simp add: mult.commute)
    qed
    moreover have "radix ^ k \<le> a"
    proof (cases "a div radix = 0")
      case True
      with k(3) False "1.prems" show ?thesis by simp
    next
      case nz: False
      then have "radix ^ k = radix ^ (k - 1) * radix" using k(3) by (cases k) auto
      also have "\<dots> \<le> a div radix * radix" using k(3) nz "1.prems" by (intro mult_right_mono) auto
      also have "\<dots> \<le> a" using "1.prems" by (metis add_le_same_cancel1 div_mult_mod_eq le_add_same_cancel1 pos_mod_sign order_less_le_trans zero_less_numeral)
      finally show ?thesis .
    qed
    moreover have "count_digits radix a c = c + of_nat (Suc k)"
      using False "1.prems" k(1) by (simp add: count_digits.simps [of radix a] add.assoc)
    ultimately show ?thesis using False by (intro exI [of _ "Suc k"]) simp
  qed
qed

text \<open>Writing the digits.\<close>

lemma emit_digits_spec:
  assumes "0 \<le> a" "2 \<le> radix" "n \<le> i" "i < 4294967296" "radix \<le> 16"
  shows "\<exists>m'. emit_digits n 0x61 radix out (of_nat i) a m = (of_nat (i - n), m') \<and>
     holds m' (out + of_nat (i - n)) (numeral_chars radix n a) \<and>
     (\<forall>x. \<not> in_range (out + of_nat (i - n)) n x \<longrightarrow> m' x = m x)"
  using assms
proof (induction n arbitrary: a i m)
  case 0
  then show ?case by (simp add: holds_def numeral_chars_def)
next
  case (Suc n)
  obtain j where j: "i = Suc j" using Suc.prems(3) by (cases i) auto
  define m1 where "m1 = m(out + of_nat j := digit_char 0x61 (a mod radix))"
  let ?b = "out + of_nat (j - n)"
  have "0 \<le> a div radix" using Suc.prems by (simp add: pos_imp_zdiv_nonneg_iff)
  then have "\<exists>m'. emit_digits n 0x61 radix out (of_nat j) (a div radix) m1 = (of_nat (j - n), m') \<and>
      holds m' ?b (numeral_chars radix n (a div radix)) \<and> (\<forall>x. \<not> in_range ?b n x \<longrightarrow> m' x = m1 x)"
    by (rule Suc.IH) (use Suc.prems j in auto)
  then obtain m' where m': "emit_digits n 0x61 radix out (of_nat j) (a div radix) m1 = (of_nat (j - n), m')"
      "holds m' ?b (numeral_chars radix n (a div radix))" "\<forall>x. \<not> in_range ?b n x \<longrightarrow> m' x = m1 x" by blast
  have run: "emit_digits (Suc n) 0x61 radix out (of_nat i) a m = (of_nat (i - Suc n), m')"
    using m'(1) Suc.prems j by (simp add: m1_def)
  have last: "out + of_nat j = ?b + of_nat n" using Suc.prems(3) j by (simp add: of_nat_diff)
  have "\<not> in_range ?b n (?b + of_nat n)" using Suc.prems j by (simp add: in_range_def unat_of_nat_u32)
  moreover have "a mod radix < 16" using Suc.prems(2,5) pos_mod_bound [of radix a] by linarith
  ultimately have "m' (?b + of_nat n) = digit_glyph (a mod radix)"
    using m'(3) Suc.prems(2) digit_char_glyph [of "a mod radix"] by (simp add: m1_def flip: last)
  then have "holds m' ?b (numeral_chars radix (Suc n) a)"
    using m'(2) Suc.prems by (simp add: numeral_Suc holds_def nth_append less_Suc_eq)
  moreover have "m' x = m x" if "\<not> in_range ?b (Suc n) x" for x
  proof -
    have "x \<noteq> ?b + of_nat n" using that Suc.prems j by (auto simp: in_range_def unat_of_nat_u32)
    moreover have "\<not> in_range ?b n x" using that by (simp add: in_range_def)
    ultimately show ?thesis using m'(3) by (simp add: m1_def last)
  qed
  ultimately show ?case using run j by auto
qed

section \<open>Conversion without width and precision\<close>

lemma digits_bound:
  assumes "radix ^ (k - 1) \<le> a" "a < 2 ^ 63" "2 \<le> (radix :: int)"
  shows "k \<le> 63"
proof (rule ccontr)
  assume "\<not> k \<le> 63"
  then have "(2 :: int) ^ 63 \<le> 2 ^ (k - 1)" by (intro power_increasing) auto
  also have "\<dots> \<le> radix ^ (k - 1)" using assms(3) by (intro power_mono) auto
  finally show False using assms(1,2) by simp
qed

lemma plain_flags [simp]:
  "has_flag 0 f = False" "has_flag FORMAT_FLAG_UNSIGNED FORMAT_FLAG_UNSIGNED"
  "\<not> has_flag FORMAT_FLAG_UNSIGNED FORMAT_FLAG_ALT_FORM" "\<not> has_flag FORMAT_FLAG_UNSIGNED FORMAT_FLAG_LEFT_JUSTIFY"
  "\<not> has_flag FORMAT_FLAG_UNSIGNED FORMAT_FLAG_UPPERCASE_HEX"
  "\<not> has_flag FORMAT_FLAG_UNSIGNED FORMAT_FLAG_BEGIN_WITH_SIGN"
  by (simp_all add: has_flag_def format_flags)

lemma chr_a [simp]: "chr CHR ''a'' = 0x61" "chr CHR ''-'' = 0x2D" "chr CHR ''0'' = 0x30"
  by (simp_all add: chr_def)

text \<open>A number that is not negative, in radix 10 or 16.\<close>

lemma convert_plain:
  assumes "0 \<le> a" "a < 2 ^ 63" "radix = 10 \<or> radix = 16" "fl = 0 \<or> fl = FORMAT_FLAG_UNSIGNED"
  shows "\<exists>n m'. convert_any_int_to_str a fl 0 0 radix out m = (of_nat n, m') \<and> 0 < n \<and> n \<le> 63 \<and>
     holds m' out (numeral_chars radix n a) \<and> a < radix ^ n \<and> (n = 1 \<or> radix ^ (n - 1) \<le> a) \<and>
     (\<forall>x. \<not> in_range out n x \<longrightarrow> m' x = m x)"
proof -
  have r: "2 \<le> radix" using assms(3) by auto
  obtain k where k: "count_digits radix a 0 = of_nat k" "a < radix ^ k"
      "if a = 0 then k = 0 else 0 < k \<and> radix ^ (k - 1) \<le> a"
    using count_digits_spec [OF assms(1) r, of 0] by auto
  have k63: "k \<le> 63" using k(3) digits_bound [OF _ assms(2) r, of k] by (auto split: if_splits)
  define n where "n = (if k = 0 then 1 else k)"
  have n: "0 < n" "n \<le> 63" "a < radix ^ n" "n = 1 \<or> radix ^ (n - 1) \<le> a"
    using k k63 r by (auto simp: n_def split: if_splits)
  have un: "unat (of_nat n :: u32) = n" using n(2) by (intro unat_of_nat_u32) simp
  obtain m' where m': "emit_digits n 0x61 radix out (of_nat n) a m = (0, m')"
      "holds m' out (numeral_chars radix n a)" "\<forall>x. \<not> in_range out n x \<longrightarrow> m' x = m x"
    using emit_digits_spec [OF assms(1) r, of n n out m] n(2) assms(3) by auto
  have fl: "\<not> has_flag fl FORMAT_FLAG_BEGIN_WITH_SIGN" "\<not> has_flag fl FORMAT_FLAG_ALT_FORM" "\<not> has_flag fl FORMAT_FLAG_LEFT_JUSTIFY"
      "\<not> has_flag fl FORMAT_FLAG_UPPERCASE_HEX" "radix \<noteq> 8" "\<not> a < 0"
    using assms by auto
  have "convert_any_int_to_str a fl 0 0 radix out m = (of_nat n, m')"
  proof (cases "k = 0")
    case True
    then show ?thesis using fl k(1) m'(1) by (simp add: convert_any_int_to_str_def Let_def n_def)
  next
    case False
    then have "n = k" "(of_nat n :: u32) \<noteq> 0" using un n(1) by (auto simp: n_def)
    then show ?thesis using fl k(1) m'(1) un by (simp add: convert_any_int_to_str_def Let_def)
  qed
  with m' n show ?thesis by blast
qed

text \<open>A negative number in radix 10: the sign, then the digits of the magnitude.\<close>

lemma convert_negative:
  assumes "a < 0" "- (2 ^ 63) < a"
  shows "\<exists>n m'. convert_any_int_to_str a 0 0 0 10 out m = (of_nat (Suc n), m') \<and> 0 < n \<and> n \<le> 63 \<and>
     holds m' out (0x2D # numeral_chars 10 n (- a)) \<and> - a < 10 ^ n \<and> 10 ^ (n - 1) \<le> - a \<and>
     (\<forall>x. \<not> in_range out (Suc n) x \<longrightarrow> m' x = m x)"
proof -
  have neg: "negate64 a = - a" "0 \<le> - a" "- a < 2 ^ 63" using assms by (auto simp: negate64_def)
  obtain n where n: "count_digits 10 (- a) 1 = 1 + of_nat n" "- a < 10 ^ n" "0 < n" "10 ^ (n - 1) \<le> - a"
    using count_digits_spec [OF neg(2), of 10 1] assms(1) by auto
  have n63: "n \<le> 63" using digits_bound [OF n(4) neg(3)] by simp
  have un: "unat (of_nat n :: u32) = n" "unat (1 + of_nat n :: u32) = Suc n"
    using n63 by (simp_all add: unat_of_nat_u32 unat_word_ariths)
  obtain m' where m': "emit_digits n 0x61 10 out (of_nat (Suc n)) (- a) m = (of_nat 1, m')"
      "holds m' (out + of_nat 1) (numeral_chars 10 n (- a))"
      "\<forall>x. \<not> in_range (out + of_nat 1) n x \<longrightarrow> m' x = m x"
    using emit_digits_spec [OF neg(2), of 10 n "Suc n" out m] n63 by auto
  let ?m = "m'(out := 0x2D)"
  have small: "Suc n \<le> 4294967296" using n63 by simp
  have "\<not> 1 + of_nat n < (1 :: u32)" using un by (simp add: word_less_nat_alt)
  then have "convert_any_int_to_str a 0 0 0 10 out m = (of_nat (Suc n), ?m)"
    using assms neg n(1) m'(1) un by (simp add: convert_any_int_to_str_def Let_def)
  moreover have "holds ?m out (0x2D # numeral_chars 10 n (- a))"
  proof -
    have ne: "out + 1 + of_nat p \<noteq> out" if "p < n" for p
    proof
      assume "out + 1 + of_nat p = out"
      then have "(of_nat (Suc p) :: u32) = 0" by (simp add: add.assoc)
      moreover have "unat (of_nat (Suc p) :: u32) = Suc p" using that n63 by (intro unat_of_nat_u32) simp
      ultimately show False by simp
    qed
    show ?thesis using m'(2) ne unfolding holds_def
      by (auto simp: All_less_Suc2 add.assoc)
  qed
  moreover have "?m x = m x" if "\<not> in_range out (Suc n) x" for x
    using that m'(3) in_range_Suc [OF small, of out x] by auto
  ultimately show ?thesis using n n63 by blast
qed

lemma numeral_range:
  assumes "2 \<le> radix" "radix \<le> 16" "c \<in> set (numeral_chars radix n a)"
  shows "c \<noteq> 0" "c \<noteq> 0x08" "radix \<le> 10 \<Longrightarrow> 0x30 \<le> c \<and> c \<le> 0x39"
proof -
  obtain b where c: "c = digit_glyph (b mod radix)" using assms(3) by (auto simp: numeral_chars_def)
  have "0 \<le> b mod radix" "b mod radix < radix" using assms(1) by simp_all
  then have d: "0 \<le> b mod radix" "b mod radix < 16" using assms(2) by linarith+
  show "c \<noteq> 0" "c \<noteq> 0x08" using glyph_range(2,3) [OF d] c by simp_all
  show "0x30 \<le> c \<and> c \<le> 0x39" if "radix \<le> 10"
    using glyph_range(1,4) [OF d] c that \<open>b mod radix < radix\<close> by simp
qed

lemma numeral_nonzero: "2 \<le> radix \<Longrightarrow> radix \<le> 16 \<Longrightarrow> 0 \<notin> set (numeral_chars radix n a)"
  using numeral_range(1) by blast

text \<open>Reading decimal digits, each the distance of its character from the character 0.\<close>

definition decimal_value :: "u8 list \<Rightarrow> int" where
  "decimal_value cs = foldl (\<lambda>v c. 10 * v + (uint c - 48)) 0 cs"

definition decimal_digits :: "u8 list \<Rightarrow> bool" where
  "decimal_digits cs \<longleftrightarrow> (\<forall>c \<in> set cs. 48 \<le> uint c \<and> uint c \<le> 57)"

lemma decimal_parse: "decimal_digits cs \<Longrightarrow> decimal_value cs = parse_number 10 cs"
proof (induction cs rule: rev_induct)
  case (snoc c cs)
  then have "char_value c = uint c - 48" by (simp add: decimal_digits_def char_value_def is_digit_def word_le_def chr_def)
  with snoc show ?case by (simp add: decimal_digits_def decimal_value_def parse_number_def)
qed (simp add: decimal_value_def parse_number_def)

lemma numeral_decimal: "decimal_digits (numeral_chars 10 n a)"
  using numeral_range(3) [of 10 _ n a] by (auto simp: decimal_digits_def word_le_def)

definition sign_chars :: "int \<Rightarrow> u8 list" where
  "sign_chars a = (if a < 0 then [0x2D] else [])"

lemma convert_decimal:
  assumes "- (2 ^ 63) < a" "a < 2 ^ 63"
  shows "\<exists>ds m'. convert_any_int_to_str a 0 0 0 10 out m = (of_nat (length (sign_chars a @ ds)), m') \<and>
     length ds \<le> 63 \<and> holds m' out (sign_chars a @ ds) \<and> parse_number 10 ds = \<bar>a\<bar> \<and> decimal_digits ds \<and> 0 \<notin> set ds \<and>
     (length ds = 1 \<or> 0 < \<bar>a\<bar> div 10 ^ (length ds - 1)) \<and>
     (\<forall>x. \<not> in_range out (length (sign_chars a @ ds)) x \<longrightarrow> m' x = m x)"
proof (cases "a < 0")
  case True
  from convert_negative [OF True assms(1), of out m] obtain n m' where
    c: "convert_any_int_to_str a 0 0 0 10 out m = (of_nat (Suc n), m')" "n \<le> 63"
      "holds m' out (0x2D # numeral_chars 10 n (- a))" "- a < 10 ^ n" "10 ^ (n - 1) \<le> - a"
      "\<forall>x. \<not> in_range out (Suc n) x \<longrightarrow> m' x = m x" by blast
  have "parse_number 10 (numeral_chars 10 n (- a)) = - a"
    using True c(4) parse_numeral [of "- a" 10 n] by (simp add: mod_pos_pos_trivial)
  moreover have "0 < (- a) div 10 ^ (n - 1)" using c(5) by (simp add: pos_imp_zdiv_pos_iff)
  ultimately show ?thesis
    using c True numeral_nonzero [of 10 n "- a"]
    by (intro exI [of _ "numeral_chars 10 n (- a)"]) (auto simp: sign_chars_def numeral_decimal)
next
  case False
  from convert_plain [of a 10 0 out m] False assms obtain n m' where
    c: "convert_any_int_to_str a 0 0 0 10 out m = (of_nat n, m')" "n \<le> 63"
      "holds m' out (numeral_chars 10 n a)" "a < 10 ^ n" "n = 1 \<or> 10 ^ (n - 1) \<le> a"
      "\<forall>x. \<not> in_range out n x \<longrightarrow> m' x = m x" by auto
  have "parse_number 10 (numeral_chars 10 n a) = a"
    using False c(4) parse_numeral [of a 10 n] by (simp add: mod_pos_pos_trivial)
  moreover have "n = 1 \<or> 0 < a div 10 ^ (n - 1)" using c(5) by (auto simp: pos_imp_zdiv_pos_iff)
  ultimately show ?thesis
    using c False numeral_nonzero [of 10 n a]
    by (intro exI [of _ "numeral_chars 10 n a"]) (auto simp: sign_chars_def numeral_decimal)
qed

section \<open>Properties\<close>

text \<open>
  C16: the decimal conversion is right for every number of 64 bits but the smallest: the
  buffer receives an optional sign and a numeral, the length is returned, and nothing else is written. The characters
  of the numeral are all between 0 and 9, there are no leading zeros, and each character read as its distance from the character
  0 gives the magnitude of the number.
\<close>

theorem convert_decimal_roundtrip:
  assumes "- (2 ^ 63) < a" "a < 2 ^ 63"
  shows "\<exists>ds m'. convert_any_int_to_str a 0 0 0 10 out m = (of_nat (length (sign_chars a @ ds)), m') \<and>
     holds m' out (sign_chars a @ ds) \<and> decimal_digits ds \<and> decimal_value ds = \<bar>a\<bar> \<and>
     (length ds = 1 \<or> 0 < \<bar>a\<bar> div 10 ^ (length ds - 1)) \<and>
     (\<forall>x. \<not> in_range out (length (sign_chars a @ ds)) x \<longrightarrow> m' x = m x)"
proof -
  obtain ds m' where c: "convert_any_int_to_str a 0 0 0 10 out m = (of_nat (length (sign_chars a @ ds)), m')"
     "holds m' out (sign_chars a @ ds)" "parse_number 10 ds = \<bar>a\<bar>" "decimal_digits ds"
     "length ds = 1 \<or> 0 < \<bar>a\<bar> div 10 ^ (length ds - 1)"
     "\<forall>x. \<not> in_range out (length (sign_chars a @ ds)) x \<longrightarrow> m' x = m x"
    using convert_decimal [OF assms, of out m] by blast
  have "decimal_value ds = \<bar>a\<bar>" using decimal_parse [OF c(4)] c(3) by simp
  with c show ?thesis by blast
qed

theorem convert_decimal_roundtrip_witness:
  "\<exists>ds m'. convert_any_int_to_str (- 1907) 0 0 0 10 0x1000 (\<lambda>_. 0) = (of_nat (Suc (length ds)), m') \<and>
     holds m' 0x1000 (0x2D # ds) \<and> decimal_digits ds \<and> decimal_value ds = 1907"
  using convert_decimal_roundtrip [of "- 1907" "0x1000" "\<lambda>_. 0"] by (auto simp: sign_chars_def)

section \<open>Formats\<close>

lemma vsprintf_loop_text:
  assumes "cstring_at m p xs" "chr CHR ''%'' \<notin> set xs" "length xs < 4294967296"
    and "no_overlap buf (length xs) p (length xs + 1)"
  shows "vsprintf_loop str buf p args m = Some (buf + of_nat (length xs), memcpy_loop (length xs) buf p m)"
  using assms
proof (induction xs arbitrary: buf p m)
  case Nil
  then show ?case by (simp add: vsprintf_loop.simps)
next
  case (Cons x xs)
  let ?m = "m(buf := m p)"
  have same: "?m (p + of_nat i) = m (p + of_nat i)" if "i < length (x # xs) + 1" for i
    using Cons.prems(4) that by (auto simp: no_overlap_def in_range_def)
  have "cstring_at ?m (p + 1) xs"
  proof (rule cstring_at_frame)
    show "cstring_at m (p + 1) xs" using Cons.prems by simp
    show "?m (p + 1 + of_nat i) = m (p + 1 + of_nat i)" if "i \<le> length xs" for i
      using same [of "Suc i"] that by (simp add: add.assoc)
  qed
  moreover have "no_overlap (buf + 1) (length xs) (p + 1) (length xs + 1)"
    using Cons.prems by (intro no_overlap_step) auto
  ultimately have "vsprintf_loop str (buf + 1) (p + 1) args ?m =
      Some (buf + 1 + of_nat (length xs), memcpy_loop (length xs) (buf + 1) (p + 1) ?m)"
    using Cons.IH Cons.prems by simp
  with Cons.prems show ?case by (subst vsprintf_loop.simps) (auto simp: add.assoc)
qed

text \<open>
  A format without conversions is copied to the buffer as it is, and its length is returned.
\<close>

theorem vsprintf_text:
  assumes "cstring_at m p xs" "chr CHR ''%'' \<notin> set xs" "length xs < 4294967296"
    and "no_overlap str (length xs) p (length xs + 1)"
  shows "\<exists>m'. kaos_vsprintf str p args m = Some (of_nat (length xs), m') \<and> cstring_at m' str xs \<and>
     (\<forall>a. \<not> in_range str (length xs + 1) a \<longrightarrow> m' a = m a)"
proof -
  have "no_overlap str (length xs) p (length xs)" using assms(4) by (simp add: no_overlap_def)
  then have "(memcpy_loop (length xs) str p m)(str + of_nat (length xs) := 0) = terminated_copy str p (length xs) m"
    using assms(3) by (auto simp: fun_eq_iff terminated_copy_def memcpy_loop_apply)
  then have "kaos_vsprintf str p args m = Some (of_nat (length xs), terminated_copy str p (length xs) m)"
    by (simp add: kaos_vsprintf_def vsprintf_loop_text [OF assms])
  then show ?thesis
    using terminated_copy_cstring [OF assms(1,3)] terminated_copy_frame [OF assms(3)] by blast
qed

theorem vsprintf_text_witness:
  "\<exists>m'. kaos_vsprintf 0x2000 0x1000 [] ((\<lambda>_. 0)(0x1000 := 0x6F, 0x1001 := 0x6B)) = Some (2, m') \<and>
     cstring_at m' 0x2000 [0x6F, 0x6B]"
  using vsprintf_text [of "(\<lambda>_. 0)(0x1000 := 0x6F, 0x1001 := 0x6B)" "0x1000" "[0x6F, 0x6B]" "0x2000" "[]"]
  by (auto simp: no_overlap_apart chr_def)

lemmas format_eval = format_step_def format_flags_step_def format_width_step_def format_precision_step_def
  format_length_step_def format_specifier_step_def new_conversion_def is_digit_def chr_def Let_def
  integer_arg_def va_arg_def

lemma new_conversion_sel [simp]: "conv_ptr (new_conversion p a) = p" "conv_args (new_conversion p a) = a"
  by (simp_all add: new_conversion_def)

lemma conversion_d:
  assumes "m (p + 1) = 0x64"
  shows "format_conversion str buf m (new_conversion p (w # args)) =
     (let (n, m1) = convert_any_int_to_str (sint w) 0 0 0 10 buf m
      in Some (buf + n, m1, (new_conversion (p + 2) args)\<lparr>conv_state := FORMAT_STATE_SPECIFIER\<rparr>))"
  using assms by (subst format_conversion.simps) (simp add: format_eval split: prod.splits)

text \<open>
  The format \<^verbatim>\<open>%d\<close> prints the signed value of its argument: afterwards the buffer is a string of an
  optional sign and a numeral that reads back as the magnitude, and its length is returned.
\<close>

theorem vsprintf_decimal:
  assumes "cstring_at m p [0x25, 0x64]" "no_overlap str 66 p 3"
  shows "\<exists>ds m'. kaos_vsprintf str p [w] m = Some (of_nat (length (sign_chars (sint w) @ ds)), m') \<and>
     cstring_at m' str (sign_chars (sint w) @ ds) \<and> parse_number 10 ds = \<bar>sint w\<bar>"
proof -
  have m: "m p = 0x25" "m (p + 1) = 0x64" "m (p + 2) = 0" using assms(1) by (simp_all add: add.assoc)
  have r: "- (2 ^ 63) < sint w" "sint w < 2 ^ 63" using sint_greater_eq [of w] sint_less [of w] by simp_all
  obtain ds m1 where conv: "convert_any_int_to_str (sint w) 0 0 0 10 str m = (of_nat (length (sign_chars (sint w) @ ds)), m1)"
      "length ds \<le> 63" "holds m1 str (sign_chars (sint w) @ ds)" "parse_number 10 ds = \<bar>sint w\<bar>" "0 \<notin> set ds"
      "\<forall>x. \<not> in_range str (length (sign_chars (sint w) @ ds)) x \<longrightarrow> m1 x = m x"
    using convert_decimal [OF r] by blast
  define n where "n = length (sign_chars (sint w) @ ds)"
  have c: "convert_any_int_to_str (sint w) 0 0 0 10 str m = (of_nat n, m1)" "n \<le> 64"
      "n = length (sign_chars (sint w) @ ds)" "holds m1 str (sign_chars (sint w) @ ds)"
      "parse_number 10 ds = \<bar>sint w\<bar>" "0 \<notin> set ds" "\<forall>x. \<not> in_range str n x \<longrightarrow> m1 x = m x"
    using conv by (auto simp: n_def sign_chars_def)
  let ?cs = "sign_chars (sint w) @ ds"
  have keep: "m1 (p + 2) = 0"
  proof -
    have "\<not> in_range str 66 (p + of_nat 2)" using assms(2) [unfolded no_overlap_def, rule_format, of 2] by simp
    then have "\<not> in_range str n (p + 2)" using c(2) by (simp add: in_range_def)
    with c(7) m(3) show ?thesis by simp
  qed
  have "vsprintf_loop str str p [w] m = Some (str + of_nat n, m1)"
    using m keep c(1) by (subst vsprintf_loop.simps)
      (simp add: chr_def conversion_d vsprintf_loop.simps [of _ _ "p + 2"])
  then have "kaos_vsprintf str p [w] m = Some (of_nat n, m1(str + of_nat n := 0))" by (simp add: kaos_vsprintf_def)
  moreover have "cstring_at (m1(str + of_nat n := 0)) str ?cs"
  proof -
    have "(of_nat i :: u32) \<noteq> of_nat n" if "i < n" for i
    proof -
      have "unat (of_nat i :: u32) = i" "unat (of_nat n :: u32) = n" using that c(2) by (auto intro: unat_of_nat_u32)
      with that show ?thesis by (metis nat_neq_iff)
    qed
    moreover have "0 \<notin> set ?cs" using c(6) by (simp add: sign_chars_def)
    then have "?cs ! i \<noteq> 0" if "i < n" for i using that c(3) by (metis nth_mem)
    ultimately show ?thesis using c(3,4) by (auto simp: cstring_at_nth holds_def)
  qed
  ultimately show ?thesis using c(3,5) by auto
qed

theorem vsprintf_decimal_witness:
  "\<exists>ds m'. kaos_vsprintf 0x2000 0x1000 [0xFFFFFFFF] ((\<lambda>_. 0)(0x1000 := 0x25, 0x1001 := 0x64)) =
       Some (of_nat (Suc (length ds)), m') \<and> cstring_at m' 0x2000 (0x2D # ds) \<and> parse_number 10 ds = 1"
  using vsprintf_decimal [of "(\<lambda>_. 0)(0x1000 := 0x25, 0x1001 := 0x64)" "0x1000" "0x2000" "0xFFFFFFFF"]
  by (auto simp: no_overlap_apart sign_chars_def)

definition format_memory :: "u8 list \<Rightarrow> mem" where
  "format_memory xs a = (if unat (a - 0x1000) < length xs then xs ! unat (a - 0x1000) else 0)"

lemma conversion_u_x:
  "m (p + 1) = 0x75 \<Longrightarrow> format_conversion str buf m (new_conversion p (w # args)) =
     (let (n, m1) = convert_any_int_to_str (sint w) FORMAT_FLAG_UNSIGNED 0 0 8 buf m
      in Some (buf + n, m1, (new_conversion (p + 2) args)\<lparr>conv_state := FORMAT_STATE_SPECIFIER\<rparr>))"
  "m (p + 1) = 0x78 \<Longrightarrow> format_conversion str buf m (new_conversion p (w # args)) =
     (let (n, m1) = convert_any_int_to_str (sint w) FORMAT_FLAG_UNSIGNED 0 0 16 buf m
      in Some (buf + n, m1, (new_conversion (p + 2) args)\<lparr>conv_state := FORMAT_STATE_SPECIFIER\<rparr>))"
  "m (p + 1) = 0x25 \<Longrightarrow> format_conversion str buf m (new_conversion p args) =
     Some (buf + 1, m(buf := 0x25), (new_conversion (p + 1) args)\<lparr>conv_state := FORMAT_STATE_SPECIFIER\<rparr>)"
  by (subst format_conversion.simps; simp add: format_eval split: prod.splits)+

lemma sample_conversions:
  "convert_any_int_to_str 8 FORMAT_FLAG_UNSIGNED 0 0 8 b m = (3, m(b + 2 := 0x30, b + 1 := 0x31, b := 0x30))"
  "convert_any_int_to_str (- 1) FORMAT_FLAG_UNSIGNED 0 0 16 b m = (1, m(b := 0x31))"
  "convert_any_int_to_str 5 0 0 0 10 b m = (1, m(b := 0x35))"
proof -
  have c: "count_digits 8 8 0 = 2" "count_digits 16 (- 1) 0 = 1" "count_digits 10 5 0 = 1"
    by (simp_all add: count_digits.simps c_div_def)
  have e: "emit_digits 3 hex r b i a m = emit_digits (Suc (Suc (Suc 0))) hex r b i a m" for hex r i a
    by (simp only: numeral_3_eq_3)
  have u: "has_flag FORMAT_FLAG_UNSIGNED FORMAT_FLAG_PAD_WITH_ZEROES = False" "negate64 (- 1) = 1"
    by (simp_all add: has_flag_def format_flags negate64_def)
  show "convert_any_int_to_str 8 FORMAT_FLAG_UNSIGNED 0 0 8 b m = (3, m(b + 2 := 0x30, b + 1 := 0x31, b := 0x30))"
    by (simp add: convert_any_int_to_str_def Let_def c e u digit_char_def)
  show "convert_any_int_to_str (- 1) FORMAT_FLAG_UNSIGNED 0 0 16 b m = (1, m(b := 0x31))"
    by (simp add: convert_any_int_to_str_def Let_def c u digit_char_def)
  show "convert_any_int_to_str 5 0 0 0 10 b m = (1, m(b := 0x35))"
    by (simp add: convert_any_int_to_str_def Let_def c u digit_char_def)
qed

lemma run_sample:
  "m 0x1000 = 0x25 \<Longrightarrow> m 0x1001 = 0x75 \<Longrightarrow> m 0x1002 = 0 \<Longrightarrow>
     kaos_vsprintf 0x2000 0x1000 [8] m = Some (3, m(0x2002 := 0x30, 0x2001 := 0x31, 0x2000 := 0x30, 0x2003 := 0))"
  "m 0x1000 = 0x25 \<Longrightarrow> m 0x1001 = 0x78 \<Longrightarrow> m 0x1002 = 0 \<Longrightarrow>
     kaos_vsprintf 0x2000 0x1000 [0xFFFFFFFF] m = Some (1, m(0x2000 := 0x31, 0x2001 := 0))"
  "m 0x1000 = 0x25 \<Longrightarrow> m 0x1001 = 0x25 \<Longrightarrow> m 0x1002 = 0x64 \<Longrightarrow> m 0x1003 = 0 \<Longrightarrow>
     kaos_vsprintf 0x2000 0x1000 [5] m = Some (2, m(0x2000 := 0x25, 0x2001 := 0x35, 0x2002 := 0))"
  unfolding kaos_vsprintf_def
    apply (subst vsprintf_loop.simps, simp add: chr_def conversion_u_x sample_conversions,
      subst vsprintf_loop.simps, simp)
   apply (subst vsprintf_loop.simps, simp add: chr_def conversion_u_x sample_conversions,
      subst vsprintf_loop.simps, simp)
  apply (subst vsprintf_loop.simps, simp add: chr_def conversion_u_x,
      subst vsprintf_loop.simps, simp add: chr_def conversion_d sample_conversions,
      subst vsprintf_loop.simps, simp)
  done

text \<open>
  Three formats that do not print what they say. \<^verbatim>\<open>%u\<close> prints 8 in octal with a leading zero,
  \<^verbatim>\<open>%x\<close> prints the magnitude of an argument whose top bit is set, and after \<^verbatim>\<open>%%\<close> the second
  percent sign starts a conversion.
\<close>

theorem vsprintf_flaws:
  "\<exists>m1 m2 m3.
     kaos_vsprintf 0x2000 0x1000 [8] (format_memory [0x25, 0x75]) = Some (3, m1) \<and> cstring_at m1 0x2000 [0x30, 0x31, 0x30] \<and>
     kaos_vsprintf 0x2000 0x1000 [0xFFFFFFFF] (format_memory [0x25, 0x78]) = Some (1, m2) \<and> cstring_at m2 0x2000 [0x31] \<and>
     kaos_vsprintf 0x2000 0x1000 [5] (format_memory [0x25, 0x25, 0x64]) = Some (2, m3) \<and> cstring_at m3 0x2000 [0x25, 0x35]"
  by (simp add: run_sample format_memory_def)

end
