(* ===== verification/Tty.thy ===== *)
theory Tty
  imports Sprintf
begin

text \<open>
  The text console: \<^verbatim>\<open>src/kernel/tty/tty.c\<close> on the text buffer of \<^verbatim>\<open>src/kernel/arch/i686/vga_text.c\<close>,
  and the formatted output that the kernel uses before its files exist,
  \<^verbatim>\<open>src/kernel/libc/stdio/printf.c\<close>. The buffer is an array of \<^verbatim>\<open>width * height\<close> cells of a
  character and its colour; an access outside of it is undefined. The columns and rows are signed.
\<close>

section \<open>The console\<close>

record tty_handle =
  width :: int
  height :: int
  cursorx :: int
  cursory :: int
  color :: u8

text \<open>The handle, the cells that \<^verbatim>\<open>getbufferptr\<close> points to, and \<^verbatim>\<open>vga_tty_initialized\<close>.\<close>

record tty_state =
  handle :: tty_handle
  cells :: "nat \<Rightarrow> u16"
  vga_tty_initialized :: bool

definition arch_tty_init :: "tty_state \<Rightarrow> tty_state" where
  "arch_tty_init s =
     (if \<not> vga_tty_initialized s
      then s\<lparr>handle := \<lparr>width = 80, height = 25, cursorx = 0, cursory = 0, color = 0\<rparr>,
             vga_tty_initialized := True\<rparr>
      else s)"

definition tty_init :: "tty_state \<Rightarrow> tty_state" where
  "tty_init s =
     (let s1 = arch_tty_init s
      in s1\<lparr>cells := for_update 0 0 (nat (width (handle s1) * height (handle s1))) (\<lambda>_ _. 0) (cells s1)\<rparr>)"

definition tty_setcolors :: "u8 \<Rightarrow> u8 \<Rightarrow> tty_state \<Rightarrow> tty_state" where
  "tty_setcolors foreground background s =
     s\<lparr>handle := handle s\<lparr>color := push_bit 4 background OR (foreground AND 0x0F)\<rparr>\<rparr>"

text \<open>A plain \<^verbatim>\<open>char\<close> is signed: it is extended with its sign before the colour is added.\<close>

definition tty_setcharwithcolor :: "nat \<Rightarrow> u8 \<Rightarrow> u8 \<Rightarrow> (nat \<Rightarrow> u16) \<Rightarrow> nat \<Rightarrow> u16" where
  "tty_setcharwithcolor address ch col c = c(address := scast ch OR push_bit 8 (ucast col))"

definition cell_index :: "tty_handle \<Rightarrow> int \<Rightarrow> nat option" where
  "cell_index h i = (if 0 \<le> i \<and> i < width h * height h then Some (nat i) else None)"

text \<open>The rows move up one after the other, each from left to right; then the last row is cleared.\<close>

definition scroll_row :: "nat \<Rightarrow> nat \<Rightarrow> (nat \<Rightarrow> u16) \<Rightarrow> nat \<Rightarrow> u16" where
  "scroll_row w y c = fold (\<lambda>x c. c((y - 1) * w + x := c (y * w + x))) [0..<w] c"

definition tty_scroll :: "tty_state \<Rightarrow> tty_state" where
  "tty_scroll s =
     (let w = nat (width (handle s)); h = nat (height (handle s))
      in s\<lparr>cells := for_update ((h - 1) * w) 0 w (\<lambda>_ _. 0) (fold (scroll_row w) [1..<h] (cells s))\<rparr>)"

text \<open>The loop that looks for the last character of the line above; it may leave the line, and the buffer.\<close>

function backspace_scan :: "tty_handle \<Rightarrow> (nat \<Rightarrow> u16) \<Rightarrow> int \<Rightarrow> int option" where
  "backspace_scan h c x =
     (case cell_index h (cursory h * width h + x) of
        None \<Rightarrow> None
      | Some i \<Rightarrow> if c i AND 0xFF = 0 then backspace_scan h c (x - 1) else Some x)"
  by pat_completeness auto
termination
  by (relation "measure (\<lambda>(h, c, x). nat (cursory h * width h + x + 1))")
    (auto simp: cell_index_def split: if_splits)

declare backspace_scan.simps [simp del]

definition tty_backspace :: "tty_state \<Rightarrow> tty_state option" where
  "tty_backspace s = do {
     let h = handle s;
     i \<leftarrow> cell_index h (cursory h * width h + cursorx h - 1);
     let c = (cells s)(i := cells s i AND 0xFF00);
     let x = cursorx h - 1;
     if x < 0 then do {
       let y = (if cursory h - 1 < 0 then 0 else cursory h - 1);
       x' \<leftarrow> backspace_scan (h\<lparr>cursory := y\<rparr>) c (width h - 1);
       Some (s\<lparr>handle := h\<lparr>cursorx := x' + 1, cursory := y\<rparr>, cells := c\<rparr>)
     }
     else Some (s\<lparr>handle := h\<lparr>cursorx := x\<rparr>, cells := c\<rparr>)
   }"

definition tty_advance :: "tty_state \<Rightarrow> tty_state" where
  "tty_advance s =
     (let h = handle s; x = cursorx h + 1
      in if x \<ge> width h then
           (let y = cursory h + 1
            in if y \<ge> height h
               then (tty_scroll s)\<lparr>handle := h\<lparr>cursorx := 0, cursory := height h - 1\<rparr>\<rparr>
               else s\<lparr>handle := h\<lparr>cursorx := 0, cursory := y\<rparr>\<rparr>)
         else s\<lparr>handle := h\<lparr>cursorx := x\<rparr>\<rparr>)"

text \<open>\<^verbatim>\<open>%\<close> is the remainder of C, negative for a negative column.\<close>

definition tty_putch :: "u8 \<Rightarrow> tty_state \<Rightarrow> tty_state option" where
  "tty_putch ch s =
     (let h = handle s
      in if ch = 0x0A then Some (tty_advance (s\<lparr>handle := h\<lparr>cursorx := width h - 1\<rparr>\<rparr>))
         else if ch = 0x0D then Some (tty_advance (s\<lparr>handle := h\<lparr>cursorx := 0\<rparr>\<rparr>))
         else if ch = 0x08 then tty_backspace s
         else if ch = 0x09 then
           Some (tty_advance (s\<lparr>handle := h\<lparr>cursorx := cursorx h + (8 - c_mod (cursorx h) 8) - 1\<rparr>\<rparr>))
         else do {
           i \<leftarrow> cell_index h (cursory h * width h + cursorx h);
           Some (tty_advance (s\<lparr>cells := tty_setcharwithcolor i ch (color h) (cells s)\<rparr>))
         })"

primrec tty_puts_loop :: "nat \<Rightarrow> mem \<Rightarrow> u32 \<Rightarrow> u32 \<Rightarrow> tty_state \<Rightarrow> (u32 \<times> tty_state) option" where
  "tty_puts_loop 0 m str count s = Some (count, s)"
| "tty_puts_loop (Suc n) m str count s =
     (if m str = 0 then Some (count, s)
      else do { s1 \<leftarrow> tty_putch (m str) s; tty_puts_loop n m (str + 1) (count + 1) s1 })"

definition tty_puts :: "mem \<Rightarrow> u32 \<Rightarrow> u32 \<Rightarrow> tty_state \<Rightarrow> (u32 \<times> tty_state) option" where
  "tty_puts m str len s = tty_puts_loop (unat len) m str 0 s"

section \<open>Output before the files exist\<close>

text \<open>
  The digits of a number, from the last one backwards into the 15 bytes of \<^verbatim>\<open>numAsStr\<close>; the buffer, the
  pointer and the number of digits.
\<close>

record digit_buffer =
  numAsStr :: mem
  ptr :: u32
  digitCount :: u8

definition push_digit :: "u8 \<Rightarrow> digit_buffer \<Rightarrow> digit_buffer option" where
  "push_digit d b =
     (if ptr b < 15
      then Some \<lparr>numAsStr = (numAsStr b)(ptr b := d), ptr = ptr b - 1, digitCount = digitCount b + 1\<rparr>
      else None)"

definition decimal_digit :: "int \<Rightarrow> u8" where
  "decimal_digit digit = word_of_int (digit + 48)"

definition hex_digit :: "int \<Rightarrow> u8" where
  "hex_digit digit = (if digit < 10 then word_of_int (digit + 48) else word_of_int ((digit - 10) + 97))"

function push_digits :: "int \<Rightarrow> (int \<Rightarrow> u8) \<Rightarrow> int \<Rightarrow> digit_buffer \<Rightarrow> digit_buffer option" where
  "push_digits radix digit n b =
     (if n > 0 \<and> 2 \<le> radix then do { b1 \<leftarrow> push_digit (digit (n mod radix)) b; push_digits radix digit (n div radix) b1 }
      else Some b)"
  by pat_completeness auto
termination
  by (relation "measure (\<lambda>(radix, digit, n, b). nat n)") (auto simp: int_div_less_self)

declare push_digits.simps [simp del]

text \<open>
  The number and its digits, with a sign if it is negative. An argument of \<^verbatim>\<open>%x\<close> is unsigned and never
  negative; \<^verbatim>\<open>-num\<close> is undefined for the smallest \<^verbatim>\<open>int\<close>.
\<close>

definition print_number :: "int \<Rightarrow> (int \<Rightarrow> u8) \<Rightarrow> int \<Rightarrow> tty_state \<Rightarrow> (u32 \<times> tty_state) option" where
  "print_number radix digit num s = do {
     n \<leftarrow> (if num < 0 then if num = - (2 ^ 31) then None else Some (- num) else Some num);
     b1 \<leftarrow> push_digits radix digit n \<lparr>numAsStr = (\<lambda>_. 0), ptr = 13, digitCount = 0\<rparr>;
     b2 \<leftarrow> (if num = 0 then push_digit 0x30 b1 else Some b1);
     if num < 0 then do {
       s1 \<leftarrow> tty_putch 0x2D s;
       (_, s2) \<leftarrow> tty_puts (numAsStr b2) (ptr b2 + 1) (ucast (digitCount b2)) s1;
       Some (ucast (digitCount b2) + 1, s2)
     }
     else do {
       (_, s1) \<leftarrow> tty_puts (numAsStr b2) (ptr b2 + 1) (ucast (digitCount b2)) s;
       Some (ucast (digitCount b2), s1)
     }
   }"

text \<open>The characters printed by \<^verbatim>\<open>%s\<close> and \<^verbatim>\<open>%c\<close> are not counted; an unknown conversion prints nothing.\<close>

partial_function (option) preboot_printf_loop ::
  "mem \<Rightarrow> u32 \<Rightarrow> u32 list \<Rightarrow> u32 \<Rightarrow> tty_state \<Rightarrow> (u32 \<times> tty_state) option" where
  "preboot_printf_loop m format args numCh s =
     (if m format = 0x25 then
        (let f = format + 1; ch = m f
         in if ch = 0x25 then do {
              s1 \<leftarrow> tty_putch 0x25 s;
              preboot_printf_loop m (f + 1) args (numCh + 1) s1
            }
            else if ch = 0 then Some (numCh, s)
            else if ch = 0x64 \<or> ch = 0x78 \<or> ch = 0x73 \<or> ch = 0x63 then
              (case args of
                 [] \<Rightarrow> None
               | a # as \<Rightarrow> do {
                   (n, s1) \<leftarrow> (if ch = 0x64 then print_number 10 decimal_digit (sint a) s
                      else if ch = 0x78 then print_number 16 hex_digit (uint a) s
                      else if ch = 0x73 then do {
                        len \<leftarrow> kaos_strlen m a;
                        (_, s1) \<leftarrow> tty_puts m a len s;
                        Some (0, s1)
                      }
                      else do { s1 \<leftarrow> tty_putch (ucast a) s; Some (0, s1) });
                   preboot_printf_loop m (f + 1) as (numCh + n) s1
                 })
            else preboot_printf_loop m (f + 1) args numCh s)
      else if m format = 0 then Some (numCh, s)
      else do {
        s1 \<leftarrow> tty_putch (m format) s;
        preboot_printf_loop m (format + 1) args (numCh + 1) s1
      })"

definition kaos_preboot_printf :: "mem \<Rightarrow> u32 \<Rightarrow> u32 list \<Rightarrow> tty_state \<Rightarrow> (u32 \<times> tty_state) option" where
  "kaos_preboot_printf m format args s = preboot_printf_loop m format args 0 s"


section \<open>The console as rows of cells\<close>

definition console_w :: "tty_state \<Rightarrow> nat" where
  "console_w s = nat (width (handle s))"

definition console_rows :: "tty_state \<Rightarrow> u16 list list" where
  "console_rows s = map (\<lambda>y. map (\<lambda>x. cells s (y * console_w s + x)) [0..<console_w s]) [0..<nat (height (handle s))]"

text \<open>What the console promises: rows of cells, a column and a row.\<close>

datatype console = Console "u16 list list" nat nat

definition console :: "tty_state \<Rightarrow> console" where
  "console s = Console (console_rows s) (nat (cursorx (handle s))) (nat (cursory (handle s)))"

fun con_newline :: "nat \<Rightarrow> console \<Rightarrow> console" where
  "con_newline w (Console rs x y) =
     (if Suc y < length rs then Console rs 0 (Suc y) else Console (tl rs @ [replicate w 0]) 0 y)"

fun con_move :: "nat \<Rightarrow> nat \<Rightarrow> console \<Rightarrow> console" where
  "con_move w x' (Console rs x y) = (if x' < w then Console rs x' y else con_newline w (Console rs x y))"

fun con_putch :: "nat \<Rightarrow> u8 \<Rightarrow> u8 \<Rightarrow> console \<Rightarrow> console" where
  "con_putch w col ch (Console rs x y) =
     (if ch = 0x0A then con_newline w (Console rs x y)
      else if ch = 0x0D then con_move w 1 (Console rs x y)
      else if ch = 0x09 then con_move w ((x div 8 + 1) * 8) (Console rs x y)
      else con_move w (Suc x) (Console (rs[y := (rs ! y)[x := scast ch OR push_bit 8 (ucast col)]]) x y))"

definition tty_ok :: "tty_state \<Rightarrow> bool" where
  "tty_ok s \<longleftrightarrow> 0 < width (handle s) \<and> 0 < height (handle s) \<and>
     0 \<le> cursorx (handle s) \<and> cursorx (handle s) < width (handle s) \<and>
     0 \<le> cursory (handle s) \<and> cursory (handle s) < height (handle s)"

lemma console_rows_nth [simp]:
  "y < nat (height (handle s)) \<Longrightarrow> console_rows s ! y = map (\<lambda>x. cells s (y * console_w s + x)) [0..<console_w s]"
  by (simp add: console_rows_def)

lemma length_console_rows [simp]: "length (console_rows s) = nat (height (handle s))"
  by (simp add: console_rows_def)

lemma scroll_row_apply:
  assumes "0 < y"
  shows "scroll_row w y c j = (if (y - 1) * w \<le> j \<and> j < y * w then c (j + w) else c j)"
proof -
  have yw: "y * w = (y - 1) * w + w" using assms by (cases y) auto
  have "fold (\<lambda>x c. c((y - 1) * w + x := c (y * w + x))) [0..<k] c j =
      (if (y - 1) * w \<le> j \<and> j < (y - 1) * w + k then c (j + w) else c j)" if "k \<le> w" for k
    using that
  proof (induction k arbitrary: j)
    case (Suc k)
    then show ?case using yw by (auto simp: add_ac)
  qed auto
  from this [of w] show ?thesis by (simp add: scroll_row_def yw)
qed

lemma scroll_rows_apply:
  assumes "0 < n"
  shows "fold (scroll_row w) [1..<n] c j = (if j < (n - 1) * w then c (j + w) else c j)"
  using assms
proof (induction n arbitrary: j rule: nat_induct_non_zero)
  case (Suc n)
  have "fold (scroll_row w) [1..<Suc n] c = scroll_row w n (fold (scroll_row w) [1..<n] c)"
    using Suc(1) by simp
  moreover have "n * w = (n - 1) * w + w" using Suc(1) by (cases n) auto
  ultimately show ?case using Suc by (auto simp: scroll_row_apply)
qed simp

lemma table_index: "x < w \<Longrightarrow> y < n \<Longrightarrow> y * w + x < n * (w :: nat)"
  by (metis add.commute add_less_le_mono mult_Suc mult_le_mono1 Suc_leI less_le_trans nat_add_left_cancel_less add_le_cancel_left)

lemma console_rows_scroll:
  assumes "0 < height (handle s)"
  shows "console_rows (tty_scroll s) = tl (console_rows s) @ [replicate (console_w s) 0]"
proof (rule nth_equalityI)
  let ?h = "nat (height (handle s))" and ?w = "console_w s"
  show len: "length (console_rows (tty_scroll s)) = length (tl (console_rows s) @ [replicate ?w 0])"
    using assms by (simp add: tty_scroll_def Let_def)
  fix y assume "y < length (console_rows (tty_scroll s))"
  then have y: "y < ?h" by (simp add: tty_scroll_def Let_def)
  have h: "0 < ?h" using assms by simp
  have cell: "cells (tty_scroll s) j = (if (?h - 1) * ?w \<le> j \<and> j < (?h - 1) * ?w + ?w then 0
      else if j < (?h - 1) * ?w then cells s (j + ?w) else cells s j)" for j
    using h by (simp add: tty_scroll_def Let_def for_update_apply scroll_rows_apply [OF h, simplified] console_w_def)
  have st: "console_w (tty_scroll s) = ?w" "nat (height (handle (tty_scroll s))) = ?h"
    by (simp_all add: tty_scroll_def Let_def console_w_def)
  show "console_rows (tty_scroll s) ! y = (tl (console_rows s) @ [replicate ?w 0]) ! y"
  proof (cases "y < ?h - 1")
    case True
    then have lt: "y * ?w + x < (?h - 1) * ?w" if "x < ?w" for x using that by (rule table_index [rotated])
    have "cells (tty_scroll s) (y * ?w + x) = cells s (y * ?w + x + ?w)" if "x < ?w" for x
      using lt [OF that] by (simp add: cell)
    then show ?thesis using y True st by (simp add: nth_append nth_tl add_ac)
  next
    case False
    then have "y = ?h - 1" using y by simp
    then show ?thesis using y h st
      by (auto simp: nth_append cell intro!: nth_equalityI)
  qed
qed

lemma tty_advance_refines:
  assumes "0 < width (handle s)" "0 < height (handle s)" "0 \<le> cursory (handle s)" "cursory (handle s) < height (handle s)"
    and "-1 \<le> cursorx (handle s)"
  shows "tty_ok (tty_advance s)"
    and "console (tty_advance s) = con_move (console_w s) (nat (cursorx (handle s) + 1)) (console s)"
  using assms console_rows_scroll [OF assms(2)]
  by (auto simp: tty_advance_def tty_ok_def Let_def console_def console_w_def console_rows_def tty_scroll_def nat_add_distrib)


lemma cell_index_in:
  "tty_ok s \<Longrightarrow> cell_index (handle s) (cursory (handle s) * width (handle s) + cursorx (handle s)) =
     Some (nat (cursory (handle s)) * console_w s + nat (cursorx (handle s)))"
proof -
  assume ok: "tty_ok s"
  obtain w h x y where i: "width (handle s) = int w" "height (handle s) = int h" "cursorx (handle s) = int x" "cursory (handle s) = int y"
    using ok by (metis tty_ok_def zero_le_imp_eq_int less_imp_le)
  have "y * w + x < h * w" using ok i by (intro table_index) (auto simp: tty_ok_def)
  then have "int y * int w + int x < int w * int h" by (metis mult.commute of_nat_add of_nat_less_iff of_nat_mult)
  moreover have "nat (int y * int w + int x) = y * w + x" by (simp add: nat_add_distrib nat_mult_distrib)
  ultimately show ?thesis unfolding cell_index_def console_w_def i by simp
qed

lemma table_index_eq:
  assumes "x < w" "a < (w :: nat)"
  shows "y * w + x = b * w + a \<longleftrightarrow> y = b \<and> x = a"
proof
  assume *: "y * w + x = b * w + a"
  have "(y * w + x) div w = y" "(b * w + a) div w = b" using assms by simp_all
  with * show "y = b \<and> x = a" by simp
qed simp

lemma console_rows_update:
  assumes "y < nat (height (handle s))" "x < console_w s"
  shows "console_rows (s\<lparr>cells := (cells s)(y * console_w s + x := v)\<rparr>) =
    (console_rows s)[y := (console_rows s ! y)[x := v]]"
proof (rule nth_equalityI)
  let ?t = "s\<lparr>cells := (cells s)(y * console_w s + x := v)\<rparr>"
  have t: "console_w ?t = console_w s" "height (handle ?t) = height (handle s)" by (simp_all add: console_w_def)
  show "length (console_rows ?t) = length ((console_rows s)[y := (console_rows s ! y)[x := v]])" by simp
  fix b assume "b < length (console_rows ?t)"
  then have b: "b < nat (height (handle s))" by simp
  have "console_rows ?t ! b ! a = (console_rows s)[y := (console_rows s ! y)[x := v]] ! b ! a" if "a < console_w s" for a
    using that b assms t by (auto simp: nth_list_update table_index_eq)
  then show "console_rows ?t ! b = (console_rows s)[y := (console_rows s ! y)[x := v]] ! b"
    using b t assms(1) by (intro nth_equalityI) (auto simp: nth_list_update)
qed

lemma putch_printable:
  assumes "tty_ok s" "ch \<notin> {0x0A, 0x0D, 0x08, 0x09}"
  shows "\<exists>s'. tty_putch ch s = Some s' \<and> tty_ok s' \<and>
    console s' = con_putch (console_w s) (color (handle s)) ch (console s)"
proof -
  let ?h = "handle s"
  let ?x = "nat (cursorx ?h)" and ?y = "nat (cursory ?h)"
  let ?v = "scast ch OR push_bit 8 (ucast (color ?h)) :: u16"
  let ?t = "s\<lparr>cells := (cells s)(?y * console_w s + ?x := ?v)\<rparr>"
  have run: "tty_putch ch s = Some (tty_advance ?t)"
    using assms by (simp add: tty_putch_def Let_def cell_index_in tty_setcharwithcolor_def)
  have bounds: "?y < nat (height ?h)" "?x < console_w s" using assms(1) by (auto simp: tty_ok_def console_w_def)
  have "console (tty_advance ?t) = con_move (console_w ?t) (nat (cursorx (handle ?t) + 1)) (console ?t)"
    using assms(1) by (intro tty_advance_refines(2)) (auto simp: tty_ok_def)
  also have "\<dots> = con_putch (console_w s) (color ?h) ch (console s)"
    using assms console_rows_update [OF bounds, of ?v]
    by (simp add: console_def console_w_def tty_ok_def Suc_nat_eq_nat_zadd1 add.commute)
  moreover have "tty_ok (tty_advance ?t)" using assms(1) by (intro tty_advance_refines(1)) (auto simp: tty_ok_def)
  ultimately show ?thesis using run by auto
qed

lemma putch_control:
  assumes "tty_ok s" "ch \<in> {0x0A, 0x0D, 0x09}"
  shows "\<exists>s'. tty_putch ch s = Some s' \<and> tty_ok s' \<and>
    console s' = con_putch (console_w s) (color (handle s)) ch (console s)"
proof -
  define x where "x = (if ch = 0x0A then width (handle s) - 1 else if ch = 0x0D then 0
    else cursorx (handle s) + (8 - cursorx (handle s) mod 8) - 1)"
  let ?t = "s\<lparr>handle := handle s\<lparr>cursorx := x\<rparr>\<rparr>"
  have c: "0 \<le> cursorx (handle s)" "0 < width (handle s)" "0 < height (handle s)" using assms(1) by (auto simp: tty_ok_def)
  have run: "tty_putch ch s = Some (tty_advance ?t)"
    using assms c by (auto simp: tty_putch_def Let_def x_def)
  have m: "cursorx (handle s) mod 8 < 8" "0 \<le> cursorx (handle s) mod 8" by simp_all
  have tab: "cursorx (handle s) + (8 - cursorx (handle s) mod 8) = (cursorx (handle s) div 8 + 1) * 8"
    by (simp add: minus_mod_eq_div_mult [symmetric])
  then have tab': "nat (cursorx (handle s) + (8 - cursorx (handle s) mod 8)) = (nat (cursorx (handle s)) div 8 + 1) * 8"
    using c by (simp only: tab) (simp add: nat_mult_distrib nat_add_distrib nat_div_distrib)
  have x: "0 \<le> x" using c m by (auto simp: x_def)
  have "console (tty_advance ?t) = con_move (console_w ?t) (nat (cursorx (handle ?t) + 1)) (console ?t)"
    using assms(1) x by (intro tty_advance_refines(2)) (auto simp: tty_ok_def)
  also have "\<dots> = con_putch (console_w s) (color (handle s)) ch (console s)"
  proof -
    have rows: "console_rows ?t = console_rows s" by (simp add: console_rows_def console_w_def)
    from assms(2) consider "ch = 0x0A" | "ch = 0x0D" | "ch = 0x09" by blast
    then show ?thesis using c rows
    proof cases
      case 3
      then have "nat (x + 1) = (nat (cursorx (handle s)) div 8 + 1) * 8" unfolding tab' [symmetric] by (simp add: x_def)
      with 3 rows show ?thesis by (simp only: console_def console_w_def) simp
    qed (simp_all add: console_def console_w_def x_def)
  qed
  finally have "console (tty_advance ?t) = con_putch (console_w s) (color (handle s)) ch (console s)" .
  moreover have "tty_ok (tty_advance ?t)" using assms(1) x by (intro tty_advance_refines(1)) (auto simp: tty_ok_def)
  ultimately show ?thesis using run by auto
qed


section \<open>Strings\<close>

text \<open>Printing keeps the size and the colour.\<close>

lemma tty_advance_handle [simp]:
  "width (handle (tty_advance s)) = width (handle s)" "height (handle (tty_advance s)) = height (handle s)"
  "color (handle (tty_advance s)) = color (handle s)"
  by (auto simp: tty_advance_def tty_scroll_def Let_def)

lemma tty_putch_handle:
  assumes "tty_putch ch s = Some s'" "ch \<noteq> 0x08"
  shows "console_w s' = console_w s" "color (handle s') = color (handle s)"
  using assms by (auto simp: tty_putch_def Let_def console_w_def bind_eq_Some_conv split: if_splits)

definition con_puts :: "nat \<Rightarrow> u8 \<Rightarrow> u8 list \<Rightarrow> console \<Rightarrow> console" where
  "con_puts w col = fold (con_putch w col)"

lemma con_puts_simps [simp]:
  "con_puts w col [] c = c" "con_puts w col (x # xs) c = con_puts w col xs (con_putch w col x c)"
  "con_puts w col (xs @ ys) c = con_puts w col ys (con_puts w col xs c)"
  by (simp_all add: con_puts_def)

definition printed :: "u8 list \<Rightarrow> tty_state \<Rightarrow> tty_state \<Rightarrow> bool" where
  "printed xs s s' \<longleftrightarrow> tty_ok s' \<and> console_w s' = console_w s \<and> color (handle s') = color (handle s) \<and>
     console s' = con_puts (console_w s) (color (handle s)) xs (console s)"

lemma printed_nil: "tty_ok s \<Longrightarrow> printed [] s s"
  by (simp add: printed_def)

lemma printed_append: "printed xs s s' \<Longrightarrow> printed ys s' s'' \<Longrightarrow> printed (xs @ ys) s s''"
  by (simp add: printed_def)

lemma putch_printed:
  assumes "tty_ok s" "ch \<noteq> 0x08"
  shows "\<exists>s'. tty_putch ch s = Some s' \<and> printed [ch] s s'"
proof -
  have "\<exists>s'. tty_putch ch s = Some s' \<and> tty_ok s' \<and> console s' = con_putch (console_w s) (color (handle s)) ch (console s)"
    using assms putch_printable [of s ch] putch_control [of s ch] by blast
  then show ?thesis using tty_putch_handle [OF _ assms(2)] by (fastforce simp: printed_def)
qed

lemma puts_loop_printed:
  assumes "tty_ok s" "holds m str xs" "0 \<notin> set xs" "0x08 \<notin> set xs" "length xs = n \<or> length xs < n \<and> m (str + of_nat (length xs)) = 0"
  shows "\<exists>s'. tty_puts_loop n m str count s = Some (count + of_nat (length xs), s') \<and> printed xs s s'"
  using assms
proof (induction xs arbitrary: s str n count)
  case Nil
  then show ?case by (cases n) (auto simp: printed_nil)
next
  case (Cons x xs)
  obtain k where n: "n = Suc k" using Cons.prems(5) by (cases n) auto
  from putch_printed [OF Cons.prems(1), of x] Cons.prems(4) obtain s1 where
    s1: "tty_putch x s = Some s1" "printed [x] s s1" by auto
  have h: "m str = x" "holds m (str + 1) xs"
    using Cons.prems(2) by (auto simp: holds_def All_less_Suc2 add.assoc)
  have "\<exists>s'. tty_puts_loop k m (str + 1) (count + 1) s1 = Some (count + 1 + of_nat (length xs), s') \<and> printed xs s1 s'"
    using Cons.prems n h s1(2) by (intro Cons.IH) (auto simp: printed_def add.assoc)
  then show ?case using s1 h(1) Cons.prems(3) n printed_append [OF s1(2)]
    by (auto simp: add.assoc)
qed

lemma puts_printed:
  assumes "tty_ok s" "holds m str xs" "0 \<notin> set xs" "0x08 \<notin> set xs"
    and "length xs = unat n \<or> length xs < unat n \<and> m (str + of_nat (length xs)) = 0"
  shows "\<exists>s'. tty_puts m str n s = Some (of_nat (length xs), s') \<and> printed xs s s'"
  using puts_loop_printed [OF assms, of 0] by (simp add: tty_puts_def)

lemma cstring_holds: "cstring_at m p xs \<Longrightarrow> holds m p xs \<and> 0 \<notin> set xs"
  by (auto simp: cstring_at_nth holds_def in_set_conv_nth)

section \<open>Numbers\<close>

lemma int_div_less: "0 < k \<Longrightarrow> (n :: int) div k < m \<longleftrightarrow> n < m * k"
proof
  assume k: "0 < k"
  show "n div k < m \<Longrightarrow> n < m * k"
  proof -
    assume "n div k < m"
    then have "(n div k + 1) * k \<le> m * k" using k by (intro mult_right_mono) auto
    moreover have "n < (n div k + 1) * k"
      using pos_mod_bound [OF k, of n] div_mult_mod_eq [of n k] unfolding distrib_right by linarith
    ultimately show ?thesis by linarith
  qed
  show "n < m * k \<Longrightarrow> n div k < m"
  proof (rule ccontr)
    assume n: "n < m * k" and "\<not> n div k < m"
    then have "m * k \<le> n div k * k" using k by (intro mult_right_mono) auto
    then show False using n pos_mod_sign [OF k, of n] div_mult_mod_eq [of n k] by linarith
  qed
qed

lemma push_digits_spec:
  assumes "0 \<le> n" "2 \<le> radix" "n < radix ^ k" "k \<le> 14" "\<And>d. 0 \<le> d \<Longrightarrow> d < radix \<Longrightarrow> digit d = digit_glyph d"
    and "unat (ptr b) = i" "k \<le> i" "i < 15" "unat (digitCount b) + k < 256"
  shows "\<exists>j b'. push_digits radix digit n b = Some b' \<and> j \<le> k \<and> n < radix ^ j \<and> (n = 0 \<longrightarrow> j = 0) \<and>
     (n > 0 \<longrightarrow> 0 < j \<and> radix ^ (j - 1) \<le> n) \<and>
     ptr b' = ptr b - of_nat j \<and> digitCount b' = digitCount b + of_nat j \<and>
     holds (numAsStr b') (ptr b' + 1) (numeral_chars radix j n) \<and>
     (\<forall>a > ptr b. numAsStr b' a = numAsStr b a)"
  using assms
proof (induction k arbitrary: n b i)
  case 0
  then show ?case by (intro exI [of _ 0]) (simp add: push_digits.simps holds_def numeral_chars_def)
next
  case (Suc k)
  show ?case
  proof (cases "n = 0")
    case True
    then show ?thesis by (intro exI [of _ 0]) (simp add: push_digits.simps holds_def numeral_chars_def)
  next
    case False
    let ?d = "digit_glyph (n mod radix)"
    let ?b = "\<lparr>numAsStr = (numAsStr b)(ptr b := ?d), ptr = ptr b - 1, digitCount = digitCount b + 1\<rparr>"
    have n: "0 < n" "0 \<le> n div radix" using False Suc.prems by (auto simp: pos_imp_zdiv_nonneg_iff)
    have lt: "n div radix < radix ^ k"
      using Suc.prems(2,3) by (simp add: int_div_less mult.commute)
    have pos: "ptr b \<noteq> 0" using Suc.prems(6,7) by auto
    have up: "unat (ptr ?b) = i - 1" using Suc.prems(6) pos by (simp add: unat_minus_one)
    have push: "push_digits radix digit n b = push_digits radix digit (n div radix) ?b"
      using n Suc.prems by (simp add: push_digits.simps [of radix digit n] push_digit_def word_less_nat_alt)
    have "\<exists>j b'. push_digits radix digit (n div radix) ?b = Some b' \<and> j \<le> k \<and> n div radix < radix ^ j \<and> (n div radix = 0 \<longrightarrow> j = 0) \<and>
       (n div radix > 0 \<longrightarrow> 0 < j \<and> radix ^ (j - 1) \<le> n div radix) \<and>
       ptr b' = ptr ?b - of_nat j \<and> digitCount b' = digitCount ?b + of_nat j \<and>
       holds (numAsStr b') (ptr b' + 1) (numeral_chars radix j (n div radix)) \<and>
       (\<forall>a > ptr ?b. numAsStr b' a = numAsStr ?b a)"
      using Suc.prems n lt up by (intro Suc.IH [where i = "i - 1"]) (auto simp: unat_word_ariths)
    then obtain j b' where r: "push_digits radix digit (n div radix) ?b = Some b'" "j \<le> k" "n div radix < radix ^ j"
        "n div radix = 0 \<longrightarrow> j = 0" "n div radix > 0 \<longrightarrow> 0 < j \<and> radix ^ (j - 1) \<le> n div radix"
        "ptr b' = ptr b - 1 - of_nat j" "digitCount b' = digitCount b + 1 + of_nat j"
        "holds (numAsStr b') (ptr b' + 1) (numeral_chars radix j (n div radix))"
        "\<forall>a > ptr b - 1. numAsStr b' a = ((numAsStr b)(ptr b := ?d)) a"
      unfolding digit_buffer.simps by blast
    have gt: "ptr b - 1 < ptr b" using up Suc.prems(6,7) by (simp add: word_less_nat_alt)
    have at: "ptr b' + 1 + of_nat j = ptr b" using r(6) by simp
    have "holds (numAsStr b') (ptr b' + 1) (numeral_chars radix (Suc j) n)"
      using r(8,9) gt at Suc.prems n by (auto simp: numeral_Suc holds_def nth_append less_Suc_eq)
    moreover have "n < radix ^ Suc j"
      using r(3) Suc.prems(2) by (simp add: int_div_less mult.commute)
    moreover have "radix ^ j \<le> n"
    proof (cases "n div radix = 0")
      case True
      then show ?thesis using r(4) n by simp
    next
      case nz: False
      then have "0 < j" "radix ^ (j - 1) \<le> n div radix" using r(5) n by auto
      then have "radix ^ (j - 1) * radix \<le> n" using Suc.prems(2) int_div_less [of radix n "radix ^ (j - 1)"] by linarith
      then show ?thesis using \<open>0 < j\<close> by (metis Suc_diff_1 power_Suc2)
    qed
    ultimately show ?thesis
      using push r n gt by (intro exI [of _ "Suc j"] exI [of _ b']) (auto intro: less_trans)
  qed
qed


lemma number_chars_ok:
  assumes "2 \<le> radix" "radix \<le> 16"
  shows "0 \<notin> set (numeral_chars radix n a)" "0x08 \<notin> set (numeral_chars radix n a)"
proof -
  show "0 \<notin> set (numeral_chars radix n a)" by (rule numeral_nonzero [OF assms])
  have "digit_glyph d \<noteq> 0x08" if "0 \<le> d" "d < 16" for d
    using glyph_range [OF that] by auto
  moreover have "0 \<le> b mod radix" "b mod radix < 16" for b
    using assms pos_mod_bound [of radix b] pos_mod_sign [of radix b] by linarith+
  ultimately show "0x08 \<notin> set (numeral_chars radix n a)" by (auto simp: numeral_chars_def dest: sym)
qed

lemma print_number_printed:
  assumes "tty_ok s" "radix = 10 \<or> radix = 16" "- (2 ^ 31) < a" "\<bar>a\<bar> < 2 ^ 32" "\<bar>a\<bar> < radix ^ 10"
    and "\<And>d. 0 \<le> d \<Longrightarrow> d < radix \<Longrightarrow> digit d = digit_glyph d"
  shows "\<exists>n s'. print_number radix digit a s = Some (of_nat (length (sign_chars a) + n), s') \<and> 0 < n \<and> n \<le> 10 \<and>
     \<bar>a\<bar> < radix ^ n \<and> (n = 1 \<or> radix ^ (n - 1) \<le> \<bar>a\<bar>) \<and>
     printed (sign_chars a @ numeral_chars radix n \<bar>a\<bar>) s s'"
proof -
  let ?b0 = "\<lparr>numAsStr = (\<lambda>_. 0), ptr = 13, digitCount = 0\<rparr>"
  have r: "2 \<le> radix" "radix \<le> 16" using assms(2) by auto
  have "\<exists>j b. push_digits radix digit \<bar>a\<bar> ?b0 = Some b \<and> j \<le> 10 \<and> \<bar>a\<bar> < radix ^ j \<and> (\<bar>a\<bar> = 0 \<longrightarrow> j = 0) \<and>
     (\<bar>a\<bar> > 0 \<longrightarrow> 0 < j \<and> radix ^ (j - 1) \<le> \<bar>a\<bar>) \<and> ptr b = ptr ?b0 - of_nat j \<and>
     digitCount b = digitCount ?b0 + of_nat j \<and> holds (numAsStr b) (ptr b + 1) (numeral_chars radix j \<bar>a\<bar>) \<and>
     (\<forall>x > ptr ?b0. numAsStr b x = numAsStr ?b0 x)"
    using assms r by (intro push_digits_spec [where i = 13]) auto
  then obtain j b where b: "push_digits radix digit \<bar>a\<bar> ?b0 = Some b" "j \<le> 10" "\<bar>a\<bar> < radix ^ j" "\<bar>a\<bar> = 0 \<longrightarrow> j = 0"
      "\<bar>a\<bar> > 0 \<longrightarrow> 0 < j \<and> radix ^ (j - 1) \<le> \<bar>a\<bar>" "ptr b = 13 - of_nat j" "digitCount b = of_nat j"
      "holds (numAsStr b) (ptr b + 1) (numeral_chars radix j \<bar>a\<bar>)"
    unfolding digit_buffer.simps add_0 by blast
  define n where "n = (if a = 0 then 1 else j)"
  define b2 where "b2 = (if a = 0 then b\<lparr>numAsStr := (numAsStr b)(13 := 0x30), ptr := 12, digitCount := 1\<rparr> else b)"
  have run: "(if a = 0 then push_digit 0x30 b else Some b) = Some b2"
    using b by (simp add: b2_def push_digit_def)
  have n: "0 < n" "n \<le> 10" "\<bar>a\<bar> < radix ^ n" "n = 1 \<or> radix ^ (n - 1) \<le> \<bar>a\<bar>"
    using b r by (auto simp: n_def)
  have b2: "digitCount b2 = of_nat n" "holds (numAsStr b2) (ptr b2 + 1) (numeral_chars radix n \<bar>a\<bar>)"
    using b by (auto simp: b2_def n_def holds_def numeral_chars_def digit_glyph_def)
  have dc: "unat (ucast (digitCount b2) :: u32) = n" "(ucast (digitCount b2) :: u32) = of_nat n"
    using n b2(1) by (auto simp: unat_of_nat word_unat_eq_iff unsigned_ucast_eq take_bit_nat_eq_self)
  have puts: "\<exists>s'. tty_puts (numAsStr b2) (ptr b2 + 1) (ucast (digitCount b2)) t = Some (of_nat n, s') \<and>
      printed (numeral_chars radix n \<bar>a\<bar>) t s'" if "tty_ok t" for t
    using puts_printed [OF that b2(2) number_chars_ok [OF r]] dc by simp
  have neg: "(if a < 0 then if a = - (2 ^ 31) then None else Some (- a) else Some a) = Some \<bar>a\<bar>" using assms(3) by auto
  show ?thesis
  proof (cases "a < 0")
    case True
    from putch_printed [OF assms(1), of "0x2D"] obtain s1 where s1: "tty_putch 0x2D s = Some s1" "printed [0x2D] s s1" by auto
    then have "tty_ok s1" by (simp add: printed_def)
    from puts [OF this] obtain s2 where s2: "tty_puts (numAsStr b2) (ptr b2 + 1) (ucast (digitCount b2)) s1 = Some (of_nat n, s2)"
        "printed (numeral_chars radix n \<bar>a\<bar>) s1 s2" by blast
    have "print_number radix digit a s = Some (of_nat n + 1, s2)"
      unfolding print_number_def neg using True b(1) run s1(1) s2(1) dc(2) by simp
    then show ?thesis using True n printed_append [OF s1(2) s2(2)]
      by (intro exI [of _ n] exI [of _ s2]) (auto simp: sign_chars_def)
  next
    case False
    from puts [OF assms(1)] obtain s2 where s2: "tty_puts (numAsStr b2) (ptr b2 + 1) (ucast (digitCount b2)) s = Some (of_nat n, s2)"
        "printed (numeral_chars radix n \<bar>a\<bar>) s s2" by blast
    have "print_number radix digit a s = Some (of_nat n, s2)"
      unfolding print_number_def neg using False b(1) run s2(1) dc(2) by simp
    then show ?thesis using False n s2(2)
      by (intro exI [of _ n] exI [of _ s2]) (auto simp: sign_chars_def)
  qed
qed


section \<open>Formats\<close>

text \<open>The numeral without leading zeros, and what a format prints: the characters and how many are counted.\<close>

function ndigits :: "int \<Rightarrow> int \<Rightarrow> nat" where
  "ndigits radix a = (if a < radix \<or> radix < 2 then 1 else Suc (ndigits radix (a div radix)))"
  by pat_completeness auto
termination
  by (relation "measure (\<lambda>(radix, a). nat a)") (auto simp: int_div_less_self)

declare ndigits.simps [simp del]

definition number_chars :: "int \<Rightarrow> int \<Rightarrow> u8 list" where
  "number_chars radix a = sign_chars a @ numeral_chars radix (ndigits radix \<bar>a\<bar>) \<bar>a\<bar>"

lemma ndigits_unique:
  assumes "0 \<le> a" "2 \<le> radix" "0 < n" "a < radix ^ n" "n = 1 \<or> radix ^ (n - 1) \<le> a"
  shows "n = ndigits radix a"
  using assms
proof (induction n arbitrary: a)
  case (Suc n)
  show ?case
  proof (cases "n = 0")
    case True
    then show ?thesis using Suc.prems by (simp add: ndigits.simps [of radix a])
  next
    case False
    then have le: "radix ^ n \<le> a" using Suc.prems(5) by simp
    have "radix ^ 1 \<le> radix ^ n" using False Suc.prems(2) by (intro power_increasing) auto
    then have big: "\<not> a < radix" using le by simp
    have "radix ^ (n - 1) * radix = radix ^ n" using False by (metis power_minus_mult gr0I)
    then have "radix ^ (n - 1) \<le> a div radix"
      using le Suc.prems(2) int_div_less [of radix a "radix ^ (n - 1)"] by linarith
    moreover have "a div radix < radix ^ n" using Suc.prems(2,4) by (simp add: int_div_less mult.commute)
    moreover have "0 \<le> a div radix" using Suc.prems by (simp add: pos_imp_zdiv_nonneg_iff)
    ultimately have "n = ndigits radix (a div radix)" using Suc.IH Suc.prems(2) False by auto
    then show ?thesis using big Suc.prems(2) by (simp add: ndigits.simps [of radix a])
  qed
qed simp

fun render :: "(u32 \<rightharpoonup> u8 list) \<Rightarrow> u8 list \<Rightarrow> u32 list \<Rightarrow> (u8 list \<times> nat) option" where
  "render strs [] args = Some ([], 0)"
| "render strs (c # f) args =
     (if c \<noteq> 0x25 then do { (xs, n) \<leftarrow> render strs f args; Some (c # xs, Suc n) }
      else (case f of
          [] \<Rightarrow> Some ([], 0)
        | k # f' \<Rightarrow>
            if k = 0x25 then do { (xs, n) \<leftarrow> render strs f' args; Some (0x25 # xs, Suc n) }
            else if k = 0x64 \<or> k = 0x78 \<or> k = 0x73 \<or> k = 0x63 then
              (case args of
                 [] \<Rightarrow> None
               | a # as \<Rightarrow> do {
                   (xs, n) \<leftarrow> render strs f' as;
                   if k = 0x64 then
                     if sint a = - (2 ^ 31) then None
                     else Some (number_chars 10 (sint a) @ xs, length (number_chars 10 (sint a)) + n)
                   else if k = 0x78 then Some (number_chars 16 (uint a) @ xs, length (number_chars 16 (uint a)) + n)
                   else if k = 0x73 then do { ys \<leftarrow> strs a; Some (ys @ xs, n) }
                   else Some (ucast a # xs, n)
                 })
            else render strs f' args))"

lemma print_decimal:
  assumes "tty_ok s" "sint (a :: u32) \<noteq> - (2 ^ 31)"
  shows "\<exists>s'. print_number 10 decimal_digit (sint a) s = Some (of_nat (length (number_chars 10 (sint a))), s') \<and>
     printed (number_chars 10 (sint a)) s s'"
proof -
  have "- (2 ^ 31) \<le> sint a" "sint a < 2 ^ 31" using sint_greater_eq [of a] sint_less [of a] by simp_all
  then have r: "- (2 ^ 31) < sint a" "\<bar>sint a\<bar> < 2 ^ 32" "\<bar>sint a\<bar> < 10 ^ 10" using assms(2) by auto
  obtain n s' where n: "print_number 10 decimal_digit (sint a) s = Some (of_nat (length (sign_chars (sint a)) + n), s')"
      "0 < n" "\<bar>sint a\<bar> < 10 ^ n" "n = 1 \<or> 10 ^ (n - 1) \<le> \<bar>sint a\<bar>"
      "printed (sign_chars (sint a) @ numeral_chars 10 n \<bar>sint a\<bar>) s s'"
    using print_number_printed [OF assms(1) _ r, of decimal_digit] by (auto simp: decimal_digit_def digit_char_def simp flip: digit_char_glyph)
  then have "n = ndigits 10 \<bar>sint a\<bar>" by (intro ndigits_unique) auto
  with n show ?thesis by (auto simp: number_chars_def)
qed

lemma print_hex:
  assumes "tty_ok s"
  shows "\<exists>s'. print_number 16 hex_digit (uint (a :: u32)) s = Some (of_nat (length (number_chars 16 (uint a))), s') \<and>
     printed (number_chars 16 (uint a)) s s'"
proof -
  have u: "0 \<le> uint a" "uint a < 2 ^ 32" using uint_lt2p [of a] by simp_all
  have "- (2 ^ 31) < uint a" by (rule less_le_trans [OF _ u(1)]) simp
  moreover have "\<bar>uint a\<bar> < 2 ^ 32" "\<bar>uint a\<bar> < 16 ^ 10" using u by simp_all
  ultimately have r: "- (2 ^ 31) < uint a" "\<bar>uint a\<bar> < 2 ^ 32" "\<bar>uint a\<bar> < 16 ^ 10" .
  have d: "hex_digit d = digit_glyph d" if "0 \<le> d" "d < 16" for d
    using that by (auto simp: hex_digit_def digit_char_def simp flip: digit_char_glyph)
  obtain n s' where n: "print_number 16 hex_digit (uint a) s = Some (of_nat (length (sign_chars (uint a)) + n), s')"
      "0 < n" "\<bar>uint a\<bar> < 16 ^ n" "n = 1 \<or> 16 ^ (n - 1) \<le> \<bar>uint a\<bar>"
      "printed (sign_chars (uint a) @ numeral_chars 16 n \<bar>uint a\<bar>) s s'"
    using print_number_printed [OF assms _ r, of hex_digit] d by auto
  then have "n = ndigits 16 \<bar>uint a\<bar>" by (intro ndigits_unique) auto
  with n show ?thesis by (auto simp: number_chars_def)
qed

lemma print_string:
  assumes "tty_ok s" "cstring_at m a xs" "length xs < 4294967296" "0x08 \<notin> set xs"
  shows "\<exists>len r s'. kaos_strlen m a = Some len \<and> tty_puts m a len s = Some (r, s') \<and> printed xs s s'"
proof -
  have "\<exists>s'. tty_puts m a (of_nat (length xs)) s = Some (of_nat (length xs), s') \<and> printed xs s s'"
    using assms cstring_holds [OF assms(2)] by (intro puts_printed) (auto simp: unat_of_nat_u32)
  then show ?thesis using kaos_strlen_cstring [OF assms(2)] by blast
qed


text \<open>One conversion of a format.\<close>

lemma printf_conversion:
  assumes "m p = 0x25" "m (p + 1) = k" "k \<in> {0x64, 0x78, 0x73, 0x63}" "tty_ok s" "0x08 \<notin> set ys"
    and "ys = (if k = 0x64 then number_chars 10 (sint a) else if k = 0x78 then number_chars 16 (uint a)
          else if k = 0x73 then zs else [ucast a])"
    and "k = 0x64 \<longrightarrow> sint a \<noteq> - (2 ^ 31)" "k = 0x73 \<longrightarrow> cstring_at m a zs \<and> length zs < 4294967296"
  shows "\<exists>s'. printed ys s s' \<and> preboot_printf_loop m p (a # as) count s =
     preboot_printf_loop m (2 + p) as (count + (if k = 0x64 \<or> k = 0x78 then of_nat (length ys) else 0)) s'"
proof -
  note loop = preboot_printf_loop.simps [of m p]
  from assms(3) consider "k = 0x64" | "k = 0x78" | "k = 0x73" | "k = 0x63" by blast
  then show ?thesis
  proof cases
    case 1
    then obtain s' where "print_number 10 decimal_digit (sint a) s = Some (of_nat (length ys), s')" "printed ys s s'"
      using print_decimal [OF assms(4)] assms(6,7) by auto
    then show ?thesis using assms(1,2) 1 by (intro exI [of _ s']) (simp add: loop)
  next
    case 2
    then obtain s' where "print_number 16 hex_digit (uint a) s = Some (of_nat (length ys), s')" "printed ys s s'"
      using print_hex [OF assms(4)] assms(6) by auto
    then show ?thesis using assms(1,2) 2 by (intro exI [of _ s']) (simp add: loop)
  next
    case 3
    then obtain len r s' where "kaos_strlen m a = Some len" "tty_puts m a len s = Some (r, s')" "printed ys s s'"
      using print_string [OF assms(4), of m a zs] assms(5,6,8) by auto
    then show ?thesis using assms(1,2) 3 by (intro exI [of _ s']) (simp add: loop)
  next
    case 4
    then obtain s' where "tty_putch (ucast a) s = Some s'" "printed ys s s'"
      using putch_printed [OF assms(4), of "ucast a"] assms(5,6) by auto
    then show ?thesis using assms(1,2) 4 by (intro exI [of _ s']) (simp add: loop)
  qed
qed

lemma printf_loop_printed:
  assumes "cstring_at m p f" "render strs f args = Some (xs, n)" "0x08 \<notin> set xs" "tty_ok s"
    and strs: "\<And>a ys. strs a = Some ys \<Longrightarrow> cstring_at m a ys \<and> length ys < 4294967296"
  shows "\<exists>s'. preboot_printf_loop m p args count s = Some (count + of_nat n, s') \<and> printed xs s s'"
  using assms(1-4)
proof (induction "length f" arbitrary: f args p xs n count s rule: less_induct)
  case less
  note loop = preboot_printf_loop.simps [of m p]
  have IH: "\<exists>s'. preboot_printf_loop m q as c t = Some (c + of_nat k, s') \<and> printed (ys @ zs) s s'"
    if "length g < length f" "cstring_at m q g" "render strs g as = Some (zs, k)" "0x08 \<notin> set zs" "printed ys s t"
    for g q as zs k ys t c
  proof -
    have "tty_ok t" using that(5) by (simp add: printed_def)
    with less.hyps [OF that(1,2,3,4)] obtain s' where
      "preboot_printf_loop m q as c t = Some (c + of_nat k, s')" "printed zs t s'" by blast
    then show ?thesis using printed_append [OF that(5)] by blast
  qed
  show ?case
  proof (cases f)
    case Nil
    then show ?thesis using less.prems by (simp add: loop printed_nil)
  next
    case (Cons c f1)
    show ?thesis
    proof (cases "c = 0x25")
      case False
      with less.prems(2) Cons obtain ys k where r: "render strs f1 args = Some (ys, k)" "xs = c # ys" "n = Suc k"
        by (auto simp: bind_eq_Some_conv)
      then obtain s1 where s1: "tty_putch c s = Some s1" "printed [c] s s1"
        using putch_printed [OF less.prems(4), of c] less.prems(3) by auto
      from IH [OF _ _ r(1) _ s1(2), of "p + 1" "count + 1"] less.prems Cons r show ?thesis
        using False s1(1) by (auto simp: loop add.assoc)
    next
      case pc: True
      show ?thesis
      proof (cases f1)
        case Nil
        then show ?thesis using less.prems Cons pc by (auto simp: loop printed_nil)
      next
        case (Cons k f2)
        note f = \<open>f = c # f1\<close> Cons pc
        have m: "m p = 0x25" "m (p + 1) = k" "k \<noteq> 0" "cstring_at m (2 + p) f2"
          using less.prems(1) f by auto
        consider "k = 0x25" | "k \<in> {0x64, 0x78, 0x73, 0x63}" | "k \<noteq> 0x25" "k \<notin> {0x64, 0x78, 0x73, 0x63}" by blast
        then show ?thesis
        proof cases
          case 1
          with less.prems(2) f obtain ys j where r: "render strs f2 args = Some (ys, j)" "xs = 0x25 # ys" "n = Suc j"
            by (auto simp: bind_eq_Some_conv)
          then obtain s1 where s1: "tty_putch 0x25 s = Some s1" "printed [0x25] s s1"
            using putch_printed [OF less.prems(4), of "0x25"] by auto
          have "count + 1 + of_nat j = count + of_nat n" using r(3) by simp
          with IH [OF _ m(4) r(1) _ s1(2), of "count + 1"] less.prems(3) f(1,2) r(2) show ?thesis
            using m 1 s1(1) by (auto simp: loop)
        next
          case 2
          then have k: "k \<noteq> 0x25" by auto
          obtain a as where a: "args = a # as" using less.prems(2) f 2 k by (auto split: list.splits)
          then obtain zs j ys where r: "render strs f2 as = Some (zs, j)" "xs = ys @ zs"
              "n = (if k = 0x64 \<or> k = 0x78 then length ys else 0) + j"
              "ys = (if k = 0x64 then number_chars 10 (sint a) else if k = 0x78 then number_chars 16 (uint a)
                else if k = 0x73 then the (strs a) else [ucast a])"
              "k = 0x64 \<longrightarrow> sint a \<noteq> - (2 ^ 31)" "k = 0x73 \<longrightarrow> strs a \<noteq> None"
            using less.prems(2) f 2 k by (auto simp: bind_eq_Some_conv split: if_splits)
          obtain s1 where s1: "printed ys s s1" "preboot_printf_loop m p (a # as) count s =
              preboot_printf_loop m (2 + p) as (count + (if k = 0x64 \<or> k = 0x78 then of_nat (length ys) else 0)) s1"
            using printf_conversion [OF m(1,2) 2 less.prems(4) _ r(4,5), of as count] strs r(2,6) less.prems(3) by auto
          from IH [OF _ m(4) r(1) _ s1(1), of "count + (if k = 0x64 \<or> k = 0x78 then of_nat (length ys) else 0)"] less.prems(3) f r(2)
          show ?thesis using a s1(2) r(2,3) by (auto simp: add.assoc)
        next
          case 3
          then have r: "render strs f2 args = Some (xs, n)" using less.prems(2) f by auto
          from IH [OF _ m(4) r _ printed_nil [OF less.prems(4)], of count] less.prems(3) f
          show ?thesis using m 3 by (auto simp: loop)
        qed
      qed
    qed
  qed
qed


section \<open>Properties\<close>

text \<open>
  C18: the console refines rows of cells: every character but the backspace is defined on a console whose
  cursor is on the screen, keeps the cursor on the screen, and changes rows and cursor as the
  abstract console does, which scrolls when the cursor leaves the last row.
\<close>

theorem tty_putch_refines:
  assumes "tty_ok s" "ch \<noteq> 0x08"
  shows "\<exists>s'. tty_putch ch s = Some s' \<and> tty_ok s' \<and>
     console s' = con_putch (console_w s) (color (handle s)) ch (console s)"
  using assms putch_printable [of s ch] putch_control [of s ch] by blast

definition boot_console :: tty_state where
  "boot_console = tty_init \<lparr>handle = \<lparr>width = 0, height = 0, cursorx = 0, cursory = 0, color = 0\<rparr>,
     cells = (\<lambda>_. 0x0720), vga_tty_initialized = False\<rparr>"

lemma boot_console_ok: "tty_ok boot_console" "console_w boot_console = 80" "color (handle boot_console) = 0"
    "console boot_console = Console (replicate 25 (replicate 80 0)) 0 0"
proof -
  show "tty_ok boot_console" "color (handle boot_console) = 0"
    by (simp_all add: boot_console_def tty_init_def arch_tty_init_def tty_ok_def)
  show w: "console_w boot_console = 80" by (simp add: boot_console_def tty_init_def arch_tty_init_def console_w_def)
  have c: "cells boot_console i = 0" if "i < 2000" for i
    using that by (simp add: boot_console_def tty_init_def arch_tty_init_def for_update_apply)
  have h: "handle boot_console = \<lparr>width = 80, height = 25, cursorx = 0, cursory = 0, color = 0\<rparr>"
    by (simp add: boot_console_def tty_init_def arch_tty_init_def)
  have "console_rows boot_console = replicate 25 (replicate 80 0)"
    by (rule nth_equalityI) (auto simp: h w c intro!: nth_equalityI)
  then show "console boot_console = Console (replicate 25 (replicate 80 0)) 0 0" by (simp add: console_def h)
qed

theorem tty_putch_refines_witness:
  "\<exists>s'. tty_putch 0x41 boot_console = Some s' \<and> tty_ok s' \<and>
     console s' = Console ((replicate 25 (replicate 80 0))[0 := (replicate 80 0)[0 := 0x41]]) 1 0"
  using tty_putch_refines [of boot_console "0x41"] boot_console_ok by (simp add: scast_eq)

text \<open>
  C19: \<^verbatim>\<open>kaos_preboot_printf\<close> prints what the format says: the text, \<^verbatim>\<open>%d\<close> and \<^verbatim>\<open>%x\<close> as
  numerals without leading zeros, strings and characters; the count it returns leaves out the latter two.
\<close>

theorem preboot_printf_renders:
  assumes "cstring_at m p f" "render strs f args = Some (xs, n)" "0x08 \<notin> set xs" "tty_ok s"
    and "\<And>a ys. strs a = Some ys \<Longrightarrow> cstring_at m a ys \<and> length ys < 4294967296"
  shows "\<exists>s'. kaos_preboot_printf m p args s = Some (of_nat n, s') \<and> tty_ok s' \<and>
     console s' = con_puts (console_w s) (color (handle s)) xs (console s)"
  using printf_loop_printed [OF assms, of 0] by (auto simp: kaos_preboot_printf_def printed_def)

theorem preboot_printf_renders_witness:
  "\<exists>s'. kaos_preboot_printf ((\<lambda>_. 0)(0x1000 := 0x25, 0x1001 := 0x64, 0x1002 := 0x21)) 0x1000 [0xFFFFFFFB] boot_console =
       Some (3, s') \<and> console s' = con_puts 80 0 [0x2D, 0x35, 0x21] (console boot_console)"
proof -
  have "number_chars 10 (- 5) = [0x2D, 0x35]"
    by (simp add: number_chars_def sign_chars_def ndigits.simps numeral_chars_def digit_glyph_def)
  then show ?thesis
    using preboot_printf_renders [of "(\<lambda>_. 0)(0x1000 := 0x25, 0x1001 := 0x64, 0x1002 := 0x21)" "0x1000" "[0x25, 0x64, 0x21]"
        "\<lambda>_. None" "[0xFFFFFFFB]" "[0x2D, 0x35, 0x21]" 3 boot_console] boot_console_ok by auto
qed

text \<open>The scan for the last character before a cell.\<close>

lemma backspace_scan_finds:
  assumes "j \<le> i" "int i < width h * height h" "c j AND 0xFF \<noteq> 0" "\<And>k. j < k \<Longrightarrow> k \<le> i \<Longrightarrow> c k AND 0xFF = 0"
  shows "backspace_scan h c (int i - cursory h * width h) = Some (int j - cursory h * width h)"
  using assms(1,2,4)
proof (induction "i - j" arbitrary: i)
  case 0
  then show ?case using assms(3) by (simp add: backspace_scan.simps cell_index_def)
next
  case (Suc n)
  then have lt: "j < i" by simp
  then have "backspace_scan h c (int i - cursory h * width h) = backspace_scan h c (int (i - 1) - cursory h * width h)"
    using Suc.prems by (subst backspace_scan.simps) (simp add: cell_index_def of_nat_diff algebra_simps)
  also have "\<dots> = Some (int j - cursory h * width h)"
    using Suc.prems Suc.hyps(2) lt by (intro Suc.hyps(1)) auto
  finally show ?case .
qed

text \<open>
  The backspace. Behind a character of the same row it erases that character, keeps its colour and
  moves the cursor back. At the start of the first row it accesses memory before the buffer. At the start
  of another row the cursor moves behind the last character of any row above, in a column counted from the
  row directly above and therefore negative when that row is empty.
\<close>

theorem tty_backspace_behaviour:
  assumes "tty_ok s"
  shows "if 0 < cursorx (handle s) then
       tty_putch 0x08 s = Some (s\<lparr>handle := handle s\<lparr>cursorx := cursorx (handle s) - 1\<rparr>,
         cells := (cells s)(nat (cursory (handle s)) * console_w s + nat (cursorx (handle s)) - 1 :=
           cells s (nat (cursory (handle s)) * console_w s + nat (cursorx (handle s)) - 1) AND 0xFF00)\<rparr>)
     else if cursory (handle s) = 0 then tty_putch 0x08 s = None
     else \<forall>j < nat (cursory (handle s)) * console_w s - 1.
       cells s j AND 0xFF \<noteq> 0 \<and> (\<forall>k. j < k \<and> k < nat (cursory (handle s)) * console_w s - 1 \<longrightarrow> cells s k AND 0xFF = 0) \<longrightarrow>
       map_option (cursorx \<circ> handle) (tty_putch 0x08 s) =
         Some (int j + 1 - (cursory (handle s) - 1) * width (handle s))"
proof -
  obtain w h x y where i: "width (handle s) = int w" "height (handle s) = int h" "cursorx (handle s) = int x" "cursory (handle s) = int y"
    using assms by (metis tty_ok_def zero_le_imp_eq_int less_imp_le)
  have b: "x < w" "y < h" using assms i by (auto simp: tty_ok_def)
  then have "y * w + x < h * w" by (intro table_index)
  then have lt: "int y * int w + int x < int w * int h" by (metis mult.commute of_nat_add of_nat_less_iff of_nat_mult)
  have run: "tty_putch 0x08 s = tty_backspace s" by (simp add: tty_putch_def Let_def)
  consider "0 < x" | "x = 0" "y = 0" | "x = 0" "0 < y" by linarith
  then show ?thesis
  proof cases
    case 1
    have "int y * int w + int x - 1 = int (y * w + x - 1)" using 1 by (simp add: of_nat_diff)
    moreover have "int (y * w + x - 1) < int w * int h" using lt 1 by (simp add: of_nat_diff)
    ultimately have "cell_index (handle s) (int y * int w + int x - 1) = Some (y * w + x - 1)"
      by (simp add: cell_index_def i)
    then show ?thesis using 1 by (simp add: run tty_backspace_def i console_w_def Let_def)
  next
    case 2
    then show ?thesis by (simp add: run tty_backspace_def i cell_index_def)
  next
    case 3
    let ?i = "y * w - 1"
    let ?c = "(cells s)(?i := cells s ?i AND 0xFF00)"
    have yw: "0 < y * w" using 3 b by simp
    have di: "int ?i = int y * int w - 1" using yw by (simp add: of_nat_diff)
    have il: "int ?i < int w * int h"
    proof -
      have "?i < y * w + x" using yw by linarith
      also have "\<dots> < w * h" using \<open>y * w + x < h * w\<close> by (simp add: mult.commute)
      finally show ?thesis by (metis of_nat_less_iff of_nat_mult)
    qed
    with di have ci: "cell_index (handle s) (int y * int w - 1) = Some ?i" by (simp add: cell_index_def i)
    have "map_option (cursorx \<circ> handle) (tty_putch 0x08 s) = Some (int j + 1 - (int y - 1) * int w)"
      if j: "j < ?i" "cells s j AND 0xFF \<noteq> 0" "\<And>k. j < k \<and> k < ?i \<Longrightarrow> cells s k AND 0xFF = 0" for j
    proof -
      have at: "int w - 1 = int ?i - (int y - 1) * int w" using yw by (simp add: of_nat_diff algebra_simps)
      have "(cells s ?i AND 0xFF00) AND 0xFF = 0" by (simp add: and.assoc)
      then have e: "?c k AND 0xFF = 0" if "j < k" "k \<le> ?i" for k using that j(3) by (cases "k = ?i") auto
      have "backspace_scan (handle s\<lparr>cursory := int y - 1\<rparr>) ?c (int w - 1) = Some (int j - (int y - 1) * int w)"
        using backspace_scan_finds [of j ?i "handle s\<lparr>cursory := int y - 1\<rparr>" ?c] j e il
        by (simp add: i at of_nat_diff)
      then show ?thesis using 3 by (simp add: run tty_backspace_def i ci Let_def)
    qed
    then show ?thesis using 3 by (simp add: i console_w_def)
  qed
qed

theorem tty_backspace_behaviour_witness:
  "map_option (cursorx \<circ> handle) (tty_putch 0x08 (boot_console\<lparr>handle := \<lparr>width = 80, height = 25, cursorx = 0, cursory = 2, color = 0\<rparr>,
     cells := (cells boot_console)(0 := 0x41)\<rparr>)) = Some (- 79)"
proof -
  let ?s = "boot_console\<lparr>handle := \<lparr>width = 80, height = 25, cursorx = 0, cursory = 2, color = 0\<rparr>,
     cells := (cells boot_console)(0 := 0x41)\<rparr>"
  have "cells boot_console k = 0" if "k < 2000" for k
    using that by (simp add: boot_console_def tty_init_def arch_tty_init_def for_update_apply)
  then have *: "\<forall>j<159. cells ?s j AND 0xFF \<noteq> 0 \<and> (\<forall>k. j < k \<and> k < 159 \<longrightarrow> cells ?s k AND 0xFF = 0) \<longrightarrow>
      map_option (cursorx \<circ> handle) (tty_putch 0x08 ?s) = Some (int j + 1 - 80)"
    using tty_backspace_behaviour [of ?s] by (simp add: tty_ok_def console_w_def)
  show ?thesis using * [rule_format, of 0] \<open>\<And>k. k < 2000 \<Longrightarrow> cells boot_console k = 0\<close> by auto
qed

end
