(* ===== verification/Interrupts.thy ===== *)
theory Interrupts
  imports Tty PortIo
begin

text \<open>
  Interrupts: the descriptor table \<^verbatim>\<open>src/kernel/arch/i686/interrupts/interrupts.c\<close>, the interrupt
  controllers \<^verbatim>\<open>irq.c\<close> beside it, and the table of handlers \<^verbatim>\<open>src/kernel/interrupts.c\<close>.

  A function pointer is a name of type \<open>'h\<close>, and the parameter \<open>call\<close> says what the named handler does; the entry
  points \<^verbatim>\<open>_isr0\<close> to \<^verbatim>\<open>_isr128\<close> are assembly code, and \<open>isr\<close> gives their addresses. The
  pointers \<^verbatim>\<open>intHandler\<close> and \<^verbatim>\<open>generic_syscall_handler\<close> only ever point to one function each, so that it
  is enough to know whether they are set.
\<close>

section \<open>State\<close>

datatype int_return_t = INT_RETURN_NO_ERROR | INT_RETURN_UNIDENTIFIED_ERROR | INT_RETURN_WRONG_HANDLER

record IDTEntry =
  offset1 :: u16
  selector :: u16
  gate_reserved :: u8
  gate_flags :: u8
  offset2 :: u16

record IDTInfo =
  idt_size :: u16
  idt_offset :: u32

record X86InterruptStackFrame =
  frame_edi :: u32
  frame_esi :: u32
  frame_ebx :: u32
  frame_edx :: u32
  frame_ecx :: u32
  frame_eax :: u32
  int_no :: u32
  err_code :: u32

record ('h, 'w) int_state =
  idtEntries :: "nat \<Rightarrow> IDTEntry"
  idtInfo :: IDTInfo
  intHandler_set :: bool
  syscall_handler_set :: bool
  intHandlers :: "nat \<Rightarrow> 'h option"
  interrupt_flag :: bool
  int_tty :: tty_state
  int_ports :: 'w

definition int_outb :: "'w port_io \<Rightarrow> u16 \<Rightarrow> u8 \<Rightarrow> ('h, 'w) int_state \<Rightarrow> ('h, 'w) int_state" where
  "int_outb io addr val s = s\<lparr>int_ports := outb io addr val (int_ports s)\<rparr>"

definition int_inb :: "'w port_io \<Rightarrow> u16 \<Rightarrow> ('h, 'w) int_state \<Rightarrow> u8 \<times> ('h, 'w) int_state" where
  "int_inb io addr s = (let (v, w) = inb io addr (int_ports s) in (v, s\<lparr>int_ports := w\<rparr>))"

section \<open>Interrupt controllers\<close>

definition PIC1_COMMAND :: u16 where "PIC1_COMMAND = 0x20"
definition PIC2_COMMAND :: u16 where "PIC2_COMMAND = 0xA0"
definition PIC1_DATA :: u16 where "PIC1_DATA = 0x21"
definition PIC2_DATA :: u16 where "PIC2_DATA = 0xA1"

definition setup_pic :: "'w port_io \<Rightarrow> u8 \<Rightarrow> u8 \<Rightarrow> ('h, 'w) int_state \<Rightarrow> ('h, 'w) int_state" where
  "setup_pic io pic1offset pic2offset s =
     fold (\<lambda>(addr, val). int_outb io addr val)
       [(PIC1_COMMAND, 0x11), (PIC2_COMMAND, 0x11),
        (PIC1_DATA, pic1offset), (PIC2_DATA, pic2offset),
        (PIC1_DATA, 4), (PIC2_DATA, 2),
        (PIC1_DATA, 0x01), (PIC2_DATA, 0x01),
        (PIC1_DATA, NOT 0x02), (PIC2_DATA, NOT 0x80)] s"

definition arch_irq_enable :: "'w port_io \<Rightarrow> u16 \<Rightarrow> ('h, 'w) int_state \<Rightarrow> SYS_RET \<times> ('h, 'w) int_state" where
  "arch_irq_enable io gate s =
     (if gate < 8 then
        (let (mask, s1) = int_inb io PIC1_DATA s
         in (SYS_RET_NO_ERROR, int_outb io PIC1_DATA (mask AND NOT (push_bit (unat gate) 1)) s1))
      else if gate < 16 then
        (let (mask, s1) = int_inb io PIC2_DATA s
         in (SYS_RET_NO_ERROR, int_outb io PIC2_DATA (mask AND NOT (push_bit (unat (gate - 8)) 1)) s1))
      else (SYS_RET_OUT_OF_RANGE, s))"

definition arch_irq_disable :: "'w port_io \<Rightarrow> u16 \<Rightarrow> ('h, 'w) int_state \<Rightarrow> SYS_RET \<times> ('h, 'w) int_state" where
  "arch_irq_disable io gate s =
     (if gate < 8 then
        (let (mask, s1) = int_inb io PIC1_DATA s
         in (SYS_RET_NO_ERROR, int_outb io PIC1_DATA (mask OR push_bit (unat gate) 1) s1))
      else if gate < 16 then
        (let (mask, s1) = int_inb io PIC2_DATA s
         in (SYS_RET_NO_ERROR, int_outb io PIC2_DATA (mask OR push_bit (unat (gate - 8)) 1) s1))
      else (SYS_RET_OUT_OF_RANGE, s))"

definition arch_irq_initialize :: "'w port_io \<Rightarrow> ('h, 'w) int_state \<Rightarrow> SYS_RET \<times> ('h, 'w) int_state" where
  "arch_irq_initialize io s = (SYS_RET_NO_ERROR, setup_pic io 32 40 s)"

section \<open>The descriptor table\<close>

definition prepareInterruptGate :: "u8 \<Rightarrow> u32 \<Rightarrow> u16 \<Rightarrow> u8 \<Rightarrow> ('h, 'w) int_state \<Rightarrow> ('h, 'w) int_state" where
  "prepareInterruptGate gate handler sel fl s =
     s\<lparr>idtEntries := (idtEntries s)(unat gate :=
        \<lparr>offset1 = ucast (handler AND 0xFFFF), selector = sel, gate_reserved = 0, gate_flags = fl,
         offset2 = ucast (drop_bit 16 handler)\<rparr>)\<rparr>"

definition lidt :: "u32 \<Rightarrow> u16 \<Rightarrow> ('h, 'w) int_state \<Rightarrow> ('h, 'w) int_state" where
  "lidt base sz s = s\<lparr>idtInfo := \<lparr>idt_size = sz, idt_offset = base\<rparr>\<rparr>"

text \<open>One call for each of the vectors 0 to 47, and one for 128.\<close>

definition arch_interrupts_init ::
  "'w port_io \<Rightarrow> (nat \<Rightarrow> u32) \<Rightarrow> u32 \<Rightarrow> ('h, 'w) int_state \<Rightarrow> SYS_RET \<times> ('h, 'w) int_state" where
  "arch_interrupts_init io isr idt_address s =
     (let s1 = fold (\<lambda>n. prepareInterruptGate (of_nat n) (isr n) 0x10 0x8E) ([0..<48] @ [128]) s;
          (ret, s2) = arch_irq_initialize io s1
      in if ret \<noteq> SYS_RET_NO_ERROR then (ret, s2)
         else (SYS_RET_NO_ERROR, lidt idt_address (256 * 8 - 1) s2))"

definition arch_interrupts_enableinterrupts :: "('h, 'w) int_state \<Rightarrow> SYS_RET \<times> ('h, 'w) int_state" where
  "arch_interrupts_enableinterrupts s = (SYS_RET_NO_ERROR, s\<lparr>interrupt_flag := True\<rparr>)"

definition arch_interrupts_disableinterrupts :: "('h, 'w) int_state \<Rightarrow> SYS_RET \<times> ('h, 'w) int_state" where
  "arch_interrupts_disableinterrupts s = (SYS_RET_NO_ERROR, s\<lparr>interrupt_flag := False\<rparr>)"

definition arch_interrupts_enablegate :: "'w port_io \<Rightarrow> int \<Rightarrow> ('h, 'w) int_state \<Rightarrow> SYS_RET \<times> ('h, 'w) int_state" where
  "arch_interrupts_enablegate io gate s =
     (SYS_RET_NO_ERROR, if gate \<ge> 32 \<and> gate < 48 then snd (arch_irq_enable io (word_of_int (gate - 32)) s) else s)"

definition arch_interrupts_disablegate :: "'w port_io \<Rightarrow> int \<Rightarrow> ('h, 'w) int_state \<Rightarrow> SYS_RET \<times> ('h, 'w) int_state" where
  "arch_interrupts_disablegate io gate s =
     (SYS_RET_NO_ERROR, if gate \<ge> 32 \<and> gate < 48 then snd (arch_irq_disable io (word_of_int (gate - 32)) s) else s)"

definition arch_interrupts_setgenerichandler :: "('h, 'w) int_state \<Rightarrow> SYS_RET \<times> ('h, 'w) int_state" where
  "arch_interrupts_setgenerichandler s = (SYS_RET_NO_ERROR, s\<lparr>intHandler_set := True\<rparr>)"

definition arch_set_syscall_handler :: "('h, 'w) int_state \<Rightarrow> SYS_RET \<times> ('h, 'w) int_state" where
  "arch_set_syscall_handler s = (SYS_RET_NO_ERROR, s\<lparr>syscall_handler_set := True\<rparr>)"

section \<open>The table of handlers\<close>

definition interrupts_enableinterrupts :: "('h, 'w) int_state \<Rightarrow> SYS_RET \<times> ('h, 'w) int_state" where
  "interrupts_enableinterrupts s = arch_interrupts_enableinterrupts s"

definition interrupts_disableinterrupts :: "('h, 'w) int_state \<Rightarrow> SYS_RET \<times> ('h, 'w) int_state" where
  "interrupts_disableinterrupts s = arch_interrupts_disableinterrupts s"

definition interrupts_enablegate :: "'w port_io \<Rightarrow> int \<Rightarrow> ('h, 'w) int_state \<Rightarrow> SYS_RET \<times> ('h, 'w) int_state" where
  "interrupts_enablegate io gate s = arch_interrupts_enablegate io gate s"

definition interrupts_disablegate :: "'w port_io \<Rightarrow> int \<Rightarrow> ('h, 'w) int_state \<Rightarrow> SYS_RET \<times> ('h, 'w) int_state" where
  "interrupts_disablegate io gate s = arch_interrupts_disablegate io gate s"

definition interrupts_sethandler :: "int \<Rightarrow> 'h \<Rightarrow> ('h, 'w) int_state \<Rightarrow> (SYS_RET \<times> ('h, 'w) int_state) option" where
  "interrupts_sethandler gate handler s =
     (if 0 \<le> gate \<and> gate < 256
      then Some (SYS_RET_NO_ERROR, s\<lparr>intHandlers := (intHandlers s)(nat gate \<mapsto> handler)\<rparr>)
      else None)"

definition interrupts_clearhandler :: "int \<Rightarrow> ('h, 'w) int_state \<Rightarrow> SYS_RET \<times> ('h, 'w) int_state" where
  "interrupts_clearhandler gate s = (SYS_RET_NO_ERROR, s)"

definition interrupts_init ::
  "'w port_io \<Rightarrow> (nat \<Rightarrow> u32) \<Rightarrow> u32 \<Rightarrow> 'h \<Rightarrow> ('h, 'w) int_state \<Rightarrow> (SYS_RET \<times> ('h, 'w) int_state) option" where
  "interrupts_init io isr idt_address syscall_initial_handler s =
     (let s1 = snd (interrupts_disableinterrupts s);
          s2 = s1\<lparr>intHandlers := for_update 0 0 256 (\<lambda>_ _. None) (intHandlers s1)\<rparr>;
          (retVal, s3) = arch_interrupts_init io isr idt_address s2
      in if retVal \<noteq> SYS_RET_NO_ERROR then Some (retVal, s3)
         else do {
           let s4 = snd (arch_interrupts_setgenerichandler s3);
           let s5 = snd (arch_set_syscall_handler s4);
           (_, s6) \<leftarrow> interrupts_sethandler 0x80 syscall_initial_handler s5;
           Some (SYS_RET_NO_ERROR, s6)
         })"

text \<open>
  The dispatcher. Without a handler the kernel prints a message and loops for ever, which is \<open>None\<close>; the handler's
  own result is ignored.
\<close>

type_synonym ('h, 'w) caller =
  "'h \<Rightarrow> u32 \<Rightarrow> u32 \<Rightarrow> X86InterruptStackFrame option \<Rightarrow> ('h, 'w) int_state \<Rightarrow> (int_return_t \<times> ('h, 'w) int_state) option"

definition interrupts_generic_handler ::
  "('h, 'w) caller \<Rightarrow> u32 \<Rightarrow> u32 \<Rightarrow> X86InterruptStackFrame option \<Rightarrow> ('h, 'w) int_state \<Rightarrow> ('h, 'w) int_state option" where
  "interrupts_generic_handler call int_number err frame s =
     (if int_number < 256 then
        (case intHandlers s (unat int_number) of
           Some h \<Rightarrow> map_option snd (call h int_number err frame s)
         | None \<Rightarrow> None)
      else None)"

definition arch_irq_generic_handler ::
  "'w port_io \<Rightarrow> ('h, 'w) caller \<Rightarrow> u32 \<Rightarrow> ('h, 'w) int_state \<Rightarrow> ('h, 'w) int_state option" where
  "arch_irq_generic_handler io call intNo s = do {
     s1 \<leftarrow> interrupts_generic_handler call intNo 0 None s;
     let s2 = (if intNo > 39 then int_outb io PIC2_COMMAND 0x20 s1 else s1);
     Some (int_outb io PIC1_COMMAND 0x20 s2)
   }"

definition arch_interrupt_handler ::
  "'w port_io \<Rightarrow> ('h, 'w) caller \<Rightarrow> X86InterruptStackFrame \<Rightarrow> ('h, 'w) int_state \<Rightarrow> ('h, 'w) int_state option" where
  "arch_interrupt_handler io call frame s =
     (if \<not> intHandler_set s then None
      else if int_no frame > 31 \<and> int_no frame < 48 then arch_irq_generic_handler io call (int_no frame) s
      else interrupts_generic_handler call (int_no frame) (err_code frame) (Some frame) s)"

text \<open>
  The handler of vector 128 passes the number of the call and five parameters on to \<open>sys\<close>, the
  handler that \<^verbatim>\<open>generic_syscall_handler\<close> points to.
\<close>

definition syscall_initial_handler ::
  "(u32 \<Rightarrow> u32 list \<Rightarrow> ('h, 'w) int_state \<Rightarrow> ('h, 'w) int_state option) \<Rightarrow> X86InterruptStackFrame option \<Rightarrow>
     ('h, 'w) int_state \<Rightarrow> (int_return_t \<times> ('h, 'w) int_state) option" where
  "syscall_initial_handler sys frame s = do {
     f \<leftarrow> frame;
     if syscall_handler_set s then do {
       s1 \<leftarrow> sys (frame_eax f) [frame_edi f, frame_esi f, frame_ebx f, frame_ecx f, frame_edx f] s;
       Some (INT_RETURN_NO_ERROR, s1)
     }
     else None
   }"

section \<open>The descriptor table after initialisation\<close>

text \<open>The address that the processor jumps to for a vector, and the vectors that have an entry point.\<close>

definition gate_target :: "IDTEntry \<Rightarrow> u32" where
  "gate_target e = push_bit 16 (ucast (offset2 e)) OR ucast (offset1 e)"

definition has_isr :: "nat \<Rightarrow> bool" where
  "has_isr n \<longleftrightarrow> n < 48 \<or> n = 128"

lemma halves_word: "push_bit 16 (ucast (ucast (drop_bit 16 a) :: u16)) OR ucast (ucast (a AND 0xFFFF) :: u16) = (a :: u32)"
proof (rule bit_word_eqI)
  fix n assume n: "n < LENGTH(32)"
  have m: "(0xFFFF :: u32) = mask 16" by (simp add: mask_eq_exp_minus_1)
  show "bit (push_bit 16 (ucast (ucast (drop_bit 16 a) :: u16)) OR ucast (ucast (a AND 0xFFFF) :: u16) :: u32) n = bit a n"
    using n unfolding m
    by (auto simp: bit_or_iff bit_push_bit_iff bit_unsigned_iff bit_drop_bit_eq bit_and_iff bit_mask_iff not_less)
qed

lemma gate_target_split:
  "gate_target \<lparr>offset1 = ucast (a AND 0xFFFF), selector = sel, gate_reserved = 0, gate_flags = fl,
     offset2 = ucast (drop_bit 16 a)\<rparr> = a"
  by (simp add: gate_target_def halves_word)

lemma gates_fold:
  assumes "\<forall>n \<in> set ns. n < 256"
  shows "idtEntries (fold (\<lambda>n. prepareInterruptGate (of_nat n) (isr n) sel fl) ns s) k =
      (if k \<in> set ns then \<lparr>offset1 = ucast (isr k AND 0xFFFF), selector = sel, gate_reserved = 0, gate_flags = fl,
         offset2 = ucast (drop_bit 16 (isr k))\<rparr> else idtEntries s k)"
  using assms
  by (induction ns arbitrary: s) (auto simp: prepareInterruptGate_def unat_of_nat)

lemma gates_fold_frame:
  "fold (\<lambda>n. prepareInterruptGate (of_nat n) (isr n) sel fl) ns s =
      s\<lparr>idtEntries := idtEntries (fold (\<lambda>n. prepareInterruptGate (of_nat n) (isr n) sel fl) ns s)\<rparr>"
proof (induction ns arbitrary: s)
  case (Cons n ns)
  show ?case using Cons [of "prepareInterruptGate (of_nat n) (isr n) sel fl s"] by (simp add: prepareInterruptGate_def)
qed simp

lemma setup_pic_frame: "setup_pic io a b s = s\<lparr>int_ports := int_ports (setup_pic io a b s)\<rparr>"
  by (simp add: setup_pic_def int_outb_def)

lemma arch_interrupts_init_eq:
  "\<exists>s'. arch_interrupts_init io isr base s = (SYS_RET_NO_ERROR, s') \<and>
    s' = s\<lparr>idtEntries := (\<lambda>k. if has_isr k then \<lparr>offset1 = ucast (isr k AND 0xFFFF), selector = 0x10, gate_reserved = 0,
            gate_flags = 0x8E, offset2 = ucast (drop_bit 16 (isr k))\<rparr> else idtEntries s k),
          idtInfo := \<lparr>idt_size = 2047, idt_offset = base\<rparr>,
          int_ports := int_ports (setup_pic io 32 40 s)\<rparr>"
proof -
  let ?ns = "[0..<48] @ [128]"
  let ?s1 = "fold (\<lambda>n. prepareInterruptGate (of_nat n) (isr n) 0x10 0x8E) ?ns s"
  have ns: "\<forall>n \<in> set ?ns. n < 256" by auto
  have e: "idtEntries ?s1 = (\<lambda>k. if has_isr k then \<lparr>offset1 = ucast (isr k AND 0xFFFF), selector = 0x10, gate_reserved = 0,
            gate_flags = 0x8E, offset2 = ucast (drop_bit 16 (isr k))\<rparr> else idtEntries s k)"
    using gates_fold [OF ns, of isr "0x10" "0x8E" s] by (auto simp: has_isr_def fun_eq_iff)
  have "?s1 = s\<lparr>idtEntries := idtEntries ?s1\<rparr>" by (rule gates_fold_frame)
  then have s1: "?s1 = s\<lparr>idtEntries := (\<lambda>k. if has_isr k then \<lparr>offset1 = ucast (isr k AND 0xFFFF), selector = 0x10, gate_reserved = 0,
            gate_flags = 0x8E, offset2 = ucast (drop_bit 16 (isr k))\<rparr> else idtEntries s k)\<rparr>" unfolding e .
  show ?thesis
    unfolding arch_interrupts_init_def Let_def s1
    by (simp add: arch_irq_initialize_def lidt_def setup_pic_def int_outb_def)
qed

text \<open>What the controllers are sent, and the whole state after the initialisation.\<close>

definition pic_program :: "(u16 \<times> u8) list" where
  "pic_program = [(0x20, 0x11), (0xA0, 0x11), (0x21, 32), (0xA1, 40), (0x21, 4), (0xA1, 2), (0x21, 1), (0xA1, 1), (0x21, 0xFD), (0xA1, 0x7F)]"

lemma interrupts_init_state:
  "interrupts_init io isr base h s = Some (SYS_RET_NO_ERROR, s\<lparr>interrupt_flag := False,
     idtEntries := (\<lambda>k. if has_isr k then \<lparr>offset1 = ucast (isr k AND 0xFFFF), selector = 0x10, gate_reserved = 0,
            gate_flags = 0x8E, offset2 = ucast (drop_bit 16 (isr k))\<rparr> else idtEntries s k),
     idtInfo := \<lparr>idt_size = 2047, idt_offset = base\<rparr>, int_ports := fold (\<lambda>(a, v). outb io a v) pic_program (int_ports s),
     intHandler_set := True, syscall_handler_set := True, intHandlers := (for_update 0 0 256 (\<lambda>_ _. None) (intHandlers s))(128 \<mapsto> h)\<rparr>)"
proof -
  define s2 where "s2 = s\<lparr>interrupt_flag := False, intHandlers := for_update 0 0 256 (\<lambda>_ _. None) (intHandlers s)\<rparr>"
  obtain s3 where s3: "arch_interrupts_init io isr base s2 = (SYS_RET_NO_ERROR, s3)"
     "s3 = s2\<lparr>idtEntries := (\<lambda>k. if has_isr k then \<lparr>offset1 = ucast (isr k AND 0xFFFF), selector = 0x10, gate_reserved = 0,
            gate_flags = 0x8E, offset2 = ucast (drop_bit 16 (isr k))\<rparr> else idtEntries s2 k),
          idtInfo := \<lparr>idt_size = 2047, idt_offset = base\<rparr>, int_ports := int_ports (setup_pic io 32 40 s2)\<rparr>"
    using arch_interrupts_init_eq [of io isr base s2] by blast
  have not_masks: "(- 3 :: u8) = 0xFD" "(- 129 :: u8) = 0x7F" by simp_all
  have pic: "int_ports (setup_pic io 32 40 s2) = fold (\<lambda>(a, v). outb io a v) pic_program (int_ports s)"
    by (simp add: pic_program_def not_masks setup_pic_def int_outb_def s2_def PIC1_COMMAND_def PIC2_COMMAND_def PIC1_DATA_def PIC2_DATA_def)
  show ?thesis
    using s3 pic by (simp add: interrupts_init_def interrupts_disableinterrupts_def arch_interrupts_disableinterrupts_def s2_def Let_def
        arch_interrupts_setgenerichandler_def arch_set_syscall_handler_def interrupts_sethandler_def cong: if_cong)
qed

text \<open>
  C23: initialisation fills the interrupt descriptor table so that the vectors 0 to 47 and 128, and no others, lead
  the processor to their entry points through present interrupt gates of the kernel's code segment;
  it leaves interrupts off, every handler but that of system calls unset, and the two controllers programmed
  to the vectors from 32 and from 40 on.
\<close>

theorem interrupts_init_effect:
  "\<exists>s'. interrupts_init io isr base h s = Some (SYS_RET_NO_ERROR, s') \<and>
     (\<forall>n. has_isr n \<longrightarrow> gate_target (idtEntries s' n) = isr n \<and> selector (idtEntries s' n) = 0x10 \<and>
        gate_flags (idtEntries s' n) = 0x8E) \<and>
     (\<forall>n. \<not> has_isr n \<longrightarrow> idtEntries s' n = idtEntries s n) \<and>
     idtInfo s' = \<lparr>idt_size = 2047, idt_offset = base\<rparr> \<and>
     (\<forall>n < 256. intHandlers s' n = (if n = 128 then Some h else None)) \<and>
     \<not> interrupt_flag s' \<and> intHandler_set s' \<and> syscall_handler_set s' \<and>
     int_ports s' = fold (\<lambda>(a, v). outb io a v)
       [(0x20, 0x11), (0xA0, 0x11), (0x21, 32), (0xA1, 40), (0x21, 4), (0xA1, 2), (0x21, 1), (0xA1, 1),
        (0x21, 0xFD), (0xA1, 0x7F)] (int_ports s)"
  by (simp add: interrupts_init_state gate_target_split for_update_apply pic_program_def)

text \<open>A device that records what is written to its ports.\<close>

definition log_io :: "(u16 \<times> u8) list port_io" where
  "log_io = \<lparr>in8 = (\<lambda>a w. (0, w)), out8 = (\<lambda>a v w. w @ [(a, v)]), in16 = (\<lambda>a w. (0, w)), out16 = (\<lambda>a v w. w),
     in32 = (\<lambda>a w. (0, w)), out32 = (\<lambda>a v w. w)\<rparr>"

definition blank_interrupts :: "'w \<Rightarrow> (nat, 'w) int_state" where
  "blank_interrupts w = \<lparr>idtEntries = (\<lambda>_. \<lparr>offset1 = 0, selector = 0, gate_reserved = 0, gate_flags = 0, offset2 = 0\<rparr>),
     idtInfo = \<lparr>idt_size = 0, idt_offset = 0\<rparr>, intHandler_set = False, syscall_handler_set = False,
     intHandlers = (\<lambda>_. None), interrupt_flag = True, int_tty = boot_console, int_ports = w\<rparr>"

theorem interrupts_init_effect_witness:
  "\<exists>s'. interrupts_init log_io (\<lambda>n. 0x100000 + of_nat n) 0x5000 7 (blank_interrupts []) = Some (SYS_RET_NO_ERROR, s') \<and>
     gate_target (idtEntries s' 33) = 0x100021 \<and> gate_flags (idtEntries s' 48) = 0 \<and> intHandlers s' 128 = Some 7 \<and>
     int_ports s' = [(0x20, 0x11), (0xA0, 0x11), (0x21, 32), (0xA1, 40), (0x21, 4), (0xA1, 2), (0x21, 1), (0xA1, 1),
        (0x21, 0xFD), (0xA1, 0x7F)]"
  using interrupts_init_effect [of log_io "\<lambda>n. 0x100000 + of_nat n" "0x5000" 7 "blank_interrupts []"]
  by (auto simp: has_isr_def blank_interrupts_def log_io_def outb_def)

section \<open>Masks of the controllers\<close>

text \<open>
  What the controllers promise once they are initialised: the data port reads as the mask of the chip, and writing
  it sets that mask and nothing else.
\<close>

definition pic_laws :: "'w port_io \<Rightarrow> ('w \<Rightarrow> bool) \<Rightarrow> ('w \<Rightarrow> u8) \<Rightarrow> ('w \<Rightarrow> u8) \<Rightarrow> bool" where
  "pic_laws io ready mask1 mask2 \<longleftrightarrow>
     (\<forall>w. ready w \<longrightarrow> in8 io 0x21 w = (mask1 w, w) \<and> in8 io 0xA1 w = (mask2 w, w)) \<and>
     (\<forall>w v. ready w \<longrightarrow> ready (out8 io 0x21 v w) \<and> mask1 (out8 io 0x21 v w) = v \<and> mask2 (out8 io 0x21 v w) = mask2 w) \<and>
     (\<forall>w v. ready w \<longrightarrow> ready (out8 io 0xA1 v w) \<and> mask2 (out8 io 0xA1 v w) = v \<and> mask1 (out8 io 0xA1 v w) = mask1 w)"

definition irq_masked :: "('w \<Rightarrow> u8) \<Rightarrow> ('w \<Rightarrow> u8) \<Rightarrow> 'w \<Rightarrow> nat \<Rightarrow> bool" where
  "irq_masked mask1 mask2 w n \<longleftrightarrow> (if n < 8 then bit (mask1 w) n else bit (mask2 w) (n - 8))"

lemma irq_masks:
  assumes "pic_laws io ready mask1 mask2" "ready (int_ports s)" "g < 16" "n < 16"
  shows "irq_masked mask1 mask2 (int_ports (snd (arch_irq_enable io (of_nat g) s))) n \<longleftrightarrow>
      irq_masked mask1 mask2 (int_ports s) n \<and> n \<noteq> g"
    and "irq_masked mask1 mask2 (int_ports (snd (arch_irq_disable io (of_nat g) s))) n \<longleftrightarrow>
      irq_masked mask1 mask2 (int_ports s) n \<or> n = g"
proof -
  have g: "(of_nat g :: u16) < 8 \<longleftrightarrow> g < 8" "(of_nat g :: u16) < 16" "unat (of_nat g :: u16) = g"
    using assms(3) by (simp_all add: word_less_nat_alt unat_of_nat)
  have g8: "unat (of_nat g - 8 :: u16) = g - 8" if "\<not> g < 8"
    using that g by (simp add: unat_sub_if' )
  note defs = arch_irq_enable_def arch_irq_disable_def int_inb_def int_outb_def inb_def outb_def PIC1_DATA_def PIC2_DATA_def
    irq_masked_def
  show "irq_masked mask1 mask2 (int_ports (snd (arch_irq_enable io (of_nat g) s))) n \<longleftrightarrow>
      irq_masked mask1 mask2 (int_ports s) n \<and> n \<noteq> g"
    using assms g g8 by (cases "g < 8") (auto simp: defs pic_laws_def)
  show "irq_masked mask1 mask2 (int_ports (snd (arch_irq_disable io (of_nat g) s))) n \<longleftrightarrow>
      irq_masked mask1 mask2 (int_ports s) n \<or> n = g"
    using assms g g8 by (cases "g < 8") (auto simp: defs pic_laws_def)
qed

text \<open>
  C24: on initialised controllers, enabling a gate lets exactly the interrupt line of that gate through, disabling it
  masks exactly that line, and a gate that is no line of the controllers changes nothing.
\<close>

theorem gate_masks:
  assumes "pic_laws io ready mask1 mask2" "ready (int_ports s)" "n < 16"
  shows "(irq_masked mask1 mask2 (int_ports (snd (interrupts_enablegate io gate s))) n \<longleftrightarrow>
      irq_masked mask1 mask2 (int_ports s) n \<and> int n \<noteq> gate - 32) \<and>
    (irq_masked mask1 mask2 (int_ports (snd (interrupts_disablegate io gate s))) n \<longleftrightarrow>
      irq_masked mask1 mask2 (int_ports s) n \<or> int n = gate - 32)"
proof (cases "32 \<le> gate \<and> gate < 48")
  case True
  then obtain g where g: "gate = 32 + int g" by (metis zle_iff_zadd)
  then have "g < 16" "word_of_int (gate - 32) = (of_nat g :: u16)" using True by auto
  then show ?thesis using True g irq_masks [OF assms(1,2) _ assms(3), of g]
    by (auto simp: interrupts_enablegate_def interrupts_disablegate_def arch_interrupts_enablegate_def arch_interrupts_disablegate_def)
next
  case False
  then show ?thesis using assms(3)
    by (auto simp: interrupts_enablegate_def interrupts_disablegate_def arch_interrupts_enablegate_def arch_interrupts_disablegate_def)
qed

definition mask_io :: "(u8 \<times> u8) port_io" where
  "mask_io = \<lparr>in8 = (\<lambda>a w. (if a = 0x21 then fst w else snd w, w)),
     out8 = (\<lambda>a v w. if a = 0x21 then (v, snd w) else if a = 0xA1 then (fst w, v) else w),
     in16 = (\<lambda>a w. (0, w)), out16 = (\<lambda>a v w. w), in32 = (\<lambda>a w. (0, w)), out32 = (\<lambda>a v w. w)\<rparr>"

theorem gate_masks_witness:
  "\<not> irq_masked fst snd (int_ports (snd (interrupts_enablegate mask_io 33 (blank_interrupts (0xFF, 0xFF))))) 1 \<and>
   irq_masked fst snd (int_ports (snd (interrupts_disablegate mask_io 46 (blank_interrupts (0, 0))))) 14"
proof -
  have laws: "pic_laws mask_io (\<lambda>_. True) fst snd" by (simp add: pic_laws_def mask_io_def)
  show ?thesis
    using gate_masks [OF laws, where s = "blank_interrupts (0xFF, 0xFF)" and n = 1 and gate = 33]
      gate_masks [OF laws, where s = "blank_interrupts (0, 0)" and n = 14 and gate = 46] by simp
qed

end
