(* ===== verification/Keyboard.thy ===== *)
theory Keyboard
  imports Interrupts
begin

text \<open>
  The keyboard: the decoder of scan codes \<^verbatim>\<open>src/kernel/arch/i686/dev/keyboard/scancode_resolve.c\<close>, the
  interrupt handler \<^verbatim>\<open>keyboard.c\<close> beside it, and the echo of key presses on the console,
  \<^verbatim>\<open>src/kernel/dev/keyboard.c\<close>, with the key codes of \<^verbatim>\<open>keyboard.h\<close>.
\<close>

section \<open>Key codes\<close>

definition KEYBOARD_KEYCODE_NONE :: u8 where "KEYBOARD_KEYCODE_NONE = 0x00"
definition KEYBOARD_KEYCODE_ESC :: u8 where "KEYBOARD_KEYCODE_ESC = 0x01"
definition KEYBOARD_KEYCODE_1 :: u8 where "KEYBOARD_KEYCODE_1 = 0x02"
definition KEYBOARD_KEYCODE_2 :: u8 where "KEYBOARD_KEYCODE_2 = 0x03"
definition KEYBOARD_KEYCODE_3 :: u8 where "KEYBOARD_KEYCODE_3 = 0x04"
definition KEYBOARD_KEYCODE_4 :: u8 where "KEYBOARD_KEYCODE_4 = 0x05"
definition KEYBOARD_KEYCODE_5 :: u8 where "KEYBOARD_KEYCODE_5 = 0x06"
definition KEYBOARD_KEYCODE_6 :: u8 where "KEYBOARD_KEYCODE_6 = 0x07"
definition KEYBOARD_KEYCODE_7 :: u8 where "KEYBOARD_KEYCODE_7 = 0x08"
definition KEYBOARD_KEYCODE_8 :: u8 where "KEYBOARD_KEYCODE_8 = 0x09"
definition KEYBOARD_KEYCODE_9 :: u8 where "KEYBOARD_KEYCODE_9 = 0x0A"
definition KEYBOARD_KEYCODE_0 :: u8 where "KEYBOARD_KEYCODE_0 = 0x0B"
definition KEYBOARD_KEYCODE_MINUS :: u8 where "KEYBOARD_KEYCODE_MINUS = 0x0C"
definition KEYBOARD_KEYCODE_EQUAL :: u8 where "KEYBOARD_KEYCODE_EQUAL = 0x0D"
definition KEYBOARD_KEYCODE_BACKSPACE :: u8 where "KEYBOARD_KEYCODE_BACKSPACE = 0x0E"
definition KEYBOARD_KEYCODE_TAB :: u8 where "KEYBOARD_KEYCODE_TAB = 0x0F"
definition KEYBOARD_KEYCODE_Q :: u8 where "KEYBOARD_KEYCODE_Q = 0x10"
definition KEYBOARD_KEYCODE_W :: u8 where "KEYBOARD_KEYCODE_W = 0x11"
definition KEYBOARD_KEYCODE_E :: u8 where "KEYBOARD_KEYCODE_E = 0x12"
definition KEYBOARD_KEYCODE_R :: u8 where "KEYBOARD_KEYCODE_R = 0x13"
definition KEYBOARD_KEYCODE_T :: u8 where "KEYBOARD_KEYCODE_T = 0x14"
definition KEYBOARD_KEYCODE_Y :: u8 where "KEYBOARD_KEYCODE_Y = 0x15"
definition KEYBOARD_KEYCODE_U :: u8 where "KEYBOARD_KEYCODE_U = 0x16"
definition KEYBOARD_KEYCODE_I :: u8 where "KEYBOARD_KEYCODE_I = 0x17"
definition KEYBOARD_KEYCODE_O :: u8 where "KEYBOARD_KEYCODE_O = 0x18"
definition KEYBOARD_KEYCODE_P :: u8 where "KEYBOARD_KEYCODE_P = 0x19"
definition KEYBOARD_KEYCODE_BRACKET_OPEN :: u8 where "KEYBOARD_KEYCODE_BRACKET_OPEN = 0x1A"
definition KEYBOARD_KEYCODE_BRACKET_CLOSE :: u8 where "KEYBOARD_KEYCODE_BRACKET_CLOSE = 0x1B"
definition KEYBOARD_KEYCODE_ENTER :: u8 where "KEYBOARD_KEYCODE_ENTER = 0x1C"
definition KEYBOARD_KEYCODE_LEFT_CTRL :: u8 where "KEYBOARD_KEYCODE_LEFT_CTRL = 0x1D"
definition KEYBOARD_KEYCODE_A :: u8 where "KEYBOARD_KEYCODE_A = 0x1E"
definition KEYBOARD_KEYCODE_S :: u8 where "KEYBOARD_KEYCODE_S = 0x1F"
definition KEYBOARD_KEYCODE_D :: u8 where "KEYBOARD_KEYCODE_D = 0x20"
definition KEYBOARD_KEYCODE_F :: u8 where "KEYBOARD_KEYCODE_F = 0x21"
definition KEYBOARD_KEYCODE_G :: u8 where "KEYBOARD_KEYCODE_G = 0x22"
definition KEYBOARD_KEYCODE_H :: u8 where "KEYBOARD_KEYCODE_H = 0x23"
definition KEYBOARD_KEYCODE_J :: u8 where "KEYBOARD_KEYCODE_J = 0x24"
definition KEYBOARD_KEYCODE_K :: u8 where "KEYBOARD_KEYCODE_K = 0x25"
definition KEYBOARD_KEYCODE_L :: u8 where "KEYBOARD_KEYCODE_L = 0x26"
definition KEYBOARD_KEYCODE_SEMICOLON :: u8 where "KEYBOARD_KEYCODE_SEMICOLON = 0x27"
definition KEYBOARD_KEYCODE_QUOTE :: u8 where "KEYBOARD_KEYCODE_QUOTE = 0x28"
definition KEYBOARD_KEYCODE_BACKTICK :: u8 where "KEYBOARD_KEYCODE_BACKTICK = 0x29"
definition KEYBOARD_KEYCODE_LEFTSHIFT :: u8 where "KEYBOARD_KEYCODE_LEFTSHIFT = 0x2A"
definition KEYBOARD_KEYCODE_BACKSLASH :: u8 where "KEYBOARD_KEYCODE_BACKSLASH = 0x2B"
definition KEYBOARD_KEYCODE_Z :: u8 where "KEYBOARD_KEYCODE_Z = 0x2C"
definition KEYBOARD_KEYCODE_X :: u8 where "KEYBOARD_KEYCODE_X = 0x2D"
definition KEYBOARD_KEYCODE_C :: u8 where "KEYBOARD_KEYCODE_C = 0x2E"
definition KEYBOARD_KEYCODE_V :: u8 where "KEYBOARD_KEYCODE_V = 0x2F"
definition KEYBOARD_KEYCODE_B :: u8 where "KEYBOARD_KEYCODE_B = 0x30"
definition KEYBOARD_KEYCODE_N :: u8 where "KEYBOARD_KEYCODE_N = 0x31"
definition KEYBOARD_KEYCODE_M :: u8 where "KEYBOARD_KEYCODE_M = 0x32"
definition KEYBOARD_KEYCODE_COMMA :: u8 where "KEYBOARD_KEYCODE_COMMA = 0x33"
definition KEYBOARD_KEYCODE_DOT :: u8 where "KEYBOARD_KEYCODE_DOT = 0x34"
definition KEYBOARD_KEYCODE_SLASH :: u8 where "KEYBOARD_KEYCODE_SLASH = 0x35"
definition KEYBOARD_KEYCODE_RIGHT_SHIFT :: u8 where "KEYBOARD_KEYCODE_RIGHT_SHIFT = 0x36"
definition KEYBOARD_KEYCODE_KEYPAD_TIMES :: u8 where "KEYBOARD_KEYCODE_KEYPAD_TIMES = 0x37"
definition KEYBOARD_KEYCODE_LEFT_ALT :: u8 where "KEYBOARD_KEYCODE_LEFT_ALT = 0x38"
definition KEYBOARD_KEYCODE_SPACE :: u8 where "KEYBOARD_KEYCODE_SPACE = 0x39"
definition KEYBOARD_KEYCODE_CAPS_LOCK :: u8 where "KEYBOARD_KEYCODE_CAPS_LOCK = 0x3A"
definition KEYBOARD_KEYCODE_F1 :: u8 where "KEYBOARD_KEYCODE_F1 = 0x3B"
definition KEYBOARD_KEYCODE_F2 :: u8 where "KEYBOARD_KEYCODE_F2 = 0x3C"
definition KEYBOARD_KEYCODE_F3 :: u8 where "KEYBOARD_KEYCODE_F3 = 0x3D"
definition KEYBOARD_KEYCODE_F4 :: u8 where "KEYBOARD_KEYCODE_F4 = 0x3E"
definition KEYBOARD_KEYCODE_F5 :: u8 where "KEYBOARD_KEYCODE_F5 = 0x3F"
definition KEYBOARD_KEYCODE_F6 :: u8 where "KEYBOARD_KEYCODE_F6 = 0x40"
definition KEYBOARD_KEYCODE_F7 :: u8 where "KEYBOARD_KEYCODE_F7 = 0x41"
definition KEYBOARD_KEYCODE_F8 :: u8 where "KEYBOARD_KEYCODE_F8 = 0x42"
definition KEYBOARD_KEYCODE_F9 :: u8 where "KEYBOARD_KEYCODE_F9 = 0x43"
definition KEYBOARD_KEYCODE_F10 :: u8 where "KEYBOARD_KEYCODE_F10 = 0x44"
definition KEYBOARD_KEYCODE_NUM_LOCK :: u8 where "KEYBOARD_KEYCODE_NUM_LOCK = 0x45"
definition KEYBOARD_KEYCODE_SCROLL_LOCK :: u8 where "KEYBOARD_KEYCODE_SCROLL_LOCK = 0x46"
definition KEYBOARD_KEYCODE_KEYPAD_7 :: u8 where "KEYBOARD_KEYCODE_KEYPAD_7 = 0x47"
definition KEYBOARD_KEYCODE_KEYPAD_8 :: u8 where "KEYBOARD_KEYCODE_KEYPAD_8 = 0x48"
definition KEYBOARD_KEYCODE_KEYPAD_9 :: u8 where "KEYBOARD_KEYCODE_KEYPAD_9 = 0x49"
definition KEYBOARD_KEYCODE_KEYPAD_MINUS :: u8 where "KEYBOARD_KEYCODE_KEYPAD_MINUS = 0x4A"
definition KEYBOARD_KEYCODE_KEYPAD_4 :: u8 where "KEYBOARD_KEYCODE_KEYPAD_4 = 0x4B"
definition KEYBOARD_KEYCODE_KEYPAD_5 :: u8 where "KEYBOARD_KEYCODE_KEYPAD_5 = 0x4C"
definition KEYBOARD_KEYCODE_KEYPAD_6 :: u8 where "KEYBOARD_KEYCODE_KEYPAD_6 = 0x4D"
definition KEYBOARD_KEYCODE_KEYPAD_PLUS :: u8 where "KEYBOARD_KEYCODE_KEYPAD_PLUS = 0x4E"
definition KEYBOARD_KEYCODE_KEYPAD_1 :: u8 where "KEYBOARD_KEYCODE_KEYPAD_1 = 0x4F"
definition KEYBOARD_KEYCODE_KEYPAD_2 :: u8 where "KEYBOARD_KEYCODE_KEYPAD_2 = 0x50"
definition KEYBOARD_KEYCODE_KEYPAD_3 :: u8 where "KEYBOARD_KEYCODE_KEYPAD_3 = 0x51"
definition KEYBOARD_KEYCODE_KEYPAD_0 :: u8 where "KEYBOARD_KEYCODE_KEYPAD_0 = 0x52"
definition KEYBOARD_KEYCODE_KEYPAD_DOT :: u8 where "KEYBOARD_KEYCODE_KEYPAD_DOT = 0x53"
definition KEYBOARD_KEYCODE_ALT_SYSRQ :: u8 where "KEYBOARD_KEYCODE_ALT_SYSRQ = 0x54"
definition KEYBOARD_KEYCODE_CODE55 :: u8 where "KEYBOARD_KEYCODE_CODE55 = 0x55"
definition KEYBOARD_KEYCODE_CODE56 :: u8 where "KEYBOARD_KEYCODE_CODE56 = 0x56"
definition KEYBOARD_KEYCODE_F11 :: u8 where "KEYBOARD_KEYCODE_F11 = 0x57"
definition KEYBOARD_KEYCODE_F12 :: u8 where "KEYBOARD_KEYCODE_F12 = 0x58"
definition KEYBOARD_KEYCODE_RIGHT_ALT :: u8 where "KEYBOARD_KEYCODE_RIGHT_ALT = 0x59"
definition KEYBOARD_KEYCODE_RIGHT_CTRL :: u8 where "KEYBOARD_KEYCODE_RIGHT_CTRL = 0x5A"
definition KEYBOARD_KEYCODE_INSERT :: u8 where "KEYBOARD_KEYCODE_INSERT = 0x5B"
definition KEYBOARD_KEYCODE_DELETE :: u8 where "KEYBOARD_KEYCODE_DELETE = 0x5C"
definition KEYBOARD_KEYCODE_HOME :: u8 where "KEYBOARD_KEYCODE_HOME = 0x5D"
definition KEYBOARD_KEYCODE_END :: u8 where "KEYBOARD_KEYCODE_END = 0x5E"
definition KEYBOARD_KEYCODE_PAGE_UP :: u8 where "KEYBOARD_KEYCODE_PAGE_UP = 0x5F"
definition KEYBOARD_KEYCODE_PAGE_DOWN :: u8 where "KEYBOARD_KEYCODE_PAGE_DOWN = 0x60"
definition KEYBOARD_KEYCODE_LEFT :: u8 where "KEYBOARD_KEYCODE_LEFT = 0x61"
definition KEYBOARD_KEYCODE_UP :: u8 where "KEYBOARD_KEYCODE_UP = 0x62"
definition KEYBOARD_KEYCODE_DOWN :: u8 where "KEYBOARD_KEYCODE_DOWN = 0x63"
definition KEYBOARD_KEYCODE_RIGHT :: u8 where "KEYBOARD_KEYCODE_RIGHT = 0x64"
definition KEYBOARD_KEYCODE_NUMPAD_SLASH :: u8 where "KEYBOARD_KEYCODE_NUMPAD_SLASH = 0x65"
definition KEYBOARD_KEYCODE_NUMPAD_ENTER :: u8 where "KEYBOARD_KEYCODE_NUMPAD_ENTER = 0x66"
definition KEYBOARD_KEYCODE_PRINT_SCREEN :: u8 where "KEYBOARD_KEYCODE_PRINT_SCREEN = 0x67"
definition KEYBOARD_KEYCODE_PAUSE :: u8 where "KEYBOARD_KEYCODE_PAUSE = 0x68"
definition KEYBOARD_KEYCODE_CTRL_BREAK :: u8 where "KEYBOARD_KEYCODE_CTRL_BREAK = 0x69"
definition KEYBOARD_KEYCODE_LEFT_META :: u8 where "KEYBOARD_KEYCODE_LEFT_META = 0x6A"
definition KEYBOARD_KEYCODE_RIGHT_META :: u8 where "KEYBOARD_KEYCODE_RIGHT_META = 0x6B"
definition KEYBOARD_KEYCODE_MENU :: u8 where "KEYBOARD_KEYCODE_MENU = 0x6C"
definition KEYBOARD_KEYCODE_SLEEP :: u8 where "KEYBOARD_KEYCODE_SLEEP = 0x6D"
definition KEYBOARD_KEYCODE_POWER :: u8 where "KEYBOARD_KEYCODE_POWER = 0x6E"
definition KEYBOARD_KEYCODE_WAKE :: u8 where "KEYBOARD_KEYCODE_WAKE = 0x6F"

lemmas key_codes = KEYBOARD_KEYCODE_NONE_def
  KEYBOARD_KEYCODE_ESC_def
  KEYBOARD_KEYCODE_1_def
  KEYBOARD_KEYCODE_2_def
  KEYBOARD_KEYCODE_3_def
  KEYBOARD_KEYCODE_4_def
  KEYBOARD_KEYCODE_5_def
  KEYBOARD_KEYCODE_6_def
  KEYBOARD_KEYCODE_7_def
  KEYBOARD_KEYCODE_8_def
  KEYBOARD_KEYCODE_9_def
  KEYBOARD_KEYCODE_0_def
  KEYBOARD_KEYCODE_MINUS_def
  KEYBOARD_KEYCODE_EQUAL_def
  KEYBOARD_KEYCODE_BACKSPACE_def
  KEYBOARD_KEYCODE_TAB_def
  KEYBOARD_KEYCODE_Q_def
  KEYBOARD_KEYCODE_W_def
  KEYBOARD_KEYCODE_E_def
  KEYBOARD_KEYCODE_R_def
  KEYBOARD_KEYCODE_T_def
  KEYBOARD_KEYCODE_Y_def
  KEYBOARD_KEYCODE_U_def
  KEYBOARD_KEYCODE_I_def
  KEYBOARD_KEYCODE_O_def
  KEYBOARD_KEYCODE_P_def
  KEYBOARD_KEYCODE_BRACKET_OPEN_def
  KEYBOARD_KEYCODE_BRACKET_CLOSE_def
  KEYBOARD_KEYCODE_ENTER_def
  KEYBOARD_KEYCODE_LEFT_CTRL_def
  KEYBOARD_KEYCODE_A_def
  KEYBOARD_KEYCODE_S_def
  KEYBOARD_KEYCODE_D_def
  KEYBOARD_KEYCODE_F_def
  KEYBOARD_KEYCODE_G_def
  KEYBOARD_KEYCODE_H_def
  KEYBOARD_KEYCODE_J_def
  KEYBOARD_KEYCODE_K_def
  KEYBOARD_KEYCODE_L_def
  KEYBOARD_KEYCODE_SEMICOLON_def
  KEYBOARD_KEYCODE_QUOTE_def
  KEYBOARD_KEYCODE_BACKTICK_def
  KEYBOARD_KEYCODE_LEFTSHIFT_def
  KEYBOARD_KEYCODE_BACKSLASH_def
  KEYBOARD_KEYCODE_Z_def
  KEYBOARD_KEYCODE_X_def
  KEYBOARD_KEYCODE_C_def
  KEYBOARD_KEYCODE_V_def
  KEYBOARD_KEYCODE_B_def
  KEYBOARD_KEYCODE_N_def
  KEYBOARD_KEYCODE_M_def
  KEYBOARD_KEYCODE_COMMA_def
  KEYBOARD_KEYCODE_DOT_def
  KEYBOARD_KEYCODE_SLASH_def
  KEYBOARD_KEYCODE_RIGHT_SHIFT_def
  KEYBOARD_KEYCODE_KEYPAD_TIMES_def
  KEYBOARD_KEYCODE_LEFT_ALT_def
  KEYBOARD_KEYCODE_SPACE_def
  KEYBOARD_KEYCODE_CAPS_LOCK_def
  KEYBOARD_KEYCODE_F1_def
  KEYBOARD_KEYCODE_F2_def
  KEYBOARD_KEYCODE_F3_def
  KEYBOARD_KEYCODE_F4_def
  KEYBOARD_KEYCODE_F5_def
  KEYBOARD_KEYCODE_F6_def
  KEYBOARD_KEYCODE_F7_def
  KEYBOARD_KEYCODE_F8_def
  KEYBOARD_KEYCODE_F9_def
  KEYBOARD_KEYCODE_F10_def
  KEYBOARD_KEYCODE_NUM_LOCK_def
  KEYBOARD_KEYCODE_SCROLL_LOCK_def
  KEYBOARD_KEYCODE_KEYPAD_7_def
  KEYBOARD_KEYCODE_KEYPAD_8_def
  KEYBOARD_KEYCODE_KEYPAD_9_def
  KEYBOARD_KEYCODE_KEYPAD_MINUS_def
  KEYBOARD_KEYCODE_KEYPAD_4_def
  KEYBOARD_KEYCODE_KEYPAD_5_def
  KEYBOARD_KEYCODE_KEYPAD_6_def
  KEYBOARD_KEYCODE_KEYPAD_PLUS_def
  KEYBOARD_KEYCODE_KEYPAD_1_def
  KEYBOARD_KEYCODE_KEYPAD_2_def
  KEYBOARD_KEYCODE_KEYPAD_3_def
  KEYBOARD_KEYCODE_KEYPAD_0_def
  KEYBOARD_KEYCODE_KEYPAD_DOT_def
  KEYBOARD_KEYCODE_ALT_SYSRQ_def
  KEYBOARD_KEYCODE_CODE55_def
  KEYBOARD_KEYCODE_CODE56_def
  KEYBOARD_KEYCODE_F11_def
  KEYBOARD_KEYCODE_F12_def
  KEYBOARD_KEYCODE_RIGHT_ALT_def
  KEYBOARD_KEYCODE_RIGHT_CTRL_def
  KEYBOARD_KEYCODE_INSERT_def
  KEYBOARD_KEYCODE_DELETE_def
  KEYBOARD_KEYCODE_HOME_def
  KEYBOARD_KEYCODE_END_def
  KEYBOARD_KEYCODE_PAGE_UP_def
  KEYBOARD_KEYCODE_PAGE_DOWN_def
  KEYBOARD_KEYCODE_LEFT_def
  KEYBOARD_KEYCODE_UP_def
  KEYBOARD_KEYCODE_DOWN_def
  KEYBOARD_KEYCODE_RIGHT_def
  KEYBOARD_KEYCODE_NUMPAD_SLASH_def
  KEYBOARD_KEYCODE_NUMPAD_ENTER_def
  KEYBOARD_KEYCODE_PRINT_SCREEN_def
  KEYBOARD_KEYCODE_PAUSE_def
  KEYBOARD_KEYCODE_CTRL_BREAK_def
  KEYBOARD_KEYCODE_LEFT_META_def
  KEYBOARD_KEYCODE_RIGHT_META_def
  KEYBOARD_KEYCODE_MENU_def
  KEYBOARD_KEYCODE_SLEEP_def
  KEYBOARD_KEYCODE_POWER_def
  KEYBOARD_KEYCODE_WAKE_def

section \<open>Scan codes\<close>

text \<open>The rows are padded with zeros to the width of the table.\<close>

definition scancode_set_1 :: "u8 list list" where
  "scancode_set_1 = [
    [0x29, 0x00, KEYBOARD_KEYCODE_BACKTICK],
    [0x02, 0x00, KEYBOARD_KEYCODE_1],
    [0x03, 0x00, KEYBOARD_KEYCODE_2],
    [0x04, 0x00, KEYBOARD_KEYCODE_3],
    [0x05, 0x00, KEYBOARD_KEYCODE_4],
    [0x06, 0x00, KEYBOARD_KEYCODE_5],
    [0x07, 0x00, KEYBOARD_KEYCODE_6],
    [0x08, 0x00, KEYBOARD_KEYCODE_7],
    [0x09, 0x00, KEYBOARD_KEYCODE_8],
    [0x0A, 0x00, KEYBOARD_KEYCODE_9],
    [0x0B, 0x00, KEYBOARD_KEYCODE_0],
    [0x0C, 0x00, KEYBOARD_KEYCODE_MINUS],
    [0x0D, 0x00, KEYBOARD_KEYCODE_EQUAL],
    [0x0E, 0x00, KEYBOARD_KEYCODE_BACKSPACE],
    [0x0F, 0x00, KEYBOARD_KEYCODE_TAB],
    [0x10, 0x00, KEYBOARD_KEYCODE_Q],
    [0x11, 0x00, KEYBOARD_KEYCODE_W],
    [0x12, 0x00, KEYBOARD_KEYCODE_E],
    [0x13, 0x00, KEYBOARD_KEYCODE_R],
    [0x14, 0x00, KEYBOARD_KEYCODE_T],
    [0x15, 0x00, KEYBOARD_KEYCODE_Y],
    [0x16, 0x00, KEYBOARD_KEYCODE_U],
    [0x17, 0x00, KEYBOARD_KEYCODE_I],
    [0x18, 0x00, KEYBOARD_KEYCODE_O],
    [0x19, 0x00, KEYBOARD_KEYCODE_P],
    [0x1A, 0x00, KEYBOARD_KEYCODE_BRACKET_OPEN],
    [0x1B, 0x00, KEYBOARD_KEYCODE_BRACKET_CLOSE],
    [0x2B, 0x00, KEYBOARD_KEYCODE_BACKSLASH],
    [0x3A, 0x00, KEYBOARD_KEYCODE_CAPS_LOCK],
    [0x1E, 0x00, KEYBOARD_KEYCODE_A],
    [0x1F, 0x00, KEYBOARD_KEYCODE_S],
    [0x20, 0x00, KEYBOARD_KEYCODE_D],
    [0x21, 0x00, KEYBOARD_KEYCODE_F],
    [0x22, 0x00, KEYBOARD_KEYCODE_G],
    [0x23, 0x00, KEYBOARD_KEYCODE_H],
    [0x24, 0x00, KEYBOARD_KEYCODE_J],
    [0x25, 0x00, KEYBOARD_KEYCODE_K],
    [0x26, 0x00, KEYBOARD_KEYCODE_L],
    [0x27, 0x00, KEYBOARD_KEYCODE_SEMICOLON],
    [0x28, 0x00, KEYBOARD_KEYCODE_QUOTE],
    [0x1C, 0x00, KEYBOARD_KEYCODE_ENTER],
    [0x2A, 0x00, KEYBOARD_KEYCODE_LEFTSHIFT],
    [0x2C, 0x00, KEYBOARD_KEYCODE_Z],
    [0x2D, 0x00, KEYBOARD_KEYCODE_X],
    [0x2E, 0x00, KEYBOARD_KEYCODE_C],
    [0x2F, 0x00, KEYBOARD_KEYCODE_V],
    [0x30, 0x00, KEYBOARD_KEYCODE_B],
    [0x31, 0x00, KEYBOARD_KEYCODE_N],
    [0x32, 0x00, KEYBOARD_KEYCODE_M],
    [0x33, 0x00, KEYBOARD_KEYCODE_COMMA],
    [0x34, 0x00, KEYBOARD_KEYCODE_DOT],
    [0x35, 0x00, KEYBOARD_KEYCODE_SLASH],
    [0x36, 0x00, KEYBOARD_KEYCODE_RIGHT_SHIFT],
    [0x1D, 0x00, KEYBOARD_KEYCODE_LEFT_CTRL],
    [0x38, 0x00, KEYBOARD_KEYCODE_LEFT_ALT],
    [0x39, 0x00, KEYBOARD_KEYCODE_SPACE],
    [0xE0, 0x38, 0x00, KEYBOARD_KEYCODE_RIGHT_ALT],
    [0xE0, 0x1D, 0x00, KEYBOARD_KEYCODE_RIGHT_CTRL],
    [0xE0, 0x52, 0x00, KEYBOARD_KEYCODE_INSERT],
    [0xE0, 0x53, 0x00, KEYBOARD_KEYCODE_DELETE],
    [0xE0, 0x47, 0x00, KEYBOARD_KEYCODE_HOME],
    [0xE0, 0x4F, 0x00, KEYBOARD_KEYCODE_END],
    [0xE0, 0x49, 0x00, KEYBOARD_KEYCODE_PAGE_UP],
    [0xE0, 0x51, 0x00, KEYBOARD_KEYCODE_PAGE_DOWN],
    [0xE0, 0x4B, 0x00, KEYBOARD_KEYCODE_LEFT],
    [0xE0, 0x48, 0x00, KEYBOARD_KEYCODE_UP],
    [0xE0, 0x50, 0x00, KEYBOARD_KEYCODE_DOWN],
    [0xE0, 0x4D, 0x00, KEYBOARD_KEYCODE_RIGHT],
    [0x45, 0x00, KEYBOARD_KEYCODE_NUM_LOCK],
    [0x47, 0x00, KEYBOARD_KEYCODE_KEYPAD_7],
    [0x4B, 0x00, KEYBOARD_KEYCODE_KEYPAD_4],
    [0x4F, 0x00, KEYBOARD_KEYCODE_KEYPAD_1],
    [0xE0, 0x35, 0x00, KEYBOARD_KEYCODE_NUMPAD_SLASH],
    [0x48, 0x00, KEYBOARD_KEYCODE_KEYPAD_8],
    [0x4C, 0x00, KEYBOARD_KEYCODE_KEYPAD_5],
    [0x50, 0x00, KEYBOARD_KEYCODE_KEYPAD_2],
    [0x52, 0x00, KEYBOARD_KEYCODE_KEYPAD_0],
    [0x37, 0x00, KEYBOARD_KEYCODE_KEYPAD_TIMES],
    [0x49, 0x00, KEYBOARD_KEYCODE_KEYPAD_9],
    [0x4D, 0x00, KEYBOARD_KEYCODE_KEYPAD_6],
    [0x51, 0x00, KEYBOARD_KEYCODE_KEYPAD_3],
    [0x53, 0x00, KEYBOARD_KEYCODE_KEYPAD_DOT],
    [0x4A, 0x00, KEYBOARD_KEYCODE_KEYPAD_MINUS],
    [0x4E, 0x00, KEYBOARD_KEYCODE_KEYPAD_PLUS],
    [0xE0, 0x1C, 0x00, KEYBOARD_KEYCODE_NUMPAD_ENTER],
    [0x01, 0x00, KEYBOARD_KEYCODE_ESC],
    [0x3B, 0x00, KEYBOARD_KEYCODE_F1],
    [0x3C, 0x00, KEYBOARD_KEYCODE_F2],
    [0x3D, 0x00, KEYBOARD_KEYCODE_F3],
    [0x3E, 0x00, KEYBOARD_KEYCODE_F4],
    [0x3F, 0x00, KEYBOARD_KEYCODE_F5],
    [0x40, 0x00, KEYBOARD_KEYCODE_F6],
    [0x41, 0x00, KEYBOARD_KEYCODE_F7],
    [0x42, 0x00, KEYBOARD_KEYCODE_F8],
    [0x43, 0x00, KEYBOARD_KEYCODE_F9],
    [0x44, 0x00, KEYBOARD_KEYCODE_F10],
    [0x57, 0x00, KEYBOARD_KEYCODE_F11],
    [0x58, 0x00, KEYBOARD_KEYCODE_F12],
    [0xE0, 0x37, KEYBOARD_KEYCODE_PRINT_SCREEN],
    [0x54, 0x00, KEYBOARD_KEYCODE_ALT_SYSRQ],
    [0x46, 0x00, KEYBOARD_KEYCODE_SCROLL_LOCK],
    [0xE1, 0x1D, 0x45, 0xE1, 0x9D, 0xC5, 0x00, KEYBOARD_KEYCODE_PAUSE],
    [0xE0, 0x46, 0x00, KEYBOARD_KEYCODE_CTRL_BREAK],
    [0xE0, 0x5B, 0x00, KEYBOARD_KEYCODE_LEFT_META],
    [0xE0, 0x5C, 0x00, KEYBOARD_KEYCODE_RIGHT_META],
    [0xE0, 0x5D, 0x00, KEYBOARD_KEYCODE_MENU],
    [0xE0, 0x5F, 0x00, KEYBOARD_KEYCODE_SLEEP],
    [0xE0, 0x5E, 0x00, KEYBOARD_KEYCODE_POWER],
    [0xE0, 0x63, 0x00, KEYBOARD_KEYCODE_WAKE]]"

definition row_at :: "u8 list \<Rightarrow> nat \<Rightarrow> u8" where
  "row_at row j = (if j < length row then row ! j else 0)"

text \<open>
  One row against the codes read so far: the \<^verbatim>\<open>while\<close> loop. \<open>n\<close> is \<^verbatim>\<open>signalLength\<close>; \<^verbatim>\<open>codeArr\<close> has
  ten cells, and a read or a write behind them is undefined. The result is the key code if the row matches.
\<close>

function match_row ::
  "'w port_io \<Rightarrow> u8 list \<Rightarrow> nat \<Rightarrow> bool \<Rightarrow> u8 list \<Rightarrow> nat \<Rightarrow> 'w \<Rightarrow> (u8 option \<times> u8 list \<times> nat \<times> 'w) option" where
  "match_row io row j release codeArr n w =
     (if j \<ge> 10 then None
      else if row_at row j = codeArr ! j \<or> row_at row j OR 0x80 = codeArr ! j then
        (let release1 = (if codeArr ! j = row_at row j OR 0x80 then True else release)
         in if row_at row (j + 1) = 0 then
              Some (Some (if release1 then row_at row (j + 2) OR 0x80 else row_at row (j + 2)), codeArr, n, w)
            else if n \<ge> 10 then None
            else (let (b, w1) = inb io 0x60 w in match_row io row (j + 1) release1 (codeArr[n := b]) (n + 1) w1))
      else Some (None, codeArr, n, w))"
  by pat_completeness auto
termination by (relation "measure (\<lambda>(io, row, j, release, codeArr, n, w). 10 - j)") auto

declare match_row.simps [simp del]

fun match_rows ::
  "'w port_io \<Rightarrow> u8 list list \<Rightarrow> u8 list \<Rightarrow> nat \<Rightarrow> 'w \<Rightarrow> (u8 \<times> 'w) option" where
  "match_rows io [] codeArr n w = Some (KEYBOARD_KEYCODE_NONE, w)"
| "match_rows io (row # rows) codeArr n w = do {
     (k, codeArr1, n1, w1) \<leftarrow> match_row io row 0 False codeArr n w;
     case k of Some code \<Rightarrow> Some (code, w1) | None \<Rightarrow> match_rows io rows codeArr1 n1 w1
   }"

definition scancode_resolve_getKeyCode_set1 :: "'w port_io \<Rightarrow> 'w \<Rightarrow> (u16 \<times> 'w) option" where
  "scancode_resolve_getKeyCode_set1 io w = do {
     let (scanCode, w1) = inb io 0x60 w;
     (k, w2) \<leftarrow> match_rows io scancode_set_1 ((replicate 10 0)[0 := scanCode]) 1 w1;
     Some (ucast k, w2)
   }"

text \<open>The decoders of the other two sets have no \<^verbatim>\<open>return\<close>: their value is undefined.\<close>

definition scancode_resolve_getKeyCode :: "'w port_io \<Rightarrow> u8 \<Rightarrow> 'w \<Rightarrow> (u16 \<times> 'w) option" where
  "scancode_resolve_getKeyCode io code_set w = (if code_set = 1 then scancode_resolve_getKeyCode_set1 io w else None)"

section \<open>Interrupt handlers\<close>

definition keyboard_key_code_to_ascii_map :: "u8 list" where
  "keyboard_key_code_to_ascii_map = [
    0, 0, 49, 50, 51, 52, 53, 54, 55, 56, 57, 48, 45, 61, 8, 9,
    113, 119, 101, 114, 116, 121, 117, 105, 111, 112, 91, 93, 10, 0, 97, 115,
    100, 102, 103, 104, 106, 107, 108, 59, 39, 96, 0, 92, 122, 120, 99, 118,
    98, 110, 109, 44, 46, 47, 0, 42, 0, 32, 0, 0, 0, 0, 0, 0,
    0, 0, 0, 0, 0, 0, 0, 55, 56, 57, 45, 52, 53, 54, 43, 49,
    50, 51, 48, 46, 0, 0, 0, 0, 0, 0, 0, 0, 0, 0, 0, 0,
    0, 0, 0, 0, 0, 47, 10, 0, 0, 0, 0, 0, 0, 0, 0, 0] @ replicate 144 0"

definition ascii_at :: "u32 \<Rightarrow> u8" where
  "ascii_at a = (if unat a < 256 then keyboard_key_code_to_ascii_map ! unat a else 0)"

definition keyboard_interrupt_handler :: "u16 \<Rightarrow> tty_state \<Rightarrow> (SYS_RET \<times> tty_state) option" where
  "keyboard_interrupt_handler keyCode s =
     (if keyCode < 256 then
        if ascii_at (ucast keyCode) \<noteq> 0 then do {
          (_, s1) \<leftarrow> tty_puts ascii_at (ucast keyCode) 1 s;
          Some (SYS_RET_NO_ERROR, s1)
        }
        else Some (SYS_RET_NO_ERROR, s)
      else None)"

definition arch_keyboard_interrupt_handler ::
  "'w port_io \<Rightarrow> u32 \<Rightarrow> ('h, 'w) int_state \<Rightarrow> (int_return_t \<times> ('h, 'w) int_state) option" where
  "arch_keyboard_interrupt_handler io intNo s =
     (if intNo = 33 then do {
        (k, w) \<leftarrow> scancode_resolve_getKeyCode io 1 (int_ports s);
        (_, t) \<leftarrow> keyboard_interrupt_handler k (int_tty s);
        Some (INT_RETURN_NO_ERROR, s\<lparr>int_ports := w, int_tty := t\<rparr>)
      }
      else Some (INT_RETURN_WRONG_HANDLER, s))"

definition arch_keyboard_initialize :: "'h \<Rightarrow> ('h, 'w) int_state \<Rightarrow> (SYS_RET \<times> ('h, 'w) int_state) option" where
  "arch_keyboard_initialize keyboard_handler s = do {
     (_, s1) \<leftarrow> interrupts_sethandler 33 keyboard_handler s;
     Some (SYS_RET_NO_ERROR, s1)
   }"

definition keyboard_initialize :: "'h \<Rightarrow> ('h, 'w) int_state \<Rightarrow> (SYS_RET \<times> ('h, 'w) int_state) option" where
  "keyboard_initialize keyboard_handler s = arch_keyboard_initialize keyboard_handler s"

section \<open>Keys with a code of one byte\<close>

text \<open>A row that does not match the first code is skipped without reading another one.\<close>

definition row_hit :: "u8 \<Rightarrow> u8 list \<Rightarrow> bool" where
  "row_hit c row \<longleftrightarrow> row_at row 0 = c \<or> row_at row 0 OR 0x80 = c"

lemma match_rows_skip:
  "\<not> row_hit (codeArr ! 0) row \<Longrightarrow> match_rows io (row # rows) codeArr n w = match_rows io rows codeArr n w"
  by (simp add: row_hit_def match_row.simps [of io row 0])

lemma match_rows_first:
  "match_rows io rows codeArr n w = match_rows io (dropWhile (\<lambda>row. \<not> row_hit (codeArr ! 0) row) rows) codeArr n w"
  by (induction rows) (simp_all add: match_rows_skip del: match_rows.simps(2))

lemma match_rows_single:
  assumes "dropWhile (\<lambda>row. \<not> row_hit (codeArr ! 0) row) rows = [c, 0, k] # rest"
  shows "match_rows io rows codeArr n w = Some (if codeArr ! 0 = c OR 0x80 then k OR 0x80 else k, w)"
proof -
  have "row_hit (codeArr ! 0) [c, 0, k]"
    using assms hd_dropWhile [of "\<lambda>row. \<not> row_hit (codeArr ! 0) row" rows] by simp
  then have "match_row io [c, 0, k] 0 False codeArr n w =
      Some (Some (if codeArr ! 0 = c OR 0x80 then k OR 0x80 else k), codeArr, n, w)"
    by (simp add: match_row.simps row_at_def row_hit_def eval_nat_numeral)
  then show ?thesis by (subst match_rows_first) (simp add: assms)
qed

text \<open>
  The rows of one byte differ in the low seven bits of their codes, and every other row begins with a prefix.
\<close>

definition single :: "u8 list \<Rightarrow> bool" where
  "single row \<longleftrightarrow> length row = 3 \<and> row ! 1 = 0"

definition release_code :: "u8 list \<Rightarrow> u8" where
  "release_code row = row_at row 0 OR 0x80"

lemma table_distinct: "distinct (map release_code (filter single scancode_set_1))"
  by code_simp

lemma table_prefix: "list_all (\<lambda>row. if single row then release_code row \<noteq> row_at row 0 \<and> release_code row < 0xE0
    else release_code row \<ge> 0xE0) scancode_set_1"
  by code_simp

lemma table_row:
  "row \<in> set scancode_set_1 \<Longrightarrow> single row \<longleftrightarrow> release_code row < 0xE0"
  "row \<in> set scancode_set_1 \<Longrightarrow> single row \<Longrightarrow> release_code row \<noteq> row_at row 0"
  using table_prefix unfolding list_all_iff by (metis (mono_tags, lifting) not_le)+

lemma row_hit_release: "row_hit c row \<Longrightarrow> release_code row = c OR 0x80"
  by (auto simp: row_hit_def release_code_def or.assoc)

lemma single_first:
  assumes "[c, 0, k] \<in> set scancode_set_1" "x = c \<or> x = c OR 0x80"
  shows "\<exists>rest. dropWhile (\<lambda>row. \<not> row_hit x row) scancode_set_1 = [c, 0, k] # rest"
proof -
  let ?r = "[c, 0, k]"
  have hit: "row_hit x ?r" using assms(2) by (auto simp: row_hit_def row_at_def)
  have unique: "row = ?r" if "row \<in> set scancode_set_1" "row_hit x row" for row
  proof -
    have "release_code row = release_code ?r" using row_hit_release [OF that(2)] row_hit_release [OF hit] by simp
    moreover have s: "single ?r" by (simp add: single_def)
    ultimately have "single row" using table_row(1) [OF assms(1)] table_row(1) [OF that(1)] by simp
    then show ?thesis using s that(1) assms(1) \<open>release_code row = release_code ?r\<close> table_distinct
      by (auto simp: distinct_map inj_on_def)
  qed
  have "dropWhile (\<lambda>row. \<not> row_hit x row) scancode_set_1 \<noteq> []" using assms(1) hit by (auto simp: dropWhile_eq_Nil_conv)
  then obtain row rest where d: "dropWhile (\<lambda>row. \<not> row_hit x row) scancode_set_1 = row # rest" by (cases "dropWhile (\<lambda>row. \<not> row_hit x row) scancode_set_1") auto
  then have "row_hit x row" "row \<in> set scancode_set_1"
    using hd_dropWhile [of "\<lambda>row. \<not> row_hit x row" scancode_set_1] set_dropWhileD [of row "\<lambda>row. \<not> row_hit x row" scancode_set_1] by auto
  then show ?thesis using unique d by blast
qed

lemma single_key_code:
  assumes "[c, 0, k] \<in> set scancode_set_1" "inb io 0x60 w = (x, w1)" "x = c \<or> x = c OR 0x80"
  shows "scancode_resolve_getKeyCode io 1 w = Some (ucast (if x = c then k else k OR 0x80), w1)"
proof -
  have ne: "c OR 0x80 \<noteq> c"
    using table_row(2) [OF assms(1)] by (simp add: single_def release_code_def row_at_def)
  obtain rest where "dropWhile (\<lambda>row. \<not> row_hit x row) scancode_set_1 = [c, 0, k] # rest"
    using single_first [OF assms(1,3)] by blast
  then have "match_rows io scancode_set_1 ((replicate 10 0)[0 := x]) 1 w1 = Some (if x = c OR 0x80 then k OR 0x80 else k, w1)"
    using match_rows_single [of "(replicate 10 0)[0 := x]" scancode_set_1 c k rest io 1 w1] by simp
  then have "scancode_resolve_getKeyCode io 1 w = Some (ucast (if x = c OR 0x80 then k OR 0x80 else k), w1)"
    using assms(2) by (simp add: scancode_resolve_getKeyCode_def scancode_resolve_getKeyCode_set1_def)
  moreover have "x = c OR 0x80 \<longleftrightarrow> x \<noteq> c" using assms(3) ne by metis
  ultimately show ?thesis by simp
qed

section \<open>Echo\<close>

text \<open>Key releases, and the codes without a character, print nothing.\<close>

lemma ascii_at_high: "112 \<le> unat a \<Longrightarrow> ascii_at a = 0"
  by (simp add: ascii_at_def keyboard_key_code_to_ascii_map_def nth_append)

lemma unat_u8_less: "unat (b :: u8) < 256"
  using unsigned_less [of b, where 'a = nat] by simp

lemma release_high: "112 \<le> unat (ucast (ucast (k OR 0x80 :: u8) :: u16) :: u32)"
proof -
  have "128 \<le> 128 OR uint k" by (rule or_greater_eq) simp
  then have "128 \<le> uint (0x80 OR k)" by (simp add: unsigned_or_eq)
  then have "128 \<le> uint (k OR 0x80)" by (simp only: or.commute [of k])
  moreover have "int (unat (k OR 0x80)) = uint (k OR 0x80)" by simp
  ultimately have "128 \<le> unat (k OR 0x80)" by linarith
  moreover have "unat (ucast (ucast b :: u16) :: u32) = unat b" for b :: u8
    using unat_u8_less [of b] by (simp add: unsigned_ucast_eq unsigned_take_bit_eq take_bit_nat_eq_self)
  ultimately show ?thesis by simp
qed

lemma code_small: "(ucast (k :: u8) :: u16) < 256"
  using unat_u8_less [of k] by (simp add: word_less_nat_alt unsigned_ucast_eq take_bit_nat_eq_self)

lemma keyboard_handler_press:
  assumes "tty_ok t" "ascii_at (ucast (ucast (k :: u8) :: u16)) \<noteq> 0x08"
  shows "\<exists>t'. keyboard_interrupt_handler (ucast k) t = Some (SYS_RET_NO_ERROR, t') \<and> tty_ok t' \<and>
     console t' = (let ch = ascii_at (ucast (ucast k :: u16))
       in if ch = 0 then console t else con_putch (console_w t) (color (handle t)) ch (console t))"
proof (cases "ascii_at (ucast (ucast k :: u16)) = 0")
  case True
  then show ?thesis using assms(1) code_small by (simp add: keyboard_interrupt_handler_def)
next
  case False
  obtain t' where "tty_puts ascii_at (ucast (ucast k :: u16)) 1 t = Some (1, t')"
      "printed [ascii_at (ucast (ucast k :: u16))] t t'"
    using puts_printed [of t ascii_at "ucast (ucast k :: u16)" "[ascii_at (ucast (ucast k :: u16))]" 1] assms False
    by (auto simp: holds_def)
  then show ?thesis using False code_small by (simp add: keyboard_interrupt_handler_def printed_def)
qed

text \<open>The backspace key: the handler passes its character on to the console.\<close>

lemma keyboard_handler_backspace:
  assumes "ascii_at (ucast (ucast (k :: u8) :: u16)) = 0x08"
  shows "keyboard_interrupt_handler (ucast k) t = map_option (Pair SYS_RET_NO_ERROR) (tty_putch 0x08 t)"
proof -
  have "tty_puts ascii_at (ucast (ucast k :: u16)) 1 t = map_option (Pair 1) (tty_putch 0x08 t)"
    using assms by (simp add: tty_puts_def map_option_case split: option.splits)
  then show ?thesis using assms code_small
    by (simp add: keyboard_interrupt_handler_def map_option_case split: option.splits)
qed

text \<open>From the vector to the handler of the keyboard, and the acknowledgement after it.\<close>

lemma keyboard_vector:
  assumes "intHandler_set s" "intHandlers s 33 = Some kb" "int_no frame = 33"
    and "\<And>n e f t. call kb n e f t = arch_keyboard_interrupt_handler io n t"
    and "scancode_resolve_getKeyCode io 1 (int_ports s) = Some (kc, w1)"
  shows "keyboard_interrupt_handler kc (int_tty s) = Some (SYS_RET_NO_ERROR, t') \<Longrightarrow>
      arch_interrupt_handler io call frame s = Some (s\<lparr>int_ports := outb io 0x20 0x20 w1, int_tty := t'\<rparr>)"
    and "keyboard_interrupt_handler kc (int_tty s) = None \<Longrightarrow> arch_interrupt_handler io call frame s = None"
  using assms by (simp_all add: arch_keyboard_interrupt_handler_def arch_interrupt_handler_def arch_irq_generic_handler_def
      interrupts_generic_handler_def PIC1_COMMAND_def int_outb_def)

text \<open>
  C25: the keyboard interrupt, from the vector to the screen, for every key with a code of one byte: one
  byte is read from the keyboard and the first controller is acknowledged. The release changes nothing on the console. The press puts
  the key's character on the console if it has one and it is not the backspace. The press of Backspace does what the console does with
  that character: behind a character of the row it erases that character and moves the cursor back, and at the start of the screen
  it has no result, because it accesses memory before the buffer.
\<close>

theorem keyboard_interrupt_echo:
  assumes key: "[c, 0, k] \<in> set scancode_set_1" "x = c \<or> x = c OR 0x80" "inb io 0x60 (int_ports s) = (x, w1)"
    and installed: "intHandler_set s" "intHandlers s 33 = Some kb"
      "\<And>n e f t. call kb n e f t = arch_keyboard_interrupt_handler io n t" "int_no frame = 33"
    and tty: "tty_ok (int_tty s)"
  shows "let ch = ascii_at (ucast (ucast k :: u16)); t = int_tty s; h = handle t;
       i = nat (cursory h) * console_w t + nat (cursorx h) - 1
     in if x = c \<and> ch = 0x08 then
          arch_interrupt_handler io call frame s =
            map_option (\<lambda>t'. s\<lparr>int_ports := outb io 0x20 0x20 w1, int_tty := t'\<rparr>) (tty_putch 0x08 t) \<and>
          (0 < cursorx h \<longrightarrow> arch_interrupt_handler io call frame s = Some (s\<lparr>int_ports := outb io 0x20 0x20 w1,
             int_tty := t\<lparr>handle := h\<lparr>cursorx := cursorx h - 1\<rparr>, cells := (cells t)(i := cells t i AND 0xFF00)\<rparr>\<rparr>)) \<and>
          (cursorx h = 0 \<and> cursory h = 0 \<longrightarrow> arch_interrupt_handler io call frame s = None)
        else \<exists>s'. arch_interrupt_handler io call frame s = Some s' \<and> tty_ok (int_tty s') \<and>
          int_ports s' = outb io 0x20 0x20 w1 \<and>
          console (int_tty s') = (if x = c \<and> ch \<noteq> 0 then con_putch (console_w t) (color h) ch (console t) else console t)"
proof -
  define kc where "kc = (if x = c then k else k OR 0x80)"
  define ch where "ch = ascii_at (ucast (ucast kc :: u16))"
  have code: "scancode_resolve_getKeyCode io 1 (int_ports s) = Some (ucast kc, w1)"
    unfolding kc_def by (rule single_key_code [OF key(1,3,2)])
  note vector = keyboard_vector [where call = call and io = io, OF installed(1,2,4,3) code]
  have ch: "ch = (if x = c then ascii_at (ucast (ucast k :: u16)) else 0)"
    using ascii_at_high [OF release_high] by (simp add: ch_def kc_def)
  show ?thesis
  proof (cases "ch = 0x08")
    case True
    then have bs: "x = c \<and> ascii_at (ucast (ucast k :: u16)) = 0x08" using ch by (auto split: if_splits)
    have "arch_interrupt_handler io call frame s =
        map_option (\<lambda>t'. s\<lparr>int_ports := outb io 0x20 0x20 w1, int_tty := t'\<rparr>) (tty_putch 0x08 (int_tty s))"
      using vector keyboard_handler_backspace [of kc "int_tty s"] True
      by (cases "tty_putch 0x08 (int_tty s)") (simp_all add: ch_def)
    then show ?thesis using bs tty_backspace_behaviour [OF tty] by (simp add: Let_def)
  next
    case False
    then have no_bs: "\<not> (x = c \<and> ascii_at (ucast (ucast k :: u16)) = 0x08)" using ch by auto
    obtain t' where t': "keyboard_interrupt_handler (ucast kc) (int_tty s) = Some (SYS_RET_NO_ERROR, t')" "tty_ok t'"
        "console t' = (if ch = 0 then console (int_tty s)
           else con_putch (console_w (int_tty s)) (color (handle (int_tty s))) ch (console (int_tty s)))"
      using keyboard_handler_press [OF tty, of kc] False unfolding ch_def Let_def by blast
    from vector(1) [OF t'(1)] t' ch show ?thesis unfolding Let_def if_not_P [OF no_bs] by simp
  qed
qed

definition key_stream :: "u8 list port_io" where
  "key_stream = \<lparr>in8 = (\<lambda>a w. case w of [] \<Rightarrow> (0, []) | b # bs \<Rightarrow> if a = 0x60 then (b, bs) else (0, w)), out8 = (\<lambda>a v w. w),
     in16 = (\<lambda>a w. (0, w)), out16 = (\<lambda>a v w. w), in32 = (\<lambda>a w. (0, w)), out32 = (\<lambda>a v w. w)\<rparr>"

definition blank_frame :: X86InterruptStackFrame where
  "blank_frame = \<lparr>frame_edi = 0, frame_esi = 0, frame_ebx = 0, frame_edx = 0, frame_ecx = 0, frame_eax = 0, int_no = 33, err_code = 0\<rparr>"

text \<open>The key A, and Backspace at the start of the screen.\<close>

theorem keyboard_interrupt_echo_witness:
  "(\<exists>s'. arch_interrupt_handler key_stream (\<lambda>h n e f t. arch_keyboard_interrupt_handler key_stream n t) blank_frame
       ((blank_interrupts [0x1E])\<lparr>intHandler_set := True, intHandlers := [33 \<mapsto> 0]\<rparr>) = Some s' \<and>
     console (int_tty s') = con_putch 80 0 0x61 (console boot_console)) \<and>
   arch_interrupt_handler key_stream (\<lambda>h n e f t. arch_keyboard_interrupt_handler key_stream n t) blank_frame
       ((blank_interrupts [0x0E])\<lparr>intHandler_set := True, intHandlers := [33 \<mapsto> 0]\<rparr>) = None"
proof
  let ?s = "\<lambda>b. (blank_interrupts [b])\<lparr>intHandler_set := True, intHandlers := [33 \<mapsto> 0]\<rparr>"
  note echo = keyboard_interrupt_echo [of b b b key_stream "?s b" "[]" 0 "\<lambda>h n e f t. arch_keyboard_interrupt_handler key_stream n t" blank_frame for b]
  have keys: "[0x1E, 0, 0x1E] \<in> set scancode_set_1" "[0x0E, 0, 0x0E] \<in> set scancode_set_1"
    by (simp_all add: scancode_set_1_def key_codes)
  have chars: "ascii_at (ucast (ucast (0x1E :: u8) :: u16)) = 0x61" "ascii_at (ucast (ucast (0x0E :: u8) :: u16)) = 0x08"
    by (simp_all add: ascii_at_def keyboard_key_code_to_ascii_map_def)
  have h: "cursorx (handle boot_console) = 0" "cursory (handle boot_console) = 0"
    by (simp_all add: boot_console_def tty_init_def arch_tty_init_def)
  show "\<exists>s'. arch_interrupt_handler key_stream (\<lambda>h n e f t. arch_keyboard_interrupt_handler key_stream n t) blank_frame (?s 0x1E) = Some s' \<and>
     console (int_tty s') = con_putch 80 0 0x61 (console boot_console)"
    using echo [of "0x1E"] keys chars boot_console_ok
    by (auto simp: blank_interrupts_def key_stream_def inb_def blank_frame_def Let_def)
  show "arch_interrupt_handler key_stream (\<lambda>h n e f t. arch_keyboard_interrupt_handler key_stream n t) blank_frame (?s 0x0E) = None"
    using echo [of "0x0E"] keys chars boot_console_ok h
    by (auto simp: blank_interrupts_def key_stream_def inb_def blank_frame_def Let_def)
qed

text \<open>
  Keys with a prefix are not decoded right: the press of the right Alt key is reported as its release, and on
  the cursor key Up the decoder reads ten more bytes and writes behind its array of ten.
\<close>

theorem keyboard_prefix_flaws:
  "scancode_resolve_getKeyCode key_stream 1 [0xE0, 0x38] = Some (ucast (KEYBOARD_KEYCODE_RIGHT_ALT OR 0x80), []) \<and>
   scancode_resolve_getKeyCode key_stream 1 [0xE0, 0x48] = None"
proof
  show "scancode_resolve_getKeyCode key_stream 1 [0xE0, 0x38] = Some (ucast (KEYBOARD_KEYCODE_RIGHT_ALT OR 0x80), [])"
    by code_simp
  show "scancode_resolve_getKeyCode key_stream 1 [0xE0, 0x48] = None" by code_simp
qed

end
