(* ===== verification/Format.thy ===== *)
theory Format
  imports Tty
begin

text \<open>
  What the formats of \<^verbatim>\<open>src/kernel/libc/stdio/sprintf.c\<close> stand for: a reference renderer, and the proof that the
  interpreter of format strings computes it for formats without width, precision and length.
\<close>

section \<open>What a format stands for\<close>

text \<open>
  One conversion: \<open>f\<close> is the rest of the format after the percent sign, \<open>a\<close> the argument and \<open>z\<close> what the buffer holds
  where the conversion writes. A string argument is looked up in \<open>strs\<close>. The conversion \<^verbatim>\<open>%x\<close> shows the magnitude of
  the signed argument; \<^verbatim>\<open>%#x\<close> leaves the first character of its prefix as it was, and shows no digit for 0.
\<close>

definition convert_arg :: "(u32 \<rightharpoonup> u8 list) \<Rightarrow> u8 \<Rightarrow> u8 list \<Rightarrow> u32 \<Rightarrow> (u8 list \<times> u8 list) option" where
  "convert_arg strs z f a = (case f of
     [] \<Rightarrow> None
   | k # g \<Rightarrow>
       if k = 0x64 \<or> k = 0x69 then Some (number_chars 10 (sint a), g)
       else if k = 0x78 \<or> k = 0x70 then Some (number_chars 16 \<bar>sint a\<bar>, g)
       else if k = 0x63 then Some ([ucast a], g)
       else if k = 0x73 then map_option (\<lambda>ys. (ys, g)) (strs a)
       else if k = 0x23 then (case g of
           [] \<Rightarrow> None
         | l # g' \<Rightarrow>
             if l = 0x78 then Some (z # 0x78 # (if a = 0 then [] else number_chars 16 \<bar>sint a\<bar>), g') else None)
       else None)"

lemma convert_arg_shorter: "convert_arg strs z f a = Some (xs, g) \<Longrightarrow> length g < length f"
  by (auto simp: convert_arg_def split: list.splits if_splits)

function expand :: "(u32 \<rightharpoonup> u8 list) \<Rightarrow> (nat \<Rightarrow> u8) \<Rightarrow> nat \<Rightarrow> u8 list \<Rightarrow> u32 list \<Rightarrow> u8 list option" where
  "expand strs old i [] args = Some []"
| "expand strs old i (c # f) args =
     (if c \<noteq> 0x25 then map_option (Cons c) (expand strs old (Suc i) f args)
      else (case args of
          [] \<Rightarrow> None
        | a # as \<Rightarrow> (case convert_arg strs (old i) f a of
              None \<Rightarrow> None
            | Some (xs, g) \<Rightarrow> map_option ((@) xs) (expand strs old (i + length xs) g as))))"
  by pat_completeness auto
termination
  by (relation "measure (\<lambda>(strs, old, i, f, args). length f)") (auto dest: convert_arg_shorter)

section \<open>Numbers\<close>

lemma count_digits_minus: "count_digits radix (- a) n = count_digits radix a n"
proof (induction radix a n rule: count_digits.induct)
  case (1 radix a n)
  have "c_div (- a) radix = - c_div a radix" by (simp add: c_div_def)
  with 1 show ?case by (subst (1 2) count_digits.simps) (auto simp del: count_digits.simps)
qed

lemma unsigned_flags:
  "has_flag (FORMAT_FLAG_ALT_FORM OR FORMAT_FLAG_UNSIGNED) FORMAT_FLAG_UNSIGNED"
  "has_flag (FORMAT_FLAG_ALT_FORM OR FORMAT_FLAG_UNSIGNED) FORMAT_FLAG_ALT_FORM"
  "\<not> has_flag (FORMAT_FLAG_ALT_FORM OR FORMAT_FLAG_UNSIGNED) FORMAT_FLAG_LEFT_JUSTIFY"
  "\<not> has_flag (FORMAT_FLAG_ALT_FORM OR FORMAT_FLAG_UNSIGNED) FORMAT_FLAG_UPPERCASE_HEX"
  "\<not> has_flag (FORMAT_FLAG_ALT_FORM OR FORMAT_FLAG_UNSIGNED) FORMAT_FLAG_BEGIN_WITH_SIGN"
  by (simp_all add: has_flag_def format_flags)

lemma convert_unsigned_abs:
  assumes "- (2 ^ 63) < a" "has_flag fl FORMAT_FLAG_UNSIGNED"
  shows "convert_any_int_to_str a fl 0 0 radix out m = convert_any_int_to_str \<bar>a\<bar> fl 0 0 radix out m"
proof (cases "a < 0")
  case True
  then have "negate64 a = - a" "\<bar>a\<bar> = - a" using assms(1) by (auto simp: negate64_def)
  moreover have "\<not> - a < 0" using True by simp
  ultimately show ?thesis using True assms(2) unfolding convert_any_int_to_str_def
    by (simp only: Let_def count_digits_minus simp_thms if_True if_False prod.case)
qed simp

lemma convert_decimal_chars:
  assumes "- (2 ^ 63) < a" "a < 2 ^ 63"
  shows "\<exists>m'. convert_any_int_to_str a 0 0 0 10 out m = (of_nat (length (number_chars 10 a)), m') \<and>
     holds m' out (number_chars 10 a) \<and> (\<forall>x. \<not> in_range out (length (number_chars 10 a)) x \<longrightarrow> m' x = m x)"
proof (cases "a < 0")
  case True
  from convert_negative [OF True assms(1), of out m] obtain n m' where
    c: "convert_any_int_to_str a 0 0 0 10 out m = (of_nat (Suc n), m')" "0 < n"
      "holds m' out (0x2D # numeral_chars 10 n (- a))" "- a < 10 ^ n" "10 ^ (n - 1) \<le> - a"
      "\<forall>x. \<not> in_range out (Suc n) x \<longrightarrow> m' x = m x" by blast
  have "n = ndigits 10 (- a)" using True c by (intro ndigits_unique) auto
  with c True show ?thesis by (auto simp: number_chars_def sign_chars_def)
next
  case False
  from convert_plain [of a 10 0 out m] False assms obtain n m' where
    c: "convert_any_int_to_str a 0 0 0 10 out m = (of_nat n, m')" "0 < n"
      "holds m' out (numeral_chars 10 n a)" "a < 10 ^ n" "n = 1 \<or> 10 ^ (n - 1) \<le> a"
      "\<forall>x. \<not> in_range out n x \<longrightarrow> m' x = m x" by auto
  have "n = ndigits 10 a" using False c by (intro ndigits_unique) auto
  with c False show ?thesis by (auto simp: number_chars_def sign_chars_def)
qed

lemma convert_hex_chars:
  assumes "- (2 ^ 63) < a" "a < 2 ^ 63"
  shows "\<exists>m'. convert_any_int_to_str a FORMAT_FLAG_UNSIGNED 0 0 16 out m = (of_nat (length (number_chars 16 \<bar>a\<bar>)), m') \<and>
     holds m' out (number_chars 16 \<bar>a\<bar>) \<and> (\<forall>x. \<not> in_range out (length (number_chars 16 \<bar>a\<bar>)) x \<longrightarrow> m' x = m x)"
proof -
  have "\<bar>a\<bar> < 2 ^ 63" using assms by auto
  with convert_plain [of "\<bar>a\<bar>" 16 FORMAT_FLAG_UNSIGNED out m] obtain n m' where
    c: "convert_any_int_to_str \<bar>a\<bar> FORMAT_FLAG_UNSIGNED 0 0 16 out m = (of_nat n, m')" "0 < n"
      "holds m' out (numeral_chars 16 n \<bar>a\<bar>)" "\<bar>a\<bar> < 16 ^ n" "n = 1 \<or> 16 ^ (n - 1) \<le> \<bar>a\<bar>"
      "\<forall>x. \<not> in_range out n x \<longrightarrow> m' x = m x" by auto
  have "n = ndigits 16 \<bar>a\<bar>" by (rule ndigits_unique [OF _ _ c(2,4,5)]) simp_all
  moreover have "convert_any_int_to_str a FORMAT_FLAG_UNSIGNED 0 0 16 out m = (of_nat n, m')"
    using convert_unsigned_abs [OF assms(1), of FORMAT_FLAG_UNSIGNED 16 out m] c(1) by simp
  ultimately show ?thesis using c by (simp add: number_chars_def sign_chars_def)
qed

lemma holds_Cons: "holds m b (x # xs) \<longleftrightarrow> m b = x \<and> holds m (b + 1) xs"
  by (auto simp: holds_def All_less_Suc2 add.assoc)

lemma convert_alt_chars:
  assumes "- (2 ^ 63) < a" "a < 2 ^ 63" "xs = m out # 0x78 # (if a = 0 then [] else number_chars 16 \<bar>a\<bar>)"
  shows "\<exists>m'. convert_any_int_to_str a (FORMAT_FLAG_ALT_FORM OR FORMAT_FLAG_UNSIGNED) 0 0 16 out m = (of_nat (length xs), m') \<and>
     holds m' out xs \<and> (\<forall>x. \<not> in_range out (length xs) x \<longrightarrow> m' x = m x)"
proof -
  have a: "0 \<le> \<bar>a\<bar>" "\<bar>a\<bar> < 2 ^ 63" using assms by auto
  obtain k where k: "count_digits 16 \<bar>a\<bar> 2 = 2 + of_nat k" "\<bar>a\<bar> < 16 ^ k" "if \<bar>a\<bar> = 0 then k = 0 else 0 < k \<and> 16 ^ (k - 1) \<le> \<bar>a\<bar>"
    using count_digits_spec [OF a(1), of 16 2] by auto
  have k63: "k \<le> 63" using k(3) digits_bound [OF _ a(2), of 16 k] by (auto split: if_splits)
  have dig: "numeral_chars 16 k \<bar>a\<bar> = (if a = 0 then [] else number_chars 16 \<bar>a\<bar>)"
  proof (cases "a = 0")
    case True
    with k(3) show ?thesis by (simp add: numeral_chars_def)
  next
    case False
    with k(3) have "0 < k" "k = 1 \<or> 16 ^ (k - 1) \<le> \<bar>a\<bar>" by simp_all
    then have "k = ndigits 16 \<bar>a\<bar>" by (intro ndigits_unique a(1) k(2)) simp_all
    with False show ?thesis by (simp add: number_chars_def sign_chars_def)
  qed
  have len: "length xs = Suc (Suc k)" unfolding assms(3) dig [symmetric] by simp
  have un: "unat (of_nat k :: u32) = k" "unat (2 + of_nat k :: u32) = Suc (Suc k)"
    using k63 by (simp_all add: unat_of_nat_u32 unat_word_ariths)
  have ge: "\<not> 2 + of_nat k < (1 :: u32)" using un by (simp add: word_less_nat_alt)
  obtain m1 where m1: "emit_digits k 0x61 16 out (2 + of_nat k) \<bar>a\<bar> m = (2, m1)" "holds m1 (out + 2) (numeral_chars 16 k \<bar>a\<bar>)"
      "\<forall>x. \<not> in_range (out + 2) k x \<longrightarrow> m1 x = m x"
    using emit_digits_spec [OF a(1), of 16 k "Suc (Suc k)" out m] k63 by (auto simp: add.commute)
  let ?m = "m1(out + 1 := 0x78)"
  have "convert_any_int_to_str \<bar>a\<bar> (FORMAT_FLAG_ALT_FORM OR FORMAT_FLAG_UNSIGNED) 0 0 16 out m = (2 + of_nat k, ?m)"
    using a k(1) m1(1) un ge by (simp add: convert_any_int_to_str_def Let_def unsigned_flags)
  then have "convert_any_int_to_str a (FORMAT_FLAG_ALT_FORM OR FORMAT_FLAG_UNSIGNED) 0 0 16 out m = (of_nat (length xs), ?m)"
    using convert_unsigned_abs [OF assms(1) unsigned_flags(1)] len by simp
  moreover have "holds ?m out xs"
  proof -
    have ne: "out + 2 + of_nat p \<noteq> out + 1" if "p < k" for p
    proof
      assume "out + 2 + of_nat p = out + 1"
      then have "(of_nat (Suc p) :: u32) = 0" by simp
      moreover have "unat (of_nat (Suc p) :: u32) = Suc p" using that k63 by (intro unat_of_nat_u32) simp
      ultimately show False by simp
    qed
    have "\<not> in_range (out + 2) k out" using k63 by (simp add: in_range_def)
    then have "m1 out = m out" using m1(3) by blast
    then show ?thesis using m1(2) ne assms(3) unfolding assms(3) holds_Cons dig [symmetric] by (auto simp: holds_def add.assoc)
  qed
  moreover have "?m x = m x" if "\<not> in_range out (length xs) x" for x
  proof -
    have "\<not> in_range (out + 2) k x" "x \<noteq> out + 1"
      using that k63 in_range_Suc [of "Suc k" out x] in_range_Suc [of k "out + 1" x] unfolding len by (auto simp: add.commute)
    then show ?thesis using m1(3) by simp
  qed
  ultimately show ?thesis by blast
qed

section \<open>Conversions\<close>

lemma copy_string_arg_eq:
  assumes "cstring_at m arg ys" "length ys < 4294967296" "no_overlap buf (length ys) arg (length ys + 1)"
  shows "copy_string_arg 0 pr cnt arg buf m = Some (buf + of_nat (length ys), memcpy_loop (length ys) buf arg m)"
  using assms
proof (induction ys arbitrary: buf arg m cnt)
  case Nil
  then show ?case by (simp add: copy_string_arg.simps)
next
  case (Cons y ys)
  let ?m = "m(buf := m arg)"
  have same: "?m (arg + of_nat i) = m (arg + of_nat i)" if "i < length (y # ys) + 1" for i
    using Cons.prems(3) that by (auto simp: no_overlap_def in_range_def)
  have "cstring_at ?m (arg + 1) ys"
  proof (rule cstring_at_frame)
    show "cstring_at m (arg + 1) ys" using Cons.prems by simp
    show "?m (arg + 1 + of_nat i) = m (arg + 1 + of_nat i)" if "i \<le> length ys" for i
      using same [of "Suc i"] that by (simp add: add.assoc)
  qed
  moreover have "no_overlap (buf + 1) (length ys) (arg + 1) (length ys + 1)"
    using Cons.prems by (intro no_overlap_step) auto
  ultimately have "copy_string_arg 0 pr (cnt + 1) (arg + 1) (buf + 1) ?m =
      Some (buf + 1 + of_nat (length ys), memcpy_loop (length ys) (buf + 1) (arg + 1) ?m)"
    using Cons.IH Cons.prems by simp
  with Cons.prems show ?case by (subst copy_string_arg.simps) (auto simp: add.assoc)
qed

lemma conversion_number:
  "m (p + 1) \<in> {0x64, 0x69} \<Longrightarrow> convert_any_int_to_str (sint w) 0 0 0 10 buf m = (n, m1) \<Longrightarrow>
     format_conversion str buf m (new_conversion p (w # args)) =
       Some (buf + n, m1, (new_conversion (p + 2) args)\<lparr>conv_state := FORMAT_STATE_SPECIFIER\<rparr>)"
  "m (p + 1) \<in> {0x78, 0x70} \<Longrightarrow> convert_any_int_to_str (sint w) FORMAT_FLAG_UNSIGNED 0 0 16 buf m = (n, m1) \<Longrightarrow>
     format_conversion str buf m (new_conversion p (w # args)) =
       Some (buf + n, m1, (new_conversion (p + 2) args)\<lparr>conv_state := FORMAT_STATE_SPECIFIER\<rparr>)"
  by (simp only: insert_iff empty_iff simp_thms; elim disjE; subst format_conversion.simps; simp add: format_eval)+

lemma conversion_alt:
  assumes "m (p + 1) = 0x23" "m (p + 2) = 0x78"
    and "convert_any_int_to_str (sint w) (FORMAT_FLAG_ALT_FORM OR FORMAT_FLAG_UNSIGNED) 0 0 16 buf m = (n, m1)"
  shows "\<exists>c. format_conversion str buf m (new_conversion p (w # args)) = Some (buf + n, m1, c) \<and> conv_ptr c = p + 3 \<and> conv_args c = args"
proof -
  let ?c = "(new_conversion (p + 1) (w # args))\<lparr>conv_flags := FORMAT_FLAG_ALT_FORM\<rparr>"
  have "format_conversion str buf m (new_conversion p (w # args)) = format_conversion str buf m ?c"
    using assms(1) by (subst format_conversion.simps) (simp add: format_eval)
  moreover have "format_conversion str buf m ?c = Some (buf + n, m1, (new_conversion (p + 3) args)\<lparr>conv_flags := FORMAT_FLAG_ALT_FORM, conv_state := FORMAT_STATE_SPECIFIER\<rparr>)"
    using assms(2,3) by (subst format_conversion.simps) (simp add: format_eval add.assoc)
  ultimately show ?thesis by simp
qed

lemma conversion_char_string:
  "m (p + 1) = 0x63 \<Longrightarrow> format_conversion str buf m (new_conversion p (w # args)) =
     Some (buf + 1, m(buf := ucast w), (new_conversion (p + 2) args)\<lparr>conv_state := FORMAT_STATE_SPECIFIER\<rparr>)"
  "m (p + 1) = 0x73 \<Longrightarrow> copy_string_arg 0 0 0 w buf m = Some (buf1, m1) \<Longrightarrow>
     format_conversion str buf m (new_conversion p (w # args)) =
       Some (buf1, m1, (new_conversion (p + 2) args)\<lparr>conv_state := FORMAT_STATE_SPECIFIER\<rparr>)"
  by (subst format_conversion.simps; simp add: format_eval)+

lemma holds_append: "holds m b (xs @ ys) \<longleftrightarrow> holds m b xs \<and> holds m (b + of_nat (length xs)) ys"
proof (induction xs arbitrary: b)
  case Nil
  then show ?case by (simp add: holds_def)
qed (simp add: holds_Cons add.assoc)

lemma conversion_step:
  assumes "convert_arg strs (m buf) f a = Some (ys, g)" "cstring_at m (p + 1) f" "length ys < 4294967296"
    and "\<And>b zs. strs b = Some zs \<Longrightarrow> cstring_at m b zs" "\<And>b. strs b = Some ys \<Longrightarrow> no_overlap buf (length ys) b (length ys + 1)"
  shows "\<exists>m1 c q. format_conversion str buf m (new_conversion p (a # as)) = Some (buf + of_nat (length ys), m1, c) \<and>
     conv_args c = as \<and> holds m1 buf ys \<and> (\<forall>x. \<not> in_range buf (length ys) x \<longrightarrow> m1 x = m x) \<and>
     q \<noteq> [] \<and> f = q @ g \<and> conv_ptr c = p + 1 + of_nat (length q)"
proof -
  obtain k f' where f: "f = k # f'" using assms(1) by (cases f) (auto simp: convert_arg_def)
  then have k: "m (p + 1) = k" using assms(2) by simp
  have r: "- (2 ^ 63) < sint a" "sint a < 2 ^ 63" using sint_greater_eq [of a] sint_less [of a] by simp_all
  consider (dec) "k \<in> {0x64, 0x69}" "ys = number_chars 10 (sint a)" "g = f'"
    | (hex) "k \<in> {0x78, 0x70}" "ys = number_chars 16 \<bar>sint a\<bar>" "g = f'"
    | (char) "k = 0x63" "ys = [ucast a]" "g = f'"
    | (string) "k = 0x73" "strs a = Some ys" "g = f'"
    | (alt) "k = 0x23" "f' = 0x78 # g" "ys = m buf # 0x78 # (if sint a = 0 then [] else number_chars 16 \<bar>sint a\<bar>)"
  proof -
    have "(sint a = 0) = (a = 0)" by (metis sint_0 signed_word_eqI)
    with assms(1) show thesis unfolding convert_arg_def f
      by (auto split: if_splits list.splits intro: dec hex char string alt)
  qed
  then show ?thesis
  proof cases
    case dec
    from convert_decimal_chars [OF r, of buf m] obtain m1 where m1: "convert_any_int_to_str (sint a) 0 0 0 10 buf m = (of_nat (length ys), m1)"
      "holds m1 buf ys" "\<forall>x. \<not> in_range buf (length ys) x \<longrightarrow> m1 x = m x" unfolding dec(2) by blast
    show ?thesis using conversion_number(1) [OF _ m1(1), of p str as] m1(2,3) dec(1,3) k f
      by (intro exI conjI [rotated]) (auto intro!: exI [of _ "[k]"])
  next
    case hex
    from convert_hex_chars [OF r, of buf m] obtain m1 where m1: "convert_any_int_to_str (sint a) FORMAT_FLAG_UNSIGNED 0 0 16 buf m = (of_nat (length ys), m1)"
      "holds m1 buf ys" "\<forall>x. \<not> in_range buf (length ys) x \<longrightarrow> m1 x = m x" unfolding hex(2) by blast
    show ?thesis using conversion_number(2) [OF _ m1(1), of p str as] m1(2,3) hex(1,3) k f
      by (auto intro!: exI [of _ "[k]"])
  next
    case char
    then show ?thesis using conversion_char_string(1) [of m p str buf a as] k f
      by (auto intro!: exI [of _ "[k]"] simp: holds_def in_range_def)
  next
    case string
    have m1: "copy_string_arg 0 0 0 a buf m = Some (buf + of_nat (length ys), memcpy_loop (length ys) buf a m)"
      using assms(3-5) string(2) by (intro copy_string_arg_eq) auto
    have over: "no_overlap buf (length ys) a (length ys)" using assms(5) [OF string(2)] by (simp add: no_overlap_def)
    have h: "holds (memcpy_loop (length ys) buf a m) buf ys" "\<forall>x. \<not> in_range buf (length ys) x \<longrightarrow> memcpy_loop (length ys) buf a m x = m x"
      using assms(3,4) string(2) over by (auto simp: holds_def memcpy_loop_apply in_range_def unat_of_nat_u32 cstring_at_nth)
    show ?thesis using conversion_char_string(2) [OF _ m1, of p str as] h string(1,3) k f
      by (auto intro!: exI [of _ "[k]"])
  next
    case alt
    from convert_alt_chars [where m = m and out = buf, OF r alt(3)] obtain m1 where m1:
      "convert_any_int_to_str (sint a) (FORMAT_FLAG_ALT_FORM OR FORMAT_FLAG_UNSIGNED) 0 0 16 buf m = (of_nat (length ys), m1)"
      "holds m1 buf ys" "\<forall>x. \<not> in_range buf (length ys) x \<longrightarrow> m1 x = m x" by blast
    have k2: "m (p + 2) = 0x78" using assms(2) f alt(2) by (simp add: add.assoc)
    show ?thesis using conversion_alt [OF _ k2 m1(1), of str as] m1(2,3) alt(1,2) k f
      by (auto intro!: exI [of _ "[k, 0x78]"] simp: add.assoc)
  qed
qed

section \<open>Formats\<close>

lemma in_range_part:
  assumes "in_range (str + of_nat i) n x" "i + n \<le> N" "N < 4294967296"
  shows "in_range str N x"
proof -
  define y where "y = x - (str + of_nat i)"
  have "unat (y + of_nat i) = unat y + i"
    using assms by (simp add: in_range_def y_def [symmetric] unat_word_ariths unat_of_nat_u32)
  moreover have "x - str = y + of_nat i" by (simp add: y_def)
  ultimately show ?thesis using assms by (simp add: in_range_def y_def [symmetric])
qed

lemma in_range_after:
  assumes "i + n \<le> k" "k < 4294967296"
  shows "\<not> in_range (str + of_nat i) n (str + of_nat k)"
proof -
  have "str + of_nat k - (str + of_nat i) = (of_nat (k - i) :: u32)" using assms by (simp add: of_nat_diff)
  then have "unat (str + of_nat k - (str + of_nat i)) = k - i" using assms by (simp only: unat_of_nat_u32)
  then show ?thesis using assms by (simp only: in_range_def)
qed

lemma in_range_before:
  assumes "k < n" "i + (n + l) < 4294967296"
  shows "\<not> in_range (str + of_nat (i + n)) l (str + of_nat i + of_nat k)"
proof
  assume in_r: "in_range (str + of_nat (i + n)) l (str + of_nat i + of_nat k)"
  define y where "y = unat (str + of_nat i + of_nat k - (str + of_nat (i + n)))"
  have y: "y < l" using in_r by (simp add: in_range_def y_def)
  have "(of_nat y :: u32) = of_nat k - of_nat n" unfolding y_def by simp
  then have "(of_nat (n + y) :: u32) = of_nat k" by simp
  then have "unat (of_nat (n + y) :: u32) = unat (of_nat k :: u32)" by simp
  moreover have "n + y < 4294967296" "k < 4294967296" using assms y by simp_all
  ultimately have "n + y = k" by (simp only: unat_of_nat_u32)
  with assms(1) show False by simp
qed

text \<open>What an output that stays within the buffer leaves as it is.\<close>

lemma output_frame:
  assumes "\<forall>x. \<not> in_range (str + of_nat i) n x \<longrightarrow> m1 x = m x" "i + n \<le> N" "N < 4294967296"
  shows "cstring_at m b zs \<Longrightarrow> no_overlap str N b (length zs + 1) \<Longrightarrow> cstring_at m1 b zs"
    and "i + n \<le> k \<Longrightarrow> k \<le> N \<Longrightarrow> m1 (str + of_nat k) = m (str + of_nat k)"
proof -
  show "cstring_at m1 b zs" if "cstring_at m b zs" "no_overlap str N b (length zs + 1)"
  proof (rule cstring_at_frame [OF that(1)])
    fix j assume "j \<le> length zs"
    then have "\<not> in_range str N (b + of_nat j)" using that(2) by (simp add: no_overlap_def)
    then show "m1 (b + of_nat j) = m (b + of_nat j)" using assms in_range_part by blast
  qed
  show "m1 (str + of_nat k) = m (str + of_nat k)" if "i + n \<le> k" "k \<le> N"
    using assms(1,3) in_range_after [OF that(1)] that(2) by auto
qed

lemma no_overlap_tail:
  assumes "no_overlap str N p (length (q @ g) + 1)"
  shows "no_overlap str N (p + of_nat (length q)) (length g + 1)"
  unfolding no_overlap_def
proof (intro allI impI)
  fix i assume "i < length g + 1"
  then have "\<not> in_range str N (p + of_nat (length q + i))" using assms by (simp only: no_overlap_def length_append) auto
  then show "\<not> in_range str N (p + of_nat (length q) + of_nat i)" by (simp add: add.assoc)
qed

lemma no_overlap_part:
  assumes "no_overlap str N b k" "i + n \<le> N" "N < 4294967296"
  shows "no_overlap (str + of_nat i) n b k"
  using assms in_range_part unfolding no_overlap_def by blast

lemma vsprintf_loop_expand:
  assumes "expand strs old i f args = Some xs" "cstring_at m p f" "i + length xs \<le> N" "N < 4294967296"
    and "no_overlap str N p (length f + 1)"
    and "\<And>a ys. strs a = Some ys \<Longrightarrow> cstring_at m a ys \<and> no_overlap str N a (length ys + 1)"
    and "\<And>k. i \<le> k \<Longrightarrow> k \<le> N \<Longrightarrow> m (str + of_nat k) = old k"
  shows "\<exists>m'. vsprintf_loop str (str + of_nat i) p args m = Some (str + of_nat (i + length xs), m') \<and>
     holds m' (str + of_nat i) xs \<and> (\<forall>x. \<not> in_range (str + of_nat i) (length xs) x \<longrightarrow> m' x = m x)"
  using assms
proof (induction strs old i f args arbitrary: xs m p rule: expand.induct)
  case (1 strs old i args)
  then show ?case by (simp add: vsprintf_loop.simps holds_def)
next
  case (2 strs old i c f args)
  let ?b = "str + of_nat i"
  have mp: "m p = c" "c \<noteq> 0" "cstring_at m (p + 1) f" using "2.prems"(2) by simp_all
  show ?case
  proof (cases "c = 0x25")
    case False
    then obtain ys where ys: "expand strs old (Suc i) f args = Some ys" "xs = c # ys" using "2.prems"(1) by auto
    let ?m = "m(?b := c)"
    have fr: "\<forall>x. \<not> in_range ?b 1 x \<longrightarrow> ?m x = m x" by (auto simp: in_range_def)
    note frame = output_frame [OF fr _ "2.prems"(4)]
    have tail: "no_overlap str N (p + 1) (length f + 1)" using no_overlap_tail [of str N p "[c]" f] "2.prems"(5) by simp
    have "\<exists>m'. vsprintf_loop str (str + of_nat (Suc i)) (p + 1) args ?m = Some (str + of_nat (Suc i + length ys), m') \<and>
        holds m' (str + of_nat (Suc i)) ys \<and> (\<forall>x. \<not> in_range (str + of_nat (Suc i)) (length ys) x \<longrightarrow> m' x = ?m x)"
    proof (rule "2.IH"(1) [OF _ ys(1)])
      show "cstring_at ?m (p + 1) f" by (rule frame(1) [OF _ mp(3) tail]) (use "2.prems"(3) ys(2) in simp)
      show "cstring_at ?m a zs \<and> no_overlap str N a (length zs + 1)" if "strs a = Some zs" for a zs
        using frame(1) [of a zs] "2.prems"(6) [OF that] "2.prems"(3) ys(2) by (simp del: fun_upd_apply)
      show "?m (str + of_nat k) = old k" if "Suc i \<le> k" "k \<le> N" for k
        using frame(2) [of k] that "2.prems"(3,7) ys(2) by simp
    qed (use False "2.prems" ys tail in auto)
    then obtain m' where m': "vsprintf_loop str (?b + 1) (p + 1) args ?m = Some (str + of_nat (i + length xs), m')"
        "holds m' (?b + 1) ys" "\<forall>x. \<not> in_range (?b + 1) (length ys) x \<longrightarrow> m' x = ?m x"
      using ys(2) by (auto simp: add.assoc add.commute [of 1])
    have "\<not> in_range (str + of_nat (Suc i)) (length ys) ?b"
      using in_range_before [of 0 1 i "length ys" str] "2.prems"(3,4) ys(2) by simp
    then have b: "m' ?b = c" using m'(3) by (simp add: add.assoc add.commute [of 1])
    have step: "vsprintf_loop str ?b p args m = vsprintf_loop str (?b + 1) (p + 1) args ?m"
      using mp False by (subst vsprintf_loop.simps) (simp add: chr_def)
    have fr2: "m' x = m x" if "\<not> in_range ?b (length xs) x" for x
    proof -
      have "x \<noteq> ?b" "\<not> in_range (?b + 1) (length ys) x"
        using that ys(2) "2.prems"(3,4) in_range_Suc [of "length ys" ?b x] by auto
      then show ?thesis using m'(3) by simp
    qed
    have "holds m' ?b xs" unfolding ys(2) holds_Cons using b m'(2) by simp
    with step m'(1) fr2 show ?thesis by auto
  next
    case True
    then obtain a as ys g zs where conv: "args = a # as" "convert_arg strs (old i) f a = Some (ys, g)"
        "expand strs old (i + length ys) g as = Some zs" "xs = ys @ zs"
      using "2.prems"(1) by (auto split: list.splits option.splits)
    have len: "i + length ys \<le> N" "length ys < 4294967296" using "2.prems"(3,4) conv(4) by auto
    have old: "m ?b = old i" using "2.prems"(3,7) by simp
    have "\<exists>m1 c' q. format_conversion str ?b m (new_conversion p (a # as)) = Some (?b + of_nat (length ys), m1, c') \<and>
        conv_args c' = as \<and> holds m1 ?b ys \<and> (\<forall>x. \<not> in_range ?b (length ys) x \<longrightarrow> m1 x = m x) \<and>
        q \<noteq> [] \<and> f = q @ g \<and> conv_ptr c' = p + 1 + of_nat (length q)"
    proof (rule conversion_step)
      show "convert_arg strs (m ?b) f a = Some (ys, g)" using conv(2) old by simp
      show "no_overlap ?b (length ys) b (length ys + 1)" if "strs b = Some ys" for b
        using no_overlap_part [OF _ len(1) "2.prems"(4)] "2.prems"(6) [OF that] by blast
    qed (use mp(3) len(2) "2.prems"(6) in auto)
    then obtain m1 c' q where c': "format_conversion str ?b m (new_conversion p (a # as)) = Some (?b + of_nat (length ys), m1, c')"
        "conv_args c' = as" "holds m1 ?b ys" "\<forall>x. \<not> in_range ?b (length ys) x \<longrightarrow> m1 x = m x"
        "f = q @ g" "conv_ptr c' = p + of_nat (length (c # q))" by (auto simp: add.assoc)
    note frame = output_frame [OF c'(4) len(1) "2.prems"(4)]
    have tail: "no_overlap str N (p + of_nat (length (c # q))) (length g + 1)"
      using no_overlap_tail [of str N p "c # q" g] "2.prems"(5) c'(5) by simp
    have g: "cstring_at m (p + of_nat (length (c # q))) g"
      using "2.prems"(2) cstring_at_append [of m p "c # q" g] unfolding c'(5) by simp
    have "\<exists>m'. vsprintf_loop str (str + of_nat (i + length ys)) (conv_ptr c') as m1 = Some (str + of_nat (i + length ys + length zs), m') \<and>
        holds m' (str + of_nat (i + length ys)) zs \<and> (\<forall>x. \<not> in_range (str + of_nat (i + length ys)) (length zs) x \<longrightarrow> m' x = m1 x)"
    proof (rule "2.IH"(2) [OF _ conv(1,2) _ conv(3)])
      show "cstring_at m1 (conv_ptr c') g" unfolding c'(6) by (rule frame(1) [OF g tail])
      show "cstring_at m1 b vs \<and> no_overlap str N b (length vs + 1)" if "strs b = Some vs" for b vs
        using frame(1) [of b vs] "2.prems"(6) [OF that] by simp
      show "m1 (str + of_nat k) = old k" if "i + length ys \<le> k" "k \<le> N" for k
        using frame(2) [OF that] that "2.prems"(7) by simp
    qed (use True "2.prems" conv tail c'(6) in auto)
    then obtain m' where m': "vsprintf_loop str (?b + of_nat (length ys)) (conv_ptr c') as m1 = Some (str + of_nat (i + length xs), m')"
        "holds m' (?b + of_nat (length ys)) zs" "\<forall>x. \<not> in_range (str + of_nat (i + length ys)) (length zs) x \<longrightarrow> m' x = m1 x"
      using conv(4) by (auto simp: add.assoc)
    have lenz: "i + (length ys + length zs) \<le> N" using "2.prems"(3) conv(4) by simp
    have keep: "m' (?b + of_nat k) = m1 (?b + of_nat k)" if "k < length ys" for k
      using m'(3) in_range_before [of k "length ys" i "length zs" str] that lenz "2.prems"(4) by (simp add: add.assoc)
    have "holds m' ?b xs" unfolding conv(4) holds_append using m'(2) c'(3) keep by (auto simp: holds_def)
    moreover have "m' x = m x" if "\<not> in_range ?b (length xs) x" for x
    proof -
      have "\<not> in_range ?b (length ys) x" "\<not> in_range (?b + of_nat (length ys)) (length zs) x"
        using that conv(4) in_range_part [of ?b "length ys" "length zs" x "length xs"] lenz "2.prems"(4) by (auto simp: in_range_def)
      then show ?thesis using c'(4) m'(3) by (simp add: add.assoc)
    qed
    moreover have "vsprintf_loop str ?b p args m = Some (str + of_nat (i + length xs), m')"
      using mp True conv(1) c'(1,2) m'(1) by (subst vsprintf_loop.simps) (simp add: chr_def)
    ultimately show ?thesis by blast
  qed
qed

lemma vsprintf_expand:
  assumes "cstring_at m p f" "expand strs (\<lambda>k. m (str + of_nat k)) 0 f args = Some xs" "length xs < 4294967295"
    and "no_overlap str (length xs) p (length f + 1)"
    and "\<And>a ys. strs a = Some ys \<Longrightarrow> cstring_at m a ys \<and> no_overlap str (length xs) a (length ys + 1)"
  shows "\<exists>m'. kaos_vsprintf str p args m = Some (of_nat (length xs), m') \<and> holds m' str xs \<and>
     m' (str + of_nat (length xs)) = 0 \<and> (\<forall>x. \<not> in_range str (length xs + 1) x \<longrightarrow> m' x = m x)"
proof -
  obtain m1 where m1: "vsprintf_loop str str p args m = Some (str + of_nat (length xs), m1)" "holds m1 str xs"
      "\<forall>x. \<not> in_range str (length xs) x \<longrightarrow> m1 x = m x"
    using vsprintf_loop_expand [OF assms(2,1) _ _ assms(4,5)] assms(3) by auto
  let ?m = "m1(str + of_nat (length xs) := 0)"
  have "kaos_vsprintf str p args m = Some (of_nat (length xs), ?m)" by (simp add: kaos_vsprintf_def m1(1))
  moreover have "holds ?m str xs" unfolding holds_def
  proof (intro allI impI)
    fix k assume k: "k < length xs"
    then have "\<not> in_range (str + of_nat (0 + length xs)) 1 (str + of_nat 0 + of_nat k)" using assms(3) by (intro in_range_before) auto
    then have "str + of_nat k \<noteq> str + of_nat (length xs)" by (auto simp: in_range_def)
    with m1(2) k show "?m (str + of_nat k) = xs ! k" by (simp add: holds_def)
  qed
  moreover have "?m x = m x" if "\<not> in_range str (length xs + 1) x" for x
  proof -
    have "\<not> in_range str (length xs) x" using that by (simp add: in_range_def)
    moreover have "x \<noteq> str + of_nat (length xs)" using that assms(3) by (auto simp: in_range_def unat_of_nat_u32)
    ultimately show ?thesis using m1(3) by simp
  qed
  ultimately show ?thesis by auto
qed

lemma expand_cong:
  assumes "expand strs old i f args = Some xs" "\<And>k. i \<le> k \<Longrightarrow> k < i + length xs \<Longrightarrow> old' k = old k"
  shows "expand strs old' i f args = Some xs"
  using assms
proof (induction strs old i f args arbitrary: xs rule: expand.induct)
  case (2 strs old i c f args)
  show ?case
  proof (cases "c = 0x25")
    case False
    with "2.prems" "2.IH"(1) show ?thesis by fastforce
  next
    case True
    then obtain a as ys g zs where conv: "args = a # as" "convert_arg strs (old i) f a = Some (ys, g)"
        "expand strs old (i + length ys) g as = Some zs" "xs = ys @ zs"
      using "2.prems"(1) by (auto split: list.splits option.splits)
    have "convert_arg strs (old' i) f a = Some (ys, g)"
    proof (cases "ys = []")
      case True
      with conv(2) show ?thesis by (auto simp: convert_arg_def split: list.splits if_splits)
    next
      case False
      with "2.prems"(2) [of i] conv(2,4) show ?thesis by simp
    qed
    moreover have "expand strs old' (i + length ys) g as = Some zs"
      by (rule "2.IH"(2) [OF _ conv(1,2) _ conv(3)]) (use True "2.prems"(2) conv(4) in auto)
    ultimately show ?thesis using True conv by simp
  qed
qed simp

lemma expand_text: "0x25 \<notin> set xs \<Longrightarrow> expand strs old i xs args = Some xs"
  by (induction xs arbitrary: i) auto

section \<open>Properties\<close>

text \<open>
  C17: formatted output to a buffer does what the format stands for: the text is copied, \<^verbatim>\<open>%d\<close>, \<^verbatim>\<open>%i\<close>, \<^verbatim>\<open>%x\<close>,
  \<^verbatim>\<open>%p\<close>, \<^verbatim>\<open>%c\<close>, \<^verbatim>\<open>%s\<close> and \<^verbatim>\<open>%#x\<close> give the characters of their arguments, a terminator follows, the number of
  characters is returned, and nothing else is written.
\<close>

theorem vsprintf_expands:
  assumes "cstring_at m p f" "expand strs (\<lambda>k. m (str + of_nat k)) 0 f args = Some xs" "length xs < 4294967295"
    and "no_overlap str (length xs) p (length f + 1)"
    and "\<And>a ys. strs a = Some ys \<Longrightarrow> cstring_at m a ys \<and> no_overlap str (length xs) a (length ys + 1)"
  shows "\<exists>m'. kaos_vsprintf str p args m = Some (of_nat (length xs), m') \<and> holds m' str xs \<and>
     m' (str + of_nat (length xs)) = 0 \<and> (\<forall>x. \<not> in_range str (length xs + 1) x \<longrightarrow> m' x = m x)"
  using vsprintf_expand [OF assms] .

theorem vsprintf_expands_witness:
  "\<exists>m'. kaos_vsprintf 0x2000 0x1000 [0xFFFFFFFE, 0x41] (format_memory [0x25, 0x64, 0x3A, 0x25, 0x63]) = Some (4, m') \<and>
     holds m' 0x2000 [0x2D, 0x32, 0x3A, 0x41]"
proof -
  let ?f = "[0x25, 0x64, 0x3A, 0x25, 0x63] :: u8 list" and ?xs = "[0x2D, 0x32, 0x3A, 0x41] :: u8 list"
  have two: "number_chars 10 (- 2) = [0x2D, 0x32]"
    by (simp add: number_chars_def sign_chars_def ndigits.simps numeral_chars_def digit_glyph_def)
  have f: "cstring_at (format_memory ?f) 0x1000 ?f" by code_simp
  have "expand (\<lambda>_. None) (\<lambda>k. format_memory ?f (0x2000 + of_nat k)) 0 ?f [0xFFFFFFFE, 0x41] = Some ?xs"
    by (simp add: convert_arg_def two)
  from vsprintf_expands [OF f this] show ?thesis by (auto simp: no_overlap_apart)
qed

end
