(* ===== verification/BinaryTree.thy ===== *)
theory BinaryTree
  imports Prelude "HOL-Library.Tree"
begin

text \<open>
  The pointer-linked binary tree, \<^verbatim>\<open>src/kernel/tree/tree.c\<close>. Nodes live in a heap from
  addresses to node records; address 0 is the null pointer and reading an address that holds no
  node is undefined. The comparison function is the caller's. \<open>tree_at\<close> relates a linked
  structure to a tree of node addresses; the operations are proved against functions on such trees.
\<close>

section \<open>Nodes\<close>

record binary_tree_node =
  node_left :: u32
  node_right :: u32
  node_parent :: u32
  node_value :: u32
  is_left :: bool
  is_right :: bool

type_synonym node_heap = "u32 \<rightharpoonup> binary_tree_node"

type_synonym compare_fn = "u32 \<Rightarrow> u32 \<Rightarrow> int"

record binary_tree =
  root_node :: u32
  compare :: compare_fn

definition node_upd :: "u32 \<Rightarrow> (binary_tree_node \<Rightarrow> binary_tree_node) \<Rightarrow> node_heap \<Rightarrow> node_heap option" where
  "node_upd p f h = (case h p of None \<Rightarrow> None | Some n \<Rightarrow> Some (h(p \<mapsto> f n)))"

section \<open>Operations\<close>

partial_function (option) binary_tree_node_insert ::
  "compare_fn \<Rightarrow> u32 \<Rightarrow> u32 \<Rightarrow> node_heap \<Rightarrow> node_heap option" where
  "binary_tree_node_insert cmp node new_node h = do {
     n \<leftarrow> h node;
     new \<leftarrow> h new_node;
     if cmp (node_value n) (node_value new) \<le> 0 then
       (if node_left n = 0 then
          Option.bind (node_upd node (node_left_update (\<lambda>_. new_node)) h)
            (node_upd new_node (\<lambda>x. x\<lparr>node_parent := node, is_left := True, is_right := False\<rparr>))
        else binary_tree_node_insert cmp (node_left n) new_node h)
     else
       (if node_right n = 0 then
          Option.bind (node_upd node (node_right_update (\<lambda>_. new_node)) h)
            (node_upd new_node (\<lambda>x. x\<lparr>node_parent := node, is_left := False, is_right := True\<rparr>))
        else binary_tree_node_insert cmp (node_right n) new_node h)
   }"

definition binary_tree_insert :: "binary_tree \<Rightarrow> u32 \<Rightarrow> node_heap \<Rightarrow> (binary_tree \<times> node_heap) option" where
  "binary_tree_insert tree new_node h =
     (if root_node tree = 0 then Some (tree\<lparr>root_node := new_node\<rparr>, h)
      else do {
        h' \<leftarrow> binary_tree_node_insert (compare tree) (root_node tree) new_node h;
        Some (tree, h')
      })"

partial_function (option) binary_tree_node_find ::
  "compare_fn \<Rightarrow> u32 \<Rightarrow> u32 \<Rightarrow> node_heap \<Rightarrow> u32 option" where
  "binary_tree_node_find cmp node val h =
     (if node = 0 then Some 0
      else do {
        n \<leftarrow> h node;
        if cmp (node_value n) val = 0 then Some node
        else if cmp (node_value n) val < 0 then binary_tree_node_find cmp (node_left n) val h
        else binary_tree_node_find cmp (node_right n) val h
      })"

definition binary_tree_find :: "binary_tree \<Rightarrow> u32 \<Rightarrow> node_heap \<Rightarrow> u32 option" where
  "binary_tree_find tree val h = binary_tree_node_find (compare tree) (root_node tree) val h"

text \<open>The successor search of deletion: follow the left links.\<close>

partial_function (option) leftmost :: "node_heap \<Rightarrow> u32 \<Rightarrow> u32 option" where
  "leftmost h p = do {
     n \<leftarrow> h p;
     if node_left n \<noteq> 0 then leftmost h (node_left n) else Some p
   }"

text \<open>Put \<open>child\<close> in the place of a node below its parent, by the node's own flags.\<close>

definition replace_child :: "binary_tree_node \<Rightarrow> u32 \<Rightarrow> node_heap \<Rightarrow> node_heap option" where
  "replace_child n child h =
     (if is_left n then node_upd (node_parent n) (node_left_update (\<lambda>_. child)) h
      else if is_right n then node_upd (node_parent n) (node_right_update (\<lambda>_. child)) h
      else Some h)"

partial_function (option) binary_tree_node_delete ::
  "compare_fn \<Rightarrow> u32 \<Rightarrow> u32 \<Rightarrow> node_heap \<Rightarrow> node_heap option" where
  "binary_tree_node_delete cmp node val h =
     (if node = 0 then Some h
      else do {
        n \<leftarrow> h node;
        if cmp (node_value n) val = 0 then
          (if node_left n = 0 \<and> node_right n = 0 then replace_child n 0 h
           else if node_left n = 0 then replace_child n (node_right n) h
           else if node_right n = 0 then replace_child n (node_left n) h
           else do {
             c \<leftarrow> leftmost h (node_right n);
             cn \<leftarrow> h c;
             node_upd node (\<lambda>x. x\<lparr>node_value := node_value cn, node_right := node_right cn\<rparr>) h
           })
        else if cmp (node_value n) val < 0 then binary_tree_node_delete cmp (node_left n) val h
        else binary_tree_node_delete cmp (node_right n) val h
      })"

definition binary_tree_delete :: "binary_tree \<Rightarrow> u32 \<Rightarrow> node_heap \<Rightarrow> node_heap option" where
  "binary_tree_delete tree val h = do {
     node \<leftarrow> binary_tree_find tree val h;
     if node = 0 then Some h
     else binary_tree_node_delete (compare tree) (root_node tree) val h
   }"

text \<open>The comparison of the tree's own test, \<^verbatim>\<open>src/kernel/tree/tree.test.c\<close>, on the integers
  that the values point to. It is a subtraction of 32-bit integers: where the difference leaves their range, which C leaves
  undefined, the model has the wrap-around of the processor.\<close>

definition compare_function :: "(u32 \<Rightarrow> 32 word) \<Rightarrow> compare_fn" where
  "compare_function ints v1 v2 = sint (ints v1 - ints v2)"

section \<open>What the tree asks of a comparison\<close>

locale compare_order =
  fixes cmp :: compare_fn
  assumes cmp_sym: "cmp x y < 0 \<longleftrightarrow> 0 < cmp y x"
    and cmp_trans: "cmp x y \<le> 0 \<Longrightarrow> cmp y z \<le> 0 \<Longrightarrow> cmp x z \<le> 0"
begin

lemma cmp_refl [simp]: "cmp x x = 0"
  using cmp_sym [of x x] by linarith

lemma cmp_eq_sym: "cmp x y = 0 \<longleftrightarrow> cmp y x = 0"
  using cmp_sym [of x y] cmp_sym [of y x] by linarith

lemma cmp_le_sym: "cmp x y \<le> 0 \<longleftrightarrow> 0 \<le> cmp y x"
  using cmp_sym [of x y] cmp_sym [of y x] by linarith

lemma cmp_eq_trans: "cmp x y = 0 \<Longrightarrow> cmp y z = 0 \<Longrightarrow> cmp x z = 0"
  using cmp_trans [of x y z] cmp_trans [of z y x] cmp_le_sym [of z x] cmp_eq_sym [of x y] cmp_eq_sym [of y z]
  by auto

lemma cmp_less_le: "cmp x y < 0 \<Longrightarrow> cmp y z \<le> 0 \<Longrightarrow> cmp x z < 0"
proof -
  assume less: "cmp x y < 0" and le: "cmp y z \<le> 0"
  then have "cmp x z \<le> 0" using cmp_trans [of x y z] by simp
  moreover have "cmp x z \<noteq> 0"
  proof
    assume "cmp x z = 0"
    then have "cmp z x \<le> 0" using cmp_eq_sym [of x z] by simp
    then have "cmp y x \<le> 0" using cmp_trans [OF le] by simp
    with less cmp_le_sym [of y x] show False by simp
  qed
  ultimately show ?thesis by simp
qed

end

text \<open>
  The test's comparison is an order on integers below \<open>2 ^ 30\<close> in absolute value, where no
  difference overflows; on all integers it is none.
\<close>

lemma sint_diff:
  fixes x y :: "32 word"
  assumes "- (2 ^ 30) \<le> sint x" "sint x < 2 ^ 30" "- (2 ^ 30) \<le> sint y" "sint y < 2 ^ 30"
  shows "sint (x - y) = sint x - sint y"
proof -
  have "sint (x - y) = signed_take_bit 31 (sint x - sint y)" by (simp add: sint_word_ariths)
  also have "\<dots> = sint x - sint y" by (rule signed_take_bit_int_eq_self) (use assms in simp_all)
  finally show ?thesis .
qed

lemma compare_function_order:
  assumes "\<And>v. - (2 ^ 30) \<le> sint (ints v) \<and> sint (ints v) < 2 ^ 30"
  shows "compare_order (compare_function ints)"
proof -
  have "compare_function ints v w = sint (ints v) - sint (ints w)" for v w
    using assms sint_diff [of "ints v" "ints w"] by (simp add: compare_function_def)
  then show ?thesis by unfold_locales auto
qed

lemma compare_function_overflow:
  "\<not> compare_order (compare_function (\<lambda>v. v))"
proof
  assume "compare_order (compare_function (\<lambda>v. v))"
  from compare_order.cmp_trans [OF this, of "- 1" 0 "0x7FFFFFFF"] compare_order.cmp_trans [OF this, of "0x80000001" 0 "0x7FFFFFFF"]
  show False by (simp add: compare_function_def)
qed

definition small_int :: "u32 \<Rightarrow> 32 word" where
  "small_int v = take_bit 30 v"

lemma sint_small_int: "0 \<le> sint (small_int v) \<and> sint (small_int v) < 2 ^ 30"
proof -
  have "uint (small_int v) < 2 ^ 30" using take_bit_int_less_exp [of 30 "uint v"] by (simp add: small_int_def unsigned_take_bit_eq)
  moreover have "0 \<le> uint (small_int v)" by (rule uint_ge_0)
  ultimately have "sint (small_int v) = uint (small_int v)"
    unfolding sint_uint by (intro signed_take_bit_int_eq_self) (auto intro: order_trans [of _ 0])
  with \<open>uint (small_int v) < 2 ^ 30\<close> show ?thesis by simp
qed

lemma small_int_numeral: "small_int (numeral n) = take_bit 30 (numeral n)"
  by (simp add: small_int_def)

interpretation test_ints: compare_order "compare_function (\<lambda>v. small_int (ints v))" for ints
proof (rule compare_function_order)
  show "- (2 ^ 30) \<le> sint (small_int (ints v)) \<and> sint (small_int (ints v)) < 2 ^ 30" for v
    using sint_small_int [of "ints v"] by simp
qed

section \<open>Linked trees\<close>

fun tree_at :: "node_heap \<Rightarrow> u32 \<Rightarrow> u32 tree \<Rightarrow> bool" where
  "tree_at h p Leaf \<longleftrightarrow> p = 0"
| "tree_at h p (Node l a r) \<longleftrightarrow> p = a \<and> a \<noteq> 0 \<and>
     (case h a of None \<Rightarrow> False | Some n \<Rightarrow> tree_at h (node_left n) l \<and> tree_at h (node_right n) r)"

text \<open>Parent pointers and side flags of the children agree with the links.\<close>

definition child_link :: "node_heap \<Rightarrow> u32 tree \<Rightarrow> u32 \<Rightarrow> bool \<Rightarrow> bool" where
  "child_link h t a side = (case t of Leaf \<Rightarrow> True | Node _ b _ \<Rightarrow>
     (case h b of None \<Rightarrow> False
      | Some n \<Rightarrow> node_parent n = a \<and> is_left n = side \<and> is_right n = (\<not> side)))"

fun linked :: "node_heap \<Rightarrow> u32 tree \<Rightarrow> bool" where
  "linked h Leaf \<longleftrightarrow> True"
| "linked h (Node l a r) \<longleftrightarrow> child_link h l a True \<and> child_link h r a False \<and> linked h l \<and> linked h r"

definition key :: "node_heap \<Rightarrow> u32 \<Rightarrow> u32" where
  "key h a = (case h a of None \<Rightarrow> 0 | Some n \<Rightarrow> node_value n)"

text \<open>A node that the operations do not touch apart from its links to children.\<close>

definition same_place :: "node_heap \<Rightarrow> node_heap \<Rightarrow> u32 \<Rightarrow> bool" where
  "same_place h h' a \<longleftrightarrow> (case h a of None \<Rightarrow> h' a = None
     | Some n \<Rightarrow> (\<exists>m. h' a = Some m \<and> node_parent m = node_parent n \<and> node_value m = node_value n \<and>
         is_left m = is_left n \<and> is_right m = is_right n))"

lemma tree_at_frame: "tree_at h p t \<Longrightarrow> (\<And>a. a \<in> set_tree t \<Longrightarrow> h' a = h a) \<Longrightarrow> tree_at h' p t"
  by (induction t arbitrary: p) (auto split: option.splits)

lemma child_link_place: "child_link h t a s \<Longrightarrow> (\<And>b. b \<in> set_tree t \<Longrightarrow> same_place h h' b) \<Longrightarrow> child_link h' t a s"
  by (cases t) (force simp: child_link_def same_place_def split: option.splits)+

lemma linked_place: "linked h t \<Longrightarrow> (\<And>a. a \<in> set_tree t \<Longrightarrow> same_place h h' a) \<Longrightarrow> linked h' t"
  by (induction t) (auto intro: child_link_place)

lemma same_place_refl: "h' a = h a \<Longrightarrow> same_place h h' a"
  by (auto simp: same_place_def split: option.splits)

lemma linked_frame: "linked h t \<Longrightarrow> (\<And>a. a \<in> set_tree t \<Longrightarrow> h' a = h a) \<Longrightarrow> linked h' t"
  by (rule linked_place) (auto intro: same_place_refl)

lemma child_link_frame: "child_link h t a s \<Longrightarrow> (\<And>b. b \<in> set_tree t \<Longrightarrow> h' b = h b) \<Longrightarrow> child_link h' t a s"
  by (rule child_link_place) (auto intro: same_place_refl)

lemma same_place_key: "same_place h h' a \<Longrightarrow> key h' a = key h a"
  by (auto simp: same_place_def key_def split: option.splits)

section \<open>Insertion\<close>

fun tree_insert :: "compare_fn \<Rightarrow> (u32 \<Rightarrow> u32) \<Rightarrow> u32 \<Rightarrow> u32 tree \<Rightarrow> u32 tree" where
  "tree_insert cmp k x Leaf = Node Leaf x Leaf"
| "tree_insert cmp k x (Node l a r) =
     (if cmp (k a) (k x) \<le> 0 then Node (tree_insert cmp k x l) a r else Node l a (tree_insert cmp k x r))"

lemma set_tree_insert [simp]: "set_tree (tree_insert cmp k x t) = insert x (set_tree t)"
  by (induction t) auto

text \<open>The heap after \<open>x\<close> has been hung below some node of the tree.\<close>

definition inserted :: "u32 \<Rightarrow> u32 tree \<Rightarrow> u32 tree \<Rightarrow> u32 \<Rightarrow> node_heap \<Rightarrow> node_heap \<Rightarrow> bool" where
  "inserted x t t' p h h' \<longleftrightarrow>
     tree_at h' p t' \<and> linked h' t' \<and> (\<forall>a \<in> set_tree t. same_place h h' a) \<and>
     (\<forall>a. a \<notin> insert x (set_tree t) \<longrightarrow> h' a = h a) \<and> key h' x = key h x"

lemma insertedI:
  assumes "tree_at h' p t'" "linked h' t'" "\<And>a. a \<in> set_tree t \<Longrightarrow> same_place h h' a"
    and "\<And>a. a \<noteq> x \<Longrightarrow> a \<notin> set_tree t \<Longrightarrow> h' a = h a" "key h' x = key h x"
  shows "inserted x t t' p h h'"
  using assms by (auto simp: inserted_def)

lemma hang_left:
  assumes n: "h a = Some n" "tree_at h (node_right n) r" and r: "linked h r" "child_link h r a False"
    and x: "h x = Some nx" "node_left nx = 0" "node_right nx = 0" "x \<noteq> 0" "a \<noteq> 0"
    and new: "x \<noteq> a" "x \<notin> set_tree r" "a \<notin> set_tree r"
  shows "inserted x (Node Leaf a r) (Node (Node Leaf x Leaf) a r) a h
    (h(a \<mapsto> n\<lparr>node_left := x\<rparr>, x \<mapsto> nx\<lparr>node_parent := a, is_left := True, is_right := False\<rparr>))"
    (is "inserted _ _ _ _ _ ?h")
proof (rule insertedI)
  have same: "?h c = h c" if "c \<in> set_tree r" for c using that new by auto
  have at: "tree_at ?h (node_right n) r" by (rule tree_at_frame [OF n(2) same])
  have lk: "linked ?h r" "child_link ?h r a False"
    by (rule linked_frame [OF r(1) same], assumption) (rule child_link_frame [OF r(2) same])
  show "tree_at ?h a (Node (Node Leaf x Leaf) a r)" using at n x new by simp
  show "linked ?h (Node (Node Leaf x Leaf) a r)" using lk by (simp add: child_link_def)
  show "same_place h ?h b" if "b \<in> set_tree (Node Leaf a r)" for b
  proof (cases "b = a")
    case False
    with that have "b \<in> set_tree r" by simp
    then show ?thesis by (intro same_place_refl same)
  qed (use n(1) new(1) in \<open>simp add: same_place_def\<close>)
  show "?h b = h b" if "b \<noteq> x" "b \<notin> set_tree (Node Leaf a r)" for b using that by simp
  show "key ?h x = key h x" using x by (simp add: key_def)
qed

lemma hang_right:
  assumes n: "h a = Some n" "tree_at h (node_left n) l" and l: "linked h l" "child_link h l a True"
    and x: "h x = Some nx" "node_left nx = 0" "node_right nx = 0" "x \<noteq> 0" "a \<noteq> 0"
    and new: "x \<noteq> a" "x \<notin> set_tree l" "a \<notin> set_tree l"
  shows "inserted x (Node l a Leaf) (Node l a (Node Leaf x Leaf)) a h
    (h(a \<mapsto> n\<lparr>node_right := x\<rparr>, x \<mapsto> nx\<lparr>node_parent := a, is_left := False, is_right := True\<rparr>))"
    (is "inserted _ _ _ _ _ ?h")
proof (rule insertedI)
  have same: "?h c = h c" if "c \<in> set_tree l" for c using that new by auto
  have at: "tree_at ?h (node_left n) l" by (rule tree_at_frame [OF n(2) same])
  have lk: "linked ?h l" "child_link ?h l a True"
    by (rule linked_frame [OF l(1) same], assumption) (rule child_link_frame [OF l(2) same])
  show "tree_at ?h a (Node l a (Node Leaf x Leaf))" using at n x new by simp
  show "linked ?h (Node l a (Node Leaf x Leaf))" using lk by (simp add: child_link_def)
  show "same_place h ?h b" if "b \<in> set_tree (Node l a Leaf)" for b
  proof (cases "b = a")
    case False
    with that have "b \<in> set_tree l" by simp
    then show ?thesis by (intro same_place_refl same)
  qed (use n(1) new(1) in \<open>simp add: same_place_def\<close>)
  show "?h b = h b" if "b \<noteq> x" "b \<notin> set_tree (Node l a Leaf)" for b using that by simp
  show "key ?h x = key h x" using x by (simp add: key_def)
qed

text \<open>An insertion into a subtree is an insertion into the tree around it.\<close>

lemma child_link_inserted:
  assumes "inserted x t (tree_insert cmp k x t) p h h'" "child_link h t a s" "t \<noteq> Leaf"
  shows "child_link h' (tree_insert cmp k x t) a s"
proof (cases t)
  case (Node l b r)
  then have "same_place h h' b" using assms(1) by (simp add: inserted_def)
  then show ?thesis using assms(2) Node by (auto simp: child_link_def same_place_def split: option.splits)
qed (use assms(3) in simp)

lemma inserted_left:
  assumes "inserted x l (tree_insert cmp k x l) (node_left n) h h'" "l \<noteq> Leaf"
    and "h a = Some n" "tree_at h (node_right n) r" "linked h (Node l a r)" "a \<noteq> 0"
    and "x \<notin> insert a (set_tree r)" "a \<notin> set_tree l" "set_tree l \<inter> set_tree r = {}"
  shows "inserted x (Node l a r) (Node (tree_insert cmp k x l) a r) a h h'"
proof (rule insertedI)
  have same: "h' c = h c" if "c \<in> insert a (set_tree r)" for c
    using assms(1,7-9) that by (auto simp: inserted_def)
  have "tree_at h' (node_right n) r" using same by (intro tree_at_frame [OF assms(4)]) auto
  then show "tree_at h' a (Node (tree_insert cmp k x l) a r)"
    using assms(1,3,6) same by (simp add: inserted_def)
  have "linked h' r" "child_link h' r a False"
    using assms(5) same linked_frame [of h _ h'] child_link_frame [of h _ a _ h'] by simp_all
  then show "linked h' (Node (tree_insert cmp k x l) a r)"
    using child_link_inserted [OF assms(1) _ assms(2)] assms(1,5) by (simp add: inserted_def)
  show "same_place h h' b" if "b \<in> set_tree (Node l a r)" for b
    using that assms(1) same by (auto simp: inserted_def same_place_refl)
  show "h' b = h b" if "b \<noteq> x" "b \<notin> set_tree (Node l a r)" for b
    using that assms(1) by (auto simp: inserted_def)
  show "key h' x = key h x" using assms(1) by (simp add: inserted_def)
qed

lemma inserted_right:
  assumes "inserted x r (tree_insert cmp k x r) (node_right n) h h'" "r \<noteq> Leaf"
    and "h a = Some n" "tree_at h (node_left n) l" "linked h (Node l a r)" "a \<noteq> 0"
    and "x \<notin> insert a (set_tree l)" "a \<notin> set_tree r" "set_tree l \<inter> set_tree r = {}"
  shows "inserted x (Node l a r) (Node l a (tree_insert cmp k x r)) a h h'"
proof (rule insertedI)
  have same: "h' c = h c" if "c \<in> insert a (set_tree l)" for c
    using assms(1,7-9) that by (auto simp: inserted_def)
  have "tree_at h' (node_left n) l" using same by (intro tree_at_frame [OF assms(4)]) auto
  then show "tree_at h' a (Node l a (tree_insert cmp k x r))"
    using assms(1,3,6) same by (simp add: inserted_def)
  have "linked h' l" "child_link h' l a True"
    using assms(5) same linked_frame [of h _ h'] child_link_frame [of h _ a _ h'] by simp_all
  then show "linked h' (Node l a (tree_insert cmp k x r))"
    using child_link_inserted [OF assms(1) _ assms(2)] assms(1,5) by (simp add: inserted_def)
  show "same_place h h' b" if "b \<in> set_tree (Node l a r)" for b
    using that assms(1) same by (auto simp: inserted_def same_place_refl)
  show "h' b = h b" if "b \<noteq> x" "b \<notin> set_tree (Node l a r)" for b
    using that assms(1) by (auto simp: inserted_def)
  show "key h' x = key h x" using assms(1) by (simp add: inserted_def)
qed

lemma node_insert_spec:
  assumes "tree_at h p t" "t \<noteq> Leaf" "linked h t" "distinct (inorder t)" "x \<notin> set_tree t"
    and x: "x \<noteq> 0" "h x = Some nx" "node_left nx = 0" "node_right nx = 0"
  shows "\<exists>h'. binary_tree_node_insert cmp p x h = Some h' \<and> inserted x t (tree_insert cmp (key h) x t) p h h'"
  using assms(1-5)
proof (induction t arbitrary: p)
  case (Node l a r)
  then obtain n where n: "h a = Some n" "tree_at h (node_left n) l" "tree_at h (node_right n) r" "p = a" "a \<noteq> 0"
    by (auto split: option.splits)
  have keys: "key h a = node_value n" "key h x = node_value nx" using n x by (simp_all add: key_def)
  have disj: "set_tree l \<inter> set_tree r = {}" "a \<notin> set_tree l" "a \<notin> set_tree r" "distinct (inorder l)" "distinct (inorder r)"
    and xn: "x \<noteq> a" "x \<notin> set_tree l" "x \<notin> set_tree r" using Node.prems by auto
  note step = binary_tree_node_insert.simps [of cmp a x h]
  show ?case
  proof (cases "cmp (node_value n) (node_value nx) \<le> 0")
    case True
    show ?thesis
    proof (cases "l = Leaf")
      case leaf: True
      have "inserted x (Node Leaf a r) (Node (Node Leaf x Leaf) a r) a h
          (h(a \<mapsto> n\<lparr>node_left := x\<rparr>, x \<mapsto> nx\<lparr>node_parent := a, is_left := True, is_right := False\<rparr>))"
        using n x xn disj Node.prems by (intro hang_left) auto
      with leaf True n x xn keys show ?thesis by (simp add: step node_upd_def)
    next
      case False
      with n have "node_left n \<noteq> 0" by (cases l) auto
      moreover obtain h' where "binary_tree_node_insert cmp (node_left n) x h = Some h'"
        and "inserted x l (tree_insert cmp (key h) x l) (node_left n) h h'"
        using Node.IH(1) [OF n(2) False] Node.prems disj xn by auto
      moreover from inserted_left [OF this(2) False n(1,3)]
      have "inserted x (Node l a r) (Node (tree_insert cmp (key h) x l) a r) a h h'"
        using Node.prems n disj xn by auto
      ultimately show ?thesis using True n x keys by (simp add: step)
    qed
  next
    case gt: False
    show ?thesis
    proof (cases "r = Leaf")
      case leaf: True
      have "inserted x (Node l a Leaf) (Node l a (Node Leaf x Leaf)) a h
          (h(a \<mapsto> n\<lparr>node_right := x\<rparr>, x \<mapsto> nx\<lparr>node_parent := a, is_left := False, is_right := True\<rparr>))"
        using n x xn disj Node.prems by (intro hang_right) auto
      with leaf gt n x xn keys show ?thesis by (simp add: step node_upd_def)
    next
      case False
      with n have "node_right n \<noteq> 0" by (cases r) auto
      moreover obtain h' where "binary_tree_node_insert cmp (node_right n) x h = Some h'"
        and "inserted x r (tree_insert cmp (key h) x r) (node_right n) h h'"
        using Node.IH(2) [OF n(3) False] Node.prems disj xn by auto
      moreover from inserted_right [OF this(2) False n(1,2)]
      have "inserted x (Node l a r) (Node l a (tree_insert cmp (key h) x r)) a h h'"
        using Node.prems n disj xn by auto
      ultimately show ?thesis using gt n x keys by (simp add: step)
    qed
  qed
qed simp

section \<open>Search\<close>

text \<open>Values that compare less than or equal to a node's value are on its right.\<close>

fun ordered :: "compare_fn \<Rightarrow> (u32 \<Rightarrow> u32) \<Rightarrow> u32 tree \<Rightarrow> bool" where
  "ordered cmp k Leaf \<longleftrightarrow> True"
| "ordered cmp k (Node l a r) \<longleftrightarrow> ordered cmp k l \<and> ordered cmp k r \<and>
     (\<forall>b \<in> set_tree l. cmp (k a) (k b) \<le> 0) \<and> (\<forall>b \<in> set_tree r. 0 < cmp (k a) (k b))"

lemma ordered_cong: "ordered cmp k t \<Longrightarrow> (\<And>a. a \<in> set_tree t \<Longrightarrow> k' a = k a) \<Longrightarrow> ordered cmp k' t"
  by (induction t) auto

context compare_order
begin

lemma ordered_insert: "ordered cmp k t \<Longrightarrow> ordered cmp k (tree_insert cmp k x t)"
  by (induction t) auto

lemma node_find_spec:
  "tree_at h p t \<Longrightarrow> ordered cmp (key h) t \<Longrightarrow>
   \<exists>a. binary_tree_node_find cmp p v h = Some a \<and>
     (if a = 0 then \<forall>b \<in> set_tree t. cmp (key h b) v \<noteq> 0 else a \<in> set_tree t \<and> cmp (key h a) v = 0)"
proof (induction t arbitrary: p)
  case Leaf
  then show ?case by (simp add: binary_tree_node_find.simps)
next
  case (Node l a r)
  then obtain n where n: "h a = Some n" "tree_at h (node_left n) l" "tree_at h (node_right n) r" "p = a" "a \<noteq> 0"
    by (auto split: option.splits)
  have k: "key h a = node_value n" using n by (simp add: key_def)
  note step = binary_tree_node_find.simps [of cmp a v h]
  consider "cmp (key h a) v = 0" | "cmp (key h a) v < 0" | "0 < cmp (key h a) v" by linarith
  then show ?case
  proof cases
    case 1
    with n k show ?thesis by (simp add: step)
  next
    case 2
    have "cmp (key h b) v \<noteq> 0" if "b \<in> set_tree r" for b
    proof -
      have "cmp (key h b) (key h a) < 0" using Node.prems(2) that cmp_sym by auto
      with 2 show ?thesis using cmp_less_le [of "key h b" "key h a" v] by auto
    qed
    with 2 n k Node.IH(1) [OF n(2)] Node.prems show ?thesis by (auto simp: step split: if_splits)
  next
    case 3
    have "cmp (key h b) v \<noteq> 0" if "b \<in> set_tree l" for b
    proof -
      have "cmp v (key h a) < 0" "cmp (key h a) (key h b) \<le> 0" using 3 Node.prems(2) that cmp_sym by auto
      then have "cmp v (key h b) < 0" by (rule cmp_less_le)
      then show ?thesis using cmp_eq_sym by force
    qed
    with 3 n k Node.IH(2) [OF n(3)] Node.prems show ?thesis by (auto simp: step split: if_splits)
  qed
qed

end

section \<open>The abstract tree of a structure\<close>

definition valid_tree :: "binary_tree \<Rightarrow> u32 tree \<Rightarrow> node_heap \<Rightarrow> bool" where
  "valid_tree tr t h \<longleftrightarrow> tree_at h (root_node tr) t \<and> linked h t \<and> distinct (inorder t) \<and>
     ordered (compare tr) (key h) t"

lemma distinct_insert: "distinct (inorder t) \<Longrightarrow> x \<notin> set_tree t \<Longrightarrow> distinct (inorder (tree_insert cmp k x t))"
  by (induction t) auto

lemma tree_insert_cong:
  "(\<And>a. a \<in> insert x (set_tree t) \<Longrightarrow> k' a = k a) \<Longrightarrow> tree_insert cmp k' x t = tree_insert cmp k x t"
  by (induction t) auto

lemma binary_tree_insert_spec:
  assumes "compare_order (compare tr)" "valid_tree tr t h" "x \<notin> set_tree t"
    and x: "x \<noteq> 0" "h x = Some nx" "node_left nx = 0" "node_right nx = 0"
  shows "\<exists>tr' h'. binary_tree_insert tr x h = Some (tr', h') \<and> compare tr' = compare tr \<and>
     valid_tree tr' (tree_insert (compare tr) (key h) x t) h' \<and>
     (\<forall>a \<in> insert x (set_tree t). key h' a = key h a)"
proof (cases "t = Leaf")
  case True
  with assms show ?thesis by (simp add: valid_tree_def binary_tree_insert_def child_link_def)
next
  case False
  let ?t = "tree_insert (compare tr) (key h) x t"
  have root: "root_node tr \<noteq> 0" using assms(2) False by (cases t) (auto simp: valid_tree_def)
  obtain h' where h': "binary_tree_node_insert (compare tr) (root_node tr) x h = Some h'"
    and ins: "inserted x t ?t (root_node tr) h h'"
    using node_insert_spec [of h "root_node tr" t x nx "compare tr"] assms False by (auto simp: valid_tree_def)
  have keys: "key h' a = key h a" if "a \<in> insert x (set_tree t)" for a
    using ins that by (auto simp: inserted_def same_place_key)
  have "ordered (compare tr) (key h) ?t"
    using assms by (intro compare_order.ordered_insert) (simp_all add: valid_tree_def)
  then have "ordered (compare tr) (key h') ?t" using keys by (rule ordered_cong) simp
  with ins assms(2,3) have "valid_tree tr ?t h'"
    by (simp add: valid_tree_def inserted_def distinct_insert)
  with root h' keys show ?thesis by (auto simp: binary_tree_insert_def)
qed

section \<open>Properties\<close>

text \<open>
  C12: inserting a fresh node into a well-formed tree (links, parent pointers and side flags
  consistent, values ordered by the comparison) gives a well-formed tree, the one that the recursive
  insertion on abstract trees gives, and keeps every value.
\<close>

theorem tree_insert_refines:
  assumes "compare_order (compare tr)" "valid_tree tr t h" "x \<notin> set_tree t"
    and "x \<noteq> 0" "h x = Some nx" "node_left nx = 0" "node_right nx = 0"
  shows "\<exists>tr' h'. binary_tree_insert tr x h = Some (tr', h') \<and>
     valid_tree tr' (tree_insert (compare tr) (key h) x t) h' \<and>
     (\<forall>a \<in> insert x (set_tree t). key h' a = key h a)"
  using binary_tree_insert_spec [OF assms] by blast

text \<open>A tree of one node at address 4 and a new node at address 8.\<close>

definition sample_node :: "u32 \<Rightarrow> binary_tree_node" where
  "sample_node v = \<lparr>node_left = 0, node_right = 0, node_parent = 0, node_value = v, is_left = False, is_right = False\<rparr>"

definition sample_tree :: binary_tree where
  "sample_tree = \<lparr>root_node = 4, compare = compare_function (\<lambda>v. small_int v)\<rparr>"

definition sample_heap :: node_heap where
  "sample_heap = [4 \<mapsto> sample_node 20, 8 \<mapsto> sample_node 50]"

lemma sample_valid: "valid_tree sample_tree (Node Leaf 4 Leaf) sample_heap"
  by (simp add: valid_tree_def sample_tree_def sample_heap_def sample_node_def child_link_def)

lemma sample_order: "compare_order (compare sample_tree)"
  using test_ints.compare_order_axioms [of "\<lambda>v. v"] by (simp add: sample_tree_def)

theorem tree_insert_refines_witness:
  "\<exists>tr' h'. binary_tree_insert sample_tree 8 sample_heap = Some (tr', h') \<and>
     valid_tree tr' (Node (Node Leaf 8 Leaf) 4 Leaf) h'"
  using tree_insert_refines [OF sample_order sample_valid, of 8 "sample_node 50"]
  by (auto simp: sample_heap_def key_def sample_node_def sample_tree_def compare_function_def small_int_numeral)

text \<open>A tree of 50 with 70 on its left and 30 on its right, and 40 on the left of 30.\<close>

definition linked_node :: "u32 \<Rightarrow> u32 \<Rightarrow> u32 \<Rightarrow> bool \<Rightarrow> u32 \<Rightarrow> binary_tree_node" where
  "linked_node l r p side v =
     \<lparr>node_left = l, node_right = r, node_parent = p, node_value = v, is_left = side, is_right = (\<not> side)\<rparr>"

definition four_nodes :: node_heap where
  "four_nodes = [4 \<mapsto> (sample_node 50)\<lparr>node_left := 8, node_right := 12\<rparr>,
     8 \<mapsto> linked_node 0 0 4 True 70, 12 \<mapsto> linked_node 16 0 4 False 30, 16 \<mapsto> linked_node 0 0 12 True 40]"

lemma four_valid: "valid_tree sample_tree (Node (Node Leaf 8 Leaf) 4 (Node (Node Leaf 16 Leaf) 12 Leaf)) four_nodes"
  by (simp add: valid_tree_def sample_tree_def four_nodes_def sample_node_def linked_node_def child_link_def
      key_def compare_function_def small_int_numeral)

lemmas four_eval = four_nodes_def sample_tree_def sample_node_def linked_node_def key_def compare_function_def small_int_numeral

text \<open>
  C13: a search in a well-formed tree, all nodes of the heap linked or not, returns a node whose value compares equal, and null
  exactly when there is none. After the insertion of any fresh node the search finds a value exactly when the new node
  or a node of the tree holds one that compares equal: a value just inserted is found, with everything that was found before.
\<close>

theorem tree_find_complete:
  assumes "compare_order (compare tr)" "valid_tree tr t h"
  shows "(\<exists>a. binary_tree_find tr v h = Some a \<and>
       (if a = 0 then \<forall>b \<in> set_tree t. compare tr (key h b) v \<noteq> 0
        else a \<in> set_tree t \<and> compare tr (key h a) v = 0)) \<and>
     (\<forall>x nx. x \<notin> set_tree t \<and> x \<noteq> 0 \<and> h x = Some nx \<and> node_left nx = 0 \<and> node_right nx = 0 \<longrightarrow>
       (\<exists>tr' h' a. binary_tree_insert tr x h = Some (tr', h') \<and> binary_tree_find tr' v h' = Some a \<and>
         (a \<noteq> 0 \<longleftrightarrow> (\<exists>b \<in> insert x (set_tree t). compare tr (key h b) v = 0))))"
proof (intro conjI allI impI)
  show "\<exists>a. binary_tree_find tr v h = Some a \<and>
       (if a = 0 then \<forall>b \<in> set_tree t. compare tr (key h b) v \<noteq> 0
        else a \<in> set_tree t \<and> compare tr (key h a) v = 0)"
    using compare_order.node_find_spec [OF assms(1), of h "root_node tr" t v] assms(2)
    by (simp add: binary_tree_find_def valid_tree_def)
next
  fix x nx assume "x \<notin> set_tree t \<and> x \<noteq> 0 \<and> h x = Some nx \<and> node_left nx = 0 \<and> node_right nx = 0"
  then have x: "x \<notin> set_tree t" "x \<noteq> 0" "h x = Some nx" "node_left nx = 0" "node_right nx = 0" by simp_all
  obtain tr' h' where ins: "binary_tree_insert tr x h = Some (tr', h')" "compare tr' = compare tr"
      "valid_tree tr' (tree_insert (compare tr) (key h) x t) h'"
    and keys: "\<forall>a \<in> insert x (set_tree t). key h' a = key h a"
    using binary_tree_insert_spec [OF assms x] by blast
  obtain a where "binary_tree_node_find (compare tr) (root_node tr') v h' = Some a"
    and "if a = 0 then \<forall>b \<in> insert x (set_tree t). compare tr (key h' b) v \<noteq> 0
      else a \<in> insert x (set_tree t) \<and> compare tr (key h' a) v = 0"
    using compare_order.node_find_spec [OF assms(1), of h' "root_node tr'" "tree_insert (compare tr) (key h) x t" v] ins
    unfolding set_tree_insert valid_tree_def by auto
  with ins keys show "\<exists>tr' h' a. binary_tree_insert tr x h = Some (tr', h') \<and> binary_tree_find tr' v h' = Some a \<and>
       (a \<noteq> 0 \<longleftrightarrow> (\<exists>b \<in> insert x (set_tree t). compare tr (key h b) v = 0))"
    by (cases "a = 0") (auto simp: binary_tree_find_def)
qed

text \<open>A search in a heap where every node is linked, and one after an insertion.\<close>

theorem tree_find_complete_witness:
  "binary_tree_find sample_tree 40 four_nodes \<noteq> Some 0 \<and>
   (\<exists>tr' h' a. binary_tree_insert sample_tree 8 sample_heap = Some (tr', h') \<and>
     binary_tree_find tr' 50 h' = Some a \<and> a \<noteq> 0)"
proof
  from conjunct1 [OF tree_find_complete [OF sample_order four_valid, of 40]]
  show "binary_tree_find sample_tree 40 four_nodes \<noteq> Some 0" by (auto simp: four_eval)
next
  have "8 \<notin> set_tree (Node Leaf (4 :: u32) Leaf) \<and> (8 :: u32) \<noteq> 0 \<and> sample_heap 8 = Some (sample_node 50) \<and>
    node_left (sample_node 50) = 0 \<and> node_right (sample_node 50) = 0"
    by (simp add: sample_heap_def sample_node_def)
  from conjunct2 [OF tree_find_complete [OF sample_order sample_valid, of 50], rule_format, OF this]
  obtain tr' h' a where "binary_tree_insert sample_tree 8 sample_heap = Some (tr', h')"
    "binary_tree_find tr' 50 h' = Some a"
    and iff: "a \<noteq> 0 \<longleftrightarrow> (\<exists>b \<in> insert 8 (set_tree (Node Leaf 4 Leaf)). compare sample_tree (key sample_heap b) 50 = 0)"
    by blast
  moreover have "compare sample_tree (key sample_heap 8) 50 = 0"
    by (simp add: sample_tree_def compare_function_def key_def sample_heap_def sample_node_def)
  ultimately show "\<exists>tr' h' a. binary_tree_insert sample_tree 8 sample_heap = Some (tr', h') \<and>
     binary_tree_find tr' 50 h' = Some a \<and> a \<noteq> 0" by auto
qed

section \<open>Deletion\<close>

text \<open>The subtree whose root the search for \<open>v\<close> stops at.\<close>

fun target :: "compare_fn \<Rightarrow> (u32 \<Rightarrow> u32) \<Rightarrow> u32 \<Rightarrow> u32 tree \<Rightarrow> u32 tree" where
  "target cmp k v Leaf = Leaf"
| "target cmp k v (Node l a r) =
     (if cmp (k a) v = 0 then Node l a r
      else if cmp (k a) v < 0 then target cmp k v l else target cmp k v r)"

text \<open>The tree with a node of at most one child cut out.\<close>

fun cut_out :: "compare_fn \<Rightarrow> (u32 \<Rightarrow> u32) \<Rightarrow> u32 \<Rightarrow> u32 tree \<Rightarrow> u32 tree" where
  "cut_out cmp k v Leaf = Leaf"
| "cut_out cmp k v (Node l a r) =
     (if cmp (k a) v = 0 then (if l = Leaf then r else l)
      else if cmp (k a) v < 0 then Node (cut_out cmp k v l) a r else Node l a (cut_out cmp k v r))"

definition one_child :: "u32 tree \<Rightarrow> bool" where
  "one_child t = (case t of Leaf \<Rightarrow> False | Node l a r \<Rightarrow> l = Leaf \<or> r = Leaf)"

lemma set_cut_out: "set_tree (cut_out cmp k v t) \<subseteq> set_tree t"
  by (induction t) auto

lemma target_subset: "target cmp k v t = Node l a r \<Longrightarrow> a \<in> set_tree t"
  by (induction t) (auto split: if_splits)

lemma set_cut_out_eq:
  "target cmp k v t = Node l a r \<Longrightarrow> l = Leaf \<or> r = Leaf \<Longrightarrow> distinct (inorder t) \<Longrightarrow>
   set_tree (cut_out cmp k v t) = set_tree t - {a}"
proof (induction t)
  case (Node l' b r')
  have "a \<in> set_tree l'" if "cmp (k b) v < 0" using Node.prems(1) that target_subset by fastforce
  moreover have "a \<in> set_tree r'" if "0 < cmp (k b) v" using Node.prems(1) that target_subset by fastforce
  ultimately show ?case using Node by (auto split: if_splits)
qed simp

lemma ordered_cut_out: "ordered cmp k t \<Longrightarrow> ordered cmp k (cut_out cmp k v t)"
proof (induction t)
  case (Node l a r)
  then show ?case using set_cut_out [of cmp k v l] set_cut_out [of cmp k v r] by auto
qed simp

text \<open>Deletion at the root of a subtree hangs the only child, if any, below the parent.\<close>

lemma delete_here:
  assumes "tree_at h p (Node l a r)" "l = Leaf \<or> r = Leaf" "cmp (key h a) v = 0"
    and "child_link h (Node l a r) q side" "h q = Some m"
  shows "\<exists>c. binary_tree_node_delete cmp p v h =
      Some (h(q \<mapsto> if side then m\<lparr>node_left := c\<rparr> else m\<lparr>node_right := c\<rparr>)) \<and>
      tree_at h c (if l = Leaf then r else l)"
proof -
  obtain n where n: "h a = Some n" "tree_at h (node_left n) l" "tree_at h (node_right n) r" "p = a" "a \<noteq> 0"
    using assms(1) by (auto split: option.splits)
  have flags: "node_parent n = q" "is_left n = side" "is_right n = (\<not> side)"
    using assms(4) n(1) by (simp_all add: child_link_def)
  have null: "tree_at h b t \<Longrightarrow> b = 0 \<longleftrightarrow> t = Leaf" for b t by (cases t) auto
  have "node_left n = 0 \<longleftrightarrow> l = Leaf" "node_right n = 0 \<longleftrightarrow> r = Leaf" using null n by blast+
  with assms(2,3,5) n flags show ?thesis
    by (intro exI [of _ "if l = Leaf then node_right n else node_left n"])
      (auto simp: binary_tree_node_delete.simps [of cmp a v h] key_def replace_child_def node_upd_def)
qed

definition deleted :: "u32 tree \<Rightarrow> u32 \<Rightarrow> u32 tree \<Rightarrow> node_heap \<Rightarrow> node_heap \<Rightarrow> bool" where
  "deleted t p t' h h' \<longleftrightarrow> tree_at h' p t' \<and> (\<forall>a \<in> set_tree t. same_place h h' a) \<and>
     (\<forall>a. a \<notin> set_tree t \<longrightarrow> h' a = h a)"

lemma deleted_child:
  assumes "h a = Some n" "a \<noteq> 0" "a \<notin> set_tree l" "a \<notin> set_tree r"
    and "tree_at h c t'" "set_tree t' \<subseteq> set_tree l \<union> set_tree r"
    and "tree_at h (node_left n) l" "tree_at h (node_right n) r"
  shows "deleted (Node l a r) a (Node t' a r) h (h(a \<mapsto> n\<lparr>node_left := c\<rparr>))"
    and "deleted (Node l a r) a (Node l a t') h (h(a \<mapsto> n\<lparr>node_right := c\<rparr>))"
proof -
  have *: "tree_at (h(a \<mapsto> m)) d t" if "tree_at h d t" "set_tree t \<subseteq> set_tree l \<union> set_tree r" for d t m
    using that assms(3,4) by (intro tree_at_frame [OF that(1)]) auto
  have place: "same_place h (h(a \<mapsto> n\<lparr>node_left := c\<rparr>)) b" "same_place h (h(a \<mapsto> n\<lparr>node_right := c\<rparr>)) b" for b
    using assms(1) by (cases "b = a"; auto simp: same_place_def split: option.splits)+
  show "deleted (Node l a r) a (Node t' a r) h (h(a \<mapsto> n\<lparr>node_left := c\<rparr>))"
    "deleted (Node l a r) a (Node l a t') h (h(a \<mapsto> n\<lparr>node_right := c\<rparr>))"
    using assms(1,2) place * [OF assms(5,6)] * [OF assms(7)] * [OF assms(8)] by (auto simp: deleted_def)
qed

lemma deleted_left:
  assumes "deleted l (node_left n) l' h h'" "h a = Some n" "a \<noteq> 0" "tree_at h (node_right n) r"
    and "a \<notin> set_tree l" "a \<notin> set_tree r" "set_tree l \<inter> set_tree r = {}"
  shows "deleted (Node l a r) a (Node l' a r) h h'"
proof -
  have same: "h' b = h b" if "b \<in> insert a (set_tree r)" for b using assms that by (auto simp: deleted_def)
  then have "tree_at h' (node_right n) r" by (intro tree_at_frame [OF assms(4)]) auto
  with assms(1-3) same show ?thesis by (auto simp: deleted_def same_place_refl)
qed

lemma deleted_right:
  assumes "deleted r (node_right n) r' h h'" "h a = Some n" "a \<noteq> 0" "tree_at h (node_left n) l"
    and "a \<notin> set_tree l" "a \<notin> set_tree r" "set_tree l \<inter> set_tree r = {}"
  shows "deleted (Node l a r) a (Node l a r') h h'"
proof -
  have same: "h' b = h b" if "b \<in> insert a (set_tree l)" for b using assms that by (auto simp: deleted_def)
  then have "tree_at h' (node_left n) l" by (intro tree_at_frame [OF assms(4)]) auto
  with assms(1-3) same show ?thesis by (auto simp: deleted_def same_place_refl)
qed

lemma delete_left_here:
  assumes n: "h a = Some n" "a \<noteq> 0" "tree_at h (node_left n) l" "tree_at h (node_right n) r"
    and out: "a \<notin> set_tree l" "a \<notin> set_tree r"
    and l: "l = Node l1 b l2" "l1 = Leaf \<or> l2 = Leaf" "cmp (key h b) v = 0" "child_link h l a True"
  shows "\<exists>h'. binary_tree_node_delete cmp (node_left n) v h = Some h' \<and>
     deleted (Node l a r) a (Node (cut_out cmp (key h) v l) a r) h h'"
proof -
  from delete_here [where cmp = cmp and v = v, OF n(3) [unfolded l(1)] l(2,3) l(4) [unfolded l(1)] n(1)]
  obtain c where "binary_tree_node_delete cmp (node_left n) v h = Some (h(a \<mapsto> n\<lparr>node_left := c\<rparr>))"
    and "tree_at h c (cut_out cmp (key h) v l)" using l(3) by (auto simp: l(1))
  with deleted_child(1) [OF n(1,2) out this(2) _ n(3,4)] set_cut_out show ?thesis by blast
qed

lemma delete_right_here:
  assumes n: "h a = Some n" "a \<noteq> 0" "tree_at h (node_left n) l" "tree_at h (node_right n) r"
    and out: "a \<notin> set_tree l" "a \<notin> set_tree r"
    and r: "r = Node r1 b r2" "r1 = Leaf \<or> r2 = Leaf" "cmp (key h b) v = 0" "child_link h r a False"
  shows "\<exists>h'. binary_tree_node_delete cmp (node_right n) v h = Some h' \<and>
     deleted (Node l a r) a (Node l a (cut_out cmp (key h) v r)) h h'"
proof -
  from delete_here [where cmp = cmp and v = v, OF n(4) [unfolded r(1)] r(2,3) r(4) [unfolded r(1)] n(1)]
  obtain c where "binary_tree_node_delete cmp (node_right n) v h = Some (h(a \<mapsto> n\<lparr>node_right := c\<rparr>))"
    and "tree_at h c (cut_out cmp (key h) v r)" using r(3) by (auto simp: r(1))
  with deleted_child(2) [OF n(1,2) out this(2) _ n(3,4)] set_cut_out show ?thesis by blast
qed

lemma node_delete_spec:
  assumes "tree_at h p t" "linked h t" "distinct (inorder t)"
    and "one_child (target cmp (key h) v t)" "t = Node l a r" "cmp (key h a) v \<noteq> 0"
  shows "\<exists>h'. binary_tree_node_delete cmp p v h = Some h' \<and> deleted t p (cut_out cmp (key h) v t) h h'"
  using assms
proof (induction t arbitrary: p l a r)
  case (Node l' a' r')
  then have eq: "l' = l" "a' = a" "r' = r" by simp_all
  note IH = Node.IH [unfolded eq]
  obtain n where n: "h a = Some n" "a \<noteq> 0" "tree_at h (node_left n) l" "tree_at h (node_right n) r" "p = a"
    using Node.prems(1) unfolding eq by (auto split: option.splits)
  have out: "a \<notin> set_tree l" "a \<notin> set_tree r" "set_tree l \<inter> set_tree r = {}"
    and sub: "distinct (inorder l)" "distinct (inorder r)" "linked h l" "linked h r"
      "child_link h l a True" "child_link h r a False" using Node.prems(2,3) by (auto simp: eq)
  have k: "key h a = node_value n" using n by (simp add: key_def)
  note step = binary_tree_node_delete.simps [of cmp a v h]
  show ?case
  proof (cases "cmp (key h a) v < 0")
    case True
    then have t: "one_child (target cmp (key h) v l)" using Node.prems(4,6) by (simp add: eq)
    then obtain l1 b l2 where l: "l = Node l1 b l2" by (cases l) (auto simp: one_child_def)
    have "\<exists>h'. binary_tree_node_delete cmp (node_left n) v h = Some h' \<and>
        deleted (Node l a r) a (Node (cut_out cmp (key h) v l) a r) h h'"
    proof (cases "cmp (key h b) v = 0")
      case here: True
      then have "l1 = Leaf \<or> l2 = Leaf" using t by (simp add: l one_child_def)
      from delete_left_here [where cmp = cmp and v = v, OF n(1-4) out(1,2) l this here sub(5)] show ?thesis .
    next
      case False
      from IH(1) [OF n(3) sub(3,1) t l False] deleted_left [OF _ n(1,2,4) out] show ?thesis by blast
    qed
    with True n k show ?thesis by (auto simp: step eq)
  next
    case gt: False
    then have t: "one_child (target cmp (key h) v r)" using Node.prems(4,6) by (simp add: eq)
    then obtain r1 b r2 where r: "r = Node r1 b r2" by (cases r) (auto simp: one_child_def)
    have "\<exists>h'. binary_tree_node_delete cmp (node_right n) v h = Some h' \<and>
        deleted (Node l a r) a (Node l a (cut_out cmp (key h) v r)) h h'"
    proof (cases "cmp (key h b) v = 0")
      case here: True
      then have "r1 = Leaf \<or> r2 = Leaf" using t by (simp add: r one_child_def)
      from delete_right_here [where cmp = cmp and v = v, OF n(1-4) out(1,2) r this here sub(6)] show ?thesis .
    next
      case False
      from IH(2) [OF n(4) sub(4,2) t r False] deleted_right [OF _ n(1,2,3) out] show ?thesis by blast
    qed
    with gt Node.prems(6) n k show ?thesis by (auto simp: step eq)
  qed
qed simp

text \<open>
  Deleting a value held by a node below the root with at most one child removes exactly that
  node: the links then form the tree with the node cut out, still ordered, and every other value stays.
\<close>

theorem tree_delete_cuts:
  assumes "compare_order (compare tr)" "valid_tree tr t h"
    and "target (compare tr) (key h) v t = Node l b r" "l = Leaf \<or> r = Leaf" "b \<noteq> root_node tr"
  shows "\<exists>h'. binary_tree_delete tr v h = Some h' \<and>
     tree_at h' (root_node tr) (cut_out (compare tr) (key h) v t) \<and>
     ordered (compare tr) (key h') (cut_out (compare tr) (key h) v t) \<and>
     set_tree (cut_out (compare tr) (key h) v t) = set_tree t - {b} \<and>
     (\<forall>a \<in> set_tree t. key h' a = key h a)"
proof -
  let ?t = "cut_out (compare tr) (key h) v t"
  have v: "tree_at h (root_node tr) t" "linked h t" "distinct (inorder t)" "ordered (compare tr) (key h) t"
    using assms(2) by (auto simp: valid_tree_def)
  have b: "b \<in> set_tree t" using assms(3) by (rule target_subset)
  have eq: "compare tr (key h b) v = 0" using assms(3) by (induction t) (auto split: if_splits)
  obtain l0 r0 where t: "t = Node l0 (root_node tr) r0" using v(1) b by (cases t) auto
  have "compare tr (key h (root_node tr)) v \<noteq> 0" using assms(3,5) t by auto
  from node_delete_spec [where cmp = "compare tr" and v = v, OF v(1-3) _ t this] assms(3,4)
  obtain h' where h': "binary_tree_node_delete (compare tr) (root_node tr) v h = Some h'"
    and del: "deleted t (root_node tr) ?t h h'" by (auto simp: one_child_def)
  obtain c where "binary_tree_find tr v h = Some c" "c \<noteq> 0"
    using compare_order.node_find_spec [OF assms(1) v(1,4), of v] b eq by (auto simp: binary_tree_find_def split: if_splits)
  with h' have "binary_tree_delete tr v h = Some h'" by (simp add: binary_tree_delete_def)
  moreover have keys: "\<forall>a \<in> set_tree t. key h' a = key h a" using del by (auto simp: deleted_def same_place_key)
  moreover have "ordered (compare tr) (key h') ?t"
    using ordered_cut_out [OF v(4), of v] keys set_cut_out [of "compare tr" "key h" v t]
    by (auto intro: ordered_cong [of _ "key h"])
  ultimately show ?thesis
    using del set_cut_out_eq [OF assms(3,4) v(3)] by (auto simp: deleted_def)
qed

theorem tree_delete_cuts_witness:
  "\<exists>h'. binary_tree_delete sample_tree 30 four_nodes = Some h' \<and>
     tree_at h' 4 (Node (Node Leaf 8 Leaf) 4 (Node Leaf 16 Leaf))"
  using tree_delete_cuts [OF sample_order four_valid, of 30 "Node Leaf 16 Leaf" 12 Leaf]
  by (auto simp: four_eval)

text \<open>
  Deleting a value whose node has two children drops the part of its right subtree that lies
  between the node and its successor: after the deletion of 50 the value 30 is not found any more. A
  value at the root with at most one child is not deleted at all.
\<close>

theorem tree_delete_loses:
  "binary_tree_find sample_tree 30 four_nodes = Some 12 \<and>
   (\<exists>h'. binary_tree_delete sample_tree 50 four_nodes = Some h' \<and>
      binary_tree_find sample_tree 40 h' = Some 4 \<and> binary_tree_find sample_tree 30 h' = Some 0) \<and>
   binary_tree_delete sample_tree 20 sample_heap = Some sample_heap"
proof -
  note find = binary_tree_node_find.simps [of "compare_function (\<lambda>v. small_int v)"]
  note del = binary_tree_node_delete.simps [of "compare_function (\<lambda>v. small_int v)"]
  note ev = four_eval sample_heap_def binary_tree_find_def binary_tree_delete_def node_upd_def replace_child_def
  have "binary_tree_find sample_tree 30 four_nodes = Some 12"
    by (simp add: ev find [of 4] find [of 12])
  moreover have "\<exists>h'. binary_tree_delete sample_tree 50 four_nodes = Some h' \<and>
      binary_tree_find sample_tree 40 h' = Some 4 \<and> binary_tree_find sample_tree 30 h' = Some 0"
    by (simp add: ev find [of 4] find [of 0] del [of 4] leftmost.simps [of _ 12] leftmost.simps [of _ 16])
  moreover have "binary_tree_delete sample_tree 20 sample_heap = Some sample_heap"
    by (simp add: ev find [of 4] del [of 4])
  ultimately show ?thesis by blast
qed

end
