(* ===== verification/BlockTree.thy ===== *)
theory BlockTree
  imports Prelude
begin

text \<open>
  The abstract buddy allocator that \<^verbatim>\<open>src/kernel/mm/buddy_allocator.c\<close> is proved to implement: a tree
  of blocks whose sizes are powers of two, the search for a block, and what the search guarantees: the
  blocks tile the range of the root, the block found is new and is the only change, and how large it is.
\<close>

section \<open>The tree of blocks\<close>

text \<open>
  The abstract allocator: a block of \<open>2 ^ j\<close> bytes is one piece, free or allocated, or is split in
  two halves.
\<close>

datatype blk = Block bool | Split blk blk

definition fits :: "u32 \<Rightarrow> nat \<Rightarrow> bool" where
  "fits len j \<longleftrightarrow> 2 * len < (2 ^ j :: u32) \<and> (2 ^ j :: u32) < 4 * len"

text \<open>
  The search for a block for \<open>len\<close> bytes, from the left, splitting the first free block that is met and is
  too large. The result has the block found set to \<open>v\<close> and gives its address and its size.
\<close>

function blk_search :: "bool \<Rightarrow> u32 \<Rightarrow> u32 \<Rightarrow> nat \<Rightarrow> blk \<Rightarrow> (blk \<times> u32 \<times> nat) option" where
  "blk_search v len b j (Block al) =
     (if al then None
      else if fits len j \<or> j \<le> 12 then Some (Block v, b, j)
      else (case blk_search v len b (j - 1) (Block False) of
              None \<Rightarrow> None
            | Some (l, x) \<Rightarrow> Some (Split l (Block False), x)))"
| "blk_search v len b j (Split l r) =
     (if fits len j then None
      else (case blk_search v len b (j - 1) l of
              Some (l', x) \<Rightarrow> Some (Split l' r, x)
            | None \<Rightarrow> (case blk_search v len (b + 2 ^ (j - 1)) (j - 1) r of
                Some (r', x) \<Rightarrow> Some (Split l r', x)
              | None \<Rightarrow> None)))"
  by pat_completeness auto
termination
  by (relation "measures [\<lambda>(v, len, b, j, t). size t, \<lambda>(v, len, b, j, t). j]") auto

declare blk_search.simps(1) [simp del]

lemma blk_search_block:
  "blk_search v len b j (Block True) = None"
  "fits len j \<or> j \<le> 12 \<Longrightarrow> blk_search v len b j (Block False) = Some (Block v, b, j)"
  "\<not> fits len j \<Longrightarrow> 12 < j \<Longrightarrow> blk_search v len b j (Block False) =
     (case blk_search v len b (j - 1) (Block False) of
        None \<Rightarrow> None | Some (l, x) \<Rightarrow> Some (Split l (Block False), x))"
  by (simp_all add: blk_search.simps(1) [of v len b j])

lemma blk_search_free: "blk_search v len b j (Block False) \<noteq> None"
proof (induction j arbitrary: b)
  case (Suc j)
  then show ?case
    by (cases "fits len (Suc j) \<or> Suc j \<le> 12") (auto simp: blk_search_block split: option.splits)
qed (simp add: blk_search_block)

lemma blk_search_mark:
  "map_option snd (blk_search v len b j t) = map_option snd (blk_search w len b j t)"
proof (induction v len b j t rule: blk_search.induct)
  case (1 v len b j al)
  show ?case
  proof (cases "al \<or> fits len j \<or> j \<le> 12")
    case True
    then show ?thesis by (auto simp: blk_search.simps(1) [of _ len b j])
  next
    case False
    with 1 have "map_option snd (blk_search v len b (j - 1) (Block False)) =
        map_option snd (blk_search w len b (j - 1) (Block False))" by simp
    with False show ?thesis
      by (cases "blk_search v len b (j - 1) (Block False)"; cases "blk_search w len b (j - 1) (Block False)")
        (auto simp: blk_search_block)
  qed
next
  case (2 v len b j l r)
  show ?case
  proof (cases "fits len j")
    case False
    note IH = 2(1) [OF False] 2(2) [OF False]
    show ?thesis
    proof (cases "blk_search v len b (j - 1) l")
      case None
      with IH(1) have "blk_search w len b (j - 1) l = None" by simp
      with None False IH(2) [OF None] show ?thesis
        by (cases "blk_search v len (b + 2 ^ (j - 1)) (j - 1) r";
            cases "blk_search w len (b + 2 ^ (j - 1)) (j - 1) r") auto
    next
      case (Some x)
      with IH(1) obtain y where "blk_search w len b (j - 1) l = Some y" "snd y = snd x"
        by (cases "blk_search w len b (j - 1) l") auto
      with Some False show ?thesis by (cases x; cases y) auto
    qed
  qed simp
qed

text \<open>The blocks of a tree with their addresses, sizes and states.\<close>

fun blocks :: "nat \<Rightarrow> nat \<Rightarrow> blk \<Rightarrow> (nat \<times> nat \<times> bool) list" where
  "blocks b j (Block al) = [(b, j, al)]"
| "blocks b j (Split l r) = blocks b (j - 1) l @ blocks (b + 2 ^ (j - 1)) (j - 1) r"

fun depth_ok :: "nat \<Rightarrow> blk \<Rightarrow> bool" where
  "depth_ok j (Block al) \<longleftrightarrow> 12 \<le> j"
| "depth_ok j (Split l r) \<longleftrightarrow> 12 < j \<and> depth_ok (j - 1) l \<and> depth_ok (j - 1) r"

definition block_range :: "nat \<times> nat \<times> bool \<Rightarrow> nat set" where
  "block_range x = (case x of (b, j, al) \<Rightarrow> {b..<b + 2 ^ j})"

lemma two_halves: "12 < j \<Longrightarrow> (2 :: nat) ^ j = 2 ^ (j - 1) + 2 ^ (j - 1)"
  by (cases j) auto

text \<open>The blocks tile the range of the root.\<close>

lemma blocks_cover: "depth_ok j t \<Longrightarrow> \<Union> (block_range ` set (blocks b j t)) = {b..<b + 2 ^ j}"
proof (induction t arbitrary: b j)
  case (Split l r)
  have "{b..<b + 2 ^ (j - 1)} \<union> {b + 2 ^ (j - 1)..<b + 2 ^ (j - 1) + 2 ^ (j - 1)} = {b..<b + (2 :: nat) ^ j}"
    using two_halves [of j] Split.prems by (auto simp: add.assoc)
  with Split show ?case by (simp add: image_Un)
qed (simp add: block_range_def)

lemma blocks_disjoint:
  "depth_ok j t \<Longrightarrow> sorted_wrt (\<lambda>x y. block_range x \<inter> block_range y = {}) (blocks b j t)"
proof (induction t arbitrary: b j)
  case (Split l r)
  have "block_range x \<inter> block_range y = {}"
    if "x \<in> set (blocks b (j - 1) l)" "y \<in> set (blocks (b + 2 ^ (j - 1)) (j - 1) r)" for x y
  proof -
    have "block_range x \<subseteq> {b..<b + 2 ^ (j - 1)}"
      using blocks_cover [of "j - 1" l b] Split.prems that(1) by auto
    moreover have "block_range y \<subseteq> {b + 2 ^ (j - 1)..<b + 2 ^ (j - 1) + 2 ^ (j - 1)}"
      using blocks_cover [of "j - 1" r "b + 2 ^ (j - 1)"] Split.prems that(2) by auto
    ultimately show ?thesis by fastforce
  qed
  with Split show ?case by (simp add: sorted_wrt_append)
qed simp

lemma unat_block: "j \<le> 31 \<Longrightarrow> unat (2 ^ j :: u32) = 2 ^ j"
proof -
  assume "j \<le> 31"
  then have "(2 :: nat) ^ j \<le> 2 ^ 31" by (rule power_increasing) simp
  then have "(2 :: nat) ^ j < 4294967296" by simp
  from unat_of_nat_u32 [OF this] show ?thesis by simp
qed

section \<open>What the abstract search does\<close>

definition allocated :: "nat \<Rightarrow> nat \<Rightarrow> blk \<Rightarrow> (nat \<times> nat) set" where
  "allocated b j t = {(c, i). (c, i, True) \<in> set (blocks b j t)}"

lemma allocated_simps [simp]:
  "allocated b j (Block al) = (if al then {(b, j)} else {})"
  "allocated b j (Split l r) = allocated b (j - 1) l \<union> allocated (b + 2 ^ (j - 1)) (j - 1) r"
  by (auto simp: allocated_def)

lemma unat_half:
  assumes "unat (b :: u32) + 2 ^ j \<le> 4294967296" "12 < j"
  shows "unat (b + 2 ^ (j - 1)) = unat b + 2 ^ (j - 1)" "unat b + 2 ^ (j - 1) + 2 ^ (j - 1) \<le> 4294967296"
proof -
  have sum: "unat b + 2 ^ (j - 1) + 2 ^ (j - 1) \<le> 4294967296" using assms two_halves [of j] by simp
  then have "(2 :: nat) ^ (j - 1) < 2 ^ 32" by simp
  then have "j - 1 < 32" by (rule power_less_imp_less_exp [rotated]) simp
  then have "unat (2 ^ (j - 1) :: u32) = 2 ^ (j - 1)" by (intro unat_block) simp
  moreover have "0 < (2 :: nat) ^ (j - 1)" by simp
  with sum have "unat b + 2 ^ (j - 1) < 4294967296" by linarith
  ultimately show "unat (b + 2 ^ (j - 1)) = unat b + 2 ^ (j - 1)" by (simp add: unat_word_ariths)
  show "unat b + 2 ^ (j - 1) + 2 ^ (j - 1) \<le> 4294967296" by (rule sum)
qed

text \<open>The block found is added to the allocated ones, and nothing else changes.\<close>

lemma search_allocates:
  assumes "blk_search True len b j t = Some (u, b', j')" "depth_ok j t" "unat b + 2 ^ j \<le> 4294967296"
  shows "allocated (unat b) j u = insert (unat b', j') (allocated (unat b) j t) \<and> depth_ok j u"
  using assms
proof (induction True len b j t arbitrary: u rule: blk_search.induct)
  case (1 len b j al)
  show ?case
  proof (cases "al \<or> fits len j \<or> j \<le> 12")
    case True
    with 1 show ?thesis by (auto simp: blk_search.simps(1) split: if_splits)
  next
    case False
    then obtain l where l: "blk_search True len b (j - 1) (Block False) = Some (l, b', j')" "u = Split l (Block False)"
      using "1.prems"(1) by (auto simp: blk_search_block split: option.splits prod.splits)
    have "allocated (unat b) (j - 1) l = {(unat b', j')} \<and> depth_ok (j - 1) l"
      using "1.hyps" [of l] False l(1) "1.prems"(3) two_halves [of j] by auto
    moreover have "12 \<le> j - 1" using False by linarith
    ultimately show ?thesis using False l(2) by simp
  qed
next
  case (2 len b j l r)
  have j: "12 < j" "depth_ok (j - 1) l" "depth_ok (j - 1) r" using "2.prems"(2) by auto
  note half = unat_half [OF "2.prems"(3) j(1)]
  have nofit: "\<not> fits len j" using "2.prems"(1) by (auto split: if_splits)
  show ?case
  proof (cases "blk_search True len b (j - 1) l")
    case None
    with "2.prems"(1) nofit obtain r' where
      r': "blk_search True len (b + 2 ^ (j - 1)) (j - 1) r = Some (r', b', j')" "u = Split l r'"
      by (auto split: option.splits prod.splits)
    with "2.hyps"(2) [OF nofit None, of r'] j half show ?thesis by auto
  next
    case (Some x)
    with "2.prems"(1) nofit obtain l' where
      l': "blk_search True len b (j - 1) l = Some (l', b', j')" "u = Split l' r"
      by (auto split: option.splits prod.splits)
    with "2.hyps"(1) [OF nofit, of l'] j half show ?thesis by auto
  qed
qed

text \<open>
  How large the block found is. When some power of two lies between \<open>2 * len\<close> and \<open>4 * len\<close>, a
  block of that size is found; otherwise the smallest one.
\<close>

lemma search_size:
  assumes "blk_search v len b j t = Some (u, b', j')" "depth_ok j t"
  shows "j' \<le> j \<and> (fits len j' \<or> j' = 12 \<and> (\<forall>i. 12 < i \<and> i \<le> j \<longrightarrow> \<not> fits len i))"
  using assms
proof (induction v len b j t arbitrary: u rule: blk_search.induct)
  case (1 v len b j al)
  show ?case
  proof (cases "al \<or> fits len j \<or> j \<le> 12")
    case True
    with 1 show ?thesis by (auto simp: blk_search.simps(1) split: if_splits)
  next
    case False
    then obtain l where l: "blk_search v len b (j - 1) (Block False) = Some (l, b', j')"
      using "1.prems"(1) by (auto simp: blk_search_block split: option.splits prod.splits)
    have IH: "j' \<le> j - 1 \<and> (fits len j' \<or> j' = 12 \<and> (\<forall>i. 12 < i \<and> i \<le> j - 1 \<longrightarrow> \<not> fits len i))"
      using "1.IH" [of l] False l by auto
    have "i \<le> j - 1" if "12 < i" "i \<le> j" "fits len i" for i using that False by (cases "i = j") auto
    with IH show ?thesis by fastforce
  qed
next
  case (2 v len b j l r)
  have nofit: "\<not> fits len j" using "2.prems"(1) by (auto split: if_splits)
  have "\<exists>w. blk_search v len b (j - 1) l = Some (w, b', j') \<or>
      blk_search v len b (j - 1) l = None \<and> blk_search v len (b + 2 ^ (j - 1)) (j - 1) r = Some (w, b', j')"
    using "2.prems"(1) nofit by (auto split: option.splits prod.splits)
  then have IH: "j' \<le> j - 1 \<and> (fits len j' \<or> j' = 12 \<and> (\<forall>i. 12 < i \<and> i \<le> j - 1 \<longrightarrow> \<not> fits len i))"
    using "2.IH" nofit "2.prems"(2) by auto
  have "i \<le> j - 1" if "12 < i" "i \<le> j" "fits len i" for i using that nofit by (cases "i = j") auto
  with IH show ?case by fastforce
qed

lemma search_block:
  assumes "blk_search True len b j t = Some (u, b', j')" "depth_ok j t" "unat b + 2 ^ j \<le> 4294967296"
  shows "(unat b', j') \<notin> allocated (unat b) j t \<and>
     (\<forall>(c, i) \<in> allocated (unat b) j t. {unat b'..<unat b' + 2 ^ j'} \<inter> {c..<c + 2 ^ i} = {})"
  using assms
proof (induction True len b j t arbitrary: u rule: blk_search.induct)
  case (1 len b j al)
  then show ?case by (auto simp: blk_search.simps(1) split: if_splits)
next
  case (2 len b j l r)
  have j: "12 < j" "depth_ok (j - 1) l" "depth_ok (j - 1) r" using "2.prems"(2) by auto
  note half = unat_half [OF "2.prems"(3) j(1)]
  have nofit: "\<not> fits len j" using "2.prems"(1) by (auto split: if_splits)
  have sub: "{c..<c + 2 ^ i} \<subseteq> {d..<d + 2 ^ (j - 1)}" if "(c, i) \<in> allocated d (j - 1) x" "depth_ok (j - 1) x" for c i d x
  proof -
    have "block_range (c, i, True) \<subseteq> \<Union> (block_range ` set (blocks d (j - 1) x))"
      using that(1) by (intro Union_upper imageI) (simp add: allocated_def)
    then show ?thesis using blocks_cover [OF that(2), of d] by (simp add: block_range_def)
  qed
  have ne: "(2 :: nat) ^ i > 0" for i by simp
  show ?case
  proof (cases "blk_search True len b (j - 1) l")
    case None
    with "2.prems"(1) nofit obtain r' where r': "blk_search True len (b + 2 ^ (j - 1)) (j - 1) r = Some (r', b', j')"
      by (auto split: option.splits prod.splits)
    have "(unat b', j') \<in> allocated (unat b + 2 ^ (j - 1)) (j - 1) r'" "depth_ok (j - 1) r'"
      using search_allocates [OF r' j(3)] half by auto
    from sub [OF this] have in_r: "{unat b'..<unat b' + 2 ^ j'} \<subseteq> {unat b + 2 ^ (j - 1)..<unat b + 2 ^ (j - 1) + 2 ^ (j - 1)}" .
    have out: "{unat b'..<unat b' + 2 ^ j'} \<inter> {c..<c + 2 ^ i} = {}" if "(c, i) \<in> allocated (unat b) (j - 1) l" for c i
      using sub [OF that j(2)] in_r by fastforce
    have "(unat b', j') \<notin> allocated (unat b) (j - 1) l" using out [of "unat b'" j'] by auto
    with "2.hyps"(2) [OF nofit None r' j(3)] half out show ?thesis by auto
  next
    case (Some x)
    with "2.prems"(1) nofit obtain l' where l': "blk_search True len b (j - 1) l = Some (l', b', j')"
      by (auto split: option.splits prod.splits)
    have "(unat b', j') \<in> allocated (unat b) (j - 1) l'" "depth_ok (j - 1) l'"
      using search_allocates [OF l' j(2)] half by auto
    from sub [OF this] have in_l: "{unat b'..<unat b' + 2 ^ j'} \<subseteq> {unat b..<unat b + 2 ^ (j - 1)}" .
    have out: "{unat b'..<unat b' + 2 ^ j'} \<inter> {c..<c + 2 ^ i} = {}"
      if "(c, i) \<in> allocated (unat b + 2 ^ (j - 1)) (j - 1) r" for c i
      using sub [OF that j(3)] in_l by fastforce
    have "(unat b', j') \<notin> allocated (unat b + 2 ^ (j - 1)) (j - 1) r" using out [of "unat b'" j'] by auto
    with "2.hyps"(1) [OF nofit l' j(2)] half out show ?thesis by auto
  qed
qed

section \<open>Sizes\<close>

lemma fits_iff:
  assumes "unat len < 2 ^ 30" "i \<le> 31"
  shows "fits len i \<longleftrightarrow> 2 * unat len < 2 ^ i \<and> 2 ^ i < 4 * unat len"
proof -
  have "unat (2 * len) = 2 * unat len" "unat (4 * len) = 4 * unat len"
    using assms(1) by (simp_all add: unat_word_ariths)
  then show ?thesis by (simp add: fits_def word_less_nat_alt unat_block [OF assms(2)])
qed

definition power_of_two :: "nat \<Rightarrow> bool" where
  "power_of_two n \<longleftrightarrow> (\<exists>m. n = 2 ^ m)"

lemma fits_exists:
  assumes "0 < unat len" "unat len < 2 ^ 30" "\<not> power_of_two (unat len)"
  obtains i where "i \<le> 31" "fits len i"
proof -
  obtain n where n: "2 ^ n \<le> unat len" "unat len < 2 ^ (n + 1)"
    using ex_power_ivl1 [of 2 "unat len"] assms(1) by auto
  have "(2 :: nat) ^ n < 2 ^ 30" using n(1) assms(2) by linarith
  then have "n < 30" by (rule power_less_imp_less_exp [rotated]) simp
  moreover have "unat len \<noteq> 2 ^ n" using assms(3) by (auto simp: power_of_two_def)
  ultimately show ?thesis
    using n by (intro that [of "n + 2"]) (simp_all add: fits_iff [OF assms(2)])
qed

lemma search_large_enough:
  assumes "blk_search v len b 31 t = Some (u, b', j')" "depth_ok 31 t" "12 \<le> j'"
    and "unat len \<le> 4096 \<or> unat len < 2 ^ 30 \<and> \<not> power_of_two (unat len)"
  shows "unat len \<le> 2 ^ j'"
proof (cases "unat len \<le> 4096")
  case True
  have "(2 :: nat) ^ 12 \<le> 2 ^ j'" using assms(3) by (rule power_increasing) simp
  with True show ?thesis by simp
next
  case False
  then have len: "0 < unat len" "unat len < 2 ^ 30" "\<not> power_of_two (unat len)" using assms(4) by auto
  obtain i where i: "i \<le> 31" "fits len i" using fits_exists [OF len] .
  have size: "j' \<le> 31" "fits len j' \<or> j' = 12 \<and> (\<forall>i. 12 < i \<and> i \<le> 31 \<longrightarrow> \<not> fits len i)"
    using search_size [OF assms(1,2)] by auto
  have "12 < i"
  proof (rule ccontr)
    assume "\<not> 12 < i"
    then have "(2 :: nat) ^ i \<le> 2 ^ 12" by (intro power_increasing) simp_all
    with i False len(2) show False by (simp add: fits_iff)
  qed
  with size i have "fits len j'" by blast
  with size(1) len(2) show ?thesis by (simp add: fits_iff)
qed

lemma search_power_of_two:
  assumes "blk_search v (2 ^ m) b 31 t = Some (u, b', j')" "depth_ok 31 t" "m \<le> 29"
  shows "j' = 12"
proof -
  have m: "unat (2 ^ m :: u32) = 2 ^ m" using assms(3) by (intro unat_block) simp
  have "(2 :: nat) ^ m < 2 ^ 30" using assms(3) by (intro power_strict_increasing) simp_all
  then have "fits (2 ^ m) i \<longleftrightarrow> (2 :: nat) ^ (m + 1) < 2 ^ i \<and> (2 :: nat) ^ i < 2 ^ (m + 2)" if "i \<le> 31" for i
    using fits_iff [of "2 ^ m" i] that by (simp add: m)
  moreover have "\<not> ((2 :: nat) ^ (m + 1) < 2 ^ i \<and> (2 :: nat) ^ i < 2 ^ (m + 2))" for i
    by (simp only: power_strict_increasing_iff) auto
  ultimately have "\<not> fits (2 ^ m) i" if "i \<le> 31" for i using that by blast
  with search_size [OF assms(1,2)] show ?thesis by auto
qed

lemma sorted_wrt_pair:
  assumes "sorted_wrt P xs" "x \<in> set xs" "y \<in> set xs" "x \<noteq> y" "\<And>x y. P x y \<Longrightarrow> P y x"
  shows "P x y"
  using assms(1-4) by (induction xs) (auto intro: assms(5))

end
