(* ===== verification/Paging.thy ===== *)
theory Paging
  imports Prelude
begin

text \<open>
  The i686 paging layer, \<^verbatim>\<open>src/kernel/arch/i686/paging/paging.c\<close>: one page directory and the
  1024 page tables that follow it in memory, both arrays of 32-bit entries, and the operations
  that the memory manager calls. \<open>mmu_walk\<close> is the translation the processor performs: it follows
  the addresses in the entries through physical memory, and the operations are proved against it.
\<close>

section \<open>State\<close>

text \<open>
  The directory lies at the linker symbol \<^verbatim>\<open>page_directory_start\<close> (\<^verbatim>\<open>linker.ld\<close>, 5 MB) and the page tables start
  4096 bytes after it. \<open>other_memory\<close> is the rest of physical memory, by the addresses of its words; the paging
  layer does not write it.
\<close>

record paging_state =
  page_dir :: "nat \<Rightarrow> u32"
  page_tables :: "nat \<Rightarrow> u32"
  other_memory :: "u32 \<Rightarrow> u32"
  invlpg_log :: "u32 list"

definition page_directory_start :: u32 where
  "page_directory_start = 0x500000"

definition page_tables_start :: u32 where
  "page_tables_start = page_directory_start + 0x1000"

section \<open>Operations\<close>

definition arch_paging_invalidate_single_page :: "u32 \<Rightarrow> paging_state \<Rightarrow> paging_state" where
  "arch_paging_invalidate_single_page addr s = s\<lparr>invlpg_log := invlpg_log s @ [addr]\<rparr>"

text \<open>The products \<^verbatim>\<open>i * PAGE_SIZE\<close> are computed modulo \<open>2 ^ 32\<close>.\<close>

definition arch_paging_init_lower :: "paging_state \<Rightarrow> paging_state" where
  "arch_paging_init_lower s =
     (let pd1 = for_update 0 0 1024
                  (\<lambda>i _. (push_bit 0 1 OR push_bit 1 1) OR
                         push_bit 12 (drop_bit 12 (page_tables_start + of_nat i * 0x1000)))
                  (page_dir s);
          initial_address = (0 :: u32);
          pt1 = for_table 1024 1024
                  (\<lambda>i j _. push_bit 1 1 OR
                     push_bit 12 (drop_bit 12 (initial_address +
                       (of_nat i * (0x1000 * 1024) + of_nat j * 0x1000))))
                  (page_tables s);
          pt2 = for_table 10 1024 (\<lambda>i j v. v OR push_bit 0 1) pt1;
          pd2 = pd1(768 := pd1 768 OR push_bit 0 1);
          pd3 = pd2(769 := pd2 769 OR push_bit 0 1);
          pd4 = pd3(770 := pd3 770 OR push_bit 0 1);
          pd5 = pd4(771 := pd4 771 OR push_bit 0 1);
          window = (\<lambda>row base pt. for_update (row * 1024) 0 1024
                     (\<lambda>i v. (v AND 0xFFF) OR (push_bit 0 1 OR (base + of_nat i * 0x1000))) pt)
      in s\<lparr>page_dir := pd5,
           page_tables :=
             window 771 0xC00000 (window 770 0x800000 (window 769 0x400000 (window 768 0 pt2)))\<rparr>)"

definition arch_paging_map :: "u32 \<Rightarrow> u32 \<Rightarrow> paging_state \<Rightarrow> SYS_RET \<times> paging_state" where
  "arch_paging_map virt_addr phys_addr s =
     (let table = unat (virt_addr div 4096);
          pd = (page_dir s)(table div 1024 :=
                  page_dir s (table div 1024) OR (push_bit 0 1 OR push_bit 1 1));
          pt1 = (page_tables s)(table := 0xFFF);
          pt2 = pt1(table := pt1 table OR (push_bit 0 1 OR push_bit 1 1 OR (phys_addr AND NOT 0xFFF)))
      in (SYS_RET_NO_ERROR, s\<lparr>page_dir := pd, page_tables := pt2\<rparr>))"

definition arch_paging_unmap :: "u32 \<Rightarrow> paging_state \<Rightarrow> SYS_RET \<times> paging_state" where
  "arch_paging_unmap virt_addr s =
     (SYS_RET_NO_ERROR,
      arch_paging_invalidate_single_page virt_addr
        (s\<lparr>page_tables := (page_tables s)(unat (virt_addr div 4096) := 0)\<rparr>))"

text \<open>The result is the status and the word stored through \<^verbatim>\<open>phys_addr\<close>.\<close>

definition arch_paging_virt_to_phys :: "u32 \<Rightarrow> paging_state \<Rightarrow> SYS_RET \<times> u32" where
  "arch_paging_virt_to_phys virt_addr s =
     (SYS_RET_NO_ERROR, page_tables s (unat (virt_addr div 4096)) AND NOT 0xFFF)"

section \<open>The translation performed by the processor\<close>

text \<open>
  A word of physical memory: an entry of the directory, an entry of a table, or something else. The processor takes
  the directory at the address in \<^verbatim>\<open>cr3\<close>, which \<^verbatim>\<open>boot.S\<close> sets to \<^verbatim>\<open>page_directory_start\<close>, and the table at the address
  in the directory's entry; an entry counts when its bit 0 is set.
\<close>

definition phys_word :: "paging_state \<Rightarrow> u32 \<Rightarrow> u32" where
  "phys_word s a =
     (if a - page_directory_start < 0x1000 then page_dir s (unat ((a - page_directory_start) div 4))
      else if a - page_tables_start < 0x400000 then page_tables s (unat ((a - page_tables_start) div 4))
      else other_memory s a)"

definition mmu_walk :: "paging_state \<Rightarrow> u32 \<Rightarrow> u32 option" where
  "mmu_walk s v =
     (let pde = phys_word s (page_directory_start + 4 * (v div 0x400000))
      in if \<not> bit pde 0 then None
         else let pte = phys_word s ((pde AND NOT 0xFFF) + 4 * (v div 0x1000 mod 1024))
           in if bit pte 0 then Some ((pte AND NOT 0xFFF) OR (v AND 0xFFF)) else None)"

section \<open>The frame part and the flag part of an entry\<close>

lemma low_mask_eq: "(0xFFF :: u32) = mask 12"
  by (simp add: mask_eq_exp_minus_1)

lemma high_mask_eq: "(-4096 :: u32) = NOT (mask 12)"
  by (simp add: mask_eq_exp_minus_1)

lemma flags_eq: "(3 :: u32) = mask 2"
  by (simp add: mask_eq_exp_minus_1)

lemma bit_low_mask [simp]: "bit (0xFFF :: u32) n \<longleftrightarrow> n < 12"
  unfolding low_mask_eq by (auto simp: bit_mask_iff)

lemma bit_high_mask [simp]: "bit (-4096 :: u32) n \<longleftrightarrow> 12 \<le> n \<and> n < 32"
  unfolding high_mask_eq by (auto simp: bit_not_iff bit_mask_iff)

lemma bit_flags [simp]: "bit (3 :: u32) n \<longleftrightarrow> n < 2"
  unfolding flags_eq by (auto simp: bit_mask_iff)

lemmas entry_bits = bit_or_iff bit_and_iff bit_low_mask bit_high_mask bit_flags

lemma entry_frame: "(0xFFF OR 3 OR p AND - 4096) AND - 4096 = (p AND - 4096 :: u32)"
  by (rule bit_word_eqI) (auto simp: entry_bits)

section \<open>The interface the memory manager relies on\<close>

text \<open>
  \<open>phys s w\<close> is the frame that the tables record for the page of \<open>w\<close>, \<open>present\<close> tells
  whether the processor would use it. Mapping a page changes that page only.
\<close>

locale address_space =
  fixes map_page :: "u32 \<Rightarrow> u32 \<Rightarrow> 's \<Rightarrow> 's"
    and unmap_page :: "u32 \<Rightarrow> 's \<Rightarrow> 's"
    and phys :: "'s \<Rightarrow> u32 \<Rightarrow> u32"
    and present :: "'s \<Rightarrow> u32 \<Rightarrow> bool"
    and ok :: "'s \<Rightarrow> bool"
  assumes phys_map: "phys (map_page v p s) w = (if page_of w = page_of v then p AND NOT 0xFFF else phys s w)"
    and phys_unmap: "phys (unmap_page v s) w = (if page_of w = page_of v then 0 else phys s w)"
    and present_map: "ok s \<Longrightarrow> present (map_page v p s) w \<longleftrightarrow> page_of w = page_of v \<or> present s w"
    and present_unmap: "ok s \<Longrightarrow> present (unmap_page v s) w \<longleftrightarrow> page_of w \<noteq> page_of v \<and> present s w"
    and ok_map: "ok s \<Longrightarrow> ok (map_page v p s)"
    and ok_unmap: "ok s \<Longrightarrow> ok (unmap_page v s)"
begin

text \<open>The pages that the processor can use, and the frames behind them.\<close>

definition mapped :: "'s \<Rightarrow> u32 set" where
  "mapped s = {v. page_of v * 4096 = v \<and> present s v}"

lemma map_unmap_other:
  "page_of w \<noteq> page_of v \<Longrightarrow> phys (unmap_page v (map_page v p s)) w = phys s w"
  by (simp add: phys_map phys_unmap)

lemma present_unmap_map:
  "ok s \<Longrightarrow> \<not> present s v \<Longrightarrow> page_of v * 4096 = v \<Longrightarrow>
     mapped (unmap_page v (map_page v p s)) \<subseteq> mapped s"
  by (auto simp: mapped_def present_map present_unmap ok_map)

text \<open>A frame that no mapped page uses may be added without creating a second mapping.\<close>

lemma inj_on_map:
  assumes "inj_on (phys s) M" "p AND NOT 0xFFF \<notin> phys s ` M"
    and "\<And>w. w \<in> insert v M \<Longrightarrow> page_of w * 4096 = w"
  shows "inj_on (phys (map_page v p s)) (insert v M)"
proof -
  have page: "page_of w \<noteq> page_of v" if "w \<in> M" "w \<noteq> v" for w
    using assms(3) [of w] assms(3) [of v] that by auto
  have same: "phys (map_page v p s) w = phys s w" if "w \<in> M" "w \<noteq> v" for w
    using page [OF that] by (simp add: phys_map)
  have new: "phys (map_page v p s) v = p AND NOT 0xFFF"
    by (simp add: phys_map)
  show ?thesis
  proof (rule inj_onI)
    fix x y
    assume xy: "x \<in> insert v M" "y \<in> insert v M"
      and eq: "phys (map_page v p s) x = phys (map_page v p s) y"
    consider "x = y" | "x = v" "y \<noteq> v" | "x \<noteq> v" "y = v" | "x \<noteq> v" "y \<noteq> v" by blast
    then show "x = y"
    proof cases
      case 2
      with xy eq assms(2) show ?thesis by (metis imageI insertE new same)
    next
      case 3
      with xy eq assms(2) show ?thesis by (metis imageI insertE new same)
    next
      case 4
      with xy eq same assms(1) show ?thesis by (auto dest: inj_onD)
    qed
  qed
qed

lemma inj_on_unmap:
  assumes "inj_on (phys s) M" and "\<And>w. w \<in> M \<Longrightarrow> page_of w \<noteq> page_of v"
  shows "inj_on (phys (unmap_page v s)) M"
  using assms by (auto simp: inj_on_def phys_unmap)

end

section \<open>The tables provide it\<close>

text \<open>Every entry of the directory is present and holds the address of its table.\<close>

definition pde_ok :: "paging_state \<Rightarrow> bool" where
  "pde_ok s \<longleftrightarrow> (\<forall>i<1024. bit (page_dir s i) 0 \<and> page_dir s i AND NOT 0xFFF = page_tables_start + of_nat i * 0x1000)"

definition pte_present :: "paging_state \<Rightarrow> u32 \<Rightarrow> bool" where
  "pte_present s v \<longleftrightarrow> mmu_walk s v \<noteq> None"

lemma page_index_eq_iff: "unat (v div 4096) = unat (w div 4096) \<longleftrightarrow> page_of v = page_of w" for v w :: u32
  by (simp only: page_of_def word_unat_eq_iff)

lemma page_index_bound: "unat (v div 4096) div 1024 < 1024" for v :: u32
  using page_of_bound [of v] by (simp add: page_of_def)

lemma page_tables_map:
  "page_tables (snd (arch_paging_map v p s)) =
     (page_tables s)(unat (v div 4096) := 0xFFF OR 3 OR p AND - 4096)"
proof -
  have "1 OR 2 OR x = 3 OR x" for x :: u32 by (simp flip: or.assoc)
  then show ?thesis by (simp add: arch_paging_map_def Let_def)
qed

lemma page_dir_map:
  "page_dir (snd (arch_paging_map v p s)) =
     (page_dir s)(unat (v div 4096) div 1024 := page_dir s (unat (v div 4096) div 1024) OR 3)"
  by (simp add: arch_paging_map_def Let_def)

lemma page_unmap:
  "page_tables (snd (arch_paging_unmap v s)) = (page_tables s)(unat (v div 4096) := 0)"
  "page_dir (snd (arch_paging_unmap v s)) = page_dir s"
  by (simp_all add: arch_paging_unmap_def arch_paging_invalidate_single_page_def)

text \<open>Where the processor finds the entries of an address.\<close>

lemma directory_word: "phys_word s (page_directory_start + 4 * (v div 0x400000)) = page_dir s (unat (v div 4096) div 1024)" for v :: u32
proof -
  have "unat (v div 0x400000) < 1024" using page_index_bound [of v] by (simp add: unat_div flip: div_mult2_eq)
  then have "4 * (v div 0x400000) < 0x1000" "unat (4 * (v div 0x400000) div 4) = unat (v div 0x400000)"
    by (simp_all add: word_less_nat_alt unat_div unat_word_ariths)
  moreover have "unat (v div 0x400000) = unat (v div 4096) div 1024" by (simp add: unat_div flip: div_mult2_eq)
  ultimately show ?thesis by (simp add: phys_word_def)
qed

lemma table_word:
  "phys_word s (page_tables_start + of_nat (unat (v div 4096) div 1024) * 0x1000 + 4 * (v div 0x1000 mod 1024)) =
     page_tables s (unat (v div 4096))" for v :: u32
proof -
  let ?i = "unat (v div 4096) div 1024" and ?j = "unat (v div 4096) mod 1024"
  let ?off = "of_nat ?i * 0x1000 + 4 * (v div 0x1000 mod 1024) :: u32"
  have i: "?i < 1024" by (rule page_index_bound)
  have "unat (v div 0x1000 mod 1024) = ?j" by (simp add: unat_mod)
  then have u: "unat ?off = ?i * 4096 + 4 * ?j" using i by (simp add: unat_word_ariths unat_of_nat_u32)
  have j: "?j < 1024" by simp
  have "unat (?off + 0x1000) = ?i * 4096 + 4 * ?j + 4096" using u i j by (simp add: unat_word_ariths(1))
  then have "\<not> ?off + 0x1000 < 0x1000" by (simp add: word_less_nat_alt)
  moreover have "?off < 0x400000" using u i j by (simp add: word_less_nat_alt)
  moreover have "unat (?off div 4) = unat (v div 4096)"
  proof -
    have "unat (?off div 4) = unat ?off div unat (4 :: u32)" by (rule unat_div)
    also have "\<dots> = (?i * 4096 + 4 * ?j) div 4" by (subst u) simp
    also have "\<dots> = ?i * 1024 + ?j" by simp
    finally show ?thesis by simp
  qed
  ultimately show ?thesis by (simp add: phys_word_def page_tables_start_def algebra_simps)
qed

lemma walk_tables:
  assumes "pde_ok s"
  shows "mmu_walk s v = (let pte = page_tables s (unat (v div 4096)) in if bit pte 0 then Some ((pte AND NOT 0xFFF) OR (v AND 0xFFF)) else None)"
proof -
  have "bit (page_dir s (unat (v div 4096) div 1024)) 0"
    "page_dir s (unat (v div 4096) div 1024) AND NOT 0xFFF = page_tables_start + of_nat (unat (v div 4096) div 1024) * 0x1000"
    using assms page_index_bound [of v] unfolding pde_ok_def by blast+
  then show ?thesis unfolding mmu_walk_def Let_def directory_word by (simp only: table_word simp_thms if_False)
qed

lemma pte_present_iff: "pde_ok s \<Longrightarrow> pte_present s v \<longleftrightarrow> bit (page_tables s (unat (v div 4096))) 0"
  by (simp add: pte_present_def walk_tables Let_def)

lemma pde_ok_map: "pde_ok s \<Longrightarrow> pde_ok (snd (arch_paging_map v p s))"
proof -
  have "(x OR 3) AND - 4096 = x AND - 4096" for x :: u32 by (rule bit_word_eqI) (auto simp: entry_bits)
  then show "pde_ok s \<Longrightarrow> pde_ok (snd (arch_paging_map v p s))" by (simp add: pde_ok_def page_dir_map bit_or_iff)
qed

lemma pde_ok_unmap: "pde_ok s \<Longrightarrow> pde_ok (snd (arch_paging_unmap v s))"
  by (simp add: pde_ok_def page_unmap)

interpretation tables: address_space
  "\<lambda>v p s. snd (arch_paging_map v p s)" "\<lambda>v s. snd (arch_paging_unmap v s)"
  "\<lambda>s v. snd (arch_paging_virt_to_phys v s)" pte_present pde_ok
proof (unfold_locales, goal_cases)
  case (1 v p s w)
  then show ?case
    by (simp add: arch_paging_virt_to_phys_def page_tables_map entry_frame page_index_eq_iff)
next
  case (2 v s w)
  then show ?case
    by (simp add: arch_paging_virt_to_phys_def page_unmap page_index_eq_iff)
next
  case (3 s v p w)
  then show ?case
    by (simp add: pte_present_iff pde_ok_map page_tables_map page_index_eq_iff bit_or_iff)
next
  case (4 s v w)
  then show ?case
    by (auto simp: pte_present_iff pde_ok_unmap page_unmap page_index_eq_iff)
qed (simp_all add: pde_ok_map pde_ok_unmap)

section \<open>The boot tables\<close>

lemma bit_page_base: "bit (of_nat k * 4096 :: u32) n \<longleftrightarrow> 12 \<le> n \<and> n < 32 \<and> bit k (n - 12)"
proof -
  have "(of_nat k * 4096 :: u32) = push_bit 12 (of_nat k)"
    by (simp add: push_bit_eq_mult)
  then show ?thesis
    by (auto simp: bit_push_bit_iff bit_of_nat_iff)
qed

lemma push_drop_page_base: "push_bit 12 (drop_bit 12 (of_nat k * 4096 :: u32)) = of_nat k * 4096"
  by (rule bit_word_eqI) (auto simp: bit_push_bit_iff bit_drop_bit_eq bit_page_base)

lemma bit_two [simp]: "bit (2 :: u32) n \<longleftrightarrow> n = 1"
  using bit_exp_iff [where ?'a = u32, of 1 n] by auto

lemma bit_one_u32 [simp]: "bit (1 :: u32) n \<longleftrightarrow> n = 0"
  by (simp add: bit_1_iff)

lemma frame_of_boot_entry:
  "(2 OR of_nat k * 4096 OR 1) AND - 4096 = (of_nat k * 4096 :: u32)"
  "((2 OR y) AND 0xFFF OR 1 OR of_nat k * 4096) AND - 4096 = (of_nat k * 4096 :: u32)"
  by (rule bit_word_eqI; auto simp: entry_bits bit_page_base)+

lemma row_column: "of_nat (k div 1024) * 4194304 + of_nat (k mod 1024) * 4096 = (of_nat k * 4096 :: u32)"
proof -
  have "k = k div 1024 * 1024 + k mod 1024" by simp
  then have "(of_nat k :: u32) = of_nat (k div 1024) * 1024 + of_nat (k mod 1024)"
    by (metis of_nat_add of_nat_mult of_nat_numeral)
  then show ?thesis by (simp add: algebra_simps)
qed

text \<open>One of the four windows of the higher half.\<close>

lemma window_base:
  assumes "row * 1024 \<le> k" "768 \<le> row"
  shows "of_nat ((row - 768) * 1024) * 4096 + of_nat (k - row * 1024) * 4096 = (of_nat (k - 786432) * 4096 :: u32)"
proof -
  have "k - 786432 = (row - 768) * 1024 + (k - row * 1024)"
    using assms by (simp add: diff_mult_distrib)
  then show ?thesis by (simp only: of_nat_add distrib_right)
qed

lemma boot_entry:
  assumes "k < 1048576"
  shows "page_tables (arch_paging_init_lower s) k =
    (if k < 10240 then 2 OR of_nat k * 4096 OR 1
     else if 786432 \<le> k \<and> k < 790528
       then (2 OR of_nat k * 4096) AND 0xFFF OR 1 OR of_nat (k - 786432) * 4096
     else 2 OR of_nat k * 4096)"
proof -
  note unf = arch_paging_init_lower_def Let_def for_update_apply for_table_apply
        push_drop_page_base row_column or.assoc
  consider "k < 10240" | "10240 \<le> k" "k < 786432" | "786432 \<le> k" "k < 787456" | "787456 \<le> k" "k < 788480"
    | "788480 \<le> k" "k < 789504" | "789504 \<le> k" "k < 790528" | "790528 \<le> k" by linarith
  then show ?thesis
  proof cases
    case 4
    with window_base [of 769 k] show ?thesis using assms by (simp add: unf)
  next
    case 5
    with window_base [of 770 k] show ?thesis using assms by (simp add: unf)
  next
    case 6
    with window_base [of 771 k] show ?thesis using assms by (simp add: unf)
  qed (use assms in \<open>simp_all add: unf\<close>)
qed

lemma table_address: "push_bit 12 (drop_bit 12 (page_tables_start + of_nat i * 0x1000)) = page_tables_start + of_nat i * 0x1000"
proof -
  have "page_tables_start + of_nat i * 0x1000 = (of_nat (1281 + i) * 4096 :: u32)"
    by (simp add: page_tables_start_def page_directory_start_def algebra_simps)
  then show ?thesis by (simp only: push_drop_page_base)
qed

lemma boot_dir:
  assumes "i < 1024"
  shows "page_dir (arch_paging_init_lower s) i = 3 OR (page_tables_start + of_nat i * 0x1000)"
proof -
  have "(3 OR x) OR 1 = 3 OR x" for x :: u32
    by (rule bit_word_eqI) (auto simp: entry_bits)
  with assms show ?thesis
    by (auto simp: arch_paging_init_lower_def Let_def for_update_apply table_address)
qed

lemma boot_pde_ok: "pde_ok (arch_paging_init_lower s)"
proof -
  have "(3 OR (page_tables_start + of_nat i * 0x1000)) AND - 4096 = page_tables_start + of_nat i * 0x1000" for i
  proof -
    have "page_tables_start + of_nat i * 0x1000 = (of_nat (1281 + i) * 4096 :: u32)"
      by (simp add: page_tables_start_def page_directory_start_def algebra_simps)
    then show ?thesis by (simp only:) (rule bit_word_eqI, auto simp: entry_bits bit_page_base simp del: of_nat_add)
  qed
  then show ?thesis by (simp add: pde_ok_def boot_dir bit_or_iff)
qed

lemma page_join: "(of_nat (unat v div 4096) * 4096) OR (v AND 0xFFF) = (v :: u32)"
proof (rule bit_word_eqI)
  fix n assume "n < LENGTH(32)"
  have "unat v div 4096 = drop_bit 12 (unat v)" by (simp add: drop_bit_eq_div)
  then show "bit (of_nat (unat v div 4096) * 4096 OR v AND 0xFFF) n = bit v n"
    using \<open>n < LENGTH(32)\<close>
    by (auto simp: entry_bits bit_page_base bit_drop_bit_eq bit_unsigned_iff)
qed

lemma unat_low_mask: "unat (v AND 0xFFF :: u32) = unat v mod 4096"
  unfolding low_mask_eq by (simp add: unsigned_take_bit_eq take_bit_eq_mod unat_mod flip: take_bit_eq_mask)

lemma window_offset:
  assumes "0xC0000000 \<le> unat (v :: u32)"
  shows "of_nat (unat v div 4096 - 786432) * 4096 OR (v AND 0xFFF) = v - 0xC0000000"
proof -
  let ?x = "v - 0xC0000000"
  have x: "unat ?x = unat v - 0xC0000000"
    using assms by (simp add: unat_sub word_le_nat_alt)
  have "unat ?x div 4096 = unat v div 4096 - 786432"
  proof -
    have "unat v = unat ?x + 786432 * 4096" using assms x by simp
    then show ?thesis by simp
  qed
  moreover have "v AND 0xFFF = ?x AND 0xFFF"
  proof -
    have "unat v = unat ?x + 786432 * 4096" using assms x by simp
    then have "unat v mod 4096 = unat ?x mod 4096" by presburger
    then have "unat (v AND 0xFFF) = unat (?x AND 0xFFF)" by (simp only: unat_low_mask)
    then show ?thesis by (simp only: word_unat_eq_iff)
  qed
  ultimately show ?thesis using page_join [of ?x] by simp
qed

lemma map_walk:
  assumes "pde_ok s"
  shows "mmu_walk (snd (arch_paging_map v p s)) w =
     (if page_of w = page_of v then Some ((p AND NOT 0xFFF) OR (w AND 0xFFF)) else mmu_walk s w)"
proof -
  have "unat (w div 4096) = unat (v div 4096) \<longleftrightarrow> page_of w = page_of v" by (rule page_index_eq_iff)
  then show ?thesis using assms by (simp add: walk_tables pde_ok_map page_tables_map entry_frame Let_def entry_bits)
qed

lemma unmap_walk:
  assumes "pde_ok s"
  shows "mmu_walk (snd (arch_paging_unmap v s)) w = (if page_of w = page_of v then None else mmu_walk s w)"
  using assms by (simp add: walk_tables pde_ok_unmap page_unmap Let_def page_index_eq_iff)

section \<open>Properties\<close>

text \<open>
  C6: the boot tables map the low 40 MB to themselves, the 16 MB window at
  0xC0000000 to the first 16 MB of physical memory, and nothing else.
\<close>

theorem paging_init_walk:
  "mmu_walk (arch_paging_init_lower s) v =
     (if unat v < 0x2800000 then Some v
      else if 0xC0000000 \<le> unat v \<and> unat v < 0xC1000000 then Some (v - 0xC0000000)
      else None)"
proof -
  let ?k = "unat v div 4096"
  have k: "?k < 1048576" using page_of_bound [of v] by (simp add: unat_page_of)
  have idx: "unat (v div 4096) = ?k" by (simp add: unat_div)
  have low: "unat v < 0x2800000 \<longleftrightarrow> ?k < 10240" by auto
  have high: "0xC0000000 \<le> unat v \<and> unat v < 0xC1000000 \<longleftrightarrow> 786432 \<le> ?k \<and> ?k < 790528" by auto
  define m where "m = ?k - 786432"
  note entry = boot_entry [OF k, of s, folded m_def]
  have walk: "mmu_walk (arch_paging_init_lower s) v =
      (let pte = page_tables (arch_paging_init_lower s) ?k
       in if bit pte 0 then Some ((pte AND - 4096) OR (v AND 0xFFF)) else None)"
    by (simp add: walk_tables [OF boot_pde_ok] Let_def idx)
  show ?thesis
    unfolding walk Let_def low high entry
    using page_join [of v] window_offset [of v, folded m_def] high
    by (simp add: frame_of_boot_entry entry_bits bit_page_base) blast
qed

text \<open>
  C7: mapping a page makes the processor translate every address of that page into the frame
  given, keeping the offset, and leaves the translation of every other page as it was.
\<close>

theorem paging_map_walk:
  assumes "pde_ok s"
  shows "mmu_walk (snd (arch_paging_map v p s)) w =
     (if page_of w = page_of v then Some ((p AND NOT 0xFFF) OR (w AND 0xFFF)) else mmu_walk s w)"
  using assms by (rule map_walk)

theorem paging_map_walk_witness:
  "mmu_walk (snd (arch_paging_map 0xD0010000 0x4005123
      (arch_paging_init_lower \<lparr>page_dir = (\<lambda>_. 0), page_tables = (\<lambda>_. 0), other_memory = (\<lambda>_. 0), invlpg_log = []\<rparr>)))
     0xD0010ABC = Some 0x4005ABC"
  using paging_map_walk [OF boot_pde_ok, where v = "0xD0010000" and p = "0x4005123" and w = "0xD0010ABC"]
  by (simp add: page_of_def)

text \<open>
  Unmapping a page removes its translation, keeps every other one, and invalidates exactly
  the unmapped address in the translation cache.
\<close>

theorem paging_unmap_walk:
  assumes "pde_ok s"
  shows "mmu_walk (snd (arch_paging_unmap v s)) w = (if page_of w = page_of v then None else mmu_walk s w) \<and>
   invlpg_log (snd (arch_paging_unmap v s)) = invlpg_log s @ [v]"
  by (simp add: unmap_walk [OF assms]) (simp add: arch_paging_unmap_def arch_paging_invalidate_single_page_def)

end
