(* ===== verification/Mm.thy ===== *)
theory Mm
  imports Bitmap Paging
begin

text \<open>
  The page-level memory manager, \<^verbatim>\<open>src/kernel/mm/mm.c\<close> with the macros of
  \<^verbatim>\<open>src/kernel/include/mm/mm.h\<close>: a bitmap of physical frames, a bitmap of virtual pages, the
  count of free frames taken at boot, and the calls into the paging layer. Bit \<open>p\<close> of a bitmap
  is set when page \<open>p\<close> is in use. The diagnostic messages are not part of the state.
\<close>

section \<open>State\<close>

record mm_state =
  mm_page_alloc_bitmap :: "nat \<Rightarrow> u8"
  mm_vm_alloc_bitmap :: "nat \<Rightarrow> u8"
  mm_available_block_count :: u32
  mm_paging :: paging_state

text \<open>Both bitmaps have 131072 bytes; a store outside them leaves defined behaviour.\<close>

abbreviation bitmap_bytes :: nat where
  "bitmap_bytes \<equiv> 131072"

definition bitmap_store :: "nat \<Rightarrow> u8 \<Rightarrow> (nat \<Rightarrow> u8) \<Rightarrow> (nat \<Rightarrow> u8) option" where
  "bitmap_store i v bm = (if i < bitmap_bytes then Some (bm(i := v)) else None)"

definition ALLOC_PAGE :: "u32 \<Rightarrow> mm_state \<Rightarrow> mm_state" where
  "ALLOC_PAGE x s = s\<lparr>mm_page_alloc_bitmap := bit_array_set (mm_page_alloc_bitmap s) x\<rparr>"

definition UNALLOC_PAGE :: "u32 \<Rightarrow> mm_state \<Rightarrow> mm_state" where
  "UNALLOC_PAGE x s = s\<lparr>mm_page_alloc_bitmap := bit_array_clear (mm_page_alloc_bitmap s) x\<rparr>"

definition ISALLOCATED_PAGE :: "mm_state \<Rightarrow> u32 \<Rightarrow> bool" where
  "ISALLOCATED_PAGE s x = bit_array_test (mm_page_alloc_bitmap s) x"

definition VM_ALLOC_PAGE :: "u32 \<Rightarrow> mm_state \<Rightarrow> mm_state" where
  "VM_ALLOC_PAGE x s = s\<lparr>mm_vm_alloc_bitmap := bit_array_set (mm_vm_alloc_bitmap s) x\<rparr>"

definition VM_UNALLOC_PAGE :: "u32 \<Rightarrow> mm_state \<Rightarrow> mm_state" where
  "VM_UNALLOC_PAGE x s = s\<lparr>mm_vm_alloc_bitmap := bit_array_clear (mm_vm_alloc_bitmap s) x\<rparr>"

definition VM_ISALLOCATED_PAGE :: "mm_state \<Rightarrow> u32 \<Rightarrow> bool" where
  "VM_ISALLOCATED_PAGE s x = bit_array_test (mm_vm_alloc_bitmap s) x"

section \<open>The memory map handed over by the boot loader\<close>

record multiboot_mmap_entry =
  mmap_size :: u32
  mmap_base :: u64
  mmap_len :: u64
  mmap_type :: u32

text \<open>The fields of \<^verbatim>\<open>struct multiboot_info\<close> that the kernel reads.\<close>

record multiboot_info =
  flags :: u32
  mmap_length :: u32
  mmap_addr :: u32

definition MULTIBOOT_MEMORY_AVAILABLE :: u32 where "MULTIBOOT_MEMORY_AVAILABLE = 1"
definition MULTIBOOT_MEMORY_ACPI_RECLAIMABLE :: u32 where "MULTIBOOT_MEMORY_ACPI_RECLAIMABLE = 3"
definition MULTIBOOT_MEMORY_NVS :: u32 where "MULTIBOOT_MEMORY_NVS = 4"
definition MULTIBOOT_MEMORY_BADRAM :: u32 where "MULTIBOOT_MEMORY_BADRAM = 5"

section \<open>mm\_init\<close>

text \<open>
  \<^verbatim>\<open>for (k = first; k <= last; k += 8) bitmap[k / 8] = v\<close>, with the value of \<^verbatim>\<open>k\<close> after the
  loop. The index grows until it leaves the range or the array.
\<close>

function mm_fill_bytes :: "u32 \<Rightarrow> u32 \<Rightarrow> u8 \<Rightarrow> (nat \<Rightarrow> u8) \<Rightarrow> (u32 \<times> (nat \<Rightarrow> u8)) option" where
  "mm_fill_bytes k last_k v bm =
     (if k \<le> last_k then
        (if unat (k div 8) < bitmap_bytes
         then mm_fill_bytes (k + 8) last_k v (bm(unat (k div 8) := v)) else None)
      else Some (k, bm))"
  by pat_completeness auto
termination
proof (relation "measure (\<lambda>(k, last_k, v, bm). 2097152 - unat k)", simp, clarsimp)
  fix k :: u32
  assume "unat (k div 8) < bitmap_bytes"
  then have "unat k < 1048576" by (simp add: unat_div)
  then show "2097152 - unat (k + 8) < 2097152 - unat k"
    by (simp add: unat_word_ariths)
qed

declare mm_fill_bytes.simps [simp del]

definition mm_init_available :: "multiboot_mmap_entry \<Rightarrow> (nat \<Rightarrow> u8) \<Rightarrow> (nat \<Rightarrow> u8) option" where
  "mm_init_available entry bm =
     (let start_block = ucast (mmap_base entry div 4096) :: u32;
          block_count = ucast (mmap_len entry div 4096) :: u32
      in do {
        bm1 \<leftarrow> bitmap_store (unat (start_block div 8))
                 (ucast (NOT (push_bit (unat (start_block mod 8)) (0xFF :: u32)))) bm;
        (k, bm2) \<leftarrow> mm_fill_bytes ((start_block + 8) AND NOT 7) (start_block + block_count) 0 bm1;
        bitmap_store (unat ((k - 8) div 8))
          (ucast (drop_bit (8 - unat ((start_block + block_count) mod 8)) (0xFF :: u32))) bm2
      })"

definition mm_init_reserved :: "multiboot_mmap_entry \<Rightarrow> (nat \<Rightarrow> u8) \<Rightarrow> (nat \<Rightarrow> u8) option" where
  "mm_init_reserved entry bm =
     (let start_block = ucast (mmap_base entry div 4096) :: u32;
          end_block = ucast ((mmap_base entry + mmap_len entry) div 4096) :: u32
      in if mmap_len entry > 0 then do {
        bm1 \<leftarrow> bitmap_store (unat (start_block div 8))
                 (ucast (drop_bit (unat (start_block mod 8)) (0xFF :: u32))) bm;
        (k, bm2) \<leftarrow> mm_fill_bytes ((start_block + 8) AND NOT 7) end_block 1 bm1;
        bitmap_store (unat ((k - 8) div 8))
          (ucast (drop_bit (unat (end_block mod 8)) (0xFF :: u32))) bm2
      } else Some bm)"

definition mm_init_entry :: "multiboot_mmap_entry \<Rightarrow> (nat \<Rightarrow> u8) \<Rightarrow> (nat \<Rightarrow> u8) option" where
  "mm_init_entry entry bm =
     (if mmap_type entry = MULTIBOOT_MEMORY_AVAILABLE then mm_init_available entry bm
      else if mmap_type entry = MULTIBOOT_MEMORY_ACPI_RECLAIMABLE then Some bm
      else if mmap_type entry = MULTIBOOT_MEMORY_NVS then Some bm
      else if mmap_type entry = MULTIBOOT_MEMORY_BADRAM then Some bm
      else mm_init_reserved entry bm)"

text \<open>
  The loop over the map: \<^verbatim>\<open>i\<close> advances by \<^verbatim>\<open>sizeof(multiboot_memory_map_t)\<close>, which is 24, and
  the entry pointer by the size that the entry itself gives plus 4. \<open>entry_at\<close> is the view of
  memory at a pointer to an entry.
\<close>

partial_function (option) mm_init_entries ::
  "(u32 \<Rightarrow> multiboot_mmap_entry) \<Rightarrow> u32 \<Rightarrow> u32 \<Rightarrow> u32 \<Rightarrow> (nat \<Rightarrow> u8) \<Rightarrow> (nat \<Rightarrow> u8) option" where
  "mm_init_entries entry_at i map_size entry bm =
     (if i < map_size
      then Option.bind (mm_init_entry (entry_at entry) bm)
             (mm_init_entries entry_at (i + 24) map_size (entry + mmap_size (entry_at entry) + 4))
      else Some bm)"

text \<open>Free pages in one byte of the bitmap, then in all of it.\<close>

definition mm_free_in_byte :: "u8 \<Rightarrow> u32" where
  "mm_free_in_byte b =
     (if b = 0 then 8 else if b = 0xFF then 0
      else fold (\<lambda>j n. if b AND push_bit j 1 = 0 then n + 1 else n) [0..<8] 0)"

definition mm_count_available :: "(nat \<Rightarrow> u8) \<Rightarrow> u32" where
  "mm_count_available bm = fold (\<lambda>i n. n + mm_free_in_byte (bm i)) [0..<bitmap_bytes] 0"

definition mm_init ::
  "multiboot_info \<Rightarrow> (u32 \<Rightarrow> multiboot_mmap_entry) \<Rightarrow> mm_state \<Rightarrow> (SYS_RET \<times> mm_state) option" where
  "mm_init info entry_at s =
     (if drop_bit 6 (flags info) AND 1 = 0 then Some (SYS_RET_INIT_ERROR, s)
      else do {
        let bm0 = for_update 0 0 bitmap_bytes (\<lambda>_ _. 0xFF) (mm_page_alloc_bitmap s);
        bm1 \<leftarrow> mm_init_entries entry_at 0 (mmap_length info) (mmap_addr info) bm0;
        let bm2 = for_update 0 0 (4 * 4096 div 8) (\<lambda>_ _. 0xFF) bm1;
        let vm = for_update 0 98304 102400 (\<lambda>_ _. 0xFF) (mm_vm_alloc_bitmap s);
        Some (SYS_RET_NO_ERROR,
              s\<lparr>mm_page_alloc_bitmap := bm2, mm_vm_alloc_bitmap := vm,
                mm_available_block_count := mm_count_available bm2\<rparr>)
      })"

section \<open>Finding frames and pages\<close>

text \<open>The search for a byte that is not full runs off the bitmap when every frame is in use.\<close>

function mm_skip_full :: "(nat \<Rightarrow> u8) \<Rightarrow> nat \<Rightarrow> nat option" where
  "mm_skip_full bm block_nr =
     (if block_nr < bitmap_bytes
      then (if bm block_nr = 0xFF then mm_skip_full bm (block_nr + 1) else Some block_nr)
      else None)"
  by pat_completeness auto
termination
  by (relation "measure (\<lambda>(bm, n). bitmap_bytes - n)") auto

declare mm_skip_full.simps [simp del]

text \<open>\<^verbatim>\<open>for (i = 0; i < 8; i++) if (!(b & (1 << i))) break;\<close>, 8 when no bit is clear.\<close>

definition mm_first_clear :: "u8 \<Rightarrow> nat" where
  "mm_first_clear b = (case find (\<lambda>i. b AND push_bit i 1 = 0) [0..<8] of Some i \<Rightarrow> i | None \<Rightarrow> 8)"

text \<open>The second component is the address stored through \<^verbatim>\<open>ret_addr\<close>, if one is stored.\<close>

definition mm_find_empty_block_physical :: "mm_state \<Rightarrow> (SYS_RET \<times> u32 option) option" where
  "mm_find_empty_block_physical s = do {
     block_nr \<leftarrow> mm_skip_full (mm_page_alloc_bitmap s) 0;
     let i = mm_first_clear (mm_page_alloc_bitmap s block_nr);
     if i = 8 then Some (SYS_RET_NOT_FOUND, None)
     else Some (SYS_RET_NO_ERROR, Some ((of_nat block_nr * 8 + of_nat i) * 4096))
   }"

text \<open>The inner loop of \<^verbatim>\<open>mm_is_memory_available\<close> over the bits of one byte: either the block found
  or the run of free blocks so far and where it started.\<close>

function mm_scan_byte :: "u8 \<Rightarrow> u16 \<Rightarrow> u32 \<Rightarrow> nat \<Rightarrow> u32 \<Rightarrow> u32 \<Rightarrow> u32 + u32 \<times> u32" where
  "mm_scan_byte piece count start i free_vm_blocks start_vm_block =
     (if i < 8 then
        (let (free', first') =
               (if piece AND 1 \<noteq> 0 then (0, start_vm_block)
                else (free_vm_blocks + 1,
                      if free_vm_blocks = 0 then start + of_nat i else start_vm_block))
         in if free' = ucast count then Inl first'
            else mm_scan_byte piece count start (i + 1) free' first')
      else Inr (free_vm_blocks, start_vm_block))"
  by pat_completeness auto
termination
  by (relation "measure (\<lambda>(piece, count, start, i, f, b). 8 - i)") auto

function mm_scan_pages :: "(nat \<Rightarrow> u8) \<Rightarrow> u16 \<Rightarrow> nat \<Rightarrow> u32 \<Rightarrow> u32 \<Rightarrow> u32 option" where
  "mm_scan_pages bm count start free_vm_blocks start_vm_block =
     (if start < bitmap_bytes then
        (if bm start = 0xFF then mm_scan_pages bm count (start + 1) free_vm_blocks start_vm_block
         else (case mm_scan_byte (bm (start div 8)) count (of_nat start) 0 free_vm_blocks start_vm_block of
                 Inl block \<Rightarrow> Some block
               | Inr (free', first') \<Rightarrow> mm_scan_pages bm count (start + 1) free' first'))
      else None)"
  by pat_completeness auto
termination
  by (relation "measure (\<lambda>(bm, count, start, f, b). bitmap_bytes - start)") auto

declare mm_scan_byte.simps [simp del] mm_scan_pages.simps [simp del]

text \<open>\<open>Some b\<close>: \<^verbatim>\<open>TRUE\<close> with \<^verbatim>\<open>*vm_block = b\<close>; \<open>None\<close>: \<^verbatim>\<open>FALSE\<close>.\<close>

definition mm_is_memory_available :: "mm_state \<Rightarrow> u32 \<Rightarrow> u32 \<Rightarrow> u32 option" where
  "mm_is_memory_available s bytes vm_block =
     (let count0 = ucast (bytes div 4096) :: u16;
          count = (if count0 = 0 then 1 else count0)
      in if mm_available_block_count s < ucast count then None
         else mm_scan_pages (mm_vm_alloc_bitmap s) count (unat (vm_block div 8)) 0 vm_block)"

section \<open>Allocation and release of pages\<close>

definition mm_map_blocks :: "u32 \<Rightarrow> u32 \<Rightarrow> u32 \<Rightarrow> paging_state \<Rightarrow> SYS_RET \<times> paging_state" where
  "mm_map_blocks vm_block j size_in_blocks ps =
     fold (\<lambda>k (_, ps). arch_paging_map (vm_block * 4096 + of_nat k * 4096) (j * 4096 + of_nat k * 4096) ps)
       [0..<unat size_in_blocks] (SYS_RET_NO_ERROR, ps)"

definition mm_alloc :: "u32 \<Rightarrow> u32 \<Rightarrow> u32 \<Rightarrow> mm_state \<Rightarrow> (SYS_RET \<times> u32 option \<times> mm_state) option" where
  "mm_alloc vaddr bytes alloc_flags s =
     (let size_in_blocks = (if bytes div 4096 = 0 then 1 else bytes div 4096);
          vm_block = vaddr div 4096
      in if \<not> VM_ISALLOCATED_PAGE s vm_block then do {
           (_, found) \<leftarrow> mm_find_empty_block_physical s;
           empty_block \<leftarrow> found;
           let j = empty_block div 4096;
           let (ret, ps) = mm_map_blocks vm_block j size_in_blocks (mm_paging s);
           if ret \<noteq> SYS_RET_NO_ERROR then Some (ret, None, s\<lparr>mm_paging := ps\<rparr>)
           else Some (SYS_RET_NO_ERROR, Some (vm_block * 4096),
                      VM_ALLOC_PAGE vm_block (ALLOC_PAGE j (s\<lparr>mm_paging := ps\<rparr>)))
         }
         else Some (SYS_RET_MEM_ALLOC_ERROR, None, s))"

definition mm_free :: "u32 \<Rightarrow> mm_state \<Rightarrow> SYS_RET \<times> mm_state" where
  "mm_free addr s =
     (let vm_block = addr div 4096;
          phys_addr = snd (arch_paging_virt_to_phys (vm_block * 4096) (mm_paging s));
          phys_block = phys_addr div 4096;
          s1 = s\<lparr>mm_paging := snd (arch_paging_unmap addr (mm_paging s))\<rparr>
      in (SYS_RET_NO_ERROR, VM_UNALLOC_PAGE vm_block (UNALLOC_PAGE phys_block s1)))"

section \<open>The bitmaps\<close>

interpretation frames: bitmap_ops ISALLOCATED_PAGE ALLOC_PAGE UNALLOC_PAGE
  by unfold_locales
    (simp_all add: ISALLOCATED_PAGE_def ALLOC_PAGE_def UNALLOC_PAGE_def
      bit_array_test_set bit_array_test_clear)

interpretation pages: bitmap_ops VM_ISALLOCATED_PAGE VM_ALLOC_PAGE VM_UNALLOC_PAGE
  by unfold_locales
    (simp_all add: VM_ISALLOCATED_PAGE_def VM_ALLOC_PAGE_def VM_UNALLOC_PAGE_def
      bit_array_test_set bit_array_test_clear)

text \<open>The two bitmaps and the page tables are independent of each other.\<close>

lemma mm_independent [simp]:
  "ISALLOCATED_PAGE (VM_ALLOC_PAGE x s) = ISALLOCATED_PAGE s"
  "ISALLOCATED_PAGE (VM_UNALLOC_PAGE x s) = ISALLOCATED_PAGE s"
  "VM_ISALLOCATED_PAGE (ALLOC_PAGE x s) = VM_ISALLOCATED_PAGE s"
  "VM_ISALLOCATED_PAGE (UNALLOC_PAGE x s) = VM_ISALLOCATED_PAGE s"
  "ISALLOCATED_PAGE (s\<lparr>mm_paging := ps\<rparr>) = ISALLOCATED_PAGE s"
  "VM_ISALLOCATED_PAGE (s\<lparr>mm_paging := ps\<rparr>) = VM_ISALLOCATED_PAGE s"
  by (simp_all add: fun_eq_iff ISALLOCATED_PAGE_def VM_ISALLOCATED_PAGE_def ALLOC_PAGE_def
      UNALLOC_PAGE_def VM_ALLOC_PAGE_def VM_UNALLOC_PAGE_def)

lemma mm_paging_bitmap [simp]:
  "mm_paging (ALLOC_PAGE x s) = mm_paging s" "mm_paging (UNALLOC_PAGE x s) = mm_paging s"
  "mm_paging (VM_ALLOC_PAGE x s) = mm_paging s" "mm_paging (VM_UNALLOC_PAGE x s) = mm_paging s"
  by (simp_all add: ALLOC_PAGE_def UNALLOC_PAGE_def VM_ALLOC_PAGE_def VM_UNALLOC_PAGE_def)

lemma bit_array_test_split:
  assumes "unat x = i * 8 + j" "j < 8"
  shows "bit_array_test b x \<longleftrightarrow> bit (b i) j"
  using assms by (simp add: bit_array_test_iff unat_div unat_mod)

section \<open>The search for a free frame\<close>

lemma mm_skip_full_Some:
  "mm_skip_full bm n = Some k \<Longrightarrow> n \<le> k \<and> k < bitmap_bytes \<and> bm k \<noteq> 0xFF \<and> (\<forall>i. n \<le> i \<and> i < k \<longrightarrow> bm i = 0xFF)"
proof (induction bm n rule: mm_skip_full.induct)
  case (1 bm n)
  show ?case
  proof (cases "n < bitmap_bytes \<and> bm n = 0xFF")
    case True
    with "1.prems" have "mm_skip_full bm (n + 1) = Some k" by (simp add: mm_skip_full.simps [of bm n])
    with True "1.IH" have "n + 1 \<le> k \<and> k < bitmap_bytes \<and> bm k \<noteq> 0xFF \<and> (\<forall>i. n + 1 \<le> i \<and> i < k \<longrightarrow> bm i = 0xFF)"
      by blast
    with True show ?thesis by (metis Suc_eq_plus1 Suc_leI le_eq_less_or_eq le_add1 order_trans)
  next
    case False
    with "1.prems" show ?thesis by (auto simp: mm_skip_full.simps [of bm n] split: if_splits)
  qed
qed

lemma mm_skip_full_None:
  "mm_skip_full bm n = None \<longleftrightarrow> (\<forall>i. n \<le> i \<and> i < bitmap_bytes \<longrightarrow> bm i = 0xFF)"
proof (induction bm n rule: mm_skip_full.induct)
  case (1 bm n)
  show ?case
  proof (cases "n < bitmap_bytes \<and> bm n = 0xFF")
    case True
    with "1.IH" have "mm_skip_full bm n = None \<longleftrightarrow> (\<forall>i. n + 1 \<le> i \<and> i < bitmap_bytes \<longrightarrow> bm i = 0xFF)"
      by (simp add: mm_skip_full.simps [of bm n])
    also have "\<dots> \<longleftrightarrow> (\<forall>i. n \<le> i \<and> i < bitmap_bytes \<longrightarrow> bm i = 0xFF)"
      using True by (metis Suc_eq_plus1 Suc_leI le_eq_less_or_eq le_add1 order_trans)
    finally show ?thesis .
  next
    case False
    then show ?thesis by (auto simp: mm_skip_full.simps [of bm n])
  qed
qed

lemma mm_first_clear:
  assumes "b \<noteq> 0xFF"
  shows "mm_first_clear b < 8 \<and> \<not> bit b (mm_first_clear b) \<and> (\<forall>j < mm_first_clear b. bit b j)"
proof -
  from assms obtain k where "k < 8" "\<not> bit b k" by (auto simp: u8_all_ones_iff)
  then have "find (\<lambda>i. b AND push_bit i 1 = 0) [0..<8] \<noteq> None"
    by (auto simp: find_None_iff)
  then obtain i where i: "find (\<lambda>i. b AND push_bit i 1 = 0) [0..<8] = Some i" by blast
  then have "i < 8 \<and> \<not> bit b i \<and> (\<forall>j<i. bit b j)"
    by (auto simp: find_Some_iff)
  with i show ?thesis by (simp add: mm_first_clear_def)
qed

definition lowest_free :: "mm_state \<Rightarrow> u32 \<Rightarrow> bool" where
  "lowest_free s f \<longleftrightarrow>
     unat f < 1048576 \<and> \<not> ISALLOCATED_PAGE s f \<and> (\<forall>g. unat g < unat f \<longrightarrow> ISALLOCATED_PAGE s g)"

lemma lowest_free_unique: "lowest_free s f \<Longrightarrow> lowest_free s g \<Longrightarrow> f = g"
  unfolding lowest_free_def by (metis linorder_neqE_nat word_unat_eq_iff)

lemma lowest_free_byte:
  assumes "mm_skip_full (mm_page_alloc_bitmap s) 0 = Some n"
  shows "lowest_free s (of_nat n * 8 + of_nat (mm_first_clear (mm_page_alloc_bitmap s n)))"
proof -
  let ?bm = "mm_page_alloc_bitmap s" and ?i = "mm_first_clear (mm_page_alloc_bitmap s n)"
  let ?f = "of_nat n * 8 + of_nat ?i :: u32"
  have n: "n < bitmap_bytes" "?bm n \<noteq> 0xFF" "\<And>i. i < n \<Longrightarrow> ?bm i = 0xFF"
    using mm_skip_full_Some [OF assms] by auto
  note i = mm_first_clear [OF n(2)]
  have f: "unat ?f = n * 8 + ?i"
    using n(1) i by (simp add: unat_word_ariths unat_of_nat)
  have "ISALLOCATED_PAGE s g" if "unat g < unat ?f" for g
  proof (cases "unat g div 8 < n")
    case True
    have "bit_array_test ?bm g \<longleftrightarrow> bit (?bm (unat g div 8)) (unat g mod 8)"
      by (rule bit_array_test_split) auto
    moreover have "?bm (unat g div 8) = 0xFF" using True n(3) by blast
    ultimately show ?thesis by (simp add: ISALLOCATED_PAGE_def u8_all_ones_iff)
  next
    case False
    with that f have "unat g = n * 8 + (unat g - n * 8)" "unat g - n * 8 < ?i" by auto
    with i show ?thesis
      by (metis ISALLOCATED_PAGE_def bit_array_test_split order_less_trans)
  qed
  moreover have "\<not> ISALLOCATED_PAGE s ?f"
    using bit_array_test_split [OF f, of ?bm] i by (simp add: ISALLOCATED_PAGE_def)
  ultimately show ?thesis using f n(1) i by (simp add: lowest_free_def)
qed

lemma mm_find_Some:
  assumes "lowest_free s f"
  shows "mm_find_empty_block_physical s = Some (SYS_RET_NO_ERROR, Some (f * 4096))"
proof -
  have "mm_skip_full (mm_page_alloc_bitmap s) 0 \<noteq> None"
  proof
    assume "mm_skip_full (mm_page_alloc_bitmap s) 0 = None"
    then have all: "\<And>i. i < bitmap_bytes \<Longrightarrow> mm_page_alloc_bitmap s i = 0xFF"
      by (simp add: mm_skip_full_None)
    have "bit_array_test (mm_page_alloc_bitmap s) f \<longleftrightarrow>
        bit (mm_page_alloc_bitmap s (unat f div 8)) (unat f mod 8)"
      by (rule bit_array_test_split) auto
    with all assms show False by (auto simp: lowest_free_def ISALLOCATED_PAGE_def u8_all_ones_iff)
  qed
  then obtain n where n: "mm_skip_full (mm_page_alloc_bitmap s) 0 = Some n" by blast
  from lowest_free_unique [OF assms lowest_free_byte [OF n]] n
  show ?thesis
    using mm_first_clear [of "mm_page_alloc_bitmap s n"] mm_skip_full_Some [OF n]
    by (simp add: mm_find_empty_block_physical_def)
qed

lemma mm_find_None:
  assumes "\<And>f. unat f < 1048576 \<Longrightarrow> ISALLOCATED_PAGE s f"
  shows "mm_find_empty_block_physical s = None"
proof (cases "mm_skip_full (mm_page_alloc_bitmap s) 0")
  case (Some n)
  from lowest_free_byte [OF this] assms show ?thesis by (auto simp: lowest_free_def)
qed (simp add: mm_find_empty_block_physical_def)

lemma mm_find_cases:
  obtains f where "lowest_free s f" "mm_find_empty_block_physical s = Some (SYS_RET_NO_ERROR, Some (f * 4096))"
  | "mm_find_empty_block_physical s = None" "\<And>f. unat f < 1048576 \<Longrightarrow> ISALLOCATED_PAGE s f"
proof (cases "mm_skip_full (mm_page_alloc_bitmap s) 0")
  case None
  then have all: "\<And>i. i < bitmap_bytes \<Longrightarrow> mm_page_alloc_bitmap s i = 0xFF"
    by (simp add: mm_skip_full_None)
  have "ISALLOCATED_PAGE s f" if "unat f < 1048576" for f
    using all [of "unat f div 8"] that bit_array_test_split [of f "unat f div 8" "unat f mod 8"]
    by (simp add: ISALLOCATED_PAGE_def u8_all_ones_iff)
  with None that(2) show ?thesis by (simp add: mm_find_empty_block_physical_def)
next
  case (Some n)
  from mm_find_Some [OF lowest_free_byte [OF this]] lowest_free_byte [OF this] that(1)
  show ?thesis by blast
qed

section \<open>Page bases\<close>

lemma page_base_eq: "page_of x * 4096 = x AND - 4096" for x :: u32
proof (rule bit_word_eqI)
  fix n assume "n < LENGTH(32)"
  have "page_of x = of_nat (unat (page_of x))" by simp
  then have "page_of x = of_nat (unat x div 4096)" by (simp only: unat_page_of)
  then have *: "page_of x * 4096 = of_nat (unat x div 4096) * 4096" by simp
  have "unat x div 4096 = drop_bit 12 (unat x)" by (simp add: drop_bit_eq_div)
  then show "bit (page_of x * 4096) n = bit (x AND - 4096) n"
    unfolding * using \<open>n < LENGTH(32)\<close>
    by (auto simp: entry_bits bit_page_base bit_drop_bit_eq bit_unsigned_iff)
qed

lemma page_of_base [simp]: "page_of (page_of x * 4096) = page_of x"
  by (rule page_of_mult) (rule page_of_bound)

section \<open>Allocating one page\<close>

lemma mm_map_blocks_one:
  "mm_map_blocks vb j 1 ps = arch_paging_map (vb * 4096) (j * 4096) ps"
  by (simp add: mm_map_blocks_def)

lemma arch_paging_map_ok: "arch_paging_map v p ps = (SYS_RET_NO_ERROR, snd (arch_paging_map v p ps))"
  by (simp add: arch_paging_map_def Let_def)

lemma one_block: "unat bytes < 8192 \<Longrightarrow> (if bytes div 4096 = 0 then 1 else bytes div 4096) = (1 :: u32)"
proof -
  assume "unat bytes < 8192"
  then have "unat (bytes div 4096) < 2" by (simp add: unat_div)
  then have "unat (bytes div 4096) = 0 \<or> unat (bytes div 4096) = 1" by linarith
  then show ?thesis by (auto simp: word_unat_eq_iff)
qed

definition mm_after_alloc :: "u32 \<Rightarrow> u32 \<Rightarrow> mm_state \<Rightarrow> mm_state" where
  "mm_after_alloc v f s =
     VM_ALLOC_PAGE (page_of v)
       (ALLOC_PAGE f (s\<lparr>mm_paging := snd (arch_paging_map (page_of v * 4096) (f * 4096) (mm_paging s))\<rparr>))"

lemma mm_alloc_one:
  assumes "\<not> VM_ISALLOCATED_PAGE s (page_of v)" "lowest_free s f" "unat bytes < 8192"
  shows "mm_alloc v bytes fl s = Some (SYS_RET_NO_ERROR, Some (page_of v * 4096), mm_after_alloc v f s)"
proof -
  have f: "page_of (f * 4096) = f"
    using assms(2) by (simp add: lowest_free_def page_of_mult)
  obtain ps where ps: "arch_paging_map (page_of v * 4096) (f * 4096) (mm_paging s) = (SYS_RET_NO_ERROR, ps)"
    using arch_paging_map_ok by blast
  show ?thesis
    unfolding mm_alloc_def one_block [OF assms(3)] mm_after_alloc_def
    using assms(1) ps
    by (simp add: mm_find_Some [OF assms(2)] mm_map_blocks_one Let_def f flip: page_of_def)
qed

lemma mm_alloc_used:
  "VM_ISALLOCATED_PAGE s (page_of v) \<Longrightarrow> mm_alloc v bytes fl s = Some (SYS_RET_MEM_ALLOC_ERROR, None, s)"
  by (simp add: mm_alloc_def page_of_def)

lemma mm_alloc_full:
  assumes "\<not> VM_ISALLOCATED_PAGE s (page_of v)" "mm_find_empty_block_physical s = None"
  shows "mm_alloc v bytes fl s = None"
  using assms by (simp add: mm_alloc_def page_of_def Let_def)

lemma mm_alloc_cases:
  assumes "unat bytes < 8192"
  obtains "mm_alloc v bytes fl s = Some (SYS_RET_MEM_ALLOC_ERROR, None, s)" "VM_ISALLOCATED_PAGE s (page_of v)"
  | f where "\<not> VM_ISALLOCATED_PAGE s (page_of v)" "lowest_free s f"
      "mm_alloc v bytes fl s = Some (SYS_RET_NO_ERROR, Some (page_of v * 4096), mm_after_alloc v f s)"
  | "\<not> VM_ISALLOCATED_PAGE s (page_of v)" "mm_alloc v bytes fl s = None"
      "\<And>f. unat f < 1048576 \<Longrightarrow> ISALLOCATED_PAGE s f"
proof (cases "VM_ISALLOCATED_PAGE s (page_of v)")
  case True
  then show ?thesis using mm_alloc_used that(1) by blast
next
  case False
  show ?thesis
  proof (cases rule: mm_find_cases [of s])
    case (1 f)
    then show ?thesis using False mm_alloc_one assms that(2) by blast
  next
    case 2
    then show ?thesis by (intro that(3) [OF False mm_alloc_full [OF False]])
  qed
qed

section \<open>The invariant of page ownership\<close>

text \<open>The frame that the tables record for a page.\<close>

definition frame_at :: "mm_state \<Rightarrow> u32 \<Rightarrow> u32" where
  "frame_at s v = snd (arch_paging_virt_to_phys v (mm_paging s))"

text \<open>
  The page addresses marked in the virtual bitmap, without the window of the kernel image
  at 0xC0000000 that \<^verbatim>\<open>mm_init\<close> marks.
\<close>

definition kernel_window :: "u32 \<Rightarrow> bool" where
  "kernel_window v \<longleftrightarrow> 786432 \<le> unat (page_of v) \<and> unat (page_of v) < 819200"

definition owned :: "mm_state \<Rightarrow> u32 set" where
  "owned s = {v. page_of v * 4096 = v \<and> VM_ISALLOCATED_PAGE s (page_of v) \<and> \<not> kernel_window v}"

definition mm_inv :: "mm_state \<Rightarrow> bool" where
  "mm_inv s \<longleftrightarrow>
     pde_ok (mm_paging s) \<and>
     (\<forall>f. unat f < 16384 \<longrightarrow> ISALLOCATED_PAGE s f) \<and>
     (\<forall>v. kernel_window v \<longrightarrow> VM_ISALLOCATED_PAGE s (page_of v)) \<and>
     (\<forall>v \<in> owned s. pte_present (mm_paging s) v \<and> ISALLOCATED_PAGE s (page_of (frame_at s v)) \<and>
        16384 \<le> unat (page_of (frame_at s v))) \<and>
     inj_on (frame_at s) (owned s)"

lemma frame_aligned: "page_of (frame_at s v) * 4096 = frame_at s v"
proof -
  have "x AND - 4096 AND - 4096 = x AND (- 4096 :: u32)" for x
    by (simp add: and.assoc)
  then show ?thesis by (simp add: page_base_eq frame_at_def arch_paging_virt_to_phys_def)
qed

lemma frame_eq_iff: "page_of (frame_at s v) = page_of (frame_at s w) \<longleftrightarrow> frame_at s v = frame_at s w"
  by (metis frame_aligned)

lemma page_aligned_mult: "unat f < 1048576 \<Longrightarrow> f * 4096 AND - 4096 = (f * 4096 :: u32)"
  by (metis page_base_eq page_of_mult)

lemma frame_after_alloc:
  "unat f < 1048576 \<Longrightarrow>
   frame_at (mm_after_alloc v f s) w = (if page_of w = page_of v then f * 4096 else frame_at s w)"
  by (simp add: frame_at_def mm_after_alloc_def tables.phys_map page_aligned_mult)

lemma owned_after_alloc:
  assumes "\<not> kernel_window v"
  shows "owned (mm_after_alloc v f s) = insert (page_of v * 4096) (owned s)"
  using assms by (auto simp: owned_def mm_after_alloc_def pages.used_mark kernel_window_def)

lemma mm_inv_after_alloc:
  assumes inv: "mm_inv s" and free: "\<not> VM_ISALLOCATED_PAGE s (page_of v)" and low: "lowest_free s f"
  shows "mm_inv (mm_after_alloc v f s)"
proof -
  let ?v = "page_of v * 4096" and ?s = "mm_after_alloc v f s"
  have f: "unat f < 1048576" "\<not> ISALLOCATED_PAGE s f" using low by (auto simp: lowest_free_def)
  have pde: "pde_ok (mm_paging s)" using inv by (simp add: mm_inv_def)
  have notwin: "\<not> kernel_window v" using inv free by (auto simp: mm_inv_def)
  note own = owned_after_alloc [OF notwin, of f s]
  have old: "page_of w \<noteq> page_of v" if "w \<in> owned s" for w
    using that free by (auto simp: owned_def)
  have used: "ISALLOCATED_PAGE ?s g \<longleftrightarrow> f = g \<or> ISALLOCATED_PAGE s g" for g
    by (simp add: mm_after_alloc_def frames.used_mark)
  have high: "16384 \<le> unat f" using inv f(2) by (force simp: mm_inv_def)
  have "inj_on (frame_at ?s) (insert ?v (owned s))"
  proof -
    have "f * 4096 \<notin> frame_at s ` owned s"
    proof
      assume "f * 4096 \<in> frame_at s ` owned s"
      then obtain w where w: "w \<in> owned s" "frame_at s w = f * 4096" by auto
      then have "page_of (frame_at s w) = f" using f(1) by (simp add: page_of_mult)
      with w inv f(2) show False by (auto simp: mm_inv_def)
    qed
    then have "inj_on (\<lambda>w. snd (arch_paging_virt_to_phys w (snd (arch_paging_map ?v (f * 4096) (mm_paging s)))))
        (insert ?v (owned s))"
      using inv f(1) by (intro tables.inj_on_map) (auto simp: mm_inv_def frame_at_def [abs_def] page_aligned_mult owned_def)
    then show ?thesis by (simp add: frame_at_def [abs_def] mm_after_alloc_def)
  qed
  moreover have "pte_present (mm_paging ?s) w \<and> ISALLOCATED_PAGE ?s (page_of (frame_at ?s w)) \<and>
      16384 \<le> unat (page_of (frame_at ?s w))" if "w \<in> insert ?v (owned s)" for w
    using that inv old f high pde
    by (auto simp: mm_inv_def frame_after_alloc used page_of_mult)
      (auto simp: mm_after_alloc_def tables.present_map [OF pde])
  moreover have "pde_ok (mm_paging ?s)" using pde by (simp add: mm_after_alloc_def pde_ok_map)
  moreover have "VM_ISALLOCATED_PAGE ?s (page_of w)" if "kernel_window w" for w
    using that inv by (auto simp: mm_after_alloc_def pages.used_mark mm_inv_def)
  ultimately show ?thesis using inv by (auto simp: mm_inv_def own used)
qed

section \<open>Releasing a page\<close>

lemma mm_free_eq:
  assumes "page_of v * 4096 = v"
  shows "mm_free v s = (SYS_RET_NO_ERROR,
     VM_UNALLOC_PAGE (page_of v) (UNALLOC_PAGE (page_of (frame_at s v))
       (s\<lparr>mm_paging := snd (arch_paging_unmap v (mm_paging s))\<rparr>)))"
  using assms by (simp add: mm_free_def Let_def frame_at_def flip: page_of_def)

lemma mm_inv_free:
  assumes inv: "mm_inv s" and v: "v \<in> owned s"
  shows "mm_inv (snd (mm_free v s))"
proof -
  let ?s = "snd (mm_free v s)" and ?g = "page_of (frame_at s v)"
  have al: "page_of v * 4096 = v" and notwin: "\<not> kernel_window v" using v by (auto simp: owned_def)
  note free = mm_free_eq [OF al, of s]
  have pde: "pde_ok (mm_paging s)" using inv by (simp add: mm_inv_def)
  have own: "owned ?s = owned s - {v}"
    using al by (auto simp: free owned_def pages.used_unmark)
  have other: "page_of w \<noteq> page_of v" if "w \<in> owned ?s" for w
  proof -
    have "page_of w * 4096 = w" "w \<noteq> v" using that unfolding own by (simp_all add: owned_def)
    with al show ?thesis by metis
  qed
  have frame: "frame_at ?s w = frame_at s w" if "w \<in> owned ?s" for w
    using other [OF that] by (simp add: free frame_at_def tables.phys_unmap)
  have used: "ISALLOCATED_PAGE ?s g \<longleftrightarrow> ?g \<noteq> g \<and> ISALLOCATED_PAGE s g" for g
    by (simp add: free frames.used_unmark)
  have inj: "inj_on (frame_at s) (owned s)" using inv by (simp add: mm_inv_def)
  have "frame_at s w \<noteq> frame_at s v" if "w \<in> owned ?s" for w
    using inj that v by (auto simp: own inj_on_def)
  then have "ISALLOCATED_PAGE ?s (page_of (frame_at ?s w))" if "w \<in> owned ?s" for w
    using that inv unfolding used frame [OF that] frame_eq_iff by (metis DiffD1 mm_inv_def own)
  moreover have "pte_present (mm_paging ?s) w" if "w \<in> owned ?s" for w
    using that inv other [OF that] by (auto simp: free tables.present_unmap [OF pde] mm_inv_def owned_def pages.used_unmark)
  moreover have "inj_on (frame_at ?s) (owned ?s)"
    using inj by (auto simp: inj_on_def frame own)
  moreover have "VM_ISALLOCATED_PAGE ?s (page_of w)" if "kernel_window w" for w
    using that inv notwin by (auto simp: free pages.used_unmark mm_inv_def kernel_window_def)
  moreover have "ISALLOCATED_PAGE ?s f" if "unat f < 16384" for f
    using that inv v by (auto simp: used mm_inv_def)
  moreover have "pde_ok (mm_paging ?s)" using pde by (simp add: free pde_ok_unmap)
  moreover have "16384 \<le> unat (page_of (frame_at ?s w))" if "w \<in> owned ?s" for w
    using that inv by (simp only: frame) (auto simp: own mm_inv_def)
  ultimately show ?thesis unfolding mm_inv_def by blast
qed

section \<open>Boot and reachable states\<close>

text \<open>The statically initialised virtual bitmap is all zero; the tables are those of boot.\<close>

definition mm_boot :: "paging_state \<Rightarrow> mm_state \<Rightarrow> bool" where
  "mm_boot ps s \<longleftrightarrow> mm_vm_alloc_bitmap s = (\<lambda>_. 0) \<and> mm_paging s = arch_paging_init_lower ps"

lemma mm_init_result:
  assumes "mm_init info entry_at s = Some (SYS_RET_NO_ERROR, s')"
  shows "\<forall>i<2048. mm_page_alloc_bitmap s' i = 0xFF"
    and "mm_vm_alloc_bitmap s' = for_update 0 98304 102400 (\<lambda>_ _. 0xFF) (mm_vm_alloc_bitmap s)"
    and "mm_paging s' = mm_paging s"
    and "mm_available_block_count s' = mm_count_available (mm_page_alloc_bitmap s')"
  using assms by (auto simp: mm_init_def Let_def for_update_apply split: if_splits option.splits bind_splits)

lemma mm_init_pages:
  assumes boot: "mm_boot ps s" and init: "mm_init info entry_at s = Some (SYS_RET_NO_ERROR, s')"
  shows "VM_ISALLOCATED_PAGE s' (page_of v) \<longleftrightarrow> kernel_window v"
proof -
  have "bit_array_test (mm_vm_alloc_bitmap s') (page_of v) \<longleftrightarrow>
      bit (mm_vm_alloc_bitmap s' (unat (page_of v) div 8)) (unat (page_of v) mod 8)"
    by (rule bit_array_test_split) auto
  then show ?thesis
    using boot by (auto simp: mm_init_result(2) [OF init] mm_boot_def VM_ISALLOCATED_PAGE_def
        for_update_apply kernel_window_def)
qed

lemma mm_inv_init:
  assumes boot: "mm_boot ps s" and init: "mm_init info entry_at s = Some (SYS_RET_NO_ERROR, s')"
  shows "mm_inv s'"
proof -
  note vm = mm_init_pages [OF boot init]
  have "ISALLOCATED_PAGE s' f" if "unat f < 16384" for f
    using that mm_init_result(1) [OF init] bit_array_test_split [of f "unat f div 8" "unat f mod 8"]
    by (auto simp: ISALLOCATED_PAGE_def)
  moreover have "owned s' = {}" using vm by (auto simp: owned_def)
  ultimately show ?thesis
    using vm boot boot_pde_ok by (auto simp: mm_inv_def mm_init_result(3) [OF init] mm_boot_def)
qed

text \<open>
  One step of the manager as its callers drive it: a request for one page at any address, or
  the release of a page that is in use.
\<close>

inductive mm_step :: "mm_state \<Rightarrow> mm_state \<Rightarrow> bool" where
  alloc: "unat bytes < 8192 \<Longrightarrow> mm_alloc v bytes fl s = Some (r, out, s') \<Longrightarrow> mm_step s s'"
| free: "v \<in> owned s \<Longrightarrow> mm_free v s = (r, s') \<Longrightarrow> mm_step s s'"

inductive mm_reachable :: "mm_state \<Rightarrow> bool" where
  init: "mm_boot ps s \<Longrightarrow> mm_init info entry_at s = Some (SYS_RET_NO_ERROR, s') \<Longrightarrow> mm_reachable s'"
| step: "mm_reachable s \<Longrightarrow> mm_step s s' \<Longrightarrow> mm_reachable s'"

inductive_cases mm_stepE: "mm_step s s'"

lemma mm_inv_alloc:
  assumes "mm_inv s" "unat bytes < 8192" "mm_alloc v bytes fl s = Some (r, out, s')"
  shows "mm_inv s'"
proof (cases rule: mm_alloc_cases [OF assms(2), of v fl s])
  case (2 f)
  with assms(1,3) mm_inv_after_alloc show ?thesis by auto
qed (use assms in auto)

lemma mm_step_inv: "mm_step s s' \<Longrightarrow> mm_inv s \<Longrightarrow> mm_inv s'"
  by (erule mm_stepE) (auto dest: mm_inv_alloc mm_inv_free)

lemma mm_reachable_inv: "mm_reachable s \<Longrightarrow> mm_inv s"
  by (induction rule: mm_reachable.induct) (auto intro: mm_inv_init mm_step_inv)

section \<open>Reading the memory map\<close>

lemma bit_align_mask [simp]: "bit (-8 :: u32) n \<longleftrightarrow> 3 \<le> n \<and> n < 32"
proof -
  have eq: "(-8 :: u32) = NOT (mask 3)" by (simp add: mask_eq_exp_minus_1)
  show ?thesis unfolding eq by (auto simp: bit_not_iff bit_mask_iff)
qed

lemma align_down_8: "unat (x AND - 8 :: u32) = unat x div 8 * 8"
proof -
  have "x AND - 8 = push_bit 3 (drop_bit 3 x)"
    by (rule bit_word_eqI) (auto simp: bit_and_iff bit_push_bit_iff bit_drop_bit_eq)
  moreover have "unat (push_bit 3 (drop_bit 3 x)) = unat x div 8 * 8"
  proof -
    have "unat x div 8 * 8 < 4294967296"
      using unat_u32_less [of x] by simp
    then show ?thesis
      by (simp add: push_bit_eq_mult drop_bit_eq_div unat_word_ariths unat_div)
  qed
  ultimately show ?thesis by simp
qed

lemma same_byte: "l < k + 8 \<Longrightarrow> k \<le> l \<Longrightarrow> k mod 8 = 0 \<Longrightarrow> l div 8 = k div 8" for k l :: nat
proof -
  assume "l < k + 8" "k \<le> l" "k mod 8 = 0"
  then obtain q where "k = 8 * q" by auto
  with \<open>l < k + 8\<close> \<open>k \<le> l\<close> have "l div 8 = q" by (intro div_nat_eqI) auto
  with \<open>k = 8 * q\<close> show ?thesis by simp
qed

text \<open>The filling loop writes the bytes from the aligned start to the byte of the last page.\<close>

lemma mm_fill_bytes_spec:
  assumes "unat k mod 8 = 0" "unat l < 1048576"
  shows "mm_fill_bytes k l v bm =
    Some (if k \<le> l then of_nat ((unat l div 8 + 1) * 8) else k,
          \<lambda>i. if unat k div 8 \<le> i \<and> i \<le> unat l div 8 then v else bm i)"
  using assms
proof (induction k l v bm rule: mm_fill_bytes.induct)
  case (1 k l v bm)
  show ?case
  proof (cases "k \<le> l")
    case True
    then have k: "unat k < 1048576" using "1.prems" by (simp add: word_le_nat_alt)
    have idx: "unat (k div 8) = unat k div 8" by (simp add: unat_div)
    have k8: "unat (k + 8) = unat k + 8" using k by (simp add: unat_word_ariths)
    have IH: "mm_fill_bytes (k + 8) l v (bm(unat (k div 8) := v)) =
      Some (if k + 8 \<le> l then of_nat ((unat l div 8 + 1) * 8) else k + 8,
          \<lambda>i. if unat (k + 8) div 8 \<le> i \<and> i \<le> unat l div 8 then v else (bm(unat (k div 8) := v)) i)"
      using True k "1.prems" by (intro "1.IH") (simp_all add: idx k8)
    have last: "k + 8 = of_nat ((unat l div 8 + 1) * 8)" if "\<not> k + 8 \<le> l"
    proof -
      have "unat l < unat k + 8" "unat k \<le> unat l" using that True by (simp_all add: word_le_nat_alt k8)
      then have "unat l div 8 = unat k div 8" using "1.prems"(1) by (rule same_byte)
      then have "(unat l div 8 + 1) * 8 = unat (k + 8)" using "1.prems"(1) k8 by auto
      then show ?thesis by (metis of_nat_unat ucast_id unat_eq_nat_uint)
    qed
    have le: "unat k div 8 \<le> unat l div 8" using True by (simp add: word_le_nat_alt div_le_mono)
    have upd: "(if unat (k + 8) div 8 \<le> i \<and> i \<le> unat l div 8 then v else (bm(unat k div 8 := v)) i) =
        (if unat k div 8 \<le> i \<and> i \<le> unat l div 8 then v else bm i)" for i
      using le by (auto simp: k8)
    have "unat k div 8 < bitmap_bytes" using k by linarith
    with True show ?thesis
      unfolding mm_fill_bytes.simps [of k l] idx IH [unfolded idx] by (simp add: upd last)
  next
    case False
    then have "unat l < unat k" by (simp add: word_le_nat_alt)
    then have "unat l div 8 < unat k div 8" using "1.prems"(1) by (auto simp: div_less_iff_less_mult)
    with False show ?thesis by (auto simp: mm_fill_bytes.simps [of k l] fun_eq_iff)
  qed
qed

text \<open>
  What an available region does to the bitmap, page by page: \<open>b\<close> is its first page and \<open>e\<close>
  the page after its last one.
\<close>

definition available_bit :: "nat \<Rightarrow> nat \<Rightarrow> (nat \<Rightarrow> u8) \<Rightarrow> nat \<Rightarrow> bool" where
  "available_bit b e bm p =
     (if p div 8 < b div 8 \<or> e div 8 < p div 8 then bit (bm (p div 8)) (p mod 8)
      else if p div 8 = e div 8 then p mod 8 < e mod 8
      else p div 8 = b div 8 \<and> p mod 8 < b mod 8)"

lemma bit_end_mask: "m \<le> 8 \<Longrightarrow> n < 8 \<Longrightarrow> bit (ucast (drop_bit (8 - m) (0xFF :: u32)) :: u8) n \<longleftrightarrow> n < m"
proof -
  assume "m \<le> 8" "n < 8"
  have eq: "(0xFF :: u32) = mask 8" by (simp add: mask_eq_exp_minus_1)
  show ?thesis unfolding eq using \<open>n < 8\<close> \<open>m \<le> 8\<close>
    by (auto simp: bit_ucast_iff bit_drop_bit_eq bit_mask_iff)
qed

lemma bit_start_mask: "k < 8 \<Longrightarrow> n < 8 \<Longrightarrow> bit (ucast (NOT (push_bit k (0xFF :: u32))) :: u8) n \<longleftrightarrow> n < k"
proof -
  assume "k < 8" "n < 8"
  have eq: "(0xFF :: u32) = mask 8" by (simp add: mask_eq_exp_minus_1)
  show ?thesis unfolding eq using \<open>n < 8\<close> \<open>k < 8\<close>
    by (auto simp: bit_ucast_iff bit_not_iff bit_push_bit_iff bit_mask_iff)
qed

text \<open>The loop as both branches call it, from the byte after the one of the first page.\<close>

lemma mm_fill_range:
  assumes "unat first = b" "unat last_k = e" "b \<le> e" "e < 1048568"
  obtains k where "mm_fill_bytes ((first + 8) AND - 8) last_k v bm =
      Some (k, \<lambda>i. if b div 8 < i \<and> i \<le> e div 8 then v else bm i)"
    and "unat ((k - 8) div 8) = e div 8"
proof -
  define k0 where "k0 = (first + 8) AND - 8"
  have k0: "unat k0 = (b div 8 + 1) * 8"
  proof -
    have "(b + 8) div 8 = b div 8 + 1" by simp
    moreover have "unat (first + 8) = b + 8" using assms by (simp add: unat_word_ariths)
    ultimately show ?thesis by (simp only: k0_def align_down_8)
  qed
  have k0div: "unat k0 div 8 = b div 8 + 1" and k0mod: "unat k0 mod 8 = 0" using k0 by simp_all
  obtain k where fill: "mm_fill_bytes k0 last_k v bm =
      Some (k, \<lambda>i. if b div 8 < i \<and> i \<le> e div 8 then v else bm i)"
    and k: "k = (if k0 \<le> last_k then of_nat ((e div 8 + 1) * 8) else k0)"
    using mm_fill_bytes_spec [OF k0mod, of last_k v bm] assms by (simp add: k0div Suc_le_eq)
  have le: "k0 \<le> last_k \<longleftrightarrow> b div 8 < e div 8"
    using assms by (auto simp: word_le_nat_alt k0)
  have "unat k = (e div 8 + 1) * 8"
  proof (cases "b div 8 < e div 8")
    case True
    have "e div 8 * 8 \<le> e" by simp
    then have "(e div 8 + 1) * 8 < 4294967296" using assms by simp
    then show ?thesis unfolding k using True le by (simp only: unat_of_nat_u32 if_True)
  next
    case False
    with div_le_mono [of b e 8] assms have "e div 8 = b div 8" by linarith
    with False le show ?thesis by (simp add: k k0)
  qed
  then have "unat (k - 8) = e div 8 * 8"
    by (simp add: unat_sub word_le_nat_alt)
  then have "unat ((k - 8) div 8) = e div 8" by (simp add: unat_div)
  with fill show ?thesis using that by (simp add: k0_def)
qed

lemma mm_init_available_spec:
  assumes "unat (mmap_base entry) div 4096 = b" "unat (mmap_len entry) div 4096 = n"
    and "b + n < 1048568"
  shows "\<exists>bm'. mm_init_available entry bm = Some bm' \<and>
     (\<forall>p. bit (bm' (p div 8)) (p mod 8) = available_bit b (b + n) bm p)"
proof -
  let ?b = "ucast (mmap_base entry div 4096) :: u32" and ?n = "ucast (mmap_len entry div 4096) :: u32"
  have b: "unat ?b = b" "unat (?b div 8) = b div 8" "unat (?b mod 8) = b mod 8"
    using assms by (simp_all add: unsigned_ucast_eq take_bit_eq_mod unat_div unat_mod)
  have n: "unat ?n = n" using assms by (simp add: unsigned_ucast_eq take_bit_eq_mod unat_div)
  have e: "unat (?b + ?n) = b + n" using b n assms by (simp add: unat_word_ariths)
  have e8: "unat ((?b + ?n) mod 8) = (b + n) mod 8" by (simp add: unat_mod e)
  define bm1 where "bm1 = bm(b div 8 := ucast (NOT (push_bit (b mod 8) (0xFF :: u32))))"
  define bm2 where "bm2 = (\<lambda>i. if b div 8 < i \<and> i \<le> (b + n) div 8 then 0 else bm1 i)"
  obtain k where fill: "mm_fill_bytes ((?b + 8) AND - 8) (?b + ?n) 0 bm1 = Some (k, bm2)"
    and k: "unat ((k - 8) div 8) = (b + n) div 8"
    using mm_fill_range [OF b(1) e _ assms(3), of 0 bm1] unfolding bm2_def by auto
  have bound: "b div 8 < bitmap_bytes" "(b + n) div 8 < bitmap_bytes"
    using assms(3) by (auto simp: div_less_iff_less_mult)
  have "mm_init_available entry bm =
      Some (bm2((b + n) div 8 := ucast (drop_bit (8 - (b + n) mod 8) (0xFF :: u32))))"
    using bound fill by (simp add: mm_init_available_def Let_def bitmap_store_def b e8 k bm1_def)
  moreover have "bit ((bm2((b + n) div 8 := ucast (drop_bit (8 - (b + n) mod 8) (0xFF :: u32)))) (p div 8)) (p mod 8)
      = available_bit b (b + n) bm p" for p
    by (auto simp: available_bit_def bm2_def bm1_def bit_end_mask bit_start_mask)
  ultimately show ?thesis by blast
qed

text \<open>The same for a reserved region, whose last page is in page \<open>e\<close> or the one before it.\<close>

definition reserved_bit :: "nat \<Rightarrow> nat \<Rightarrow> (nat \<Rightarrow> u8) \<Rightarrow> nat \<Rightarrow> bool" where
  "reserved_bit b e bm p =
     (if p div 8 < b div 8 \<or> e div 8 < p div 8 then bit (bm (p div 8)) (p mod 8)
      else if p div 8 = e div 8 then p mod 8 < 8 - e mod 8
      else if p div 8 = b div 8 then p mod 8 < 8 - b mod 8
      else p mod 8 = 0)"

lemma bit_reserved_mask:
  "m < 8 \<Longrightarrow> n < 8 \<Longrightarrow> bit (ucast (drop_bit m (0xFF :: u32)) :: u8) n \<longleftrightarrow> n < 8 - m"
  using bit_end_mask [of "8 - m" n] by simp

lemma mm_init_reserved_spec:
  assumes "unat (mmap_base entry) div 4096 = b" "(unat (mmap_base entry) + unat (mmap_len entry)) div 4096 = e"
    and "e < 1048568" "mmap_len entry > 0"
  shows "\<exists>bm'. mm_init_reserved entry bm = Some bm' \<and>
     (\<forall>p. bit (bm' (p div 8)) (p mod 8) = reserved_bit b e bm p)"
proof -
  let ?b = "ucast (mmap_base entry div 4096) :: u32"
  let ?e = "ucast ((mmap_base entry + mmap_len entry) div 4096) :: u32"
  have le: "b \<le> e" using assms(1,2) div_le_mono [of "unat (mmap_base entry)" _ 4096] by (metis le_add1)
  have bl: "b < 1048568" using le assms(3) by simp
  have b: "unat ?b = b" "unat (?b div 8) = b div 8" "unat (?b mod 8) = b mod 8"
    using assms(1) bl by (simp_all add: unsigned_ucast_eq take_bit_eq_mod unat_div unat_mod)
  have "unat (mmap_base entry) + unat (mmap_len entry) < 4294967296 * 4096"
    using assms(2,3) by (auto simp: div_less_iff_less_mult)
  then have sum: "unat (mmap_base entry + mmap_len entry) = unat (mmap_base entry) + unat (mmap_len entry)"
    by (simp add: unat_word_ariths)
  have e: "unat ?e = e" "unat (?e mod 8) = e mod 8"
    using assms(2,3) by (simp_all add: unsigned_ucast_eq take_bit_eq_mod unat_div unat_mod sum)
  define bm1 where "bm1 = bm(b div 8 := ucast (drop_bit (b mod 8) (0xFF :: u32)))"
  define bm2 where "bm2 = (\<lambda>i. if b div 8 < i \<and> i \<le> e div 8 then 1 else bm1 i)"
  obtain k where fill: "mm_fill_bytes ((?b + 8) AND - 8) ?e 1 bm1 = Some (k, bm2)"
    and k: "unat ((k - 8) div 8) = e div 8"
    using mm_fill_range [OF b(1) e(1) le assms(3), of 1 bm1] unfolding bm2_def by auto
  have bound: "b div 8 < bitmap_bytes" "e div 8 < bitmap_bytes"
    using assms(3) bl by (auto simp: div_less_iff_less_mult)
  have "mm_init_reserved entry bm = Some (bm2(e div 8 := ucast (drop_bit (e mod 8) (0xFF :: u32))))"
    using bound fill assms(4) by (simp add: mm_init_reserved_def Let_def bitmap_store_def b e k bm1_def)
  moreover have "bit ((bm2(e div 8 := ucast (drop_bit (e mod 8) (0xFF :: u32)))) (p div 8)) (p mod 8)
      = reserved_bit b e bm p" for p
    using div_le_mono [OF le, of 8] by (auto simp: reserved_bit_def bm2_def bm1_def bit_reserved_mask bit_1_iff)
  ultimately show ?thesis by blast
qed

text \<open>Entries whose pages all lie in the bitmap are processed without leaving it.\<close>

definition entry_in_range :: "multiboot_mmap_entry \<Rightarrow> bool" where
  "entry_in_range entry \<longleftrightarrow> unat (mmap_base entry) + unat (mmap_len entry) < 0xFFFF8000"

lemma mm_init_entry_total:
  assumes "entry_in_range entry"
  shows "\<exists>bm'. mm_init_entry entry bm = Some bm'"
proof -
  have lt: "unat (mmap_base entry) + unat (mmap_len entry) < 1048568 * 4096"
    using assms by (simp add: entry_in_range_def)
  have "unat (mmap_base entry) div 4096 * 4096 \<le> unat (mmap_base entry)"
    "unat (mmap_len entry) div 4096 * 4096 \<le> unat (mmap_len entry)" by simp_all
  with lt have "unat (mmap_base entry) div 4096 + unat (mmap_len entry) div 4096 < 1048568" by linarith
  from mm_init_available_spec [OF refl refl this]
  have avail: "\<exists>bm'. mm_init_available entry bm = Some bm'" by blast
  have "(unat (mmap_base entry) + unat (mmap_len entry)) div 4096 < 1048568"
    using lt by (subst div_less_iff_less_mult) auto
  from mm_init_reserved_spec [OF refl refl this]
  have "\<exists>bm'. mm_init_reserved entry bm = Some bm'"
    by (cases "mmap_len entry > 0") (auto simp: mm_init_reserved_def Let_def)
  with avail show ?thesis by (simp add: mm_init_entry_def)
qed

text \<open>The address of the \<open>n\<close>-th entry of the map, by the sizes that the entries before it give.\<close>

primrec map_entry_addr :: "(u32 \<Rightarrow> multiboot_mmap_entry) \<Rightarrow> u32 \<Rightarrow> nat \<Rightarrow> u32" where
  "map_entry_addr entry_at a 0 = a"
| "map_entry_addr entry_at a (Suc n) = map_entry_addr entry_at (a + mmap_size (entry_at a) + 4) n"

lemma mm_init_entries_total:
  assumes "unat map_size < 0xFFFFFFE0" "unat i \<le> unat map_size + 24"
    and "\<And>n. unat i + 24 * n < unat map_size \<Longrightarrow> entry_in_range (entry_at (map_entry_addr entry_at entry n))"
  shows "\<exists>bm'. mm_init_entries entry_at i map_size entry bm = Some bm'"
  using assms(2,3)
proof (induction "unat map_size + 24 - unat i" arbitrary: i entry bm rule: less_induct)
  case less
  show ?case
  proof (cases "i < map_size")
    case True
    then have i: "unat i < unat map_size" by (simp add: word_less_nat_alt)
    then have i24: "unat (i + 24) = unat i + 24" using assms(1) by (simp add: unat_word_ariths)
    obtain bm1 where "mm_init_entry (entry_at entry) bm = Some bm1"
      using mm_init_entry_total less.prems(2) [of 0] i by auto
    moreover have "\<exists>bm'. mm_init_entries entry_at (i + 24) map_size
        (entry + mmap_size (entry_at entry) + 4) bm1 = Some bm'"
    proof (rule less.hyps)
      show "entry_in_range (entry_at (map_entry_addr entry_at (entry + mmap_size (entry_at entry) + 4) n))"
        if "unat (i + 24) + 24 * n < unat map_size" for n
        using less.prems(2) [of "Suc n"] that i24 by simp
    qed (use i i24 in auto)
    ultimately show ?thesis using True by (subst mm_init_entries.simps) auto
  next
    case False
    then show ?thesis by (subst mm_init_entries.simps) auto
  qed
qed

section \<open>Counting free pages\<close>

lemma fold_count: "fold (\<lambda>j n. if P j then n + 1 else n) xs (of_nat a) = (of_nat (a + length (filter P xs)) :: u32)"
proof (induction xs arbitrary: a)
  case (Cons x xs)
  from Cons.IH [of "a + 1"] Cons.IH [of a] show ?case by (simp add: add.commute)
qed simp

lemma mm_free_in_byte_eq: "mm_free_in_byte b = of_nat (length (filter (\<lambda>j. \<not> bit b j) [0..<8]))"
proof -
  have "filter (\<lambda>j. \<not> bit (0xFF :: u8) j) [0..<8] = []" by (simp add: filter_empty_conv)
  moreover have "fold (\<lambda>j n. if b AND push_bit j 1 = 0 then n + 1 else n) [0..<8] 0 =
      (of_nat (length (filter (\<lambda>j. \<not> bit b j) [0..<8])) :: u32)"
    using fold_count [of "\<lambda>j. b AND push_bit j 1 = 0" "[0..<8]" 0] by simp
  ultimately show ?thesis by (simp add: mm_free_in_byte_def)
qed

lemma fold_sum: "fold (\<lambda>i n. n + of_nat (g i)) xs (of_nat a) = (of_nat (a + sum_list (map g xs)) :: u32)"
  by (induction xs arbitrary: a) (simp_all add: add.assoc flip: of_nat_add)

definition free_pages :: "(nat \<Rightarrow> u8) \<Rightarrow> nat \<Rightarrow> nat set" where
  "free_pages bm n = {p. p < n * 8 \<and> \<not> bit (bm (p div 8)) (p mod 8)}"

lemma card_free_pages:
  "card (free_pages bm n) = (\<Sum>i\<leftarrow>[0..<n]. length (filter (\<lambda>j. \<not> bit (bm i) j) [0..<8]))"
proof (induction n)
  case 0
  then show ?case by (simp add: free_pages_def)
next
  case (Suc n)
  let ?new = "(\<lambda>j. n * 8 + j) ` {j. j < 8 \<and> \<not> bit (bm n) j}"
  have split: "free_pages bm (Suc n) = free_pages bm n \<union> ?new"
  proof (intro equalityI subsetI)
    fix p assume p: "p \<in> free_pages bm (Suc n)"
    show "p \<in> free_pages bm n \<union> ?new"
    proof (cases "p < n * 8")
      case False
      then obtain j where "p = n * 8 + j" by (metis le_Suc_ex not_less)
      with p show ?thesis by (auto simp: free_pages_def)
    qed (use p in \<open>auto simp: free_pages_def\<close>)
  qed (auto simp: free_pages_def)
  have "{j. j < 8 \<and> \<not> bit (bm n) j} = set (filter (\<lambda>j. \<not> bit (bm n) j) [0..<8])" by auto
  moreover have "card (set (filter (\<lambda>j. \<not> bit (bm n) j) [0..<8])) = length (filter (\<lambda>j. \<not> bit (bm n) j) [0..<8])"
    by (rule distinct_card) simp
  ultimately have "card ?new = length (filter (\<lambda>j. \<not> bit (bm n) j) [0..<8])"
    by (simp add: card_image)
  moreover have "card (free_pages bm n \<union> ?new) = card (free_pages bm n) + card ?new"
    by (rule card_Un_disjoint) (auto simp: free_pages_def)
  ultimately show ?case by (simp add: split Suc.IH)
qed

lemma mm_count_available_eq: "mm_count_available bm = of_nat (card (free_pages bm bitmap_bytes))"
  using fold_sum [of "\<lambda>i. length (filter (\<lambda>j. \<not> bit (bm i) j) [0..<8])" "[0..<bitmap_bytes]" 0]
  by (simp only: mm_count_available_def mm_free_in_byte_eq card_free_pages semiring_1_class.of_nat_0 add_0)

section \<open>Properties\<close>

lemma owned_walk:
  assumes "mm_inv s" "v \<in> owned s"
  shows "mmu_walk (mm_paging s) v = Some (frame_at s v)"
proof -
  have "v AND 0xFFF = 0"
  proof -
    have "page_of v * 4096 = v" using assms(2) by (simp add: owned_def)
    then have "v AND - 4096 = v" by (simp add: page_base_eq)
    then have "v AND 0xFFF = (v AND - 4096) AND 0xFFF" by simp
    also have "\<dots> = 0" by (rule bit_word_eqI) (auto simp: entry_bits)
    finally show ?thesis .
  qed
  moreover have "pte_present (mm_paging s) v" using assms by (auto simp: mm_inv_def)
  ultimately show ?thesis
    using assms(1) by (auto simp: pte_present_def walk_tables mm_inv_def Let_def frame_at_def arch_paging_virt_to_phys_def split: if_splits)
qed

text \<open>A concrete boot with 128 MB of available memory above the kernel.\<close>

definition boot_state :: mm_state where
  "boot_state = \<lparr>mm_page_alloc_bitmap = (\<lambda>_. 0), mm_vm_alloc_bitmap = (\<lambda>_. 0), mm_available_block_count = 0,
     mm_paging = arch_paging_init_lower \<lparr>page_dir = (\<lambda>_. 0), page_tables = (\<lambda>_. 0), other_memory = (\<lambda>_. 0), invlpg_log = []\<rparr>\<rparr>"

definition boot_info :: multiboot_info where
  "boot_info = \<lparr>flags = 0x40, mmap_length = 24, mmap_addr = 0x9000\<rparr>"

definition boot_entry_at :: "u32 \<Rightarrow> multiboot_mmap_entry" where
  "boot_entry_at a = \<lparr>mmap_size = 20, mmap_base = 0x4000000, mmap_len = 0x8000000, mmap_type = 1\<rparr>"

lemma boot_run:
  "\<exists>s. mm_init boot_info boot_entry_at boot_state = Some (SYS_RET_NO_ERROR, s) \<and> mm_reachable s \<and> mm_inv s \<and>
     (\<forall>f. unat f < 1048576 \<longrightarrow> ISALLOCATED_PAGE s f = (unat f < 16384 \<or> 49160 \<le> unat f)) \<and>
     (\<forall>v. VM_ISALLOCATED_PAGE s (page_of v) = kernel_window v)"
proof -
  let ?bm0 = "for_update 0 0 bitmap_bytes (\<lambda>_ _. 0xFF) (\<lambda>_. 0 :: u8)"
  obtain bm where av: "mm_init_available (boot_entry_at 0x9000) ?bm0 = Some bm"
    and bm: "\<And>p. bit (bm (p div 8)) (p mod 8) = available_bit 16384 49152 ?bm0 p"
    using mm_init_available_spec [of "boot_entry_at 0x9000" 16384 32768 ?bm0] by (auto simp: boot_entry_at_def)
  have "mm_init_entry (boot_entry_at 0x9000) ?bm0 = Some bm"
    using av by (simp add: mm_init_entry_def boot_entry_at_def MULTIBOOT_MEMORY_AVAILABLE_def)
  then have en: "mm_init_entries boot_entry_at 0 24 0x9000 ?bm0 = Some bm"
    by (subst mm_init_entries.simps, simp) (subst mm_init_entries.simps, simp)
  define bm2 where "bm2 = for_update 0 0 2048 (\<lambda>_ _. 0xFF) bm"
  define s where "s = boot_state\<lparr>mm_page_alloc_bitmap := bm2,
      mm_vm_alloc_bitmap := for_update 0 98304 102400 (\<lambda>_ _. 0xFF) (\<lambda>_. 0),
      mm_available_block_count := mm_count_available bm2\<rparr>"
  have init: "mm_init boot_info boot_entry_at boot_state = Some (SYS_RET_NO_ERROR, s)"
    using en by (simp add: mm_init_def boot_info_def boot_state_def drop_bit_eq_div s_def bm2_def Let_def)
  have boot: "mm_boot \<lparr>page_dir = (\<lambda>_. 0), page_tables = (\<lambda>_. 0), other_memory = (\<lambda>_. 0), invlpg_log = []\<rparr> boot_state"
    by (simp add: mm_boot_def boot_state_def)
  have "ISALLOCATED_PAGE s f \<longleftrightarrow> unat f < 16384 \<or> 49160 \<le> unat f" if "unat f < 1048576" for f
  proof -
    have "ISALLOCATED_PAGE s f \<longleftrightarrow> bit (bm2 (unat f div 8)) (unat f mod 8)"
      using bit_array_test_split [of f "unat f div 8" "unat f mod 8" bm2]
      by (simp add: ISALLOCATED_PAGE_def s_def)
    moreover have "unat f div 8 < bitmap_bytes" using that by (simp add: div_less_iff_less_mult)
    ultimately show ?thesis
      by (auto simp: bm2_def for_update_apply bm available_bit_def div_less_iff_less_mult)
  qed
  moreover have "mm_reachable s" by (rule mm_reachable.init [OF boot init])
  moreover note mm_reachable_inv [OF this]
  moreover have "VM_ISALLOCATED_PAGE s (page_of v) \<longleftrightarrow> kernel_window v" for v
    by (rule mm_init_pages [OF boot init])
  ultimately show ?thesis using init by blast
qed


lemma boot_lowest:
  assumes "\<And>f. unat f < 1048576 \<Longrightarrow> ISALLOCATED_PAGE s f \<longleftrightarrow> unat f < n \<or> 49160 \<le> unat f" "n < 49160"
  shows "lowest_free s (of_nat n)"
proof -
  have n: "unat (of_nat n :: u32) = n" using assms(2) by (simp add: unat_of_nat_u32)
  show ?thesis unfolding lowest_free_def n using assms by (simp add: n)
qed

lemma boot_two_pages:
  obtains s where "mm_reachable s" "mm_inv s" "0xD0000000 \<in> owned s" "0xD0001000 \<in> owned s"
proof -
  obtain s0 where s0: "mm_reachable s0" "mm_inv s0"
    and used: "\<forall>f. unat f < 1048576 \<longrightarrow> ISALLOCATED_PAGE s0 f \<longleftrightarrow> unat f < 16384 \<or> 49160 \<le> unat f"
    and vm: "\<forall>v. VM_ISALLOCATED_PAGE s0 (page_of v) \<longleftrightarrow> kernel_window v"
    using boot_run by blast
  define s1 where "s1 = mm_after_alloc 0xD0000000 16384 s0"
  define s2 where "s2 = mm_after_alloc 0xD0001000 16385 s1"
  have low0: "lowest_free s0 16384" using boot_lowest [OF used [rule_format]] by simp
  have used1: "ISALLOCATED_PAGE s1 f \<longleftrightarrow> unat f < 16385 \<or> 49160 \<le> unat f" if "unat f < 1048576" for f
    using that used by (auto simp: s1_def mm_after_alloc_def frames.used_mark word_unat_eq_iff)
  have low1: "lowest_free s1 16385" using boot_lowest [OF used1] by simp
  have vm0: "\<not> VM_ISALLOCATED_PAGE s0 (page_of 0xD0000000)" "\<not> VM_ISALLOCATED_PAGE s0 (page_of 0xD0001000)"
    unfolding vm [rule_format] by (simp_all add: kernel_window_def page_of_def)
  then have vm1: "\<not> VM_ISALLOCATED_PAGE s1 (page_of 0xD0001000)"
    by (simp add: s1_def mm_after_alloc_def pages.used_mark page_of_def)
  have step1: "mm_step s0 s1"
    using mm_alloc_one [OF vm0(1) low0, of 4096 0] by (intro mm_step.alloc [of 4096]) (auto simp: s1_def)
  have step2: "mm_step s1 s2"
    using mm_alloc_one [OF vm1 low1, of 4096 0] by (intro mm_step.alloc [of 4096]) (auto simp: s2_def)
  have reach: "mm_reachable s2" using s0(1) step1 step2 by (blast intro: mm_reachable.step)
  moreover have "owned s1 = insert 0xD0000000 (owned s0)" "owned s2 = insert 0xD0001000 (owned s1)"
    by (simp_all add: s1_def s2_def owned_after_alloc kernel_window_def page_of_def)
  ultimately show ?thesis using that mm_reachable_inv by blast
qed

text \<open>
  C1: page isolation. In every state reached from boot by requests for single pages and
  releases of pages in use, two different pages handed out are translated by the processor
  into two different frames, both above the first 64 MB that are set aside for the kernel, and both
  marked as used.
\<close>

theorem mm_isolation:
  assumes "mm_reachable s" "v \<in> owned s" "w \<in> owned s" "v \<noteq> w"
  shows "\<exists>f g. mmu_walk (mm_paging s) v = Some f \<and> mmu_walk (mm_paging s) w = Some g \<and>
     page_of f \<noteq> page_of g \<and> 16384 \<le> unat (page_of f) \<and> 16384 \<le> unat (page_of g) \<and>
     ISALLOCATED_PAGE s (page_of f) \<and> ISALLOCATED_PAGE s (page_of g)"
proof -
  have inv: "mm_inv s" using assms(1) by (rule mm_reachable_inv)
  then have "frame_at s v \<noteq> frame_at s w" using assms by (auto simp: mm_inv_def inj_on_def)
  then have "page_of (frame_at s v) \<noteq> page_of (frame_at s w)" by (simp add: frame_eq_iff)
  with inv assms owned_walk [OF inv] show ?thesis by (auto simp: mm_inv_def)
qed

theorem mm_isolation_witness:
  "\<exists>s. mm_reachable s \<and> (\<exists>f g. mmu_walk (mm_paging s) 0xD0000000 = Some f \<and>
     mmu_walk (mm_paging s) 0xD0001000 = Some g \<and> page_of f \<noteq> page_of g)"
proof -
  obtain s where "mm_reachable s" "0xD0000000 \<in> owned s" "0xD0001000 \<in> owned s"
    using boot_two_pages by blast
  with mm_isolation [of s "0xD0000000" "0xD0001000"] show ?thesis by auto
qed

text \<open>
  C2: a request for one page fails with SYS\_RET\_MEM\_ALLOC\_ERROR and changes nothing when the
  page is in use; otherwise it takes the lowest free frame, translates exactly that page to it
  and marks exactly the two; with no free frame left the search leaves the bitmap.
\<close>

theorem mm_alloc_behaviour:
  assumes "unat bytes < 8192" "pde_ok (mm_paging s)"
  shows "if VM_ISALLOCATED_PAGE s (page_of v) then mm_alloc v bytes fl s = Some (SYS_RET_MEM_ALLOC_ERROR, None, s)
     else if \<exists>f. lowest_free s f then
       (\<exists>f s'. lowest_free s f \<and> mm_alloc v bytes fl s = Some (SYS_RET_NO_ERROR, Some (page_of v * 4096), s') \<and>
          (\<forall>w. mmu_walk (mm_paging s') w =
             (if page_of w = page_of v then Some ((f * 4096) OR (w AND 0xFFF)) else mmu_walk (mm_paging s) w)) \<and>
          (\<forall>g. ISALLOCATED_PAGE s' g \<longleftrightarrow> g = f \<or> ISALLOCATED_PAGE s g) \<and>
          (\<forall>p. VM_ISALLOCATED_PAGE s' p \<longleftrightarrow> p = page_of v \<or> VM_ISALLOCATED_PAGE s p))
     else mm_alloc v bytes fl s = None"
proof (cases rule: mm_alloc_cases [OF assms(1), of v fl s])
  case (2 f)
  have f: "unat f < 1048576" using 2(2) by (simp add: lowest_free_def)
  have "mmu_walk (mm_paging (mm_after_alloc v f s)) w =
      (if page_of w = page_of v then Some ((f * 4096) OR (w AND 0xFFF)) else mmu_walk (mm_paging s) w)" for w
    using map_walk [OF assms(2), of "page_of v * 4096" "f * 4096" w] f
    by (simp add: mm_after_alloc_def page_aligned_mult)
  with 2 show ?thesis
    by (auto simp: mm_after_alloc_def frames.used_mark pages.used_mark)
next
  case 3
  then show ?thesis by (auto simp: lowest_free_def)
qed simp

theorem mm_alloc_behaviour_witness:
  "\<exists>s s'. lowest_free s 16384 \<and>
     mm_alloc 0xD0000000 4096 0 s = Some (SYS_RET_NO_ERROR, Some 0xD0000000, s')"
proof -
  obtain s where inv: "mm_inv s"
    and used: "\<forall>f. unat f < 1048576 \<longrightarrow> ISALLOCATED_PAGE s f \<longleftrightarrow> unat f < 16384 \<or> 49160 \<le> unat f"
    and vm: "\<forall>v. VM_ISALLOCATED_PAGE s (page_of v) \<longleftrightarrow> kernel_window v"
    using boot_run by blast
  have low: "lowest_free s 16384" using boot_lowest [OF used [rule_format]] by simp
  have free: "\<not> VM_ISALLOCATED_PAGE s (page_of 0xD0000000)" unfolding vm [rule_format] by (simp add: kernel_window_def page_of_def)
  have pde: "pde_ok (mm_paging s)" using inv by (simp add: mm_inv_def)
  have "unat (4096 :: u32) < 8192" by simp
  from mm_alloc_behaviour [OF this pde, of "0xD0000000" 0] low free
  obtain s' where "mm_alloc 0xD0000000 4096 0 s = Some (SYS_RET_NO_ERROR, Some (page_of 0xD0000000 * 4096), s')"
    by (auto simp only: if_False split: if_splits)
  moreover have "page_of 0xD0000000 * 4096 = 0xD0000000" by (simp add: page_of_def)
  ultimately show ?thesis using low by auto
qed

text \<open>
  C3: releasing a page just obtained gives back both bitmaps exactly as they were before the
  request, and the page is no longer translated while every other page is translated as before.
\<close>

theorem mm_alloc_free_roundtrip:
  assumes "unat bytes < 8192" "pde_ok (mm_paging s)"
    and "mm_alloc v bytes fl s = Some (SYS_RET_NO_ERROR, Some a, s')"
  shows "mm_page_alloc_bitmap (snd (mm_free a s')) = mm_page_alloc_bitmap s \<and>
     mm_vm_alloc_bitmap (snd (mm_free a s')) = mm_vm_alloc_bitmap s \<and>
     (\<forall>w. mmu_walk (mm_paging (snd (mm_free a s'))) w =
        (if page_of w = page_of v then None else mmu_walk (mm_paging s) w))"
proof (cases rule: mm_alloc_cases [OF assms(1), of v fl s])
  case (2 f)
  have f: "unat f < 1048576" "\<not> ISALLOCATED_PAGE s f" using 2(2) by (auto simp: lowest_free_def)
  from 2(3) assms(3) have a: "a = page_of v * 4096" and s': "s' = mm_after_alloc v f s" by simp_all
  have pa: "page_of a = page_of v" by (simp add: a)
  have frame: "page_of (frame_at s' a) = f"
    using f(1) by (simp add: s' a frame_after_alloc page_of_mult)
  have eq: "mm_free a s' = (SYS_RET_NO_ERROR, VM_UNALLOC_PAGE (page_of v) (UNALLOC_PAGE f
      (s'\<lparr>mm_paging := snd (arch_paging_unmap a (mm_paging s'))\<rparr>)))"
    using mm_free_eq [of a s'] frame by (simp add: a)
  have pde: "pde_ok (mm_paging s')" using assms(2) by (simp add: s' mm_after_alloc_def pde_ok_map)
  have walk: "mmu_walk (mm_paging s') w =
      (if page_of w = page_of v then Some ((f * 4096) OR (w AND 0xFFF)) else mmu_walk (mm_paging s) w)" for w
    using map_walk [OF assms(2), of "page_of v * 4096" "f * 4096" w] f
    by (simp add: s' mm_after_alloc_def page_aligned_mult)
  have "mmu_walk (mm_paging (snd (mm_free a s'))) w =
        (if page_of w = page_of v then None else mmu_walk (mm_paging s) w)" for w
    unfolding eq using pde by (simp add: unmap_walk walk pa)
  moreover have "bit_array_clear (bit_array_set (mm_page_alloc_bitmap s) f) f = mm_page_alloc_bitmap s"
    "bit_array_clear (bit_array_set (mm_vm_alloc_bitmap s) (page_of v)) (page_of v) = mm_vm_alloc_bitmap s"
    using f(2) 2(1) by (simp_all add: bit_array_clear_set ISALLOCATED_PAGE_def VM_ISALLOCATED_PAGE_def)
  ultimately show ?thesis
    unfolding eq by (simp add: s' mm_after_alloc_def VM_UNALLOC_PAGE_def UNALLOC_PAGE_def VM_ALLOC_PAGE_def ALLOC_PAGE_def)
qed (use assms(3) in auto)

theorem mm_alloc_free_roundtrip_witness:
  "\<exists>s s'. mm_reachable s \<and> mm_alloc 0xD0000000 4096 0 s = Some (SYS_RET_NO_ERROR, Some 0xD0000000, s') \<and>
     mm_page_alloc_bitmap (snd (mm_free 0xD0000000 s')) = mm_page_alloc_bitmap s"
proof -
  obtain s where s: "mm_inv s" "mm_reachable s"
    and used: "\<forall>f. unat f < 1048576 \<longrightarrow> ISALLOCATED_PAGE s f = (unat f < 16384 \<or> 49160 \<le> unat f)"
    and vm: "\<forall>v. VM_ISALLOCATED_PAGE s (page_of v) = kernel_window v"
    using boot_run by blast
  have low: "lowest_free s 16384" using boot_lowest [OF used [rule_format]] by simp
  have "\<not> VM_ISALLOCATED_PAGE s (page_of 0xD0000000)"
    unfolding vm [rule_format] by (simp add: kernel_window_def page_of_def)
  from mm_alloc_one [OF this low, of 4096 0]
  have al: "mm_alloc 0xD0000000 4096 0 s = Some (SYS_RET_NO_ERROR, Some 0xD0000000, mm_after_alloc 0xD0000000 16384 s)"
    by (simp add: page_of_def)
  moreover have "pde_ok (mm_paging s)" using s(1) by (simp add: mm_inv_def)
  ultimately show ?thesis
    using s(2) mm_alloc_free_roundtrip [OF _ _ al] by (intro exI [of _ s] exI) auto
qed

text \<open>
  The search for a frame returns the address of the lowest free frame; SYS\_RET\_NOT\_FOUND is
  never returned, and with every frame in use the search reads past the end of the bitmap.
\<close>

theorem mm_find_empty_block_lowest:
  "mm_find_empty_block_physical s =
     (if \<exists>f. unat f < 1048576 \<and> \<not> ISALLOCATED_PAGE s f
      then Some (SYS_RET_NO_ERROR, Some (of_nat (LEAST p. \<not> ISALLOCATED_PAGE s (of_nat p)) * 4096))
      else None)"
proof (cases rule: mm_find_cases [of s])
  case (1 f)
  have "(LEAST p. \<not> ISALLOCATED_PAGE s (of_nat p)) = unat f"
  proof (rule Least_equality)
    show "\<not> ISALLOCATED_PAGE s (of_nat (unat f))" using 1 by (simp add: lowest_free_def)
  next
    fix p assume "\<not> ISALLOCATED_PAGE s (of_nat p)"
    with 1 have "\<not> unat (of_nat p :: u32) < unat f" by (auto simp: lowest_free_def)
    then show "unat f \<le> p" using mod_less_eq_dividend [of p "2 ^ LENGTH(32)"] by (simp add: unat_of_nat)
  qed
  with 1 show ?thesis by (auto simp: lowest_free_def)
next
  case 2
  then show ?thesis by auto
qed

text \<open>
  What an available region leaves in the frame bitmap, bit by bit. With \<open>b\<close> its first page
  and \<open>e\<close> the page after its last one, the pages between are free except in the two border bytes:
  in the byte of \<open>e\<close> the pages before \<open>e\<close> are marked used and the pages from \<open>e\<close> on,
  which lie outside the region, are marked free.
\<close>

theorem mm_init_available_exact:
  assumes "unat (mmap_base entry) div 4096 = b" "b + unat (mmap_len entry) div 4096 = e" "e < 1048568"
  shows "\<exists>bm'. mm_init_available entry bm = Some bm' \<and>
     (\<forall>p. bit (bm' (p div 8)) (p mod 8) =
        (if p div 8 < b div 8 \<or> e div 8 < p div 8 then bit (bm (p div 8)) (p mod 8)
         else if p div 8 = e div 8 then p mod 8 < e mod 8
         else p div 8 = b div 8 \<and> p mod 8 < b mod 8))"
  using mm_init_available_spec [OF assms(1) refl, of bm] assms(2,3)
  by (simp add: available_bit_def)

theorem mm_init_available_exact_witness:
  "\<exists>bm'. mm_init_available \<lparr>mmap_size = 20, mmap_base = 0x100000, mmap_len = 0x3000, mmap_type = 1\<rparr> (\<lambda>_. 0xFF) = Some bm' \<and>
     bit (bm' (0x102 div 8)) (0x102 mod 8) \<and> \<not> bit (bm' (0x103 div 8)) (0x103 mod 8)"
proof -
  let ?e = "\<lparr>mmap_size = 20, mmap_base = 0x100000, mmap_len = 0x3000, mmap_type = 1\<rparr>"
  from mm_init_available_exact [where entry = ?e and b = "0x100" and e = "0x103" and bm = "\<lambda>_. 0xFF"]
  obtain bm' where bm': "mm_init_available ?e (\<lambda>_. 0xFF) = Some bm'"
    and bits: "\<forall>p. bit (bm' (p div 8)) (p mod 8) =
        (if p div 8 < 0x100 div 8 \<or> 0x103 div 8 < p div 8 then bit (0xFF :: u8) (p mod 8)
         else if p div 8 = 0x103 div 8 then p mod 8 < 0x103 mod 8
         else p div 8 = 0x100 div 8 \<and> p mod 8 < 0x100 mod 8)" by auto
  show ?thesis using bm' bits [rule_format, of "0x102"] bits [rule_format, of "0x103"] by simp
qed

text \<open>
  C5: initialisation returns for every memory map of which the entries that the loop reads, one for each 24 bytes of its
  length, describe regions that end below the last 32 KB of the address space, whatever lies elsewhere in memory.
  The count it stores is the number of clear bits of the frame bitmap, and the first 64 MB are marked used.
\<close>

theorem mm_init_returns:
  assumes "\<forall>n. 24 * n < unat (mmap_length info) \<longrightarrow>
        unat (mmap_base (entry_at (map_entry_addr entry_at (mmap_addr info) n))) +
        unat (mmap_len (entry_at (map_entry_addr entry_at (mmap_addr info) n))) < 0xFFFF8000"
    and "unat (mmap_length info) < 0xFFFFFFE0" "bit (flags info) 6"
  shows "\<exists>s'. mm_init info entry_at s = Some (SYS_RET_NO_ERROR, s') \<and>
     mm_available_block_count s' =
       of_nat (card {p. p < 1048576 \<and> \<not> bit (mm_page_alloc_bitmap s' (p div 8)) (p mod 8)}) \<and>
     (\<forall>f. unat f < 16384 \<longrightarrow> ISALLOCATED_PAGE s' f)"
proof -
  let ?bm0 = "for_update 0 0 bitmap_bytes (\<lambda>_ _. 0xFF) (mm_page_alloc_bitmap s)"
  obtain bm1 where "mm_init_entries entry_at 0 (mmap_length info) (mmap_addr info) ?bm0 = Some bm1"
    using mm_init_entries_total [of "mmap_length info" 0 entry_at "mmap_addr info" ?bm0] assms(1,2)
    by (auto simp: entry_in_range_def)
  moreover have "drop_bit 6 (flags info) AND 1 \<noteq> 0"
    using assms(3) and_mask_zero_iff [of "drop_bit 6 (flags info)" 0] by (simp add: bit_drop_bit_eq)
  ultimately obtain s' where init: "mm_init info entry_at s = Some (SYS_RET_NO_ERROR, s')"
    by (simp add: mm_init_def Let_def)
  have "ISALLOCATED_PAGE s' f" if "unat f < 16384" for f
    using that mm_init_result(1) [OF init] bit_array_test_split [of f "unat f div 8" "unat f mod 8"]
    by (auto simp: ISALLOCATED_PAGE_def)
  moreover note mm_init_result(4) [OF init]
  ultimately show ?thesis using init by (simp add: mm_count_available_eq free_pages_def)
qed

text \<open>A map of two entries in a memory that looks like a region without an end everywhere else.\<close>

definition two_entries_at :: "u32 \<Rightarrow> multiboot_mmap_entry" where
  "two_entries_at a =
     (if a = 0x9000 then \<lparr>mmap_size = 20, mmap_base = 0x4000000, mmap_len = 0x8000000, mmap_type = 1\<rparr>
      else if a = 0x9018 then \<lparr>mmap_size = 20, mmap_base = 0xFD000000, mmap_len = 0x1000000, mmap_type = 2\<rparr>
      else \<lparr>mmap_size = 0xFFFFFFFF, mmap_base = 0xFFFFFFFFFFFFFFFF, mmap_len = 0xFFFFFFFFFFFFFFFF, mmap_type = 1\<rparr>)"

theorem mm_init_returns_witness:
  "\<exists>s'. mm_init \<lparr>flags = 0x40, mmap_length = 48, mmap_addr = 0x9000\<rparr> two_entries_at boot_state = Some (SYS_RET_NO_ERROR, s') \<and>
     ISALLOCATED_PAGE s' 100"
proof -
  let ?info = "\<lparr>flags = 0x40, mmap_length = 48, mmap_addr = 0x9000\<rparr>"
  have "bit (0x40 :: u32) 6" using bit_exp_iff [where ?'a = u32, of 6 6] by simp
  then have flag: "bit (flags ?info) 6" by simp
  have small: "\<forall>n. 24 * n < unat (mmap_length ?info) \<longrightarrow>
      unat (mmap_base (two_entries_at (map_entry_addr two_entries_at (mmap_addr ?info) n))) +
      unat (mmap_len (two_entries_at (map_entry_addr two_entries_at (mmap_addr ?info) n))) < 0xFFFF8000"
  proof (intro allI impI)
    fix n assume "24 * n < unat (mmap_length ?info)"
    then have "n = 0 \<or> n = Suc 0" by auto
    then show "unat (mmap_base (two_entries_at (map_entry_addr two_entries_at (mmap_addr ?info) n))) +
      unat (mmap_len (two_entries_at (map_entry_addr two_entries_at (mmap_addr ?info) n))) < 0xFFFF8000"
      by (auto simp: two_entries_at_def)
  qed
  have "unat (mmap_length ?info) < 0xFFFFFFE0" by simp
  from mm_init_returns [where info = ?info and entry_at = two_entries_at and s = boot_state, OF small this flag] show ?thesis by auto
qed

lemma mm_map_blocks_two:
  "mm_map_blocks vb j 2 ps =
     arch_paging_map (vb * 4096 + 4096) (j * 4096 + 4096) (snd (arch_paging_map (vb * 4096) (j * 4096) ps))"
proof -
  have "[0..<unat (2 :: u32)] = [0, 1]" by (simp add: upt_rec)
  then show ?thesis by (simp add: mm_map_blocks_def split: prod.splits)
qed

lemma unat_succ: "unat f + 1 < 1048576 \<Longrightarrow> unat (f + 1 :: u32) = unat f + 1"
  by (simp add: unat_word_ariths)

text \<open>
  A request for two pages marks only the first of the two frames it maps, so the next
  request for a page is given the second frame as well: two pages of different owners are translated
  into the same frame.
\<close>

theorem mm_alloc_two_pages_aliases:
  assumes "pde_ok (mm_paging s)" "lowest_free s f" "unat f + 1 < 1048576" "\<not> ISALLOCATED_PAGE s (f + 1)"
    and "\<not> VM_ISALLOCATED_PAGE s (page_of v)" "\<not> VM_ISALLOCATED_PAGE s (page_of w)"
    and "page_of w \<noteq> page_of v" "page_of w \<noteq> page_of (page_of v * 4096 + 4096)"
  shows "\<exists>s1 s2 a b. mm_alloc v 8192 fl s = Some (SYS_RET_NO_ERROR, Some a, s1) \<and>
     mm_alloc w 4096 fl s1 = Some (SYS_RET_NO_ERROR, Some b, s2) \<and>
     mmu_walk (mm_paging s2) (a + 4096) = Some ((f + 1) * 4096) \<and>
     mmu_walk (mm_paging s2) b = Some ((f + 1) * 4096)"
proof -
  let ?v = "page_of v * 4096" and ?w = "page_of w * 4096"
  define ps where "ps = snd (arch_paging_map (?v + 4096) (f * 4096 + 4096) (snd (arch_paging_map ?v (f * 4096) (mm_paging s))))"
  define s1 where "s1 = VM_ALLOC_PAGE (page_of v) (ALLOC_PAGE f (s\<lparr>mm_paging := ps\<rparr>))"
  have f: "unat f < 1048576" "page_of (f * 4096) = f" using assms(2) by (simp_all add: lowest_free_def page_of_mult)
  have blocks: "mm_map_blocks (page_of v) f 2 (mm_paging s) = (SYS_RET_NO_ERROR, ps)"
    unfolding mm_map_blocks_two ps_def by (rule arch_paging_map_ok)
  have p2: "page_of 8192 = 2" by (simp add: page_of_def)
  have one: "mm_alloc v 8192 fl s = Some (SYS_RET_NO_ERROR, Some ?v, s1)"
    using assms(5) blocks f(2)
    by (simp add: mm_alloc_def Let_def mm_find_Some [OF assms(2)] s1_def p2 flip: page_of_def)
  have succ: "unat (f + 1) = unat f + 1" using assms(3) by (rule unat_succ)
  have "lowest_free s1 (f + 1)"
    using assms(2-4) unfolding lowest_free_def succ
    by (auto simp: s1_def frames.used_mark succ word_unat_eq_iff less_Suc_eq)
  moreover have "\<not> VM_ISALLOCATED_PAGE s1 (page_of w)"
    using assms(6,7) by (simp add: s1_def pages.used_mark)
  ultimately have two: "mm_alloc w 4096 fl s1 = Some (SYS_RET_NO_ERROR, Some ?w, mm_after_alloc w (f + 1) s1)"
    by (intro mm_alloc_one) simp_all
  have pde: "pde_ok ps" "pde_ok (snd (arch_paging_map ?v (f * 4096) (mm_paging s)))"
    using assms(1) by (simp_all add: ps_def pde_ok_map)
  define g where "g = f + 1"
  have al: "g * 4096 AND - 4096 = g * 4096"
    unfolding g_def by (rule page_aligned_mult) (use assms(3) succ in simp)
  have sum: "f * 4096 + 4096 = g * 4096" by (simp add: g_def distrib_right)
  have off: "page_of x * 4096 AND 0xFFF = 0" for x
    unfolding page_base_eq by (rule bit_word_eqI) (auto simp: entry_bits)
  have "?v + 4096 = page_of (?v + 4096) * 4096"
  proof -
    have "?v + 4096 = (page_of v + 1) * 4096" by (simp add: algebra_simps)
    moreover have "(page_of v + 1) * 4096 AND - 4096 = (page_of v + 1) * 4096"
      by (rule bit_word_eqI) (use bit_page_base [of "unat (page_of v + 1)"] in \<open>auto simp: entry_bits\<close>)
    ultimately show ?thesis by (simp add: page_base_eq)
  qed
  then have off': "(?v + 4096) AND 0xFFF = 0" by (metis off)
  have "mmu_walk (mm_paging (mm_after_alloc w g s1)) (?v + 4096) = Some (g * 4096)"
    using assms(8) pde by (simp add: mm_after_alloc_def map_walk s1_def ps_def off' al sum)
  moreover have "mmu_walk (mm_paging (mm_after_alloc w g s1)) ?w = Some (g * 4096)"
    using pde by (simp add: mm_after_alloc_def map_walk s1_def off al flip: g_def)
  ultimately show ?thesis using one two unfolding g_def by blast
qed

theorem mm_alloc_two_pages_aliases_witness:
  "\<exists>s s1 s2 a b. mm_reachable s \<and> mm_alloc 0xCFF00000 8192 0 s = Some (SYS_RET_NO_ERROR, Some a, s1) \<and>
     mm_alloc 0x10000000 4096 0 s1 = Some (SYS_RET_NO_ERROR, Some b, s2) \<and>
     mmu_walk (mm_paging s2) (a + 4096) = mmu_walk (mm_paging s2) b"
proof -
  obtain s where s: "mm_inv s" "mm_reachable s"
    and used: "\<forall>f. unat f < 1048576 \<longrightarrow> ISALLOCATED_PAGE s f = (unat f < 16384 \<or> 49160 \<le> unat f)"
    and vm: "\<forall>v. VM_ISALLOCATED_PAGE s (page_of v) = kernel_window v"
    using boot_run by blast
  have low: "lowest_free s 16384" using boot_lowest [OF used [rule_format]] by simp
  have pde: "pde_ok (mm_paging s)" using s(1) by (simp add: mm_inv_def)
  have "\<not> VM_ISALLOCATED_PAGE s (page_of 0xCFF00000)" "\<not> VM_ISALLOCATED_PAGE s (page_of 0x10000000)"
    unfolding vm [rule_format] by (simp_all add: kernel_window_def page_of_def)
  with mm_alloc_two_pages_aliases [OF pde low, of "0xCFF00000" "0x10000000" 0]
  show ?thesis using s(2) used [rule_format, of 16385] by (fastforce simp: page_of_def)
qed

end
