(* ===== verification/Buddy.thy ===== *)
theory Buddy
  imports BinaryTree BlockTree Mm
begin

text \<open>
  The allocator of user memory, \<^verbatim>\<open>src/kernel/mm/buddy_allocator.c\<close>: a binary tree of blocks,
  kept in an arena of 20 MB at 0xC8000000, whose root is the range from 0x10000000 to
  0x90000000. A block is split in halves until one of a suitable size is found; its pages are then
  requested from the page manager.

  The arena is seen through its types: chunk headers, tree nodes and block descriptions, at the
  addresses where the code puts them. A chunk takes 40 bytes on i686: a header of two words, a node
  of 20 bytes and a description of 12. Reading or writing a header outside
  the arena is undefined.
\<close>

section \<open>State\<close>

record alloc_info =
  vaddr :: u32
  info_len :: u32
  is_allocated :: bool

record chunk_header =
  chunk_used :: bool
  chunk_size :: u32

record buddy_state =
  buddy_mm :: mm_state
  buddy_headers :: "u32 \<Rightarrow> chunk_header"
  buddy_nodes :: node_heap
  buddy_infos :: "u32 \<Rightarrow> alloc_info"
  buddy_root :: u32

definition tree_location :: u32 where "tree_location = 0xC8000000"
definition tree_area_size :: u32 where "tree_area_size = 20 * 1024 * 1024"
definition MIN_MEM_SPLIT :: u32 where "MIN_MEM_SPLIT = 4 * 1024"

text \<open>\<^verbatim>\<open>sizeof(binary_tree_node_t) + sizeof(buddy_allocator__alloc_info_t) + 8\<close> and
  \<^verbatim>\<open>sizeof(binary_tree_t) + 8\<close>.\<close>

definition node_chunk :: u32 where "node_chunk = 20 + 12 + 8"
definition tree_chunk :: u32 where "tree_chunk = 8 + 8"

definition header_at :: "buddy_state \<Rightarrow> u32 \<Rightarrow> chunk_header option" where
  "header_at s p = (if p - tree_location < tree_area_size then Some (buddy_headers s p) else None)"

section \<open>Nodes from the arena\<close>

text \<open>The walk over the chunks: \<open>Some (Some p)\<close> is a free chunk, \<open>Some None\<close> the end of the arena.\<close>

partial_function (option) alloc_node_search :: "buddy_state \<Rightarrow> u32 \<Rightarrow> u32 option option" where
  "alloc_node_search s ptr = do {
     hd \<leftarrow> header_at s ptr;
     if \<not> chunk_used hd \<and> chunk_size hd \<ge> node_chunk then Some (Some ptr)
     else if ptr + chunk_size hd - tree_location > tree_area_size then Some None
     else alloc_node_search s (ptr + chunk_size hd)
   }"

definition buddy_allocator__alloc_node :: "buddy_state \<Rightarrow> (SYS_RET \<times> u32 option \<times> buddy_state) option" where
  "buddy_allocator__alloc_node s = do {
     found \<leftarrow> alloc_node_search s tree_location;
     case found of
       None \<Rightarrow> Some (SYS_RET_UNAVAILABLE, None, s)
     | Some ptr \<Rightarrow>
         (let old_size = chunk_size (buddy_headers s ptr);
              hs1 = (buddy_headers s)(ptr := \<lparr>chunk_used = True, chunk_size = node_chunk\<rparr>);
              next_block_ptr = ptr + node_chunk;
              hs2 = hs1(next_block_ptr := \<lparr>chunk_used = False, chunk_size = old_size - node_chunk\<rparr>);
              new_node = ptr + 8;
              new_alloc_info = ptr + 8 + 20
          in if next_block_ptr - tree_location < tree_area_size then
             Some (SYS_RET_NO_ERROR, Some new_node,
               s\<lparr>buddy_headers := hs2,
                 buddy_nodes := (buddy_nodes s)(new_node \<mapsto>
                   \<lparr>node_left = 0, node_right = 0, node_parent = 0, node_value = new_alloc_info,
                    is_left = False, is_right = False\<rparr>),
                 buddy_infos := (buddy_infos s)(new_alloc_info :=
                   (buddy_infos s new_alloc_info)\<lparr>is_allocated := False\<rparr>)\<rparr>)
             else None)
   }"

definition info_of :: "buddy_state \<Rightarrow> u32 \<Rightarrow> alloc_info option" where
  "info_of s node = do {
     n \<leftarrow> buddy_nodes s node;
     Some (buddy_infos s (node_value n))
   }"

definition set_info :: "u32 \<Rightarrow> (alloc_info \<Rightarrow> alloc_info) \<Rightarrow> buddy_state \<Rightarrow> buddy_state option" where
  "set_info node f s = do {
     n \<leftarrow> buddy_nodes s node;
     Some (s\<lparr>buddy_infos := (buddy_infos s)(node_value n := f (buddy_infos s (node_value n)))\<rparr>)
   }"

definition set_node :: "u32 \<Rightarrow> (binary_tree_node \<Rightarrow> binary_tree_node) \<Rightarrow> buddy_state \<Rightarrow> buddy_state option" where
  "set_node node f s = do {
     h \<leftarrow> node_upd node f (buddy_nodes s);
     Some (s\<lparr>buddy_nodes := h\<rparr>)
   }"

definition buddy_allocator__split_node :: "u32 \<Rightarrow> buddy_state \<Rightarrow> (SYS_RET \<times> buddy_state) option" where
  "buddy_allocator__split_node node s = do {
     parent \<leftarrow> info_of s node;
     if info_len parent \<le> MIN_MEM_SPLIT then Some (SYS_RET_OUT_OF_RANGE, s)
     else do {
       (ret, left_out, s1) \<leftarrow> buddy_allocator__alloc_node s;
       if ret \<noteq> SYS_RET_NO_ERROR then Some (ret, s1)
       else do {
         (ret, right_out, s2) \<leftarrow> buddy_allocator__alloc_node s1;
         if ret \<noteq> SYS_RET_NO_ERROR then Some (ret, s2)
         else do {
           left \<leftarrow> left_out;
           right \<leftarrow> right_out;
           s3 \<leftarrow> set_info left (\<lambda>i. i\<lparr>vaddr := vaddr parent\<rparr>) s2;
           s4 \<leftarrow> set_info right (\<lambda>i. i\<lparr>vaddr := vaddr parent + info_len parent div 2\<rparr>) s3;
           il \<leftarrow> info_of s4 left;
           ir \<leftarrow> info_of s4 right;
           s5 \<leftarrow> set_info left (\<lambda>i. i\<lparr>info_len := vaddr ir - vaddr il\<rparr>) s4;
           s6 \<leftarrow> set_info right (\<lambda>i. i\<lparr>info_len := vaddr parent + info_len parent - vaddr ir\<rparr>) s5;
           s7 \<leftarrow> set_info left (\<lambda>i. i\<lparr>is_allocated := False\<rparr>) s6;
           s8 \<leftarrow> set_info right (\<lambda>i. i\<lparr>is_allocated := False\<rparr>) s7;
           s9 \<leftarrow> set_node left (\<lambda>n. n\<lparr>is_left := True\<rparr>) s8;
           s10 \<leftarrow> set_node right (\<lambda>n. n\<lparr>is_right := True\<rparr>) s9;
           s11 \<leftarrow> set_node node (\<lambda>n. n\<lparr>node_left := left\<rparr>) s10;
           s12 \<leftarrow> set_node node (\<lambda>n. n\<lparr>node_right := right\<rparr>) s11;
           Some (ret, s12)
         }
       }
     }
   }"

section \<open>The search for a block\<close>

text \<open>
  The second component is the node stored through \<^verbatim>\<open>out_node\<close>, if one is stored. A caller's variable
  keeps its value when nothing is stored.
\<close>

definition found_ok :: "SYS_RET \<Rightarrow> u32 \<Rightarrow> buddy_state \<Rightarrow> bool option" where
  "found_ok ret found_node s =
     (if found_node \<noteq> 0 then do {
        i \<leftarrow> info_of s found_node;
        Some (ret = SYS_RET_NO_ERROR \<and> \<not> is_allocated i)
      } else Some False)"

partial_function (option) buddy_allocator__find_space ::
  "u32 \<Rightarrow> u32 \<Rightarrow> buddy_state \<Rightarrow> (SYS_RET \<times> u32 option \<times> buddy_state) option" where
  "buddy_allocator__find_space len node s = do {
     cur \<leftarrow> info_of s node;
     n \<leftarrow> buddy_nodes s node;
     let leaf = (node_left n = 0 \<and> node_right n = 0);
     if is_allocated cur then Some (SYS_RET_NOT_FOUND, None, s)
     else if info_len cur > 2 * len \<and> info_len cur < 4 * len then
       (if leaf then Some (SYS_RET_NO_ERROR, Some node, s) else Some (SYS_RET_NOT_FOUND, None, s))
     else if leaf \<and> info_len cur \<le> MIN_MEM_SPLIT then Some (SYS_RET_NO_ERROR, Some node, s)
     else do {
       (ret, s1) \<leftarrow> (if leaf then buddy_allocator__split_node node s else Some (SYS_RET_NO_ERROR, s));
       if ret \<noteq> SYS_RET_NO_ERROR then Some (ret, None, s1)
       else do {
         n1 \<leftarrow> buddy_nodes s1 node;
         (ret_l, out_l, s2) \<leftarrow> buddy_allocator__find_space len (node_left n1) s1;
         let found_l = (case out_l of None \<Rightarrow> 0 | Some q \<Rightarrow> q);
         ok_l \<leftarrow> found_ok ret_l found_l s2;
         if ok_l then Some (ret_l, Some found_l, s2)
         else do {
           n2 \<leftarrow> buddy_nodes s2 node;
           (ret_r, out_r, s3) \<leftarrow> buddy_allocator__find_space len (node_right n2) s2;
           let found_r = (case out_r of None \<Rightarrow> found_l | Some q \<Rightarrow> q);
           ok_r \<leftarrow> found_ok ret_r found_r s3;
           if ok_r then Some (ret_r, Some found_r, s3)
           else Some (SYS_RET_NOT_FOUND, None, s3)
         }
       }
     }
   }"

section \<open>Allocation, release and initialisation\<close>

text \<open>
  The page loop of \<^verbatim>\<open>buddy_allocator__alloc\<close>; its counter has 64 bits, and the conversion of a pointer
  to it sign-extends. The result is the first error, or no error, with the manager's state.
\<close>

partial_function (option) map_pages :: "u64 \<Rightarrow> u64 \<Rightarrow> mm_state \<Rightarrow> (SYS_RET \<times> mm_state) option" where
  "map_pages i limit m =
     (if i < limit then do {
        (ret, out, m1) \<leftarrow> mm_alloc (ucast i) 4096 0 m;
        if ret \<noteq> SYS_RET_NO_ERROR then Some (ret, m1) else map_pages (i + 4096) limit m1
      } else Some (SYS_RET_NO_ERROR, m))"

definition buddy_allocator__alloc :: "u32 \<Rightarrow> buddy_state \<Rightarrow> (SYS_RET \<times> u32 option \<times> buddy_state) option" where
  "buddy_allocator__alloc len s = do {
     let rem_mem = mm_available_block_count (buddy_mm s) * 4096;
     if len > rem_mem then Some (SYS_RET_MEM_ALLOC_ERROR, None, s)
     else do {
       (ret, out, s1) \<leftarrow> buddy_allocator__find_space len (buddy_root s) s;
       if ret \<noteq> SYS_RET_NO_ERROR then Some (ret, None, s1)
       else do {
         node \<leftarrow> out;
         info \<leftarrow> info_of s1 node;
         let base = (scast (vaddr info) :: u64);
         (ret, m) \<leftarrow> map_pages base (base + ucast (info_len info)) (buddy_mm s1);
         let s2 = s1\<lparr>buddy_mm := m\<rparr>;
         if ret \<noteq> SYS_RET_NO_ERROR then Some (ret, None, s2)
         else do {
           s3 \<leftarrow> set_info node (\<lambda>i. i\<lparr>is_allocated := True\<rparr>) s2;
           Some (SYS_RET_NO_ERROR, Some (vaddr info), s3)
         }
       }
     }
   }"

text \<open>
  The descent of \<^verbatim>\<open>buddy_allocator__free\<close> compares with the description of the root at every step.
  \<open>Some True\<close>: the loop ends; \<open>Some False\<close>: a null link was reached.
\<close>

partial_function (option) free_descent :: "buddy_state \<Rightarrow> alloc_info \<Rightarrow> u32 \<Rightarrow> u32 \<Rightarrow> bool option" where
  "free_descent s info addr node =
     (if vaddr info \<noteq> addr then do {
        n \<leftarrow> buddy_nodes s node;
        let node' = (if vaddr info < addr then node_right n else node_left n);
        if node' = 0 then Some False else free_descent s info addr node'
      } else Some True)"

partial_function (option) unmap_pages :: "u32 \<Rightarrow> u32 \<Rightarrow> mm_state \<Rightarrow> mm_state option" where
  "unmap_pages i limit m =
     (if i < limit then unmap_pages (i + 4096) limit (snd (mm_free i m)) else Some m)"

definition buddy_allocator__free :: "u32 \<Rightarrow> buddy_state \<Rightarrow> (SYS_RET \<times> buddy_state) option" where
  "buddy_allocator__free addr s = do {
     info \<leftarrow> info_of s (buddy_root s);
     at_root \<leftarrow> free_descent s info addr (buddy_root s);
     if \<not> at_root then Some (SYS_RET_NOT_FOUND, s)
     else do {
       m \<leftarrow> unmap_pages (vaddr info) (vaddr info + info_len info) (buddy_mm s);
       s1 \<leftarrow> set_info (buddy_root s) (\<lambda>i. i\<lparr>is_allocated := False\<rparr>) (s\<lparr>buddy_mm := m\<rparr>);
       Some (SYS_RET_NO_ERROR, s1)
     }
   }"

text \<open>The pages of the arena; an error makes the kernel spin for ever.\<close>

primrec arena_pages :: "nat \<Rightarrow> nat \<Rightarrow> mm_state \<Rightarrow> mm_state option" where
  "arena_pages i 0 m = Some m"
| "arena_pages i (Suc n) m = do {
     (ret, out, m1) \<leftarrow> mm_alloc (0xC8000000 + of_nat i * 4096) 4096 0 m;
     if ret \<noteq> SYS_RET_NO_ERROR then None else arena_pages (i + 1) n m1
   }"

definition buddy_allocator__init :: "buddy_state \<Rightarrow> (SYS_RET \<times> buddy_state) option" where
  "buddy_allocator__init s = do {
     m \<leftarrow> arena_pages 0 (unat (tree_area_size div 4096)) (buddy_mm s);
     let hs1 = (buddy_headers s)(tree_location := \<lparr>chunk_used = True, chunk_size = tree_chunk\<rparr>);
     let hs2 = hs1(tree_location + tree_chunk :=
                 \<lparr>chunk_used = False, chunk_size = tree_area_size - tree_chunk\<rparr>);
     (ret, out, s1) \<leftarrow> buddy_allocator__alloc_node (s\<lparr>buddy_mm := m, buddy_headers := hs2\<rparr>);
     if ret \<noteq> SYS_RET_NO_ERROR then Some (ret, s1)
     else do {
       root \<leftarrow> out;
       s2 \<leftarrow> set_info root (\<lambda>i. i\<lparr>info_len := 0x90000000 - 0x10000000, vaddr := 0x10000000,
                                 is_allocated := False\<rparr>) s1;
       Some (SYS_RET_NO_ERROR, s2\<lparr>buddy_root := root\<rparr>)
     }
   }"

section \<open>The arena\<close>

text \<open>Chunk \<open>k\<close> of the arena and the node inside it.\<close>

definition chunk_addr :: "nat \<Rightarrow> u32" where
  "chunk_addr k = tree_location + tree_chunk + of_nat k * node_chunk"

definition node_addr :: "nat \<Rightarrow> u32" where
  "node_addr k = chunk_addr k + 8"

abbreviation max_nodes :: nat where
  "max_nodes \<equiv> 524287"

lemma unat_chunk: "k \<le> max_nodes \<Longrightarrow> unat (chunk_addr k) = 3355443216 + 40 * k"
proof -
  assume k: "k \<le> max_nodes"
  have "unat (of_nat k * 40 :: u32) = 40 * k" using k by (simp add: unat_word_ariths unat_of_nat)
  moreover have "chunk_addr k = 3355443216 + of_nat k * 40"
    by (simp add: chunk_addr_def tree_location_def tree_chunk_def node_chunk_def)
  ultimately show ?thesis using k by (simp only: unat_add_lem [THEN iffD1]) (simp add: unat_word_ariths)
qed

lemma chunk_eq_iff [simp]: "j \<le> max_nodes \<Longrightarrow> k \<le> max_nodes \<Longrightarrow> chunk_addr j = chunk_addr k \<longleftrightarrow> j = k"
  by (auto dest!: arg_cong [of _ _ unat] simp: unat_chunk)

lemma node_eq_iff [simp]: "j \<le> max_nodes \<Longrightarrow> k \<le> max_nodes \<Longrightarrow> node_addr j = node_addr k \<longleftrightarrow> j = k"
  by (simp add: node_addr_def)

lemma chunk_not_root [simp]: "k \<le> max_nodes \<Longrightarrow> chunk_addr k \<noteq> tree_location"
  by (auto dest!: arg_cong [of _ _ unat] simp: unat_chunk tree_location_def)

lemmas root_not_chunk [simp] = chunk_not_root [symmetric]

lemma unat_node: "k \<le> max_nodes \<Longrightarrow> unat (node_addr k) = 3355443224 + 40 * k"
  using unat_chunk [of k] by (simp add: node_addr_def unat_word_ariths)

lemma node_not_null [simp]: "k \<le> max_nodes \<Longrightarrow> node_addr k \<noteq> 0"
  using unat_node [of k] by (auto dest: arg_cong [of _ _ unat])

lemma chunk_next: "chunk_addr k + node_chunk = chunk_addr (Suc k)"
  by (simp add: chunk_addr_def algebra_simps)

lemma chunk_offset: "k \<le> max_nodes \<Longrightarrow> unat (chunk_addr k - tree_location) = 16 + 40 * k"
proof -
  assume k: "k \<le> max_nodes"
  have "tree_location \<le> chunk_addr k" using unat_chunk [OF k] by (simp add: word_le_nat_alt tree_location_def)
  then show ?thesis using unat_chunk [OF k] by (simp add: unat_sub tree_location_def)
qed

lemma chunk_inside: "k \<le> max_nodes \<Longrightarrow> chunk_addr k - tree_location < tree_area_size"
  using chunk_offset [of k] by (simp add: word_less_nat_alt tree_area_size_def)

definition arena_ok :: "buddy_state \<Rightarrow> nat \<Rightarrow> bool" where
  "arena_ok s k \<longleftrightarrow> k \<le> max_nodes \<and>
     buddy_headers s tree_location = \<lparr>chunk_used = True, chunk_size = tree_chunk\<rparr> \<and>
     (\<forall>i<k. buddy_headers s (chunk_addr i) = \<lparr>chunk_used = True, chunk_size = node_chunk\<rparr>) \<and>
     buddy_headers s (chunk_addr k) = \<lparr>chunk_used = False, chunk_size = of_nat (20971504 - 40 * k)\<rparr> \<and>
     (\<forall>a. buddy_nodes s a \<noteq> None \<longrightarrow> (\<exists>i<k. a = node_addr i)) \<and>
     (\<forall>a n. buddy_nodes s a = Some n \<longrightarrow> node_value n = a + 20)"

lemma alloc_node_search_chunk:
  assumes "arena_ok s k" "k < max_nodes" "i \<le> k"
  shows "alloc_node_search s (chunk_addr i) = Some (Some (chunk_addr k))"
  using assms(3)
proof (induction "k - i" arbitrary: i)
  case 0
  then have "i = k" by simp
  have "unat (of_nat (20971504 - 40 * k) :: u32) = 20971504 - 40 * k" by (rule unat_of_nat_u32) simp
  then have "node_chunk \<le> (of_nat (20971504 - 40 * k) :: u32)"
    using assms(2) by (simp add: word_le_nat_alt node_chunk_def)
  with assms \<open>i = k\<close> show ?case
    by (subst alloc_node_search.simps) (simp add: header_at_def chunk_inside arena_ok_def)
next
  case (Suc m)
  then have i: "i < k" by simp
  then have hd: "header_at s (chunk_addr i) = Some \<lparr>chunk_used = True, chunk_size = node_chunk\<rparr>"
    using assms by (simp add: header_at_def chunk_inside arena_ok_def)
  have "\<not> tree_area_size < chunk_addr (Suc i) - tree_location"
    using chunk_inside [of "Suc i"] i assms(2) by simp
  then show ?case
    using Suc.hyps(1) [of "Suc i"] Suc.hyps(2) i hd
    by (subst alloc_node_search.simps) (simp add: chunk_next)
qed

lemma alloc_node_search_root:
  assumes "arena_ok s k" "k < max_nodes"
  shows "alloc_node_search s tree_location = Some (Some (chunk_addr k))"
proof -
  have hd: "header_at s tree_location = Some \<lparr>chunk_used = True, chunk_size = tree_chunk\<rparr>"
    using assms(1) by (simp add: header_at_def tree_area_size_def arena_ok_def)
  have c0: "tree_location + tree_chunk = chunk_addr 0" by (simp add: chunk_addr_def)
  have "\<not> tree_area_size < chunk_addr 0 - tree_location" using chunk_inside [of 0] by simp
  with hd show ?thesis
    using alloc_node_search_chunk [OF assms, of 0]
    by (subst alloc_node_search.simps) (simp add: c0)
qed

definition fresh_node :: "u32 \<Rightarrow> binary_tree_node" where
  "fresh_node a = \<lparr>node_left = 0, node_right = 0, node_parent = 0, node_value = a + 20,
     is_left = False, is_right = False\<rparr>"

text \<open>Taking a node from the arena, as long as there is room for one more.\<close>

lemma alloc_node_spec:
  assumes "arena_ok s k" "k < max_nodes"
  obtains s' where "buddy_allocator__alloc_node s = Some (SYS_RET_NO_ERROR, Some (node_addr k), s')"
    and "arena_ok s' (Suc k)" "buddy_mm s' = buddy_mm s" "buddy_root s' = buddy_root s"
    and "buddy_nodes s' = (buddy_nodes s)(node_addr k \<mapsto> fresh_node (node_addr k))"
    and "buddy_infos s' = (buddy_infos s)(node_addr k + 20 :=
           (buddy_infos s (node_addr k + 20))\<lparr>is_allocated := False\<rparr>)"
    and "buddy_nodes s (node_addr k) = None"
proof -
  let ?p = "chunk_addr k"
  define s' where "s' = s\<lparr>buddy_headers := (buddy_headers s)(?p := \<lparr>chunk_used = True, chunk_size = node_chunk\<rparr>,
      chunk_addr (Suc k) := \<lparr>chunk_used = False, chunk_size = of_nat (20971504 - 40 * k) - node_chunk\<rparr>),
    buddy_nodes := (buddy_nodes s)(node_addr k \<mapsto> fresh_node (node_addr k)),
    buddy_infos := (buddy_infos s)(node_addr k + 20 := (buddy_infos s (node_addr k + 20))\<lparr>is_allocated := False\<rparr>)\<rparr>"
  have old: "chunk_size (buddy_headers s ?p) = of_nat (20971504 - 40 * k)" using assms(1) by (simp add: arena_ok_def)
  have idx: "?p + 8 + 20 = node_addr k + 20" "?p + 8 = node_addr k" by (simp_all add: node_addr_def)
  have "chunk_addr (Suc k) - tree_location < tree_area_size" using assms(2) by (intro chunk_inside) simp
  then have run: "buddy_allocator__alloc_node s = Some (SYS_RET_NO_ERROR, Some (node_addr k), s')"
    by (simp add: buddy_allocator__alloc_node_def alloc_node_search_root [OF assms] Let_def chunk_next old
        s'_def fresh_node_def) (simp add: node_addr_def)
  have rest: "of_nat (20971504 - 40 * k) - node_chunk = (of_nat (20971504 - 40 * Suc k) :: u32)"
  proof -
    have "20971504 - 40 * k = (20971504 - 40 * Suc k) + 40" using assms(2) by simp
    then have "(of_nat (20971504 - 40 * k) :: u32) = of_nat (20971504 - 40 * Suc k) + 40"
      by (metis of_nat_add of_nat_numeral)
    then show ?thesis by (simp add: node_chunk_def)
  qed
  have fresh: "buddy_nodes s (node_addr k) = None"
  proof (rule ccontr)
    assume "buddy_nodes s (node_addr k) \<noteq> None"
    then obtain i where "i < k" "node_addr k = node_addr i" using assms(1) by (auto simp: arena_ok_def)
    with assms(2) show False by simp
  qed
  have arena: "arena_ok s' (Suc k)"
    using assms
    by (auto simp: arena_ok_def s'_def rest less_Suc_eq fresh_node_def node_chunk_def)
  show ?thesis by (rule that [OF run arena _ _ _ _ fresh]) (simp_all add: s'_def)
qed

text \<open>Splitting a block with room for two more nodes.\<close>

lemma arena_ok_upd:
  assumes "arena_ok s k" "\<And>a. (buddy_nodes s' a = None) = (buddy_nodes s a = None)"
    and "\<And>a n. buddy_nodes s' a = Some n \<Longrightarrow> node_value n = a + 20" "buddy_headers s' = buddy_headers s"
  shows "arena_ok s' k"
  using assms unfolding arena_ok_def by metis

lemma info_full [simp]:
  "i\<lparr>vaddr := v, info_len := l, is_allocated := al\<rparr> = \<lparr>vaddr = v, info_len = l, is_allocated = al\<rparr>"
  by (cases i) simp

lemma split_node_spec:
  assumes ar: "arena_ok s k" "Suc k < max_nodes" and a: "buddy_nodes s a = Some n"
    and info: "buddy_infos s (a + 20) = \<lparr>vaddr = b, info_len = L, is_allocated = al\<rparr>" and L: "L > 4096"
  obtains s' where "buddy_allocator__split_node a s = Some (SYS_RET_NO_ERROR, s')"
    and "arena_ok s' (k + 2)" "buddy_mm s' = buddy_mm s" "buddy_root s' = buddy_root s"
    and "buddy_nodes s' = (buddy_nodes s)(node_addr k \<mapsto> (fresh_node (node_addr k))\<lparr>is_left := True\<rparr>,
           node_addr (Suc k) \<mapsto> (fresh_node (node_addr (Suc k)))\<lparr>is_right := True\<rparr>,
           a \<mapsto> n\<lparr>node_left := node_addr k, node_right := node_addr (Suc k)\<rparr>)"
    and "buddy_infos s' = (buddy_infos s)(
           node_addr k + 20 := \<lparr>vaddr = b, info_len = L div 2, is_allocated = False\<rparr>,
           node_addr (Suc k) + 20 := \<lparr>vaddr = b + L div 2, info_len = L - L div 2, is_allocated = False\<rparr>)"
    and "buddy_nodes s (node_addr k) = None" "buddy_nodes s (node_addr (Suc k)) = None"
    and "a \<noteq> node_addr k" "a \<noteq> node_addr (Suc k)"
proof -
  obtain s1 where s1: "buddy_allocator__alloc_node s = Some (SYS_RET_NO_ERROR, Some (node_addr k), s1)"
      "arena_ok s1 (Suc k)" "buddy_mm s1 = buddy_mm s" "buddy_root s1 = buddy_root s"
      "buddy_nodes s1 = (buddy_nodes s)(node_addr k \<mapsto> fresh_node (node_addr k))"
      "buddy_infos s1 = (buddy_infos s)(node_addr k + 20 := (buddy_infos s (node_addr k + 20))\<lparr>is_allocated := False\<rparr>)"
      "buddy_nodes s (node_addr k) = None"
    using alloc_node_spec [OF ar(1)] ar(2) by (metis Suc_lessD)
  obtain s2 where s2: "buddy_allocator__alloc_node s1 = Some (SYS_RET_NO_ERROR, Some (node_addr (Suc k)), s2)"
      "arena_ok s2 (Suc (Suc k))" "buddy_mm s2 = buddy_mm s1" "buddy_root s2 = buddy_root s1"
      "buddy_nodes s2 = (buddy_nodes s1)(node_addr (Suc k) \<mapsto> fresh_node (node_addr (Suc k)))"
      "buddy_infos s2 = (buddy_infos s1)(node_addr (Suc k) + 20 := (buddy_infos s1 (node_addr (Suc k) + 20))\<lparr>is_allocated := False\<rparr>)"
      "buddy_nodes s1 (node_addr (Suc k)) = None"
    using alloc_node_spec [OF s1(2) ar(2)] by metis
  have ne: "a \<noteq> node_addr k" "a \<noteq> node_addr (Suc k)" "node_addr (Suc k) \<noteq> node_addr k"
    using a s1(5,7) s2(7) ar(2) by (auto split: if_splits)
  have val: "node_value n = a + 20" using ar(1) a by (simp add: arena_ok_def)
  define s' where "s' = s2\<lparr>buddy_infos := (buddy_infos s)(
        node_addr k + 20 := \<lparr>vaddr = b, info_len = L div 2, is_allocated = False\<rparr>,
        node_addr (Suc k) + 20 := \<lparr>vaddr = b + L div 2, info_len = L - L div 2, is_allocated = False\<rparr>),
      buddy_nodes := (buddy_nodes s)(node_addr k \<mapsto> (fresh_node (node_addr k))\<lparr>is_left := True\<rparr>,
        node_addr (Suc k) \<mapsto> (fresh_node (node_addr (Suc k)))\<lparr>is_right := True\<rparr>,
        a \<mapsto> n\<lparr>node_left := node_addr k, node_right := node_addr (Suc k)\<rparr>)\<rparr>"
  have "buddy_allocator__split_node a s = Some (SYS_RET_NO_ERROR, s')"
    using a info L ne val s1(1) s2(1) s1(5,6) s2(5,6)
    by (simp add: buddy_allocator__split_node_def info_of_def set_info_def set_node_def node_upd_def
        MIN_MEM_SPLIT_def fresh_node_def s'_def fun_upd_twist linorder_not_le)
  moreover have "arena_ok s' (Suc (Suc k))"
    using a ne val ar(1) s1(5) s2(2,5)
    by (intro arena_ok_upd [OF s2(2)]) (auto simp: s'_def arena_ok_def fresh_node_def split: if_splits)
  ultimately show ?thesis
    using s1 s2 ne by (intro that [of s']) (auto simp: s'_def)
qed

section \<open>The search implements the abstract one\<close>

text \<open>Every node describes the block that its place in the tree gives it.\<close>

fun layout :: "(u32 \<Rightarrow> alloc_info) \<Rightarrow> u32 \<Rightarrow> nat \<Rightarrow> u32 tree \<Rightarrow> bool" where
  "layout ds b j Leaf \<longleftrightarrow> True"
| "layout ds b j (Node l a r) \<longleftrightarrow>
     vaddr (ds (a + 20)) = b \<and> info_len (ds (a + 20)) = 2 ^ j \<and> 12 \<le> j \<and> j \<le> 31 \<and> (l = Leaf \<longleftrightarrow> r = Leaf) \<and>
     (l \<noteq> Leaf \<longrightarrow> 12 < j \<and> \<not> is_allocated (ds (a + 20))) \<and>
     layout ds b (j - 1) l \<and> layout ds (b + 2 ^ (j - 1)) (j - 1) r"

fun blk_of :: "(u32 \<Rightarrow> alloc_info) \<Rightarrow> u32 tree \<Rightarrow> blk" where
  "blk_of ds Leaf = Block True"
| "blk_of ds (Node l a r) =
     (if l = Leaf then Block (is_allocated (ds (a + 20))) else Split (blk_of ds l) (blk_of ds r))"

lemma layout_frame:
  "layout ds b j t \<Longrightarrow> (\<And>a. a \<in> set_tree t \<Longrightarrow> ds' (a + 20) = ds (a + 20)) \<Longrightarrow> layout ds' b j t"
  by (induction t arbitrary: b j) auto

lemma blk_of_frame:
  "(\<And>a. a \<in> set_tree t \<Longrightarrow> ds' (a + 20) = ds (a + 20)) \<Longrightarrow> blk_of ds' t = blk_of ds t"
  by (induction t) auto

lemma depth_ok_layout: "layout ds b j t \<Longrightarrow> t \<noteq> Leaf \<Longrightarrow> depth_ok j (blk_of ds t)"
  by (induction t arbitrary: b j) auto

text \<open>A subtree in place: links, descriptions, and the arena with \<open>k\<close> nodes taken.\<close>

definition subtree :: "buddy_state \<Rightarrow> nat \<Rightarrow> u32 \<Rightarrow> u32 \<Rightarrow> nat \<Rightarrow> u32 tree \<Rightarrow> bool" where
  "subtree s k p b j t \<longleftrightarrow> tree_at (buddy_nodes s) p t \<and> t \<noteq> Leaf \<and> layout (buddy_infos s) b j t \<and>
     distinct (inorder t) \<and> arena_ok s k"

text \<open>From \<open>s\<close> to \<open>s'\<close> only the given nodes and new nodes of the arena have changed.\<close>

definition confined :: "u32 set \<Rightarrow> nat \<Rightarrow> buddy_state \<Rightarrow> nat \<Rightarrow> buddy_state \<Rightarrow> bool" where
  "confined A k s k' s' \<longleftrightarrow> k \<le> k' \<and> buddy_mm s' = buddy_mm s \<and> buddy_root s' = buddy_root s \<and>
     (\<forall>a. a \<notin> A \<longrightarrow> a \<notin> node_addr ` {k..<k'} \<longrightarrow>
        buddy_nodes s' a = buddy_nodes s a \<and> buddy_infos s' (a + 20) = buddy_infos s (a + 20))"

lemma confined_refl: "confined A k s k s"
  by (simp add: confined_def)

lemma confined_trans:
  assumes "confined A k s k1 s1" "confined B k1 s1 k2 s2" "B \<subseteq> A \<union> node_addr ` {k..<k1}"
  shows "confined A k s k2 s2"
proof -
  have "node_addr ` {k..<k1} \<subseteq> node_addr ` {k..<k2}" "node_addr ` {k1..<k2} \<subseteq> node_addr ` {k..<k2}"
    using assms(1,2) by (auto simp: confined_def)
  with assms show ?thesis unfolding confined_def
    by (metis (no_types, lifting) Un_iff in_mono order_trans)
qed

lemma confined_mono: "confined A k s k' s' \<Longrightarrow> A \<subseteq> B \<Longrightarrow> confined B k s k' s'"
  by (auto simp: confined_def)

lemma tree_addresses:
  assumes "tree_at (buddy_nodes s) p t" "arena_ok s k" "a \<in> set_tree t"
  shows "\<exists>i<k. a = node_addr i"
proof -
  have "buddy_nodes s a \<noteq> None"
    using assms(1,3) by (induction t arbitrary: p) (auto split: option.splits)
  with assms(2) show ?thesis by (auto simp: arena_ok_def)
qed

lemma tree_not_new:
  assumes "tree_at (buddy_nodes s) p t" "arena_ok s k" "k' \<le> max_nodes"
  shows "set_tree t \<inter> node_addr ` {k..<k'} = {}"
proof -
  have "node_addr i \<notin> set_tree t" if i: "k \<le> i" "i < k'" for i
  proof
    assume "node_addr i \<in> set_tree t"
    then obtain i' where "i' < k" "node_addr i = node_addr i'" using tree_addresses [OF assms(1,2)] by blast
    with i assms(3) show False by simp
  qed
  then show ?thesis by auto
qed

text \<open>A tree that the change does not touch stays as it is.\<close>

lemma subtree_confined:
  assumes "tree_at (buddy_nodes s) p t" "arena_ok s k" "confined A k s k' s'" "arena_ok s' k'" "set_tree t \<inter> A = {}"
  shows "a \<in> set_tree t \<Longrightarrow> buddy_nodes s' a = buddy_nodes s a \<and> buddy_infos s' (a + 20) = buddy_infos s (a + 20)"
proof -
  assume a: "a \<in> set_tree t"
  have "k' \<le> max_nodes" using assms(4) by (simp add: arena_ok_def)
  from tree_not_new [OF assms(1,2) this] a have "a \<notin> node_addr ` {k..<k'}" by blast
  with assms(3,5) a show ?thesis by (auto simp: confined_def)
qed

text \<open>What a successful search leaves: a tree with the block found at node \<open>q\<close>.\<close>

definition found_at ::
  "buddy_state \<Rightarrow> nat \<Rightarrow> u32 \<Rightarrow> u32 \<Rightarrow> nat \<Rightarrow> u32 tree \<Rightarrow> buddy_state \<Rightarrow> nat \<Rightarrow> u32 tree \<Rightarrow> u32 \<Rightarrow>
   blk \<Rightarrow> blk \<Rightarrow> u32 \<Rightarrow> nat \<Rightarrow> bool" where
  "found_at s k p b j t s' k' t' q u um b' j' \<longleftrightarrow>
     subtree s' k' p b j t' \<and> confined (set_tree t) k s k' s' \<and>
     set_tree t' = set_tree t \<union> node_addr ` {k..<k'} \<and> q \<in> set_tree t' \<and>
     buddy_infos s' (q + 20) = \<lparr>vaddr = b', info_len = 2 ^ j', is_allocated = False\<rparr> \<and>
     blk_of (buddy_infos s') t' = u \<and>
     (let ds = (buddy_infos s')(q + 20 := (buddy_infos s' (q + 20))\<lparr>is_allocated := True\<rparr>)
      in layout ds b j t' \<and> blk_of ds t' = um)"


lemma subtree_children:
  assumes "subtree s k a b j (Node l a r)" "l \<noteq> Leaf" "buddy_nodes s a = Some n"
  shows "subtree s k (node_left n) b (j - 1) l" "subtree s k (node_right n) (b + 2 ^ (j - 1)) (j - 1) r"
    and "a \<noteq> 0" "set_tree l \<inter> set_tree r = {}" "a \<notin> set_tree l" "a \<notin> set_tree r" "r \<noteq> Leaf" "12 < j"
  using assms by (auto simp: subtree_def)

lemma found_left:
  assumes sub: "subtree s k a b j (Node l a r)" "l \<noteq> Leaf" "buddy_nodes s a = Some n"
    and f: "found_at s k (node_left n) b (j - 1) l s' k' l' q u um b' j'"
  shows "found_at s k a b j (Node l a r) s' k' (Node l' a r) q
     (Split u (blk_of (buddy_infos s) r)) (Split um (blk_of (buddy_infos s) r)) b' j'"
proof -
  note ch = subtree_children [OF sub]
  have l': "subtree s' k' (node_left n) b (j - 1) l'" "set_tree l' = set_tree l \<union> node_addr ` {k..<k'}"
    and con: "confined (set_tree l) k s k' s'" using f by (auto simp: found_at_def)
  have whole: "tree_at (buddy_nodes s) a (Node l a r)" "arena_ok s k" using sub by (auto simp: subtree_def)
  have out: "buddy_nodes s' c = buddy_nodes s c \<and> buddy_infos s' (c + 20) = buddy_infos s (c + 20)"
    if "c \<in> insert a (set_tree r)" for c
  proof -
    have "k' \<le> max_nodes" using l'(1) by (simp add: subtree_def arena_ok_def)
    from tree_not_new [OF whole this] have "c \<notin> node_addr ` {k..<k'}" using that by auto
    with con ch that show ?thesis by (auto simp: confined_def)
  qed
  have new: "insert a (set_tree r) \<inter> set_tree l' = {}"
  proof -
    have "k' \<le> max_nodes" using l'(1) by (simp add: subtree_def arena_ok_def)
    from tree_not_new [OF whole this] l'(2) ch show ?thesis by auto
  qed
  have r': "tree_at (buddy_nodes s') (node_right n) r" "layout (buddy_infos s') (b + 2 ^ (j - 1)) (j - 1) r"
      "blk_of (buddy_infos s') r = blk_of (buddy_infos s) r"
    using ch(2) out by (auto simp: subtree_def intro: tree_at_frame layout_frame blk_of_frame)
  have q: "q \<in> set_tree l'" using f unfolding found_at_def by blast
  let ?ds = "(buddy_infos s')(q + 20 := (buddy_infos s' (q + 20))\<lparr>is_allocated := True\<rparr>)"
  have mark: "?ds (c + 20) = buddy_infos s' (c + 20)" if "c \<in> insert a (set_tree r)" for c
    using q new that by auto
  have "layout ?ds (b + 2 ^ (j - 1)) (j - 1) r" by (rule layout_frame [OF r'(2)]) (rule mark, simp)
  moreover have "blk_of ?ds r = blk_of (buddy_infos s') r" by (rule blk_of_frame) (rule mark, simp)
  ultimately show ?thesis
    using sub f l' r' out [of a] mark [of a] new ch con
    by (auto simp: found_at_def subtree_def Let_def intro: confined_mono)
qed

lemma found_right:
  assumes sub: "subtree s k a b j (Node l a r)" "l \<noteq> Leaf" "buddy_nodes s a = Some n"
    and f: "found_at s k (node_right n) (b + 2 ^ (j - 1)) (j - 1) r s' k' r' q u um b' j'"
  shows "found_at s k a b j (Node l a r) s' k' (Node l a r') q
     (Split (blk_of (buddy_infos s) l) u) (Split (blk_of (buddy_infos s) l) um) b' j'"
proof -
  note ch = subtree_children [OF sub]
  have r': "subtree s' k' (node_right n) (b + 2 ^ (j - 1)) (j - 1) r'" "set_tree r' = set_tree r \<union> node_addr ` {k..<k'}"
    and con: "confined (set_tree r) k s k' s'" using f by (auto simp: found_at_def)
  have whole: "tree_at (buddy_nodes s) a (Node l a r)" "arena_ok s k" using sub by (auto simp: subtree_def)
  have out: "buddy_nodes s' c = buddy_nodes s c \<and> buddy_infos s' (c + 20) = buddy_infos s (c + 20)"
    if "c \<in> insert a (set_tree l)" for c
  proof -
    have "k' \<le> max_nodes" using r'(1) by (simp add: subtree_def arena_ok_def)
    from tree_not_new [OF whole this] have "c \<notin> node_addr ` {k..<k'}" using that by auto
    with con ch that show ?thesis by (auto simp: confined_def)
  qed
  have new: "insert a (set_tree l) \<inter> set_tree r' = {}"
  proof -
    have "k' \<le> max_nodes" using r'(1) by (simp add: subtree_def arena_ok_def)
    from tree_not_new [OF whole this] r'(2) ch show ?thesis by auto
  qed
  have l': "tree_at (buddy_nodes s') (node_left n) l" "layout (buddy_infos s') b (j - 1) l"
      "blk_of (buddy_infos s') l = blk_of (buddy_infos s) l"
    using ch(1) out by (auto simp: subtree_def intro: tree_at_frame layout_frame blk_of_frame)
  have q: "q \<in> set_tree r'" using f unfolding found_at_def by blast
  let ?ds = "(buddy_infos s')(q + 20 := (buddy_infos s' (q + 20))\<lparr>is_allocated := True\<rparr>)"
  have mark: "?ds (c + 20) = buddy_infos s' (c + 20)" if "c \<in> insert a (set_tree l)" for c
    using q new that by auto
  have "layout ?ds b (j - 1) l" by (rule layout_frame [OF l'(2)]) (rule mark, simp)
  moreover have "blk_of ?ds l = blk_of (buddy_infos s') l" by (rule blk_of_frame) (rule mark, simp)
  ultimately show ?thesis
    using sub f r' l' out [of a] mark [of a] new ch con
    by (auto simp: found_at_def subtree_def Let_def intro: confined_mono)
qed

lemma block_le_min: "j \<le> 31 \<Longrightarrow> (2 ^ j :: u32) \<le> MIN_MEM_SPLIT \<longleftrightarrow> j \<le> 12"
proof -
  assume j: "j \<le> 31"
  have "(2 ^ j :: nat) \<le> 2 ^ 12 \<longleftrightarrow> j \<le> 12" by (rule power_increasing_iff) simp
  then show ?thesis by (simp add: word_le_nat_alt unat_block [OF j] MIN_MEM_SPLIT_def)
qed

lemma block_halves:
  assumes "0 < j" "j \<le> 31"
  shows "(2 ^ j :: u32) div 2 = 2 ^ (j - 1)" "(2 ^ j :: u32) - 2 ^ j div 2 = 2 ^ (j - 1)"
proof -
  obtain i where i: "j = Suc i" using assms(1) by (cases j) auto
  have "unat ((2 ^ j :: u32) div 2) = unat (2 ^ (j - 1) :: u32)"
    using unat_block [of j] unat_block [of "j - 1"] assms by (simp add: unat_div i)
  then show half: "(2 ^ j :: u32) div 2 = 2 ^ (j - 1)" by (simp only: word_unat_eq_iff)
  show "(2 ^ j :: u32) - 2 ^ j div 2 = 2 ^ (j - 1)" unfolding half by (simp add: i)
qed

lemma found_here:
  assumes "subtree s k a b j (Node Leaf a Leaf)" "\<not> is_allocated (buddy_infos s (a + 20))"
  shows "found_at s k a b j (Node Leaf a Leaf) s k (Node Leaf a Leaf) a (Block False) (Block True) b j"
  using assms by (cases "buddy_infos s (a + 20)") (auto simp: found_at_def subtree_def confined_refl Let_def)

lemma split_subtree:
  assumes "subtree s k a b j (Node Leaf a Leaf)" "\<not> is_allocated (buddy_infos s (a + 20))" "12 < j" "Suc k < max_nodes"
  obtains s1 where "buddy_allocator__split_node a s = Some (SYS_RET_NO_ERROR, s1)"
    and "subtree s1 (k + 2) a b j (Node (Node Leaf (node_addr k) Leaf) a (Node Leaf (node_addr (Suc k)) Leaf))"
    and "confined {a} k s (k + 2) s1"
    and "\<not> is_allocated (buddy_infos s1 (node_addr k + 20))" "\<not> is_allocated (buddy_infos s1 (node_addr (Suc k) + 20))"
proof -
  obtain n where n: "buddy_nodes s a = Some n" "a \<noteq> 0" and ar: "arena_ok s k"
    and info: "buddy_infos s (a + 20) = \<lparr>vaddr = b, info_len = 2 ^ j, is_allocated = False\<rparr>" and j: "j \<le> 31"
    using assms(1,2) by (cases "buddy_infos s (a + 20)") (auto simp: subtree_def split: option.splits)
  have "4096 < (2 ^ j :: u32)" using block_le_min [OF j] assms(3) by (simp add: MIN_MEM_SPLIT_def not_le)
  from split_node_spec [OF ar assms(4) n(1) info this] obtain s1 where
    s1: "buddy_allocator__split_node a s = Some (SYS_RET_NO_ERROR, s1)"
      "arena_ok s1 (k + 2)" "buddy_mm s1 = buddy_mm s" "buddy_root s1 = buddy_root s"
      "buddy_nodes s1 = (buddy_nodes s)(node_addr k \<mapsto> (fresh_node (node_addr k))\<lparr>is_left := True\<rparr>,
           node_addr (Suc k) \<mapsto> (fresh_node (node_addr (Suc k)))\<lparr>is_right := True\<rparr>,
           a \<mapsto> n\<lparr>node_left := node_addr k, node_right := node_addr (Suc k)\<rparr>)"
      "buddy_infos s1 = (buddy_infos s)(
           node_addr k + 20 := \<lparr>vaddr = b, info_len = 2 ^ (j - 1), is_allocated = False\<rparr>,
           node_addr (Suc k) + 20 := \<lparr>vaddr = b + 2 ^ (j - 1), info_len = 2 ^ (j - 1), is_allocated = False\<rparr>)"
    and ne: "a \<noteq> node_addr k" "a \<noteq> node_addr (Suc k)"
    using block_halves [of j] assms(3) j by (metis (no_types, lifting) gr_implies_not0 not_gr_zero)
  have kk: "node_addr k \<noteq> node_addr (Suc k)" "node_addr k \<noteq> 0" "node_addr (Suc k) \<noteq> 0" using assms(4) by simp_all
  have range: "{k..<k + 2} = {k, Suc k}" by auto
  have "subtree s1 (k + 2) a b j (Node (Node Leaf (node_addr k) Leaf) a (Node Leaf (node_addr (Suc k)) Leaf))"
    using s1(2) s1(5,6) ne kk n info j assms(3) by (auto simp: subtree_def fresh_node_def)
  moreover have "confined {a} k s (k + 2) s1"
    using s1(3-6) ne kk by (auto simp: confined_def range)
  ultimately show ?thesis using s1(1,6) kk by (intro that [of s1]) auto
qed

text \<open>The steps of the search at one node.\<close>

lemma info_of_node: "arena_ok s k \<Longrightarrow> buddy_nodes s a = Some n \<Longrightarrow> info_of s a = Some (buddy_infos s (a + 20))"
  by (simp add: info_of_def arena_ok_def)

lemma subtree_node:
  assumes "subtree s k p b j (Node l a r)"
  obtains n where "p = a" "buddy_nodes s a = Some n" "info_of s a = Some (buddy_infos s (a + 20))"
    and "vaddr (buddy_infos s (a + 20)) = b" "info_len (buddy_infos s (a + 20)) = 2 ^ j" "j \<le> 31" "12 \<le> j"
    and "node_left n = 0 \<longleftrightarrow> l = Leaf" "node_right n = 0 \<longleftrightarrow> l = Leaf"
proof -
  have null: "tree_at h c t \<Longrightarrow> c = 0 \<longleftrightarrow> t = Leaf" for h c t by (cases t) auto
  obtain n where n: "p = a" "buddy_nodes s a = Some n" "tree_at (buddy_nodes s) (node_left n) l"
      "tree_at (buddy_nodes s) (node_right n) r" and lr: "l = Leaf \<longleftrightarrow> r = Leaf"
    using assms by (auto simp: subtree_def split: option.splits)
  show ?thesis
    by (rule that [of n]) (use assms n lr null [OF n(3)] null [OF n(4)] in
        \<open>auto simp: subtree_def info_of_node\<close>)
qed

lemma find_space_allocated:
  assumes "subtree s k p b j (Node l a r)" "is_allocated (buddy_infos s (a + 20))"
  shows "buddy_allocator__find_space len p s = Some (SYS_RET_NOT_FOUND, None, s)"
  using assms by (elim subtree_node) (simp add: buddy_allocator__find_space.simps [of len a])

lemma find_space_inner_fits:
  assumes "subtree s k p b j (Node l a r)" "\<not> is_allocated (buddy_infos s (a + 20))" "fits len j" "l \<noteq> Leaf"
  shows "buddy_allocator__find_space len p s = Some (SYS_RET_NOT_FOUND, None, s)"
  using assms by (elim subtree_node) (simp add: buddy_allocator__find_space.simps [of len a] fits_def)

lemma find_space_leaf:
  assumes "subtree s k p b j (Node Leaf a r)" "\<not> is_allocated (buddy_infos s (a + 20))" "fits len j \<or> j \<le> 12"
  shows "buddy_allocator__find_space len p s = Some (SYS_RET_NO_ERROR, Some a, s)"
  using assms
  by (elim subtree_node) (auto simp: buddy_allocator__find_space.simps [of len a] fits_def block_le_min)

text \<open>The two recursive calls, after the node has been split if need be.\<close>

definition search_children :: "u32 \<Rightarrow> u32 \<Rightarrow> buddy_state \<Rightarrow> (SYS_RET \<times> u32 option \<times> buddy_state) option" where
  "search_children len node s1 = do {
     n1 \<leftarrow> buddy_nodes s1 node;
     (ret_l, out_l, s2) \<leftarrow> buddy_allocator__find_space len (node_left n1) s1;
     let found_l = (case out_l of None \<Rightarrow> 0 | Some q \<Rightarrow> q);
     ok_l \<leftarrow> found_ok ret_l found_l s2;
     if ok_l then Some (ret_l, Some found_l, s2)
     else do {
       n2 \<leftarrow> buddy_nodes s2 node;
       (ret_r, out_r, s3) \<leftarrow> buddy_allocator__find_space len (node_right n2) s2;
       let found_r = (case out_r of None \<Rightarrow> found_l | Some q \<Rightarrow> q);
       ok_r \<leftarrow> found_ok ret_r found_r s3;
       if ok_r then Some (ret_r, Some found_r, s3) else Some (SYS_RET_NOT_FOUND, None, s3)
     }
   }"

lemma find_space_inner:
  assumes "subtree s k p b j (Node l a r)" "\<not> is_allocated (buddy_infos s (a + 20))" "\<not> fits len j" "l \<noteq> Leaf"
  shows "buddy_allocator__find_space len p s = search_children len a s"
  using assms
  by (elim subtree_node) (auto simp: buddy_allocator__find_space.simps [of len a] fits_def search_children_def)

lemma find_space_split:
  assumes "subtree s k p b j (Node Leaf a r)" "\<not> is_allocated (buddy_infos s (a + 20))" "\<not> fits len j" "12 < j"
    and "buddy_allocator__split_node a s = Some (SYS_RET_NO_ERROR, s1)"
  shows "buddy_allocator__find_space len p s = search_children len a s1"
  using assms
  by (elim subtree_node)
    (auto simp: buddy_allocator__find_space.simps [of len a s] fits_def search_children_def block_le_min)

lemma found_ok_at:
  assumes "found_at s k p b j t s' k' t' q u um b' j'"
  shows "q \<noteq> 0" "found_ok SYS_RET_NO_ERROR q s' = Some True"
    "info_of s' q = Some \<lparr>vaddr = b', info_len = 2 ^ j', is_allocated = False\<rparr>"
proof -
  have t': "tree_at (buddy_nodes s') p t'" "arena_ok s' k'" "q \<in> set_tree t'"
    and info: "buddy_infos s' (q + 20) = \<lparr>vaddr = b', info_len = 2 ^ j', is_allocated = False\<rparr>"
    using assms unfolding found_at_def subtree_def by blast+
  show q: "q \<noteq> 0" using t'(1,3) by (induction t' arbitrary: p) (auto split: option.splits)
  have "buddy_nodes s' q \<noteq> None" using t'(1,3) by (induction t' arbitrary: p) (auto split: option.splits)
  then show "info_of s' q = Some \<lparr>vaddr = b', info_len = 2 ^ j', is_allocated = False\<rparr>"
    using t'(2) info by (auto simp: info_of_node)
  with q show "found_ok SYS_RET_NO_ERROR q s' = Some True" by (simp add: found_ok_def)
qed

text \<open>The search started at \<open>p\<close> does what the abstract search says.\<close>

definition search_ok :: "u32 \<Rightarrow> buddy_state \<Rightarrow> nat \<Rightarrow> u32 \<Rightarrow> u32 \<Rightarrow> nat \<Rightarrow> u32 tree \<Rightarrow> bool" where
  "search_ok len s k p b j t \<longleftrightarrow>
     (case blk_search False len b j (blk_of (buddy_infos s) t) of
        None \<Rightarrow> buddy_allocator__find_space len p s = Some (SYS_RET_NOT_FOUND, None, s)
      | Some (u, b', j') \<Rightarrow> \<exists>s' k' t' q um.
          buddy_allocator__find_space len p s = Some (SYS_RET_NO_ERROR, Some q, s') \<and> k' \<le> k + 2 * (j - 12) \<and>
          blk_search True len b j (blk_of (buddy_infos s) t) = Some (um, b', j') \<and>
          found_at s k p b j t s' k' t' q u um b' j')"

lemma search_okI:
  assumes "blk_search False len b j (blk_of (buddy_infos s) t) = Some (u, b', j')"
    and "blk_search True len b j (blk_of (buddy_infos s) t) = Some (um, b', j')"
    and "buddy_allocator__find_space len p s = Some (SYS_RET_NO_ERROR, Some q, s')" "k' \<le> k + 2 * (j - 12)"
    and "found_at s k p b j t s' k' t' q u um b' j'"
  shows "search_ok len s k p b j t"
  using assms by (auto simp: search_ok_def)

text \<open>A free leaf: the code splits it down to a block that fits.\<close>

lemma found_after_split:
  assumes "found_at s1 (k + 2) a b j (Node (Node Leaf (node_addr k) Leaf) a (Node Leaf (node_addr (Suc k)) Leaf))
      s' k' t' q u um b' j'"
    and "confined {a} k s (k + 2) s1"
  shows "found_at s k a b j (Node Leaf a Leaf) s' k' t' q u um b' j'"
proof -
  have con: "confined {node_addr k, a, node_addr (Suc k)} (k + 2) s1 k' s'"
    and k': "k + 2 \<le> k'" and st: "set_tree t' = {node_addr k, a, node_addr (Suc k)} \<union> node_addr ` {k + 2..<k'}"
    using assms(1) by (auto simp: found_at_def confined_def)
  have "{k..<k'} = {k, Suc k} \<union> {k + 2..<k'}" using k' by auto
  then have "set_tree t' = {a} \<union> node_addr ` {k..<k'}" using st by auto
  moreover have "confined {a} k s k' s'"
    by (rule confined_trans [OF assms(2) con]) auto
  moreover have single: "set_tree (Node Leaf a Leaf) = {a}" by simp
  ultimately show ?thesis using assms(1) unfolding found_at_def single by blast
qed

lemma leaf_search:
  assumes "subtree s k a b j (Node Leaf a Leaf)" "\<not> is_allocated (buddy_infos s (a + 20))"
    and "k + 2 * (j - 12) \<le> max_nodes"
  shows "search_ok len s k a b j (Node Leaf a Leaf)"
  using assms
proof (induction j arbitrary: s k a)
  case (Suc j)
  let ?t = "Node Leaf a Leaf"
  have blk: "blk_of (buddy_infos s) ?t = Block False" using Suc.prems by simp
  show ?case
  proof (cases "fits len (Suc j) \<or> Suc j \<le> 12")
    case True
    then show ?thesis
      by (intro search_okI [OF _ _ find_space_leaf [OF Suc.prems(1,2) True] _ found_here [OF Suc.prems(1,2)]])
        (simp_all add: blk blk_search_block Suc.prems(2))
  next
    case False
    then have j: "12 < Suc j" "\<not> fits len (Suc j)" by auto
    have cap: "Suc k < max_nodes" using Suc.prems(3) j(1) by simp
    let ?l = "Node Leaf (node_addr k) Leaf" and ?r = "Node Leaf (node_addr (Suc k)) Leaf"
    obtain s1 where s1: "buddy_allocator__split_node a s = Some (SYS_RET_NO_ERROR, s1)"
        "subtree s1 (k + 2) a b (Suc j) (Node ?l a ?r)" "confined {a} k s (k + 2) s1"
        "\<not> is_allocated (buddy_infos s1 (node_addr k + 20))"
        "\<not> is_allocated (buddy_infos s1 (node_addr (Suc k) + 20))"
      using split_subtree [OF Suc.prems(1,2) j(1) cap] by blast
    obtain n1 where n1: "buddy_nodes s1 a = Some n1" using s1(2) by (elim subtree_node)
    note ch = subtree_children [OF s1(2) _ n1]
    have left: "node_left n1 = node_addr k" using ch(1) by (auto simp: subtree_def)
    have "search_ok len s1 (k + 2) (node_addr k) b j ?l"
      using Suc.IH [of s1 "k + 2" "node_addr k"] ch(1) left s1(4) Suc.prems(3) j(1) by simp
    moreover obtain u x where u: "blk_search False len b j (Block False) = Some (u, x)"
      using blk_search_free by (metis not_None_eq prod.exhaust)
    ultimately obtain s' k' t' q um where f: "buddy_allocator__find_space len (node_addr k) s1 = Some (SYS_RET_NO_ERROR, Some q, s')"
        "k' \<le> k + 2 + 2 * (j - 12)" "blk_search True len b j (Block False) = Some (um, fst x, snd x)"
        "found_at s1 (k + 2) (node_addr k) b j ?l s' k' t' q u um (fst x) (snd x)"
      using s1(4) by (cases x) (auto simp: search_ok_def)
    have "buddy_allocator__find_space len a s = Some (SYS_RET_NO_ERROR, Some q, s')"
      using find_space_split [OF Suc.prems(1,2) j(2,1) s1(1)] f(1) found_ok_at [OF f(4)] n1 left
      by (simp add: search_children_def)
    moreover have "found_at s k a b (Suc j) ?t s' k' (Node t' a ?r) q (Split u (Block False)) (Split um (Block False)) (fst x) (snd x)"
      using found_after_split [OF found_left [OF s1(2) _ n1] s1(3)] f(4) left s1(5) by simp
    ultimately show ?thesis
      using u f(2,3) j by (intro search_okI) (simp_all add: blk blk_search_block Suc.prems(2))
  qed
qed (simp add: subtree_def)

text \<open>An inner node: first the left half, then the right one.\<close>

lemma search_inner:
  assumes sub: "subtree s k a b j (Node l a r)" "l \<noteq> Leaf" "buddy_nodes s a = Some n" and nofit: "\<not> fits len j"
    and IH: "search_ok len s k (node_left n) b (j - 1) l" "search_ok len s k (node_right n) (b + 2 ^ (j - 1)) (j - 1) r"
  shows "search_ok len s k a b j (Node l a r)"
proof -
  let ?u = "blk_of (buddy_infos s)"
  have al: "\<not> is_allocated (buddy_infos s (a + 20))" using sub by (simp add: subtree_def)
  note step = find_space_inner [OF sub(1) al nofit sub(2)]
  show ?thesis
  proof (cases "blk_search False len b (j - 1) (?u l)")
    case (Some y)
    obtain u b' j' where y: "y = (u, b', j')" by (cases y)
    from IH(1) Some y obtain s' k' l' q um where f:
      "buddy_allocator__find_space len (node_left n) s = Some (SYS_RET_NO_ERROR, Some q, s')"
      "k' \<le> k + 2 * (j - 1 - 12)" "blk_search True len b (j - 1) (?u l) = Some (um, b', j')"
      "found_at s k (node_left n) b (j - 1) l s' k' l' q u um b' j'" by (auto simp: search_ok_def)
    have "buddy_allocator__find_space len a s = Some (SYS_RET_NO_ERROR, Some q, s')"
      using step f(1) found_ok_at [OF f(4)] sub(3) by (simp add: search_children_def)
    with Some y f nofit sub(2) show ?thesis
      by (intro search_okI [OF _ _ _ _ found_left [OF sub f(4)]]) auto
  next
    case None
    with IH(1) have l: "buddy_allocator__find_space len (node_left n) s = Some (SYS_RET_NOT_FOUND, None, s)"
      by (simp add: search_ok_def)
    have none: "blk_search True len b (j - 1) (?u l) = None"
      using blk_search_mark [of False len b "j - 1" "?u l" True] None by simp
    show ?thesis
    proof (cases "blk_search False len (b + 2 ^ (j - 1)) (j - 1) (?u r)")
      case None2: None
      with IH(2) have "buddy_allocator__find_space len (node_right n) s = Some (SYS_RET_NOT_FOUND, None, s)"
        by (simp add: search_ok_def)
      with step l sub None None2 nofit show ?thesis
        by (simp add: search_ok_def search_children_def found_ok_def)
    next
      case (Some y)
      obtain u b' j' where y: "y = (u, b', j')" by (cases y)
      from IH(2) Some y obtain s' k' r' q um where f:
        "buddy_allocator__find_space len (node_right n) s = Some (SYS_RET_NO_ERROR, Some q, s')"
        "k' \<le> k + 2 * (j - 1 - 12)" "blk_search True len (b + 2 ^ (j - 1)) (j - 1) (?u r) = Some (um, b', j')"
        "found_at s k (node_right n) (b + 2 ^ (j - 1)) (j - 1) r s' k' r' q u um b' j'" by (auto simp: search_ok_def)
      have "buddy_allocator__find_space len a s = Some (SYS_RET_NO_ERROR, Some q, s')"
        using step l f(1) found_ok_at [OF f(4)] sub(3) by (simp add: search_children_def found_ok_def)
      with Some y f nofit sub(2) None none show ?thesis
        by (intro search_okI [OF _ _ _ _ found_right [OF sub f(4)]]) auto
    qed
  qed
qed

lemma find_space_spec:
  assumes "subtree s k p b j t" "k + 2 * (j - 12) \<le> max_nodes"
  shows "search_ok len s k p b j t"
  using assms
proof (induction t arbitrary: p b j)
  case (Node l a r)
  obtain n where n: "p = a" "buddy_nodes s a = Some n" using Node.prems(1) by (elim subtree_node)
  show ?case
  proof (cases "l = Leaf")
    case True
    then have r: "r = Leaf" using Node.prems(1) by (simp add: subtree_def)
    show ?thesis
    proof (cases "is_allocated (buddy_infos s (a + 20))")
      case al: True
      with find_space_allocated [OF Node.prems(1) al] True show ?thesis
        by (simp add: search_ok_def blk_search_block)
    next
      case False
      with leaf_search [of s k a b j len] Node.prems True r n show ?thesis by simp
    qed
  next
    case False
    note sub = Node.prems(1) [unfolded n(1)]
    note ch = subtree_children [OF sub False n(2)]
    have al: "\<not> is_allocated (buddy_infos s (a + 20))" using sub False by (simp add: subtree_def)
    have IH: "search_ok len s k (node_left n) b (j - 1) l"
        "search_ok len s k (node_right n) (b + 2 ^ (j - 1)) (j - 1) r"
      using Node.IH(1) [OF ch(1)] Node.IH(2) [OF ch(2)] Node.prems(2) by auto
    show ?thesis
    proof (cases "fits len j")
      case True
      with find_space_inner_fits [OF Node.prems(1) al True False] False show ?thesis
        by (simp add: search_ok_def)
    next
      case nofit: False
      from search_inner [OF sub False n(2) nofit IH] n(1) show ?thesis by simp
    qed
  qed
qed (simp add: subtree_def)

section \<open>The pages of a block\<close>

definition free_frames :: "mm_state \<Rightarrow> u32 set" where
  "free_frames m = {f. unat f < 1048576 \<and> \<not> ISALLOCATED_PAGE m f}"

text \<open>One page that is not in use, with a free frame left.\<close>

lemma mm_alloc_page:
  assumes "mm_inv m" "\<not> VM_ISALLOCATED_PAGE m (page_of v)" "free_frames m \<noteq> {}"
  obtains m' where "mm_alloc v 4096 0 m = Some (SYS_RET_NO_ERROR, Some (page_of v * 4096), m')"
    and "mm_step m m'" "mm_inv m'" "mm_available_block_count m' = mm_available_block_count m"
    and "\<And>p. VM_ISALLOCATED_PAGE m' p \<longleftrightarrow> p = page_of v \<or> VM_ISALLOCATED_PAGE m p"
    and "card (free_frames m) = Suc (card (free_frames m'))"
proof -
  have small: "unat (4096 :: u32) < 8192" by simp
  show ?thesis
  proof (cases rule: mm_alloc_cases [OF small, of v 0 m])
    case (2 f)
    let ?m = "mm_after_alloc v f m"
    have f: "f \<in> free_frames m" using 2(2) by (auto simp: lowest_free_def free_frames_def)
    have "free_frames ?m = free_frames m - {f}"
      by (auto simp: free_frames_def mm_after_alloc_def frames.used_mark)
    then have card: "card (free_frames m) = Suc (card (free_frames ?m))" using card_Suc_Diff1 [OF _ f] by simp
    have step: "mm_step m ?m" using 2(3) small by (intro mm_step.alloc)
    have avail: "mm_available_block_count ?m = mm_available_block_count m"
      by (simp add: mm_after_alloc_def VM_ALLOC_PAGE_def ALLOC_PAGE_def)
    have marks: "VM_ISALLOCATED_PAGE ?m p \<longleftrightarrow> p = page_of v \<or> VM_ISALLOCATED_PAGE m p" for p
      by (auto simp: mm_after_alloc_def pages.used_mark)
    show ?thesis by (rule that [OF 2(3) step mm_step_inv [OF step assms(1)] avail marks card])
  qed (use assms in \<open>auto simp: free_frames_def\<close>)
qed

text \<open>\<open>n\<close> consecutive pages, none of them in use: all become mapped and no other one does.\<close>

definition pages_mapped :: "nat \<Rightarrow> nat \<Rightarrow> mm_state \<Rightarrow> mm_state \<Rightarrow> bool" where
  "pages_mapped p n m m' \<longleftrightarrow> mm_step\<^sup>*\<^sup>* m m' \<and> mm_inv m' \<and>
     mm_available_block_count m' = mm_available_block_count m \<and>
     (\<forall>q. VM_ISALLOCATED_PAGE m' q \<longleftrightarrow> p \<le> unat q \<and> unat q < p + n \<or> VM_ISALLOCATED_PAGE m q) \<and>
     card (free_frames m) = card (free_frames m') + n"

lemma pages_mapped_step:
  assumes "mm_step m m1" "mm_available_block_count m1 = mm_available_block_count m"
    and "\<And>q. VM_ISALLOCATED_PAGE m1 q \<longleftrightarrow> unat q = p \<or> VM_ISALLOCATED_PAGE m q"
    and "card (free_frames m) = Suc (card (free_frames m1))" "pages_mapped (Suc p) n m1 m'"
  shows "pages_mapped p (Suc n) m m'"
proof -
  have split: "p \<le> a \<and> a < p + Suc n \<longleftrightarrow> a = p \<or> Suc p \<le> a \<and> a < Suc p + n" for a :: nat by auto
  have "mm_step\<^sup>*\<^sup>* m m'" using assms(1,5) by (simp add: pages_mapped_def converse_rtranclp_into_rtranclp)
  moreover have "VM_ISALLOCATED_PAGE m' q \<longleftrightarrow> p \<le> unat q \<and> unat q < p + Suc n \<or> VM_ISALLOCATED_PAGE m q" for q
    using assms(3,5) split [of "unat q"] by (auto simp: pages_mapped_def)
  ultimately show ?thesis using assms(2,4,5) by (simp add: pages_mapped_def)
qed

lemma page_of_base_addr: "p < 1048576 \<Longrightarrow> page_of (of_nat (p * 4096)) = of_nat p"
  using page_of_mult [of "of_nat p"] by (simp add: unat_of_nat_u32)

lemma ucast_add_down: "ucast (x + y :: u64) = (ucast x + ucast y :: u32)"
proof -
  have "(a mod 18446744073709551616) mod 4294967296 = a mod (4294967296 :: nat)" for a
    by (rule mod_mod_cancel) simp
  then show ?thesis
    by (simp add: word_unat_eq_iff unsigned_ucast_eq take_bit_eq_mod unat_word_ariths mod_simps)
qed

text \<open>One step of the loop over the pages.\<close>

lemma page_loop_step:
  fixes q :: u32 and i :: u64
  assumes "p + Suc n \<le> 1048576" "ucast i = (of_nat (p * 4096) :: u32)" "unat i + Suc n * 4096 < 18446744073709551616"
  shows "page_of (ucast i) = (of_nat p :: u32)" "q = page_of (ucast i) \<longleftrightarrow> unat q = p"
    "i + of_nat (Suc n * 4096) = (i + 4096) + of_nat (n * 4096)" "i < i + of_nat (Suc n * 4096)"
    "unat (i + 4096) = unat i + 4096" "ucast (i + 4096) = (of_nat (Suc p * 4096) :: u32)"
proof -
  have up: "unat (of_nat p :: u32) = p" using assms(1) by (simp add: unat_of_nat_u32)
  show pg: "page_of (ucast i) = (of_nat p :: u32)" unfolding assms(2) by (rule page_of_base_addr) (use assms(1) in simp)
  show "q = page_of (ucast i) \<longleftrightarrow> unat q = p" using up by (auto simp: pg word_unat_eq_iff)
  show "i + of_nat (Suc n * 4096) = (i + 4096) + of_nat (n * 4096)" by (simp add: algebra_simps)
  have "unat (of_nat (Suc n * 4096) :: u64) = Suc n * 4096" using assms(1) by (simp only: unat_of_nat) simp
  then have "unat (i + of_nat (Suc n * 4096)) = unat i + Suc n * 4096"
    using assms(3) by (subst unat_add_lem [THEN iffD1]) simp_all
  then show "i < i + of_nat (Suc n * 4096)" by (simp add: word_less_nat_alt)
  show "unat (i + 4096) = unat i + 4096" using assms(3) by (simp add: unat_word_ariths)
  have "(of_nat (Suc p * 4096) :: u32) = of_nat (p * 4096) + 4096" by (simp add: add.commute)
  then show "ucast (i + 4096) = (of_nat (Suc p * 4096) :: u32)" unfolding ucast_add_down assms(2) by simp
qed

lemma map_pages_ok:
  assumes "mm_inv m" "n \<le> card (free_frames m)" "p + n \<le> 1048576"
    and "\<And>q. p \<le> unat q \<Longrightarrow> unat q < p + n \<Longrightarrow> \<not> VM_ISALLOCATED_PAGE m q"
    and "ucast i = (of_nat (p * 4096) :: u32)" "unat i + n * 4096 < 18446744073709551616"
  shows "\<exists>m'. map_pages i (i + of_nat (n * 4096)) m = Some (SYS_RET_NO_ERROR, m') \<and> pages_mapped p n m m'"
  using assms
proof (induction n arbitrary: m p i)
  case 0
  then show ?case by (auto simp: map_pages.simps pages_mapped_def)
next
  case (Suc n)
  note st = page_loop_step [OF Suc.prems(3,5,6)]
  have "free_frames m \<noteq> {}" using Suc.prems(2) by auto
  moreover have "\<not> VM_ISALLOCATED_PAGE m (page_of (ucast i))"
    using Suc.prems(4) [of "page_of (ucast i)"] st(2) [of "page_of (ucast i)"] by simp
  ultimately obtain m1 where m1: "mm_alloc (ucast i) 4096 0 m = Some (SYS_RET_NO_ERROR, Some (page_of (ucast i) * 4096), m1)"
      "mm_step m m1" "mm_inv m1" "mm_available_block_count m1 = mm_available_block_count m"
      "\<And>q. VM_ISALLOCATED_PAGE m1 q \<longleftrightarrow> q = page_of (ucast i) \<or> VM_ISALLOCATED_PAGE m q"
      "card (free_frames m) = Suc (card (free_frames m1))"
    using mm_alloc_page [OF Suc.prems(1)] by metis
  have "\<exists>m'. map_pages (i + 4096) (i + 4096 + of_nat (n * 4096)) m1 = Some (SYS_RET_NO_ERROR, m') \<and>
      pages_mapped (Suc p) n m1 m'"
    using m1 Suc.prems st(2,5,6) by (intro Suc.IH) auto
  then obtain m' where "map_pages (i + 4096) (i + of_nat (Suc n * 4096)) m1 = Some (SYS_RET_NO_ERROR, m')"
    "pages_mapped (Suc p) n m1 m'" unfolding st(3) by blast
  moreover from pages_mapped_step [OF m1(2,4) _ m1(6) this(2)] m1(5) st(2) have "pages_mapped p (Suc n) m m'" by simp
  ultimately show ?case using st(4) m1(1) by (subst map_pages.simps) auto
qed

text \<open>Without enough free frames the loop has no result: the search for a frame leaves the bitmap.\<close>

lemma map_pages_stuck:
  assumes "mm_inv m" "card (free_frames m) < n" "p + n \<le> 1048576"
    and "\<And>q. p \<le> unat q \<Longrightarrow> unat q < p + n \<Longrightarrow> \<not> VM_ISALLOCATED_PAGE m q"
    and "ucast i = (of_nat (p * 4096) :: u32)" "unat i + n * 4096 < 18446744073709551616"
  shows "map_pages i (i + of_nat (n * 4096)) m = None"
  using assms
proof (induction n arbitrary: m p i)
  case (Suc n)
  note st = page_loop_step [OF Suc.prems(3,5,6)]
  have vm: "\<not> VM_ISALLOCATED_PAGE m (page_of (ucast i))"
    using Suc.prems(4) [of "page_of (ucast i)"] st(2) [of "page_of (ucast i)"] by simp
  show ?case
  proof (cases "free_frames m = {}")
    case True
    have "unat (4096 :: u32) < 8192" by simp
    then have "mm_alloc (ucast i) 4096 0 m = None"
      by (cases rule: mm_alloc_cases [of 4096 "ucast i" 0 m]) (use vm True in \<open>auto simp: free_frames_def lowest_free_def\<close>)
    then show ?thesis using st(4) by (subst map_pages.simps) simp
  next
    case False
    then obtain m1 where m1: "mm_alloc (ucast i) 4096 0 m = Some (SYS_RET_NO_ERROR, Some (page_of (ucast i) * 4096), m1)"
        "mm_step m m1" "mm_inv m1"
        "\<And>q. VM_ISALLOCATED_PAGE m1 q \<longleftrightarrow> q = page_of (ucast i) \<or> VM_ISALLOCATED_PAGE m q"
        "card (free_frames m) = Suc (card (free_frames m1))"
      using mm_alloc_page [OF Suc.prems(1) vm False] by metis
    have "map_pages (i + 4096) (i + 4096 + of_nat (n * 4096)) m1 = None"
      using m1 Suc.prems st(2,5,6) by (intro Suc.IH [of m1 "Suc p" "i + 4096"]) auto
    then have "map_pages (i + 4096) (i + of_nat (Suc n * 4096)) m1 = None" unfolding st(3) .
    then show ?thesis using st(4) m1(1) by (subst map_pages.simps) simp
  qed
qed simp

section \<open>Allocation\<close>

lemma blocks_aligned:
  "(c, i, al) \<in> set (blocks b j t) \<Longrightarrow> depth_ok j t \<Longrightarrow> 4096 dvd b \<Longrightarrow> 4096 dvd c \<and> 12 \<le> i"
proof (induction t arbitrary: b j)
  case (Split l r)
  have "(4096 :: nat) dvd 2 ^ (j - 1)" using Split.prems(2) le_imp_power_dvd [of 12 "j - 1" "2 :: nat"] by (cases "12 \<le> j - 1") auto
  then have "4096 dvd b + 2 ^ (j - 1)" using Split.prems(3) by (rule dvd_add [rotated])
  with Split show ?case by auto
qed auto

lemma blocks_inside:
  assumes "(c, i, al) \<in> set (blocks b j t)" "depth_ok j t"
  shows "b \<le> c \<and> c + 2 ^ i \<le> b + 2 ^ j"
proof -
  have "block_range (c, i, al) \<subseteq> \<Union> (block_range ` set (blocks b j t))" using assms(1) by (intro Union_upper imageI)
  then have "{c..<c + 2 ^ i} \<subseteq> {b..<b + 2 ^ j}" using blocks_cover [OF assms(2), of b] by (simp add: block_range_def)
  then show ?thesis by simp
qed

definition user_blocks :: "buddy_state \<Rightarrow> u32 tree \<Rightarrow> (nat \<times> nat) set" where
  "user_blocks s t = allocated 0x10000000 31 (blk_of (buddy_infos s) t)"

text \<open>
  The allocator's invariant: the tree covers the user range, and a page of that range is in use exactly
  when it lies in an allocated block. \<open>k\<close> nodes of the arena are taken.
\<close>

definition buddy_inv :: "buddy_state \<Rightarrow> nat \<Rightarrow> u32 tree \<Rightarrow> bool" where
  "buddy_inv s k t \<longleftrightarrow> subtree s k (buddy_root s) 0x10000000 31 t \<and> mm_inv (buddy_mm s) \<and>
     (\<forall>q. 65536 \<le> unat q \<and> unat q < 589824 \<longrightarrow>
        VM_ISALLOCATED_PAGE (buddy_mm s) q =
          (\<exists>(c, i) \<in> user_blocks s t. c \<le> unat q * 4096 \<and> unat q * 4096 < c + 2 ^ i))"

lemma ucast_scast: "ucast (scast (x :: u32) :: u64) = x"
  by (rule bit_word_eqI) (auto simp: bit_ucast_iff bit_signed_iff)

lemma mod_negative:
  assumes "- m \<le> a" "a < 0"
  shows "a mod m = a + (m :: int)"
proof -
  have "(a + m) mod m = a + m" using assms by (intro mod_pos_pos_trivial) auto
  then show ?thesis by simp
qed

lemma unat_scast_bound: "unat (scast (x :: u32) :: u64) \<le> 18446744069414584320 + unat x"
proof -
  have u: "uint (scast x :: u64) = sint x mod 2 ^ 64"
    by (simp only: scast_eq uint_word_of_int) simp
  have r: "- 2147483648 \<le> sint x" "sint x < 2147483648"
    using sint_greater_eq [of x] sint_less [of x] by simp_all
  have ux: "uint x = sint x mod 4294967296" unfolding uint_sint [of x] take_bit_eq_mod by simp
  have "uint (scast x :: u64) \<le> 18446744069414584320 + uint x"
  proof (cases "0 \<le> sint x")
    case True
    then have "sint x mod 2 ^ 64 = sint x" "sint x mod 4294967296 = sint x"
      using r by (auto intro: mod_pos_pos_trivial)
    with u ux show ?thesis by simp
  next
    case False
    then have "sint x mod 2 ^ 64 = sint x + 2 ^ 64" "sint x mod 4294967296 = sint x + 4294967296"
      using r by (auto intro: mod_negative)
    with u ux show ?thesis by simp
  qed
  then have "nat (uint (scast x :: u64)) \<le> nat (18446744069414584320 + uint x)" by (rule nat_mono)
  then show ?thesis by (simp add: nat_add_distrib)
qed

text \<open>A block the search may return: where it lies.\<close>

lemma search_place:
  assumes "blk_search True len 0x10000000 31 (blk_of (buddy_infos s) t) = Some (um, b', j')"
    and "buddy_inv s k t"
  shows "0x10000000 \<le> unat b'" "unat b' + 2 ^ j' \<le> 0x90000000" "4096 dvd unat b'" "12 \<le> j'" "j' \<le> 31"
    and "\<And>q. unat b' div 4096 \<le> unat q \<Longrightarrow> unat q < unat b' div 4096 + 2 ^ (j' - 12) \<Longrightarrow>
           \<not> VM_ISALLOCATED_PAGE (buddy_mm s) q"
proof -
  have dep: "depth_ok 31 (blk_of (buddy_infos s) t)"
    using assms(2) by (auto simp: buddy_inv_def subtree_def intro: depth_ok_layout)
  have um: "allocated 0x10000000 31 um = insert (unat b', j') (user_blocks s t)" "depth_ok 31 um"
    using search_allocates [OF assms(1) dep] by (simp_all add: user_blocks_def)
  have mem: "(unat b', j', True) \<in> set (blocks 0x10000000 31 um)" using um(1) by (auto simp: allocated_def)
  show in1: "0x10000000 \<le> unat b'" and in2: "unat b' + 2 ^ j' \<le> 0x90000000"
    using blocks_inside [OF mem um(2)] by simp_all
  show al: "4096 dvd unat b'" and j: "12 \<le> j'" using blocks_aligned [OF mem um(2)] by simp_all
  show "j' \<le> 31" using search_size [OF assms(1) dep] by simp
  fix q :: u32
  assume q: "unat b' div 4096 \<le> unat q" "unat q < unat b' div 4096 + 2 ^ (j' - 12)"
  have "(2 :: nat) ^ j' = 2 ^ (j' - 12) * 2 ^ 12" using j by (simp only: power_add [symmetric]) simp
  then have pow: "(2 :: nat) ^ j' = 2 ^ (j' - 12) * 4096" by simp
  have "unat b' div 4096 * 4096 = unat b'" using al by simp
  then have range: "unat b' \<le> unat q * 4096" "unat q * 4096 < unat b' + 2 ^ j'"
    using q mult_le_mono1 [OF q(1), of 4096] by (simp_all add: pow)
  have "65536 \<le> unat q" "unat q < 589824" using range in1 in2 by linarith+
  moreover have "\<not> (\<exists>(c, i) \<in> user_blocks s t. c \<le> unat q * 4096 \<and> unat q * 4096 < c + 2 ^ i)"
  proof
    assume "\<exists>(c, i) \<in> user_blocks s t. c \<le> unat q * 4096 \<and> unat q * 4096 < c + 2 ^ i"
    then obtain c i where ci: "(c, i) \<in> user_blocks s t" "unat q * 4096 \<in> {c..<c + 2 ^ i}" by auto
    have "{unat b'..<unat b' + 2 ^ j'} \<inter> {c..<c + 2 ^ i} = {}"
      using search_block [OF assms(1) dep] ci(1) by (auto simp: user_blocks_def)
    with ci(2) range show False by auto
  qed
  ultimately show "\<not> VM_ISALLOCATED_PAGE (buddy_mm s) q" using assms(2) by (simp add: buddy_inv_def)
qed

lemma block_pages:
  assumes inv: "buddy_inv s k t"
    and search: "blk_search True len 0x10000000 31 (blk_of (buddy_infos s) t) = Some (um, b', j')"
  shows "ucast (2 ^ j' :: u32) = (of_nat (2 ^ (j' - 12) * 4096) :: u64)" "ucast (scast b' :: u64) = (of_nat (unat b' div 4096 * 4096) :: u32)"
    "unat (scast b' :: u64) + 2 ^ (j' - 12) * 4096 < 18446744073709551616" "unat b' div 4096 + 2 ^ (j' - 12) \<le> 1048576"
proof -
  note pl = search_place [OF search inv]
  let ?n = "2 ^ (j' - 12) :: nat" and ?p = "unat b' div 4096"
  have "(2 :: nat) ^ j' = 2 ^ (j' - 12) * 2 ^ 12" using pl(4) by (simp only: power_add [symmetric]) simp
  then have pow: "(2 :: nat) ^ j' = ?n * 4096" by simp
  have "ucast (2 ^ j' :: u32) = (of_nat (unat (2 ^ j' :: u32)) :: u64)" by simp
  then show "ucast (2 ^ j' :: u32) = (of_nat (?n * 4096) :: u64)"
    unfolding unat_block [OF pl(5)] pow .
  have base: "?p * 4096 = unat b'" using pl(3) by simp
  show "ucast (scast b' :: u64) = (of_nat (?p * 4096) :: u32)" unfolding base by (simp add: ucast_scast)
  show "unat (scast b' :: u64) + ?n * 4096 < 18446744073709551616"
    using unat_scast_bound [of b'] pl(2) by (simp flip: pow)
  have "(?p + ?n) * 4096 \<le> 0x90000000" using pl(2) base pow by (simp add: distrib_right)
  then show "?p + ?n \<le> 1048576" by simp
qed

lemma map_block:
  assumes inv: "buddy_inv s k t" and m: "m = buddy_mm s"
    and search: "blk_search True len 0x10000000 31 (blk_of (buddy_infos s) t) = Some (um, b', j')"
  shows "2 ^ (j' - 12) \<le> card (free_frames m) \<Longrightarrow>
      \<exists>m'. map_pages (scast b') (scast b' + ucast (2 ^ j' :: u32)) m = Some (SYS_RET_NO_ERROR, m') \<and>
        pages_mapped (unat b' div 4096) (2 ^ (j' - 12)) m m'"
    and "card (free_frames m) < 2 ^ (j' - 12) \<Longrightarrow> map_pages (scast b') (scast b' + ucast (2 ^ j' :: u32)) m = None"
proof -
  note pl = search_place(6) [OF search inv] and bp = block_pages [OF inv search]
  have mi: "mm_inv m" using inv m by (simp add: buddy_inv_def)
  show "\<exists>m'. map_pages (scast b') (scast b' + ucast (2 ^ j' :: u32)) m = Some (SYS_RET_NO_ERROR, m') \<and>
      pages_mapped (unat b' div 4096) (2 ^ (j' - 12)) m m'" if "2 ^ (j' - 12) \<le> card (free_frames m)"
    unfolding bp(1) using that pl m mi bp by (intro map_pages_ok) auto
  show "map_pages (scast b') (scast b' + ucast (2 ^ j' :: u32)) m = None" if "card (free_frames m) < 2 ^ (j' - 12)"
    unfolding bp(1) using that pl m mi bp by (intro map_pages_stuck) auto
qed

lemma pages_in_block:
  fixes q :: nat
  assumes "4096 dvd b" "12 \<le> j"
  shows "b \<le> q * 4096 \<and> q * 4096 < b + 2 ^ j \<longleftrightarrow> b div 4096 \<le> q \<and> q < b div 4096 + 2 ^ (j - 12)"
proof -
  obtain p where p: "b = p * 4096" using assms(1) by (auto simp: mult.commute)
  have "(2 :: nat) ^ j = 2 ^ (j - 12) * 2 ^ 12" using assms(2) by (simp only: power_add [symmetric]) simp
  then have pow: "(2 :: nat) ^ j = 2 ^ (j - 12) * 4096" by simp
  have "b + 2 ^ j = (p + 2 ^ (j - 12)) * 4096" unfolding p pow by (simp add: distrib_right)
  then have "q * 4096 < b + 2 ^ j \<longleftrightarrow> q < p + 2 ^ (j - 12)" by (simp only: mult_less_cancel2) simp
  moreover have "b \<le> q * 4096 \<longleftrightarrow> p \<le> q" unfolding p by simp
  ultimately show ?thesis by (simp add: p)
qed

text \<open>Marking the block found and taking over its pages keeps the invariant.\<close>

lemma buddy_inv_mark:
  assumes inv: "buddy_inv s k t"
    and search: "blk_search True len 0x10000000 31 (blk_of (buddy_infos s) t) = Some (um, b', j')"
    and f: "found_at s k (buddy_root s) 0x10000000 31 t s1 k' t' q u um b' j'"
    and pg: "pages_mapped (unat b' div 4096) (2 ^ (j' - 12)) (buddy_mm s) m'"
    and s': "s' = s1\<lparr>buddy_mm := m', buddy_infos := (buddy_infos s1)(q + 20 :=
               (buddy_infos s1 (q + 20))\<lparr>is_allocated := True\<rparr>)\<rparr>"
  shows "buddy_inv s' k' t' \<and> blk_of (buddy_infos s') t' = um \<and>
     user_blocks s' t' = insert (unat b', j') (user_blocks s t)"
proof -
  note pl = search_place [OF search inv]
  have dep: "depth_ok 31 (blk_of (buddy_infos s) t)"
    using inv by (auto simp: buddy_inv_def subtree_def intro: depth_ok_layout)
  have ds: "buddy_infos s' = (buddy_infos s1)(q + 20 := (buddy_infos s1 (q + 20))\<lparr>is_allocated := True\<rparr>)"
    by (simp add: s')
  have blk: "blk_of (buddy_infos s') t' = um" and lay: "layout (buddy_infos s') 0x10000000 31 t'"
    using f unfolding found_at_def Let_def ds by blast+
  have users: "user_blocks s' t' = insert (unat b', j') (user_blocks s t)"
    using search_allocates [OF search dep] by (simp add: user_blocks_def blk)
  have root: "buddy_root s' = buddy_root s" using f by (simp add: found_at_def confined_def s')
  have "subtree s' k' (buddy_root s') 0x10000000 31 t'"
    using f lay by (simp add: found_at_def subtree_def root) (simp add: s' arena_ok_def)
  moreover have "mm_inv (buddy_mm s')" using pg by (simp add: s' pages_mapped_def)
  moreover have "VM_ISALLOCATED_PAGE (buddy_mm s') x =
      (\<exists>(c, i) \<in> user_blocks s' t'. c \<le> unat x * 4096 \<and> unat x * 4096 < c + 2 ^ i)"
    if "65536 \<le> unat x \<and> unat x < 589824" for x
  proof -
    have "VM_ISALLOCATED_PAGE (buddy_mm s') x \<longleftrightarrow>
        unat b' \<le> unat x * 4096 \<and> unat x * 4096 < unat b' + 2 ^ j' \<or> VM_ISALLOCATED_PAGE (buddy_mm s) x"
      using pg unfolding pages_in_block [OF pl(3,4)] by (simp add: pages_mapped_def s')
    then show ?thesis unfolding users using inv that by (simp add: buddy_inv_def)
  qed
  ultimately show ?thesis using blk users by (simp add: buddy_inv_def)
qed

text \<open>Allocation on every branch, for an arena with room for the 38 nodes that one call may need.\<close>

lemma buddy_alloc_spec:
  assumes inv: "buddy_inv s k t" and room: "k + 38 \<le> max_nodes"
    and mem: "len \<le> mm_available_block_count (buddy_mm s) * 4096"
    and search: "blk_search True len 0x10000000 31 (blk_of (buddy_infos s) t) = Some (um, b', j')"
    and frames: "2 ^ (j' - 12) \<le> card (free_frames (buddy_mm s))"
  shows "\<exists>s' k' t'. buddy_allocator__alloc len s = Some (SYS_RET_NO_ERROR, Some b', s') \<and>
     buddy_inv s' k' t' \<and> k' \<le> k + 38 \<and> blk_of (buddy_infos s') t' = um \<and>
     user_blocks s' t' = insert (unat b', j') (user_blocks s t) \<and> mm_step\<^sup>*\<^sup>* (buddy_mm s) (buddy_mm s') \<and>
     mm_available_block_count (buddy_mm s') = mm_available_block_count (buddy_mm s) \<and>
     card (free_frames (buddy_mm s)) = card (free_frames (buddy_mm s')) + 2 ^ (j' - 12)"
proof -
  have sub: "subtree s k (buddy_root s) 0x10000000 31 t" using inv by (simp add: buddy_inv_def)
  have "map_option snd (blk_search False len 0x10000000 31 (blk_of (buddy_infos s) t)) = Some (b', j')"
    using blk_search_mark [of False len _ _ _ True] search by simp
  then obtain u where u: "blk_search False len 0x10000000 31 (blk_of (buddy_infos s) t) = Some (u, b', j')" by auto
  have "search_ok len s k (buddy_root s) 0x10000000 31 t" using sub room by (intro find_space_spec) auto
  then obtain s1 k' t' q where fs: "buddy_allocator__find_space len (buddy_root s) s = Some (SYS_RET_NO_ERROR, Some q, s1)"
    and k': "k' \<le> k + 38" and f: "found_at s k (buddy_root s) 0x10000000 31 t s1 k' t' q u um b' j'"
    using u search by (auto simp: search_ok_def)
  note info = found_ok_at(3) [OF f]
  obtain n where n: "buddy_nodes s1 q = Some n" "node_value n = q + 20"
  proof -
    have "buddy_nodes s1 q \<noteq> None" using info by (cases "buddy_nodes s1 q") (auto simp: info_of_def)
    moreover have "arena_ok s1 k'" using f by (simp add: found_at_def subtree_def)
    ultimately show ?thesis using that by (auto simp: arena_ok_def)
  qed
  have mm1: "buddy_mm s1 = buddy_mm s" using f by (simp add: found_at_def confined_def)
  from map_block(1) [OF inv refl search frames] obtain m' where
    m': "map_pages (scast b') (scast b' + ucast (2 ^ j' :: u32)) (buddy_mm s) = Some (SYS_RET_NO_ERROR, m')"
    and pg: "pages_mapped (unat b' div 4096) (2 ^ (j' - 12)) (buddy_mm s) m'" by blast
  define s' where "s' = s1\<lparr>buddy_mm := m', buddy_infos := (buddy_infos s1)(q + 20 :=
      (buddy_infos s1 (q + 20))\<lparr>is_allocated := True\<rparr>)\<rparr>"
  have "buddy_allocator__alloc len s = Some (SYS_RET_NO_ERROR, Some b', s')"
    using mem fs info m' n mm1 by (simp add: buddy_allocator__alloc_def Let_def s'_def set_info_def)
  moreover note buddy_inv_mark [OF inv search f pg s'_def]
  moreover have "buddy_mm s' = m'" by (simp add: s'_def)
  ultimately show ?thesis using k' pg unfolding pages_mapped_def by blast
qed

lemma buddy_alloc_stuck:
  assumes inv: "buddy_inv s k t" and room: "k + 38 \<le> max_nodes"
    and mem: "len \<le> mm_available_block_count (buddy_mm s) * 4096"
    and search: "blk_search True len 0x10000000 31 (blk_of (buddy_infos s) t) = Some (um, b', j')"
    and frames: "card (free_frames (buddy_mm s)) < 2 ^ (j' - 12)"
  shows "buddy_allocator__alloc len s = None"
proof -
  have sub: "subtree s k (buddy_root s) 0x10000000 31 t" using inv by (simp add: buddy_inv_def)
  have "map_option snd (blk_search False len 0x10000000 31 (blk_of (buddy_infos s) t)) = Some (b', j')"
    using blk_search_mark [of False len _ _ _ True] search by simp
  then obtain u where u: "blk_search False len 0x10000000 31 (blk_of (buddy_infos s) t) = Some (u, b', j')" by auto
  have "search_ok len s k (buddy_root s) 0x10000000 31 t" using sub room by (intro find_space_spec) auto
  then obtain s1 k' t' q where fs: "buddy_allocator__find_space len (buddy_root s) s = Some (SYS_RET_NO_ERROR, Some q, s1)"
    and f: "found_at s k (buddy_root s) 0x10000000 31 t s1 k' t' q u um b' j'"
    using u search by (auto simp: search_ok_def)
  have "buddy_mm s1 = buddy_mm s" using f by (simp add: found_at_def confined_def)
  then show ?thesis using mem fs found_ok_at(3) [OF f] map_block(2) [OF inv refl search frames]
    by (simp add: buddy_allocator__alloc_def Let_def)
qed

lemma buddy_alloc_fail:
  assumes "buddy_inv s k t" "k + 38 \<le> max_nodes" "len \<le> mm_available_block_count (buddy_mm s) * 4096"
    and "blk_search True len 0x10000000 31 (blk_of (buddy_infos s) t) = None"
  shows "buddy_allocator__alloc len s = Some (SYS_RET_NOT_FOUND, None, s)"
proof -
  have "search_ok len s k (buddy_root s) 0x10000000 31 t"
    using assms(1,2) by (intro find_space_spec) (auto simp: buddy_inv_def)
  moreover have "blk_search False len 0x10000000 31 (blk_of (buddy_infos s) t) = None"
    using blk_search_mark [of False len "0x10000000" 31 "blk_of (buddy_infos s) t" True] assms(4) by simp
  ultimately show ?thesis using assms(3) by (simp add: search_ok_def buddy_allocator__alloc_def Let_def)
qed

section \<open>Initialisation\<close>

lemma arena_pages_ok:
  assumes "mm_inv m" "n \<le> card (free_frames m)" "819200 + i + n \<le> 1048576"
    and "\<And>q. 819200 + i \<le> unat q \<Longrightarrow> unat q < 819200 + i + n \<Longrightarrow> \<not> VM_ISALLOCATED_PAGE m q"
  shows "\<exists>m'. arena_pages i n m = Some m' \<and> pages_mapped (819200 + i) n m m'"
  using assms
proof (induction n arbitrary: m i)
  case 0
  then show ?case by (auto simp: pages_mapped_def)
next
  case (Suc n)
  let ?v = "0xC8000000 + of_nat i * 4096 :: u32"
  have up: "unat (of_nat (819200 + i) :: u32) = 819200 + i" using Suc.prems(3) by (intro unat_of_nat_u32) simp
  have "?v = of_nat ((819200 + i) * 4096)" by (simp add: distrib_right)
  then have pg: "page_of ?v = of_nat (819200 + i)" using Suc.prems(3) page_of_base_addr [of "819200 + i"] by simp
  have "free_frames m \<noteq> {}" using Suc.prems(2) by auto
  moreover have "\<not> VM_ISALLOCATED_PAGE m (page_of ?v)" unfolding pg using Suc.prems(4) up by simp
  ultimately obtain m1 where m1: "mm_alloc ?v 4096 0 m = Some (SYS_RET_NO_ERROR, Some (page_of ?v * 4096), m1)"
      "mm_step m m1" "mm_inv m1" "mm_available_block_count m1 = mm_available_block_count m"
      "\<And>q. VM_ISALLOCATED_PAGE m1 q \<longleftrightarrow> q = page_of ?v \<or> VM_ISALLOCATED_PAGE m q"
      "card (free_frames m) = Suc (card (free_frames m1))"
    using mm_alloc_page [OF Suc.prems(1)] by metis
  have at: "q = page_of ?v \<longleftrightarrow> unat q = 819200 + i" for q :: u32
    unfolding pg word_unat_eq_iff up ..
  have "\<exists>m'. arena_pages (i + 1) n m1 = Some m' \<and> pages_mapped (819200 + (i + 1)) n m1 m'"
    using m1 Suc.prems at by (intro Suc.IH) auto
  then obtain m' where "arena_pages (i + 1) n m1 = Some m'" "pages_mapped (Suc (819200 + i)) n m1 m'" by auto
  moreover from pages_mapped_step [OF m1(2,4) _ m1(6) this(2)] m1(5) at
  have "pages_mapped (819200 + i) (Suc n) m m'" by simp
  ultimately show ?case using m1(1) by simp
qed

lemma buddy_init_spec:
  assumes "mm_inv (buddy_mm s)" "5120 \<le> card (free_frames (buddy_mm s))" "buddy_nodes s = Map.empty"
    and "\<And>q. 819200 \<le> unat q \<Longrightarrow> unat q < 824320 \<Longrightarrow> \<not> VM_ISALLOCATED_PAGE (buddy_mm s) q"
    and "\<And>q. 65536 \<le> unat q \<Longrightarrow> unat q < 589824 \<Longrightarrow> \<not> VM_ISALLOCATED_PAGE (buddy_mm s) q"
  shows "\<exists>s' t. buddy_allocator__init s = Some (SYS_RET_NO_ERROR, s') \<and> buddy_inv s' 1 t \<and>
     blk_of (buddy_infos s') t = Block False \<and>
     mm_available_block_count (buddy_mm s') = mm_available_block_count (buddy_mm s) \<and>
     card (free_frames (buddy_mm s)) = card (free_frames (buddy_mm s')) + 5120"
proof -
  obtain m where m: "arena_pages 0 5120 (buddy_mm s) = Some m" and pg: "pages_mapped 819200 5120 (buddy_mm s) m"
    using arena_pages_ok [of "buddy_mm s" 5120 0] assms by auto
  define s0 where "s0 = s\<lparr>buddy_mm := m, buddy_headers := (buddy_headers s)
      (tree_location := \<lparr>chunk_used = True, chunk_size = tree_chunk\<rparr>,
       tree_location + tree_chunk := \<lparr>chunk_used = False, chunk_size = tree_area_size - tree_chunk\<rparr>)\<rparr>"
  have "tree_location + tree_chunk = chunk_addr 0" by (simp add: chunk_addr_def)
  then have "arena_ok s0 0"
    using assms(3) by (simp add: arena_ok_def s0_def tree_area_size_def) (simp add: tree_chunk_def)
  from alloc_node_spec [OF this] obtain s1 where
    s1: "buddy_allocator__alloc_node s0 = Some (SYS_RET_NO_ERROR, Some (node_addr 0), s1)"
      "arena_ok s1 (Suc 0)" "buddy_mm s1 = m"
      "buddy_nodes s1 = [node_addr 0 \<mapsto> fresh_node (node_addr 0)]"
    by (auto simp: s0_def assms(3))
  let ?i = "\<lparr>vaddr = 0x10000000, info_len = 0x80000000, is_allocated = False\<rparr>"
  define s2 where "s2 = s1\<lparr>buddy_infos := (buddy_infos s1)(node_addr 0 + 20 := ?i), buddy_root := node_addr 0\<rparr>"
  have info: "i\<lparr>info_len := 0x80000000, vaddr := 0x10000000, is_allocated := False\<rparr> = ?i" for i by (cases i) simp
  have "unat (tree_area_size div 4096) = 5120" by (simp add: tree_area_size_def)
  then have "buddy_allocator__init s = Some (SYS_RET_NO_ERROR, s2)"
    using m s1 by (simp add: buddy_allocator__init_def Let_def set_info_def fresh_node_def s2_def info flip: s0_def)
  moreover have "buddy_inv s2 1 (Node Leaf (node_addr 0) Leaf)"
  proof -
    have "arena_ok s2 1" using s1(2) by (simp add: s2_def arena_ok_def)
    then have "subtree s2 1 (buddy_root s2) 0x10000000 31 (Node Leaf (node_addr 0) Leaf)"
      using s1(4) node_not_null [of 0] by (simp add: subtree_def s2_def fresh_node_def)
    moreover have "user_blocks s2 (Node Leaf (node_addr 0) Leaf) = {}" by (simp add: user_blocks_def s2_def)
    ultimately show ?thesis using pg assms(5) s1(3) by (auto simp: buddy_inv_def pages_mapped_def s2_def)
  qed
  ultimately show ?thesis using pg s1(3) by (auto simp: pages_mapped_def s2_def)
qed

section \<open>Release\<close>

text \<open>The descent only follows right links (or left ones) from the root to a null link.\<close>

lemma free_descent_false:
  "tree_at (buddy_nodes s) p t \<Longrightarrow> t \<noteq> Leaf \<Longrightarrow> vaddr info \<noteq> addr \<Longrightarrow> free_descent s info addr p = Some False"
proof (induction t arbitrary: p)
  case (Node l a r)
  then obtain n where n: "buddy_nodes s a = Some n" "p = a" "tree_at (buddy_nodes s) (node_left n) l"
      "tree_at (buddy_nodes s) (node_right n) r" by (auto split: option.splits)
  have null: "tree_at h c t \<Longrightarrow> c = 0 \<longleftrightarrow> t = Leaf" for h c t by (cases t) auto
  from n Node.prems Node.IH(1) [OF n(3)] Node.IH(2) [OF n(4)] null [OF n(3)] null [OF n(4)] show ?case
    by (subst free_descent.simps) auto
qed simp

lemma unmap_pages_ok:
  assumes "p + n \<le> 1048575" "pde_ok (mm_paging m)"
  shows "\<exists>m'. unmap_pages (of_nat (p * 4096)) (of_nat ((p + n) * 4096)) m = Some m' \<and>
     (\<forall>w. mmu_walk (mm_paging m') w =
        (if p \<le> unat (page_of w) \<and> unat (page_of w) < p + n then None else mmu_walk (mm_paging m) w))"
  using assms
proof (induction n arbitrary: p m)
  case 0
  then show ?case by (auto simp: unmap_pages.simps)
next
  case (Suc n)
  let ?m = "snd (mm_free (of_nat (p * 4096)) m)" and ?a = "of_nat (p * 4096) :: u32"
  have pg: "page_of ?a = of_nat p" using Suc.prems by (intro page_of_base_addr) simp
  have up: "unat (of_nat p :: u32) = p" using Suc.prems by (intro unat_of_nat_u32) simp
  have pm: "mm_paging ?m = snd (arch_paging_unmap ?a (mm_paging m))" by (simp add: mm_free_def Let_def)
  have walk: "mmu_walk (mm_paging ?m) w = (if unat (page_of w) = p then None else mmu_walk (mm_paging m) w)" for w
    using pm unmap_walk [OF Suc.prems(2), of ?a w] pg up by (auto simp: word_unat_eq_iff)
  have pde: "pde_ok (mm_paging ?m)" unfolding pm using Suc.prems(2) by (rule pde_ok_unmap)
  have "unat ?a < unat (of_nat ((p + Suc n) * 4096) :: u32)"
    using Suc.prems by (subst (1 2) unat_of_nat_u32) auto
  then have lt: "?a < of_nat ((p + Suc n) * 4096)" by (simp only: word_less_nat_alt)
  have nx: "?a + 4096 = of_nat (Suc p * 4096)" by simp
  obtain m' where m': "unmap_pages (of_nat (Suc p * 4096)) (of_nat ((Suc p + n) * 4096)) ?m = Some m'"
    and w': "\<forall>w. mmu_walk (mm_paging m') w =
        (if Suc p \<le> unat (page_of w) \<and> unat (page_of w) < Suc p + n then None else mmu_walk (mm_paging ?m) w)"
    using Suc.IH [of "Suc p" ?m] Suc.prems pde by auto
  have "unmap_pages ?a (of_nat ((p + Suc n) * 4096)) m = Some m'"
    using lt m' unfolding nx [symmetric] by (subst unmap_pages.simps) simp
  moreover have "mmu_walk (mm_paging m') w =
      (if p \<le> unat (page_of w) \<and> unat (page_of w) < p + Suc n then None else mmu_walk (mm_paging m) w)" for w
    using w' walk [of w] by (cases "unat (page_of w) = p") auto
  ultimately show ?case by blast
qed

section \<open>Properties\<close>

text \<open>
  C8: allocation implements the abstract buddy allocator on every branch. A request larger than the
  count of free memory fails, a request for which the abstract search finds no block is answered with
  SYS\_RET\_NOT\_FOUND, both without a change; otherwise, given enough free frames, the block of the
  abstract search is returned, its pages are taken, the tree becomes that of the abstract search and
  the invariant holds again. One call uses at most 38 nodes of the arena.
\<close>

theorem buddy_alloc_refines:
  assumes "buddy_inv s k t" "k + 38 \<le> 524287"
  shows "if len > mm_available_block_count (buddy_mm s) * 4096
     then buddy_allocator__alloc len s = Some (SYS_RET_MEM_ALLOC_ERROR, None, s)
     else (case blk_search True len 0x10000000 31 (blk_of (buddy_infos s) t) of
       None \<Rightarrow> buddy_allocator__alloc len s = Some (SYS_RET_NOT_FOUND, None, s)
     | Some (u, b, j) \<Rightarrow> 2 ^ (j - 12) \<le> card (free_frames (buddy_mm s)) \<longrightarrow>
         (\<exists>s' k' t'. buddy_allocator__alloc len s = Some (SYS_RET_NO_ERROR, Some b, s') \<and>
            buddy_inv s' k' t' \<and> k' \<le> k + 38 \<and> blk_of (buddy_infos s') t' = u \<and>
            user_blocks s' t' = insert (unat b, j) (user_blocks s t)))"
proof (cases "len > mm_available_block_count (buddy_mm s) * 4096")
  case True
  then show ?thesis by (simp add: buddy_allocator__alloc_def Let_def)
next
  case False
  then have mem: "len \<le> mm_available_block_count (buddy_mm s) * 4096" by simp
  show ?thesis
  proof (cases "blk_search True len 0x10000000 31 (blk_of (buddy_infos s) t)")
    case None
    with buddy_alloc_fail [OF assms(1) _ mem None] assms(2) False show ?thesis by simp
  next
    case (Some x)
    obtain u b j where x: "x = (u, b, j)" by (cases x)
    with buddy_alloc_spec [OF assms(1) _ mem] Some assms(2) False show ?thesis by fastforce
  qed
qed

text \<open>Two blocks in use have no address in common, lie in the user range and are mapped.\<close>

lemma user_blocks_apart:
  assumes "buddy_inv s k t" "(c, i) \<in> user_blocks s t" "(d, l) \<in> user_blocks s t" "(c, i) \<noteq> (d, l)"
  shows "{c..<c + 2 ^ i} \<inter> {d..<d + 2 ^ l} = {}"
proof -
  let ?u = "blk_of (buddy_infos s) t"
  have dep: "depth_ok 31 ?u" using assms(1) by (auto simp: buddy_inv_def subtree_def intro: depth_ok_layout)
  have mem: "(c, i, True) \<in> set (blocks 0x10000000 31 ?u)" "(d, l, True) \<in> set (blocks 0x10000000 31 ?u)"
    using assms(2,3) by (auto simp: user_blocks_def allocated_def)
  have "block_range (c, i, True) \<inter> block_range (d, l, True) = {}"
    using sorted_wrt_pair [OF blocks_disjoint [OF dep, of "0x10000000"] mem] assms(4) by (auto simp: Int_commute)
  then show ?thesis by (simp add: block_range_def)
qed

lemma user_block_mapped:
  assumes "buddy_inv s k t" "(c, i) \<in> user_blocks s t"
  shows "0x10000000 \<le> c \<and> c + 2 ^ i \<le> 0x90000000 \<and>
     (\<forall>v. c \<le> unat v \<and> unat v < c + 2 ^ i \<longrightarrow>
        (\<exists>f. mmu_walk (mm_paging (buddy_mm s)) (page_of v * 4096) = Some f \<and> 16384 \<le> unat (page_of f)))"
proof -
  let ?u = "blk_of (buddy_infos s) t"
  have dep: "depth_ok 31 ?u" using assms(1) by (auto simp: buddy_inv_def subtree_def intro: depth_ok_layout)
  have mem: "(c, i, True) \<in> set (blocks 0x10000000 31 ?u)" using assms(2) by (auto simp: user_blocks_def allocated_def)
  have in1: "0x10000000 \<le> c \<and> c + 2 ^ i \<le> 0x90000000" using blocks_inside [OF mem dep] by simp
  moreover have "\<exists>f. mmu_walk (mm_paging (buddy_mm s)) (page_of v * 4096) = Some f \<and> 16384 \<le> unat (page_of f)"
    if v: "c \<le> unat v \<and> unat v < c + 2 ^ i" for v
  proof -
    have al: "4096 dvd c" "12 \<le> i" using blocks_aligned [OF mem dep] by simp_all
    let ?q = "page_of v"
    have "unat ?q * 4096 \<le> unat v" "unat v < unat ?q * 4096 + 4096" by (simp_all add: unat_page_of)
    then have q: "c \<le> unat ?q * 4096 \<and> unat ?q * 4096 < c + 2 ^ i"
      using v al(1) by (auto simp: dvd_def)
    then have range: "65536 \<le> unat ?q" "unat ?q < 589824" using in1 by linarith+
    then have "VM_ISALLOCATED_PAGE (buddy_mm s) ?q"
      using assms(1,2) q by (auto simp: buddy_inv_def)
    moreover have "\<not> kernel_window (?q * 4096)" using range by (simp add: kernel_window_def)
    ultimately have own: "?q * 4096 \<in> owned (buddy_mm s)" by (simp add: owned_def)
    have inv: "mm_inv (buddy_mm s)" using assms(1) by (simp add: buddy_inv_def)
    with owned_walk [OF inv own] own show ?thesis by (auto simp: mm_inv_def)
  qed
  ultimately show ?thesis using in1 by blast
qed

text \<open>
  C9: the block that allocation returns overlaps no block in use. Whenever a request succeeds, the address returned starts
  a block that was not in use; it has no address in common with any block in use before, lies between 0x10000000 and
  0x90000000, every address of it is translated by the processor to a frame above the kernel's 64 MB, and
  the blocks in use afterwards are those before and this one.
\<close>

theorem buddy_blocks_disjoint:
  assumes "buddy_inv s k t" "k + 38 \<le> 524287" "buddy_allocator__alloc len s = Some (SYS_RET_NO_ERROR, out, s')"
  shows "\<exists>b j k' t'. out = Some b \<and> buddy_inv s' k' t' \<and>
     user_blocks s' t' = insert (unat b, j) (user_blocks s t) \<and> (unat b, j) \<notin> user_blocks s t \<and>
     (\<forall>c i. (c, i) \<in> user_blocks s t \<longrightarrow> {unat b..<unat b + 2 ^ j} \<inter> {c..<c + 2 ^ i} = {}) \<and>
     0x10000000 \<le> unat b \<and> unat b + 2 ^ j \<le> 0x90000000 \<and>
     (\<forall>v. unat b \<le> unat v \<and> unat v < unat b + 2 ^ j \<longrightarrow>
        (\<exists>f. mmu_walk (mm_paging (buddy_mm s')) (page_of v * 4096) = Some f \<and> 16384 \<le> unat (page_of f)))"
proof -
  have mem: "len \<le> mm_available_block_count (buddy_mm s) * 4096"
    using assms(3) by (auto simp: buddy_allocator__alloc_def Let_def split: if_splits)
  obtain u b j where search: "blk_search True len 0x10000000 31 (blk_of (buddy_infos s) t) = Some (u, b, j)"
    using buddy_alloc_fail [OF assms(1) _ mem] assms(2,3)
    by (cases "blk_search True len 0x10000000 31 (blk_of (buddy_infos s) t)") auto
  have frames: "2 ^ (j - 12) \<le> card (free_frames (buddy_mm s))"
    using buddy_alloc_stuck [OF assms(1) _ mem search] assms(2,3) by (cases "card (free_frames (buddy_mm s)) < 2 ^ (j - 12)") auto
  obtain k' t' where r: "out = Some b" "buddy_inv s' k' t'" "user_blocks s' t' = insert (unat b, j) (user_blocks s t)"
    using buddy_alloc_spec [OF assms(1) _ mem search frames] assms(2,3) by auto
  have dep: "depth_ok 31 (blk_of (buddy_infos s) t)"
    using assms(1) by (auto simp: buddy_inv_def subtree_def intro: depth_ok_layout)
  have new: "(unat b, j) \<notin> user_blocks s t" using search_block [OF search dep] by (simp add: user_blocks_def)
  have "{unat b..<unat b + 2 ^ j} \<inter> {c..<c + 2 ^ i} = {}" if "(c, i) \<in> user_blocks s t" for c i
    by (rule user_blocks_apart [OF r(2)]) (use r(3) that new in auto)
  moreover note user_block_mapped [OF r(2), of "unat b" j]
  ultimately show ?thesis using r new by blast
qed

text \<open>A booted machine with the allocator initialised.\<close>

lemma free_frames_card: "card (free_frames m) = card (free_pages (mm_page_alloc_bitmap m) 131072)"
proof (rule bij_betw_same_card [of unat])
  have "ISALLOCATED_PAGE m f \<longleftrightarrow> bit (mm_page_alloc_bitmap m (unat f div 8)) (unat f mod 8)" for f
    using bit_array_test_split [of f "unat f div 8" "unat f mod 8"] by (simp add: ISALLOCATED_PAGE_def)
  then have mem: "f \<in> free_frames m \<longleftrightarrow> unat f \<in> free_pages (mm_page_alloc_bitmap m) 131072" for f
    by (simp add: free_frames_def free_pages_def)
  have "x \<in> unat ` free_frames m" if "x \<in> free_pages (mm_page_alloc_bitmap m) 131072" for x
  proof -
    have "unat (of_nat x :: u32) = x" using that by (intro unat_of_nat_u32) (simp add: free_pages_def)
    then show ?thesis using that mem [of "of_nat x"] by (intro image_eqI [of _ _ "of_nat x"]) simp_all
  qed
  then show "bij_betw unat (free_frames m) (free_pages (mm_page_alloc_bitmap m) 131072)"
    unfolding bij_betw_def using mem by (auto simp: inj_on_def word_unat_eq_iff)
qed

lemma boot_frames:
  assumes used: "\<And>f. unat f < 1048576 \<Longrightarrow> ISALLOCATED_PAGE m f = (unat f < 16384 \<or> 49160 \<le> unat f)"
  shows "card (free_frames m) = 32776"
proof -
  have "free_frames m = of_nat ` {16384..<49160}"
  proof (intro equalityI subsetI)
    fix f assume "f \<in> free_frames m"
    then have "unat f \<in> {16384..<49160}" using used by (auto simp: free_frames_def)
    then show "f \<in> of_nat ` {16384..<49160}" by (intro image_eqI [of _ _ "unat f"]) auto
  next
    fix f :: u32 assume "f \<in> of_nat ` {16384..<49160}"
    then have "16384 \<le> unat f \<and> unat f < 49160" by (auto simp: unat_of_nat_u32)
    then show "f \<in> free_frames m" using used by (auto simp: free_frames_def)
  qed
  moreover have "inj_on (of_nat :: nat \<Rightarrow> u32) {16384..<49160}"
    by (rule inj_on_inverseI [of _ unat]) (simp add: unat_of_nat_u32)
  ultimately show "card (free_frames m) = 32776" by (simp add: card_image)
qed

lemma buddy_ready:
  "\<exists>s :: buddy_state. mm_inv (buddy_mm s) \<and> buddy_nodes s = Map.empty \<and>
     (\<forall>q. 819200 \<le> unat q \<and> unat q < 824320 \<longrightarrow> \<not> VM_ISALLOCATED_PAGE (buddy_mm s) q) \<and>
     (\<forall>q. 65536 \<le> unat q \<and> unat q < 589824 \<longrightarrow> \<not> VM_ISALLOCATED_PAGE (buddy_mm s) q) \<and>
     mm_available_block_count (buddy_mm s) = 32776 \<and> card (free_frames (buddy_mm s)) = 32776"
proof -
  obtain m where init: "mm_init boot_info boot_entry_at boot_state = Some (SYS_RET_NO_ERROR, m)" and inv: "mm_inv m"
    and used: "\<forall>f. unat f < 1048576 \<longrightarrow> ISALLOCATED_PAGE m f = (unat f < 16384 \<or> 49160 \<le> unat f)"
    and vm: "\<forall>v. VM_ISALLOCATED_PAGE m (page_of v) = kernel_window v"
    using boot_run by blast
  have card: "card (free_frames m) = 32776" using boot_frames used by blast
  then have avail: "mm_available_block_count m = 32776"
    using mm_init_result(4) [OF init] by (simp add: mm_count_available_eq free_frames_card)
  have page: "\<not> VM_ISALLOCATED_PAGE m q" if "unat q < 1048576" "unat q < 786432 \<or> 819200 \<le> unat q" for q
    using vm [rule_format, of "q * 4096"] that by (auto simp: page_of_mult kernel_window_def)
  define s where "s = \<lparr>buddy_mm = m, buddy_headers = (\<lambda>_. \<lparr>chunk_used = False, chunk_size = 0\<rparr>),
     buddy_nodes = Map.empty, buddy_infos = (\<lambda>_. \<lparr>vaddr = 0, info_len = 0, is_allocated = False\<rparr>), buddy_root = 0\<rparr>"
  show ?thesis using inv card avail page by (intro exI [of _ s]) (auto simp: s_def)
qed

lemma buddy_boot:
  "\<exists>s t. buddy_inv s 1 t \<and> blk_of (buddy_infos s) t = Block False \<and>
     mm_available_block_count (buddy_mm s) = 32776 \<and> card (free_frames (buddy_mm s)) = 27656"
proof -
  obtain s :: buddy_state where s: "mm_inv (buddy_mm s)" "buddy_nodes s = Map.empty"
      "\<forall>q. 819200 \<le> unat q \<and> unat q < 824320 \<longrightarrow> \<not> VM_ISALLOCATED_PAGE (buddy_mm s) q"
      "\<forall>q. 65536 \<le> unat q \<and> unat q < 589824 \<longrightarrow> \<not> VM_ISALLOCATED_PAGE (buddy_mm s) q"
      "mm_available_block_count (buddy_mm s) = 32776" "card (free_frames (buddy_mm s)) = 32776"
    using buddy_ready by blast
  from buddy_init_spec [OF s(1) _ s(2)] s(3-6) show ?thesis by auto
qed

text \<open>The search in an undivided tree for a little more than a page, and for two pages.\<close>

lemma sample_search:
  "blk_search True 5000 0x10000000 31 (Block False) \<noteq> None"
  "\<exists>u b. blk_search True 8192 0x10000000 31 (Block False) = Some (u, b, 12)"
proof -
  show "blk_search True 5000 0x10000000 31 (Block False) \<noteq> None" by (rule blk_search_free)
  obtain u b j where s: "blk_search True (2 ^ 13) 0x10000000 31 (Block False) = Some (u, b, j)"
    using blk_search_free [of True "2 ^ 13" "0x10000000" 31] by (metis not_None_eq prod.exhaust)
  have "j = 12" using s by (rule search_power_of_two) simp_all
  with s show "\<exists>u b. blk_search True 8192 0x10000000 31 (Block False) = Some (u, b, 12)" by auto
qed

lemma sample_size:
  assumes "blk_search True 5000 0x10000000 31 t = Some (u, b, j)" "depth_ok 31 t"
  shows "j = 14"
proof -
  have len: "unat (5000 :: u32) < 2 ^ 30" by simp
  have fit: "fits 5000 i \<longleftrightarrow> i = 14" if "i \<le> 31" for i
  proof
    assume "fits 5000 i"
    then have "(2 :: nat) ^ 13 < 2 ^ i" "(2 :: nat) ^ i < 2 ^ 15" using fits_iff [OF len that] by simp_all
    then have "13 < i" "i < 15" by (simp_all only: power_strict_increasing_iff)
    then show "i = 14" by simp
  next
    assume "i = 14"
    then show "fits 5000 i" using fits_iff [OF len that] by simp
  qed
  from search_size [OF assms] have "j \<le> 31" "fits 5000 j \<or> (\<forall>i. 12 < i \<and> i \<le> 31 \<longrightarrow> \<not> fits 5000 i)" by auto
  with fit [of j] fit [of 14] show ?thesis by fastforce
qed

text \<open>After a block has been cut off a larger one, its buddy is free for the same request.\<close>

lemma buddy_free:
  "blk_search True len b j (Block False) = Some (u, b', j') \<Longrightarrow> j' < j \<Longrightarrow> blk_search True len b j u \<noteq> None"
proof (induction j arbitrary: u)
  case (Suc j)
  have split: "\<not> fits len (Suc j)" "12 < Suc j" using Suc.prems by (auto simp: blk_search.simps(1) split: if_splits)
  then obtain l where l: "blk_search True len b j (Block False) = Some (l, b', j')" "u = Split l (Block False)"
    using Suc.prems(1) by (auto simp: blk_search_block split: option.splits prod.splits)
  show ?case
  proof (cases "j' < j")
    case True
    from Suc.IH [OF l(1) True] split l(2) show ?thesis by (auto split: option.splits)
  next
    case False
    with Suc.prems(2) have "j' = j" by simp
    have "fits len j \<or> j \<le> 12"
    proof (rule ccontr)
      assume no: "\<not> (fits len j \<or> j \<le> 12)"
      then obtain l2 where "blk_search True len b (j - 1) (Block False) = Some (l2, b', j')"
        using l(1) by (auto simp: blk_search_block split: option.splits prod.splits)
      moreover have j: "12 \<le> j - 1" "j - 1 < j" using no by linarith+
      ultimately have "j' \<le> j - 1" using search_size [of True len b "j - 1" "Block False" l2 b' j'] by simp
      with j(2) \<open>j' = j\<close> show False by linarith
    qed
    then have "l = Block True" using l(1) by (simp add: blk_search_block)
    with split l(2) blk_search_free [of True len _ j] show ?thesis
      by (auto simp: blk_search_block split: option.splits)
  qed
qed simp

theorem buddy_alloc_refines_witness:
  "\<exists>s s' b. buddy_allocator__alloc 5000 s = Some (SYS_RET_NO_ERROR, Some b, s')"
proof -
  obtain s t where s: "buddy_inv s 1 t" "blk_of (buddy_infos s) t = Block False"
      "mm_available_block_count (buddy_mm s) = 32776" "card (free_frames (buddy_mm s)) = 27656"
    using buddy_boot by blast
  obtain u b j where search: "blk_search True 5000 0x10000000 31 (Block False) = Some (u, b, j)"
    using sample_search(1) by (metis not_None_eq prod.exhaust)
  have "j = 14" using search by (rule sample_size) simp
  with buddy_alloc_refines [OF s(1), of 5000] s(2-4) search show ?thesis by fastforce
qed

text \<open>Two requests in a row: the second one is served while the block of the first is in use.\<close>

lemma two_allocations:
  "\<exists>s k t b j s' k' t'. buddy_inv s k t \<and> k \<le> 39 \<and> user_blocks s t \<noteq> {} \<and>
     buddy_allocator__alloc 5000 s = Some (SYS_RET_NO_ERROR, Some b, s') \<and> buddy_inv s' k' t' \<and>
     (unat b, j) \<notin> user_blocks s t \<and> user_blocks s' t' = insert (unat b, j) (user_blocks s t)"
proof -
  obtain s0 t0 where s0: "buddy_inv s0 1 t0" "blk_of (buddy_infos s0) t0 = Block False"
      "mm_available_block_count (buddy_mm s0) = 32776" "card (free_frames (buddy_mm s0)) = 27656"
    using buddy_boot by blast
  obtain u b j where search: "blk_search True 5000 0x10000000 31 (Block False) = Some (u, b, j)"
    using sample_search(1) by (metis not_None_eq prod.exhaust)
  have j: "j = 14" using search by (rule sample_size) simp
  have mem: "5000 \<le> mm_available_block_count (buddy_mm s0) * 4096" using s0(3) by simp
  have "user_blocks s0 t0 = {}" using s0(2) by (simp add: user_blocks_def)
  with buddy_alloc_spec [OF s0(1) _ mem, unfolded s0(2), OF _ search] s0(4) j
  obtain s1 k1 t1 where s1: "buddy_inv s1 k1 t1" "k1 \<le> 39" "blk_of (buddy_infos s1) t1 = u"
      "user_blocks s1 t1 = {(unat b, j)}" "mm_available_block_count (buddy_mm s1) = 32776"
      "card (free_frames (buddy_mm s1)) = 27652" using s0(3) by auto
  have dep: "depth_ok 31 u" using s1(1,3) by (auto simp: buddy_inv_def subtree_def dest: depth_ok_layout)
  have "blk_search True 5000 0x10000000 31 u \<noteq> None" using buddy_free [OF search] j by simp
  then obtain u' b' j' where search': "blk_search True 5000 0x10000000 31 u = Some (u', b', j')"
    by (metis not_None_eq prod.exhaust)
  have j': "j' = 14" using search' dep by (rule sample_size)
  have mem1: "5000 \<le> mm_available_block_count (buddy_mm s1) * 4096" using s1(5) by simp
  from buddy_alloc_spec [OF s1(1) _ mem1, unfolded s1(3), OF _ search'] s1(2,6) j'
  obtain s2 k2 t2 where s2: "buddy_allocator__alloc 5000 s1 = Some (SYS_RET_NO_ERROR, Some b', s2)"
      "buddy_inv s2 k2 t2" "user_blocks s2 t2 = insert (unat b', j') (user_blocks s1 t1)" by auto
  have new: "(unat b', j') \<notin> user_blocks s1 t1"
    using search_block [OF search' dep] by (simp add: user_blocks_def s1(3))
  have "user_blocks s1 t1 \<noteq> {}" using s1(4) by simp
  with s1(1,2) s2 new show ?thesis by blast
qed

theorem buddy_blocks_disjoint_witness:
  "\<exists>s k t s' b j c i. buddy_inv s k t \<and> buddy_allocator__alloc 5000 s = Some (SYS_RET_NO_ERROR, Some b, s') \<and>
     (c, i) \<in> user_blocks s t \<and> {unat b..<unat b + 2 ^ j} \<inter> {c..<c + 2 ^ i} = {} \<and>
     (\<exists>f. mmu_walk (mm_paging (buddy_mm s')) (page_of b * 4096) = Some f)"
proof -
  obtain s k t b s' where s: "buddy_inv s k t" "k \<le> 39" "user_blocks s t \<noteq> {}"
      "buddy_allocator__alloc 5000 s = Some (SYS_RET_NO_ERROR, Some b, s')"
    using two_allocations by blast
  obtain c i where ci: "(c, i) \<in> user_blocks s t" using s(3) by auto
  have "k + 38 \<le> 524287" using s(2) by simp
  from buddy_blocks_disjoint [OF s(1) this s(4)] obtain j where
      apart: "\<forall>c i. (c, i) \<in> user_blocks s t \<longrightarrow> {unat b..<unat b + 2 ^ j} \<inter> {c..<c + 2 ^ i} = {}"
      and walk: "\<forall>v. unat b \<le> unat v \<and> unat v < unat b + 2 ^ j \<longrightarrow>
        (\<exists>f. mmu_walk (mm_paging (buddy_mm s')) (page_of v * 4096) = Some f \<and> 16384 \<le> unat (page_of f))"
    by auto
  have "\<exists>f. mmu_walk (mm_paging (buddy_mm s')) (page_of b * 4096) = Some f" using walk [rule_format, of b] by auto
  with s(1,4) ci apart show ?thesis by blast
qed

text \<open>
  The block is large enough for requests of at most one page and for every other request below
  1 GB that is not a power of two: the address returned starts an allocated block of at least
  the size asked for.
\<close>

theorem buddy_alloc_large_enough:
  assumes "buddy_inv s k t" "k + 38 \<le> 524287" "len \<le> mm_available_block_count (buddy_mm s) * 4096"
    and "unat len \<le> 4096 \<or> unat len < 2 ^ 30 \<and> \<not> power_of_two (unat len)"
    and "blk_search True len 0x10000000 31 (blk_of (buddy_infos s) t) = Some (u, b, j)"
    and "2 ^ (j - 12) \<le> card (free_frames (buddy_mm s))"
  shows "\<exists>s' k' t'. buddy_allocator__alloc len s = Some (SYS_RET_NO_ERROR, Some b, s') \<and>
     buddy_inv s' k' t' \<and> (unat b, j) \<in> user_blocks s' t' \<and> unat len \<le> 2 ^ j"
proof -
  have dep: "depth_ok 31 (blk_of (buddy_infos s) t)"
    using assms(1) by (auto simp: buddy_inv_def subtree_def intro: depth_ok_layout)
  have "unat len \<le> 2 ^ j"
    using search_large_enough [OF assms(5) dep search_place(4) [OF assms(5,1)] assms(4)] .
  with buddy_alloc_spec [OF assms(1) _ assms(3,5,6)] assms(2) show ?thesis by fastforce
qed

theorem buddy_alloc_large_enough_witness:
  "\<exists>s s' b j k t. buddy_allocator__alloc 5000 s = Some (SYS_RET_NO_ERROR, Some b, s') \<and>
     buddy_inv s' k t \<and> (unat b, j) \<in> user_blocks s' t \<and> 5000 \<le> (2 :: nat) ^ j"
proof -
  obtain s t where s: "buddy_inv s 1 t" "blk_of (buddy_infos s) t = Block False"
      "mm_available_block_count (buddy_mm s) = 32776" "card (free_frames (buddy_mm s)) = 27656"
    using buddy_boot by blast
  obtain u b j where search: "blk_search True 5000 0x10000000 31 (Block False) = Some (u, b, j)"
    using sample_search(1) by (metis not_None_eq prod.exhaust)
  have j: "j = 14" using search by (rule sample_size) simp
  have "\<not> power_of_two 5000"
  proof
    assume "power_of_two 5000"
    then obtain m where m: "(5000 :: nat) = 2 ^ m" by (auto simp: power_of_two_def)
    have "(2 :: nat) ^ 12 < 2 ^ m" "(2 :: nat) ^ m < 2 ^ 13" unfolding m [symmetric] by simp_all
    then show False by (simp only: power_strict_increasing_iff)
  qed
  with buddy_alloc_large_enough [OF s(1), of 5000 u b j] s(2-4) search j show ?thesis by fastforce
qed

text \<open>
  A request for a power of two of at least two pages gets one page: the block allocated
  has 4096 bytes, fewer than were asked for.
\<close>

theorem buddy_alloc_power_of_two:
  assumes "buddy_inv s k t" "k + 38 \<le> 524287" "13 \<le> m" "m \<le> 29"
    and "2 ^ m \<le> mm_available_block_count (buddy_mm s) * 4096"
    and "blk_search True (2 ^ m) 0x10000000 31 (blk_of (buddy_infos s) t) = Some (u, b, j)"
    and "free_frames (buddy_mm s) \<noteq> {}"
  shows "\<exists>s' k' t'. buddy_allocator__alloc (2 ^ m) s = Some (SYS_RET_NO_ERROR, Some b, s') \<and>
     buddy_inv s' k' t' \<and> (unat b, 12) \<in> user_blocks s' t' \<and> (2 :: nat) ^ 12 < 2 ^ m"
proof -
  have dep: "depth_ok 31 (blk_of (buddy_infos s) t)"
    using assms(1) by (auto simp: buddy_inv_def subtree_def intro: depth_ok_layout)
  have j: "j = 12" using search_power_of_two [OF assms(6) dep assms(4)] .
  have "(2 :: nat) ^ (j - 12) \<le> card (free_frames (buddy_mm s))"
    using assms(7) by (simp add: j Suc_le_eq card_gt_0_iff)
  moreover have "(2 :: nat) ^ 12 < 2 ^ m" using assms(3) by (intro power_strict_increasing) simp_all
  ultimately show ?thesis
    using buddy_alloc_spec [OF assms(1) _ assms(5,6)] assms(2) j by fastforce
qed

theorem buddy_alloc_power_of_two_witness:
  "\<exists>s s' b k t. buddy_allocator__alloc 8192 s = Some (SYS_RET_NO_ERROR, Some b, s') \<and>
     buddy_inv s' k t \<and> (unat b, 12) \<in> user_blocks s' t"
proof -
  obtain s t where s: "buddy_inv s 1 t" "blk_of (buddy_infos s) t = Block False"
      "mm_available_block_count (buddy_mm s) = 32776" "card (free_frames (buddy_mm s)) = 27656"
    using buddy_boot by blast
  obtain u b where search: "blk_search True 8192 0x10000000 31 (Block False) = Some (u, b, 12)"
    using sample_search(2) by blast
  have "free_frames (buddy_mm s) \<noteq> {}" using s(4) by auto
  with buddy_alloc_power_of_two [OF s(1), of 13 u b 12] s(2,3) search show ?thesis by fastforce
qed

text \<open>
  C10: initialisation returns: on a manager with enough free frames, where the pages of the arena and of
  the user range are not in use, it takes exactly the 5120 pages of the arena and leaves one undivided
  free block for the whole user range, with the allocator's invariant.
\<close>

theorem buddy_init_establishes:
  assumes "mm_inv (buddy_mm s)" "5120 \<le> card (free_frames (buddy_mm s))" "buddy_nodes s = Map.empty"
    and "\<And>q. 819200 \<le> unat q \<Longrightarrow> unat q < 824320 \<Longrightarrow> \<not> VM_ISALLOCATED_PAGE (buddy_mm s) q"
    and "\<And>q. 65536 \<le> unat q \<Longrightarrow> unat q < 589824 \<Longrightarrow> \<not> VM_ISALLOCATED_PAGE (buddy_mm s) q"
  shows "\<exists>s' t. buddy_allocator__init s = Some (SYS_RET_NO_ERROR, s') \<and> buddy_inv s' 1 t \<and>
     blk_of (buddy_infos s') t = Block False \<and>
     card (free_frames (buddy_mm s)) = card (free_frames (buddy_mm s')) + 5120"
  using buddy_init_spec [OF assms] by blast

theorem buddy_init_establishes_witness:
  "\<exists>s s' t. buddy_allocator__init s = Some (SYS_RET_NO_ERROR, s') \<and> buddy_inv s' 1 t"
proof -
  obtain s :: buddy_state where s: "mm_inv (buddy_mm s)" "buddy_nodes s = Map.empty"
      "\<forall>q. 819200 \<le> unat q \<and> unat q < 824320 \<longrightarrow> \<not> VM_ISALLOCATED_PAGE (buddy_mm s) q"
      "\<forall>q. 65536 \<le> unat q \<and> unat q < 589824 \<longrightarrow> \<not> VM_ISALLOCATED_PAGE (buddy_mm s) q"
      "card (free_frames (buddy_mm s)) = 32776"
    using buddy_ready by blast
  from buddy_init_establishes [OF s(1) _ s(2)] s(3-5) show ?thesis by auto
qed

text \<open>
  C11: what release does. For every address but 0x10000000, the address of the root, it answers
  SYS\_RET\_NOT\_FOUND and changes nothing, whatever blocks are in use, so a block at another address stays in use for ever.
  For 0x10000000 it answers SYS\_RET\_NO\_ERROR and removes the translation of every page of the
  user range; the blocks in use afterwards are none when the root was one undivided allocated block, and exactly the
  blocks in use before otherwise.
\<close>

theorem buddy_free_behaviour:
  assumes "buddy_inv s k t"
  shows "if addr \<noteq> 0x10000000 then buddy_allocator__free addr s = Some (SYS_RET_NOT_FOUND, s)
     else \<exists>s'. buddy_allocator__free addr s = Some (SYS_RET_NO_ERROR, s') \<and>
       (\<forall>v. 0x10000000 \<le> unat v \<and> unat v < 0x90000000 \<longrightarrow> mmu_walk (mm_paging (buddy_mm s')) v = None) \<and>
       user_blocks s' t = (if blk_of (buddy_infos s) t = Block True then {} else user_blocks s t)"
proof -
  obtain l a r where t: "t = Node l a r" using assms by (cases t) (auto simp: buddy_inv_def subtree_def)
  have sub: "subtree s k (buddy_root s) 0x10000000 31 (Node l a r)" using assms by (simp add: buddy_inv_def t)
  obtain n where n: "buddy_root s = a" "buddy_nodes s a = Some n" "info_of s a = Some (buddy_infos s (a + 20))"
      "vaddr (buddy_infos s (a + 20)) = 0x10000000" "info_len (buddy_infos s (a + 20)) = 2 ^ 31"
    using sub by (elim subtree_node)
  show ?thesis
  proof (cases "addr = 0x10000000")
    case False
    have "free_descent s (buddy_infos s (a + 20)) addr a = Some False"
      by (rule free_descent_false [of s a "Node l a r"]) (use sub n False in \<open>auto simp: subtree_def\<close>)
    with False n show ?thesis by (simp add: buddy_allocator__free_def)
  next
    case True
    have val: "node_value n = a + 20" using sub n(2) by (auto simp: subtree_def arena_ok_def)
    obtain m' where m': "unmap_pages 0x10000000 0x90000000 (buddy_mm s) = Some m'"
      and walk: "\<forall>w. mmu_walk (mm_paging m') w =
         (if 65536 \<le> unat (page_of w) \<and> unat (page_of w) < 589824 then None else mmu_walk (mm_paging (buddy_mm s)) w)"
      using unmap_pages_ok [of 65536 524288 "buddy_mm s"] assms by (auto simp: buddy_inv_def mm_inv_def)
    define s' where "s' = s\<lparr>buddy_mm := m', buddy_infos := (buddy_infos s)(a + 20 :=
        (buddy_infos s (a + 20))\<lparr>is_allocated := False\<rparr>)\<rparr>"
    have "free_descent s (buddy_infos s (a + 20)) addr a = Some True"
      using n True by (simp add: free_descent.simps)
    then have "buddy_allocator__free addr s = Some (SYS_RET_NO_ERROR, s')"
      using n m' val by (simp add: buddy_allocator__free_def set_info_def s'_def)
    moreover have "mmu_walk (mm_paging (buddy_mm s')) v = None" if "0x10000000 \<le> unat v \<and> unat v < 0x90000000" for v
    proof -
      have "65536 \<le> unat v div 4096" "unat v div 4096 < 589824"
        using that div_le_mono [of "0x10000000" "unat v" 4096] by (auto simp: div_less_iff_less_mult)
      with walk show ?thesis by (simp add: s'_def unat_page_of)
    qed
    moreover have "user_blocks s' t = (if blk_of (buddy_infos s) t = Block True then {} else user_blocks s t)"
    proof (cases "blk_of (buddy_infos s) t = Block True")
      case leaf: True
      then have "l = Leaf" by (auto simp: t split: if_splits)
      then have "blk_of (buddy_infos s') t = Block False" by (simp add: t s'_def)
      then show ?thesis using leaf by (simp add: user_blocks_def)
    next
      case False
      have same: "(buddy_infos s (a + 20))\<lparr>is_allocated := False\<rparr> = buddy_infos s (a + 20)"
        using False sub by (cases "buddy_infos s (a + 20)") (auto simp: t subtree_def split: if_splits)
      then have "buddy_infos s' = buddy_infos s" by (simp add: s'_def)
      then show ?thesis using False by (simp add: user_blocks_def)
    qed
    ultimately show ?thesis using True by auto
  qed
qed

theorem buddy_free_behaviour_witness:
  "\<exists>s k t b j. buddy_inv s k t \<and> (unat b, j) \<in> user_blocks s t \<and>
     buddy_allocator__free b s = Some (SYS_RET_NOT_FOUND, s)"
proof -
  obtain s0 k0 t0 b j0 s k t where "buddy_inv s0 k0 t0 \<and> k0 \<le> 39 \<and> user_blocks s0 t0 \<noteq> {} \<and>
     buddy_allocator__alloc 5000 s0 = Some (SYS_RET_NO_ERROR, Some b, s) \<and> buddy_inv s k t \<and>
     (unat b, j0) \<notin> user_blocks s0 t0 \<and> user_blocks s t = insert (unat b, j0) (user_blocks s0 t0)"
    using two_allocations by (elim exE) (rule that)
  then have s: "buddy_inv s k t" "user_blocks s0 t0 \<noteq> {}" "(unat b, j0) \<notin> user_blocks s0 t0"
      "user_blocks s t = insert (unat b, j0) (user_blocks s0 t0)" by simp_all
  obtain c i where ci: "(c, i) \<in> user_blocks s0 t0" using s(2) by auto
  have two: "(unat b, j0) \<in> user_blocks s t" "(c, i) \<in> user_blocks s t" "(c, i) \<noteq> (unat b, j0)" using s(3,4) ci by auto
  have "{c..<c + 2 ^ i} \<inter> {unat b..<unat b + 2 ^ j0} = {}" by (rule user_blocks_apart [OF s(1) two(2,1,3)])
  then have "c \<noteq> unat b" by force
  have "c < 2 ^ 32" using user_block_mapped [OF s(1) two(2)] by simp
  then have c: "unat (of_nat c :: u32) = c" by (simp add: unat_of_nat_u32)
  define d where "d = (if b = 0x10000000 then of_nat c else b)"
  have "d \<noteq> 0x10000000" using \<open>c \<noteq> unat b\<close> c by (auto simp: d_def)
  with buddy_free_behaviour [OF s(1), of d] have "buddy_allocator__free d s = Some (SYS_RET_NOT_FOUND, s)" by simp
  moreover have "\<exists>j. (unat d, j) \<in> user_blocks s t" using two(1,2) c by (auto simp: d_def)
  ultimately show ?thesis using s(1) by blast
qed

end
