(* ===== verification/Fat16.thy ===== *)
theory Fat16
  imports Ide Mm
begin

text \<open>
  The reader of FAT16 file systems, \<^verbatim>\<open>src/kernel/fs/fat16_read.c\<close> and
  \<^verbatim>\<open>src/kernel/include/fs/fat16/fat16.h\<close>, on the block device of \<open>Ide\<close>. Structures that the code
  keeps in variables are records; those it finds in a buffer are read from memory at their packed offsets. The
  contents of a local array that the code has not written yet is a parameter. The progress messages on the console
  are left out.
\<close>

section \<open>Structures\<close>

definition bytes_at :: "mem \<Rightarrow> u32 \<Rightarrow> nat \<Rightarrow> u8 list" where
  "bytes_at m p n = map (\<lambda>i. m (p + of_nat i)) [0..<n]"

definition FAT_ATTRIB_VOLUME_LABEL :: u8 where "FAT_ATTRIB_VOLUME_LABEL = push_bit 3 1"
definition FAT_ATTRIB_SUBDIR :: u8 where "FAT_ATTRIB_SUBDIR = push_bit 4 1"

record fat16_boot_sector =
  jmpCode :: "u8 list"
  oemId :: "u8 list"
  bytesPerSector :: u16
  sectorsPerCluster :: u8
  reservedSectors :: u16
  nrOfFATCopies :: u8
  nrPossibleRootEntries :: u16
  nrSectorsSmall :: u16
  mediaDescriptor :: u8
  sectorsPerFAT :: u16
  sectorsPerTrack :: u16
  nrHeads :: u16
  hiddenSectors :: u32
  nrSectorsLarge :: u32
  driveNumber :: u8
  boot_reserved0 :: u8
  extendedBootSignature :: u8
  volumeSerialNumber :: "u8 list"
  volumeLabel :: "u8 list"
  fileSystemType :: "u8 list"
  boot_code :: "u8 list"
  bootSignature :: u16

definition load_boot_sector :: "mem \<Rightarrow> u32 \<Rightarrow> fat16_boot_sector" where
  "load_boot_sector m p = \<lparr>jmpCode = bytes_at m p 3, oemId = bytes_at m (p + 3) 8,
     bytesPerSector = load16 m (p + 11), sectorsPerCluster = m (p + 13), reservedSectors = load16 m (p + 14),
     nrOfFATCopies = m (p + 16), nrPossibleRootEntries = load16 m (p + 17), nrSectorsSmall = load16 m (p + 19),
     mediaDescriptor = m (p + 21), sectorsPerFAT = load16 m (p + 22), sectorsPerTrack = load16 m (p + 24),
     nrHeads = load16 m (p + 26), hiddenSectors = load32 m (p + 28), nrSectorsLarge = load32 m (p + 32),
     driveNumber = m (p + 36), boot_reserved0 = m (p + 37), extendedBootSignature = m (p + 38),
     volumeSerialNumber = bytes_at m (p + 39) 4, volumeLabel = bytes_at m (p + 43) 11,
     fileSystemType = bytes_at m (p + 54) 8, boot_code = bytes_at m (p + 62) 448, bootSignature = load16 m (p + 510)\<rparr>"

record fat16_dir_entry =
  filename :: "u8 list"
  extension :: "u8 list"
  attributes :: u8
  dir_reserved :: u8
  creation_time :: u8
  creation_time2 :: u16
  creation_date :: u16
  last_access_date :: u16
  starting_cluster_high :: u16
  last_modified_time :: u16
  last_modified_date :: u16
  starting_cluster_low :: u16
  file_size :: u32

definition load_dir_entry :: "mem \<Rightarrow> u32 \<Rightarrow> fat16_dir_entry" where
  "load_dir_entry m p = \<lparr>filename = bytes_at m p 8, extension = bytes_at m (p + 8) 3, attributes = m (p + 11),
     dir_reserved = m (p + 12), creation_time = m (p + 13), creation_time2 = load16 m (p + 14),
     creation_date = load16 m (p + 16), last_access_date = load16 m (p + 18), starting_cluster_high = load16 m (p + 20),
     last_modified_time = load16 m (p + 22), last_modified_date = load16 m (p + 24),
     starting_cluster_low = load16 m (p + 26), file_size = load32 m (p + 28)\<rparr>"

definition CLUSTER_OF :: "fat16_dir_entry \<Rightarrow> u32" where
  "CLUSTER_OF e = push_bit 16 (ucast (starting_cluster_high e)) OR ucast (starting_cluster_low e)"

record fat16_context =
  ctx_device :: block_device
  boot_sector :: fat16_boot_sector
  fat_start :: u32
  root_dir_start :: u32
  data_area_start_cluster :: u32
  ctx_buffer :: u32

text \<open>The number of sectors and of bytes in a cluster, as the code computes them in several places.\<close>

abbreviation spc :: "fat16_context \<Rightarrow> u32" where
  "spc ctx \<equiv> ucast (sectorsPerCluster (boot_sector ctx))"

definition cluster_size :: "fat16_context \<Rightarrow> u32" where
  "cluster_size ctx = spc ctx * sectorSize (ctx_device ctx)"

section \<open>Mounting\<close>

text \<open>Arithmetic of \<^verbatim>\<open>int\<close>: an overflow is undefined, division rounds towards zero.\<close>

definition c_int :: "int \<Rightarrow> int option" where
  "c_int x = (if - 2147483648 \<le> x \<and> x < 2147483648 then Some x else None)"

definition c_div :: "int \<Rightarrow> int \<Rightarrow> int" where
  "c_div a b = (if a < 0 then - ((- a) div b) else a div b)"

text \<open>\<open>bs\<close> is the address of the boot sector within the context, which the first sector is read to.\<close>

definition fat16_create_context ::
  "'w port_io \<Rightarrow> u32 \<Rightarrow> block_device \<Rightarrow> fat16_context \<Rightarrow> mm_state \<times> mem \<times> 'w \<Rightarrow>
     (SYS_RET \<times> fat16_context \<times> mm_state \<times> mem \<times> 'w) option" where
  "fat16_create_context io bs device ctx st = do {
     (_, m, w) \<leftarrow> block_dev_read io device 0 bs (snd st);
     let boot = load_boot_sector m bs;
     let per_cluster = (ucast (sectorsPerCluster boot) :: u32);
     if per_cluster = 0 \<or> sectorSize device = 0 then None else do {
       let total_clusters = sint (size_in_kb device * 2 div per_cluster);
       fat_size \<leftarrow> c_int (total_clusters * 2);
       let fat_size_in_sectors = sint (word_of_int fat_size div sectorSize device);
       let start = uint (reservedSectors boot);
       fats \<leftarrow> c_int (fat_size_in_sectors * uint (nrOfFATCopies boot));
       dir_start \<leftarrow> c_int (start + fats);
       let nr_max_dir_in_root = uint (nrPossibleRootEntries boot);
       let ctx1 = ctx\<lparr>ctx_device := device, boot_sector := boot, fat_start := word_of_int start,
         root_dir_start := word_of_int dir_start,
         data_area_start_cluster := word_of_int (c_div dir_start (uint (sectorsPerCluster boot))) +
           word_of_int (nr_max_dir_in_root * 32) div sectorSize device div per_cluster\<rparr>;
       (ret, addr, mm) \<leftarrow> mm_alloc 0xD0010000 (sectorSize device * per_cluster) 0 (fst st);
       if ret \<noteq> SYS_RET_NO_ERROR then Some (ret, ctx1, mm, m, w)
       else do {
         buffer \<leftarrow> addr;
         Some (SYS_RET_NO_ERROR, ctx1\<lparr>ctx_buffer := buffer\<rparr>, mm, m, w)
       }
     }
   }"

definition fat16_destroy_context :: "fat16_context \<Rightarrow> mm_state \<Rightarrow> SYS_RET \<times> mm_state" where
  "fat16_destroy_context ctx mm = mm_free (ctx_buffer ctx) mm"

section \<open>Clusters\<close>

primrec read_sectors :: "'w port_io \<Rightarrow> block_device \<Rightarrow> u32 \<Rightarrow> u32 \<Rightarrow> u32 \<Rightarrow> nat \<Rightarrow> mem \<times> 'w \<Rightarrow> (mem \<times> 'w) option" where
  "read_sectors io device sector buffer i 0 s = Some s"
| "read_sectors io device sector buffer i (Suc n) s = do {
     (_, s1) \<leftarrow> block_dev_read io device (ucast (sector + i)) (buffer + sectorSize device * i) s;
     read_sectors io device sector buffer (i + 1) n s1
   }"

definition fat16_read_cluster :: "'w port_io \<Rightarrow> fat16_context \<Rightarrow> u32 \<Rightarrow> u32 \<Rightarrow> mem \<times> 'w \<Rightarrow> (SYS_RET \<times> mem \<times> 'w) option" where
  "fat16_read_cluster io ctx cluster out_buffer s = do {
     let sector = cluster * spc ctx;
     s1 \<leftarrow> read_sectors io (ctx_device ctx) sector out_buffer 0 (unat (spc ctx)) s;
     Some (SYS_RET_NO_ERROR, s1)
   }"

text \<open>
  The chain of clusters from \<open>cur\<close> on goes to an array of \<open>cap\<close> elements. An entry 0 makes the code loop for
  ever; a chain that does not fit in the array is written past its end.
\<close>

partial_function (option) chain_loop ::
  "'w port_io \<Rightarrow> fat16_context \<Rightarrow> nat \<Rightarrow> u32 \<Rightarrow> nat \<Rightarrow> (nat \<Rightarrow> u32) \<Rightarrow> mem \<times> 'w \<Rightarrow> ((nat \<Rightarrow> u32) \<times> mem \<times> 'w) option" where
  "chain_loop io ctx cap cur i chain s =
     (if cap \<le> i then None else do {
        let which_cluster = cur * 2 div cluster_size ctx;
        (_, s1) \<leftarrow> fat16_read_cluster io ctx (fat_start ctx div spc ctx + which_cluster) (ctx_buffer ctx) s;
        let following = (ucast (load16 (fst s1) (ctx_buffer ctx + 2 * (cur mod cluster_size ctx))) :: u32);
        if following = 0 then None
        else if following \<noteq> 0xFFFF then chain_loop io ctx cap following (Suc i) (chain(i := cur)) s1
        else if cap \<le> Suc i then None
        else Some (chain(i := cur, Suc i := 0xFFFF), s1)
      })"

definition fat16_read_cluster_fat_chain ::
  "'w port_io \<Rightarrow> fat16_context \<Rightarrow> nat \<Rightarrow> u32 \<Rightarrow> (nat \<Rightarrow> u32) \<Rightarrow> mem \<times> 'w \<Rightarrow> (SYS_RET \<times> (nat \<Rightarrow> u32) \<times> mem \<times> 'w) option" where
  "fat16_read_cluster_fat_chain io ctx cap cluster out_chain s =
     (if cluster_size ctx = 0 then None else do {
        (chain, s1) \<leftarrow> chain_loop io ctx cap cluster 0 out_chain s;
        Some (SYS_RET_NO_ERROR, chain, s1)
      })"

section \<open>Directories\<close>

primrec copy_entries :: "u32 \<Rightarrow> u32 \<Rightarrow> u32 \<Rightarrow> nat \<Rightarrow> mem \<Rightarrow> mem" where
  "copy_entries retrieved out i 0 m = m"
| "copy_entries retrieved out i (Suc n) m =
     (let e = retrieved + 32 * i
      in if m e = 0 then m
         else if m e = 0xE5 then copy_entries retrieved out (i + 1) n m
         else if m (e + 11) AND 0x8 \<noteq> 0 then copy_entries retrieved out (i + 1) n m
         else copy_entries retrieved out (i + 1) n (snd (kaos_memcpy (out + 32 * i) e 32 m)))"

definition fat16_read_directory ::
  "'w port_io \<Rightarrow> fat16_context \<Rightarrow> u32 \<Rightarrow> u32 \<Rightarrow> u32 \<Rightarrow> mem \<times> 'w \<Rightarrow> (SYS_RET \<times> mem \<times> 'w) option" where
  "fat16_read_directory io ctx cluster out_dir_entries max_entries s = do {
     (_, m, w) \<leftarrow> fat16_read_cluster io ctx cluster (ctx_buffer ctx) s;
     Some (SYS_RET_NO_ERROR, copy_entries (ctx_buffer ctx) out_dir_entries 0 (unat max_entries) m, w)
   }"

definition fat16_read_root_dir ::
  "'w port_io \<Rightarrow> fat16_context \<Rightarrow> u32 \<Rightarrow> u32 \<Rightarrow> u32 \<Rightarrow> mem \<times> 'w \<Rightarrow> (SYS_RET \<times> mem \<times> 'w) option" where
  "fat16_read_root_dir io ctx dir_entries max_entries cluster_offset s =
     (if spc ctx = 0 then None
      else fat16_read_directory io ctx (root_dir_start ctx div spc ctx + cluster_offset) dir_entries max_entries s)"

text \<open>
  The scan of the entries of one cluster for a name of eleven bytes: \<open>None\<close> when every entry was passed, else the
  status and the entry found.
\<close>

primrec scan_entries :: "mem \<Rightarrow> u32 \<Rightarrow> u32 \<Rightarrow> u32 \<Rightarrow> nat \<Rightarrow> (SYS_RET \<times> fat16_dir_entry option) option" where
  "scan_entries m retrieved file_to_find i 0 = None"
| "scan_entries m retrieved file_to_find i (Suc n) =
     (let e = retrieved + 32 * i
      in if m e = 0 then Some (SYS_RET_NOT_FOUND, None)
         else if m e = 0xE5 then scan_entries m retrieved file_to_find (i + 1) n
         else if kaos_strncmp m e file_to_find 11 = 0 then Some (SYS_RET_NO_ERROR, Some (load_dir_entry m e))
         else scan_entries m retrieved file_to_find (i + 1) n)"

partial_function (option) find_in_root_dir_loop ::
  "'w port_io \<Rightarrow> fat16_context \<Rightarrow> u32 \<Rightarrow> u32 \<Rightarrow> mem \<times> 'w \<Rightarrow> (SYS_RET \<times> fat16_dir_entry option \<times> mem \<times> 'w) option" where
  "find_in_root_dir_loop io ctx file_to_find current_cluster s = do {
     let max_entries_per_cluster = cluster_size ctx div 32;
     (_, s1) \<leftarrow> fat16_read_root_dir io ctx (ctx_buffer ctx) max_entries_per_cluster current_cluster s;
     case scan_entries (fst s1) (ctx_buffer ctx) file_to_find 0 (unat max_entries_per_cluster) of
       Some (ret, e) \<Rightarrow> Some (ret, e, s1)
     | None \<Rightarrow> find_in_root_dir_loop io ctx file_to_find (current_cluster + 1) s1
   }"

definition fat16_find_in_root_dir ::
  "'w port_io \<Rightarrow> fat16_context \<Rightarrow> u32 \<Rightarrow> mem \<times> 'w \<Rightarrow> (SYS_RET \<times> fat16_dir_entry option \<times> mem \<times> 'w) option" where
  "fat16_find_in_root_dir io ctx file_to_find s = find_in_root_dir_loop io ctx file_to_find 0 s"

text \<open>The clusters of a subdirectory are those of its chain, an array of 1024 elements.\<close>

partial_function (option) find_in_dir_loop ::
  "'w port_io \<Rightarrow> fat16_context \<Rightarrow> u32 \<Rightarrow> (nat \<Rightarrow> u32) \<Rightarrow> nat \<Rightarrow> mem \<times> 'w \<Rightarrow> (SYS_RET \<times> fat16_dir_entry option \<times> mem \<times> 'w) option" where
  "find_in_dir_loop io ctx file_to_find fat_chain current_cluster s = do {
     let max_entries_per_cluster = cluster_size ctx div 32;
     (_, s1) \<leftarrow> fat16_read_directory io ctx ((fat_chain current_cluster - 2) + data_area_start_cluster ctx)
       (ctx_buffer ctx) max_entries_per_cluster s;
     case scan_entries (fst s1) (ctx_buffer ctx) file_to_find 0 (unat max_entries_per_cluster) of
       Some (ret, e) \<Rightarrow> Some (ret, e, s1)
     | None \<Rightarrow>
         if 1024 \<le> Suc current_cluster then None
         else if fat_chain (Suc current_cluster) = 0xFFFF then Some (SYS_RET_NOT_FOUND, None, s1)
         else find_in_dir_loop io ctx file_to_find fat_chain (Suc current_cluster) s1
   }"

definition fat16_find_in_dir ::
  "'w port_io \<Rightarrow> (nat \<Rightarrow> u32) \<Rightarrow> fat16_context \<Rightarrow> u32 \<Rightarrow> fat16_dir_entry \<Rightarrow> mem \<times> 'w \<Rightarrow>
     (SYS_RET \<times> fat16_dir_entry option \<times> mem \<times> 'w) option" where
  "fat16_find_in_dir io junk ctx file_to_find subdir s =
     (if attributes subdir AND FAT_ATTRIB_SUBDIR = 0 then Some (SYS_RET_NOT_FOUND, None, s)
      else do {
        (_, fat_chain, s1) \<leftarrow> fat16_read_cluster_fat_chain io ctx 1024 (CLUSTER_OF subdir) junk s;
        find_in_dir_loop io ctx file_to_find fat_chain 0 s1
      })"

section \<open>Names and paths\<close>

text \<open>
  A pointer into a local array of characters is the list of the characters from there to the end of the array.
  The first loop returns the characters of the name, whether it stopped early, and where.
\<close>

abbreviation space :: u8 where "space \<equiv> chr CHR '' ''"

fun convert_name :: "nat \<Rightarrow> u8 list \<Rightarrow> (u8 list \<times> bool \<times> u8 list) option" where
  "convert_name 0 f = Some ([], False, f)"
| "convert_name (Suc n) [] = None"
| "convert_name (Suc n) (c # f) =
     (if c \<noteq> chr CHR ''.'' \<and> c \<noteq> 0 then map_option (\<lambda>(xs, r). (c # xs, r)) (convert_name n f)
      else Some ([], True, c # f))"

fun convert_extension :: "nat \<Rightarrow> u8 list \<Rightarrow> u8 list option" where
  "convert_extension 0 f = Some []"
| "convert_extension (Suc n) [] = None"
| "convert_extension (Suc n) (c # f) = (if c \<noteq> 0 then map_option ((#) c) (convert_extension n f) else Some [])"

definition padded :: "nat \<Rightarrow> u8 list \<Rightarrow> u8 list" where
  "padded n xs = xs @ replicate (n - length xs) space"

definition fat16_convert_filename :: "u8 list \<Rightarrow> u8 list option" where
  "fat16_convert_filename f = do {
     (name, has_extension, rest) \<leftarrow> convert_name 8 f;
     ext \<leftarrow> (if has_extension then convert_extension 3 (tl rest) else Some []);
     Some (padded 8 name @ padded 3 ext)
   }"

text \<open>The next component of a path goes to an array of twelve characters.\<close>

fun read_fragment :: "u8 list \<Rightarrow> nat \<Rightarrow> u8 list \<Rightarrow> (u8 list \<times> bool \<times> u8 list) option" where
  "read_fragment [] i frag = None"
| "read_fragment (c # path) i frag =
     (if c = chr CHR ''/'' \<and> i \<noteq> 0 then
        (if i + 1 < 12 then Some (frag[i + 1 := 0], True, c # path) else None)
      else if c = 0 then
        (if i + 1 < 12 then Some (frag[i + 1 := 0], False, c # path) else None)
      else if c \<noteq> chr CHR ''/'' then
        (if i < 12 then read_fragment path (i + 1) (frag[i := c]) else None)
      else read_fragment path i frag)"

text \<open>The local copy of the path, up to the terminator that \<^verbatim>\<open>kaos_strncpy\<close> writes.\<close>

definition path_copy :: "mem \<Rightarrow> u32 \<Rightarrow> u8 list" where
  "path_copy m path =
     (let len = kaos_strnlen m path 1024
      in bytes_at m path (unat (if len = 1024 then len - 1 else len)) @ [0])"

definition store_bytes :: "u32 \<Rightarrow> u8 list \<Rightarrow> mem \<Rightarrow> mem" where
  "store_bytes p xs m = (\<lambda>a. if in_range p (length xs) a then xs ! unat (a - p) else m a)"

text \<open>
  \<open>cmp\<close> is the address of the local array \<^verbatim>\<open>cmp_filename\<close>. A call of \<^verbatim>\<open>fat16_find_in_dir\<close> that finds
  nothing leaves the entry as it was.
\<close>

partial_function (option) find_file_entry_loop ::
  "'w port_io \<Rightarrow> (nat \<Rightarrow> u32) \<Rightarrow> u32 \<Rightarrow> fat16_context \<Rightarrow> u8 list \<Rightarrow> fat16_dir_entry option \<Rightarrow> mem \<times> 'w \<Rightarrow>
     (SYS_RET \<times> fat16_dir_entry option \<times> mem \<times> 'w) option" where
  "find_file_entry_loop io junk cmp ctx path entry s = do {
     (path_fragment, is_subdir, path1) \<leftarrow> read_fragment path 0 (replicate 11 space @ [0]);
     cmp_filename \<leftarrow> fat16_convert_filename path_fragment;
     let s1 = (store_bytes cmp (cmp_filename @ [0]) (fst s), snd s);
     case entry of
       None \<Rightarrow> do {
         (ret, found, s2) \<leftarrow> fat16_find_in_root_dir io ctx cmp s1;
         if ret \<noteq> SYS_RET_NO_ERROR then Some (ret, None, s2)
         else find_file_entry_loop io junk cmp ctx path1 found s2
       }
     | Some dir \<Rightarrow> do {
         (ret, found, s2) \<leftarrow> fat16_find_in_dir io junk ctx cmp dir s1;
         let entry1 = (case found of None \<Rightarrow> dir | Some e \<Rightarrow> e);
         if \<not> is_subdir then Some (SYS_RET_NO_ERROR, Some entry1, s2)
         else if ret \<noteq> SYS_RET_NO_ERROR then Some (ret, None, s2)
         else find_file_entry_loop io junk cmp ctx path1 (Some entry1) s2
       }
   }"

definition fat16_find_file_entry ::
  "'w port_io \<Rightarrow> (nat \<Rightarrow> u32) \<Rightarrow> u32 \<Rightarrow> fat16_context \<Rightarrow> u32 \<Rightarrow> mem \<times> 'w \<Rightarrow>
     (SYS_RET \<times> fat16_dir_entry option \<times> mem \<times> 'w) option" where
  "fat16_find_file_entry io junk cmp ctx path s = do {
     let copy = path_copy (fst s) path;
     (_, s1) \<leftarrow> fat16_read_root_dir io ctx (ctx_buffer ctx) (cluster_size ctx div 32) 0 s;
     find_file_entry_loop io junk cmp ctx copy None s1
   }"

section \<open>Files\<close>

partial_function (option) read_file_loop ::
  "'w port_io \<Rightarrow> fat16_context \<Rightarrow> (nat \<Rightarrow> u32) \<Rightarrow> u32 \<Rightarrow> u32 \<Rightarrow> u32 \<Rightarrow> mem \<times> 'w \<Rightarrow> (u32 \<times> mem \<times> 'w) option" where
  "read_file_loop io ctx cluster_chain buffer len i s =
     (if i < len then
        (if 128 \<le> i div cluster_size ctx then None else do {
           (_, m1, w1) \<leftarrow> fat16_read_cluster io ctx
             ((cluster_chain (unat (i div cluster_size ctx)) - 2) + data_area_start_cluster ctx) (ctx_buffer ctx) s;
           read_file_loop io ctx cluster_chain buffer len (i + cluster_size ctx)
             (snd (kaos_memcpy (buffer + i) (ctx_buffer ctx) (cluster_size ctx) m1), w1)
         })
      else Some (i, s))"

definition fat16_read_file ::
  "'w port_io \<Rightarrow> (nat \<Rightarrow> u32) \<Rightarrow> fat16_context \<Rightarrow> fat16_dir_entry \<Rightarrow> u32 \<Rightarrow> u32 \<Rightarrow> mem \<times> 'w \<Rightarrow>
     (SYS_RET \<times> u32 option \<times> mem \<times> 'w) option" where
  "fat16_read_file io junk ctx entry buffer len s =
     (if attributes entry AND (FAT_ATTRIB_SUBDIR OR FAT_ATTRIB_VOLUME_LABEL) \<noteq> 0 then Some (SYS_RET_MALFORMED, None, s)
      else let flen = (if file_size entry > len then len else file_size entry);
               out_len = (if len > flen then flen else len)
      in if flen = 0 then Some (SYS_RET_NO_ERROR, Some out_len, s)
      else do {
        (_, cluster_chain, s1) \<leftarrow> fat16_read_cluster_fat_chain io ctx 128 (CLUSTER_OF entry) junk s;
        (i, s2) \<leftarrow> read_file_loop io ctx cluster_chain buffer flen 0 s1;
        if 128 \<le> i div cluster_size ctx + 1 then None else do {
          (_, m3, w3) \<leftarrow> fat16_read_cluster io ctx
            ((cluster_chain (unat (i div cluster_size ctx) + 1) - 2) + data_area_start_cluster ctx) (ctx_buffer ctx) s2;
          Some (SYS_RET_NO_ERROR, Some out_len,
            snd (kaos_memcpy (buffer + i) (ctx_buffer ctx) (flen mod cluster_size ctx) m3), w3)
        }
      })"

section \<open>Clusters on a disk that works\<close>

text \<open>The bytes of a cluster, and the clusters that lie on the first 128 GB of a disk.\<close>

definition cluster_byte :: "fat16_context \<Rightarrow> (u32 \<Rightarrow> nat \<Rightarrow> u8) \<Rightarrow> u32 \<Rightarrow> nat \<Rightarrow> u8" where
  "cluster_byte ctx disk c i = disk (c * spc ctx + of_nat (i div 512)) (i mod 512)"

definition csize :: "fat16_context \<Rightarrow> nat" where "csize ctx = unat (spc ctx) * 512"

definition cluster_on_disk :: "fat16_context \<Rightarrow> u32 \<Rightarrow> bool" where
  "cluster_on_disk ctx c \<longleftrightarrow> unat c * unat (spc ctx) + unat (spc ctx) \<le> 0x10000000"

text \<open>A context made for a disk that works, with sectors of 512 bytes.\<close>

locale mounted_disk = good_disk io "ctx_device ctx" ready sector
  for io :: "'w port_io" and ctx :: fat16_context and ready :: "'w \<Rightarrow> bool" and sector :: "'w \<Rightarrow> u32 \<Rightarrow> nat \<Rightarrow> u8" +
  assumes sector_bytes: "sectorSize (ctx_device ctx) = 512" and per_cluster: "0 < spc ctx"
begin

lemma spc_bounds: "0 < unat (spc ctx)" "unat (spc ctx) < 256"
proof -
  show "0 < unat (spc ctx)" using per_cluster by (simp add: unat_gt_0)
  have "unat (sectorsPerCluster (boot_sector ctx)) < 2 ^ 8" using unsigned_less [of "sectorsPerCluster (boot_sector ctx)", where 'a = nat] by simp
  then show "unat (spc ctx) < 256" by (simp add: unsigned_ucast_eq unsigned_take_bit_eq take_bit_nat_eq_self)
qed

lemma unat_cluster_size: "unat (cluster_size ctx) = csize ctx"
  using spc_bounds by (simp add: cluster_size_def csize_def sector_bytes unat_word_ariths)

lemma csize_bounds: "512 \<le> csize ctx" "csize ctx \<le> 130560" "csize ctx mod 512 = 0"
  using spc_bounds by (auto simp: csize_def)

lemma read_sectors_eq:
  assumes "ready w" "unat s + unat i + n \<le> 0x10000000" "n \<le> 256"
  shows "\<exists>w'. read_sectors io (ctx_device ctx) s buf i n (m, w) =
      Some (place (buf + 512 * i) (512 * n) (\<lambda>k. sector w (s + i + of_nat (k div 512)) (k mod 512)) m, w') \<and>
    ready w' \<and> sector w' = sector w"
  using assms
proof (induction n arbitrary: i m w)
  case 0
  then show ?case by (auto simp: place_def in_range_def)
next
  case (Suc n)
  have lt: "s + i < 0x10000000" using Suc.prems(2) by (simp add: word_less_nat_alt unat_word_ariths)
  obtain w1 where w1: "block_dev_read io (ctx_device ctx) (ucast (s + i)) (buf + 512 * i) (m, w) =
      Some (SYS_RET_NO_ERROR, place (buf + 512 * i) 512 (sector w (s + i)) m, w1)" "ready w1" "sector w1 = sector w"
    using read_sector [OF Suc.prems(1) lt] by blast
  have i1: "unat (i + 1) = unat i + 1" using Suc.prems(2) by (simp add: unat_word_ariths)
  obtain w2 where w2: "read_sectors io (ctx_device ctx) s buf (i + 1) n (place (buf + 512 * i) 512 (sector w (s + i)) m, w1) =
      Some (place (buf + 512 * (i + 1)) (512 * n) (\<lambda>k. sector w (s + (i + 1) + of_nat (k div 512)) (k mod 512))
        (place (buf + 512 * i) 512 (sector w (s + i)) m), w2)" "ready w2" "sector w2 = sector w"
    using Suc.IH [of w1 "i + 1" "place (buf + 512 * i) 512 (sector w (s + i)) m"] Suc.prems i1 w1 by auto
  have b: "buf + 512 * (i + 1) = buf + 512 * i + of_nat 512" by (simp add: algebra_simps)
  have "place (buf + 512 * (i + 1)) (512 * n) (\<lambda>k. sector w (s + (i + 1) + of_nat (k div 512)) (k mod 512))
        (place (buf + 512 * i) 512 (sector w (s + i)) m) =
      place (buf + 512 * i) (512 * Suc n) (\<lambda>k. sector w (s + i + of_nat (k div 512)) (k mod 512)) m"
  proof -
    have "(if k < 512 then sector w (s + i) k else sector w (s + (i + 1) + of_nat ((k - 512) div 512)) ((k - 512) mod 512)) =
        sector w (s + i + of_nat (k div 512)) (k mod 512)" for k
    proof (cases "k < 512")
      case False
      then have k: "k div 512 = Suc ((k - 512) div 512)" "(k - 512) mod 512 = k mod 512"
        by (simp_all add: le_div_geq le_mod_geq)
      have "s + (i + 1) + of_nat ((k - 512) div 512) = s + i + of_nat (k div 512)" unfolding k(1) by (simp add: add_ac)
      with False k(2) show ?thesis by (simp only: if_False)
    qed simp
    then have "(\<lambda>k. if k < 512 then sector w (s + i) k else sector w (s + (i + 1) + of_nat ((k - 512) div 512)) ((k - 512) mod 512)) =
        (\<lambda>k. sector w (s + i + of_nat (k div 512)) (k mod 512))" by (rule ext)
    then show ?thesis unfolding b using Suc.prems(3) by (subst place_append) simp_all
  qed
  with w1 w2 show ?case by (auto simp: sector_bytes mult.commute)
qed

lemma read_cluster_eq:
  assumes "ready w" "cluster_on_disk ctx c"
  shows "\<exists>w'. fat16_read_cluster io ctx c buf (m, w) =
      Some (SYS_RET_NO_ERROR, place buf (csize ctx) (cluster_byte ctx (sector w) c) m, w') \<and> ready w' \<and> sector w' = sector w"
proof -
  have "unat (c * spc ctx) = unat c * unat (spc ctx)"
    using assms(2) by (simp add: cluster_on_disk_def unat_word_ariths)
  then show ?thesis
    using read_sectors_eq [OF assms(1), of "c * spc ctx" 0 "unat (spc ctx)" buf m] assms(2) spc_bounds
    by (auto simp: fat16_read_cluster_def cluster_on_disk_def cluster_byte_def [abs_def] csize_def mult.commute)
qed

end

section \<open>The allocation table\<close>

text \<open>
  The table on the disk: its bytes from the first reserved sector on, and the successor of a cluster, two bytes for
  each. The code finds the entry of a cluster in the right place only if its number leaves a remainder in the lower
  half when it is divided by the bytes of a cluster.
\<close>

definition fat_byte :: "fat16_context \<Rightarrow> (u32 \<Rightarrow> nat \<Rightarrow> u8) \<Rightarrow> nat \<Rightarrow> u8" where
  "fat_byte ctx disk k = disk (fat_start ctx + of_nat (k div 512)) (k mod 512)"

definition fat_next :: "fat16_context \<Rightarrow> (u32 \<Rightarrow> nat \<Rightarrow> u8) \<Rightarrow> u32 \<Rightarrow> u32" where
  "fat_next ctx disk c = ucast (load16 (\<lambda>a. fat_byte ctx disk (unat a)) (2 * c))"

definition fat_reachable :: "fat16_context \<Rightarrow> u32 \<Rightarrow> bool" where
  "fat_reachable ctx c \<longleftrightarrow> unat c < 0x10000 \<and> unat c mod csize ctx < csize ctx div 2"

definition fat_aligned :: "fat16_context \<Rightarrow> bool" where
  "fat_aligned ctx \<longleftrightarrow> unat (fat_start ctx) mod unat (spc ctx) = 0 \<and> unat (fat_start ctx) + 512 \<le> 0x10000000"

text \<open>A chain of clusters that ends with the mark \<open>0xFFFF\<close>.\<close>

fun linked :: "(u32 \<Rightarrow> u32) \<Rightarrow> u32 list \<Rightarrow> bool" where
  "linked nxt [] \<longleftrightarrow> False"
| "linked nxt [x] \<longleftrightarrow> nxt x = 0xFFFF"
| "linked nxt (x # y # ys) \<longleftrightarrow> nxt x = y \<and> y \<noteq> 0 \<and> y \<noteq> 0xFFFF \<and> linked nxt (y # ys)"

lemma double_mod: "2 * c = s * (2 * c div s) + 2 * (c mod s)" if "even s" "c mod s < s div 2" for c s :: nat
proof -
  from that have s: "2 * (c mod s) < s" by auto
  have "2 * c = s * (2 * (c div s)) + 2 * (c mod s)" by (metis add_mult_distrib2 mult.assoc mult.commute mult_div_mod_eq)
  moreover from this s have "2 * c div s = 2 * (c div s)" by (metis div_less div_mult_self4 gr_implies_not0 not_gr_zero add.right_neutral mult_0)
  ultimately show ?thesis by simp
qed

context mounted_disk
begin

lemma fat_cluster:
  assumes "fat_reachable ctx c" "fat_aligned ctx"
  shows "cluster_on_disk ctx (fat_start ctx div spc ctx + c * 2 div cluster_size ctx)"
    and "j < 2 \<Longrightarrow> cluster_byte ctx disk (fat_start ctx div spc ctx + c * 2 div cluster_size ctx) (2 * (unat c mod csize ctx) + j) =
      fat_byte ctx disk (2 * unat c + j)"
    and "unat (2 * (c mod cluster_size ctx)) = 2 * (unat c mod csize ctx)"
proof -
  let ?q = "fat_start ctx div spc ctx + c * 2 div cluster_size ctx" and ?r = "unat c mod csize ctx"
  define Q where "Q = 2 * unat c div csize ctx"
  have c: "unat c < 65536" "?r < csize ctx div 2" using assms(1) by (simp_all add: fat_reachable_def)
  have f: "unat (fat_start ctx) = unat (spc ctx) * (unat (fat_start ctx) div unat (spc ctx))"
    using assms(2) by (auto simp: fat_aligned_def)
  have "Q \<le> 131072 div csize ctx" unfolding Q_def using c by (intro div_le_mono) simp
  also have "\<dots> \<le> 131072 div 512" using csize_bounds by (intro div_le_mono2) auto
  finally have Q256: "Q \<le> 256" by simp
  have even: "even (csize ctx)" by (simp add: csize_def)
  have split: "2 * unat c = csize ctx * Q + 2 * ?r" using double_mod [OF even c(2)] by (simp only: Q_def)
  have qspc: "Q * unat (spc ctx) \<le> 256"
  proof -
    have "512 * (Q * unat (spc ctx)) = csize ctx * Q" by (simp add: csize_def)
    with split have "512 * (Q * unat (spc ctx)) \<le> 2 * unat c" by linarith
    then show ?thesis using c by simp
  qed
  have "unat (fat_start ctx) div unat (spc ctx) \<le> unat (fat_start ctx)" by (rule div_le_dividend)
  moreover have "unat (fat_start ctx) + 512 \<le> 0x10000000" using assms(2) by (simp add: fat_aligned_def)
  ultimately have "unat (fat_start ctx) div unat (spc ctx) + Q < 4294967296" using Q256 by linarith
  then have q: "unat ?q = unat (fat_start ctx) div unat (spc ctx) + Q"
    using c by (simp add: Q_def unat_word_ariths unat_div unat_cluster_size mult.commute)
  then have qs: "unat ?q * unat (spc ctx) = unat (fat_start ctx) + Q * unat (spc ctx)"
    using f by (simp add: algebra_simps)
  then show "cluster_on_disk ctx ?q" using assms(2) spc_bounds qspc by (simp add: cluster_on_disk_def fat_aligned_def)
  have sec: "?q * spc ctx = fat_start ctx + of_nat (Q * unat (spc ctx))"
  proof (rule word_unat_eq_iff [THEN iffD2])
    have u: "unat (of_nat (Q * unat (spc ctx)) :: u32) = Q * unat (spc ctx)" using qspc by (intro unat_of_nat_u32) simp
    have bound: "unat (fat_start ctx) + Q * unat (spc ctx) < 4294967296" using qspc assms(2) by (simp add: fat_aligned_def)
    have "unat (?q * spc ctx) = unat ?q * unat (spc ctx)" by (rule unat_mult_lem [THEN iffD1]) (use qs bound in simp)
    moreover have "unat (fat_start ctx + of_nat (Q * unat (spc ctx))) = unat (fat_start ctx) + Q * unat (spc ctx)"
      using u bound by (subst unat_add_lem [THEN iffD1]) (simp_all del: of_nat_mult)
    ultimately show "unat (?q * spc ctx) = unat (fat_start ctx + of_nat (Q * unat (spc ctx)))" using qs by linarith
  qed
  show "cluster_byte ctx disk ?q (2 * ?r + j) = fat_byte ctx disk (2 * unat c + j)" if "j < 2"
  proof -
    have "512 * (Q * unat (spc ctx)) = csize ctx * Q" by (simp add: csize_def)
    with split have "2 * unat c + j = (2 * ?r + j) + 512 * (Q * unat (spc ctx))" by linarith
    then have "(2 * unat c + j) div 512 = Q * unat (spc ctx) + (2 * ?r + j) div 512" "(2 * unat c + j) mod 512 = (2 * ?r + j) mod 512"
      by (simp_all only: div_mult_self2 mod_mult_self2)
    then show ?thesis by (simp add: cluster_byte_def fat_byte_def sec add.assoc)
  qed
  show "unat (2 * (c mod cluster_size ctx)) = 2 * ?r"
    using c csize_bounds by (simp add: unat_word_ariths unat_mod unat_cluster_size)
qed

lemma chain_step:
  assumes "ready w" "fat_reachable ctx c" "fat_aligned ctx"
  shows "\<exists>m' w'. fat16_read_cluster io ctx (fat_start ctx div spc ctx + c * 2 div cluster_size ctx) (ctx_buffer ctx) (m, w) =
      Some (SYS_RET_NO_ERROR, m', w') \<and> ready w' \<and> sector w' = sector w \<and>
    ucast (load16 m' (ctx_buffer ctx + 2 * (c mod cluster_size ctx))) = fat_next ctx (sector w) c \<and>
    (\<forall>a. \<not> in_range (ctx_buffer ctx) (csize ctx) a \<longrightarrow> m' a = m a)"
proof -
  let ?q = "fat_start ctx div spc ctx + c * 2 div cluster_size ctx" and ?r = "2 * (unat c mod csize ctx)"
  let ?m = "place (ctx_buffer ctx) (csize ctx) (cluster_byte ctx (sector w) ?q) m"
  note fc = fat_cluster [OF assms(2,3)]
  obtain w' where w': "fat16_read_cluster io ctx ?q (ctx_buffer ctx) (m, w) = Some (SYS_RET_NO_ERROR, ?m, w')" "ready w'" "sector w' = sector w"
    using read_cluster_eq [OF assms(1) fc(1)] by blast
  have off: "2 * (c mod cluster_size ctx) = of_nat ?r"
    unfolding fc(3) [symmetric] by simp
  have c2: "unat (2 * c) = 2 * unat c" using assms(2) by (simp add: fat_reachable_def unat_word_ariths)
  have c21: "unat (2 * c + 1) = 2 * unat c + 1" using assms(2) c2 by (simp add: fat_reachable_def unat_word_ariths)
  have r: "?r + 1 < csize ctx" using assms(2) csize_bounds(3) by (auto simp: fat_reachable_def csize_def)
  have b: "?m (ctx_buffer ctx + of_nat (?r + j)) = fat_byte ctx (sector w) (2 * unat c + j)" if "j < 2" for j
    using that r fc(2) [OF that] csize_bounds by (subst place_apply) auto
  have "load16 ?m (ctx_buffer ctx + 2 * (c mod cluster_size ctx)) = load16 (\<lambda>a. fat_byte ctx (sector w) (unat a)) (2 * c)"
  proof -
    have "ctx_buffer ctx + of_nat ?r + 1 = ctx_buffer ctx + of_nat (?r + 1)" by simp
    then show ?thesis unfolding load16_def off using b [of 0] b [of 1] by (simp only: c2 c21 add_0_right)
  qed
  with w' show ?thesis by (auto simp: fat_next_def place_outside)
qed

lemma chain_loop_eq:
  assumes "ready w" "linked (fat_next ctx (sector w)) xs" "\<forall>x \<in> set xs. fat_reachable ctx x" "fat_aligned ctx"
    "i + length xs < cap"
  shows "\<exists>m' w'. chain_loop io ctx cap (hd xs) i chain (m, w) =
      Some (\<lambda>k. if i \<le> k \<and> k < i + length xs then xs ! (k - i) else if k = i + length xs then 0xFFFF else chain k, m', w') \<and>
    ready w' \<and> sector w' = sector w \<and> (\<forall>a. \<not> in_range (ctx_buffer ctx) (csize ctx) a \<longrightarrow> m' a = m a)"
  using assms
proof (induction xs arbitrary: i chain m w)
  case (Cons x xs)
  obtain m1 w1 where s1: "fat16_read_cluster io ctx (fat_start ctx div spc ctx + x * 2 div cluster_size ctx) (ctx_buffer ctx) (m, w) =
      Some (SYS_RET_NO_ERROR, m1, w1)" "ready w1" "sector w1 = sector w"
    "ucast (load16 m1 (ctx_buffer ctx + 2 * (x mod cluster_size ctx))) = fat_next ctx (sector w) x"
    "\<forall>a. \<not> in_range (ctx_buffer ctx) (csize ctx) a \<longrightarrow> m1 a = m a"
    using chain_step [of w x m] Cons.prems by auto
  show ?case
  proof (cases xs)
    case Nil
    with Cons.prems(2) s1 Cons.prems(5) show ?thesis
      by (subst chain_loop.simps) (auto simp: fun_eq_iff Let_def)
  next
    case (Cons y ys)
    obtain m2 w2 where s2: "chain_loop io ctx cap y (Suc i) (chain(i := x)) (m1, w1) =
        Some (\<lambda>k. if Suc i \<le> k \<and> k < Suc i + length xs then xs ! (k - Suc i) else if k = Suc i + length xs then 0xFFFF
          else (chain(i := x)) k, m2, w2)" "ready w2" "sector w2 = sector w"
      "\<forall>a. \<not> in_range (ctx_buffer ctx) (csize ctx) a \<longrightarrow> m2 a = m1 a"
    proof -
      have "linked (fat_next ctx (sector w1)) xs" "i + length xs < cap - 1" "hd xs = y"
        using Cons.prems Cons s1(3) by auto
      then show ?thesis using Cons.IH [of w1 "Suc i" "chain(i := x)" m1] Cons.prems s1(2,3) that
        by (auto simp del: fun_upd_apply)
    qed
    have eq: "(\<lambda>k. if Suc i \<le> k \<and> k < Suc i + length xs then xs ! (k - Suc i) else if k = Suc i + length xs then 0xFFFF
          else (chain(i := x)) k) =
        (\<lambda>k. if i \<le> k \<and> k < i + length (x # xs) then (x # xs) ! (k - i) else if k = i + length (x # xs) then 0xFFFF else chain k)"
      by (rule ext) (auto simp: nth_Cons' simp flip: diff_Suc_eq_diff_pred)
    show ?thesis
      unfolding eq [symmetric] using Cons.prems Cons s1 s2
      by (subst chain_loop.simps) (auto simp: Let_def)
  qed
qed simp

end

section \<open>Reading files\<close>

text \<open>The cluster number of the data area that holds cluster \<open>x\<close> of the table, and the bytes of a chain of clusters.\<close>

definition data_cluster :: "fat16_context \<Rightarrow> u32 \<Rightarrow> u32" where
  "data_cluster ctx x = (x - 2) + data_area_start_cluster ctx"

definition file_byte :: "fat16_context \<Rightarrow> (u32 \<Rightarrow> nat \<Rightarrow> u8) \<Rightarrow> u32 list \<Rightarrow> nat \<Rightarrow> u8" where
  "file_byte ctx disk xs i = cluster_byte ctx disk (data_cluster ctx (xs ! (i div csize ctx))) (i mod csize ctx)"

text \<open>A chain of clusters that the code can follow and read.\<close>

definition chain_on_disk :: "fat16_context \<Rightarrow> (u32 \<Rightarrow> nat \<Rightarrow> u8) \<Rightarrow> u32 list \<Rightarrow> bool" where
  "chain_on_disk ctx disk xs \<longleftrightarrow> linked (fat_next ctx disk) xs \<and>
     (\<forall>x \<in> set xs. fat_reachable ctx x \<and> cluster_on_disk ctx (data_cluster ctx x))"

lemma no_overlap_sub:
  assumes "no_overlap b n c k" "i + j \<le> n" "n \<le> 4294967296"
  shows "no_overlap (b + of_nat i) j c k"
  unfolding no_overlap_def
proof (intro allI impI notI)
  fix l assume l: "l < k" "in_range (b + of_nat i) j (c + of_nat l)"
  then obtain t where "t < j" "c + of_nat l = b + of_nat (i + t)"
    using assms(2,3) in_range_offset [of j] by (auto simp: add_ac)
  then have "in_range b n (c + of_nat l)" using assms(2,3) in_range_offset [of n b] by (auto intro!: exI [of _ "i + t"])
  with assms(1) l show False by (auto simp: no_overlap_def)
qed

lemma no_overlap_in_range:
  assumes "no_overlap b n c k" "k \<le> 4294967296" "in_range b n a"
  shows "\<not> in_range c k a"
  using assms in_range_offset [OF assms(2)] by (auto simp: no_overlap_def)

context mounted_disk
begin

lemma copy_cluster:
  assumes "ready w" "cluster_on_disk ctx c" "k \<le> csize ctx" "no_overlap p k (ctx_buffer ctx) (csize ctx)"
  shows "\<exists>m' w'. fat16_read_cluster io ctx c (ctx_buffer ctx) (m, w) = Some (SYS_RET_NO_ERROR, m', w') \<and> ready w' \<and>
     sector w' = sector w \<and>
     (\<forall>a. \<not> in_range (ctx_buffer ctx) (csize ctx) a \<longrightarrow>
        snd (kaos_memcpy p (ctx_buffer ctx) (of_nat k) m') a = place p k (cluster_byte ctx (sector w) c) m a)"
proof -
  let ?m = "place (ctx_buffer ctx) (csize ctx) (cluster_byte ctx (sector w) c) m"
  obtain w' where w': "fat16_read_cluster io ctx c (ctx_buffer ctx) (m, w) = Some (SYS_RET_NO_ERROR, ?m, w')" "ready w'" "sector w' = sector w"
    using read_cluster_eq [OF assms(1,2)] by blast
  have k: "unat (of_nat k :: u32) = k" using assms(3) csize_bounds by (intro unat_of_nat_u32) simp
  have "no_overlap p k (ctx_buffer ctx) k" using assms(3,4) by (auto simp: no_overlap_def)
  then have "snd (kaos_memcpy p (ctx_buffer ctx) (of_nat k) ?m) = place p k (\<lambda>i. ?m (ctx_buffer ctx + of_nat i)) ?m"
    using memcpy_place [of p "of_nat k" "ctx_buffer ctx"] k by simp
  also have "\<dots> = place p k (cluster_byte ctx (sector w) c) ?m"
    using assms(3) csize_bounds by (intro place_cong place_apply) auto
  finally show ?thesis using w' by (auto simp: place_def)
qed

lemma read_file_loop_eq:
  assumes "ready w" "k \<le> n" "n < 127" "\<And>j. j < n \<longleftrightarrow> j * csize ctx < unat len"
    "\<And>j. j < n \<Longrightarrow> cluster_on_disk ctx (data_cluster ctx (chain j))"
    "no_overlap buf (n * csize ctx) (ctx_buffer ctx) (csize ctx)"
  shows "\<exists>m' w'. read_file_loop io ctx chain buf len (of_nat (k * csize ctx)) (m, w) = Some (of_nat (n * csize ctx), m', w') \<and>
     ready w' \<and> sector w' = sector w \<and>
     (\<forall>a. \<not> in_range (ctx_buffer ctx) (csize ctx) a \<longrightarrow>
        m' a = place (buf + of_nat (k * csize ctx)) ((n - k) * csize ctx)
          (\<lambda>i. cluster_byte ctx (sector w) (data_cluster ctx (chain (k + i div csize ctx))) (i mod csize ctx)) m a)"
  using assms(1,2)
proof (induction "n - k" arbitrary: k m w)
  case 0
  then have "k = n" by simp
  moreover have "unat (of_nat (n * csize ctx) :: u32) = n * csize ctx"
    using assms(3) csize_bounds mult_le_mono [of n 126 "csize ctx" 130560] by (intro unat_of_nat_u32) simp
  moreover have "\<not> n * csize ctx < unat len" using assms(4) [of n] by simp
  ultimately show ?case using 0 by (subst read_file_loop.simps) (auto simp: word_less_nat_alt place_def in_range_def)
next
  case (Suc d)
  then have k: "k < n" "d = n - Suc k" by simp_all
  let ?cs = "csize ctx" and ?i = "of_nat (k * csize ctx) :: u32"
  have big: "n * ?cs \<le> 16450560" using assms(3) csize_bounds mult_le_mono [of n 126 ?cs 130560] by simp
  have "Suc k * ?cs \<le> n * ?cs" using k by (intro mult_le_mono1) simp
  then have kc: "k * ?cs + ?cs \<le> n * ?cs" by simp
  have ui: "unat ?i = k * ?cs" using kc big by (intro unat_of_nat_u32) simp
  have less: "?i < len" using assms(4) [of k] k ui by (simp add: word_less_nat_alt)
  have idx: "unat (?i div cluster_size ctx) = k" using ui unat_cluster_size csize_bounds by (simp add: unat_div)
  have idx': "\<not> 128 \<le> ?i div cluster_size ctx" using idx k assms(3) by (simp add: word_le_nat_alt)
  have csw: "of_nat ?cs = cluster_size ctx" by (simp flip: unat_cluster_size)
  have nxt: "?i + cluster_size ctx = of_nat (Suc k * ?cs)" by (simp flip: csw)
  have over: "no_overlap (buf + ?i) ?cs (ctx_buffer ctx) ?cs" using kc big by (intro no_overlap_sub [OF assms(6)]) simp_all
  obtain m1 w1 where s1: "fat16_read_cluster io ctx (data_cluster ctx (chain k)) (ctx_buffer ctx) (m, w) = Some (SYS_RET_NO_ERROR, m1, w1)"
    "ready w1" "sector w1 = sector w"
    "\<forall>a. \<not> in_range (ctx_buffer ctx) ?cs a \<longrightarrow> snd (kaos_memcpy (buf + ?i) (ctx_buffer ctx) (of_nat ?cs) m1) a =
        place (buf + ?i) ?cs (cluster_byte ctx (sector w) (data_cluster ctx (chain k))) m a"
    using copy_cluster [OF Suc.prems(1) assms(5) [OF k(1)] order_refl over, of m] by blast
  define m2 where "m2 = snd (kaos_memcpy (buf + ?i) (ctx_buffer ctx) (cluster_size ctx) m1)"
  obtain m' w' where ih: "read_file_loop io ctx chain buf len (of_nat (Suc k * ?cs)) (m2, w1) = Some (of_nat (n * ?cs), m', w')"
    "ready w'" "sector w' = sector w"
    "\<forall>a. \<not> in_range (ctx_buffer ctx) ?cs a \<longrightarrow> m' a = place (buf + of_nat (Suc k * ?cs)) ((n - Suc k) * ?cs)
          (\<lambda>i. cluster_byte ctx (sector w) (data_cluster ctx (chain (Suc k + i div ?cs))) (i mod ?cs)) m2 a"
    using Suc.hyps(1) [of "Suc k" w1 m2] k s1(2,3) by auto
  have step: "read_file_loop io ctx chain buf len ?i (m, w) = Some (of_nat (n * ?cs), m', w')"
    using less idx idx' s1(1) ih(1)
    by (subst read_file_loop.simps) (simp add: nxt m2_def data_cluster_def del: of_nat_mult mult_Suc)
  have mem: "m' a = place (buf + ?i) ((n - k) * ?cs)
      (\<lambda>i. cluster_byte ctx (sector w) (data_cluster ctx (chain (k + i div ?cs))) (i mod ?cs)) m a"
    if a: "\<not> in_range (ctx_buffer ctx) ?cs a" for a
  proof -
    let ?f = "\<lambda>k i. cluster_byte ctx (sector w) (data_cluster ctx (chain (k + i div ?cs))) (i mod ?cs)"
    have "m' a = place (buf + ?i + of_nat ?cs) ((n - Suc k) * ?cs) (?f (Suc k)) m2 a"
      using ih(4) a by (simp add: add_ac)
    also have "\<dots> = place (buf + ?i + of_nat ?cs) ((n - Suc k) * ?cs) (?f (Suc k))
        (place (buf + ?i) ?cs (cluster_byte ctx (sector w) (data_cluster ctx (chain k))) m) a"
      using s1(4) a by (simp add: place_def m2_def csw)
    also have "\<dots> = place (buf + ?i) (?cs + (n - Suc k) * ?cs)
        (\<lambda>i. if i < ?cs then cluster_byte ctx (sector w) (data_cluster ctx (chain k)) i else ?f (Suc k) (i - ?cs)) m a"
    proof (subst place_append)
      have "(n - Suc k) * ?cs \<le> n * ?cs" by (intro mult_le_mono1) simp
      then show "?cs + (n - Suc k) * ?cs \<le> 4294967296" using big csize_bounds by linarith
    qed simp
    also have "?cs + (n - Suc k) * ?cs = (n - k) * ?cs" using k by (metis mult_Suc Suc_diff_Suc)
    also have "(\<lambda>i. if i < ?cs then cluster_byte ctx (sector w) (data_cluster ctx (chain k)) i else ?f (Suc k) (i - ?cs)) = ?f k"
      using csize_bounds by (auto simp: fun_eq_iff le_div_geq le_mod_geq)
    finally show ?thesis .
  qed
  show ?case using step mem ih(2,3) by blast
qed

end

text \<open>
  The element of the array of clusters that the code reads after the last cluster of the file: one past the end of
  the file's part of the chain, which may be the end mark or an element that was never written.
\<close>

definition stray_element :: "(nat \<Rightarrow> u32) \<Rightarrow> u32 list \<Rightarrow> nat \<Rightarrow> u32" where
  "stray_element junk xs n = (if n + 1 < length xs then xs ! (n + 1) else if n + 1 = length xs then 0xFFFF else junk (n + 1))"

context mounted_disk
begin

lemma read_file_eq:
  assumes "ready w" "fat_aligned ctx" "attributes entry AND (FAT_ATTRIB_SUBDIR OR FAT_ATTRIB_VOLUME_LABEL) = 0"
    "hd xs = CLUSTER_OF entry" "chain_on_disk ctx (sector w) xs" "length xs < 127"
    "flen = min (file_size entry) len" "0 < flen" "unat flen \<le> length xs * csize ctx"
    "n = (unat flen + csize ctx - 1) div csize ctx" "cluster_on_disk ctx (data_cluster ctx (stray_element junk xs n))"
    "no_overlap buf (n * csize ctx + csize ctx) (ctx_buffer ctx) (csize ctx)"
  shows "\<exists>m' w'. fat16_read_file io junk ctx entry buf len (m, w) = Some (SYS_RET_NO_ERROR, Some flen, m', w') \<and>
     ready w' \<and> sector w' = sector w \<and>
     (\<forall>i < unat flen. m' (buf + of_nat i) = file_byte ctx (sector w) xs i) \<and>
     (\<forall>a. \<not> in_range buf (n * csize ctx + unat flen mod csize ctx) a \<and> \<not> in_range (ctx_buffer ctx) (csize ctx) a \<longrightarrow> m' a = m a)"
proof -
  let ?cs = "csize ctx" and ?L = "unat flen"
  define chain where "chain = (\<lambda>k. if k < length xs then xs ! k else if k = length xs then 0xFFFF else junk k)"
  have L0: "0 < ?L" using assms(8) by (simp add: word_less_nat_alt)
  have cnt: "j < n \<longleftrightarrow> j * ?cs < ?L" for j
  proof -
    have "j < n \<longleftrightarrow> Suc j \<le> (?L + ?cs - 1) div ?cs" using assms(10) by auto
    also have "\<dots> \<longleftrightarrow> Suc j * ?cs \<le> ?L + ?cs - 1" using csize_bounds by (subst less_eq_div_iff_mult_less_eq) auto
    also have "\<dots> \<longleftrightarrow> j * ?cs < ?L" using csize_bounds L0 by auto
    finally show ?thesis .
  qed
  have nL: "?L \<le> n * ?cs" using cnt [of n] by simp
  have n_xs: "n \<le> length xs"
  proof (rule ccontr)
    assume "\<not> n \<le> length xs"
    then have "length xs * ?cs < ?L" using cnt [of "length xs"] by simp
    with assms(9) show False by simp
  qed
  have n127: "n < 127" using n_xs assms(6) by simp
  have big: "n * ?cs \<le> 16450560" using n127 csize_bounds mult_le_mono [of n 126 ?cs 130560] by simp
  have un: "unat (of_nat (n * ?cs) :: u32) = n * ?cs" using big by (intro unat_of_nat_u32) simp
  obtain m1 w1 where s1: "chain_loop io ctx 128 (CLUSTER_OF entry) 0 junk (m, w) = Some (chain, m1, w1)" "ready w1" "sector w1 = sector w"
    "\<forall>a. \<not> in_range (ctx_buffer ctx) ?cs a \<longrightarrow> m1 a = m a"
    using chain_loop_eq [of w xs 0 128 junk m] assms(1,2,4,5,6) by (auto simp: chain_on_disk_def chain_def cong: if_cong)
  have on_disk: "cluster_on_disk ctx (data_cluster ctx (chain j))" if "j < n" for j
    using that n_xs assms(5) by (auto simp: chain_def chain_on_disk_def)
  have over: "no_overlap buf (n * ?cs) (ctx_buffer ctx) ?cs"
    using no_overlap_sub [OF assms(12), of 0 "n * ?cs"] big csize_bounds by simp
  obtain m2 w2 where s2: "read_file_loop io ctx chain buf flen 0 (m1, w1) = Some (of_nat (n * ?cs), m2, w2)" "ready w2" "sector w2 = sector w"
    "\<forall>a. \<not> in_range (ctx_buffer ctx) ?cs a \<longrightarrow> m2 a = place buf (n * ?cs)
      (\<lambda>i. cluster_byte ctx (sector w) (data_cluster ctx (chain (i div ?cs))) (i mod ?cs)) m1 a"
    using read_file_loop_eq [of w1 0 n flen chain buf m1] s1(2,3) n127 cnt on_disk over by auto
  let ?r = "?L mod ?cs"
  have r: "?r \<le> ?cs" using csize_bounds by (intro less_imp_le mod_less_divisor) simp
  have over3: "no_overlap (buf + of_nat (n * ?cs)) ?r (ctx_buffer ctx) ?cs"
    using r big csize_bounds by (intro no_overlap_sub [OF assms(12)]) simp_all
  have stray: "chain (n + 1) = stray_element junk xs n" by (auto simp: chain_def stray_element_def)
  obtain m3 w3 where s3: "fat16_read_cluster io ctx (data_cluster ctx (chain (n + 1))) (ctx_buffer ctx) (m2, w2) = Some (SYS_RET_NO_ERROR, m3, w3)"
    "ready w3" "sector w3 = sector w"
    "\<forall>a. \<not> in_range (ctx_buffer ctx) ?cs a \<longrightarrow> snd (kaos_memcpy (buf + of_nat (n * ?cs)) (ctx_buffer ctx) (of_nat ?r) m3) a =
        place (buf + of_nat (n * ?cs)) ?r (cluster_byte ctx (sector w) (data_cluster ctx (chain (n + 1)))) m2 a"
    using copy_cluster [OF s2(2) _ r over3] assms(11) s2(3) stray by metis
  let ?m = "snd (kaos_memcpy (buf + of_nat (n * ?cs)) (ctx_buffer ctx) (of_nat ?r) m3)"
  have idx: "unat ((of_nat (n * ?cs) :: u32) div cluster_size ctx) = n"
    using un unat_cluster_size csize_bounds by (simp add: unat_div)
  then have idx': "\<not> 128 \<le> (of_nat (n * ?cs) :: u32) div cluster_size ctx + 1"
    using n127 by (simp add: word_le_nat_alt unat_word_ariths)
  have rw: "flen mod cluster_size ctx = of_nat ?r" by (simp flip: unat_cluster_size unat_mod)
  have cs0: "cluster_size ctx \<noteq> 0" using unat_cluster_size csize_bounds by (auto simp: unat_eq_0 [symmetric])
  have ln: "(if file_size entry > len then len else file_size entry) = flen" "(if len > flen then flen else len) = flen" "flen \<noteq> 0"
    using assms(7,8) by (auto simp: min_def not_less)
  have run: "fat16_read_file io junk ctx entry buf len (m, w) = Some (SYS_RET_NO_ERROR, Some flen, ?m, w3)"
    using assms(3) s1(1) s2(1) s3(1) idx idx' cs0
    by (simp add: fat16_read_file_def fat16_read_cluster_fat_chain_def ln Let_def data_cluster_def rw del: of_nat_mult)
  have two: "?m a = place (buf + of_nat (n * ?cs)) ?r (cluster_byte ctx (sector w) (data_cluster ctx (chain (n + 1))))
      (place buf (n * ?cs) (\<lambda>i. cluster_byte ctx (sector w) (data_cluster ctx (chain (i div ?cs))) (i mod ?cs)) m) a"
    if "\<not> in_range (ctx_buffer ctx) ?cs a" for a
    using that s1(4) s2(4) s3(4) by (simp add: place_def)
  then have one: "?m a = place buf (n * ?cs + ?r) (\<lambda>i. if i < n * ?cs
      then cluster_byte ctx (sector w) (data_cluster ctx (chain (i div ?cs))) (i mod ?cs)
      else cluster_byte ctx (sector w) (data_cluster ctx (chain (n + 1))) (i - n * ?cs)) m a"
    if "\<not> in_range (ctx_buffer ctx) ?cs a" for a
  proof -
    have "n * ?cs + ?r \<le> 4294967296" using big r csize_bounds by linarith
    from place_append [OF this] show ?thesis using two [OF that] by (simp only:)
  qed
  have "?m (buf + of_nat i) = file_byte ctx (sector w) xs i" if i: "i < ?L" for i
  proof -
    have i_n: "i < n * ?cs" using i nL by simp
    then have "in_range buf (n * ?cs) (buf + of_nat i)" using big by (simp add: in_range_def unat_of_nat_u32)
    then have "\<not> in_range (ctx_buffer ctx) ?cs (buf + of_nat i)"
      using no_overlap_in_range [OF over] csize_bounds by simp
    moreover have "i div ?cs < length xs" using less_mult_imp_div_less [OF i_n] n_xs by simp
    moreover have "i < n * ?cs + ?r" "n * ?cs + ?r \<le> 4294967296" using i_n big r csize_bounds by linarith+
    ultimately show ?thesis using one i_n by (simp add: place_apply file_byte_def chain_def)
  qed
  moreover have "?m a = m a" if "\<not> in_range buf (n * ?cs + ?r) a" "\<not> in_range (ctx_buffer ctx) ?cs a" for a
    using one [OF that(2)] that(1) by (simp add: place_outside)
  ultimately show ?thesis using run s3(2,3) by blast
qed

end

section \<open>Properties\<close>

text \<open>
  C30: reading a file from a mounted disk, for a regular file whose clusters the table links and the code can find. The code returns the
  smaller of the file's size and the length asked for, and that many bytes of the file are in the buffer;
  the disk keeps its contents. Past the end of the file the code also overwrites the rest
  of the last cluster and as many bytes again as the file has in it; nothing else but its own buffer changes.
  Covered are chains of fewer than 127 clusters of which each has a number that, modulo the bytes of a cluster, is less than half of
  them (\<open>fat_reachable\<close>): for any other number the code looks at a wrong place of the table. The table starts at a multiple of the
  sectors of a cluster, and the array element after the part of the chain that is read, which the code uses too, names a cluster on the disk.
\<close>

theorem fat16_read_file_contents:
  assumes "good_disk io (ctx_device ctx) ready sector" "sectorSize (ctx_device ctx) = 512" "0 < spc ctx"
    and "ready w" "fat_aligned ctx" "attributes entry AND (FAT_ATTRIB_SUBDIR OR FAT_ATTRIB_VOLUME_LABEL) = 0"
    and "hd xs = CLUSTER_OF entry" "chain_on_disk ctx (sector w) xs" "length xs < 127"
    and "flen = min (file_size entry) len" "0 < flen" "unat flen \<le> length xs * csize ctx"
    and "n = (unat flen + csize ctx - 1) div csize ctx" "cluster_on_disk ctx (data_cluster ctx (stray_element junk xs n))"
    and "no_overlap buf (n * csize ctx + csize ctx) (ctx_buffer ctx) (csize ctx)"
  shows "\<exists>m' w'. fat16_read_file io junk ctx entry buf len (m, w) = Some (SYS_RET_NO_ERROR, Some flen, m', w') \<and>
     ready w' \<and> sector w' = sector w \<and>
     (\<forall>i < unat flen. m' (buf + of_nat i) = file_byte ctx (sector w) xs i) \<and>
     (\<forall>a. \<not> in_range buf (n * csize ctx + unat flen mod csize ctx) a \<and> \<not> in_range (ctx_buffer ctx) (csize ctx) a \<longrightarrow> m' a = m a)"
proof -
  from assms(1-3) have "mounted_disk io ctx ready sector"
    by (auto intro!: mounted_disk.intro mounted_disk_axioms.intro)
  from mounted_disk.read_file_eq [OF this assms(4-15)] show ?thesis .
qed

text \<open>A disk with clusters of one sector, its table in sector 1, and a file of three bytes in cluster 2, sector 10.\<close>

definition small_disk :: ata_drive where
  "small_disk = blank_drive\<lparr>words := (\<lambda>l k. if l = 1 \<and> k = 2 then 0xFFFF else if l = 10 \<and> k = 0 then 0x6948
     else if l = 10 \<and> k = 1 then 0x21 else 0)\<rparr>"

definition small_context :: fat16_context where
  "small_context = \<lparr>ctx_device = first_disk, boot_sector = load_boot_sector (\<lambda>_. 1) 0, fat_start = 1, root_dir_start = 5,
     data_area_start_cluster = 10, ctx_buffer = 0xD0010000\<rparr>"

definition small_file :: fat16_dir_entry where
  "small_file = (load_dir_entry (\<lambda>_. 0) 0)\<lparr>attributes := 0x20, starting_cluster_low := 2, file_size := 3\<rparr>"

lemma small_simps:
  "spc small_context = 1" "csize small_context = 512" "fat_aligned small_context"
  "CLUSTER_OF small_file = 2" "fat_reachable small_context 2" "data_cluster small_context 2 = 10"
  "cluster_on_disk small_context 10" "fat_next small_context (sector_byte small_disk) 2 = 0xFFFF"
  by (simp_all add: small_context_def load_boot_sector_def csize_def fat_aligned_def CLUSTER_OF_def small_file_def
      load_dir_entry_def load16_def fat_reachable_def data_cluster_def cluster_on_disk_def fat_next_def fat_byte_def
      sector_byte_def small_disk_def)

theorem fat16_read_file_contents_witness:
  "\<exists>m' w'. fat16_read_file drive_io (\<lambda>_. 2) small_context small_file 0x5000 100 (\<lambda>_. 0, small_disk) =
       Some (SYS_RET_NO_ERROR, Some 3, m', w') \<and> m' 0x5000 = 0x48 \<and> m' 0x5001 = 0x69 \<and> m' 0x5002 = 0x21"
proof -
  have ready: "drive_ready small_disk" by (simp add: drive_ready_def small_disk_def blank_drive_def)
  have dev: "ctx_device small_context = first_disk" "sectorSize first_disk = 512" by (simp_all add: small_context_def first_disk_def)
  have chain: "chain_on_disk small_context (sector_byte small_disk) [2]" by (simp add: chain_on_disk_def small_simps)
  have over: "no_overlap 0x5000 (1 * csize small_context + csize small_context) (ctx_buffer small_context) (csize small_context)"
    unfolding small_simps by (intro no_overlap_apart) (simp add: small_context_def)
  have fb: "file_byte small_context (sector_byte small_disk) [2] i = (if i = 0 then 0x48 else if i = 1 then 0x69 else 0x21)" if "i < 3" for i
  proof -
    from that consider "i = 0" | "i = 1" | "i = 2" by linarith
    then show ?thesis by cases (simp_all add: file_byte_def small_simps cluster_byte_def, simp_all add: sector_byte_def small_disk_def)
  qed
  have attr: "attributes small_file AND (FAT_ATTRIB_SUBDIR OR FAT_ATTRIB_VOLUME_LABEL) = 0" "file_size small_file = 3"
    by (simp_all add: small_file_def FAT_ATTRIB_SUBDIR_def FAT_ATTRIB_VOLUME_LABEL_def)
  have stray: "cluster_on_disk small_context (data_cluster small_context (stray_element (\<lambda>_. 2) [2] 1))"
    by (simp add: stray_element_def small_simps)
  have disk: "good_disk drive_io (ctx_device small_context) drive_ready sector_byte" unfolding dev(1) by (rule ata.good_disk_axioms)
  have "\<exists>m' w'. fat16_read_file drive_io (\<lambda>_. 2) small_context small_file 0x5000 100 (\<lambda>_. 0, small_disk) =
       Some (SYS_RET_NO_ERROR, Some 3, m', w') \<and> drive_ready w' \<and> sector_byte w' = sector_byte small_disk \<and>
     (\<forall>i < unat (3 :: u32). m' (0x5000 + of_nat i) = file_byte small_context (sector_byte small_disk) [2] i) \<and>
     (\<forall>a. \<not> in_range 0x5000 (1 * csize small_context + unat (3 :: u32) mod csize small_context) a \<and>
        \<not> in_range (ctx_buffer small_context) (csize small_context) a \<longrightarrow> m' a = (\<lambda>_. 0) a)"
    by (rule fat16_read_file_contents [OF disk _ _ ready small_simps(3) attr(1) _ chain])
      (simp_all add: dev small_simps attr stray [simplified] over [unfolded small_simps, simplified] min_def)
  then obtain m' w' where r: "fat16_read_file drive_io (\<lambda>_. 2) small_context small_file 0x5000 100 (\<lambda>_. 0, small_disk) =
       Some (SYS_RET_NO_ERROR, Some 3, m', w')"
     "\<forall>i < unat (3 :: u32). m' (0x5000 + of_nat i) = file_byte small_context (sector_byte small_disk) [2] i" by blast
  have "m' (0x5000 + of_nat i) = (if i = 0 then 0x48 else if i = 1 then 0x69 else 0x21)" if "i < 3" for i
    using r(2) fb [OF that] that by simp
  from this [of 0] this [of 1] this [of 2] r(1) show ?thesis by auto
qed

end
