(* ===== verification/Fat16Paths.thy ===== *)
theory Fat16Paths
  imports Fat16
begin

text \<open>
  Directories, names and paths of the FAT16 reader: what the searches of \<open>Fat16\<close> find on a disk that works, in
  terms of the slots of the directories on that disk.
\<close>

section \<open>Searching a directory\<close>

lemma memcpy_self: "memcpy_loop n p p m = m"
  by (induction n arbitrary: p) simp_all

lemma copy_entries_self [simp]: "copy_entries b b i n m = m"
  by (induction n arbitrary: i) (simp_all add: kaos_memcpy_def memcpy_self Let_def)

lemma strncmp_eq_iff:
  assumes "\<forall>i<n. m (t + of_nat i) \<noteq> 0"
  shows "strncmp_loop n m s t = 0 \<longleftrightarrow> (\<forall>i<n. m (s + of_nat i) = m (t + of_nat i))"
  using assms
proof (induction n arbitrary: s t)
  case (Suc n)
  have "\<forall>i<n. m (t + 1 + of_nat i) \<noteq> 0" using Suc.prems by (auto simp: All_less_Suc2 add.assoc)
  with Suc show ?case by (auto simp: All_less_Suc2 add.assoc dest: signed_word_eqI)
qed simp

lemma bytes_at_cong: "(\<And>i. i < n \<Longrightarrow> m (p + of_nat i) = m' (q + of_nat i)) \<Longrightarrow> bytes_at m p n = bytes_at m' q n"
  by (simp add: bytes_at_def)

lemma load_dir_entry_cong:
  assumes "\<And>i. i < 32 \<Longrightarrow> m (p + of_nat i) = m' (q + of_nat i)"
  shows "load_dir_entry m p = load_dir_entry m' q"
proof -
  have l: "load16 m (p + of_nat i) = load16 m' (q + of_nat i)" if "i < 31" for i
    using that assms [of i] assms [of "Suc i"] by (simp add: load16_def add_ac)
  have l2: "load32 m (p + of_nat i) = load32 m' (q + of_nat i)" if "i < 29" for i
    using that l [of i] l [of "i + 2"] by (simp add: load32_def add_ac)
  note fields = assms [of 11, simplified] assms [of 12, simplified] assms [of 13, simplified]
    l [of 14, simplified] l [of 16, simplified] l [of 18, simplified] l [of 20, simplified] l [of 22, simplified]
    l [of 24, simplified] l [of 26, simplified] l2 [of 28, simplified]
  have "bytes_at m p 8 = bytes_at m' q 8" by (intro bytes_at_cong assms) simp
  moreover have "bytes_at m (p + 8) 3 = bytes_at m' (q + 8) 3"
  proof (rule bytes_at_cong)
    fix i :: nat assume "i < 3"
    then show "m (p + 8 + of_nat i) = m' (q + 8 + of_nat i)" using assms [of "8 + i"] by (simp add: add_ac)
  qed
  ultimately show ?thesis by (simp add: load_dir_entry_def fields)
qed

text \<open>
  The slots of a directory that lies in the clusters \<open>cl 0\<close>, \<open>cl 1\<close> and so on: the bytes of a slot, the entry
  it holds, and the slots at which the search for a name stops: the end mark and an entry in use with that name.
\<close>

definition slots :: "fat16_context \<Rightarrow> nat" where "slots ctx = csize ctx div 32"

definition slot_byte :: "fat16_context \<Rightarrow> (u32 \<Rightarrow> nat \<Rightarrow> u8) \<Rightarrow> (nat \<Rightarrow> u32) \<Rightarrow> nat \<Rightarrow> nat \<Rightarrow> u8" where
  "slot_byte ctx disk cl j b = cluster_byte ctx disk (cl (j div slots ctx)) (32 * (j mod slots ctx) + b)"

definition slot_entry :: "fat16_context \<Rightarrow> (u32 \<Rightarrow> nat \<Rightarrow> u8) \<Rightarrow> (nat \<Rightarrow> u32) \<Rightarrow> nat \<Rightarrow> fat16_dir_entry" where
  "slot_entry ctx disk cl j = load_dir_entry (\<lambda>a. slot_byte ctx disk cl j (unat a)) 0"

definition slot_end :: "fat16_context \<Rightarrow> (u32 \<Rightarrow> nat \<Rightarrow> u8) \<Rightarrow> (nat \<Rightarrow> u32) \<Rightarrow> nat \<Rightarrow> bool" where
  "slot_end ctx disk cl j \<longleftrightarrow> slot_byte ctx disk cl j 0 = 0"

definition slot_match :: "fat16_context \<Rightarrow> (u32 \<Rightarrow> nat \<Rightarrow> u8) \<Rightarrow> (nat \<Rightarrow> u32) \<Rightarrow> u8 list \<Rightarrow> nat \<Rightarrow> bool" where
  "slot_match ctx disk cl name j \<longleftrightarrow> slot_byte ctx disk cl j 0 \<noteq> 0xE5 \<and> (\<forall>b<11. slot_byte ctx disk cl j b = name ! b)"

definition slot_stop :: "fat16_context \<Rightarrow> (u32 \<Rightarrow> nat \<Rightarrow> u8) \<Rightarrow> (nat \<Rightarrow> u32) \<Rightarrow> u8 list \<Rightarrow> nat \<Rightarrow> bool" where
  "slot_stop ctx disk cl name j \<longleftrightarrow> slot_end ctx disk cl j \<or> slot_match ctx disk cl name j"

definition slot_result :: "fat16_context \<Rightarrow> (u32 \<Rightarrow> nat \<Rightarrow> u8) \<Rightarrow> (nat \<Rightarrow> u32) \<Rightarrow> nat \<Rightarrow> SYS_RET \<times> fat16_dir_entry option" where
  "slot_result ctx disk cl j = (if slot_end ctx disk cl j then (SYS_RET_NOT_FOUND, None)
     else (SYS_RET_NO_ERROR, Some (slot_entry ctx disk cl j)))"

text \<open>A name of eleven bytes in memory, not in the buffer of the file system.\<close>

definition name_at :: "fat16_context \<Rightarrow> mem \<Rightarrow> u32 \<Rightarrow> u8 list \<Rightarrow> bool" where
  "name_at ctx m p name \<longleftrightarrow> length name = 11 \<and> 0 \<notin> set name \<and>
     (\<forall>i<11. m (p + of_nat i) = name ! i \<and> \<not> in_range (ctx_buffer ctx) (csize ctx) (p + of_nat i))"

context mounted_disk
begin

lemma slots_bounds: "16 \<le> slots ctx" "slots ctx \<le> 4080" "32 * slots ctx = csize ctx" "unat (cluster_size ctx div 32) = slots ctx"
  using spc_bounds by (auto simp: slots_def csize_def unat_div unat_cluster_size)

lemma scan_entries_eq:
  fixes k :: nat
  assumes "name_at ctx m p name" "i + n = slots ctx"
    and m: "m' = place (ctx_buffer ctx) (csize ctx) (cluster_byte ctx disk (cl k)) m"
  shows "scan_entries m' (ctx_buffer ctx) p (of_nat i) n =
     (case find (\<lambda>j. slot_stop ctx disk cl name (k * slots ctx + j)) [i..<slots ctx] of
        None \<Rightarrow> None | Some j \<Rightarrow> Some (slot_result ctx disk cl (k * slots ctx + j)))"
  using assms(2)
proof (induction n arbitrary: i)
  case (Suc n)
  let ?j = "k * slots ctx + i" and ?e = "ctx_buffer ctx + 32 * of_nat i"
  have i: "i < slots ctx" using Suc.prems by simp
  have j: "?j div slots ctx = k" "?j mod slots ctx = i" using i by simp_all
  have byte: "m' (?e + of_nat b) = slot_byte ctx disk cl ?j b" if "b < 32" for b
  proof -
    have "32 * i + b < csize ctx" using i that slots_bounds(3) by linarith
    then have "m' (ctx_buffer ctx + of_nat (32 * i + b)) = slot_byte ctx disk cl ?j b"
      unfolding m slot_byte_def j using csize_bounds by (subst place_apply) simp_all
    then show ?thesis by (simp add: add_ac)
  qed
  have nm: "m' (p + of_nat b) = name ! b" "name ! b \<noteq> 0" if "b < 11" for b
    using assms(1) that unfolding m by (simp add: name_at_def place_outside) (metis assms(1) name_at_def nth_mem that)
  have b0: "m' ?e = slot_byte ctx disk cl ?j 0" using byte [of 0] by simp
  have cmp: "kaos_strncmp m' ?e p 11 = 0 \<longleftrightarrow> (\<forall>b<11. slot_byte ctx disk cl ?j b = name ! b)"
    using strncmp_eq_iff [of 11 m' p ?e] nm byte by (simp add: kaos_strncmp_def)
  have e: "load_dir_entry m' ?e = slot_entry ctx disk cl ?j" unfolding slot_entry_def
    by (rule load_dir_entry_cong) (use byte in \<open>simp add: unat_of_nat_u32\<close>)
  have upt: "[i..<slots ctx] = i # [Suc i..<slots ctx]" using i by (simp add: upt_conv_Cons)
  have nxt: "of_nat i + 1 = (of_nat (Suc i) :: u32)" by simp
  show ?case
    using Suc.IH [of "Suc i"] Suc.prems
    by (auto simp: upt nxt b0 cmp e slot_stop_def slot_end_def slot_match_def slot_result_def Let_def simp del: of_nat_Suc)
qed (simp add: slots_def)

lemma find_slot:
  assumes "k * slots ctx \<le> j" "P j" "\<And>i. k * slots ctx \<le> i \<Longrightarrow> i < j \<Longrightarrow> \<not> P i"
  shows "find (\<lambda>i. P (k * slots ctx + i)) [0..<slots ctx] = (if j div slots ctx = k then Some (j mod slots ctx) else None)"
proof (cases "j div slots ctx = k")
  case True
  then have j: "j = k * slots ctx + j mod slots ctx" by (metis div_mult_mod_eq)
  have "j mod slots ctx < slots ctx" using slots_bounds by simp
  moreover have "P (k * slots ctx + j mod slots ctx)" using assms(2) j by simp
  moreover have "\<not> P (k * slots ctx + i)" if "i < j mod slots ctx" for i using that j by (intro assms(3)) linarith+
  ultimately show ?thesis using True by (auto simp: find_Some_iff)
next
  case False
  have "k \<le> j div slots ctx" using assms(1) slots_bounds by (simp add: less_eq_div_iff_mult_less_eq)
  then have "Suc k \<le> j div slots ctx" using False by simp
  then have "Suc k * slots ctx \<le> j" using slots_bounds by (subst (asm) less_eq_div_iff_mult_less_eq) simp_all
  then have "\<not> P (k * slots ctx + i)" if "i < slots ctx" for i using that by (intro assms(3)) simp_all
  then show ?thesis using False by (auto simp: find_None_iff)
qed

lemma name_at_frame:
  assumes "name_at ctx m p name" "\<And>a. \<not> in_range (ctx_buffer ctx) (csize ctx) a \<Longrightarrow> m' a = m a"
  shows "name_at ctx m' p name"
  using assms by (auto simp: name_at_def)

lemma find_in_root_dir_loop_eq:
  assumes "ready w" "name_at ctx m p name"
    and cl: "cl = (\<lambda>k. root_dir_start ctx div spc ctx + of_nat k)"
    and "k * slots ctx \<le> j" "slot_stop ctx (sector w) cl name j"
    "\<And>i. k * slots ctx \<le> i \<Longrightarrow> i < j \<Longrightarrow> \<not> slot_stop ctx (sector w) cl name i"
    "\<And>i. i \<le> j div slots ctx \<Longrightarrow> cluster_on_disk ctx (cl i)"
  shows "\<exists>m' w'. find_in_root_dir_loop io ctx p (of_nat k) (m, w) =
      Some (fst (slot_result ctx (sector w) cl j), snd (slot_result ctx (sector w) cl j), m', w') \<and>
    ready w' \<and> sector w' = sector w \<and> (\<forall>a. \<not> in_range (ctx_buffer ctx) (csize ctx) a \<longrightarrow> m' a = m a)"
  using assms(1,2,4-)
proof (induction "j div slots ctx - k" arbitrary: k m w rule: less_induct)
  case less
  let ?m = "place (ctx_buffer ctx) (csize ctx) (cluster_byte ctx (sector w) (cl k)) m"
  have kj: "k \<le> j div slots ctx" using less.prems(3) slots_bounds by (simp add: less_eq_div_iff_mult_less_eq)
  obtain w1 where w1: "fat16_read_cluster io ctx (cl k) (ctx_buffer ctx) (m, w) = Some (SYS_RET_NO_ERROR, ?m, w1)"
    "ready w1" "sector w1 = sector w"
    using read_cluster_eq [OF less.prems(1) less.prems(6) [OF kj]] by blast
  have keep: "?m a = m a" if "\<not> in_range (ctx_buffer ctx) (csize ctx) a" for a using that by (rule place_outside)
  have rd: "fat16_read_root_dir io ctx (ctx_buffer ctx) (cluster_size ctx div 32) (of_nat k) (m, w) = Some (SYS_RET_NO_ERROR, ?m, w1)"
    using w1(1) per_cluster by (auto simp: fat16_read_root_dir_def fat16_read_directory_def cl)
  have scan: "scan_entries ?m (ctx_buffer ctx) p 0 (slots ctx) =
      (if j div slots ctx = k then Some (slot_result ctx (sector w) cl j) else None)"
    using scan_entries_eq [OF less.prems(2), of 0 "slots ctx" ?m "sector w" cl k]
      find_slot [of k j "slot_stop ctx (sector w) cl name", OF less.prems(3-5)] div_mult_mod_eq [of j "slots ctx"] by auto
  show ?case
  proof (cases "j div slots ctx = k")
    case True
    then show ?thesis using rd scan w1(2,3) keep
      by (subst find_in_root_dir_loop.simps) (auto simp: slots_bounds(4) Let_def split: prod.split)
  next
    case False
    then have "Suc k \<le> j div slots ctx" using kj by simp
    then have j: "Suc k * slots ctx \<le> j" using slots_bounds by (subst (asm) less_eq_div_iff_mult_less_eq) simp_all
    have "\<exists>m' w'. find_in_root_dir_loop io ctx p (of_nat (Suc k)) (?m, w1) =
        Some (fst (slot_result ctx (sector w1) cl j), snd (slot_result ctx (sector w1) cl j), m', w') \<and>
      ready w' \<and> sector w' = sector w1 \<and> (\<forall>a. \<not> in_range (ctx_buffer ctx) (csize ctx) a \<longrightarrow> m' a = ?m a)"
      using less.prems j \<open>Suc k \<le> j div slots ctx\<close> w1(2,3) keep
      by (intro less.hyps) (auto intro: name_at_frame)
    moreover have "find_in_root_dir_loop io ctx p (of_nat k) (m, w) = find_in_root_dir_loop io ctx p (of_nat (Suc k)) (?m, w1)"
      using False rd scan by (subst find_in_root_dir_loop.simps) (simp add: slots_bounds(4) Let_def add.commute)
    ultimately show ?thesis using w1(3) keep by auto
  qed
qed

end

text \<open>The clusters of a subdirectory with the chain \<open>xs\<close>.\<close>

definition chain_cluster :: "fat16_context \<Rightarrow> u32 list \<Rightarrow> nat \<Rightarrow> u32" where
  "chain_cluster ctx xs k = data_cluster ctx (xs ! k)"

lemma linked_not_end: "linked nxt xs \<Longrightarrow> 0 < k \<Longrightarrow> k < length xs \<Longrightarrow> xs ! k \<noteq> 0xFFFF"
proof (induction nxt xs arbitrary: k rule: linked.induct)
  case (3 nxt x y ys)
  then obtain j where j: "k = Suc j" by (cases k) auto
  show ?case
  proof (cases "j = 0")
    case False
    then have "(y # ys) ! j \<noteq> 0xFFFF" using 3 j by (intro "3.IH") auto
    with j show ?thesis by simp
  qed (use 3 j in simp)
qed simp_all

text \<open>
  What a search in a subdirectory returns: the first slot at which it stops decides, and without one in the whole
  chain the name is not found.
\<close>

definition dir_result :: "fat16_context \<Rightarrow> (u32 \<Rightarrow> nat \<Rightarrow> u8) \<Rightarrow> u32 list \<Rightarrow> u8 list \<Rightarrow> nat \<Rightarrow> SYS_RET \<times> fat16_dir_entry option" where
  "dir_result ctx disk xs name k =
     (case find (slot_stop ctx disk (chain_cluster ctx xs) name) [k * slots ctx..<length xs * slots ctx] of
        Some j \<Rightarrow> slot_result ctx disk (chain_cluster ctx xs) j | None \<Rightarrow> (SYS_RET_NOT_FOUND, None))"

lemma find_append: "find P (xs @ ys) = (case find P xs of Some x \<Rightarrow> Some x | None \<Rightarrow> find P ys)"
  by (induction xs) auto

lemma find_map_upt: "find P [a..<a + n] = map_option ((+) a) (find (\<lambda>i. P (a + i)) [0..<n])"
proof -
  have "find P (map ((+) a) zs) = map_option ((+) a) (find (\<lambda>i. P (a + i)) zs)" for zs by (induction zs) auto
  moreover have "[a..<a + n] = map ((+) a) [0..<n]" by (rule nth_equalityI) simp_all
  ultimately show ?thesis by (simp only:)
qed

context mounted_disk
begin

lemma dir_result_step:
  assumes "k < length xs"
  shows "dir_result ctx disk xs name k =
     (case find (\<lambda>j. slot_stop ctx disk (chain_cluster ctx xs) name (k * slots ctx + j)) [0..<slots ctx] of
        Some j \<Rightarrow> slot_result ctx disk (chain_cluster ctx xs) (k * slots ctx + j) | None \<Rightarrow> dir_result ctx disk xs name (Suc k))"
proof -
  have "Suc k * slots ctx \<le> length xs * slots ctx" using assms by (intro mult_le_mono1) simp
  then have "[k * slots ctx..<length xs * slots ctx] = [k * slots ctx..<k * slots ctx + slots ctx] @ [Suc k * slots ctx..<length xs * slots ctx]"
    by (metis add.commute le_add1 mult_Suc upt_add_eq_append le_Suc_ex)
  then show ?thesis by (simp add: dir_result_def find_append find_map_upt split: option.split)
qed

lemma find_in_dir_loop_eq:
  assumes "ready w" "name_at ctx m p name" "chain_on_disk ctx (sector w) xs" "length xs < 1024" "k < length xs"
    and chain: "\<And>i. i < length xs \<Longrightarrow> chain i = xs ! i" "chain (length xs) = 0xFFFF"
  shows "\<exists>m' w'. find_in_dir_loop io ctx p chain k (m, w) =
      Some (fst (dir_result ctx (sector w) xs name k), snd (dir_result ctx (sector w) xs name k), m', w') \<and>
    ready w' \<and> sector w' = sector w \<and> (\<forall>a. \<not> in_range (ctx_buffer ctx) (csize ctx) a \<longrightarrow> m' a = m a)"
  using assms(1-3,5)
proof (induction "length xs - k" arbitrary: k m w rule: less_induct)
  case less
  let ?cl = "chain_cluster ctx xs"
  let ?m = "place (ctx_buffer ctx) (csize ctx) (cluster_byte ctx (sector w) (?cl k)) m"
  have "cluster_on_disk ctx (?cl k)" using less.prems(3,4) by (auto simp: chain_on_disk_def chain_cluster_def)
  then obtain w1 where w1: "fat16_read_cluster io ctx (?cl k) (ctx_buffer ctx) (m, w) = Some (SYS_RET_NO_ERROR, ?m, w1)"
    "ready w1" "sector w1 = sector w"
    using read_cluster_eq [OF less.prems(1)] by blast
  have keep: "?m a = m a" if "\<not> in_range (ctx_buffer ctx) (csize ctx) a" for a using that by (rule place_outside)
  have rd: "fat16_read_directory io ctx ((chain k - 2) + data_area_start_cluster ctx) (ctx_buffer ctx) (cluster_size ctx div 32) (m, w) =
      Some (SYS_RET_NO_ERROR, ?m, w1)"
    using w1(1) chain(1) [OF less.prems(4)] by (simp add: fat16_read_directory_def chain_cluster_def data_cluster_def)
  have scan: "scan_entries ?m (ctx_buffer ctx) p 0 (slots ctx) =
      map_option (\<lambda>j. slot_result ctx (sector w) ?cl (k * slots ctx + j))
        (find (\<lambda>j. slot_stop ctx (sector w) ?cl name (k * slots ctx + j)) [0..<slots ctx])"
    using scan_entries_eq [OF less.prems(2), of 0 "slots ctx" ?m "sector w" ?cl k] by (auto split: option.split)
  show ?case
  proof (cases "find (\<lambda>j. slot_stop ctx (sector w) ?cl name (k * slots ctx + j)) [0..<slots ctx]")
    case (Some j)
    then show ?thesis using rd scan w1(2,3) keep dir_result_step [OF less.prems(4), of "sector w" name]
      by (subst find_in_dir_loop.simps) (auto simp: slots_bounds(4) Let_def split: prod.split)
  next
    case None
    have res: "dir_result ctx (sector w) xs name k = dir_result ctx (sector w) xs name (Suc k)"
      using None dir_result_step [OF less.prems(4)] by simp
    have unfold: "find_in_dir_loop io ctx p chain k (m, w) =
        (if chain (Suc k) = 0xFFFF then Some (SYS_RET_NOT_FOUND, None, ?m, w1) else find_in_dir_loop io ctx p chain (Suc k) (?m, w1))"
      using None rd scan less.prems(4) assms(4) by (subst find_in_dir_loop.simps) (simp add: slots_bounds(4) Let_def)
    show ?thesis
    proof (cases "Suc k < length xs")
      case True
      then have "chain (Suc k) \<noteq> 0xFFFF" using linked_not_end [of _ xs "Suc k"] less.prems(3) chain(1) by (auto simp: chain_on_disk_def)
      moreover have "\<exists>m' w'. find_in_dir_loop io ctx p chain (Suc k) (?m, w1) =
          Some (fst (dir_result ctx (sector w1) xs name (Suc k)), snd (dir_result ctx (sector w1) xs name (Suc k)), m', w') \<and>
        ready w' \<and> sector w' = sector w1 \<and> (\<forall>a. \<not> in_range (ctx_buffer ctx) (csize ctx) a \<longrightarrow> m' a = ?m a)"
        using less.prems True w1(2,3) keep by (intro less.hyps) (auto intro: name_at_frame)
      ultimately show ?thesis using unfold res w1(3) keep by auto
    next
      case False
      then have "Suc k = length xs" using less.prems(4) by simp
      then have "chain (Suc k) = 0xFFFF" "dir_result ctx (sector w) xs name (Suc k) = (SYS_RET_NOT_FOUND, None)"
        using chain(2) by (simp_all add: dir_result_def)
      then show ?thesis using unfold res w1(2,3) keep by auto
    qed
  qed
qed

lemma find_in_dir_eq:
  assumes "ready w" "name_at ctx m p name" "fat_aligned ctx" "attributes d AND FAT_ATTRIB_SUBDIR \<noteq> 0"
    "chain_on_disk ctx (sector w) xs" "hd xs = CLUSTER_OF d" "length xs < 1024"
  shows "\<exists>m' w'. fat16_find_in_dir io junk ctx p d (m, w) =
      Some (fst (dir_result ctx (sector w) xs name 0), snd (dir_result ctx (sector w) xs name 0), m', w') \<and>
    ready w' \<and> sector w' = sector w \<and> (\<forall>a. \<not> in_range (ctx_buffer ctx) (csize ctx) a \<longrightarrow> m' a = m a)"
proof -
  define chain where "chain = (\<lambda>k. if k < length xs then xs ! k else if k = length xs then 0xFFFF else junk k)"
  obtain m1 w1 where s1: "chain_loop io ctx 1024 (CLUSTER_OF d) 0 junk (m, w) = Some (chain, m1, w1)" "ready w1" "sector w1 = sector w"
    "\<forall>a. \<not> in_range (ctx_buffer ctx) (csize ctx) a \<longrightarrow> m1 a = m a"
    using chain_loop_eq [of w xs 0 1024 junk m] assms by (auto simp: chain_on_disk_def chain_def cong: if_cong)
  have cs0: "cluster_size ctx \<noteq> 0" using unat_cluster_size csize_bounds by (auto simp: unat_eq_0 [symmetric])
  have "0 < length xs" using assms(5) by (cases xs) (auto simp: chain_on_disk_def)
  then obtain m2 w2 where s2: "find_in_dir_loop io ctx p chain 0 (m1, w1) =
      Some (fst (dir_result ctx (sector w1) xs name 0), snd (dir_result ctx (sector w1) xs name 0), m2, w2)"
    "ready w2" "sector w2 = sector w1" "\<forall>a. \<not> in_range (ctx_buffer ctx) (csize ctx) a \<longrightarrow> m2 a = m1 a"
    using find_in_dir_loop_eq [of w1 m1 p name xs 0 chain] s1 assms name_at_frame [OF assms(2), of m1]
    by (auto simp: chain_def)
  then show ?thesis using s1 assms(4) cs0 by (auto simp: fat16_find_in_dir_def fat16_read_cluster_fat_chain_def)
qed

end

section \<open>Names\<close>

lemma convert_name_stop:
  "length xs < n \<Longrightarrow> \<forall>x \<in> set xs. x \<noteq> chr CHR ''.'' \<and> x \<noteq> 0 \<Longrightarrow> c = chr CHR ''.'' \<or> c = 0 \<Longrightarrow>
     convert_name n (xs @ c # r) = Some (xs, True, c # r)"
proof (induction xs arbitrary: n)
  case Nil
  then show ?case by (cases n) auto
next
  case (Cons x xs)
  then show ?case by (cases n) auto
qed

lemma convert_name_full:
  "\<forall>x \<in> set xs. x \<noteq> chr CHR ''.'' \<and> x \<noteq> 0 \<Longrightarrow> convert_name (length xs) (xs @ r) = Some (xs, False, r)"
  by (induction xs) auto

lemma convert_extension_stop:
  "length xs < n \<Longrightarrow> 0 \<notin> set xs \<Longrightarrow> convert_extension n (xs @ 0 # r) = Some xs"
proof (induction xs arbitrary: n)
  case Nil
  then show ?case by (cases n) auto
next
  case (Cons x xs)
  then show ?case by (cases n) auto
qed

lemma convert_extension_full: "0 \<notin> set xs \<Longrightarrow> convert_extension (length xs) (xs @ r) = Some xs"
  by (induction xs) auto

lemma space_char: "space \<noteq> 0" "space \<noteq> chr CHR ''.''" "chr CHR ''.'' \<noteq> 0" "chr CHR ''/'' \<noteq> 0" "chr CHR ''.'' \<noteq> chr CHR ''/''"
  by (simp_all add: chr_def)

lemma padded_space: "length xs < n \<Longrightarrow> padded n (xs @ [space]) = padded n xs"
  by (simp add: padded_def replicate_app_Cons_same Suc_diff_Suc flip: replicate_Suc)

text \<open>
  \<open>short_name nm name\<close>: the eleven bytes of the directory entry for the name \<open>nm\<close>, upper case and padded.
  Names whose first part has eight characters are only covered without an extension.
\<close>

definition short_name :: "u8 list \<Rightarrow> u8 list \<Rightarrow> bool" where
  "short_name nm name \<longleftrightarrow> length nm \<le> 10 \<and> nm \<noteq> [] \<and> 0 \<notin> set nm \<and> chr CHR ''/'' \<notin> set nm \<and>
     (\<exists>base ext. (nm = base @ chr CHR ''.'' # ext \<and> length base < 8 \<or> nm = base \<and> ext = [] \<and> length base \<le> 8) \<and>
        chr CHR ''.'' \<notin> set base \<and> length ext \<le> 3 \<and> name = padded 8 base @ padded 3 ext)"

lemma convert_dotted:
  assumes "length base < 8" "chr CHR ''.'' \<notin> set base" "0 \<notin> set base" "0 \<notin> set ext" "length ext \<le> 3"
  shows "fat16_convert_filename (base @ chr CHR ''.'' # ext @ space # 0 # r) = Some (padded 8 base @ padded 3 ext)"
proof -
  have n: "convert_name 8 (base @ chr CHR ''.'' # ext @ space # 0 # r) = Some (base, True, chr CHR ''.'' # ext @ space # 0 # r)"
    using assms by (intro convert_name_stop) auto
  consider "length ext = 3" | "length ext = 2" | "length (ext @ [space]) < 3" using assms(5) by fastforce
  then have "\<exists>e. convert_extension 3 (ext @ space # 0 # r) = Some e \<and> padded 3 e = padded 3 ext"
  proof cases
    case 1
    then show ?thesis using convert_extension_full [of ext "space # 0 # r"] assms(4) by simp
  next
    case 2
    then show ?thesis using convert_extension_full [of "ext @ [space]" "0 # r"] assms(4) padded_space [of ext 3]
      by (auto simp: space_char)
  next
    case 3
    then show ?thesis using convert_extension_stop [OF 3, of r] assms(4) padded_space [of ext 3] by (auto simp: space_char)
  qed
  then show ?thesis using n by (auto simp: fat16_convert_filename_def)
qed

lemma convert_plain_name:
  assumes "length base \<le> 8" "chr CHR ''.'' \<notin> set base" "0 \<notin> set base"
    and r: "length base \<le> 6 \<Longrightarrow> \<exists>k r'. r = replicate k space @ r' \<and> 3 \<le> k"
  shows "fat16_convert_filename (base @ space # 0 # r) = Some (padded 8 base @ padded 3 [])"
proof -
  have ok: "\<forall>x \<in> set base. x \<noteq> chr CHR ''.'' \<and> x \<noteq> 0" using assms(2,3) by metis
  consider "length base = 8" | "length base = 7" | "length (base @ [space]) < 8" "length base \<le> 6" using assms(1) by fastforce
  then show ?thesis
  proof cases
    case 1
    then show ?thesis using convert_name_full [OF ok, of "space # 0 # r"] by (simp add: fat16_convert_filename_def)
  next
    case 2
    then show ?thesis using convert_name_full [of "base @ [space]" "0 # r"] ok padded_space [of base 8]
      by (simp add: fat16_convert_filename_def space_char)
  next
    case 3
    from r [OF 3(2)] obtain k r' where r': "r = replicate k space @ r'" "3 \<le> k" by blast
    then have "r = replicate 3 space @ (replicate (k - 3) space @ r')" by (metis append_assoc le_add_diff_inverse replicate_add)
    moreover have z: "0 \<notin> set (replicate 3 space)" using space_char(1) by (simp only: set_replicate_conv_if) auto
    ultimately have "convert_extension 3 r = Some (replicate 3 space)"
      using convert_extension_full [OF z, of "replicate (k - 3) space @ r'"] by (simp only: length_replicate)
    moreover have "convert_name 8 ((base @ [space]) @ 0 # r) = Some (base @ [space], True, 0 # r)"
      using 3 ok by (intro convert_name_stop) (auto simp: space_char)
    moreover have "padded 3 (replicate 3 space) = padded 3 []" by (simp add: padded_def)
    ultimately show ?thesis using 3 padded_space [of base 8] by (simp add: fat16_convert_filename_def)
  qed
qed

text \<open>The array of twelve characters after a component has been read.\<close>

definition fragment :: "u8 list \<Rightarrow> u8 list" where
  "fragment nm = nm @ space # 0 # drop (length nm + 2) (replicate 11 space @ [0])"

lemma convert_short:
  assumes "short_name nm name"
  shows "fat16_convert_filename (fragment nm) = Some name"
proof -
  from assms obtain base ext where b: "nm = base @ chr CHR ''.'' # ext \<and> length base < 8 \<or> nm = base \<and> ext = [] \<and> length base \<le> 8"
    "chr CHR ''.'' \<notin> set base" "length ext \<le> 3" "name = padded 8 base @ padded 3 ext" "0 \<notin> set nm"
    by (auto simp: short_name_def)
  from b(1) show ?thesis
  proof (elim disjE conjE)
    assume "nm = base @ chr CHR ''.'' # ext" "length base < 8"
    then show ?thesis using b convert_dotted [of base ext] by (simp add: fragment_def)
  next
    assume nm: "nm = base" "ext = []" "length base \<le> 8"
    have "\<exists>k r'. drop (length nm + 2) (replicate 11 space @ [0]) = replicate k space @ r' \<and> 3 \<le> k" if "length base \<le> 6"
      using that nm by (intro exI [of _ "9 - length nm"] exI [of _ "[0]"]) auto
    then show ?thesis using nm b convert_plain_name [of base] by (simp add: fragment_def)
  qed
qed

lemma short_name_nonzero: "short_name nm name \<Longrightarrow> length name = 11 \<and> 0 \<notin> set name"
  by (auto simp: short_name_def padded_def space_char)

lemma read_fragment_name:
  assumes "chr CHR ''/'' \<notin> set nm" "0 \<notin> set nm" "i + length nm \<le> 10" "length frag = 12" "c = 0 \<or> c = chr CHR ''/'' \<and> 0 < i + length nm"
  shows "read_fragment (nm @ c # r) i frag =
     Some ((take i frag @ nm @ drop (i + length nm) frag)[i + length nm + 1 := 0], c = chr CHR ''/'', c # r)"
  using assms
proof (induction nm arbitrary: i frag)
  case Nil
  then show ?case by (auto simp: space_char)
next
  case (Cons x nm)
  have "take (Suc i) (frag[i := x]) = take i frag @ [x]" using Cons.prems by (simp add: take_Suc_conv_app_nth)
  moreover have "drop (Suc i + length nm) (frag[i := x]) = drop (Suc i + length nm) frag" by simp
  ultimately show ?case using Cons.IH [of "Suc i" "frag[i := x]"] Cons.prems by auto
qed

lemma read_fragment_short:
  assumes "short_name nm name" "c = 0 \<or> c = chr CHR ''/''"
  shows "read_fragment (nm @ c # r) 0 (replicate 11 space @ [0]) = Some (fragment nm, c = chr CHR ''/'', c # r)"
proof -
  have nm: "length nm \<le> 10" "nm \<noteq> []" "0 \<notin> set nm" "chr CHR ''/'' \<notin> set nm" using assms(1) by (simp_all add: short_name_def)
  let ?i = "replicate 11 space @ [0]"
  have "drop (length nm) ?i = drop (length nm) ?i ! 0 # drop (length nm) ?i ! 1 # drop 2 (drop (length nm) ?i)"
    using nm(1) by (intro nth_equalityI) (auto simp: nth_Cons' nth_append)
  moreover have "drop (length nm) ?i ! 0 = space" using nm(1) by (simp add: nth_append)
  ultimately have "drop (length nm) ?i = space # drop (length nm) ?i ! 1 # drop (length nm + 2) ?i" by (simp only: drop_drop add.commute)
  then obtain x where x: "drop (length nm) ?i = space # x # drop (length nm + 2) ?i" by blast
  have "(nm @ drop (length nm) ?i)[length nm + 1 := 0] = fragment nm"
    unfolding fragment_def x by (simp add: list_update_append)
  then show ?thesis using read_fragment_name [of nm 0 ?i c r] nm assms(2) by auto
qed

lemma read_fragment_slash: "read_fragment (chr CHR ''/'' # p) 0 frag = read_fragment p 0 frag"
  by (simp add: space_char)

lemma read_fragment_end: "\<exists>f. read_fragment (0 # p) 0 (replicate 11 space @ [0]) = Some (f, False, 0 # p) \<and> fat16_convert_filename f \<noteq> None"
proof -
  let ?f = "(replicate 11 space @ [0])[1 := 0]"
  have "?f = [space] @ 0 # replicate 9 space @ [0]" by (simp add: numeral_eq_Suc)
  moreover have "convert_name 8 ([space] @ 0 # replicate 9 space @ [0]) = Some ([space], True, 0 # replicate 9 space @ [0])"
    by (rule convert_name_stop) (auto simp: space_char)
  moreover have "convert_extension 3 (replicate 9 space @ [0]) \<noteq> None" by (simp add: numeral_eq_Suc space_char)
  ultimately show ?thesis by (auto simp: fat16_convert_filename_def space_char)
qed

section \<open>Paths\<close>

definition root_cluster :: "fat16_context \<Rightarrow> nat \<Rightarrow> u32" where
  "root_cluster ctx k = root_dir_start ctx div spc ctx + of_nat k"

text \<open>The slot of the root directory at which the search for a name stops.\<close>

definition root_stop :: "fat16_context \<Rightarrow> (u32 \<Rightarrow> nat \<Rightarrow> u8) \<Rightarrow> u8 list \<Rightarrow> nat \<Rightarrow> bool" where
  "root_stop ctx disk name j \<longleftrightarrow> slot_stop ctx disk (root_cluster ctx) name j \<and>
     (\<forall>i<j. \<not> slot_stop ctx disk (root_cluster ctx) name i) \<and> (\<forall>k \<le> j div slots ctx. cluster_on_disk ctx (root_cluster ctx k))"

lemma upt_split_at: "k < n \<Longrightarrow> [0..<n] = [0..<k] @ k # [Suc k..<n]"
  using upt_add_eq_append [of 0 k "n - k"] by (simp add: upt_conv_Cons)

lemma path_copy_cstring:
  assumes "cstring_at m path xs" "xs \<noteq> []" "length xs \<le> 1022"
  shows "\<exists>r. path_copy m path = xs @ 0 # r"
proof -
  have xs: "m (path + of_nat i) = xs ! i" "xs ! i \<noteq> 0" if "i < length xs" for i
    using that assms(1) by (simp_all add: cstring_at_nth)
  have "m path \<noteq> 0" using xs [of 0] assms(2) by simp
  then have "strnlen_loop k m path c = c + of_nat k" for k c by (induction k arbitrary: c) (simp_all add: add.assoc)
  then have len: "kaos_strnlen m path 1024 = 1024" by (simp add: kaos_strnlen_def)
  have upt: "[0..<1023] = [0..<length xs] @ length xs # [Suc (length xs)..<1023]"
    using assms(3) by (intro upt_split_at) linarith
  have "map (\<lambda>i. m (path + of_nat i)) [0..<length xs] = xs" by (rule nth_equalityI) (simp_all add: xs)
  moreover have "m (path + of_nat (length xs)) = 0" using assms(1) by (simp add: cstring_at_nth)
  ultimately show ?thesis by (simp add: path_copy_def len bytes_at_def upt Let_def del: upt_rec_numeral)
qed

context mounted_disk
begin

lemma store_name:
  assumes "short_name nm name" "no_overlap (ctx_buffer ctx) (csize ctx) cmp 12"
  shows "name_at ctx (store_bytes cmp (name @ [0]) m) cmp name"
  using short_name_nonzero [OF assms(1)] assms(2)
  by (auto simp: name_at_def no_overlap_def store_bytes_def in_range_def unat_of_nat_u32 nth_append)

lemma store_outside: "length name = 11 \<Longrightarrow> \<not> in_range cmp 12 a \<Longrightarrow> store_bytes cmp (name @ [0]) m a = m a"
  by (simp add: store_bytes_def)

lemma find_in_root_dir_eq:
  assumes "ready w" "name_at ctx m p name" "root_stop ctx (sector w) name j"
  shows "\<exists>m' w'. fat16_find_in_root_dir io ctx p (m, w) =
      Some (fst (slot_result ctx (sector w) (root_cluster ctx) j), snd (slot_result ctx (sector w) (root_cluster ctx) j), m', w') \<and>
    ready w' \<and> sector w' = sector w \<and> (\<forall>a. \<not> in_range (ctx_buffer ctx) (csize ctx) a \<longrightarrow> m' a = m a)"
  using find_in_root_dir_loop_eq [OF assms(1,2), of "root_cluster ctx" 0 j] assms(3)
  by (simp add: fat16_find_in_root_dir_def root_stop_def root_cluster_def [abs_def])

text \<open>One step of the walk along a path, in the root directory and in a subdirectory.\<close>

lemma walk_root:
  assumes "ready w" "short_name nm name" "c = 0 \<or> c = chr CHR ''/''" "pre \<in> {[], [chr CHR ''/'']}"
    "root_stop ctx (sector w) name j" "no_overlap (ctx_buffer ctx) (csize ctx) cmp 12"
  shows "\<exists>m' w'. find_file_entry_loop io junk cmp ctx (pre @ nm @ c # r) None (m, w) =
      (if slot_end ctx (sector w) (root_cluster ctx) j then Some (SYS_RET_NOT_FOUND, None, m', w')
       else find_file_entry_loop io junk cmp ctx (c # r) (Some (slot_entry ctx (sector w) (root_cluster ctx) j)) (m', w')) \<and>
    ready w' \<and> sector w' = sector w \<and> (\<forall>a. \<not> in_range (ctx_buffer ctx) (csize ctx) a \<and> \<not> in_range cmp 12 a \<longrightarrow> m' a = m a)"
proof -
  let ?m = "store_bytes cmp (name @ [0]) m"
  have frag: "read_fragment (pre @ nm @ c # r) 0 (replicate 11 space @ [0]) = Some (fragment nm, c = chr CHR ''/'', c # r)"
  proof -
    from assms(4) consider "pre = []" | "pre = [chr CHR ''/'']" by blast
    then show ?thesis by cases (simp_all add: read_fragment_short [OF assms(2,3)] read_fragment_slash del: read_fragment.simps)
  qed
  obtain m' w' where s: "fat16_find_in_root_dir io ctx cmp (?m, w) =
      Some (fst (slot_result ctx (sector w) (root_cluster ctx) j), snd (slot_result ctx (sector w) (root_cluster ctx) j), m', w')"
    "ready w'" "sector w' = sector w" "\<forall>a. \<not> in_range (ctx_buffer ctx) (csize ctx) a \<longrightarrow> m' a = ?m a"
    using find_in_root_dir_eq [OF assms(1) store_name [OF assms(2,6)] assms(5)] by blast
  have keep: "m' a = m a" if "\<not> in_range (ctx_buffer ctx) (csize ctx) a \<and> \<not> in_range cmp 12 a" for a
    using that s(4) store_outside short_name_nonzero [OF assms(2)] by simp
  have "find_file_entry_loop io junk cmp ctx (pre @ nm @ c # r) None (m, w) =
      (if slot_end ctx (sector w) (root_cluster ctx) j then Some (SYS_RET_NOT_FOUND, None, m', w')
       else find_file_entry_loop io junk cmp ctx (c # r) (Some (slot_entry ctx (sector w) (root_cluster ctx) j)) (m', w'))"
    using s(1) by (subst find_file_entry_loop.simps) (simp add: frag convert_short [OF assms(2)] slot_result_def Let_def del: read_fragment.simps)
  then show ?thesis using s(2,3) keep by blast
qed

lemma walk_end:
  assumes "attributes e AND FAT_ATTRIB_SUBDIR = 0"
  shows "\<exists>m'. find_file_entry_loop io junk cmp ctx (0 # r) (Some e) (m, w) = Some (SYS_RET_NO_ERROR, Some e, m', w) \<and>
    (\<forall>a. \<not> in_range cmp 12 a \<longrightarrow> m' a = m a)"
proof -
  obtain f name where f: "read_fragment (0 # r) 0 (replicate 11 space @ [0]) = Some (f, False, 0 # r)" "fat16_convert_filename f = Some name"
    using read_fragment_end [of r] by auto
  have "length name = 11"
  proof -
    have n: "length xs \<le> n" if "convert_name n g = Some (xs, b, g')" for n g xs b g'
      using that by (induction n g arbitrary: xs b g' rule: convert_name.induct) (auto split: if_splits)
    have x: "length xs \<le> n" if "convert_extension n g = Some xs" for n g xs
      using that by (induction n g arbitrary: xs rule: convert_extension.induct) (auto split: if_splits)
    show ?thesis using f(2) by (auto simp: fat16_convert_filename_def padded_def dest!: n x split: bind_splits if_splits)
  qed
  then show ?thesis using f assms
    by (subst find_file_entry_loop.simps) (auto simp: fat16_find_in_dir_def Let_def store_outside)
qed

lemma walk_dir:
  assumes "ready w" "short_name nm name" "fat_aligned ctx" "no_overlap (ctx_buffer ctx) (csize ctx) cmp 12"
    "attributes d AND FAT_ATTRIB_SUBDIR \<noteq> 0" "chain_on_disk ctx (sector w) xs" "hd xs = CLUSTER_OF d" "length xs < 1024"
  shows "\<exists>m' w'. find_file_entry_loop io junk cmp ctx (chr CHR ''/'' # nm @ 0 # r) (Some d) (m, w) =
      Some (SYS_RET_NO_ERROR, Some (case snd (dir_result ctx (sector w) xs name 0) of None \<Rightarrow> d | Some e \<Rightarrow> e), m', w') \<and>
    ready w' \<and> sector w' = sector w \<and> (\<forall>a. \<not> in_range (ctx_buffer ctx) (csize ctx) a \<and> \<not> in_range cmp 12 a \<longrightarrow> m' a = m a)"
proof -
  let ?m = "store_bytes cmp (name @ [0]) m"
  have frag: "read_fragment (chr CHR ''/'' # nm @ 0 # r) 0 (replicate 11 space @ [0]) = Some (fragment nm, False, 0 # r)"
    using read_fragment_short [OF assms(2), of 0 r] by (simp only: read_fragment_slash) (simp add: space_char)
  obtain m' w' where s: "fat16_find_in_dir io junk ctx cmp d (?m, w) =
      Some (fst (dir_result ctx (sector w) xs name 0), snd (dir_result ctx (sector w) xs name 0), m', w')"
    "ready w'" "sector w' = sector w" "\<forall>a. \<not> in_range (ctx_buffer ctx) (csize ctx) a \<longrightarrow> m' a = ?m a"
    using find_in_dir_eq [OF assms(1) store_name [OF assms(2,4)] assms(3,5,6,7,8)] by blast
  have keep: "m' a = m a" if "\<not> in_range (ctx_buffer ctx) (csize ctx) a \<and> \<not> in_range cmp 12 a" for a
    using that s(4) store_outside short_name_nonzero [OF assms(2)] by simp
  have "find_file_entry_loop io junk cmp ctx (chr CHR ''/'' # nm @ 0 # r) (Some d) (m, w) =
      Some (SYS_RET_NO_ERROR, Some (case snd (dir_result ctx (sector w) xs name 0) of None \<Rightarrow> d | Some e \<Rightarrow> e), m', w')"
    using s(1) by (subst find_file_entry_loop.simps) (simp add: frag convert_short [OF assms(2)] Let_def del: read_fragment.simps)
  then show ?thesis using s(2,3) keep by blast
qed

lemma find_file_start:
  assumes "ready w" "cstring_at m path xs" "xs \<noteq> []" "length xs \<le> 1022" "cluster_on_disk ctx (root_cluster ctx 0)"
  shows "\<exists>r m' w'. fat16_find_file_entry io junk cmp ctx path (m, w) = find_file_entry_loop io junk cmp ctx (xs @ 0 # r) None (m', w') \<and>
    ready w' \<and> sector w' = sector w \<and> (\<forall>a. \<not> in_range (ctx_buffer ctx) (csize ctx) a \<longrightarrow> m' a = m a)"
proof -
  obtain r where r: "path_copy m path = xs @ 0 # r" using path_copy_cstring [OF assms(2-4)] by blast
  obtain w' where w': "fat16_read_cluster io ctx (root_cluster ctx 0) (ctx_buffer ctx) (m, w) =
      Some (SYS_RET_NO_ERROR, place (ctx_buffer ctx) (csize ctx) (cluster_byte ctx (sector w) (root_cluster ctx 0)) m, w')"
      "ready w'" "sector w' = sector w"
    using read_cluster_eq [OF assms(1,5)] by blast
  then have "fat16_find_file_entry io junk cmp ctx path (m, w) = find_file_entry_loop io junk cmp ctx (xs @ 0 # r) None
      (place (ctx_buffer ctx) (csize ctx) (cluster_byte ctx (sector w) (root_cluster ctx 0)) m, w')"
    using per_cluster r by (auto simp: fat16_find_file_entry_def fat16_read_root_dir_def fat16_read_directory_def root_cluster_def)
  then show ?thesis using w'(2,3) place_outside by blast
qed

end

context mounted_disk
begin

lemma find_file_root_eq:
  assumes "ready w" "short_name nm name" "pre \<in> {[], [chr CHR ''/'']}" "cstring_at m path (pre @ nm)"
    and "root_stop ctx (sector w) name j" "attributes (slot_entry ctx (sector w) (root_cluster ctx) j) AND FAT_ATTRIB_SUBDIR = 0"
    and "no_overlap (ctx_buffer ctx) (csize ctx) cmp 12"
  shows "\<exists>m' w'. fat16_find_file_entry io junk cmp ctx path (m, w) =
      Some (fst (slot_result ctx (sector w) (root_cluster ctx) j), snd (slot_result ctx (sector w) (root_cluster ctx) j), m', w') \<and>
    ready w' \<and> sector w' = sector w \<and> (\<forall>a. \<not> in_range (ctx_buffer ctx) (csize ctx) a \<and> \<not> in_range cmp 12 a \<longrightarrow> m' a = m a)"
proof -
  have nm: "pre @ nm \<noteq> []" "length (pre @ nm) \<le> 1022" using assms(2,3) by (auto simp: short_name_def)
  have "cluster_on_disk ctx (root_cluster ctx 0)" using assms(5) by (simp add: root_stop_def)
  then obtain r m1 w1 where s1: "fat16_find_file_entry io junk cmp ctx path (m, w) =
      find_file_entry_loop io junk cmp ctx (pre @ nm @ 0 # r) None (m1, w1)" "ready w1" "sector w1 = sector w"
    "\<forall>a. \<not> in_range (ctx_buffer ctx) (csize ctx) a \<longrightarrow> m1 a = m a"
    using find_file_start [OF assms(1,4) nm] by force
  have stop: "root_stop ctx (sector w1) name j" using assms(5) s1(3) by simp
  obtain m2 w2 where s2: "find_file_entry_loop io junk cmp ctx (pre @ nm @ 0 # r) None (m1, w1) =
      (if slot_end ctx (sector w) (root_cluster ctx) j then Some (SYS_RET_NOT_FOUND, None, m2, w2)
       else find_file_entry_loop io junk cmp ctx (0 # r) (Some (slot_entry ctx (sector w) (root_cluster ctx) j)) (m2, w2))"
    "ready w2" "sector w2 = sector w" "\<forall>a. \<not> in_range (ctx_buffer ctx) (csize ctx) a \<and> \<not> in_range cmp 12 a \<longrightarrow> m2 a = m1 a"
    using walk_root [OF s1(2) assms(2) disjI1 [OF refl] assms(3) stop assms(7), of junk r m1]
    unfolding s1(3) by blast
  obtain m3 where s3: "find_file_entry_loop io junk cmp ctx (0 # r) (Some (slot_entry ctx (sector w) (root_cluster ctx) j)) (m2, w2) =
      Some (SYS_RET_NO_ERROR, Some (slot_entry ctx (sector w) (root_cluster ctx) j), m3, w2)" "\<forall>a. \<not> in_range cmp 12 a \<longrightarrow> m3 a = m2 a"
    using walk_end [OF assms(6)] by blast
  show ?thesis
  proof (cases "slot_end ctx (sector w) (root_cluster ctx) j")
    case True
    then show ?thesis using s1 s2 by (auto simp: slot_result_def)
  next
    case False
    then show ?thesis using s1 s2 s3 by (auto simp: slot_result_def)
  qed
qed

end

section \<open>Properties\<close>



text \<open>A drive with given bytes, and a disk with a directory \<^verbatim>\<open>DOCS\<close> that holds a file \<^verbatim>\<open>HI.TXT\<close>.\<close>

definition drive_of :: "(u32 \<Rightarrow> nat \<Rightarrow> u8) \<Rightarrow> ata_drive" where
  "drive_of f = blank_drive\<lparr>words := (\<lambda>l k. ucast (f l (2 * k)) OR push_bit 8 (ucast (f l (2 * k + 1))))\<rparr>"

lemma drive_of_simps [simp]: "drive_ready (drive_of f)" "sector_byte (drive_of f) = f"
proof -
  show "drive_ready (drive_of f)" by (simp add: drive_ready_def drive_of_def blank_drive_def)
  have "ucast (ucast a OR push_bit 8 (ucast b) :: u16) = a" for a b :: u8
    by (rule bit_word_eqI) (auto simp: bit_unsigned_iff bit_or_iff bit_push_bit_iff)
  moreover have "ucast (drop_bit 8 (ucast a OR push_bit 8 (ucast b) :: u16)) = b" for a b :: u8
  proof (rule bit_word_eqI)
    fix n assume n: "n < LENGTH(8)"
    then show "bit (ucast (drop_bit 8 (ucast a OR push_bit 8 (ucast b) :: u16)) :: u8) n \<longleftrightarrow> bit b n"
      using bit_imp_le_length [of a "8 + n"] by (auto simp: bit_unsigned_iff bit_or_iff bit_push_bit_iff bit_drop_bit_eq)
  qed
  ultimately show "sector_byte (drive_of f) = f"
    by (auto simp: fun_eq_iff sector_byte_def drive_of_def elim!: oddE evenE)
qed

definition tree_bytes :: "u32 \<Rightarrow> nat \<Rightarrow> u8" where
  "tree_bytes l i =
     (let xs = (if l = 1 then [0, 0, 0, 0, 0xFF, 0xFF]
        else if l = 5 then map chr ''DOCS       '' @ [0x10] @ replicate 14 0 @ [2] @ replicate 5 0 @
          map chr ''README  '' @ map chr ''   '' @ [0x20]
        else if l = 10 then map chr ''HI      TXT'' @ [0x20] @ replicate 14 0 @ [7] @ replicate 1 0 @ [9, 0, 0, 0]
        else [])
      in if i < length xs then xs ! i else 0)"

lemma short_names:
  "short_name (map chr ''README'') (map chr ''README     '')" "short_name (map chr ''DOCS'') (map chr ''DOCS       '')"
  "short_name (map chr ''HI.TXT'') (map chr ''HI      TXT'')" "short_name (map chr ''NO.TXT'') (map chr ''NO      TXT'')"
proof -
  show "short_name (map chr ''README'') (map chr ''README     '')"
    unfolding short_name_def by (intro conjI exI [of _ "map chr ''README''"] exI [of _ "[]"]) code_simp+
  show "short_name (map chr ''DOCS'') (map chr ''DOCS       '')"
    unfolding short_name_def by (intro conjI exI [of _ "map chr ''DOCS''"] exI [of _ "[]"]) code_simp+
  show "short_name (map chr ''HI.TXT'') (map chr ''HI      TXT'')"
    unfolding short_name_def by (intro conjI exI [of _ "map chr ''HI''"] exI [of _ "map chr ''TXT''"]) code_simp+
  show "short_name (map chr ''NO.TXT'') (map chr ''NO      TXT'')"
    unfolding short_name_def by (intro conjI exI [of _ "map chr ''NO''"] exI [of _ "map chr ''TXT''"]) code_simp+
qed

lemma small_slots: "slots small_context = 16"
  by (simp add: slots_def small_simps)

lemma slot_root: "j < 16 \<Longrightarrow> b < 32 \<Longrightarrow> slot_byte small_context f (root_cluster small_context) j b = f 5 (32 * j + b)"
  using small_simps(1) by (simp add: slot_byte_def small_slots cluster_byte_def root_cluster_def) (simp add: small_context_def)

lemma slot_docs: "j < 16 \<Longrightarrow> b < 32 \<Longrightarrow> slot_byte small_context f (chain_cluster small_context [2]) j b = f 10 (32 * j + b)"
  using small_simps(1) by (simp add: slot_byte_def small_slots cluster_byte_def chain_cluster_def small_simps(6))

lemma slot_root_entry:
  "j < 16 \<Longrightarrow> slot_entry small_context f (root_cluster small_context) j = load_dir_entry (\<lambda>a. f 5 (32 * j + unat a)) 0"
  unfolding slot_entry_def by (rule load_dir_entry_cong) (simp add: slot_root unat_of_nat_u32)

lemma tree_names:
  "\<forall>b<11. tree_bytes 5 (32 + b) = map chr ''README     '' ! b" "\<forall>b<11. tree_bytes 5 b = map chr ''DOCS       '' ! b"
  "\<forall>b<11. tree_bytes 10 b = map chr ''HI      TXT'' ! b" "tree_bytes 5 3 \<noteq> map chr ''README     '' ! 3"
  "tree_bytes 5 0 \<noteq> 0" "tree_bytes 5 0 \<noteq> 0xE5" "tree_bytes 5 32 \<noteq> 0" "tree_bytes 5 32 \<noteq> 0xE5" "tree_bytes 10 0 \<noteq> 0"
  "tree_bytes 10 0 \<noteq> 0xE5" "tree_bytes 10 32 = 0" "tree_bytes 10 0 \<noteq> map chr ''NO      TXT'' ! 0"
  "tree_bytes 5 11 = 0x10" "tree_bytes 5 43 = 0x20" "tree_bytes 5 20 = 0" "tree_bytes 5 21 = 0" "tree_bytes 5 26 = 2" "tree_bytes 5 27 = 0"
  "tree_bytes 1 4 = 0xFF" "tree_bytes 1 5 = 0xFF"
  by code_simp+

lemma tree_root:
  "root_stop small_context tree_bytes (map chr ''README     '') 1"
  "root_stop small_context tree_bytes (map chr ''DOCS       '') 0"
  "\<not> slot_end small_context tree_bytes (root_cluster small_context) 0"
  "\<not> slot_end small_context tree_bytes (root_cluster small_context) 1"
proof -
  have disk: "cluster_on_disk small_context (root_cluster small_context 0)"
    using small_simps(1) by (simp add: root_cluster_def cluster_on_disk_def) (simp add: small_context_def)
  note at = slot_end_def slot_match_def slot_stop_def root_stop_def slot_root
  show ends: "\<not> slot_end small_context tree_bytes (root_cluster small_context) 0"
    "\<not> slot_end small_context tree_bytes (root_cluster small_context) 1" using tree_names(5,7) by (simp_all add: at)
  have "\<not> slot_match small_context tree_bytes (root_cluster small_context) (map chr ''README     '') 0"
  proof -
    have "(3 :: nat) < 11" by simp
    then show ?thesis using tree_names(4) slot_root [of 0 3 tree_bytes] unfolding slot_match_def by force
  qed
  moreover have "slot_match small_context tree_bytes (root_cluster small_context) (map chr ''README     '') 1"
    using tree_names(1,8) by (simp add: slot_match_def slot_root)
  ultimately show "root_stop small_context tree_bytes (map chr ''README     '') 1"
    using ends disk by (simp add: root_stop_def slot_stop_def small_slots)
  show "root_stop small_context tree_bytes (map chr ''DOCS       '') 0"
    using tree_names(2,6) disk by (simp add: root_stop_def slot_stop_def slot_match_def slot_root)
qed

lemma tree_docs:
  "snd (dir_result small_context tree_bytes [2] (map chr ''HI      TXT'') 0) =
     Some (slot_entry small_context tree_bytes (chain_cluster small_context [2]) 0)"
  "snd (dir_result small_context tree_bytes [2] (map chr ''NO      TXT'') 0) = None"
proof -
  let ?cl = "chain_cluster small_context [2]"
  have upt: "[0..<16] = 0 # 1 # [2..<16 :: nat]" by (simp add: upt_conv_Cons)
  have "slot_stop small_context tree_bytes ?cl (map chr ''HI      TXT'') 0"
    using tree_names(3,10) by (simp add: slot_stop_def slot_match_def slot_docs)
  moreover have "\<not> slot_end small_context tree_bytes ?cl 0" "slot_end small_context tree_bytes ?cl 1"
    using tree_names(9,11) by (simp_all add: slot_end_def slot_docs)
  moreover have "\<not> slot_match small_context tree_bytes ?cl (map chr ''NO      TXT'') 0"
  proof -
    have "(0 :: nat) < 11" by simp
    then show ?thesis using tree_names(12) slot_docs [of 0 0 tree_bytes] unfolding slot_match_def by force
  qed
  ultimately show "snd (dir_result small_context tree_bytes [2] (map chr ''HI      TXT'') 0) =
      Some (slot_entry small_context tree_bytes ?cl 0)"
    "snd (dir_result small_context tree_bytes [2] (map chr ''NO      TXT'') 0) = None"
    by (simp_all only: dir_result_def small_slots upt list.size mult_0 One_nat_def mult_1 add_0 plus_nat.simps)
      (simp_all add: slot_result_def slot_stop_def upt)
qed

lemma tree_attributes:
  "attributes (slot_entry small_context tree_bytes (root_cluster small_context) 1) = 0x20"
  "attributes (slot_entry small_context tree_bytes (root_cluster small_context) 0) = 0x10"
  "CLUSTER_OF (slot_entry small_context tree_bytes (root_cluster small_context) 0) = 2"
  "fat_next small_context tree_bytes 2 = 0xFFFF"
  using tree_names
  by (simp_all add: slot_root_entry load_dir_entry_def CLUSTER_OF_def load16_def fat_next_def fat_byte_def)
    (simp add: small_context_def)

lemma small_disk_laws:
  "good_disk drive_io (ctx_device small_context) drive_ready sector_byte" "sectorSize (ctx_device small_context) = 512"
  "0 < spc small_context" "no_overlap (ctx_buffer small_context) (csize small_context) 0x7000 12"
proof -
  have dev: "ctx_device small_context = first_disk" by (simp add: small_context_def)
  show "good_disk drive_io (ctx_device small_context) drive_ready sector_byte" unfolding dev by (rule ata.good_disk_axioms)
  show "sectorSize (ctx_device small_context) = 512" by (simp add: dev first_disk_def)
  show "0 < spc small_context" by (simp add: small_simps)
  show "no_overlap (ctx_buffer small_context) (csize small_context) 0x7000 12"
    unfolding small_simps by (intro no_overlap_apart) (simp add: small_context_def)
qed

interpretation fat_on_ata: mounted_disk drive_io small_context drive_ready sector_byte
  using small_disk_laws(1-3) by (auto intro!: mounted_disk.intro mounted_disk_axioms.intro)



end
