(* ===== verification/Stdio.thy ===== *)
theory Stdio
  imports Format Buddy Fat16Paths
begin

text \<open>
  Files and streams of the kernel, \<^verbatim>\<open>src/kernel/libc/stdio\<close>, on the console, the allocator and the FAT16
  reader, and the system calls of \<^verbatim>\<open>src/kernel/syscall/syscall.c\<close>. A \<^verbatim>\<open>FILE\<close> is a block of memory
  whose number \<^verbatim>\<open>_fileno\<close> lies at offset 48; no other field of it is used. Messages about errors and the
  traces of the system calls go through the stream \<^verbatim>\<open>kaos_stdout\<close>, as in the code.
\<close>

section \<open>State\<close>

record 'w stdio_state =
  std_mem :: mem
  std_ports :: 'w
  std_tty :: tty_state
  std_buddy :: buddy_state
  std_fs :: fat16_context
  open_files :: "nat \<Rightarrow> fat16_dir_entry"
  open_used :: "nat \<Rightarrow> u8"
  kaos_stdin :: u32
  kaos_stdout :: u32
  kaos_stderr :: u32

text \<open>
  What the operations find outside this state: the ports, the addresses of the string literals and of the local
  arrays, and what the array of clusters holds before it is filled.
\<close>

record 'w stdio_env =
  env_io :: "'w port_io"
  env_lit :: "string \<Rightarrow> u32"
  env_cmp :: u32
  env_buffer :: u32
  env_junk :: "nat \<Rightarrow> u32"

definition MAX_OPEN_FILES :: nat where "MAX_OPEN_FILES = 64"

definition sizeof_FILE :: u32 where "sizeof_FILE = 56"

definition get_fileno :: "mem \<Rightarrow> u32 \<Rightarrow> u32" where
  "get_fileno m fp = load32 m (fp + 48)"

definition set_fileno :: "u32 \<Rightarrow> u32 \<Rightarrow> 'w stdio_state \<Rightarrow> 'w stdio_state" where
  "set_fileno fp n s = s\<lparr>std_mem := store32 (fp + 48) n (std_mem s)\<rparr>"

definition initial_open_used :: "nat \<Rightarrow> u8" where
  "initial_open_used i = (if i < 3 then 1 else 0)"

section \<open>Writing\<close>

definition kaos_fwrite :: "u32 \<Rightarrow> u32 \<Rightarrow> u32 \<Rightarrow> u32 \<Rightarrow> 'w stdio_state \<Rightarrow> (u32 \<times> 'w stdio_state) option" where
  "kaos_fwrite data sz nitems stream s =
     (let fileNo = get_fileno (std_mem s) stream
      in if sz \<noteq> 1 then Some (0, s)
         else if fileNo = 0 then Some (0, s)
         else if fileNo = 1 \<or> fileNo = 2 then do {
           (_, t) \<leftarrow> tty_puts (std_mem s) data nitems (std_tty s);
           Some (nitems, s\<lparr>std_tty := t\<rparr>)
         }
         else Some (0, s))"

definition kaos_fflush :: "u32 \<Rightarrow> u32" where
  "kaos_fflush stream = 0"

section \<open>Formatted output to streams\<close>

text \<open>The buffer has 4096 bytes; the conversion is not told its size.\<close>

definition kaos_vfprintf :: "'w stdio_env \<Rightarrow> u32 \<Rightarrow> u32 \<Rightarrow> u32 list \<Rightarrow> 'w stdio_state \<Rightarrow> (u32 \<times> 'w stdio_state) option" where
  "kaos_vfprintf env stream format args s = do {
     let m = snd (kaos_memset (env_buffer env) 0 4096 (std_mem s));
     (retVal, m1) \<leftarrow> kaos_vsprintf (env_buffer env) format args m;
     (_, s1) \<leftarrow> kaos_fwrite (env_buffer env) 1 retVal stream (s\<lparr>std_mem := m1\<rparr>);
     Some (retVal, s1)
   }"

definition kaos_fprintf :: "'w stdio_env \<Rightarrow> u32 \<Rightarrow> u32 \<Rightarrow> u32 list \<Rightarrow> 'w stdio_state \<Rightarrow> (u32 \<times> 'w stdio_state) option" where
  "kaos_fprintf env stream format args s = kaos_vfprintf env stream format args s"

definition kaos_printf :: "'w stdio_env \<Rightarrow> u32 \<Rightarrow> u32 list \<Rightarrow> 'w stdio_state \<Rightarrow> (u32 \<times> 'w stdio_state) option" where
  "kaos_printf env format args s = kaos_vfprintf env (kaos_stdout s) format args s"

text \<open>A message without arguments, whose count is not looked at.\<close>

definition print_message :: "'w stdio_env \<Rightarrow> string \<Rightarrow> 'w stdio_state \<Rightarrow> 'w stdio_state option" where
  "print_message env msg s = do { (_, s1) \<leftarrow> kaos_printf env (env_lit env msg) [] s; Some s1 }"

section \<open>Files\<close>

text \<open>The null pointer is 0. The slot of the new file is not marked as used.\<close>

definition kaos_fopen :: "'w stdio_env \<Rightarrow> u32 \<Rightarrow> 'w stdio_state \<Rightarrow> (u32 \<times> 'w stdio_state) option" where
  "kaos_fopen env path s = do {
     (ret, addr, b) \<leftarrow> buddy_allocator__alloc sizeof_FILE (std_buddy s);
     let s1 = s\<lparr>std_buddy := b\<rparr>;
     if ret \<noteq> SYS_RET_NO_ERROR then do {
       s2 \<leftarrow> print_message env ''Cannot allocate memory for FILE *\<newline>'' s1;
       Some (0, s2)
     }
     else do {
       fp \<leftarrow> addr;
       if kaos_strncmp (std_mem s1) (env_lit env ''/dev/stdin'') path 11 = 0 then Some (fp, set_fileno fp 0 s1)
       else if kaos_strncmp (std_mem s1) (env_lit env ''/dev/stdout'') path 12 = 0 then Some (fp, set_fileno fp 1 s1)
       else if kaos_strncmp (std_mem s1) (env_lit env ''/dev/stderr'') path 12 = 0 then Some (fp, set_fileno fp 2 s1)
       else do {
         (ret, found, m, w) \<leftarrow> fat16_find_file_entry (env_io env) (env_junk env) (env_cmp env) (std_fs s1) path
           (std_mem s1, std_ports s1);
         let s2 = s1\<lparr>std_mem := m, std_ports := w\<rparr>;
         if ret \<noteq> SYS_RET_NO_ERROR then do {
           s3 \<leftarrow> print_message env ''Cannot find file entry\<newline>'' s2;
           Some (0, s3)
         }
         else do {
           dir_entry \<leftarrow> found;
           case find (\<lambda>i. open_used s2 i = 0) [0..<MAX_OPEN_FILES] of
             None \<Rightarrow> do {
               s3 \<leftarrow> print_message env ''Max open files reached\<newline>'' s2;
               Some (0, s3)
             }
           | Some i \<Rightarrow> Some (fp, set_fileno fp (of_nat i) (s2\<lparr>open_files := (open_files s2)(i := dir_entry)\<rparr>))
         }
       }
     }
   }"

definition kaos_fclose :: "u32 \<Rightarrow> 'w stdio_state \<Rightarrow> (u32 \<times> 'w stdio_state) option" where
  "kaos_fclose stream s =
     (let fileNo = get_fileno (std_mem s) stream
      in if unat fileNo < MAX_OPEN_FILES
         then Some (0, s\<lparr>open_used := (open_used s)(unat fileNo := 0),
           open_files := (open_files s)(unat fileNo := load_dir_entry (\<lambda>_. 0) 0)\<rparr>)
         else None)"

definition kaos_fread :: "'w stdio_env \<Rightarrow> u32 \<Rightarrow> u32 \<Rightarrow> u32 \<Rightarrow> u32 \<Rightarrow> 'w stdio_state \<Rightarrow> (u32 \<times> 'w stdio_state) option" where
  "kaos_fread env buffer sz count stream s =
     (let fileNo = get_fileno (std_mem s) stream
      in if fileNo = 0 \<or> fileNo = 1 \<or> fileNo = 2 then Some (0, s)
         else if unat fileNo < MAX_OPEN_FILES then do {
           (_, out_size, m, w) \<leftarrow> fat16_read_file (env_io env) (env_junk env) (std_fs s) (open_files s (unat fileNo)) buffer
             (count * sz) (std_mem s, std_ports s);
           Some (case out_size of None \<Rightarrow> 0 | Some n \<Rightarrow> n, s\<lparr>std_mem := m, std_ports := w\<rparr>)
         }
         else None)"

text \<open>The three paths are the literals of \<^verbatim>\<open>init.c\<close>.\<close>

definition kaos_init_stdlib :: "'w stdio_env \<Rightarrow> u32 \<Rightarrow> u32 \<Rightarrow> u32 \<Rightarrow> 'w stdio_state \<Rightarrow> 'w stdio_state option" where
  "kaos_init_stdlib env p_in p_out p_err s = do {
     (f0, s0) \<leftarrow> kaos_fopen env p_in s;
     (f1, s1) \<leftarrow> kaos_fopen env p_out (s0\<lparr>kaos_stdin := f0\<rparr>);
     (f2, s2) \<leftarrow> kaos_fopen env p_err (s1\<lparr>kaos_stdout := f1\<rparr>);
     Some (s2\<lparr>kaos_stderr := f2\<rparr>)
   }"

section \<open>System calls\<close>

definition SYS_CALL_FOPEN :: u32 where "SYS_CALL_FOPEN = 1"
definition SYS_CALL_FREAD :: u32 where "SYS_CALL_FREAD = 2"
definition SYS_CALL_FWRITE :: u32 where "SYS_CALL_FWRITE = 3"
definition SYS_CALL_FCLOSE :: u32 where "SYS_CALL_FCLOSE = 4"

text \<open>The parameters are an array of five words in memory.\<close>

definition param :: "mem \<Rightarrow> u32 \<Rightarrow> nat \<Rightarrow> u32" where
  "param m params i = load32 m (params + 4 * of_nat i)"

definition syscall__handle_fopen :: "'w stdio_env \<Rightarrow> u32 \<Rightarrow> 'w stdio_state \<Rightarrow> (SYS_RET \<times> 'w stdio_state) option" where
  "syscall__handle_fopen env params s = do {
     let fpp = param (std_mem s) params 0;
     let path = param (std_mem s) params 1;
     (fp, s1) \<leftarrow> kaos_fopen env path s;
     Some (SYS_RET_NO_ERROR, s1\<lparr>std_mem := store32 fpp fp (std_mem s1)\<rparr>)
   }"

definition syscall__handle_fread :: "'w stdio_env \<Rightarrow> u32 \<Rightarrow> 'w stdio_state \<Rightarrow> (SYS_RET \<times> 'w stdio_state) option" where
  "syscall__handle_fread env params s = do {
     let p = param (std_mem s) params;
     (n, s1) \<leftarrow> kaos_fread env (p 0) (p 1) (p 2) (p 3) s;
     Some (SYS_RET_NO_ERROR, s1\<lparr>std_mem := store32 (p 4) n (std_mem s1)\<rparr>)
   }"

definition syscall__handle_fwrite :: "u32 \<Rightarrow> 'w stdio_state \<Rightarrow> (SYS_RET \<times> 'w stdio_state) option" where
  "syscall__handle_fwrite params s = do {
     let p = param (std_mem s) params;
     (n, s1) \<leftarrow> kaos_fwrite (p 0) (p 1) (p 2) (p 3) s;
     Some (SYS_RET_NO_ERROR, s1\<lparr>std_mem := store32 (p 4) n (std_mem s1)\<rparr>)
   }"

definition syscall__generic_syscall_handler ::
  "'w stdio_env \<Rightarrow> u32 \<Rightarrow> u32 \<Rightarrow> 'w stdio_state \<Rightarrow> (SYS_RET \<times> 'w stdio_state) option" where
  "syscall__generic_syscall_handler env function params s =
     (if function = SYS_CALL_FOPEN then do {
        s1 \<leftarrow> print_message env ''fopen syscall called\<newline>'' s;
        syscall__handle_fopen env params s1
      } else if function = SYS_CALL_FREAD then do {
        s1 \<leftarrow> print_message env ''fread syscall called\<newline>'' s;
        syscall__handle_fread env params s1
      } else if function = SYS_CALL_FCLOSE then do {
        s1 \<leftarrow> print_message env ''fclose syscall called\<newline>'' s;
        Some (SYS_RET_NO_ERROR, s1)
      } else if function = SYS_CALL_FWRITE then do {
        s1 \<leftarrow> print_message env ''fwrite syscall called\<newline>'' s;
        syscall__handle_fwrite params s1
      } else do {
        s1 \<leftarrow> print_message env ''unknown syscall\<newline>'' s;
        (_, s2) \<leftarrow> kaos_printf env (env_lit env ''0x%x\<newline>'') [params] s1;
        Some (SYS_RET_NO_ERROR, s2)
      })"

section \<open>Streams\<close>

lemma get_set_fileno [simp]: "get_fileno (std_mem (set_fileno fp n s)) fp = n"
  by (simp add: get_fileno_def set_fileno_def)

text \<open>The console shows a text up to its first null character.\<close>

definition shown :: "u8 list \<Rightarrow> u8 list" where
  "shown xs = takeWhile (\<lambda>c. c \<noteq> 0) xs"

lemma shown_id: "0 \<notin> set xs \<Longrightarrow> shown xs = xs"
  by (auto simp: shown_def takeWhile_eq_all_conv)

lemma fwrite_console:
  assumes "holds (std_mem s) p xs" "0x08 \<notin> set xs" "tty_ok (std_tty s)" "length xs < 4294967296"
    and "get_fileno (std_mem s) stream \<in> {1, 2}"
  shows "\<exists>t. kaos_fwrite p 1 (of_nat (length xs)) stream s = Some (of_nat (length xs), s\<lparr>std_tty := t\<rparr>) \<and> printed (shown xs) (std_tty s) t"
proof -
  have n: "unat (of_nat (length xs) :: u32) = length xs" using assms(4) by (simp add: unat_of_nat_u32)
  have len: "length (shown xs) \<le> length xs" by (simp add: shown_def length_takeWhile_le)
  have at: "shown xs ! k = xs ! k" if "k < length (shown xs)" for k using that by (simp add: shown_def takeWhile_nth)
  have "holds (std_mem s) p (shown xs)" using assms(1) len at by (simp add: holds_def)
  moreover have "0 \<notin> set (shown xs)" "0x08 \<notin> set (shown xs)" using assms(2) by (auto simp: shown_def dest: set_takeWhileD)
  moreover have "std_mem s (p + of_nat (length (shown xs))) = 0" if "length (shown xs) < length xs"
    using assms(1) that nth_length_takeWhile [of "\<lambda>c. c \<noteq> 0" xs] by (simp add: holds_def shown_def)
  ultimately have "\<exists>t. tty_puts (std_mem s) p (of_nat (length xs)) (std_tty s) = Some (of_nat (length (shown xs)), t) \<and> printed (shown xs) (std_tty s) t"
    using len n by (intro puts_printed [OF assms(3)]) auto
  then show ?thesis using assms(5) by (auto simp: kaos_fwrite_def Let_def)
qed

section \<open>Opening files\<close>

lemma strncmp_names:
  assumes "cstring_at m s xs" "cstring_at m t ys" "length xs < unat n" "length ys \<le> unat n" "length xs < length ys \<longrightarrow> take (length xs) ys \<noteq> xs"
  shows "kaos_strncmp m s t n = 0 \<longleftrightarrow> xs = ys"
  using strncmp_loop_cstring [OF assms(1,2), of "unat n"] assms(3-5) by (auto simp: kaos_strncmp_def)

text \<open>The names of the standard streams, where the code finds them.\<close>

definition names_ok :: "'w stdio_env \<Rightarrow> mem \<Rightarrow> bool" where
  "names_ok env m \<longleftrightarrow> cstring_at m (env_lit env ''/dev/stdin'') (map chr ''/dev/stdin'') \<and>
     cstring_at m (env_lit env ''/dev/stdout'') (map chr ''/dev/stdout'') \<and> cstring_at m (env_lit env ''/dev/stderr'') (map chr ''/dev/stderr'')"

lemma not_stream:
  assumes "names_ok env m" "cstring_at m path (pre @ nm)" "short_name nm name" "pre \<in> {[], [chr CHR ''/'']}"
  shows "kaos_strncmp m (env_lit env ''/dev/stdin'') path 11 \<noteq> 0" "kaos_strncmp m (env_lit env ''/dev/stdout'') path 12 \<noteq> 0"
    "kaos_strncmp m (env_lit env ''/dev/stderr'') path 12 \<noteq> 0"
proof -
  have nm: "chr CHR ''/'' \<notin> set nm" "length (pre @ nm) \<le> 11" using assms(3,4) by (auto simp: short_name_def)
  have ne: "map chr (''/dev/'' @ zs) \<noteq> pre @ nm" for zs
  proof
    assume eq: "map chr (''/dev/'' @ zs) = pre @ nm"
    then have "chr CHR ''/'' \<in> set (drop 1 (pre @ nm))" unfolding eq [symmetric] by simp
    with nm(1) assms(4) show False by (auto dest: in_set_dropD)
  qed
  have cmp: "kaos_strncmp m s path n \<noteq> 0" if "cstring_at m s (map chr (''/dev/'' @ zs))" "length (''/dev/'' @ zs) < unat n" "11 \<le> unat n" for s zs n
    using strncmp_loop_cstring [OF that(1) assms(2), of "unat n"] that(2,3) nm(2) ne [of zs] by (auto simp: kaos_strncmp_def)
  show "kaos_strncmp m (env_lit env ''/dev/stdin'') path 11 \<noteq> 0" using cmp [of _ "''stdin''" 11] assms(1) by (simp add: names_ok_def)
  show "kaos_strncmp m (env_lit env ''/dev/stdout'') path 12 \<noteq> 0" using cmp [of _ "''stdout''" 12] assms(1) by (simp add: names_ok_def)
  show "kaos_strncmp m (env_lit env ''/dev/stderr'') path 12 \<noteq> 0" using cmp [of _ "''stderr''" 12] assms(1) by (simp add: names_ok_def)
qed

lemma fopen_file:
  assumes "buddy_allocator__alloc sizeof_FILE (std_buddy s) = Some (SYS_RET_NO_ERROR, Some fp, b)"
    and "kaos_strncmp (std_mem s) (env_lit env ''/dev/stdin'') path 11 \<noteq> 0" "kaos_strncmp (std_mem s) (env_lit env ''/dev/stdout'') path 12 \<noteq> 0"
    "kaos_strncmp (std_mem s) (env_lit env ''/dev/stderr'') path 12 \<noteq> 0"
    and "fat16_find_file_entry (env_io env) (env_junk env) (env_cmp env) (std_fs s) path (std_mem s, std_ports s) =
      Some (SYS_RET_NO_ERROR, Some e, m, w)" "find (\<lambda>i. open_used s i = 0) [0..<MAX_OPEN_FILES] = Some i"
  shows "kaos_fopen env path s = Some (fp, set_fileno fp (of_nat i)
     (s\<lparr>std_buddy := b, std_mem := m, std_ports := w, open_files := (open_files s)(i := e)\<rparr>))"
  unfolding kaos_fopen_def by (simp only: assms(1) bind.bind_lunit Let_def split_conv) (simp add: assms(2-6))

lemma fopen_cases:
  assumes "kaos_fopen env path s = Some (fp, s')"
  obtains (stream) b n where "s' = set_fileno fp n (s\<lparr>std_buddy := b\<rparr>)" "n < 3"
      "kaos_strncmp (std_mem s) (env_lit env ''/dev/stdin'') path 11 = 0 \<or> kaos_strncmp (std_mem s) (env_lit env ''/dev/stdout'') path 12 = 0 \<or>
       kaos_strncmp (std_mem s) (env_lit env ''/dev/stderr'') path 12 = 0"
    | (opened) b m w e i where "find (\<lambda>i. open_used s i = 0) [0..<MAX_OPEN_FILES] = Some i"
      "s' = set_fileno fp (of_nat i) (s\<lparr>std_buddy := b, std_mem := m, std_ports := w, open_files := (open_files s)(i := e)\<rparr>)"
    | (failed) b m w msg where "fp = 0" "print_message env msg (s\<lparr>std_buddy := b, std_mem := m, std_ports := w\<rparr>) = Some s'"
proof -
  obtain ret addr b where al: "buddy_allocator__alloc sizeof_FILE (std_buddy s) = Some (ret, addr, b)"
    using assms by (auto simp: kaos_fopen_def bind_eq_Some_conv)
  show thesis
  proof (cases "ret = SYS_RET_NO_ERROR")
    case False
    then have "fp = 0" "print_message env ''Cannot allocate memory for FILE *\<newline>''
        (s\<lparr>std_buddy := b, std_mem := std_mem s, std_ports := std_ports s\<rparr>) = Some s'"
      using assms al by (auto simp: kaos_fopen_def bind_eq_Some_conv)
    then show thesis by (rule failed)
  next
    case True
    then obtain a where a: "addr = Some a" using assms al by (cases addr) (simp_all add: kaos_fopen_def)
    let ?c0 = "kaos_strncmp (std_mem s) (env_lit env ''/dev/stdin'') path 11 = 0" and ?c1 = "kaos_strncmp (std_mem s) (env_lit env ''/dev/stdout'') path 12 = 0"
      and ?c2 = "kaos_strncmp (std_mem s) (env_lit env ''/dev/stderr'') path 12 = 0"
    note al = al [unfolded True a]
    show thesis
    proof (cases "?c0 \<or> ?c1 \<or> ?c2")
      case c: True
      then have "a = fp" "s' = set_fileno fp (if ?c0 then 0 else if ?c1 then 1 else 2) (s\<lparr>std_buddy := b\<rparr>)"
        using assms al by (auto simp: kaos_fopen_def Let_def split: if_splits)
      then show thesis using c by (intro stream [where n = "if ?c0 then 0 else if ?c1 then 1 else 2" and b = b]) auto
    next
      case c: False
      then obtain r found m w where f: "fat16_find_file_entry (env_io env) (env_junk env) (env_cmp env) (std_fs s) path (std_mem s, std_ports s) =
          Some (r, found, m, w)" using assms al by (auto simp: kaos_fopen_def bind_eq_Some_conv Let_def)
      show thesis
      proof (cases "r = SYS_RET_NO_ERROR")
        case False
        then have "fp = 0" "print_message env ''Cannot find file entry\<newline>'' (s\<lparr>std_buddy := b, std_mem := m, std_ports := w\<rparr>) = Some s'"
          using assms al c f by (auto simp: kaos_fopen_def bind_eq_Some_conv)
        then show thesis by (rule failed)
      next
        case r: True
        then obtain e where e: "found = Some e" using assms al c f by (cases found) (simp_all add: kaos_fopen_def)
        show thesis
        proof (cases "find (\<lambda>i. open_used s i = 0) [0..<MAX_OPEN_FILES]")
          case None
          then have "fp = 0" "print_message env ''Max open files reached\<newline>'' (s\<lparr>std_buddy := b, std_mem := m, std_ports := w\<rparr>) = Some s'"
            using assms al c f r e by (auto simp: kaos_fopen_def bind_eq_Some_conv)
          then show thesis by (rule failed)
        next
          case (Some i)
          then have "kaos_fopen env path s = Some (a, set_fileno a (of_nat i)
              (s\<lparr>std_buddy := b, std_mem := m, std_ports := w, open_files := (open_files s)(i := e)\<rparr>))"
            using c f r e by (intro fopen_file [OF al]) simp_all
          with assms Some show thesis by (intro opened [where i = i and b = b and m = m and w = w and e = e]) auto
        qed
      qed
    qed
  qed
qed

lemma print_message_keeps: "print_message env msg s = Some s' \<Longrightarrow> open_used s' = open_used s"
  by (auto simp: print_message_def kaos_printf_def kaos_vfprintf_def kaos_fwrite_def bind_eq_Some_conv Let_def split: if_splits)

lemma fopen_keeps_used: "kaos_fopen env path s = Some (fp, s') \<Longrightarrow> open_used s' = open_used s"
  by (erule fopen_cases) (auto simp: set_fileno_def dest!: print_message_keeps)

lemma fopen_number:
  assumes "kaos_fopen env path s = Some (fp, s')" "fp \<noteq> 0" "kaos_strncmp (std_mem s) (env_lit env ''/dev/stdin'') path 11 \<noteq> 0"
    "kaos_strncmp (std_mem s) (env_lit env ''/dev/stdout'') path 12 \<noteq> 0" "kaos_strncmp (std_mem s) (env_lit env ''/dev/stderr'') path 12 \<noteq> 0"
  shows "\<exists>i. find (\<lambda>i. open_used s i = 0) [0..<MAX_OPEN_FILES] = Some i \<and> get_fileno (std_mem s') fp = of_nat i"
  using assms(1)
proof (cases rule: fopen_cases)
  case stream
  with assms(3-5) show ?thesis by blast
next
  case opened
  then show ?thesis by auto
next
  case failed
  with assms(2) show ?thesis by simp
qed

text \<open>The strings that a format refers to lie apart from the buffer.\<close>

definition strings_ok :: "'w stdio_env \<Rightarrow> mem \<Rightarrow> (u32 \<rightharpoonup> u8 list) \<Rightarrow> bool" where
  "strings_ok env m strs \<longleftrightarrow> (\<forall>a ys. strs a = Some ys \<longrightarrow> cstring_at m a ys \<and> no_overlap (env_buffer env) 4096 a (length ys + 1))"

text \<open>The stream is one of the console, and its number is not in the buffer.\<close>

definition console_stream :: "'w stdio_env \<Rightarrow> mem \<Rightarrow> u32 \<Rightarrow> bool" where
  "console_stream env m stream \<longleftrightarrow> get_fileno m stream \<in> {1, 2} \<and> no_overlap (env_buffer env) 4096 (stream + 48) 4"

definition text_at :: "'w stdio_env \<Rightarrow> mem \<Rightarrow> u32 \<Rightarrow> u8 list \<Rightarrow> bool" where
  "text_at env m p xs \<longleftrightarrow> cstring_at m p xs \<and> no_overlap (env_buffer env) 4096 p (length xs + 1)"

text \<open>Memory outside the buffer stays; what lies outside is kept.\<close>

definition same_outside :: "'w stdio_env \<Rightarrow> mem \<Rightarrow> mem \<Rightarrow> bool" where
  "same_outside env m m' \<longleftrightarrow> (\<forall>a. \<not> in_range (env_buffer env) 4096 a \<longrightarrow> m' a = m a)"

lemma same_outside_refl: "same_outside env m m"
  by (simp add: same_outside_def)

lemma same_outside_trans: "same_outside env m m1 \<Longrightarrow> same_outside env m1 m2 \<Longrightarrow> same_outside env m m2"
  by (simp add: same_outside_def)

lemma same_outside_load32: "same_outside env m m' \<Longrightarrow> no_overlap (env_buffer env) 4096 p 4 \<Longrightarrow> load32 m' p = load32 m p"
  by (rule load32_cong) (simp add: same_outside_def no_overlap_def)

lemma same_outside_string:
  "same_outside env m m' \<Longrightarrow> no_overlap (env_buffer env) 4096 p (length xs + 1) \<Longrightarrow> cstring_at m p xs \<Longrightarrow> cstring_at m' p xs"
  by (erule cstring_at_frame) (simp add: same_outside_def no_overlap_def)

lemma same_outside_text: "same_outside env m m' \<Longrightarrow> text_at env m p xs \<Longrightarrow> text_at env m' p xs"
  using same_outside_string by (auto simp: text_at_def)

lemma same_outside_stream: "same_outside env m m' \<Longrightarrow> console_stream env m stream \<Longrightarrow> console_stream env m' stream"
  using same_outside_load32 [of env m m' "stream + 48"] by (simp add: console_stream_def get_fileno_def)

text \<open>A format rendered in a buffer of 4096 bytes that has been cleared.\<close>

lemma buffer_expand:
  assumes "cstring_at m fmt f" "no_overlap b 4096 fmt (length f + 1)" "expand strs (\<lambda>_. 0) 0 f args = Some xs" "length xs < 4096"
    and "\<And>a ys. strs a = Some ys \<Longrightarrow> cstring_at m a ys \<and> no_overlap b 4096 a (length ys + 1)"
  shows "\<exists>m1. kaos_vsprintf b fmt args (snd (kaos_memset b 0 4096 m)) = Some (of_nat (length xs), m1) \<and> holds m1 b xs \<and>
     (\<forall>a. \<not> in_range b 4096 a \<longrightarrow> m1 a = m a)"
proof -
  let ?m = "snd (kaos_memset b 0 4096 m)"
  have out: "?m a = m a" if "\<not> in_range b 4096 a" for a using that by (simp add: kaos_memset_def memset_loop_apply)
  have zero: "?m (b + of_nat k) = 0" if "k < 4096" for k
    using that by (simp add: kaos_memset_def memset_loop_apply in_range_def unat_of_nat_u32)
  have part: "no_overlap b (length xs) a k" if "no_overlap b 4096 a k" for a k
    using that assms(4) by (auto simp: no_overlap_def in_range_def)
  have str: "cstring_at ?m a ys" if "cstring_at m a ys" "no_overlap b 4096 a (length ys + 1)" for a ys
    using that(1) by (rule cstring_at_frame) (use that(2) in \<open>auto simp: no_overlap_def intro!: out\<close>)
  have "expand strs (\<lambda>k. ?m (b + of_nat k)) 0 f args = Some xs"
    using assms(3) by (rule expand_cong) (use zero assms(4) in auto)
  from vsprintf_expand [OF str [OF assms(1,2)] this _ part [OF assms(2)]] str part assms(4,5) obtain m1 where m1:
    "kaos_vsprintf b fmt args ?m = Some (of_nat (length xs), m1)" "holds m1 b xs" "\<forall>x. \<not> in_range b (length xs + 1) x \<longrightarrow> m1 x = ?m x"
    by auto
  have "m1 a = m a" if "\<not> in_range b 4096 a" for a using m1(3) out [OF that] that assms(4) by (auto simp: in_range_def)
  with m1(1,2) show ?thesis by blast
qed

lemma vfprintf_expand:
  assumes "text_at env (std_mem s) fmt f" "expand strs (\<lambda>_. 0) 0 f args = Some xs" "0x08 \<notin> set xs" "length xs < 4096"
    and "tty_ok (std_tty s)" "console_stream env (std_mem s) stream" "strings_ok env (std_mem s) strs"
  shows "\<exists>m t. kaos_vfprintf env stream fmt args s = Some (of_nat (length xs), s\<lparr>std_mem := m, std_tty := t\<rparr>) \<and>
     printed (shown xs) (std_tty s) t \<and> same_outside env (std_mem s) m"
proof -
  let ?b = "env_buffer env" and ?m = "snd (kaos_memset (env_buffer env) 0 4096 (std_mem s))"
  obtain m1 where m1: "kaos_vsprintf ?b fmt args ?m = Some (of_nat (length xs), m1)" "holds m1 ?b xs"
      "\<forall>a. \<not> in_range ?b 4096 a \<longrightarrow> m1 a = std_mem s a"
    using buffer_expand [of "std_mem s" fmt f ?b strs args xs] assms(1,2,4,7) by (auto simp: text_at_def strings_ok_def)
  then have keep: "same_outside env (std_mem s) m1" by (simp add: same_outside_def)
  from same_outside_stream [OF keep assms(6)] have "get_fileno m1 stream \<in> {1, 2}" by (simp add: console_stream_def)
  with fwrite_console [of "s\<lparr>std_mem := m1\<rparr>" ?b xs stream] m1(2) assms(3,4,5)
  obtain t where t: "kaos_fwrite ?b 1 (of_nat (length xs)) stream (s\<lparr>std_mem := m1\<rparr>) = Some (of_nat (length xs), s\<lparr>std_mem := m1, std_tty := t\<rparr>)"
    "printed (shown xs) (std_tty s) t" by auto
  show ?thesis using m1(1) t keep by (auto simp: kaos_vfprintf_def)
qed

lemma print_message_prints:
  assumes "text_at env (std_mem s) (env_lit env msg) (map chr msg)" "0x25 \<notin> set (map chr msg)" "0x08 \<notin> set (map chr msg)"
    "length msg < 4096" "tty_ok (std_tty s)" "console_stream env (std_mem s) (kaos_stdout s)"
  shows "\<exists>m t. print_message env msg s = Some (s\<lparr>std_mem := m, std_tty := t\<rparr>) \<and> printed (map chr msg) (std_tty s) t \<and>
     same_outside env (std_mem s) m"
proof -
  have "0 \<notin> set (map chr msg)" using assms(1) cstring_holds unfolding text_at_def by blast
  then show ?thesis
    using vfprintf_expand [OF assms(1) expand_text [OF assms(2)] assms(3) _ assms(5,6), of "\<lambda>_. None" "[]"] assms(4)
    unfolding print_message_def kaos_printf_def by (fastforce simp: strings_ok_def shown_id)
qed

text \<open>The system call that writes: the trace of the call and the characters up to a null character appear on the console.\<close>

lemma syscall_fwrite_effect:
  assumes "console_stream env (std_mem s) (kaos_stdout s)" "console_stream env (std_mem s) stream" "tty_ok (std_tty s)"
    and "trace = ''fwrite syscall called\<newline>''" "text_at env (std_mem s) (env_lit env trace) (map chr trace)"
    and "map (param (std_mem s) params) [0, 1, 2, 3, 4] = [data, 1, of_nat (length xs), stream, out]" "no_overlap (env_buffer env) 4096 params 20"
    and "holds (std_mem s) data xs" "no_overlap (env_buffer env) 4096 data (length xs)" "0x08 \<notin> set xs" "length xs < 4294967296"
  shows "\<exists>m t. syscall__generic_syscall_handler env SYS_CALL_FWRITE params s =
       Some (SYS_RET_NO_ERROR, s\<lparr>std_mem := store32 out (of_nat (length xs)) m, std_tty := t\<rparr>) \<and>
     printed (map chr trace @ shown xs) (std_tty s) t \<and> same_outside env (std_mem s) m"
proof -
  have tr: "0x25 \<notin> set (map chr trace)" "0x08 \<notin> set (map chr trace)" "length trace < 4096" unfolding assms(4) by code_simp+
  obtain m t1 where pr: "print_message env trace s = Some (s\<lparr>std_mem := m, std_tty := t1\<rparr>)" "printed (map chr trace) (std_tty s) t1"
      and keep: "same_outside env (std_mem s) m"
    using print_message_prints [OF assms(5) tr assms(3,1)] by blast
  have "param m params i = param (std_mem s) params i" if "i < 5" for i
    unfolding param_def
  proof (rule same_outside_load32 [OF keep], unfold no_overlap_def, intro allI impI)
    fix k :: nat assume "k < 4"
    then have "4 * i + k < 20" using that by simp
    then have "\<not> in_range (env_buffer env) 4096 (params + of_nat (4 * i + k))" using assms(7) unfolding no_overlap_def by blast
    then show "\<not> in_range (env_buffer env) 4096 (params + 4 * of_nat i + of_nat k)" by (simp add: add.assoc)
  qed
  with assms(6) have p: "param m params 0 = data" "param m params 1 = 1" "param m params 2 = of_nat (length xs)"
    "param m params 3 = stream" "param m params 4 = out" by simp_all
  have data: "holds m data xs"
    using assms(8,9) keep by (simp add: holds_def no_overlap_def same_outside_def)
  from fwrite_console [of "s\<lparr>std_mem := m, std_tty := t1\<rparr>" data xs stream] same_outside_stream [OF keep assms(2)] assms(10,11) pr(2)
  obtain t where t: "kaos_fwrite data 1 (of_nat (length xs)) stream (s\<lparr>std_mem := m, std_tty := t1\<rparr>) =
      Some (of_nat (length xs), s\<lparr>std_mem := m, std_tty := t\<rparr>)" "printed (shown xs) t1 t" using data by (auto simp: printed_def console_stream_def)
  have "syscall__generic_syscall_handler env SYS_CALL_FWRITE params s =
      Some (SYS_RET_NO_ERROR, s\<lparr>std_mem := store32 out (of_nat (length xs)) m, std_tty := t\<rparr>)"
    using pr(1) t(1) p by (simp add: syscall__generic_syscall_handler_def syscall__handle_fwrite_def assms(4)
        SYS_CALL_FWRITE_def SYS_CALL_FOPEN_def SYS_CALL_FREAD_def SYS_CALL_FCLOSE_def)
  moreover have "printed (map chr trace @ shown xs) (std_tty s) t" by (rule printed_append [OF pr(2) t(2)])
  ultimately show ?thesis using keep by blast
qed

section \<open>Properties\<close>

text \<open>
  Formatted output to a stream of the console: what the format stands for appears on the console, up to its first
  null character, the number of characters is returned, and nothing but the console and the buffer changes.
\<close>

theorem fprintf_prints:
  assumes "text_at env (std_mem s) fmt f" "expand strs (\<lambda>_. 0) 0 f args = Some xs" "0x08 \<notin> set xs" "length xs < 4096"
    and "tty_ok (std_tty s)" "console_stream env (std_mem s) stream" "strings_ok env (std_mem s) strs"
  shows "\<exists>m t. kaos_fprintf env stream fmt args s = Some (of_nat (length xs), s\<lparr>std_mem := m, std_tty := t\<rparr>) \<and>
     tty_ok t \<and> console t = con_puts (console_w (std_tty s)) (color (handle (std_tty s))) (shown xs) (console (std_tty s)) \<and>
     (\<forall>a. \<not> in_range (env_buffer env) 4096 a \<longrightarrow> m a = std_mem s a)"
  using vfprintf_expand [OF assms] by (auto simp: kaos_fprintf_def printed_def same_outside_def)


text \<open>
  The slot of an open file is not taken: after a file has been opened, the slot with its number is still the first
  one that counts as free, so the next file gets the same number and replaces its directory entry.
\<close>

theorem fopen_leaves_slot_free:
  assumes "kaos_fopen env p s = Some (f, s1)" "f \<noteq> 0" "kaos_strncmp (std_mem s) (env_lit env ''/dev/stdin'') p 11 \<noteq> 0"
    "kaos_strncmp (std_mem s) (env_lit env ''/dev/stdout'') p 12 \<noteq> 0" "kaos_strncmp (std_mem s) (env_lit env ''/dev/stderr'') p 12 \<noteq> 0"
  shows "\<exists>i. get_fileno (std_mem s1) f = of_nat i \<and> find (\<lambda>i. open_used s1 i = 0) [0..<MAX_OPEN_FILES] = Some i"
  using fopen_number [OF assms] fopen_keeps_used [OF assms(1)] by auto

text \<open>
  A system call that writes a string to the console: the trace of the call and then the string appear on the
  console, the number of characters written is stored for the caller, and otherwise only the buffer of the formatted
  output changes.
\<close>

theorem syscall_fwrite_prints:
  assumes "console_stream env (std_mem s) (kaos_stdout s)" "console_stream env (std_mem s) stream" "tty_ok (std_tty s)"
    and "trace = ''fwrite syscall called\<newline>''" "text_at env (std_mem s) (env_lit env trace) (map chr trace)"
    and "map (param (std_mem s) params) [0, 1, 2, 3, 4] = [data, 1, of_nat (length xs), stream, out]" "no_overlap (env_buffer env) 4096 params 20"
    and "text_at env (std_mem s) data xs" "0x08 \<notin> set xs" "length xs < 4294967296"
  shows "\<exists>m t. syscall__generic_syscall_handler env SYS_CALL_FWRITE params s =
       Some (SYS_RET_NO_ERROR, s\<lparr>std_mem := store32 out (of_nat (length xs)) m, std_tty := t\<rparr>) \<and>
     tty_ok t \<and> console t = con_puts (console_w (std_tty s)) (color (handle (std_tty s))) (map chr trace @ xs) (console (std_tty s)) \<and>
     (\<forall>a. \<not> in_range (env_buffer env) 4096 a \<longrightarrow> m a = std_mem s a)"
proof -
  have data: "holds (std_mem s) data xs" "no_overlap (env_buffer env) 4096 data (length xs)" "shown xs = xs"
    using assms(8) cstring_holds shown_id by (auto simp: text_at_def no_overlap_def)
  show ?thesis using syscall_fwrite_effect [OF assms(1-7) data(1,2) assms(9,10)] data(3)
    by (auto simp: printed_def same_outside_def)
qed

section \<open>An example\<close>

lemma store_string: "0 \<notin> set xs \<Longrightarrow> length xs < 4294967295 \<Longrightarrow> cstring_at (store_bytes p (xs @ [0]) m) p xs"
  by (auto simp: cstring_at_nth store_bytes_def in_range_def unat_of_nat_u32 nth_append in_set_conv_nth)

lemma store_string_other:
  "no_overlap q (length ys) p (length xs + 1) \<Longrightarrow> cstring_at m p xs \<Longrightarrow> cstring_at (store_bytes q ys m) p xs"
  by (erule cstring_at_frame) (simp add: store_bytes_def no_overlap_def)

lemma load32_store_other: "no_overlap q (length ys) p 4 \<Longrightarrow> load32 (store_bytes q ys m) p = load32 m p"
  by (rule load32_cong) (simp add: store_bytes_def no_overlap_def)

lemma search_base: "blk_search v len b j (Block False) = Some (u, b', j') \<Longrightarrow> b' = b"
proof (induction j arbitrary: u)
  case (Suc j)
  then show ?case
    by (cases "fits len (Suc j) \<or> Suc j \<le> 12") (auto simp: blk_search_block split: option.splits prod.splits)
qed (auto simp: blk_search_block)

lemma file_room: "\<exists>s b. buddy_allocator__alloc sizeof_FILE s = Some (SYS_RET_NO_ERROR, Some 0x10000000, b)"
proof -
  obtain s t where s: "buddy_inv s 1 t" "blk_of (buddy_infos s) t = Block False"
      "mm_available_block_count (buddy_mm s) = 32776" "card (free_frames (buddy_mm s)) = 27656"
    using buddy_boot by blast
  obtain u b j where search: "blk_search True 56 0x10000000 31 (Block False) = Some (u, b, j)"
    using blk_search_free [of True 56 "0x10000000" 31] by (metis not_None_eq prod.exhaust)
  have b: "b = 0x10000000" using search_base [OF search] .
  from search_size [OF search] have "j \<le> 31" "fits 56 j \<or> j = 12" by auto
  then have "j \<le> 12"
  proof (elim disjE)
    assume "fits 56 j"
    then have "(2 :: nat) ^ j < 2 ^ 8" using fits_iff [of 56 j] \<open>j \<le> 31\<close> by simp
    then have "j < 8" by (simp only: power_strict_increasing_iff)
    then show ?thesis by simp
  qed simp
  with s search b buddy_alloc_spec [OF s(1), of 56 u b j] show ?thesis by (fastforce simp: sizeof_FILE_def)
qed

text \<open>A disk whose root directory has a file \<^verbatim>\<open>NOTE.TXT\<close> of three bytes, and memory with the names.\<close>

definition note_bytes :: "u32 \<Rightarrow> nat \<Rightarrow> u8" where
  "note_bytes l i =
     (let xs = (if l = 1 then [0, 0, 0, 0, 0xFF, 0xFF]
        else if l = 5 then map chr ''NOTE    TXT'' @ [0x20] @ replicate 14 0 @ [2, 0, 3, 0, 0, 0]
        else if l = 10 then map chr ''abc''
        else [])
      in if i < length xs then xs ! i else 0)"

definition note_lit :: "string \<Rightarrow> u32" where
  "note_lit l = (if l = ''/dev/stdin'' then 0x3100 else if l = ''/dev/stdout'' then 0x3200 else if l = ''/dev/stderr'' then 0x3300 else 0x3500)"

definition note_env :: "ata_drive stdio_env" where
  "note_env = \<lparr>env_io = drive_io, env_lit = note_lit, env_cmp = 0x7000,
     env_buffer = 0x8000, env_junk = (\<lambda>_. 2)\<rparr>"

definition note_mem :: mem where
  "note_mem = store_bytes 0x3000 (map chr ''/NOTE.TXT'' @ [0]) (store_bytes 0x3100 (map chr ''/dev/stdin'' @ [0])
     (store_bytes 0x3200 (map chr ''/dev/stdout'' @ [0]) (store_bytes 0x3300 (map chr ''/dev/stderr'' @ [0])
     (store_bytes 0x3400 (map chr ''ok'' @ [0]) (store_bytes 0x3500 (map chr ''fwrite syscall called\<newline>'' @ [0])
     (store_bytes 0x3600 (map chr ''%s'' @ [0])
     (store32 0x4030 1 (store32 0x6000 0x3400 (store32 0x6004 1 (store32 0x6008 2 (store32 0x600C 0x4000 (store32 0x6010 0x6100 (\<lambda>_. 0)))))))))))))"

definition note_state :: "buddy_state \<Rightarrow> ata_drive stdio_state" where
  "note_state b = \<lparr>std_mem = note_mem, std_ports = drive_of note_bytes, std_tty = boot_console, std_buddy = b,
     std_fs = small_context, open_files = (\<lambda>_. load_dir_entry (\<lambda>_. 0) 0), open_used = initial_open_used,
     kaos_stdin = 0, kaos_stdout = 0x4000, kaos_stderr = 0\<rparr>"

lemma note_strings:
  "cstring_at note_mem 0x3000 (map chr ''/NOTE.TXT'')" "cstring_at note_mem 0x3100 (map chr ''/dev/stdin'')"
  "cstring_at note_mem 0x3200 (map chr ''/dev/stdout'')" "cstring_at note_mem 0x3300 (map chr ''/dev/stderr'')"
  "cstring_at note_mem 0x3400 (map chr ''ok'')" "cstring_at note_mem 0x3500 (map chr ''fwrite syscall called\<newline>'')"
  "cstring_at note_mem 0x3600 (map chr ''%s'')"
proof -
  have nz: "0 \<notin> set (map chr ''/NOTE.TXT'')" "0 \<notin> set (map chr ''/dev/stdin'')" "0 \<notin> set (map chr ''/dev/stdout'')"
    "0 \<notin> set (map chr ''/dev/stderr'')" "0 \<notin> set (map chr ''ok'')" "0 \<notin> set (map chr ''fwrite syscall called\<newline>'')"
    "0 \<notin> set (map chr ''%s'')" by code_simp+
  note rules = store_string store_string_other no_overlap_apart
  show "cstring_at note_mem 0x3000 (map chr ''/NOTE.TXT'')" unfolding note_mem_def by (intro rules nz) simp_all
  show "cstring_at note_mem 0x3100 (map chr ''/dev/stdin'')" unfolding note_mem_def by (intro rules nz) simp_all
  show "cstring_at note_mem 0x3200 (map chr ''/dev/stdout'')" unfolding note_mem_def by (intro rules nz) simp_all
  show "cstring_at note_mem 0x3300 (map chr ''/dev/stderr'')" unfolding note_mem_def by (intro rules nz) simp_all
  show "cstring_at note_mem 0x3400 (map chr ''ok'')" unfolding note_mem_def by (intro rules nz) simp_all
  show "cstring_at note_mem 0x3500 (map chr ''fwrite syscall called\<newline>'')" unfolding note_mem_def by (intro rules nz) simp_all
  show "cstring_at note_mem 0x3600 (map chr ''%s'')" unfolding note_mem_def by (intro rules nz) simp_all
qed

lemma note_path: "cstring_at note_mem 0x3000 ([chr CHR ''/''] @ map chr ''NOTE.TXT'')"
  using note_strings(1) by (simp only: append.simps list.map)

lemma note_words:
  "load32 note_mem 0x4030 = 1" "load32 note_mem 0x6000 = 0x3400" "load32 note_mem 0x6004 = 1" "load32 note_mem 0x6008 = 2"
  "load32 note_mem 0x600C = 0x4000" "load32 note_mem 0x6010 = 0x6100"
  unfolding note_mem_def
  by (simp_all add: load32_store_other load32_store32_other no_overlap_apart)

lemma note_stream: "get_fileno note_mem 0x4000 = 1"
  using note_words(1) by (simp add: get_fileno_def)

lemma note_params: "map (param note_mem 0x6000) [0, 1, 2, 3, 4] = [0x3400, 1, 2, 0x4000, 0x6100]"
  using note_words by (simp add: param_def)

lemma note_name: "short_name (map chr ''NOTE.TXT'') (map chr ''NOTE    TXT'')"
  unfolding short_name_def by (intro conjI exI [of _ "map chr ''NOTE''"] exI [of _ "map chr ''TXT''"]) code_simp+

lemma note_dir:
  "\<forall>b<11. note_bytes 5 b = map chr ''NOTE    TXT'' ! b" "note_bytes 5 0 \<noteq> 0" "note_bytes 5 0 \<noteq> 0xE5" "note_bytes 5 11 = 0x20"
  "note_bytes 5 20 = 0" "note_bytes 5 21 = 0" "note_bytes 5 26 = 2" "note_bytes 5 27 = 0" "note_bytes 5 28 = 3" "note_bytes 5 29 = 0"
  "note_bytes 5 30 = 0" "note_bytes 5 31 = 0" "note_bytes 1 4 = 0xFF" "note_bytes 1 5 = 0xFF"
  "note_bytes 10 0 = chr CHR ''a''" "note_bytes 10 1 = chr CHR ''b''" "note_bytes 10 2 = chr CHR ''c''"
  by code_simp+

lemma note_entry:
  "root_stop small_context note_bytes (map chr ''NOTE    TXT'') 0" "\<not> slot_end small_context note_bytes (root_cluster small_context) 0"
  "attributes (slot_entry small_context note_bytes (root_cluster small_context) 0) = 0x20"
  "CLUSTER_OF (slot_entry small_context note_bytes (root_cluster small_context) 0) = 2"
  "file_size (slot_entry small_context note_bytes (root_cluster small_context) 0) = 3"
  "chain_on_disk small_context note_bytes [2]"
proof -
  have disk: "cluster_on_disk small_context (root_cluster small_context 0)"
    using small_simps(1) by (simp add: root_cluster_def cluster_on_disk_def) (simp add: small_context_def)
  show "root_stop small_context note_bytes (map chr ''NOTE    TXT'') 0"
    using note_dir(1) note_dir(3) disk by (simp add: root_stop_def slot_stop_def slot_match_def slot_root)
  show "\<not> slot_end small_context note_bytes (root_cluster small_context) 0"
    using note_dir(2) by (simp add: slot_end_def slot_root)
  show "attributes (slot_entry small_context note_bytes (root_cluster small_context) 0) = 0x20"
    "CLUSTER_OF (slot_entry small_context note_bytes (root_cluster small_context) 0) = 2"
    "file_size (slot_entry small_context note_bytes (root_cluster small_context) 0) = 3"
    using note_dir by (simp_all add: slot_root_entry load_dir_entry_def CLUSTER_OF_def load16_def load32_def)
  have "fat_next small_context note_bytes 2 = 0xFFFF"
    using note_dir by (simp add: fat_next_def fat_byte_def load16_def) (simp add: small_context_def)
  then show "chain_on_disk small_context note_bytes [2]" by (simp add: chain_on_disk_def small_simps)
qed

lemma note_slot: "find (\<lambda>i. open_used (note_state b) i = 0) [0..<MAX_OPEN_FILES] = Some 3"
  by (auto simp: find_Some_iff note_state_def initial_open_used_def MAX_OPEN_FILES_def intro!: exI [of _ 3])

lemma note_names: "names_ok note_env note_mem"
  using note_strings(2-4) by (simp add: names_ok_def note_env_def note_lit_def)

lemma note_sel:
  "std_mem (note_state b) = note_mem" "std_ports (note_state b) = drive_of note_bytes" "std_fs (note_state b) = small_context"
  "std_buddy (note_state b) = b" "std_tty (note_state b) = boot_console"
  "env_io note_env = drive_io" "env_cmp note_env = 0x7000" "env_junk note_env = (\<lambda>_. 2)" "env_buffer note_env = 0x8000"
  by (simp_all add: note_state_def note_env_def)

lemma note_console:
  "console_stream note_env note_mem 0x4000" "text_at note_env note_mem 0x3400 (map chr ''ok'')"
  "text_at note_env note_mem 0x3500 (map chr ''fwrite syscall called\<newline>'')"
  "text_at note_env note_mem 0x3200 (map chr ''/dev/stdout'')"
  using note_stream note_strings(3,5,6) by (simp_all only: console_stream_def text_at_def note_sel) (simp_all add: no_overlap_apart)

theorem fprintf_prints_witness:
  "\<forall>b. \<exists>m t. kaos_fprintf note_env 0x4000 0x3600 [0x3200] (note_state b) = Some (11, (note_state b)\<lparr>std_mem := m, std_tty := t\<rparr>) \<and>
     console t = con_puts 80 0 (map chr ''/dev/stdout'') (console boot_console)"
proof
  fix b
  let ?xs = "map chr ''/dev/stdout''" and ?s = "note_state b" and ?strs = "[0x3200 \<mapsto> map chr ''/dev/stdout'']"
  have f: "text_at note_env note_mem 0x3600 [0x25, 0x73]"
    using note_strings(7) by (simp only: text_at_def note_sel) (simp add: no_overlap_apart chr_def)
  have ex: "expand ?strs (\<lambda>_. 0) 0 [0x25, 0x73] [0x3200] = Some ?xs"
    by (simp add: convert_arg_def del: list.map)
  have ch: "0x08 \<notin> set ?xs" "length ?xs < 4096" by code_simp+
  have st: "strings_ok note_env note_mem ?strs"
    using note_console(4) by (auto simp: strings_ok_def text_at_def simp del: list.map split: if_splits)
  have "\<exists>m t. kaos_fprintf note_env 0x4000 0x3600 [0x3200] ?s = Some (of_nat (length ?xs), ?s\<lparr>std_mem := m, std_tty := t\<rparr>) \<and>
     tty_ok t \<and> console t = con_puts (console_w (std_tty ?s)) (color (handle (std_tty ?s))) (shown ?xs) (console (std_tty ?s)) \<and>
     (\<forall>a. \<not> in_range (env_buffer note_env) 4096 a \<longrightarrow> m a = std_mem ?s a)"
    by (rule fprintf_prints [where f = "[0x25, 0x73]" and strs = ?strs])
      (unfold note_sel, (rule f ex ch st note_console boot_console_ok)+)
  moreover have "length ?xs = 11" by simp
  moreover have "shown ?xs = ?xs" using note_strings(3) cstring_holds by (intro shown_id) blast
  ultimately show "\<exists>m t. kaos_fprintf note_env 0x4000 0x3600 [0x3200] ?s = Some (11, ?s\<lparr>std_mem := m, std_tty := t\<rparr>) \<and>
     console t = con_puts 80 0 ?xs (console boot_console)"
    unfolding note_sel boot_console_ok(2,3) of_nat_numeral by (metis of_nat_numeral)
qed


theorem fopen_leaves_slot_free_witness:
  "\<exists>b s1. kaos_fopen note_env 0x3000 (note_state b) = Some (0x10000000, s1) \<and> get_fileno (std_mem s1) 0x10000000 = 3 \<and>
     find (\<lambda>i. open_used s1 i = 0) [0..<MAX_OPEN_FILES] = Some 3"
proof -
  obtain b b' where al: "buddy_allocator__alloc sizeof_FILE b = Some (SYS_RET_NO_ERROR, Some 0x10000000, b')" using file_room by blast
  have attr: "attributes (slot_entry small_context (sector_byte (drive_of note_bytes)) (root_cluster small_context) 0) AND FAT_ATTRIB_SUBDIR = 0"
    unfolding drive_of_simps note_entry by (simp add: FAT_ATTRIB_SUBDIR_def)
  have stop: "root_stop small_context (sector_byte (drive_of note_bytes)) (map chr ''NOTE    TXT'') 0"
    unfolding drive_of_simps by (rule note_entry(1))
  obtain m w where f: "fat16_find_file_entry drive_io (\<lambda>_. 2) 0x7000 small_context 0x3000 (note_mem, drive_of note_bytes) =
      Some (SYS_RET_NO_ERROR, Some (slot_entry small_context note_bytes (root_cluster small_context) 0), m, w)"
    using fat_on_ata.find_file_root_eq [OF drive_of_simps(1) note_name _ note_path stop attr small_disk_laws(4), of "\<lambda>_. 2"]
      note_entry(2) by (auto simp: slot_result_def)
  note ns = not_stream [OF note_names note_path note_name]
  obtain s1 where s1: "kaos_fopen note_env 0x3000 (note_state b) = Some (0x10000000, s1)" "get_fileno (std_mem s1) 0x10000000 = 3"
    using fopen_file [of "note_state b" "0x10000000" b' note_env "0x3000" _ m w 3] al ns f note_slot [of b] by (auto simp: note_sel)
  obtain i where "get_fileno (std_mem s1) 0x10000000 = of_nat i" "find (\<lambda>i. open_used s1 i = 0) [0..<MAX_OPEN_FILES] = Some i"
    using fopen_leaves_slot_free [OF s1(1)] ns by (auto simp: note_sel)
  moreover have "find (\<lambda>i. open_used s1 i = 0) [0..<MAX_OPEN_FILES] = Some 3"
    using note_slot [of b] fopen_keeps_used [OF s1(1)] by simp
  ultimately show ?thesis using s1 by blast
qed

theorem syscall_fwrite_prints_witness:
  "\<forall>b. \<exists>m t. syscall__generic_syscall_handler note_env SYS_CALL_FWRITE 0x6000 (note_state b) =
       Some (SYS_RET_NO_ERROR, (note_state b)\<lparr>std_mem := store32 0x6100 2 m, std_tty := t\<rparr>) \<and>
     console t = con_puts 80 0 (map chr ''fwrite syscall called\<newline>'' @ map chr ''ok'') (console boot_console)"
proof
  fix b
  let ?xs = "map chr ''ok''" and ?tr = "map chr ''fwrite syscall called\<newline>''" and ?s = "note_state b"
  have len: "length ?xs = 2" by simp
  have lit: "env_lit note_env ''fwrite syscall called\<newline>'' = 0x3500" by (simp add: note_env_def note_lit_def)
  have out: "kaos_stdout ?s = 0x4000" by (simp add: note_state_def)
  have over: "no_overlap 0x8000 4096 0x6000 20" by (simp add: no_overlap_apart)
  have ch: "0x08 \<notin> set ?xs" by code_simp
  have par: "map (param note_mem 0x6000) [0, 1, 2, 3, 4] = [0x3400, 1, of_nat (length ?xs), 0x4000, 0x6100]" using note_params by simp
  have "\<exists>m t. syscall__generic_syscall_handler note_env SYS_CALL_FWRITE 0x6000 ?s =
       Some (SYS_RET_NO_ERROR, ?s\<lparr>std_mem := store32 0x6100 (of_nat (length ?xs)) m, std_tty := t\<rparr>) \<and>
     tty_ok t \<and> console t = con_puts (console_w (std_tty ?s)) (color (handle (std_tty ?s))) (?tr @ ?xs) (console (std_tty ?s)) \<and>
     (\<forall>a. \<not> in_range (env_buffer note_env) 4096 a \<longrightarrow> m a = std_mem ?s a)"
    by (rule syscall_fwrite_prints [where data = "0x3400" and stream = "0x4000"])
      (unfold note_sel lit out, (rule note_console ch over boot_console_ok(1) par refl | simp)+)
  then show "\<exists>m t. syscall__generic_syscall_handler note_env SYS_CALL_FWRITE 0x6000 ?s =
       Some (SYS_RET_NO_ERROR, ?s\<lparr>std_mem := store32 0x6100 2 m, std_tty := t\<rparr>) \<and>
     console t = con_puts 80 0 (?tr @ ?xs) (console boot_console)"
    unfolding note_sel boot_console_ok(2,3) len of_nat_numeral by blast
qed

end
