(* ===== verification/Elf.thy ===== *)
theory Elf
  imports Stdio
begin

text \<open>
  The loader of executable files, \<^verbatim>\<open>src/kernel/elf\<close>: the checks of the header, the table of program headers and the
  segments, with the messages that the code prints on the way. The headers are records read from memory; the array of
  program headers of \<^verbatim>\<open>elf__load_elf_file\<close> is a place in memory that the model takes as a parameter, like the buffer of
  the formatted output.
\<close>

section \<open>The file format\<close>

definition ET_REL :: u32 where "ET_REL = 1"

definition EI_MAG0 :: u32 where "EI_MAG0 = 0"
definition EI_MAG1 :: u32 where "EI_MAG1 = 1"
definition EI_MAG2 :: u32 where "EI_MAG2 = 2"
definition EI_MAG3 :: u32 where "EI_MAG3 = 3"
definition EI_CLASS :: u32 where "EI_CLASS = 4"
definition EI_DATA :: u32 where "EI_DATA = 5"

definition ELFMAG0 :: u8 where "ELFMAG0 = 0x7F"
definition ELFMAG1 :: u8 where "ELFMAG1 = chr CHR ''E''"
definition ELFMAG2 :: u8 where "ELFMAG2 = chr CHR ''L''"
definition ELFMAG3 :: u8 where "ELFMAG3 = chr CHR ''F''"

definition ELFCLASSNONE :: u8 where "ELFCLASSNONE = 0"
definition ELFCLASS64 :: u8 where "ELFCLASS64 = 2"
definition ELFDATANONE :: u8 where "ELFDATANONE = 0"
definition ELFDATA2MSB :: u8 where "ELFDATA2MSB = 2"

lemmas elf_constants = EI_MAG0_def EI_MAG1_def EI_MAG2_def EI_MAG3_def EI_CLASS_def EI_DATA_def
  ELFMAG0_def ELFMAG1_def ELFMAG2_def ELFMAG3_def ELFCLASSNONE_def ELFCLASS64_def ELFDATANONE_def ELFDATA2MSB_def

record Elf32_Ehdr =
  e_ident :: "u8 list"
  e_type :: u16
  e_machine :: u16
  e_version :: u32
  e_entry :: u32
  e_phoff :: u32
  e_shoff :: u32
  e_flags :: u32
  e_ehsize :: u16
  e_phentsize :: u16
  e_phnum :: u16
  e_shentsize :: u16
  e_shnum :: u16
  e_shstrndx :: u16

definition load_ehdr :: "mem \<Rightarrow> u32 \<Rightarrow> Elf32_Ehdr" where
  "load_ehdr m p = \<lparr>e_ident = map (\<lambda>i. m (p + of_nat i)) [0..<16], e_type = load16 m (p + 16), e_machine = load16 m (p + 18),
     e_version = load32 m (p + 20), e_entry = load32 m (p + 24), e_phoff = load32 m (p + 28), e_shoff = load32 m (p + 32),
     e_flags = load32 m (p + 36), e_ehsize = load16 m (p + 40), e_phentsize = load16 m (p + 42), e_phnum = load16 m (p + 44),
     e_shentsize = load16 m (p + 46), e_shnum = load16 m (p + 48), e_shstrndx = load16 m (p + 50)\<rparr>"

record Elf32_Phdr =
  p_type :: u32
  p_offset :: u32
  p_vaddr :: u32
  p_paddr :: u32
  p_filesz :: u32
  p_memsz :: u32
  p_flags :: u32
  p_align :: u32

definition load_phdr :: "mem \<Rightarrow> u32 \<Rightarrow> Elf32_Phdr" where
  "load_phdr m p = \<lparr>p_type = load32 m p, p_offset = load32 m (p + 4), p_vaddr = load32 m (p + 8), p_paddr = load32 m (p + 12),
     p_filesz = load32 m (p + 16), p_memsz = load32 m (p + 20), p_flags = load32 m (p + 24), p_align = load32 m (p + 28)\<rparr>"

text \<open>The structure of the code has no field \<^verbatim>\<open>sh_info\<close>, so it has 36 bytes.\<close>

record Elf32_Shdr =
  sh_name :: u32
  sh_type :: u32
  sh_flags :: u32
  sh_addr :: u32
  sh_offset :: u32
  sh_size :: u32
  sh_link :: u32
  sh_addralign :: u32
  sh_entsize :: u32

definition load_shdr :: "mem \<Rightarrow> u32 \<Rightarrow> Elf32_Shdr" where
  "load_shdr m p = \<lparr>sh_name = load32 m p, sh_type = load32 m (p + 4), sh_flags = load32 m (p + 8), sh_addr = load32 m (p + 12),
     sh_offset = load32 m (p + 16), sh_size = load32 m (p + 20), sh_link = load32 m (p + 24), sh_addralign = load32 m (p + 28),
     sh_entsize = load32 m (p + 32)\<rparr>"

definition sizeof_phdr :: u32 where "sizeof_phdr = 32"
definition sizeof_shdr :: u32 where "sizeof_shdr = 36"

section \<open>Headers\<close>

text \<open>\<open>hdr\<close> is what the variable of the caller holds; it is filled only when the header is accepted.\<close>

definition elf__parse_header :: "Elf32_Ehdr \<Rightarrow> u32 \<Rightarrow> mem \<Rightarrow> SYS_RET \<times> Elf32_Ehdr" where
  "elf__parse_header hdr buffer m =
     (if \<not> (m (buffer + EI_MAG0) = ELFMAG0 \<and> m (buffer + EI_MAG1) = ELFMAG1 \<and> m (buffer + EI_MAG2) = ELFMAG2 \<and>
           m (buffer + EI_MAG3) = ELFMAG3) then (SYS_RET_MALFORMED, hdr)
      else if m (buffer + EI_CLASS) = ELFCLASS64 \<or> m (buffer + EI_CLASS) = ELFCLASSNONE then (SYS_RET_UNSUPPORTED, hdr)
      else if m (buffer + EI_DATA) = ELFDATA2MSB \<or> m (buffer + EI_DATA) = ELFDATANONE then (SYS_RET_UNSUPPORTED, hdr)
      else (SYS_RET_NO_ERROR, load_ehdr m buffer))"

text \<open>A table of \<open>n\<close> entries of \<open>len\<close> bytes, copied to an array whose elements have \<open>elem\<close> bytes.\<close>

definition copy_table :: "nat \<Rightarrow> u32 \<Rightarrow> u32 \<Rightarrow> u32 \<Rightarrow> u32 \<Rightarrow> mem \<Rightarrow> mem" where
  "copy_table n len elem out table m =
     fold (\<lambda>i m. snd (kaos_memcpy (out + of_nat i * elem) (table + of_nat i * len) len m)) [0..<n] m"

definition elf__parse_section_headers :: "u32 \<Rightarrow> Elf32_Ehdr \<Rightarrow> u32 \<Rightarrow> mem \<Rightarrow> SYS_RET \<times> mem" where
  "elf__parse_section_headers out_shdr elf_hdr buffer m =
     (SYS_RET_NO_ERROR, copy_table (unat (e_shnum elf_hdr)) (ucast (e_shentsize elf_hdr)) sizeof_shdr out_shdr (buffer + e_shoff elf_hdr) m)"

definition elf__parse_program_headers :: "u32 \<Rightarrow> Elf32_Ehdr \<Rightarrow> u32 \<Rightarrow> mem \<Rightarrow> SYS_RET \<times> mem" where
  "elf__parse_program_headers out_phdr elf_hdr buffer m =
     (SYS_RET_NO_ERROR, copy_table (unat (e_phnum elf_hdr)) (ucast (e_phentsize elf_hdr)) sizeof_phdr out_phdr (buffer + e_phoff elf_hdr) m)"

text \<open>The relocations are only counted; a section of them without an entry size divides by zero.\<close>

definition elf__process_relocation :: "Elf32_Shdr \<Rightarrow> SYS_RET option" where
  "elf__process_relocation shdr =
     (if sh_type shdr = ET_REL \<and> sh_entsize shdr = 0 then None else Some SYS_RET_NO_ERROR)"

section \<open>Loading\<close>

definition print_format :: "'w stdio_env \<Rightarrow> string \<Rightarrow> u32 list \<Rightarrow> 'w stdio_state \<Rightarrow> 'w stdio_state option" where
  "print_format env fmt args s = do { (_, s1) \<leftarrow> kaos_printf env (env_lit env fmt) args s; Some s1 }"

text \<open>The highest address that a segment reaches, and the segments in their places.\<close>

definition segments_high :: "nat \<Rightarrow> u32 \<Rightarrow> mem \<Rightarrow> u32" where
  "segments_high phnum phdrs m =
     fold (\<lambda>i mem_high. let phdr = load_phdr m (phdrs + of_nat i * sizeof_phdr); phdr_mem_high = p_vaddr phdr + p_memsz phdr
        in if phdr_mem_high > mem_high then phdr_mem_high else mem_high) [0..<phnum] 0"

definition copy_segments :: "nat \<Rightarrow> u32 \<Rightarrow> u32 \<Rightarrow> u32 \<Rightarrow> mem \<Rightarrow> mem" where
  "copy_segments phnum phdrs loc buffer m =
     fold (\<lambda>i m. let phdr = load_phdr m (phdrs + of_nat i * sizeof_phdr)
        in if p_type phdr = 1 then snd (kaos_memcpy (loc + p_vaddr phdr) (buffer + p_offset phdr) (p_filesz phdr) m) else m)
       [0..<phnum] m"

text \<open>
  \<open>hdr\<close> and \<open>loc0\<close> are what the variables hold before they are assigned and \<open>phdrs\<close> is the address of the array of 100
  program headers; a table that does not fit in it is written over the stack. Returned are the status, the location,
  the entry point and the state; a header that is not accepted does not stop the code.
\<close>

definition elf__load_elf_file ::
  "'w stdio_env \<Rightarrow> Elf32_Ehdr \<Rightarrow> u32 \<Rightarrow> u32 \<Rightarrow> u32 \<Rightarrow> 'w stdio_state \<Rightarrow> (SYS_RET \<times> u32 option \<times> u32 option \<times> 'w stdio_state) option" where
  "elf__load_elf_file env hdr0 phdrs loc0 buffer s = do {
     let (ret, hdr) = elf__parse_header hdr0 buffer (std_mem s);
     s1 \<leftarrow> (if ret \<noteq> SYS_RET_NO_ERROR then print_message env ''ELF header parse failed'' s else Some s);
     s2 \<leftarrow> print_format env ''Entry is here: 0x%x\<newline>'' [e_entry hdr] s1;
     let phoff = e_phoff hdr;
     let phnum = e_phnum hdr;
     s3 \<leftarrow> print_format env ''PH offset is 0x%x\<newline>'' [phoff] s2;
     s4 \<leftarrow> print_format env ''PH count: %d\<newline>'' [ucast phnum] s3;
     let m1 = snd (kaos_memset phdrs 0 100 (std_mem s4));
     if phnum \<noteq> 0 \<and> 32 * (unat phnum - 1) + unat (e_phentsize hdr) > 3200 then None
     else do {
       let (ret, m2) = elf__parse_program_headers phdrs hdr buffer m1;
       let s5 = s4\<lparr>std_mem := m2\<rparr>;
       s6 \<leftarrow> (if ret \<noteq> SYS_RET_NO_ERROR then print_message env ''Failed to parse PH headers'' s5 else Some s5);
       let mem_low = 0;
       let mem_high = segments_high (unat phnum) phdrs (std_mem s6);
       (ret, addr, b) \<leftarrow> buddy_allocator__alloc (mem_high - mem_low) (std_buddy s6);
       let loc = (case addr of None \<Rightarrow> loc0 | Some a \<Rightarrow> a);
       s7 \<leftarrow> print_format env ''Loaded at: %#x\<newline>'' [loc] (s6\<lparr>std_buddy := b\<rparr>);
       if ret \<noteq> SYS_RET_NO_ERROR then do {
         s8 \<leftarrow> print_message env ''Memory alloc error'' s7;
         Some (ret, None, None, s8)
       } else do {
         let entry = loc + e_entry hdr;
         let s8 = s7\<lparr>std_mem := copy_segments (unat phnum) phdrs loc buffer (std_mem s7)\<rparr>;
         Some (ret, Some loc, Some entry, s8)
       }
     }
   }"

section \<open>Sequences of copies\<close>

text \<open>Copies of \<open>k\<close> bytes from \<open>s\<close> to \<open>d\<close>, one after the other, that touch neither the sources nor each other.\<close>

definition copies :: "(u32 \<times> u32 \<times> nat) list \<Rightarrow> mem \<Rightarrow> mem" where
  "copies = fold (\<lambda>(d, s, k). memcpy_loop k d s)"

definition copies_ok :: "(u32 \<times> u32 \<times> nat) list \<Rightarrow> bool" where
  "copies_ok L \<longleftrightarrow> (\<forall>(d, s, k) \<in> set L. k < 4294967296) \<and>
     (\<forall>(d, s, k) \<in> set L. \<forall>(d', s', k') \<in> set L. no_overlap d k s' k') \<and>
     sorted_wrt (\<lambda>(d, s, k) (d', s', k'). no_overlap d' k' d k) L"

definition outside_copies :: "(u32 \<times> u32 \<times> nat) list \<Rightarrow> u32 \<Rightarrow> bool" where
  "outside_copies L a \<longleftrightarrow> (\<forall>(d, s, k) \<in> set L. \<not> in_range d k a)"

lemma copies_ok_append: "copies_ok (L @ M) \<Longrightarrow> copies_ok L"
  by (simp add: copies_ok_def sorted_wrt_append split_beta)

lemma copies_result:
  assumes "copies_ok L"
  shows "(\<forall>a. outside_copies L a \<longrightarrow> copies L m a = m a) \<and>
     (\<forall>(d, s, k) \<in> set L. \<forall>i<k. copies L m (d + of_nat i) = m (s + of_nat i))"
  using assms
proof (induction L arbitrary: m)
  case (Cons x L)
  obtain d0 s0 k0 where x: "x = (d0, s0, k0)" by (cases x)
  have ok: "copies_ok L" "k0 < 4294967296" "no_overlap d0 k0 s0 k0" using Cons.prems x unfolding copies_ok_def by auto
  let ?m = "memcpy_loop k0 d0 s0 m"
  have m: "?m a = (if in_range d0 k0 a then m (s0 + (a - d0)) else m a)" for a
    using ok by (intro memcpy_loop_apply) auto
  have step: "copies (x # L) m = copies L ?m" by (simp add: copies_def x)
  have out: "copies (x # L) m a = ?m a" if "outside_copies L a" for a
    using Cons.IH [OF ok(1), of ?m] that by (simp add: step)
  have "copies (x # L) m a = m a" if "outside_copies (x # L) a" for a
    using out [of a] m [of a] that by (simp add: outside_copies_def x)
  moreover have "copies (x # L) m (d0 + of_nat i) = m (s0 + of_nat i)" if "i < k0" for i
  proof -
    have "outside_copies L (d0 + of_nat i)" using Cons.prems x that unfolding copies_ok_def outside_copies_def no_overlap_def by auto
    moreover have "?m (d0 + of_nat i) = m (s0 + of_nat i)" using m that ok(2) by (simp add: in_range_def unat_of_nat_u32)
    ultimately show ?thesis using out by simp
  qed
  moreover have "copies (x # L) m (d + of_nat i) = m (s + of_nat i)" if "(d, s, k) \<in> set L" "i < k" for d s k i
  proof -
    have "no_overlap d0 k0 s k" using Cons.prems x that(1) unfolding copies_ok_def by auto
    then have "?m (s + of_nat i) = m (s + of_nat i)" using that(2) m by (simp add: no_overlap_def)
    then show ?thesis using Cons.IH [OF ok(1), of ?m] that by (auto simp: step)
  qed
  ultimately show ?case by (auto simp: x)
qed (simp add: copies_def)

lemma copies_apply:
  assumes "copies_ok L"
  shows "outside_copies L a \<Longrightarrow> copies L m a = m a"
    and "(d, s, k) \<in> set L \<Longrightarrow> i < k \<Longrightarrow> copies L m (d + of_nat i) = m (s + of_nat i)"
  using copies_result [OF assms, of m] by auto

section \<open>The program headers\<close>

lemma load_phdr_cong:
  assumes "\<And>i. i < 32 \<Longrightarrow> m (p + of_nat i) = m' (q + of_nat i)"
  shows "load_phdr m p = load_phdr m' q"
proof -
  have "load32 m (p + of_nat j) = load32 m' (q + of_nat j)" if "j + 4 \<le> 32" for j
    using that assms [of "j + i" for i] by (intro load32_cong) (simp add: add.assoc)
  from this [of 0] this [of 4] this [of 8] this [of 12] this [of 16] this [of 20] this [of 24] this [of 28]
  show ?thesis by (simp add: load_phdr_def)
qed

lemma copy_table_spec:
  assumes "no_overlap out (32 * n) table (32 * n)" "n \<le> 100"
  shows "i < n \<Longrightarrow> load_phdr (copy_table n 32 sizeof_phdr out table m) (out + of_nat i * sizeof_phdr) = load_phdr m (table + of_nat i * 32)"
    and "\<not> in_range out (32 * n) a \<Longrightarrow> copy_table n 32 sizeof_phdr out table m a = m a"
proof -
  let ?L = "map (\<lambda>i. (out + of_nat (32 * i), table + of_nat (32 * i), 32)) [0..<n]"
  have run: "copy_table n 32 sizeof_phdr out table m = copies ?L m"
    by (simp add: copy_table_def copies_def fold_map comp_def kaos_memcpy_def sizeof_phdr_def mult.commute)
  have src: "no_overlap (out + of_nat (32 * i)) 32 (table + of_nat (32 * j)) 32" if "i < n" "j < n" for i j
    unfolding no_overlap_def
  proof (intro allI impI notI)
    fix k :: nat assume k: "k < 32" and hit: "in_range (out + of_nat (32 * i)) 32 (table + of_nat (32 * j) + of_nat k)"
    have "in_range out (32 * n) (table + of_nat (32 * j) + of_nat k)"
      using in_range_part [OF hit, of "32 * n"] that assms(2) by auto
    moreover have "32 * j + k < 32 * n" using that k by auto
    then have "\<not> in_range out (32 * n) (table + of_nat (32 * j + k))" using assms(1) unfolding no_overlap_def by blast
    ultimately show False by (simp add: add.assoc)
  qed
  have apart: "no_overlap (out + of_nat (32 * j)) 32 (out + of_nat (32 * i)) 32" if "i < j" "j < n" for i j
    unfolding no_overlap_def
  proof (intro allI impI)
    fix k :: nat assume k: "k < 32"
    have "\<not> in_range (out + of_nat (32 * i + 32 * (j - i))) 32 (out + of_nat (32 * i) + of_nat k)"
      by (rule in_range_before) (use that k assms(2) in auto)
    moreover have "32 * i + 32 * (j - i) = 32 * j" using that by auto
    ultimately show "\<not> in_range (out + of_nat (32 * j)) 32 (out + of_nat (32 * i) + of_nat k)" by simp
  qed
  have ok: "copies_ok ?L"
    unfolding copies_ok_def using src apart by (auto simp: sorted_wrt_map sorted_wrt_iff_nth_less simp del: of_nat_mult)
  show "load_phdr (copy_table n 32 sizeof_phdr out table m) (out + of_nat i * sizeof_phdr) = load_phdr m (table + of_nat i * 32)" if "i < n"
  proof (rule load_phdr_cong)
    fix k :: nat assume "k < 32"
    then have "copies ?L m (out + of_nat (32 * i) + of_nat k) = m (table + of_nat (32 * i) + of_nat k)"
      using that by (intro copies_apply(2) [OF ok]) auto
    then show "copy_table n 32 sizeof_phdr out table m (out + of_nat i * sizeof_phdr + of_nat k) = m (table + of_nat i * 32 + of_nat k)"
      unfolding run by (simp add: sizeof_phdr_def mult.commute)
  qed
  show "copy_table n 32 sizeof_phdr out table m a = m a" if "\<not> in_range out (32 * n) a"
    unfolding run
  proof (rule copies_apply(1) [OF ok])
    have "\<not> in_range (out + of_nat (32 * x)) 32 a" if "x < n" for x
    proof
      assume "in_range (out + of_nat (32 * x)) 32 a"
      then have "in_range out (32 * n) a" by (rule in_range_part) (use that assms(2) in simp_all)
      with \<open>\<not> in_range out (32 * n) a\<close> show False ..
    qed
    then show "outside_copies ?L a" by (auto simp: outside_copies_def simp del: of_nat_mult)
  qed
qed

section \<open>The segments\<close>

text \<open>The loadable segments as copies; \<open>ph\<close> gives the program headers.\<close>

definition segment_list :: "(nat \<Rightarrow> Elf32_Phdr) \<Rightarrow> nat \<Rightarrow> u32 \<Rightarrow> u32 \<Rightarrow> (u32 \<times> u32 \<times> nat) list" where
  "segment_list ph n loc buffer =
     map (\<lambda>i. (loc + p_vaddr (ph i), buffer + p_offset (ph i), unat (p_filesz (ph i)))) (filter (\<lambda>i. p_type (ph i) = 1) [0..<n])"

lemma copy_segments_eq:
  assumes "\<And>i. i < n \<Longrightarrow> load_phdr m (phdrs + of_nat i * sizeof_phdr) = ph i"
    and "\<And>d s k. (d, s, k) \<in> set (segment_list ph n loc buffer) \<Longrightarrow> no_overlap d k phdrs 3200" "n \<le> 100"
    and "copies_ok (segment_list ph n loc buffer)"
  shows "copy_segments n phdrs loc buffer m = copies (segment_list ph n loc buffer) m"
  using assms
proof (induction n)
  case 0
  then show ?case by (simp add: copy_segments_def segment_list_def copies_def)
next
  case (Suc n)
  let ?L = "segment_list ph n loc buffer" and ?x = "(loc + p_vaddr (ph n), buffer + p_offset (ph n), unat (p_filesz (ph n)))"
  have Suc_list: "segment_list ph (Suc n) loc buffer = ?L @ (if p_type (ph n) = 1 then [?x] else [])"
    by (simp add: segment_list_def)
  have ok: "copies_ok ?L" using Suc.prems(4) unfolding Suc_list by (rule copies_ok_append)
  have IH: "copy_segments n phdrs loc buffer m = copies ?L m"
    by (rule Suc.IH) (use Suc.prems ok in \<open>auto simp: Suc_list\<close>)
  have "load_phdr (copies ?L m) (phdrs + of_nat n * sizeof_phdr) = load_phdr m (phdrs + of_nat n * sizeof_phdr)"
  proof (rule load_phdr_cong, rule copies_apply(1) [OF ok])
    fix j :: nat assume "j < 32"
    then have "32 * n + j < 3200" using Suc.prems(3) by simp
    then have "\<not> in_range d k (phdrs + of_nat (32 * n + j))" if "(d, s, k) \<in> set ?L" for d s k
      using Suc.prems(2) [of d s k] that unfolding Suc_list no_overlap_def by auto
    then show "outside_copies ?L (phdrs + of_nat n * sizeof_phdr + of_nat j)"
      by (auto simp: outside_copies_def sizeof_phdr_def mult.commute add.assoc)
  qed
  with Suc.prems(1) have "load_phdr (copies ?L m) (phdrs + of_nat n * sizeof_phdr) = ph n" by simp
  then have "copy_segments (Suc n) phdrs loc buffer m =
      (if p_type (ph n) = 1 then memcpy_loop (unat (p_filesz (ph n))) (loc + p_vaddr (ph n)) (buffer + p_offset (ph n)) (copies ?L m) else copies ?L m)"
    using IH by (simp add: copy_segments_def Let_def kaos_memcpy_def)
  then show ?case by (simp add: Suc_list copies_def)
qed

lemma segments_high_eq:
  assumes "\<And>i. i < n \<Longrightarrow> load_phdr m (phdrs + of_nat i * sizeof_phdr) = ph i"
  shows "segments_high n phdrs m = fold (\<lambda>i. max (p_vaddr (ph i) + p_memsz (ph i))) [0..<n] 0"
  unfolding segments_high_def by (rule fold_cong) (auto simp: assms Let_def max_def fun_eq_iff)

section \<open>Messages\<close>

text \<open>A format among the literals.\<close>

definition format_at :: "'w stdio_env \<Rightarrow> mem \<Rightarrow> string \<Rightarrow> bool" where
  "format_at env m fmt \<longleftrightarrow> text_at env m (env_lit env fmt) (map chr fmt)"

lemma ndigits_bound:
  assumes "0 \<le> a" "a < 2 ^ 63" "2 \<le> radix"
  shows "ndigits radix a \<le> 63"
proof -
  obtain k where k: "a < radix ^ k" "if a = 0 then k = 0 else 0 < k \<and> radix ^ (k - 1) \<le> a"
    using count_digits_spec [OF assms(1,3), of 0] by blast
  show ?thesis
  proof (cases "a = 0")
    case True
    then show ?thesis using assms(3) by (simp add: ndigits.simps)
  next
    case False
    with k assms have "k = ndigits radix a" by (intro ndigits_unique) auto
    moreover have "k \<le> 63" using False k(2) by (intro digits_bound [OF _ assms(2,3)]) simp
    ultimately show ?thesis by simp
  qed
qed

lemma number_chars_bound:
  assumes "\<bar>a\<bar> < 2 ^ 63" "radix = 10 \<or> radix = 16"
  shows "length (number_chars radix a) \<le> 64" "0x08 \<notin> set (number_chars radix a)"
  using ndigits_bound [of "\<bar>a\<bar>" radix] number_chars_ok(2) [of radix] assms
  by (auto simp: number_chars_def sign_chars_def)

lemma print_format_prints:
  assumes "format_at env (std_mem s) fmt" "expand (\<lambda>_. None) (\<lambda>_. 0) 0 (map chr fmt) args = Some xs" "0x08 \<notin> set xs" "length xs < 4096"
    and "tty_ok (std_tty s)" "console_stream env (std_mem s) (kaos_stdout s)"
  shows "\<exists>m t. print_format env fmt args s = Some (s\<lparr>std_mem := m, std_tty := t\<rparr>) \<and> tty_ok t \<and> same_outside env (std_mem s) m"
  using vfprintf_expand [OF assms(1) [unfolded format_at_def] assms(2-6)]
  unfolding print_format_def kaos_printf_def by (fastforce simp: strings_ok_def printed_def)

lemma expand_append:
  "0x25 \<notin> set pre \<Longrightarrow> expand strs old (i + length pre) f args = Some xs \<Longrightarrow> expand strs old i (pre @ f) args = Some (pre @ xs)"
  by (induction pre arbitrary: i) auto

text \<open>A format with one number.\<close>

definition number_format :: "string \<Rightarrow> bool" where
  "number_format fmt \<longleftrightarrow> (\<exists>pre spec post. map chr fmt = pre @ spec @ post \<and> spec \<in> {[0x25, 0x64], [0x25, 0x78], [0x25, 0x23, 0x78]} \<and>
     0x25 \<notin> set (pre @ post) \<and> 0x08 \<notin> set (pre @ post) \<and> length fmt < 1000)"

lemma expand_number:
  assumes "number_format fmt"
  shows "\<exists>xs. expand (\<lambda>_. None) (\<lambda>_. 0) 0 (map chr fmt) [w] = Some xs \<and> 0x08 \<notin> set xs \<and> length xs < 4096"
proof -
  obtain pre spec post where f: "map chr fmt = pre @ spec @ post" "spec \<in> {[0x25, 0x64], [0x25, 0x78], [0x25, 0x23, 0x78]}"
      "0x25 \<notin> set pre" "0x25 \<notin> set post" "0x08 \<notin> set pre" "0x08 \<notin> set post" "length fmt < 1000"
    using assms by (auto simp: number_format_def)
  have len: "length pre + length post < 1000" using f(7) arg_cong [OF f(1), of length] by simp
  have w: "\<bar>sint w\<bar> < 2 ^ 63" using sint_greater_eq [of w] sint_less [of w] by (simp add: abs_less_iff)
  note b = number_chars_bound [OF w, of 10] number_chars_bound [of "\<bar>sint w\<bar>" 16]
  have "\<exists>zs. expand (\<lambda>_. None) (\<lambda>_. 0) (0 + length pre) (spec @ post) [w] = Some (zs @ post) \<and> 0x08 \<notin> set zs \<and> length zs \<le> 66"
    using f(2) b w expand_text [OF f(4)] by (auto simp: convert_arg_def)
  then obtain zs where zs: "expand (\<lambda>_. None) (\<lambda>_. 0) (0 + length pre) (spec @ post) [w] = Some (zs @ post)" "0x08 \<notin> set zs" "length zs \<le> 66"
    by blast
  show ?thesis using f(1,5,6) len zs(2,3) expand_append [OF f(3) zs(1)] by auto
qed

lemma print_number_format:
  assumes "number_format fmt" "format_at env (std_mem s) fmt" "tty_ok (std_tty s)" "console_stream env (std_mem s) (kaos_stdout s)"
  shows "\<exists>m t. print_format env fmt [w] s = Some (s\<lparr>std_mem := m, std_tty := t\<rparr>) \<and> tty_ok t \<and> same_outside env (std_mem s) m"
  using expand_number [OF assms(1), of w] print_format_prints [OF assms(2) _ _ _ assms(3,4)] by blast

lemma number_formatI:
  "map chr fmt = pre @ spec @ post \<Longrightarrow> spec \<in> {[0x25, 0x64], [0x25, 0x78], [0x25, 0x23, 0x78]} \<Longrightarrow>
     0x25 \<notin> set (pre @ post) \<Longrightarrow> 0x08 \<notin> set (pre @ post) \<Longrightarrow> length fmt < 1000 \<Longrightarrow> number_format fmt"
  unfolding number_format_def by blast

definition loader_formats :: "string set" where
  "loader_formats = {''Entry is here: 0x%x\<newline>'', ''PH offset is 0x%x\<newline>'', ''PH count: %d\<newline>'', ''Loaded at: %#x\<newline>''}"

lemma loader_number_formats: "fmt \<in> loader_formats \<Longrightarrow> number_format fmt"
proof -
  have "number_format ''Entry is here: 0x%x\<newline>''"
    by (rule number_formatI [of _ "map chr ''Entry is here: 0x''" "[0x25, 0x78]" "[0x0A]"]; code_simp)
  moreover have "number_format ''PH offset is 0x%x\<newline>''"
    by (rule number_formatI [of _ "map chr ''PH offset is 0x''" "[0x25, 0x78]" "[0x0A]"]; code_simp)
  moreover have "number_format ''PH count: %d\<newline>''"
    by (rule number_formatI [of _ "map chr ''PH count: ''" "[0x25, 0x64]" "[0x0A]"]; code_simp)
  moreover have "number_format ''Loaded at: %#x\<newline>''"
    by (rule number_formatI [of _ "map chr ''Loaded at: ''" "[0x25, 0x23, 0x78]" "[0x0A]"]; code_simp)
  ultimately show "fmt \<in> loader_formats \<Longrightarrow> number_format fmt" unfolding loader_formats_def by blast
qed

section \<open>Properties\<close>

text \<open>
  What the loader prints and how: its formats are literals, the standard output is the console, and neither lies in the
  array of program headers.
\<close>

definition loader_console :: "'w stdio_env \<Rightarrow> u32 \<Rightarrow> 'w stdio_state \<Rightarrow> bool" where
  "loader_console env phdrs s \<longleftrightarrow> tty_ok (std_tty s) \<and> console_stream env (std_mem s) (kaos_stdout s) \<and>
     no_overlap phdrs 3200 (kaos_stdout s + 48) 4 \<and>
     (\<forall>fmt \<in> loader_formats. format_at env (std_mem s) fmt \<and> no_overlap phdrs 3200 (env_lit env fmt) (length fmt + 1))"

lemma loader_console_outside:
  assumes "loader_console env phdrs s" "\<And>a. \<not> in_range (env_buffer env) 4096 a \<Longrightarrow> \<not> in_range phdrs 3200 a \<Longrightarrow> m a = std_mem s a" "tty_ok t"
  shows "loader_console env phdrs (s\<lparr>std_mem := m, std_tty := t\<rparr>)"
proof -
  have str: "cstring_at m p xs"
    if "cstring_at (std_mem s) p xs" "no_overlap (env_buffer env) 4096 p (length xs + 1)" "no_overlap phdrs 3200 p (length xs + 1)" for p xs
    using that(1) by (rule cstring_at_frame) (use that(2,3) in \<open>auto simp: no_overlap_def intro!: assms(2)\<close>)
  have "get_fileno m (kaos_stdout s) = get_fileno (std_mem s) (kaos_stdout s)" unfolding get_fileno_def
    by (rule load32_cong) (use assms(1) in \<open>auto simp: no_overlap_def loader_console_def console_stream_def intro!: assms(2)\<close>)
  then show ?thesis using assms(1,3) str [of _ "map chr fmt" for fmt]
    by (auto simp: loader_console_def console_stream_def format_at_def text_at_def)
qed

lemma loader_prints:
  assumes "loader_console env phdrs s" "fmt \<in> loader_formats"
  shows "\<exists>m t. print_format env fmt [w] s = Some (s\<lparr>std_mem := m, std_tty := t\<rparr>) \<and>
     loader_console env phdrs (s\<lparr>std_mem := m, std_tty := t\<rparr>) \<and> same_outside env (std_mem s) m"
proof -
  have "format_at env (std_mem s) fmt" "tty_ok (std_tty s)" "console_stream env (std_mem s) (kaos_stdout s)"
    using assms by (auto simp: loader_console_def)
  from print_number_format [OF loader_number_formats [OF assms(2)] this, of w] obtain m t where
    mt: "print_format env fmt [w] s = Some (s\<lparr>std_mem := m, std_tty := t\<rparr>)" "tty_ok t" "same_outside env (std_mem s) m" by blast
  then have "loader_console env phdrs (s\<lparr>std_mem := m, std_tty := t\<rparr>)"
    by (intro loader_console_outside [OF assms(1)]) (auto simp: same_outside_def)
  with mt show ?thesis by blast
qed

lemma phdr_outside:
  assumes "no_overlap d k p 3200" "n \<le> 100" "i < n" "j < 32"
  shows "\<not> in_range d k (p + of_nat i * sizeof_phdr + of_nat j)"
proof -
  have "32 * i + j < 3200" using assms by simp
  then have "\<not> in_range d k (p + of_nat (32 * i + j))" using assms(1) unfolding no_overlap_def by blast
  then show ?thesis by (simp add: sizeof_phdr_def mult.commute add.assoc)
qed

lemma file_outside:
  assumes "no_overlap d k buffer fsize" "unat off + len \<le> fsize" "j < len"
  shows "\<not> in_range d k (buffer + off + of_nat j)"
proof -
  have "unat off + j < fsize" using assms by simp
  then have "\<not> in_range d k (buffer + of_nat (unat off + j))" using assms(1) unfolding no_overlap_def by blast
  then show ?thesis by (simp add: add.assoc)
qed

lemma program_headers_spec:
  fixes m3 :: mem
  assumes "no_overlap phdrs 3200 buffer fsize" "unat off + 32 * n \<le> fsize" "n \<le> 100"
  defines "m5 \<equiv> copy_table n 32 sizeof_phdr phdrs (buffer + off) (snd (kaos_memset phdrs 0 100 m3))"
  shows "(\<And>j. j < 32 * n \<Longrightarrow> m3 (buffer + off + of_nat j) = m (buffer + off + of_nat j)) \<Longrightarrow> i < n \<Longrightarrow>
       load_phdr m5 (phdrs + of_nat i * sizeof_phdr) = load_phdr m (buffer + off + of_nat i * 32)"
    and "\<not> in_range phdrs 3200 a \<Longrightarrow> m5 a = m3 a"
proof -
  let ?m4 = "snd (kaos_memset phdrs 0 100 m3)"
  have m4: "?m4 a = m3 a" if "\<not> in_range phdrs 3200 a" for a
    using that by (simp add: kaos_memset_def memset_loop_apply in_range_def)
  have tab: "\<not> in_range phdrs 3200 (buffer + off + of_nat j)" if "j < 32 * n" for j
    by (rule file_outside [OF assms(1,2) that])
  have over: "no_overlap phdrs (32 * n) (buffer + off) (32 * n)" unfolding no_overlap_def
  proof (intro allI impI notI)
    fix j assume "j < 32 * n" "in_range phdrs (32 * n) (buffer + off + of_nat j)"
    with tab [of j] assms(3) show False by (simp add: in_range_def)
  qed
  show "m5 a = m3 a" if "\<not> in_range phdrs 3200 a"
    using copy_table_spec(2) [OF over assms(3), of a ?m4] m4 [OF that] that assms(3) by (auto simp: m5_def in_range_def)
  assume eq: "\<And>j. j < 32 * n \<Longrightarrow> m3 (buffer + off + of_nat j) = m (buffer + off + of_nat j)" and i: "i < n"
  have "load_phdr ?m4 (buffer + off + of_nat i * 32) = load_phdr m (buffer + off + of_nat i * 32)"
  proof (rule load_phdr_cong)
    fix j :: nat assume "j < 32"
    then have j: "32 * i + j < 32 * n" using i by simp
    have a: "buffer + off + of_nat i * 32 + of_nat j = buffer + off + of_nat (32 * i + j)" by (simp add: mult.commute add.assoc)
    show "?m4 (buffer + off + of_nat i * 32 + of_nat j) = m (buffer + off + of_nat i * 32 + of_nat j)"
      unfolding a using m4 [OF tab [OF j]] eq [OF j] by simp
  qed
  then show "load_phdr m5 (phdrs + of_nat i * sizeof_phdr) = load_phdr m (buffer + off + of_nat i * 32)"
    using copy_table_spec(1) [OF over assms(3) i, of ?m4] by (simp add: m5_def)
qed

text \<open>A header that the parser accepts, with a table of program headers and segments inside the file.\<close>

definition elf_image :: "mem \<Rightarrow> u32 \<Rightarrow> nat \<Rightarrow> bool" where
  "elf_image m buffer fsize \<longleftrightarrow>
     (let h = load_ehdr m buffer; n = unat (e_phnum h); ph = (\<lambda>i. load_phdr m (buffer + e_phoff h + of_nat i * 32))
      in m buffer = 0x7F \<and> m (buffer + 1) = chr CHR ''E'' \<and> m (buffer + 2) = chr CHR ''L'' \<and> m (buffer + 3) = chr CHR ''F'' \<and> m (buffer + 4) \<notin> {0, 2} \<and> m (buffer + 5) \<notin> {0, 2} \<and>
         e_phentsize h = 32 \<and> n \<le> 100 \<and> fsize < 4294967296 \<and> unat (e_phoff h) + 32 * n \<le> fsize \<and>
         (\<forall>i<n. p_type (ph i) = 1 \<longrightarrow> unat (p_offset (ph i)) + unat (p_filesz (ph i)) \<le> fsize))"

lemma elf_image_parts:
  assumes "elf_image m buffer fsize" "h = load_ehdr m buffer" "n = unat (e_phnum h)" "ph = (\<lambda>i. load_phdr m (buffer + e_phoff h + of_nat i * 32))"
  shows "e_phentsize h = 32" "n \<le> 100" "unat (e_phoff h) + 32 * n \<le> fsize"
    "i < n \<Longrightarrow> p_type (ph i) = 1 \<Longrightarrow> unat (p_offset (ph i)) + unat (p_filesz (ph i)) \<le> fsize"
proof -
  note parts = assms(1) [unfolded elf_image_def Let_def, folded assms(2), folded assms(3)]
  show "e_phentsize h = 32" using parts by (elim conjE)
  show "n \<le> 100" using parts by (elim conjE)
  show "unat (e_phoff h) + 32 * n \<le> fsize" using parts by (elim conjE)
  show "i < n \<Longrightarrow> p_type (ph i) = 1 \<Longrightarrow> unat (p_offset (ph i)) + unat (p_filesz (ph i)) \<le> fsize"
    using parts unfolding assms(4) by (elim conjE) (drule spec [of _ i], simp)
qed

lemma accepted: "elf_image m buffer fsize \<Longrightarrow> elf__parse_header hdr0 buffer m = (SYS_RET_NO_ERROR, load_ehdr m buffer)"
  by (simp add: elf_image_def Let_def elf__parse_header_def elf_constants)

text \<open>
  C34: loading an executable file: for an accepted image in memory whose segments go to separate places of the block that
  the allocator returns, the loader returns that block and the entry point in it, every loadable segment has its bytes
  in its place, and otherwise only the buffer of the formatted output and the array of program headers change; so the
  part of a segment that the file does not hold is not cleared.
\<close>

theorem elf_load_segments:
  assumes "elf_image (std_mem s) buffer fsize" "loader_console env phdrs s"
    and "h = load_ehdr (std_mem s) buffer" "n = unat (e_phnum h)" "ph = (\<lambda>i. load_phdr (std_mem s) (buffer + e_phoff h + of_nat i * 32))"
    and "buddy_allocator__alloc (fold (\<lambda>i. max (p_vaddr (ph i) + p_memsz (ph i))) [0..<n] 0) (std_buddy s) = Some (SYS_RET_NO_ERROR, Some loc, b)"
    and "no_overlap (env_buffer env) 4096 buffer fsize" "no_overlap phdrs 3200 buffer fsize" "no_overlap (env_buffer env) 4096 phdrs 3200"
    and "L = segment_list ph n loc buffer" "copies_ok L" "\<forall>(d, _, k) \<in> set L. no_overlap d k phdrs 3200"
  shows "\<exists>s'. elf__load_elf_file env hdr0 phdrs loc0 buffer s = Some (SYS_RET_NO_ERROR, Some loc, Some (loc + e_entry h), s') \<and>
     (\<forall>i<n. p_type (ph i) = 1 \<longrightarrow> (\<forall>k < unat (p_filesz (ph i)).
        std_mem s' (loc + p_vaddr (ph i) + of_nat k) = std_mem s (buffer + p_offset (ph i) + of_nat k))) \<and>
     (\<forall>a. outside_copies L a \<and> \<not> in_range (env_buffer env) 4096 a \<and> \<not> in_range phdrs 3200 a \<longrightarrow> std_mem s' a = std_mem s a)"
proof -
  note img = elf_image_parts [OF assms(1,3,4,5)]
  have fit: "\<not> (e_phnum h \<noteq> 0 \<and> 32 * (unat (e_phnum h) - 1) + unat (e_phentsize h) > 3200)" using img(1,2) assms(4) by auto
  have F: "''Entry is here: 0x%x\<newline>'' \<in> loader_formats" "''PH offset is 0x%x\<newline>'' \<in> loader_formats"
    "''PH count: %d\<newline>'' \<in> loader_formats" "''Loaded at: %#x\<newline>'' \<in> loader_formats" unfolding loader_formats_def by (simp_all only: insert_iff refl simp_thms)
  obtain m1 t1 where 1: "print_format env ''Entry is here: 0x%x\<newline>'' [e_entry h] s = Some (s\<lparr>std_mem := m1, std_tty := t1\<rparr>)"
      "loader_console env phdrs (s\<lparr>std_mem := m1, std_tty := t1\<rparr>)" "same_outside env (std_mem s) m1" using loader_prints [OF assms(2) F(1)] by blast
  obtain m2 t2 where 2: "print_format env ''PH offset is 0x%x\<newline>'' [e_phoff h] (s\<lparr>std_mem := m1, std_tty := t1\<rparr>) = Some (s\<lparr>std_mem := m2, std_tty := t2\<rparr>)"
      "loader_console env phdrs (s\<lparr>std_mem := m2, std_tty := t2\<rparr>)" "same_outside env m1 m2" using loader_prints [OF 1(2) F(2), of "e_phoff h"] by auto
  obtain m3 t3 where 3: "print_format env ''PH count: %d\<newline>'' [ucast (e_phnum h)] (s\<lparr>std_mem := m2, std_tty := t2\<rparr>) = Some (s\<lparr>std_mem := m3, std_tty := t3\<rparr>)"
      "loader_console env phdrs (s\<lparr>std_mem := m3, std_tty := t3\<rparr>)" "same_outside env m2 m3" using loader_prints [OF 2(2) F(3), of "ucast (e_phnum h)"] by auto
  have out3: "same_outside env (std_mem s) m3" using 1(3) 2(3) 3(3) same_outside_trans by blast
  define m5 where "m5 = copy_table n 32 sizeof_phdr phdrs (buffer + e_phoff h) (snd (kaos_memset phdrs 0 100 m3))"
  have m3_file: "m3 (buffer + e_phoff h + of_nat j) = std_mem s (buffer + e_phoff h + of_nat j)" if "j < 32 * n" for j
    using file_outside [OF assms(7) img(3) that] out3 by (simp add: same_outside_def)
  have m5: "m5 a = m3 a" if "\<not> in_range phdrs 3200 a" for a
    unfolding m5_def by (rule program_headers_spec(2) [OF assms(8) img(3,2) that])
  have ph5: "load_phdr m5 (phdrs + of_nat i * sizeof_phdr) = ph i" if "i < n" for i
    unfolding m5_def assms(5) by (rule program_headers_spec(1) [OF assms(8) img(3,2)]) (use m3_file that in auto)
  have high: "segments_high n phdrs m5 = fold (\<lambda>i. max (p_vaddr (ph i) + p_memsz (ph i))) [0..<n] 0"
    by (rule segments_high_eq) (rule ph5)
  let ?s5 = "s\<lparr>std_tty := t3, std_mem := m5, std_buddy := b\<rparr>"
  have "loader_console env phdrs (s\<lparr>std_mem := m5, std_tty := t3\<rparr>)"
    using loader_console_outside [OF 3(2), of m5 t3] m5 3(2) by (auto simp: loader_console_def)
  then have "loader_console env phdrs ?s5" by (simp add: loader_console_def)
  from loader_prints [OF this F(4), of loc] obtain m6 t6 where 6:
    "print_format env ''Loaded at: %#x\<newline>'' [loc] ?s5 = Some (?s5\<lparr>std_mem := m6, std_tty := t6\<rparr>)" "same_outside env m5 m6" by auto
  have m6: "m6 a = std_mem s a" if "\<not> in_range (env_buffer env) 4096 a" "\<not> in_range phdrs 3200 a" for a
    using that m5 6(2) out3 by (simp add: same_outside_def)
  have ph6: "load_phdr m6 (phdrs + of_nat i * sizeof_phdr) = ph i" if "i < n" for i
    using ph5 [OF that] 6(2) phdr_outside [OF assms(9) img(2) that]
      load_phdr_cong [of m6 "phdrs + of_nat i * sizeof_phdr" m5 "phdrs + of_nat i * sizeof_phdr"] by (simp add: same_outside_def)
  have seg: "copy_segments n phdrs loc buffer m6 = copies L m6"
    unfolding assms(10) by (rule copy_segments_eq [OF ph6 _ img(2)]) (use assms(11,12) in \<open>auto simp: assms(10)\<close>)
  have run: "elf__load_elf_file env hdr0 phdrs loc0 buffer s =
      Some (SYS_RET_NO_ERROR, Some loc, Some (loc + e_entry h), ?s5\<lparr>std_mem := copies L m6, std_tty := t6\<rparr>)"
    unfolding elf__load_elf_file_def accepted [OF assms(1)] assms(3) [symmetric]
    using 1(1) 2(1) 3(1) fit 6(1) assms(6) high seg img(1)
    by (simp add: Let_def elf__parse_program_headers_def assms(4) [symmetric] m5_def [symmetric] cong: if_cong)
  have "copies L m6 (loc + p_vaddr (ph i) + of_nat k) = std_mem s (buffer + p_offset (ph i) + of_nat k)"
    if "i < n" "p_type (ph i) = 1" "k < unat (p_filesz (ph i))" for i k
  proof -
    have "(loc + p_vaddr (ph i), buffer + p_offset (ph i), unat (p_filesz (ph i))) \<in> set L" using that by (auto simp: assms(10) segment_list_def)
    then have "copies L m6 (loc + p_vaddr (ph i) + of_nat k) = m6 (buffer + p_offset (ph i) + of_nat k)" using that(3) by (rule copies_apply(2) [OF assms(11)])
    also have "\<dots> = std_mem s (buffer + p_offset (ph i) + of_nat k)"
      using file_outside [OF assms(7) img(4) [OF that(1,2)] that(3)] file_outside [OF assms(8) img(4) [OF that(1,2)] that(3)] by (rule m6)
    finally show ?thesis .
  qed
  moreover have "copies L m6 a = std_mem s a" if "outside_copies L a" "\<not> in_range (env_buffer env) 4096 a" "\<not> in_range phdrs 3200 a" for a
    using copies_apply(1) [OF assms(11) that(1), of m6] m6 [OF that(2,3)] by simp
  ultimately show ?thesis using run by auto
qed

section \<open>An example\<close>

text \<open>An image with one segment of four bytes in the file and eight in memory.\<close>

definition elf_bytes :: "u8 list" where
  "elf_bytes = [0x7F, 0x45, 0x4C, 0x46, 1, 1, 1, 0, 0, 0, 0, 0, 0, 0, 0, 0, 2, 0, 3, 0, 1, 0, 0, 0, 48, 0, 0, 0, 52, 0, 0, 0, 0, 0, 0, 0,
     0, 0, 0, 0, 52, 0, 32, 0, 1, 0, 0, 0, 0, 0, 0, 0,
     1, 0, 0, 0, 84, 0, 0, 0, 48, 0, 0, 0, 0, 0, 0, 0, 4, 0, 0, 0, 8, 0, 0, 0, 5, 0, 0, 0, 0, 0, 0, 0, 0xAA, 0xBB, 0xCC, 0xDD]"

definition elf_lit :: "string \<Rightarrow> u32" where
  "elf_lit l = (if l = ''Entry is here: 0x%x\<newline>'' then 0x3000 else if l = ''PH offset is 0x%x\<newline>'' then 0x3100
     else if l = ''PH count: %d\<newline>'' then 0x3200 else 0x3300)"

definition elf_mem :: mem where
  "elf_mem = store_bytes 0x20000 elf_bytes (store_bytes 0x3000 (map chr ''Entry is here: 0x%x\<newline>'' @ [0])
     (store_bytes 0x3100 (map chr ''PH offset is 0x%x\<newline>'' @ [0]) (store_bytes 0x3200 (map chr ''PH count: %d\<newline>'' @ [0])
     (store_bytes 0x3300 (map chr ''Loaded at: %#x\<newline>'' @ [0]) (store32 0x4030 1 (\<lambda>_. 0))))))"

definition elf_env :: "ata_drive stdio_env" where
  "elf_env = note_env\<lparr>env_lit := elf_lit\<rparr>"

definition elf_state :: "buddy_state \<Rightarrow> ata_drive stdio_state" where
  "elf_state b = (note_state b)\<lparr>std_mem := elf_mem\<rparr>"

lemma elf_sel:
  "std_mem (elf_state b) = elf_mem" "std_buddy (elf_state b) = b" "std_tty (elf_state b) = boot_console" "kaos_stdout (elf_state b) = 0x4000"
  "env_buffer elf_env = 0x8000" "env_lit elf_env = elf_lit"
  by (simp_all add: elf_state_def elf_env_def note_state_def note_env_def)

lemma elf_words:
  "load32 elf_mem 0x20018 = 48" "load32 elf_mem 0x2001C = 52" "load16 elf_mem 0x2002A = 32" "load16 elf_mem 0x2002C = 1"
  "load32 elf_mem 0x20034 = 1" "load32 elf_mem 0x20038 = 84" "load32 elf_mem 0x2003C = 48" "load32 elf_mem 0x20044 = 4"
  "load32 elf_mem 0x20048 = 8"
  by (simp_all add: load32_def load16_def elf_mem_def store_bytes_def in_range_def elf_bytes_def)

lemma elf_magic:
  "elf_mem 0x20000 = 0x7F" "elf_mem 0x20001 = chr CHR ''E''" "elf_mem 0x20002 = chr CHR ''L''" "elf_mem 0x20003 = chr CHR ''F''"
  "elf_mem 0x20004 = 1" "elf_mem 0x20005 = 1"
  "elf_mem 0x20054 = 0xAA" "elf_mem 0x20055 = 0xBB" "elf_mem 0x20056 = 0xCC" "elf_mem 0x20057 = 0xDD"
  by (simp_all add: elf_mem_def store_bytes_def in_range_def elf_bytes_def chr_def)

lemma elf_headers:
  "e_phoff (load_ehdr elf_mem 0x20000) = 52" "e_phentsize (load_ehdr elf_mem 0x20000) = 32" "e_phnum (load_ehdr elf_mem 0x20000) = 1"
  "e_entry (load_ehdr elf_mem 0x20000) = 48"
  "p_type (load_phdr elf_mem 0x20034) = 1" "p_offset (load_phdr elf_mem 0x20034) = 84" "p_vaddr (load_phdr elf_mem 0x20034) = 48"
  "p_filesz (load_phdr elf_mem 0x20034) = 4" "p_memsz (load_phdr elf_mem 0x20034) = 8"
  using elf_words by (simp_all add: load_ehdr_def load_phdr_def)

lemma elf_sample: "elf_image elf_mem 0x20000 88"
  using elf_magic by (simp add: elf_image_def Let_def elf_headers)

lemma elf_console: "loader_console elf_env 0xA000 (elf_state b)"
proof -
  have nz: "0 \<notin> set (map chr ''Entry is here: 0x%x\<newline>'')" "0 \<notin> set (map chr ''PH offset is 0x%x\<newline>'')"
    "0 \<notin> set (map chr ''PH count: %d\<newline>'')" "0 \<notin> set (map chr ''Loaded at: %#x\<newline>'')" by code_simp+
  note rules = store_string store_string_other no_overlap_apart
  have s0: "cstring_at elf_mem 0x3000 (map chr ''Entry is here: 0x%x\<newline>'')"
    unfolding elf_mem_def by (intro rules nz) (simp_all add: elf_bytes_def)
  have s1: "cstring_at elf_mem 0x3100 (map chr ''PH offset is 0x%x\<newline>'')"
    unfolding elf_mem_def by (intro rules nz) (simp_all add: elf_bytes_def)
  have s2: "cstring_at elf_mem 0x3200 (map chr ''PH count: %d\<newline>'')"
    unfolding elf_mem_def by (intro rules nz) (simp_all add: elf_bytes_def)
  have s3: "cstring_at elf_mem 0x3300 (map chr ''Loaded at: %#x\<newline>'')"
    unfolding elf_mem_def by (intro rules nz) (simp_all add: elf_bytes_def)
  have lit: "elf_lit ''Entry is here: 0x%x\<newline>'' = 0x3000" "elf_lit ''PH offset is 0x%x\<newline>'' = 0x3100"
    "elf_lit ''PH count: %d\<newline>'' = 0x3200" "elf_lit ''Loaded at: %#x\<newline>'' = 0x3300" by (simp_all add: elf_lit_def)
  have "load32 elf_mem 0x4030 = 1"
    by (simp add: elf_mem_def load32_store_other no_overlap_apart elf_bytes_def)
  moreover have "format_at elf_env elf_mem fmt \<and> no_overlap 0xA000 3200 (elf_lit fmt) (length fmt + 1)" if "fmt \<in> loader_formats" for fmt
    using that unfolding loader_formats_def format_at_def text_at_def elf_sel
    by (elim insertE emptyE) (simp_all only: lit s0 s1 s2 s3 simp_thms, simp_all add: no_overlap_apart)
  ultimately show ?thesis using boot_console_ok(1)
    by (simp add: loader_console_def elf_sel console_stream_def get_fileno_def no_overlap_apart)
qed

theorem elf_load_segments_witness:
  "\<exists>b s'. elf__load_elf_file elf_env (load_ehdr (\<lambda>_. 0) 0) 0xA000 0 0x20000 (elf_state b) =
       Some (SYS_RET_NO_ERROR, Some 0x10000000, Some 0x10000030, s') \<and>
     map (std_mem s') [0x10000030, 0x10000031, 0x10000032, 0x10000033] = [0xAA, 0xBB, 0xCC, 0xDD]"
proof -
  obtain b b' where al: "buddy_allocator__alloc sizeof_FILE b = Some (SYS_RET_NO_ERROR, Some 0x10000000, b')" using file_room by blast
  let ?h = "load_ehdr elf_mem 0x20000" and ?ph = "\<lambda>i. load_phdr elf_mem (0x20000 + e_phoff (load_ehdr elf_mem 0x20000) + of_nat i * 32)"
  have ph: "?ph 0 = load_phdr elf_mem 0x20034" by (simp add: elf_headers)
  have high: "fold (\<lambda>i. max (p_vaddr (?ph i) + p_memsz (?ph i))) [0..<1] 0 = sizeof_FILE"
    by (simp add: ph elf_headers sizeof_FILE_def)
  have L: "segment_list ?ph 1 0x10000000 0x20000 = [(0x10000030, 0x20054, 4)]"
    by (simp add: segment_list_def ph elf_headers)
  have ok: "copies_ok (segment_list ?ph 1 0x10000000 0x20000)"
    unfolding L copies_ok_def by (simp add: no_overlap_apart)
  have seg: "\<forall>(d, _, k) \<in> set (segment_list ?ph 1 0x10000000 0x20000). no_overlap d k 0xA000 3200"
    unfolding L by (simp add: no_overlap_apart)
  have over: "no_overlap 0x8000 4096 0x20000 88" "no_overlap 0xA000 3200 0x20000 88" "no_overlap 0x8000 4096 0xA000 3200"
    by (simp_all add: no_overlap_apart)
  have n: "1 = unat (e_phnum ?h)" by (simp add: elf_headers)
  have "\<exists>s'. elf__load_elf_file elf_env (load_ehdr (\<lambda>_. 0) 0) 0xA000 0 0x20000 (elf_state b) =
       Some (SYS_RET_NO_ERROR, Some 0x10000000, Some (0x10000000 + e_entry ?h), s') \<and>
     (\<forall>i<1. p_type (?ph i) = 1 \<longrightarrow> (\<forall>k < unat (p_filesz (?ph i)).
        std_mem s' (0x10000000 + p_vaddr (?ph i) + of_nat k) = std_mem (elf_state b) (0x20000 + p_offset (?ph i) + of_nat k))) \<and>
     (\<forall>a. outside_copies (segment_list ?ph 1 0x10000000 0x20000) a \<and> \<not> in_range (env_buffer elf_env) 4096 a \<and> \<not> in_range 0xA000 3200 a \<longrightarrow>
        std_mem s' a = std_mem (elf_state b) a)"
    by (rule elf_load_segments [where fsize = 88 and b = b'])
      (unfold elf_sel high, (rule elf_sample elf_console n al over ok seg refl)+)
  then obtain s' where s': "elf__load_elf_file elf_env (load_ehdr (\<lambda>_. 0) 0) 0xA000 0 0x20000 (elf_state b) =
      Some (SYS_RET_NO_ERROR, Some 0x10000000, Some (0x10000000 + e_entry ?h), s')"
      "\<forall>i<1. p_type (?ph i) = 1 \<longrightarrow> (\<forall>k < unat (p_filesz (?ph i)).
        std_mem s' (0x10000000 + p_vaddr (?ph i) + of_nat k) = elf_mem (0x20000 + p_offset (?ph i) + of_nat k))"
    unfolding elf_sel by blast
  have "std_mem s' (0x10000030 + of_nat k) = elf_mem (0x20054 + of_nat k)" if "k < 4" for k
    using s'(2) that unfolding elf_headers(1) by (simp add: elf_headers)
  from this [of 0] this [of 1] this [of 2] this [of 3] s'(1) elf_magic show ?thesis
    by (intro exI [of _ b] exI [of _ s']) (simp add: elf_headers)
qed

end
