(* ===== verification/Pci.thy ===== *)
theory Pci
  imports Ide
begin

text \<open>
  The configuration space of the PCI bus, \<^verbatim>\<open>src/kernel/dev/pci.c\<close> and
  \<^verbatim>\<open>src/kernel/arch/i686/dev/pci/pci.c\<close>.
\<close>

section \<open>Configuration space\<close>

definition arch_pci_configReadDWord :: "'w port_io \<Rightarrow> u8 \<Rightarrow> u8 \<Rightarrow> u8 \<Rightarrow> u8 \<Rightarrow> 'w \<Rightarrow> u32 \<times> 'w" where
  "arch_pci_configReadDWord io bus slot func offset w =
     (let address = push_bit 16 (ucast bus) OR push_bit 11 (ucast slot) OR push_bit 8 (ucast func) OR
                    ucast (offset AND 0xFC) OR 0x80000000
      in inl io 0xCFC (outl io 0xCF8 address w))"

definition arch_pci_configReadWord :: "'w port_io \<Rightarrow> u8 \<Rightarrow> u8 \<Rightarrow> u8 \<Rightarrow> u8 \<Rightarrow> 'w \<Rightarrow> u16 \<times> 'w" where
  "arch_pci_configReadWord io bus slot func offset w =
     (let (res, w1) = arch_pci_configReadDWord io bus slot func offset w
      in (ucast (drop_bit (unat ((offset AND 2) * 8)) res AND 0xFFFF), w1))"

definition pci_configReadWord :: "'w port_io \<Rightarrow> u8 \<Rightarrow> u8 \<Rightarrow> u8 \<Rightarrow> u8 \<Rightarrow> 'w \<Rightarrow> u16 \<times> 'w" where
  "pci_configReadWord io bus slot func offset w = arch_pci_configReadWord io bus slot func offset w"

definition pci_configReadDWord :: "'w port_io \<Rightarrow> u8 \<Rightarrow> u8 \<Rightarrow> u8 \<Rightarrow> u8 \<Rightarrow> 'w \<Rightarrow> u32 \<times> 'w" where
  "pci_configReadDWord io bus slot func offset w = arch_pci_configReadDWord io bus slot func offset w"

definition pci_getVendorId :: "'w port_io \<Rightarrow> u8 \<Rightarrow> u8 \<Rightarrow> u8 \<Rightarrow> 'w \<Rightarrow> u16 \<times> 'w" where
  "pci_getVendorId io bus slot func w = pci_configReadWord io bus slot func 0x0 w"

definition pci_getDeviceId :: "'w port_io \<Rightarrow> u8 \<Rightarrow> u8 \<Rightarrow> u8 \<Rightarrow> 'w \<Rightarrow> u16 \<times> 'w" where
  "pci_getDeviceId io bus slot func w = pci_configReadWord io bus slot func 0x2 w"

definition pci_getStatus :: "'w port_io \<Rightarrow> u8 \<Rightarrow> u8 \<Rightarrow> u8 \<Rightarrow> 'w \<Rightarrow> u16 \<times> 'w" where
  "pci_getStatus io bus slot func w = pci_configReadWord io bus slot func 0x6 w"

definition pci_getClassCode :: "'w port_io \<Rightarrow> u8 \<Rightarrow> u8 \<Rightarrow> u8 \<Rightarrow> 'w \<Rightarrow> u8 \<times> 'w" where
  "pci_getClassCode io bus slot func w =
     (let (v, w1) = pci_configReadWord io bus slot func 0xA w in (ucast (drop_bit 8 v), w1))"

definition pci_getSubclassCode :: "'w port_io \<Rightarrow> u8 \<Rightarrow> u8 \<Rightarrow> u8 \<Rightarrow> 'w \<Rightarrow> u8 \<times> 'w" where
  "pci_getSubclassCode io bus slot func w =
     (let (v, w1) = pci_configReadWord io bus slot func 0xA w in (ucast (v AND 0xFF), w1))"

definition pci_getProgInterface :: "'w port_io \<Rightarrow> u8 \<Rightarrow> u8 \<Rightarrow> u8 \<Rightarrow> 'w \<Rightarrow> u8 \<times> 'w" where
  "pci_getProgInterface io bus slot func w =
     (let (v, w1) = pci_configReadWord io bus slot func 0x8 w in (ucast (drop_bit 8 v), w1))"

definition pci_checkFunctionExists :: "'w port_io \<Rightarrow> u8 \<Rightarrow> u8 \<Rightarrow> u8 \<Rightarrow> 'w \<Rightarrow> bool \<times> 'w" where
  "pci_checkFunctionExists io bus slot func w =
     (let (v, w1) = pci_getVendorId io bus slot func w in (if v = 0xFFFF then False else True, w1))"

definition pci_checkDeviceExists :: "'w port_io \<Rightarrow> u8 \<Rightarrow> u8 \<Rightarrow> 'w \<Rightarrow> bool \<times> 'w" where
  "pci_checkDeviceExists io bus slot w = pci_checkFunctionExists io bus slot 0 w"

section \<open>Properties\<close>

text \<open>
  What the host bridge promises: after an address with the enable bit is written to the address port, the data
  port reads as the register that the fields of the address select.
\<close>

locale host_bridge =
  fixes io :: "'w port_io" and cfg :: "nat \<Rightarrow> nat \<Rightarrow> nat \<Rightarrow> nat \<Rightarrow> u32"
  assumes data_port: "bit a 31 \<Longrightarrow> fst (in32 io 0xCFC (out32 io 0xCF8 a w)) =
     cfg (unat (take_bit 8 (drop_bit 16 a))) (unat (take_bit 5 (drop_bit 11 a)))
       (unat (take_bit 3 (drop_bit 8 a))) (unat (take_bit 6 (drop_bit 2 a)))"

lemma bit_bounds:
  "(slot :: u8) < 32 \<Longrightarrow> bit slot k \<Longrightarrow> k < 5" "(slot :: u8) < 8 \<Longrightarrow> bit slot k \<Longrightarrow> k < 3"
proof -
  assume "slot < 32" "bit slot k"
  then have "unat slot < 2 ^ 5" by (simp add: word_less_nat_alt)
  then have "take_bit 5 slot = slot" by (simp add: word_unat_eq_iff unsigned_take_bit_eq take_bit_nat_eq_self)
  then show "k < 5" using \<open>bit slot k\<close> by (metis bit_take_bit_iff)
next
  assume "slot < 8" "bit slot k"
  then have "unat slot < 2 ^ 3" by (simp add: word_less_nat_alt)
  then have "take_bit 3 slot = slot" by (simp add: word_unat_eq_iff unsigned_take_bit_eq take_bit_nat_eq_self)
  then show "k < 3" using \<open>bit slot k\<close> by (metis bit_take_bit_iff)
qed

definition pci_address :: "u8 \<Rightarrow> u8 \<Rightarrow> u8 \<Rightarrow> u8 \<Rightarrow> u32" where
  "pci_address bus slot func offset = push_bit 16 (ucast bus) OR push_bit 11 (ucast slot) OR push_bit 8 (ucast func) OR
     ucast (offset AND 0xFC) OR 0x80000000"

lemma bit_address:
  "bit (pci_address bus slot func offset) k \<longleftrightarrow> k < 32 \<and> (16 \<le> k \<and> bit bus (k - 16) \<or> 11 \<le> k \<and> bit slot (k - 11) \<or>
     8 \<le> k \<and> bit func (k - 8) \<or> 2 \<le> k \<and> bit offset k \<or> k = 31)"
proof -
  have c: "(0xFC :: u8) = NOT (mask 2)" by (simp add: mask_eq_exp_minus_1)
  have top: "bit (0x80000000 :: u32) k \<longleftrightarrow> k = 31"
    using bit_exp_iff [of 31 k, where 'a = u32] by (cases "k = 31") auto
  have off: "bit (offset AND NOT (mask 2)) j \<longleftrightarrow> 2 \<le> j \<and> bit offset j" for j
    using bit_imp_le_length [of offset j] by (auto simp: bit_and_iff bit_not_iff bit_mask_iff)
  show ?thesis
  proof (cases "k < 32")
    case True
    then have "k - 16 < 32" "k - 11 < 32" "k - 8 < 32" by simp_all
    with True show ?thesis unfolding pci_address_def c
      by (simp add: bit_or_iff bit_push_bit_iff bit_unsigned_iff off top)
  next
    case False
    then show ?thesis using bit_imp_le_length [of "pci_address bus slot func offset" k] by auto
  qed
qed

lemma address_fields:
  assumes "slot < 32" "func < 8"
  shows "bit (pci_address bus slot func offset) 31"
    "unat (take_bit 8 (drop_bit 16 (pci_address bus slot func offset))) = unat bus"
    "unat (take_bit 5 (drop_bit 11 (pci_address bus slot func offset))) = unat slot"
    "unat (take_bit 3 (drop_bit 8 (pci_address bus slot func offset))) = unat func"
    "unat (take_bit 6 (drop_bit 2 (pci_address bus slot func offset))) = unat (drop_bit 2 offset)"
proof -
  note len = bit_imp_le_length [of bus] bit_imp_le_length [of slot] bit_imp_le_length [of func] bit_imp_le_length [of offset]
  note small = bit_bounds(1) [OF assms(1)] bit_bounds(2) [OF assms(2)]
  show "bit (pci_address bus slot func offset) 31" by (simp add: bit_address)
  have eqs: "take_bit 8 (drop_bit 16 (pci_address bus slot func offset)) = ucast bus"
    "take_bit 5 (drop_bit 11 (pci_address bus slot func offset)) = ucast slot"
    "take_bit 3 (drop_bit 8 (pci_address bus slot func offset)) = ucast func"
    "take_bit 6 (drop_bit 2 (pci_address bus slot func offset)) = ucast (drop_bit 2 offset)"
    by (rule bit_word_eqI,
        use small len in \<open>fastforce simp: bit_take_bit_iff bit_drop_bit_eq bit_address bit_unsigned_iff\<close>)+
  have u: "unat (ucast b :: u32) = unat b" for b :: u8
    using unsigned_less [of b, where 'a = nat] by (simp add: unsigned_ucast_eq unsigned_take_bit_eq take_bit_nat_eq_self)
  show "unat (take_bit 8 (drop_bit 16 (pci_address bus slot func offset))) = unat bus"
    "unat (take_bit 5 (drop_bit 11 (pci_address bus slot func offset))) = unat slot"
    "unat (take_bit 3 (drop_bit 8 (pci_address bus slot func offset))) = unat func"
    "unat (take_bit 6 (drop_bit 2 (pci_address bus slot func offset))) = unat (drop_bit 2 offset)"
    unfolding eqs u by (rule refl)+
qed

lemma byte_masks: "(0xFFFF :: u32) = mask 16" "(0xFF :: u16) = mask 8"
  by (simp_all add: mask_eq_exp_minus_1)

context host_bridge
begin

lemma config_dword:
  assumes "slot < 32" "func < 8"
  shows "fst (arch_pci_configReadDWord io bus slot func off w) = cfg (unat bus) (unat slot) (unat func) (unat (drop_bit 2 off))"
  using data_port address_fields [OF assms, of bus off]
  by (simp add: arch_pci_configReadDWord_def inl_def outl_def flip: pci_address_def)

lemma config_word:
  assumes "slot < 32" "func < 8"
  shows "fst (pci_configReadWord io bus slot func off w) =
    (let v = cfg (unat bus) (unat slot) (unat func) (unat (drop_bit 2 off)) in if bit off 1 then ucast (drop_bit 16 v) else ucast v)"
proof -
  have half: "unat ((off AND 2) * 8) = (if bit off 1 then 16 else 0)"
  proof -
    have "off AND 2 = (if bit off 1 then 2 else 0)" using and_exp_eq_0_iff_not_bit [of off 1]
      by (auto intro!: bit_word_eqI simp: bit_and_iff bit_exp_iff [of 1, simplified])
    then show ?thesis by simp
  qed
  show ?thesis using config_dword [OF assms, of bus off w]
    by (auto simp: pci_configReadWord_def arch_pci_configReadWord_def Let_def case_prod_unfold half byte_masks intro!: bit_word_eqI simp: bit_simps)
qed

lemma function_exists:
  assumes "slot < 32" "func < 8"
  shows "fst (pci_checkFunctionExists io bus slot func w) \<longleftrightarrow> ucast (cfg (unat bus) (unat slot) (unat func) 0) \<noteq> (0xFFFF :: u16)"
  using config_word [OF assms, of bus 0 w]
  by (simp add: pci_checkFunctionExists_def pci_getVendorId_def case_prod_unfold Let_def)

end

text \<open>
  C29: reading the configuration space gives the register of the addressed function: the double word, its half for
  a word access, and the class and subclass from the upper half of register 2; a function is there exactly when its
  vendor is not 0xFFFF.
\<close>

theorem pci_config_reads:
  assumes "host_bridge io cfg" "slot < 32" "func < 8"
  shows "fst (pci_configReadDWord io bus slot func offset w) = cfg (unat bus) (unat slot) (unat func) (unat (drop_bit 2 offset)) \<and>
     fst (pci_configReadWord io bus slot func offset w) =
       (let v = cfg (unat bus) (unat slot) (unat func) (unat (drop_bit 2 offset))
        in if bit offset 1 then ucast (drop_bit 16 v) else ucast v) \<and>
     fst (pci_getClassCode io bus slot func w) = ucast (drop_bit 24 (cfg (unat bus) (unat slot) (unat func) 2)) \<and>
     fst (pci_getSubclassCode io bus slot func w) = ucast (drop_bit 16 (cfg (unat bus) (unat slot) (unat func) 2)) \<and>
     (fst (pci_checkFunctionExists io bus slot func w) \<longleftrightarrow> ucast (cfg (unat bus) (unat slot) (unat func) 0) \<noteq> (0xFFFF :: u16))"
proof -
  have a: "bit (0xA :: u8) 1" "drop_bit 2 (0xA :: u8) = 2" by (simp_all add: bit_numeral_word_iff)
  have "fst (pci_getClassCode io bus slot func w) = ucast (drop_bit 24 (cfg (unat bus) (unat slot) (unat func) 2))"
    "fst (pci_getSubclassCode io bus slot func w) = ucast (drop_bit 16 (cfg (unat bus) (unat slot) (unat func) 2))"
    using host_bridge.config_word [OF assms, of bus "0xA" w] a
    by (auto simp: pci_getClassCode_def pci_getSubclassCode_def case_prod_unfold Let_def byte_masks intro!: bit_word_eqI simp: bit_simps)
  then show ?thesis using host_bridge.config_word [OF assms, of bus offset w] host_bridge.config_dword [OF assms, of bus offset w] host_bridge.function_exists [OF assms, of bus w]
    by (simp add: pci_configReadDWord_def)
qed

text \<open>
  A host bridge that keeps the last address; its registers are a function of the fields of the address.
\<close>

definition bridge_io :: "(nat \<Rightarrow> nat \<Rightarrow> nat \<Rightarrow> nat \<Rightarrow> u32) \<Rightarrow> u32 port_io" where
  "bridge_io cfg = \<lparr> in8 = \<lambda>_ a. (0, a), out8 = \<lambda>_ _ a. a, in16 = \<lambda>_ a. (0, a), out16 = \<lambda>_ _ a. a,
     in32 = \<lambda>_ a. (cfg (unat (take_bit 8 (drop_bit 16 a))) (unat (take_bit 5 (drop_bit 11 a)))
       (unat (take_bit 3 (drop_bit 8 a))) (unat (take_bit 6 (drop_bit 2 a))), a),
     out32 = \<lambda>_ v _. v \<rparr>"

interpretation bridge: host_bridge "bridge_io cfg" cfg for cfg
  by unfold_locales (simp add: bridge_io_def)

text \<open>An IDE controller at bus 0, slot 1, function 1, whose class register is 0x01018000.\<close>

theorem pci_config_reads_witness:
  "let cfg = (\<lambda>b s f r. if (b, s, f, r) = (0, 1, 1, 2) then 0x01018000 else 0); io = bridge_io cfg
   in fst (pci_configReadDWord io 0 1 1 8 0) = 0x01018000 \<and>
     fst (pci_getClassCode io 0 1 1 0) = 1 \<and> fst (pci_getSubclassCode io 0 1 1 0) = 1"
proof -
  let ?cfg = "\<lambda>b s f r. if (b, s, f, r) = (0 :: nat, 1 :: nat, 1 :: nat, 2 :: nat) then 0x01018000 else 0 :: u32"
  show ?thesis using pci_config_reads [OF bridge.host_bridge_axioms [of ?cfg], of 1 1 0 8 0]
    by (simp add: Let_def)
qed

end
