(* ===== verification/Fscontext.thy ===== *)
theory Fscontext
  imports Elf Pci
begin

text \<open>
  Finding the disk and mounting it, \<^verbatim>\<open>src/kernel/fs/fscontext.c\<close>: the search of the configuration space for an
  IDE controller, the choice of the first drive, and the FAT16 context on it. It runs on the state of the files, whose
  console shows the messages.
\<close>

section \<open>Finding the disk\<close>

text \<open>
  The search uses the ports of the state. The pointer to the controller is not initialised, so next to the controller
  there is a flag that says whether it has been set. A controller that is found sets it, the last one wins.
\<close>

definition on_ports :: "('w \<Rightarrow> 'a \<times> 'w) \<Rightarrow> 'w stdio_state \<Rightarrow> 'a \<times> 'w stdio_state" where
  "on_ports f s = (let (v, w) = f (std_ports s) in (v, s\<lparr>std_ports := w\<rparr>))"

definition probe_function ::
  "'w stdio_env \<Rightarrow> mem \<Rightarrow> u8 \<Rightarrow> u8 \<Rightarrow> u8 \<Rightarrow> ide_ctrl \<times> bool \<times> 'w stdio_state \<Rightarrow> (ide_ctrl \<times> bool \<times> 'w stdio_state) option" where
  "probe_function env ident bus slot func st = (case st of (ctrl, found, s) \<Rightarrow>
     let io = env_io env; (present, s1) = on_ports (pci_checkFunctionExists io bus slot func) s
     in if \<not> present then Some (ctrl, found, s1)
        else do {
          s2 \<leftarrow> print_format env ''Function %d:'' [ucast func] s1;
          let (class1, s3) = on_ports (pci_getClassCode io bus slot func) s2;
          let (subclass1, s4) = on_ports (pci_getSubclassCode io bus slot func) s3;
          s5 \<leftarrow> print_format env (CHR 0x09 # ''ClassCode: %x | SubClassCode: %x\<newline>'') [ucast class1, ucast subclass1] s4;
          let (class, s6) = on_ports (pci_getClassCode io bus slot func) s5;
          if class \<noteq> 0x01 then Some (ctrl, found, s6)
          else do {
            let (subclass, s7) = on_ports (pci_getSubclassCode io bus slot func) s6;
            if subclass \<noteq> 0x01 then Some (ctrl, found, s7)
            else do {
              let (interface, s8) = on_ports (pci_getProgInterface io bus slot func) s7;
              if interface \<noteq> 0x80 then Some (ctrl, found, s8)
              else do {
                let (BAR4, s9) = on_ports (pci_configReadWord io bus slot func 0x20) s8;
                (ctrl1, w) \<leftarrow> ide_ctrlinit io 0x1F0 0x3F6 0x170 0x376 BAR4 ctrl ident (std_ports s9);
                Some (ctrl1, True, s9\<lparr>std_ports := w\<rparr>)
              }
            }
          }
        })"

definition probe_slot ::
  "'w stdio_env \<Rightarrow> mem \<Rightarrow> u8 \<Rightarrow> u8 \<Rightarrow> ide_ctrl \<times> bool \<times> 'w stdio_state \<Rightarrow> (ide_ctrl \<times> bool \<times> 'w stdio_state) option" where
  "probe_slot env ident bus slot st = (case st of (ctrl, found, s) \<Rightarrow>
     let (present, s1) = on_ports (pci_checkDeviceExists (env_io env) bus slot) s
     in if \<not> present then Some (ctrl, found, s1)
        else do {
          s2 \<leftarrow> print_format env ''Device detected %d:%d\<newline>'' [ucast bus, ucast slot] s1;
          for_each (\<lambda>func. probe_function env ident bus slot (of_nat func)) [0..<8] (ctrl, found, s2)
        })"

definition probe_buses ::
  "'w stdio_env \<Rightarrow> mem \<Rightarrow> ide_ctrl \<times> bool \<times> 'w stdio_state \<Rightarrow> (ide_ctrl \<times> bool \<times> 'w stdio_state) option" where
  "probe_buses env ident st =
     for_each (\<lambda>bus. for_each (\<lambda>slot. probe_slot env ident (of_nat bus) (of_nat slot)) [0..<32]) [0..<256] st"

text \<open>
  \<open>boot_addr\<close> is the address of the boot sector in the context, \<open>ident\<close> what the buffer for the identification of a
  drive holds at first. The context that was found is the one of the files.
\<close>

definition fscontext__init ::
  "'w stdio_env \<Rightarrow> mem \<Rightarrow> u32 \<Rightarrow> ide_ctrl \<Rightarrow> 'w stdio_state \<Rightarrow> (SYS_RET \<times> ide_ctrl \<times> 'w stdio_state) option" where
  "fscontext__init env ident boot_addr ctrl0 s0 = do {
     (ctrl, found, s) \<leftarrow> probe_buses env ident (ctrl0, False, s0);
     if \<not> found then None
     else (case find (\<lambda>i. deviceExists (devices ctrl i)) [0..<4] of
         None \<Rightarrow> do {
           s1 \<leftarrow> print_message env ''No block device found, only IDE is supported. Halting...\<newline>'' s;
           Some (SYS_RET_NO_DEVICE, ctrl, s1)
         }
       | Some i \<Rightarrow> do {
           let device = devices ctrl i;
           let block_dev = \<lparr>sectorSize = 512, size_in_kb = capacityKb device, ide_dev = device\<rparr>;
           (ret, ctx, mm, m, w) \<leftarrow> fat16_create_context (env_io env) boot_addr block_dev (std_fs s)
             (buddy_mm (std_buddy s), std_mem s, std_ports s);
           let s1 = s\<lparr>std_fs := ctx, std_buddy := (std_buddy s)\<lparr>buddy_mm := mm\<rparr>, std_mem := m, std_ports := w\<rparr>;
           if ret \<noteq> SYS_RET_NO_ERROR then do {
             s2 \<leftarrow> print_message env ''FAT16 context creation failed\<newline>'' s1;
             Some (ret, ctrl, s2)
           }
           else Some (ret, ctrl, s1)
         })
   }"

section \<open>Machines without a controller\<close>

text \<open>A loop whose body keeps a property that makes it return keeps it as well.\<close>

lemma for_each_keeps:
  assumes "\<And>x s. x \<in> set xs \<Longrightarrow> P s \<Longrightarrow> \<exists>s'. f x s = Some s' \<and> P s'" "P s"
  shows "\<exists>s'. for_each f xs s = Some s' \<and> P s'"
  using assms
proof (induction xs arbitrary: s)
  case (Cons x xs)
  obtain s1 where "f x s = Some s1" "P s1" using Cons.prems(1) [of x s] Cons.prems(2) by auto
  then show ?case using Cons.IH [of s1] Cons.prems(1) by auto
qed simp

lemma probe_slot_absent:
  assumes "\<And>w. fst (pci_checkDeviceExists (env_io env) bus slot w) = False"
  shows "\<exists>w. probe_slot env ident bus slot (ctrl, found, s) = Some (ctrl, found, s\<lparr>std_ports := w\<rparr>)"
  using assms [of "std_ports s"] by (auto simp: probe_slot_def on_ports_def Let_def split: prod.splits)

lemma probe_buses_absent:
  assumes "\<And>bus slot w. bus < 256 \<Longrightarrow> slot < 32 \<Longrightarrow> fst (pci_checkDeviceExists (env_io env) (of_nat bus) (of_nat slot) w) = False"
  shows "\<exists>w. probe_buses env ident (ctrl, False, s) = Some (ctrl, False, s\<lparr>std_ports := w\<rparr>)"
proof -
  let ?P = "\<lambda>st. \<exists>w. st = (ctrl, False, s\<lparr>std_ports := w\<rparr>)"
  have slot: "\<exists>st'. probe_slot env ident (of_nat bus) (of_nat slot) st = Some st' \<and> ?P st'"
    if "bus < 256" "slot < 32" "?P st" for bus slot st
    using that(3) probe_slot_absent [of env "of_nat bus" "of_nat slot", OF assms [OF that(1,2)]] by fastforce
  have bus: "\<exists>st'. for_each (\<lambda>slot. probe_slot env ident (of_nat bus) (of_nat slot)) [0..<32] st = Some st' \<and> ?P st'"
    if "bus < 256" "?P st" for bus st
  proof (rule for_each_keeps [where P = ?P])
    show "\<exists>st'. probe_slot env ident (of_nat bus) (of_nat slot) st1 = Some st' \<and> ?P st'" if "slot \<in> set [0..<32]" "?P st1" for slot st1
      using that by (intro slot \<open>bus < 256\<close>) simp_all
  qed (rule that(2))
  have "\<exists>st'. probe_buses env ident (ctrl, False, s) = Some st' \<and> ?P st'"
    unfolding probe_buses_def
  proof (rule for_each_keeps [where P = ?P])
    show "\<exists>st'. for_each (\<lambda>slot. probe_slot env ident (of_nat bus) (of_nat slot)) [0..<32] st = Some st' \<and> ?P st'"
      if "bus \<in> set [0..<256]" "?P st" for bus st using that by (intro bus) simp_all
    show "?P (ctrl, False, s)" by (intro exI [of _ "std_ports s"]) simp
  qed
  then show ?thesis by auto
qed

section \<open>Properties\<close>

text \<open>
  C40: on a machine whose configuration space shows no device, the search ends with the pointer to the controller not
  set and the code follows it, so the initialisation of the file system has no defined result; the branch that reports
  the missing device is for a controller without drives only.
\<close>

theorem fscontext_without_controller:
  assumes "host_bridge (env_io env) cfg" "\<And>bus slot. bus < 256 \<Longrightarrow> slot < 32 \<Longrightarrow> ucast (cfg bus slot 0 0) = (0xFFFF :: u16)"
  shows "fscontext__init env ident boot_addr ctrl s = None"
proof -
  have absent: "fst (pci_checkDeviceExists (env_io env) (of_nat bus) (of_nat slot) w) = False" if "bus < 256" "slot < 32" for bus slot w
  proof -
    have u: "unat (of_nat bus :: u8) = bus" "unat (of_nat slot :: u8) = slot" using that by (simp_all add: unat_of_nat)
    have "(of_nat slot :: u8) < 32" "(0 :: u8) < 8" using that u by (simp_all add: word_less_nat_alt)
    from host_bridge.function_exists [OF assms(1) this, of "of_nat bus" w] assms(2) [OF that] u
    show ?thesis by (simp add: pci_checkDeviceExists_def)
  qed
  from probe_buses_absent [OF absent] obtain w where "probe_buses env ident (ctrl, False, s) = Some (ctrl, False, s\<lparr>std_ports := w\<rparr>)" by blast
  then show ?thesis by (simp add: fscontext__init_def)
qed

definition empty_bus_env :: "u32 stdio_env" where
  "empty_bus_env = \<lparr>env_io = bridge_io (\<lambda>_ _ _ _. 0xFFFFFFFF), env_lit = (\<lambda>_. 0), env_cmp = 0, env_buffer = 0x8000, env_junk = (\<lambda>_. 0)\<rparr>"

theorem fscontext_without_controller_witness:
  "\<forall>ctrl s. fscontext__init empty_bus_env (\<lambda>_. 0) 0x5000 ctrl s = None"
proof (intro allI)
  fix ctrl s
  have io: "env_io empty_bus_env = bridge_io (\<lambda>_ _ _ _. 0xFFFFFFFF)" by (simp add: empty_bus_env_def)
  have "ucast (0xFFFFFFFF :: u32) = (0xFFFF :: u16)" by simp
  then show "fscontext__init empty_bus_env (\<lambda>_. 0) 0x5000 ctrl s = None"
    by (intro fscontext_without_controller [where cfg = "\<lambda>_ _ _ _. 0xFFFFFFFF"]) (simp_all add: io bridge.host_bridge_axioms)
qed

end
