(* ===== verification/Kernel.thy ===== *)
theory Kernel
  imports Keyboard Fscontext
begin

text \<open>
  The start of the kernel, \<^verbatim>\<open>src/kernel/main.c\<close>, the program that it loads, \<^verbatim>\<open>src/kernel/test.c\<close>, and the
  state that all components share. The locale \<open>syscall_gate\<close> is what a program relies on when it executes
  \<^verbatim>\<open>int $0x80\<close>; the kernel's handlers are an instance of it.
\<close>

section \<open>The machine\<close>

text \<open>
  The state of the kernel is that of the interrupts, whose devices are the files with the memory, the allocators and the
  ports behind them. The console is the one of the interrupts; the files see it while they run.
\<close>

type_synonym ('h, 'w) machine = "('h, 'w stdio_state) int_state"

definition files :: "('h, 'w) machine \<Rightarrow> 'w stdio_state" where
  "files s = (int_ports s)\<lparr>std_tty := int_tty s\<rparr>"

definition with_files :: "'w stdio_state \<Rightarrow> ('h, 'w) machine \<Rightarrow> ('h, 'w) machine" where
  "with_files f s = s\<lparr>int_ports := f, int_tty := std_tty f\<rparr>"

definition on_files :: "('w stdio_state \<Rightarrow> ('a \<times> 'w stdio_state) option) \<Rightarrow> ('h, 'w) machine \<Rightarrow> ('a \<times> ('h, 'w) machine) option" where
  "on_files f s = do { (v, f1) \<leftarrow> f (files s); Some (v, with_files f1 s) }"

text \<open>The ports of the devices, for the code that runs on the whole state.\<close>

definition port_in :: "('w \<Rightarrow> 'a \<times> 'w) \<Rightarrow> 'w stdio_state \<Rightarrow> 'a \<times> 'w stdio_state" where
  "port_in g s = (let (v, w) = g (std_ports s) in (v, s\<lparr>std_ports := w\<rparr>))"

definition port_out :: "('w \<Rightarrow> 'w) \<Rightarrow> 'w stdio_state \<Rightarrow> 'w stdio_state" where
  "port_out g s = s\<lparr>std_ports := g (std_ports s)\<rparr>"

definition machine_io :: "'w port_io \<Rightarrow> 'w stdio_state port_io" where
  "machine_io io = \<lparr>in8 = (\<lambda>a. port_in (in8 io a)), out8 = (\<lambda>a v. port_out (out8 io a v)),
     in16 = (\<lambda>a. port_in (in16 io a)), out16 = (\<lambda>a v. port_out (out16 io a v)),
     in32 = (\<lambda>a. port_in (in32 io a)), out32 = (\<lambda>a v. port_out (out32 io a v))\<rparr>"

text \<open>
  What the code finds outside this state: the environment of the files, the addresses of the entry points and of the
  descriptor table, of the parameters of a system call and of the boot sector, the array of program headers, the page
  fault address, the uninitialised variables of the functions, and the programs that are started.
\<close>

datatype kernel_handler = DivisionByZero | PageFault | Syscall | KeyboardInterrupt

record 'w kernel_env =
  k_files :: "'w stdio_env"
  k_isr :: "nat \<Rightarrow> u32"
  k_idt :: u32
  k_params :: u32
  k_boot_sector :: u32
  k_ident :: mem
  k_phdrs :: u32
  k_hdr :: Elf32_Ehdr
  k_loc :: u32
  k_cr2 :: u32
  k_run :: "u32 \<Rightarrow> (kernel_handler, 'w) machine \<Rightarrow> (kernel_handler, 'w) machine option"

section \<open>Handlers\<close>

text \<open>The handlers of exceptions print and then loop for ever.\<close>

definition divisionByZeroExceptionHandler :: "'w kernel_env \<Rightarrow> (kernel_handler, 'w) machine \<Rightarrow> (int_return_t \<times> (kernel_handler, 'w) machine) option" where
  "divisionByZeroExceptionHandler env s = do {
     _ \<leftarrow> tty_puts (std_mem (files s)) (env_lit (k_files env) ''A division error has occured\<newline>'') 30 (int_tty s);
     None
   }"

definition pageFaultHandler :: "'w kernel_env \<Rightarrow> u32 \<Rightarrow> (kernel_handler, 'w) machine \<Rightarrow> (int_return_t \<times> (kernel_handler, 'w) machine) option" where
  "pageFaultHandler env errCode s = do {
     let m = std_mem (files s);
     (_, t1) \<leftarrow> kaos_preboot_printf m (env_lit (k_files env) ''Page fault exception caused while trying to access 0x%x\<newline>'') [k_cr2 env] (int_tty s);
     _ \<leftarrow> kaos_preboot_printf m (env_lit (k_files env) ''The error code is: 0x%x\<newline>'') [errCode] t1;
     None
   }"

text \<open>
  What \<^verbatim>\<open>__arch__syscall_initial_handler\<close> calls: the parameters lie in an array on its stack.
\<close>

primrec store_words :: "u32 \<Rightarrow> u32 list \<Rightarrow> mem \<Rightarrow> mem" where
  "store_words p [] m = m"
| "store_words p (x # xs) m = store_words (p + 4) xs (store32 p x m)"

definition kernel_syscall :: "'w stdio_env \<Rightarrow> u32 \<Rightarrow> u32 \<Rightarrow> u32 list \<Rightarrow> ('h, 'w) machine \<Rightarrow> ('h, 'w) machine option" where
  "kernel_syscall env params number args s = do {
     (_, s1) \<leftarrow> on_files (\<lambda>f. syscall__generic_syscall_handler env number params (f\<lparr>std_mem := store_words params args (std_mem f)\<rparr>)) s;
     Some s1
   }"

definition kernel_call :: "'w kernel_env \<Rightarrow> (kernel_handler, 'w stdio_state) caller" where
  "kernel_call env h intNo errCode frame s =
     (case h of
        DivisionByZero \<Rightarrow> divisionByZeroExceptionHandler env s
      | PageFault \<Rightarrow> pageFaultHandler env errCode s
      | Syscall \<Rightarrow> syscall_initial_handler (kernel_syscall (k_files env) (k_params env)) frame s
      | KeyboardInterrupt \<Rightarrow> arch_keyboard_interrupt_handler (machine_io (env_io (k_files env))) intNo s)"

section \<open>The program that is started\<close>

text \<open>\<open>k_run\<close> is the code of the program, called at its entry point. A missing file is the null pointer, which is read.\<close>

definition load_example :: "'w kernel_env \<Rightarrow> 'w stdio_state \<Rightarrow> ((SYS_RET + u32) \<times> 'w stdio_state) option" where
  "load_example env f = do {
     let e = k_files env;
     f1 \<leftarrow> print_message e ''Loading elf file\<newline>'' f;
     (fp, f2) \<leftarrow> kaos_fopen e (env_lit e ''/EXAMPLE.ELF'') f1;
     (ret, addr, b) \<leftarrow> buddy_allocator__alloc 30720 (std_buddy f2);
     let f3 = f2\<lparr>std_buddy := b\<rparr>;
     if ret \<noteq> SYS_RET_NO_ERROR then do {
       f4 \<leftarrow> print_message e ''Mem allocation error\<newline>'' f3;
       Some (Inl ret, f4)
     }
     else do {
       file_contents \<leftarrow> addr;
       (_, f4) \<leftarrow> kaos_fread e file_contents 1 30720 fp f3;
       (ret, _, entry, f5) \<leftarrow> elf__load_elf_file e (k_hdr env) (k_phdrs env) (k_loc env) file_contents f4;
       if ret \<noteq> SYS_RET_NO_ERROR then do {
         f6 \<leftarrow> print_message e ''Elf load error\<newline>'' f5;
         Some (Inl ret, f6)
       }
       else do {
         start \<leftarrow> entry;
         Some (Inr start, f5)
       }
     }
   }"

definition my_main :: "'w kernel_env \<Rightarrow> (kernel_handler, 'w) machine \<Rightarrow> (SYS_RET \<times> (kernel_handler, 'w) machine) option" where
  "my_main env s = do {
     (r, s1) \<leftarrow> on_files (load_example env) s;
     case r of
       Inl ret \<Rightarrow> Some (ret, s1)
     | Inr start \<Rightarrow> do {
         s2 \<leftarrow> k_run env start s1;
         Some (SYS_RET_NO_ERROR, s2)
       }
   }"

definition file_system_traverser :: u32 where
  "file_system_traverser = - 1"

section \<open>Start of the kernel\<close>

definition VGA_COLOR_BLACK :: u8 where "VGA_COLOR_BLACK = 0"
definition VGA_COLOR_GRAY :: u8 where "VGA_COLOR_GRAY = 7"

text \<open>
  The console and the memory; the stack of 64 KB is moved and two zero words are pushed to it. The messages that \<^verbatim>\<open>mm_init\<close>
  prints are left out, so the console after it is not the one of the code.
\<close>

definition kmain_memory ::
  "'w kernel_env \<Rightarrow> multiboot_info \<Rightarrow> (u32 \<Rightarrow> multiboot_mmap_entry) \<Rightarrow> (kernel_handler, 'w) machine \<Rightarrow> (kernel_handler, 'w) machine option" where
  "kmain_memory env info entry_at s = do {
     let t = tty_setcolors VGA_COLOR_GRAY VGA_COLOR_BLACK (tty_init (int_tty s));
     (_, t1) \<leftarrow> tty_puts (std_mem (int_ports s)) (env_lit (k_files env) ''KaracaOS version 0.0.1\<newline>'') 30 t;
     let f = (int_ports s)\<lparr>std_tty := t1\<rparr>;
     (_, mm1) \<leftarrow> mm_init info entry_at (buddy_mm (std_buddy f));
     (_, stackTop, mm2) \<leftarrow> mm_alloc 0xCFF00000 0x10000 0 mm1;
     top \<leftarrow> stackTop;
     let bottom = top + 0xFFFC;
     let m = store32 (bottom - 8) 0 (store32 (bottom - 4) 0 (std_mem f));
     Some (with_files (f\<lparr>std_buddy := (std_buddy f)\<lparr>buddy_mm := mm2\<rparr>, std_mem := m\<rparr>) s)
   }"

definition kmain_interrupts :: "'w kernel_env \<Rightarrow> (kernel_handler, 'w) machine \<Rightarrow> (kernel_handler, 'w) machine option" where
  "kmain_interrupts env s = do {
     (_, s1) \<leftarrow> interrupts_init (machine_io (env_io (k_files env))) (k_isr env) (k_idt env) Syscall s;
     (_, s2) \<leftarrow> interrupts_sethandler 0 DivisionByZero s1;
     (_, s3) \<leftarrow> interrupts_sethandler 14 PageFault s2;
     Some s3
   }"

text \<open>The rest, up to the endless loop at the end of \<^verbatim>\<open>kmain\<close>, whose state is the result.\<close>

definition kmain ::
  "'w kernel_env \<Rightarrow> multiboot_info \<Rightarrow> (u32 \<Rightarrow> multiboot_mmap_entry) \<Rightarrow> ide_ctrl \<Rightarrow> (kernel_handler, 'w) machine \<Rightarrow>
     (kernel_handler, 'w) machine option" where
  "kmain env info entry_at ctrl s = do {
     let e = k_files env;
     s1 \<leftarrow> kmain_memory env info entry_at s;
     s2 \<leftarrow> kmain_interrupts env s1;
     (_, s3) \<leftarrow> on_files (\<lambda>f. do { (ret, b) \<leftarrow> buddy_allocator__init (std_buddy f); Some (ret, f\<lparr>std_buddy := b\<rparr>) }) s2;
     (_, s4) \<leftarrow> on_files (\<lambda>f. do {
       f1 \<leftarrow> kaos_init_stdlib e (env_lit e ''/dev/stdin'') (env_lit e ''/dev/stdout'') (env_lit e ''/dev/stderr'') f;
       Some ((), f1) }) s3;
     (_, s5) \<leftarrow> keyboard_initialize KeyboardInterrupt s4;
     let s6 = snd (interrupts_enableinterrupts s5);
     (_, s7) \<leftarrow> on_files (\<lambda>f. do { (ret, ctrl1, f1) \<leftarrow> fscontext__init e (k_ident env) (k_boot_sector env) ctrl f; Some (ret, f1) }) s6;
     (_, s8) \<leftarrow> on_files (\<lambda>f. do { f1 \<leftarrow> print_message e ''Init complete\<newline>'' f; Some ((), f1) }) s7;
     (_, s9) \<leftarrow> my_main env s8;
     Some s9
   }"

section \<open>The handlers of the kernel\<close>

lemma machine_outb: "outb (machine_io io) a v f = f\<lparr>std_ports := outb io a v (std_ports f)\<rparr>"
  by (simp add: outb_def machine_io_def port_out_def)

lemma machine_outb_fold: "\<exists>w. fold (\<lambda>(a, v). outb (machine_io io) a v) xs f = f\<lparr>std_ports := w\<rparr>"
proof (induction xs arbitrary: f)
  case Nil
  then show ?case by (intro exI [of _ "std_ports f"]) simp
next
  case (Cons x xs)
  from Cons [of "case x of (a, v) \<Rightarrow> outb (machine_io io) a v f"] show ?case by (cases x) (auto simp: machine_outb)
qed

lemma kmain_interrupts_eq:
  "\<exists>s' w. kmain_interrupts env s = Some s' \<and> int_ports s' = (int_ports s)\<lparr>std_ports := w\<rparr> \<and> int_tty s' = int_tty s \<and>
     intHandler_set s' \<and> syscall_handler_set s' \<and> \<not> interrupt_flag s' \<and>
     (\<forall>n<256. intHandlers s' n = ([0 \<mapsto> DivisionByZero, 14 \<mapsto> PageFault, 128 \<mapsto> Syscall] :: nat \<rightharpoonup> kernel_handler) n)"
proof -
  let ?io = "machine_io (env_io (k_files env))"
  obtain w where w: "fold (\<lambda>(a, v). outb ?io a v) pic_program (int_ports s) = (int_ports s)\<lparr>std_ports := w\<rparr>"
    using machine_outb_fold [of "env_io (k_files env)" pic_program "int_ports s"] by (elim exE)
  show ?thesis
    by (intro exI [of _ w] exI) (auto simp: kmain_interrupts_def interrupts_init_state w interrupts_sethandler_def for_update_apply)
qed

section \<open>The gate of system calls\<close>

text \<open>
  What a program relies on: the instruction \<^verbatim>\<open>int $0x80\<close> runs the kernel's handler of system calls on the
  registers. The kernel provides it from its initialisation on.
\<close>

locale syscall_gate =
  fixes env :: "'w stdio_env" and params :: u32 and io :: "'w stdio_state port_io" and call :: "('h, 'w stdio_state) caller"
    and installed :: "('h, 'w) machine \<Rightarrow> bool"
  assumes gate: "installed s \<Longrightarrow> int_no frame = 0x80 \<Longrightarrow> arch_interrupt_handler io call frame s =
      kernel_syscall env params (frame_eax frame) [frame_edi frame, frame_esi frame, frame_ebx frame, frame_ecx frame, frame_edx frame] s"
    and stays: "installed s \<Longrightarrow> kernel_syscall env params n args s = Some s' \<Longrightarrow> installed s'"
    and memory_irrelevant: "installed (s\<lparr>int_ports := f\<rparr>) \<longleftrightarrow> installed s"

definition gate_installed :: "(kernel_handler, 'w) machine \<Rightarrow> bool" where
  "gate_installed s \<longleftrightarrow> intHandler_set s \<and> syscall_handler_set s \<and> intHandlers s 128 = Some Syscall"

interpretation kernel_gate: syscall_gate "k_files env" "k_params env" "machine_io (env_io (k_files env))" "kernel_call env" gate_installed for env
proof
  fix s :: "(kernel_handler, 'a) machine" and frame :: X86InterruptStackFrame
  assume "gate_installed s" "int_no frame = 0x80"
  then show "arch_interrupt_handler (machine_io (env_io (k_files env))) (kernel_call env) frame s =
      kernel_syscall (k_files env) (k_params env) (frame_eax frame)
        [frame_edi frame, frame_esi frame, frame_ebx frame, frame_ecx frame, frame_edx frame] s"
    by (cases "kernel_syscall (k_files env) (k_params env) (frame_eax frame)
        [frame_edi frame, frame_esi frame, frame_ebx frame, frame_ecx frame, frame_edx frame] s")
      (simp_all add: gate_installed_def arch_interrupt_handler_def interrupts_generic_handler_def kernel_call_def syscall_initial_handler_def)
next
  fix s s' :: "(kernel_handler, 'a) machine" and n args
  assume "gate_installed s" "kernel_syscall (k_files env) (k_params env) n args s = Some s'"
  then show "gate_installed s'"
    by (auto simp: gate_installed_def kernel_syscall_def on_files_def with_files_def bind_eq_Some_conv split: prod.splits)
qed (simp add: gate_installed_def)

section \<open>Properties\<close>

text \<open>
  C21: the initialisation of the interrupts returns, and afterwards a system call runs the kernel's handler on the five
  registers with the parameters, an exception without a handler and the two exceptions with one do not return, and
  memory and console are as before.
\<close>

theorem kernel_serves_syscalls:
  "\<exists>s' w. kmain_interrupts env s = Some s' \<and> files s' = (files s)\<lparr>std_ports := w\<rparr> \<and> int_tty s' = int_tty s \<and>
     (\<forall>frame. int_no frame = 0x80 \<longrightarrow> arch_interrupt_handler (machine_io (env_io (k_files env))) (kernel_call env) frame s' =
        kernel_syscall (k_files env) (k_params env) (frame_eax frame)
          [frame_edi frame, frame_esi frame, frame_ebx frame, frame_ecx frame, frame_edx frame] s') \<and>
     (\<forall>frame. int_no frame < 32 \<longrightarrow> arch_interrupt_handler (machine_io (env_io (k_files env))) (kernel_call env) frame s' = None)"
proof -
  obtain s' w where s': "kmain_interrupts env s = Some s'" "int_ports s' = (int_ports s)\<lparr>std_ports := w\<rparr>" "int_tty s' = int_tty s"
      "intHandler_set s'" "syscall_handler_set s'"
      and h: "\<forall>n<256. intHandlers s' n = ([0 \<mapsto> DivisionByZero, 14 \<mapsto> PageFault, 128 \<mapsto> Syscall] :: nat \<rightharpoonup> kernel_handler) n"
    using kmain_interrupts_eq [of env s] by blast
  have gate: "gate_installed s'" using s'(4,5) h [rule_format, of 128] by (simp add: gate_installed_def)
  have "arch_interrupt_handler (machine_io (env_io (k_files env))) (kernel_call env) frame s' = None" if "int_no frame < 32" for frame
  proof -
    have n: "unat (int_no frame) < 32" using that by (simp add: word_less_nat_alt)
    then show ?thesis using that s'(4) h [rule_format, of "unat (int_no frame)"]
      by (auto simp: arch_interrupt_handler_def interrupts_generic_handler_def kernel_call_def divisionByZeroExceptionHandler_def
          pageFaultHandler_def word_less_nat_alt bind_eq_None_conv Let_def split: if_splits option.splits prod.splits)
  qed
  then show ?thesis using s' kernel_gate.gate [OF gate] by (intro exI [of _ s'] exI [of _ w]) (simp add: files_def)
qed

theorem kernel_serves_syscalls_witness:
  "\<forall>env s. \<exists>s'. kmain_interrupts env s = Some s' \<and>
     arch_interrupt_handler (machine_io (env_io (k_files env))) (kernel_call env) (blank_frame\<lparr>frame_eax := 3, int_no := 0x80\<rparr>) s' =
       kernel_syscall (k_files env) (k_params env) 3 [0, 0, 0, 0, 0] s'"
proof (intro allI)
  fix env :: "'a kernel_env" and s
  show "\<exists>s'. kmain_interrupts env s = Some s' \<and>
     arch_interrupt_handler (machine_io (env_io (k_files env))) (kernel_call env) (blank_frame\<lparr>frame_eax := 3, int_no := 0x80\<rparr>) s' =
       kernel_syscall (k_files env) (k_params env) 3 [0, 0, 0, 0, 0] s'"
    using kernel_serves_syscalls [of env s] by (fastforce simp: blank_frame_def)
qed

end
