(* ===== verification/UserLibc.thy ===== *)
theory UserLibc
  imports Kernel
begin

text \<open>
  The library of programs, \<^verbatim>\<open>src/libc\<close>, and the example program, \<^verbatim>\<open>src/example/example.c\<close>. Its files are
  system calls; the formatted output is rendered in the library and written with one call. The addresses of the local
  variables that a call refers to are part of the environment; memory is that of the kernel, since there is one address
  space.
\<close>

section \<open>System calls\<close>

text \<open>
  What the library finds outside its state: the ports, the way the processor calls a handler, the
  addresses of its variables and literals, and what the registers hold that a call does not set.
\<close>

record ('h, 'w) user_env =
  ports_io :: "'w stdio_state port_io"
  call_handler :: "('h, 'w stdio_state) caller"
  fp_var :: u32
  retVal_var :: u32
  user_buffer :: u32
  user_lit :: "string \<Rightarrow> u32"
  other_regs :: u32

record ('h, 'w) user_state =
  machine :: "('h, 'w) machine"
  user_stdin :: u32
  user_stdout :: u32
  user_stderr :: u32

definition user_mem :: "('h, 'w) user_state \<Rightarrow> mem" where
  "user_mem u = std_mem (int_ports (machine u))"

definition set_user_mem :: "mem \<Rightarrow> ('h, 'w) user_state \<Rightarrow> ('h, 'w) user_state" where
  "set_user_mem m u = u\<lparr>machine := (machine u)\<lparr>int_ports := (int_ports (machine u))\<lparr>std_mem := m\<rparr>\<rparr>\<rparr>"

text \<open>The instruction \<^verbatim>\<open>int $0x80\<close> with the registers that the call sets.\<close>

definition int_0x80 :: "('h, 'w) user_env \<Rightarrow> u32 \<Rightarrow> u32 list \<Rightarrow> ('h, 'w) user_state \<Rightarrow> ('h, 'w) user_state option" where
  "int_0x80 env eax regs u = do {
     let r = (\<lambda>i. if i < length regs then regs ! i else other_regs env);
     s \<leftarrow> arch_interrupt_handler (ports_io env) (call_handler env)
       \<lparr>frame_edi = r 0, frame_esi = r 1, frame_ebx = r 2, frame_edx = r 4, frame_ecx = r 3, frame_eax = eax, int_no = 0x80, err_code = 0\<rparr>
       (machine u);
     Some (u\<lparr>machine := s\<rparr>)
   }"

section \<open>Files\<close>

definition user_fopen :: "('h, 'w) user_env \<Rightarrow> u32 \<Rightarrow> u32 \<Rightarrow> ('h, 'w) user_state \<Rightarrow> (u32 \<times> ('h, 'w) user_state) option" where
  "user_fopen env path mode u = do {
     u1 \<leftarrow> int_0x80 env 1 [fp_var env, path, mode] u;
     Some (load32 (user_mem u1) (fp_var env), u1)
   }"

definition user_fread :: "('h, 'w) user_env \<Rightarrow> u32 \<Rightarrow> u32 \<Rightarrow> u32 \<Rightarrow> u32 \<Rightarrow> ('h, 'w) user_state \<Rightarrow> (u32 \<times> ('h, 'w) user_state) option" where
  "user_fread env buffer sz count stream u = do {
     u1 \<leftarrow> int_0x80 env 2 [buffer, sz, count, stream, retVal_var env] u;
     Some (load32 (user_mem u1) (retVal_var env), u1)
   }"

definition user_fwrite :: "('h, 'w) user_env \<Rightarrow> u32 \<Rightarrow> u32 \<Rightarrow> u32 \<Rightarrow> u32 \<Rightarrow> ('h, 'w) user_state \<Rightarrow> (u32 \<times> ('h, 'w) user_state) option" where
  "user_fwrite env buffer sz count stream u = do {
     u1 \<leftarrow> int_0x80 env 3 [buffer, sz, count, stream, retVal_var env] u;
     Some (load32 (user_mem u1) (retVal_var env), u1)
   }"

definition user_fclose :: "u32 \<Rightarrow> u32" where
  "user_fclose stream = 0"

section \<open>Formatted output\<close>

text \<open>
  \<^verbatim>\<open>src/libc/stdio/vsprintf.c\<close> is \<^verbatim>\<open>src/kernel/libc/stdio/sprintf.c\<close> but for the names, so it is
  \<open>kaos_vsprintf\<close> here.
\<close>

definition user_vfprintf :: "('h, 'w) user_env \<Rightarrow> u32 \<Rightarrow> u32 \<Rightarrow> u32 list \<Rightarrow> ('h, 'w) user_state \<Rightarrow> (u32 \<times> ('h, 'w) user_state) option" where
  "user_vfprintf env stream format args u = do {
     let m = snd (kaos_memset (user_buffer env) 0 4096 (user_mem u));
     (retVal, m1) \<leftarrow> kaos_vsprintf (user_buffer env) format args m;
     (_, u1) \<leftarrow> user_fwrite env (user_buffer env) 1 retVal stream (set_user_mem m1 u);
     Some (retVal, u1)
   }"

definition user_fprintf :: "('h, 'w) user_env \<Rightarrow> u32 \<Rightarrow> u32 \<Rightarrow> u32 list \<Rightarrow> ('h, 'w) user_state \<Rightarrow> (u32 \<times> ('h, 'w) user_state) option" where
  "user_fprintf env stream format args u = user_vfprintf env stream format args u"

definition user_printf :: "('h, 'w) user_env \<Rightarrow> u32 \<Rightarrow> u32 list \<Rightarrow> ('h, 'w) user_state \<Rightarrow> (u32 \<times> ('h, 'w) user_state) option" where
  "user_printf env format args u = user_vfprintf env (user_stdout u) format args u"

section \<open>Start and the example program\<close>

definition kaos_libc_init :: "('h, 'w) user_env \<Rightarrow> ('h, 'w) user_state \<Rightarrow> ('h, 'w) user_state option" where
  "kaos_libc_init env u = do {
     (f0, u0) \<leftarrow> user_fopen env (user_lit env ''/dev/stdin'') (user_lit env ''r'') u;
     (f1, u1) \<leftarrow> user_fopen env (user_lit env ''/dev/stdout'') (user_lit env ''w'') (u0\<lparr>user_stdin := f0\<rparr>);
     (f2, u2) \<leftarrow> user_fopen env (user_lit env ''/dev/stderr'') (user_lit env ''w'') (u1\<lparr>user_stdout := f1\<rparr>);
     Some (u2\<lparr>user_stderr := f2\<rparr>)
   }"

definition example_main :: "('h, 'w) user_env \<Rightarrow> ('h, 'w) user_state \<Rightarrow> (u32 \<times> ('h, 'w) user_state) option" where
  "example_main env u = do {
     let a = 3;
     let b = 4;
     let c = a + b;
     (_, u1) \<leftarrow> user_printf env (user_lit env ''Program result is: %d\<newline>'') [c] u;
     Some (150, u1)
   }"

text \<open>\<^verbatim>\<open>exit\<close> does not return.\<close>

definition user_exit :: "u32 \<Rightarrow> ('h, 'w) user_state \<Rightarrow> ('h, 'w) user_state option" where
  "user_exit code u = None"

section \<open>Parameters of a call\<close>

lemma in_range_shift:
  assumes "x < 1000" "y < 1000" "n < 1000"
  shows "in_range (p + of_nat x) n (p + of_nat y) \<longleftrightarrow> x \<le> y \<and> y < x + n"
proof (cases "x \<le> y")
  case True
  then have d: "p + of_nat y - (p + of_nat x) = (of_nat (y - x) :: u32)" by (simp add: of_nat_diff)
  have "unat (of_nat (y - x) :: u32) = y - x" using assms by (intro unat_of_nat_u32) simp
  then show ?thesis unfolding in_range_def d using True by auto
next
  case False
  define j where "j = unat (p + of_nat y - (p + of_nat x))"
  have "(of_nat j :: u32) = of_nat y - of_nat x" by (simp add: j_def)
  then have e: "(of_nat (j + x) :: u32) = of_nat y" by simp
  have "\<not> j < n"
  proof
    assume "j < n"
    then have "unat (of_nat (j + x) :: u32) = j + x" "unat (of_nat y :: u32) = y" using assms by (simp_all add: unat_of_nat_u32 del: of_nat_add)
    with e have "j + x = y" by (metis (lifting))
    with False show False by simp
  qed
  then show ?thesis using False unfolding in_range_def j_def by simp
qed

lemma words_apart:
  assumes "i \<noteq> j" "i < 5" "j < 5"
  shows "no_overlap (p + of_nat (4 * i)) 4 (p + of_nat (4 * j)) 4"
  unfolding no_overlap_def
proof (intro allI impI)
  fix k :: nat assume "k < 4"
  then have "\<not> in_range (p + of_nat (4 * i)) 4 (p + of_nat (4 * j + k))" using assms by (subst in_range_shift) auto
  then show "\<not> in_range (p + of_nat (4 * i)) 4 (p + of_nat (4 * j) + of_nat k)" by (simp add: add.assoc)
qed

lemma store_words_five:
  "store_words p [a, b, c, d, e] m = store32 (p + 16) e (store32 (p + 12) d (store32 (p + 8) c (store32 (p + 4) b (store32 p a m))))"
  by (simp add: add.assoc)

declare store_words.simps [simp del]

lemma store_words_params:
  "map (param (store_words p [a, b, c, d, e] m) p) [0, 1, 2, 3, 4] = [a, b, c, d, e]"
proof -
  have ne: "no_overlap p 4 (p + 4) 4" "no_overlap p 4 (p + 8) 4"
    "no_overlap p 4 (p + 12) 4" "no_overlap p 4 (p + 16) 4"
    "no_overlap (p + 4) 4 p 4" "no_overlap (p + 8) 4 p 4" "no_overlap (p + 12) 4 p 4" "no_overlap (p + 16) 4 p 4"
    "no_overlap (p + 8) 4 (p + 4) 4" "no_overlap (p + 12) 4 (p + 4) 4" "no_overlap (p + 16) 4 (p + 4) 4"
    "no_overlap (p + 12) 4 (p + 8) 4" "no_overlap (p + 16) 4 (p + 8) 4" "no_overlap (p + 16) 4 (p + 12) 4"
    using words_apart [of 0 1 p] words_apart [of 0 2 p] words_apart [of 0 3 p] words_apart [of 0 4 p] words_apart [of 1 0 p]
      words_apart [of 2 0 p] words_apart [of 3 0 p] words_apart [of 4 0 p] words_apart [of 2 1 p] words_apart [of 3 1 p]
      words_apart [of 4 1 p] words_apart [of 3 2 p] words_apart [of 4 2 p] words_apart [of 4 3 p] by simp_all
  show ?thesis unfolding store_words_five by (simp add: param_def load32_store32_other ne)
qed

lemma store_words_outside:
  assumes "\<not> in_range p 20 x"
  shows "store_words p [a, b, c, d, e] m x = m x"
proof -
  have part: "\<not> in_range (p + of_nat (4 * i)) 4 x" if "i < 5" for i
  proof
    assume "in_range (p + of_nat (4 * i)) 4 x"
    then obtain k where k: "k < 4" "x = p + of_nat (4 * i) + of_nat k" by (auto simp: in_range_offset)
    then have "in_range (p + of_nat 0) 20 (p + of_nat (4 * i + k))" using that by (subst in_range_shift) auto
    with assms k(2) show False by (simp add: add.assoc)
  qed
  show ?thesis using part [of 0] part [of 1] part [of 2] part [of 3] part [of 4]
    unfolding store_words_five by (simp add: store32_outside)
qed

section \<open>Output of a program\<close>

text \<open>
  The memory that a call writes: the buffer of the kernel's own output, the parameters and the buffer of the library.
  Whatever the call needs lies apart from them.
\<close>

definition scratch :: "'w stdio_env \<Rightarrow> u32 \<Rightarrow> ('h, 'w) user_env \<Rightarrow> (u32 \<times> nat) list" where
  "scratch env params uenv = [(env_buffer env, 4096), (params, 20), (user_buffer uenv, 4096)]"

definition apart_from :: "(u32 \<times> nat) list \<Rightarrow> u32 \<Rightarrow> nat \<Rightarrow> bool" where
  "apart_from L a k \<longleftrightarrow> (\<forall>(d, n) \<in> set L. no_overlap d n a k)"

definition outside :: "(u32 \<times> nat) list \<Rightarrow> u32 \<Rightarrow> bool" where
  "outside L a \<longleftrightarrow> (\<forall>(d, n) \<in> set L. \<not> in_range d n a)"

definition separate_buffers :: "'w stdio_env \<Rightarrow> u32 \<Rightarrow> ('h, 'w) user_env \<Rightarrow> bool" where
  "separate_buffers env params uenv \<longleftrightarrow> no_overlap (env_buffer env) 4096 params 20 \<and>
     no_overlap (env_buffer env) 4096 (user_buffer uenv) 4096 \<and> no_overlap params 20 (user_buffer uenv) 4096"

definition stream_on_console :: "(u32 \<times> nat) list \<Rightarrow> mem \<Rightarrow> u32 \<Rightarrow> bool" where
  "stream_on_console L m stream \<longleftrightarrow> get_fileno m stream \<in> {1, 2} \<and> apart_from L (stream + 48) 4"

lemma apart_outside: "apart_from L a n \<Longrightarrow> k < n \<Longrightarrow> outside L (a + of_nat k)"
  by (auto simp: apart_from_def outside_def no_overlap_def)

lemma frame_string:
  assumes "cstring_at m a xs" "apart_from L a (length xs + 1)" "\<And>x. outside L x \<Longrightarrow> m' x = m x"
  shows "cstring_at m' a xs"
  using assms(1) by (rule cstring_at_frame) (use apart_outside [OF assms(2)] assms(3) in auto)

lemma frame_stream:
  assumes "stream_on_console L m stream" "\<And>x. outside L x \<Longrightarrow> m' x = m x"
  shows "get_fileno m' stream \<in> {1, 2}"
proof -
  have "load32 m' (stream + 48) = load32 m (stream + 48)"
    by (rule load32_cong) (use apart_outside [of L "stream + 48" 4] assms in \<open>auto simp: stream_on_console_def\<close>)
  then show ?thesis using assms(1) by (simp add: stream_on_console_def get_fileno_def)
qed

context syscall_gate
begin

lemma int_0x80_eq:
  assumes "installed (machine u)" "ports_io uenv = io" "call_handler uenv = call"
  shows "int_0x80 uenv n [a, b, c, d, e] u = do { s \<leftarrow> kernel_syscall env params n [a, b, c, d, e] (machine u); Some (u\<lparr>machine := s\<rparr>) }"
  using gate [OF assms(1)] assms(2,3) by (simp add: int_0x80_def)

lemma fwrite_gate:
  fixes u :: "('h, 'w) user_state" and uenv :: "('h, 'w) user_env"
  defines "m \<equiv> user_mem u" and "trace \<equiv> ''fwrite syscall called\<newline>''" and "L \<equiv> scratch env params uenv"
  assumes inst: "installed (machine u)" "ports_io uenv = io" "call_handler uenv = call" "separate_buffers env params uenv"
    and tty: "tty_ok (int_tty (machine u))" "stream_on_console L m (kaos_stdout (int_ports (machine u)))" "stream_on_console L m stream"
    and tr: "cstring_at m (env_lit env trace) (map chr trace)" "apart_from L (env_lit env trace) (length trace + 1)"
    and xs: "holds m (user_buffer uenv) xs" "0x08 \<notin> set xs" "length xs < 4096"
  shows "\<exists>u'. user_fwrite uenv (user_buffer uenv) 1 (of_nat (length xs)) stream u = Some (of_nat (length xs), u') \<and>
     printed (map chr trace @ shown xs) (int_tty (machine u)) (int_tty (machine u')) \<and> installed (machine u') \<and>
     (\<forall>a. outside ((retVal_var uenv, 4) # L) a \<longrightarrow> user_mem u' a = m a)"
proof -
  let ?U = "user_buffer uenv" and ?R = "retVal_var uenv" and ?n = "of_nat (length xs) :: u32"
  define M where "M = store_words params [?U, 1, ?n, stream, ?R] m"
  let ?f = "(files (machine u))\<lparr>std_mem := M\<rparr>"
  have mem: "std_mem (files (machine u)) = m" by (simp add: files_def m_def user_mem_def)
  have m1: "M x = m x" if "\<not> in_range params 20 x" for x using store_words_outside [OF that] by (simp add: M_def)
  then have m1L: "M x = m x" if "outside L x" for x using that by (simp add: outside_def L_def scratch_def)
  have con: "console_stream env M st" if "stream_on_console L m st" for st
    using frame_stream [OF that m1L] that by (simp add: console_stream_def stream_on_console_def apart_from_def L_def scratch_def)
  have lit: "text_at env M (env_lit env trace) (map chr trace)"
  proof -
    have "apart_from L (env_lit env trace) (length (map chr trace) + 1)" using tr(2) by simp
    from frame_string [OF tr(1) this m1L] show ?thesis
      using tr(2) by (simp add: text_at_def apart_from_def L_def scratch_def)
  qed
  have data: "holds M ?U xs" "no_overlap (env_buffer env) 4096 ?U (length xs)"
    using xs(1,3) inst(4) by (simp_all add: holds_def m1 separate_buffers_def no_overlap_def)
  have "map (param M params) [0, 1, 2, 3, 4] = [?U, 1, ?n, stream, ?R]" unfolding M_def by (rule store_words_params)
  then obtain m2 t where call: "syscall__generic_syscall_handler env SYS_CALL_FWRITE params ?f =
        Some (SYS_RET_NO_ERROR, ?f\<lparr>std_mem := store32 ?R ?n m2, std_tty := t\<rparr>)"
      "printed (map chr trace @ shown xs) (std_tty ?f) t" "same_outside env M m2"
    using syscall_fwrite_effect [of env ?f stream trace params ?U xs ?R] con tty lit data xs(2,3) inst(4)
    by (auto simp: files_def separate_buffers_def trace_def)
  let ?s = "with_files (?f\<lparr>std_mem := store32 ?R ?n m2, std_tty := t\<rparr>) (machine u)"
  have sys: "kernel_syscall env params 3 [?U, 1, ?n, stream, ?R] (machine u) = Some ?s"
    using call(1) by (simp add: kernel_syscall_def on_files_def SYS_CALL_FWRITE_def mem M_def)
  have mem': "user_mem (u\<lparr>machine := ?s\<rparr>) = store32 ?R ?n m2" by (simp add: user_mem_def with_files_def)
  have "user_fwrite uenv ?U 1 ?n stream u = Some (?n, u\<lparr>machine := ?s\<rparr>)"
    using int_0x80_eq [OF inst(1-3), of 3 ?U 1 ?n stream ?R] sys by (simp add: user_fwrite_def user_mem_def with_files_def)
  moreover have "user_mem (u\<lparr>machine := ?s\<rparr>) a = m a" if "outside ((?R, 4) # L) a" for a
  proof -
    have "\<not> in_range ?R 4 a" "\<not> in_range params 20 a" "\<not> in_range (env_buffer env) 4096 a"
      using that by (auto simp: outside_def L_def scratch_def)
    then show ?thesis unfolding mem' using call(3) m1 by (simp add: store32_outside same_outside_def)
  qed
  moreover have "printed (map chr trace @ shown xs) (int_tty (machine u)) (int_tty ?s)"
    using call(2) by (simp add: with_files_def files_def)
  moreover have "installed ?s" by (rule stays [OF inst(1) sys])
  ultimately show ?thesis by (intro exI [of _ "u\<lparr>machine := ?s\<rparr>"] conjI allI impI) simp_all
qed

lemma printf_gate:
  fixes u :: "('h, 'w) user_state" and uenv :: "('h, 'w) user_env"
  defines "m \<equiv> user_mem u" and "trace \<equiv> ''fwrite syscall called\<newline>''" and "L \<equiv> scratch env params uenv"
  assumes inst: "installed (machine u)" "ports_io uenv = io" "call_handler uenv = call" "separate_buffers env params uenv"
    and tty: "tty_ok (int_tty (machine u))" "stream_on_console L m (kaos_stdout (int_ports (machine u)))" "stream_on_console L m stream"
    and tr: "cstring_at m (env_lit env trace) (map chr trace)" "apart_from L (env_lit env trace) (length trace + 1)"
    and fmt: "cstring_at m fmt f" "no_overlap (user_buffer uenv) 4096 fmt (length f + 1)"
      "expand strs (\<lambda>_. 0) 0 f args = Some xs" "0x08 \<notin> set xs" "length xs < 4096"
      "\<And>a ys. strs a = Some ys \<Longrightarrow> cstring_at m a ys \<and> no_overlap (user_buffer uenv) 4096 a (length ys + 1)"
  shows "\<exists>u'. user_vfprintf uenv stream fmt args u = Some (of_nat (length xs), u') \<and>
     printed (map chr trace @ shown xs) (int_tty (machine u)) (int_tty (machine u')) \<and> installed (machine u') \<and>
     (\<forall>a. outside ((retVal_var uenv, 4) # L) a \<longrightarrow> user_mem u' a = m a)"
proof -
  let ?U = "user_buffer uenv"
  obtain m1 where m1: "kaos_vsprintf ?U fmt args (snd (kaos_memset ?U 0 4096 m)) = Some (of_nat (length xs), m1)" "holds m1 ?U xs"
      "\<forall>a. \<not> in_range ?U 4096 a \<longrightarrow> m1 a = m a"
    using buffer_expand [OF fmt(1,2,3,5,6)] by blast
  then have out: "m1 x = m x" if "outside L x" for x using that by (simp add: outside_def L_def scratch_def)
  let ?u = "set_user_mem m1 u"
  have sel: "user_mem ?u = m1" "int_tty (machine ?u) = int_tty (machine u)" "kaos_stdout (int_ports (machine ?u)) = kaos_stdout (int_ports (machine u))"
    by (simp_all add: user_mem_def set_user_mem_def)
  have con: "stream_on_console L m1 st" if "stream_on_console L m st" for st
    using frame_stream [OF that out] that by (simp add: stream_on_console_def)
  have "installed (machine ?u)" using inst(1) memory_irrelevant by (simp add: set_user_mem_def)
  from fwrite_gate [of ?u, OF this inst(2-4), folded L_def, unfolded sel, OF tty(1) con [OF tty(2)] con [OF tty(3)]
      frame_string [OF tr(1)[unfolded trace_def] _ out] tr(2)[unfolded trace_def] m1(2) fmt(4,5)] tr(2)
  obtain u' where u': "user_fwrite uenv ?U 1 (of_nat (length xs)) stream ?u = Some (of_nat (length xs), u')"
      "printed (map chr trace @ shown xs) (int_tty (machine u)) (int_tty (machine u'))" "installed (machine u')"
      "\<forall>a. outside ((retVal_var uenv, 4) # L) a \<longrightarrow> user_mem u' a = m1 a" unfolding trace_def by auto
  have "user_mem u' a = m a" if "outside ((retVal_var uenv, 4) # L) a" for a
    using u'(4) that out [of a] by (simp add: outside_def)
  then show ?thesis using m1(1) u'(1-3) unfolding m_def by (intro exI [of _ u']) (simp add: user_vfprintf_def)
qed

end

section \<open>Properties\<close>

text \<open>
  C20: formatted output of a program: on a kernel whose gate is installed, \<^verbatim>\<open>printf\<close> renders the format in the
  buffer of the library, the interrupt leads through the kernel's handler to the console, the trace of the call and the
  rendered text appear there, and the number of characters is returned. Only the buffers, the parameters of the call
  and the variable for its result change.
\<close>

theorem printf_reaches_console:
  fixes u :: "(kernel_handler, 'w) user_state" and uenv :: "(kernel_handler, 'w) user_env" and env :: "'w kernel_env"
  defines "m \<equiv> user_mem u" and "trace \<equiv> ''fwrite syscall called\<newline>''" and "L \<equiv> scratch (k_files env) (k_params env) uenv"
  assumes "gate_installed (machine u)" "ports_io uenv = machine_io (env_io (k_files env))" "call_handler uenv = kernel_call env"
    and "separate_buffers (k_files env) (k_params env) uenv"
    and "tty_ok (int_tty (machine u))" "stream_on_console L m (kaos_stdout (int_ports (machine u)))" "stream_on_console L m (user_stdout u)"
    and "cstring_at m (env_lit (k_files env) trace) (map chr trace)" "apart_from L (env_lit (k_files env) trace) (length trace + 1)"
    and "cstring_at m fmt f" "no_overlap (user_buffer uenv) 4096 fmt (length f + 1)"
      "expand strs (\<lambda>_. 0) 0 f args = Some xs" "0x08 \<notin> set xs" "length xs < 4096"
      "\<And>a ys. strs a = Some ys \<Longrightarrow> cstring_at m a ys \<and> no_overlap (user_buffer uenv) 4096 a (length ys + 1)"
  shows "\<exists>u'. user_printf uenv fmt args u = Some (of_nat (length xs), u') \<and> tty_ok (int_tty (machine u')) \<and>
     console (int_tty (machine u')) = con_puts (console_w (int_tty (machine u))) (color (handle (int_tty (machine u))))
       (map chr trace @ shown xs) (console (int_tty (machine u))) \<and>
     (\<forall>a. outside ((retVal_var uenv, 4) # L) a \<longrightarrow> user_mem u' a = m a)"
  using kernel_gate.printf_gate [OF assms(4-7) assms(8-10) [unfolded m_def L_def] assms(11,12) [unfolded m_def L_def trace_def]
      assms(13) [unfolded m_def] assms(14-17) assms(18) [unfolded m_def]]
  unfolding user_printf_def m_def L_def trace_def by (auto simp: printed_def)

section \<open>An example\<close>

text \<open>The example program, whose output is \<^verbatim>\<open>Program result is: 7\<close>.\<close>

definition example_format :: string where "example_format = ''Program result is: %d\<newline>''"

definition example_mem :: mem where
  "example_mem = store_bytes 0x3A00 (map chr example_format @ [0]) note_mem"

definition example_kernel :: "ata_drive kernel_env" where
  "example_kernel = \<lparr>k_files = note_env, k_isr = (\<lambda>_. 0), k_idt = 0, k_params = 0x7000, k_boot_sector = 0x5000, k_ident = (\<lambda>_. 0),
     k_phdrs = 0x6000, k_hdr = load_ehdr (\<lambda>_. 0) 0, k_loc = 0, k_cr2 = 0, k_run = (\<lambda>_. Some)\<rparr>"

definition example_env :: "(kernel_handler, ata_drive) user_env" where
  "example_env = \<lparr>ports_io = machine_io drive_io, call_handler = kernel_call example_kernel, fp_var = 0x7080, retVal_var = 0x7100,
     user_buffer = 0xA000, user_lit = (\<lambda>_. 0x3A00), other_regs = 0\<rparr>"

definition example_user :: "buddy_state \<Rightarrow> (kernel_handler, ata_drive) user_state" where
  "example_user b = \<lparr>machine = \<lparr>idtEntries = (\<lambda>_. \<lparr>offset1 = 0, selector = 0, gate_reserved = 0, gate_flags = 0, offset2 = 0\<rparr>),
       idtInfo = \<lparr>idt_size = 0, idt_offset = 0\<rparr>, intHandler_set = True, syscall_handler_set = True, intHandlers = [128 \<mapsto> Syscall],
       interrupt_flag = True, int_tty = boot_console, int_ports = (note_state b)\<lparr>std_mem := example_mem\<rparr>\<rparr>,
     user_stdin = 0, user_stdout = 0x4000, user_stderr = 0\<rparr>"

lemma example_strings:
  "cstring_at example_mem 0x3A00 (map chr example_format)"
  "cstring_at example_mem 0x3500 (map chr ''fwrite syscall called\<newline>'')" "get_fileno example_mem 0x4000 = 1"
proof -
  have z: "0 \<notin> set (map chr example_format)" "length (map chr example_format) = 22" "length (map chr ''fwrite syscall called\<newline>'') + 1 = 23"
    unfolding example_format_def by code_simp+
  have l: "length (map chr example_format) < 4294967295" "length (map chr example_format @ [0]) = 23"
    unfolding length_append z(2) by simp_all
  show "cstring_at example_mem 0x3A00 (map chr example_format)" unfolding example_mem_def by (rule store_string [OF z(1) l(1)])
  show "cstring_at example_mem 0x3500 (map chr ''fwrite syscall called\<newline>'')"
    unfolding example_mem_def by (rule store_string_other [OF _ note_strings(6)], unfold l(2) z(3)) (simp add: no_overlap_apart)
  show "get_fileno example_mem 0x4000 = 1"
    using note_stream unfolding get_fileno_def example_mem_def by (subst load32_store_other, unfold l(2)) (simp_all add: no_overlap_apart)
qed

lemma example_sel:
  "k_files example_kernel = note_env" "k_params example_kernel = 0x7000" "env_io note_env = drive_io"
  "ports_io example_env = machine_io drive_io" "call_handler example_env = kernel_call example_kernel" "user_buffer example_env = 0xA000"
  "user_mem (example_user b) = example_mem" "int_tty (machine (example_user b)) = boot_console" "user_stdout (example_user b) = 0x4000"
  "kaos_stdout (int_ports (machine (example_user b))) = 0x4000" "gate_installed (machine (example_user b))"
  "env_lit note_env ''fwrite syscall called\<newline>'' = 0x3500"
  by (simp_all add: example_kernel_def example_env_def example_user_def user_mem_def note_state_def gate_installed_def note_env_def note_lit_def)

lemma example_layout:
  "separate_buffers note_env 0x7000 example_env" "apart_from (scratch note_env 0x7000 example_env) 0x4030 4"
  "apart_from (scratch note_env 0x7000 example_env) 0x3500 23" "no_overlap 0xA000 4096 0x3A00 23"
  by (simp_all add: separate_buffers_def apart_from_def scratch_def note_sel example_sel no_overlap_apart)

theorem printf_reaches_console_witness:
  "\<forall>b. \<exists>u'. example_main example_env (example_user b) = Some (150, u') \<and>
     console (int_tty (machine u')) = con_puts 80 0 (map chr (''fwrite syscall called\<newline>'' @ ''Program result is: 7\<newline>'')) (console boot_console)"
proof
  fix b
  let ?u = "example_user b" and ?xs = "map chr ''Program result is: 7\<newline>''" and ?tr = "''fwrite syscall called\<newline>''"
  have len: "length ?tr + 1 = 23" "length (map chr example_format) + 1 = 23" unfolding example_format_def by code_simp+
  have ex: "expand (\<lambda>_. None) (\<lambda>_. 0) 0 (map chr example_format) [7] = Some ?xs" unfolding example_format_def by code_simp
  have ch: "0x08 \<notin> set ?xs" "length ?xs < 4096" "shown ?xs = ?xs" "length ?xs = 21" by code_simp+
  have stream: "stream_on_console (scratch note_env 0x7000 example_env) example_mem 0x4000"
    using example_strings(3) example_layout(2) by (simp add: stream_on_console_def)
  have "\<exists>u'. user_printf example_env 0x3A00 [7] ?u = Some (of_nat (length ?xs), u') \<and> tty_ok (int_tty (machine u')) \<and>
     console (int_tty (machine u')) = con_puts (console_w (int_tty (machine ?u))) (color (handle (int_tty (machine ?u))))
       (map chr ?tr @ shown ?xs) (console (int_tty (machine ?u))) \<and>
     (\<forall>a. outside ((retVal_var example_env, 4) # scratch (k_files example_kernel) (k_params example_kernel) example_env) a \<longrightarrow>
        user_mem u' a = user_mem ?u a)"
    by (rule printf_reaches_console [where env = example_kernel and f = "map chr example_format" and strs = "\<lambda>_. None"],
        unfold example_sel len)
      (rule refl example_sel(11) example_strings example_layout stream boot_console_ok(1) ex ch(1,2) TrueI | simp)+
  then obtain u' where u': "user_printf example_env 0x3A00 [7] ?u = Some (of_nat (length ?xs), u')"
      "console (int_tty (machine u')) = con_puts 80 0 (map chr ?tr @ ?xs) (console boot_console)"
    unfolding ch(3) example_sel boot_console_ok(2,3) by blast
  have "example_main example_env ?u = Some (150, u')"
    using u'(1) by (simp add: example_main_def example_env_def)
  with u'(2) show "\<exists>u'. example_main example_env ?u = Some (150, u') \<and>
     console (int_tty (machine u')) = con_puts 80 0 (map chr (?tr @ ''Program result is: 7\<newline>'')) (console boot_console)"
    unfolding map_append by blast
qed

end
