(* ===== verification/Boot.thy ===== *)
theory Boot
  imports Kernel
begin

text \<open>
  The start of the kernel across its components: what the request for the stack of \<^verbatim>\<open>kmain\<close> does to the frames that the
  arena of the allocator gets next (\<^verbatim>\<open>src/kernel/main.c\<close>, \<^verbatim>\<open>mm/mm.c\<close>, \<^verbatim>\<open>mm/buddy_allocator.c\<close>), the first message on the
  console, and names in paths that are longer than the array they are copied to (\<^verbatim>\<open>src/kernel/fs/fat16_read.c\<close>).
\<close>

section \<open>Requests of several pages\<close>

lemma page_of_pages: "p < 1048576 \<Longrightarrow> page_of (of_nat p * 4096) = of_nat p"
  using page_of_base_addr [of p] by simp

lemma page_walk_aligned: "unat j < 1048576 \<Longrightarrow> p < 1048576 \<Longrightarrow> (j * 4096 AND NOT 0xFFF) OR (of_nat p * 4096 AND 0xFFF) = (j * 4096 :: u32)"
proof -
  assume "unat j < 1048576" "p < 1048576"
  then have "(of_nat p * 4096 :: u32) = page_of (of_nat p * 4096) * 4096" using page_of_pages by simp
  then have "(of_nat p * 4096 :: u32) AND - 4096 = of_nat p * 4096" by (simp add: page_base_eq)
  then have "(of_nat p * 4096 :: u32) AND 0xFFF = (of_nat p * 4096 AND - 4096) AND 0xFFF" by simp
  also have "\<dots> = 0" by (rule bit_word_eqI) (auto simp: entry_bits)
  finally show "(j * 4096 AND NOT 0xFFF) OR (of_nat p * 4096 AND 0xFFF) = j * 4096"
    using page_aligned_mult [OF \<open>unat j < 1048576\<close>] by simp
qed

text \<open>The pages from \<open>p\<close> on are mapped to the frames from \<open>f\<close> on.\<close>

definition map_run :: "nat \<Rightarrow> nat \<Rightarrow> nat \<Rightarrow> paging_state \<Rightarrow> SYS_RET \<times> paging_state" where
  "map_run p f n ps = fold (\<lambda>k (_, ps). arch_paging_map (of_nat (p + k) * 4096) (of_nat (f + k) * 4096) ps) [0..<n] (SYS_RET_NO_ERROR, ps)"

lemma map_blocks_run: "n < 4294967296 \<Longrightarrow> mm_map_blocks (of_nat p) (of_nat f) (of_nat n) ps = map_run p f n ps"
  by (simp add: mm_map_blocks_def map_run_def unat_of_nat_u32 distrib_right)

lemma map_run_Suc: "map_run p f (Suc n) ps = arch_paging_map (of_nat (p + n) * 4096) (of_nat (f + n) * 4096) (snd (map_run p f n ps))"
  by (simp add: map_run_def split_beta)

lemma map_run_ok: "fst (map_run p f n ps) = SYS_RET_NO_ERROR"
proof (cases n)
  case (Suc k)
  then show ?thesis using arch_paging_map_ok by (metis map_run_Suc fst_conv)
qed (simp add: map_run_def)

lemma map_run_pde: "pde_ok ps \<Longrightarrow> pde_ok (snd (map_run p f n ps))"
  by (induction n) (simp_all add: map_run_Suc pde_ok_map, simp add: map_run_def)

lemma map_run_outside:
  "pde_ok ps \<Longrightarrow> p + n \<le> 1048576 \<Longrightarrow> \<not> (p \<le> unat (page_of w) \<and> unat (page_of w) < p + n) \<Longrightarrow>
     mmu_walk (snd (map_run p f n ps)) w = mmu_walk ps w"
proof (induction n)
  case (Suc n)
  have "page_of w \<noteq> of_nat (p + n)"
  proof
    assume "page_of w = of_nat (p + n)"
    then have "unat (page_of w) = p + n" using Suc.prems(2) by (simp add: unat_of_nat_u32 del: of_nat_add)
    with Suc.prems(3) show False by simp
  qed
  moreover have "mmu_walk (snd (map_run p f n ps)) w = mmu_walk ps w" using Suc.prems by (intro Suc.IH) auto
  ultimately show ?case
    using Suc.prems by (simp add: map_run_Suc map_walk map_run_pde page_of_pages del: of_nat_add)
qed (simp add: map_run_def)

lemma map_run_walk:
  "pde_ok ps \<Longrightarrow> p + n \<le> 1048576 \<Longrightarrow> f + n \<le> 1048576 \<Longrightarrow> k < n \<Longrightarrow>
     mmu_walk (snd (map_run p f n ps)) (of_nat (p + k) * 4096) = Some (of_nat (f + k) * 4096)"
proof (induction n)
  case (Suc n)
  have pg: "page_of (of_nat (p + k) * 4096) = of_nat (p + k)" "page_of (of_nat (p + n) * 4096) = of_nat (p + n)"
    using Suc.prems by (simp_all add: page_of_pages del: of_nat_add)
  have un: "unat (of_nat (f + n) :: u32) < 1048576" "unat (of_nat (p + k) :: u32) = p + k" "unat (of_nat (p + n) :: u32) = p + n"
    using Suc.prems by (simp_all add: unat_of_nat_u32 del: of_nat_add)
  show ?case
  proof (cases "k = n")
    case True
    then show ?thesis using Suc.prems page_walk_aligned [OF un(1), of "p + k"] by (simp add: map_run_Suc map_walk map_run_pde del: of_nat_add)
  next
    case False
    then have "(of_nat (p + k) :: u32) \<noteq> of_nat (p + n)" using un by (metis add_left_cancel)
    with False show ?thesis using Suc by (simp add: map_run_Suc map_walk map_run_pde pg del: of_nat_add)
  qed
qed simp

text \<open>What the manager does for a request of \<open>n\<close> pages: it maps all of them and marks the first page and the first frame.\<close>

lemma mm_alloc_pages:
  assumes "0 < n" "n < 1048576" "p + n \<le> 1048576" "\<not> VM_ISALLOCATED_PAGE s (of_nat p)" "lowest_free s (of_nat f)" "f < 1048576"
  shows "mm_alloc (of_nat p * 4096) (of_nat n * 4096) fl s = Some (SYS_RET_NO_ERROR, Some (of_nat p * 4096),
     VM_ALLOC_PAGE (of_nat p) (ALLOC_PAGE (of_nat f) (s\<lparr>mm_paging := snd (map_run p f n (mm_paging s))\<rparr>)))"
proof -
  have pg: "page_of (of_nat p * 4096) = of_nat p" "page_of (of_nat n * 4096) = (of_nat n :: u32)"
    "page_of (of_nat f * 4096) = of_nat f" using assms(1,2,3,6) by (simp_all add: page_of_pages)
  have "unat (of_nat n :: u32) = n" using assms(2) by (simp add: unat_of_nat_u32)
  then have nz: "(of_nat n :: u32) \<noteq> 0" using assms(1) by auto
  obtain ps where ps: "map_run p f n (mm_paging s) = (SYS_RET_NO_ERROR, ps)" using map_run_ok by (metis prod.collapse)
  have run: "mm_map_blocks (of_nat p) (of_nat f) (of_nat n) (mm_paging s) = (SYS_RET_NO_ERROR, ps)"
    using map_blocks_run [of n p f] assms(2) ps by simp
  show ?thesis
    unfolding mm_alloc_def page_of_def [symmetric] pg Let_def mm_find_Some [OF assms(5)]
    using assms(4) nz ps run by (simp add: pg flip: page_of_def)
qed

lemma mm_inv_remap:
  assumes "mm_inv s" "pde_ok ps" "\<And>v. v \<in> owned s \<Longrightarrow> mmu_walk ps v = mmu_walk (mm_paging s) v"
  shows "mm_inv (s\<lparr>mm_paging := ps\<rparr>)"
proof -
  let ?s = "s\<lparr>mm_paging := ps\<rparr>"
  have own: "owned ?s = owned s" by (simp add: owned_def VM_ISALLOCATED_PAGE_def)
  have "pte_present ps v \<and> frame_at ?s v = frame_at s v" if "v \<in> owned s" for v
  proof -
    have w: "mmu_walk ps v = Some (frame_at s v)" using owned_walk [OF assms(1) that] assms(3) [OF that] by simp
    have "page_of v * 4096 = v" using that by (simp add: owned_def)
    then have "v AND - 4096 = v" by (simp add: page_base_eq)
    then have "v AND 0xFFF = (v AND - 4096) AND 0xFFF" by simp
    also have "\<dots> = 0" by (rule bit_word_eqI) (auto simp: entry_bits)
    finally have "v AND 0xFFF = 0" .
    with w show ?thesis by (auto simp: pte_present_def walk_tables [OF assms(2)] Let_def frame_at_def arch_paging_virt_to_phys_def split: if_splits)
  qed
  then have "\<forall>v \<in> owned s. pte_present ps v \<and> frame_at ?s v = frame_at s v" by blast
  moreover from this have "inj_on (frame_at ?s) (owned s) \<longleftrightarrow> inj_on (frame_at s) (owned s)" by (intro inj_on_cong) blast
  ultimately show ?thesis using assms(1,2) by (simp add: mm_inv_def own ISALLOCATED_PAGE_def VM_ISALLOCATED_PAGE_def)
qed

text \<open>
  After such a request the invariant still holds, since the pages behind the first one do not count as handed out.
\<close>

lemma mm_alloc_pages_inv:
  assumes "mm_inv s" "0 < n" "p + n \<le> 1048576" "lowest_free s (of_nat f)" "f + n \<le> 1048576"
    and "\<And>q. p \<le> unat q \<Longrightarrow> unat q < p + n \<Longrightarrow> \<not> VM_ISALLOCATED_PAGE s q"
    and "s' = VM_ALLOC_PAGE (of_nat p) (ALLOC_PAGE (of_nat f) (s\<lparr>mm_paging := snd (map_run p f n (mm_paging s))\<rparr>))"
  shows "mm_inv s'"
proof -
  let ?v = "of_nat p * 4096 :: u32"
  let ?a = "mm_after_alloc ?v (of_nat f) s"
  have up: "unat (of_nat p :: u32) = p" using assms(2,3) by (simp add: unat_of_nat_u32)
  have pg: "page_of ?v = of_nat p" using assms(2,3) by (simp add: page_of_pages)
  have free: "\<not> VM_ISALLOCATED_PAGE s (page_of ?v)" unfolding pg using assms(2,6) up by simp
  then have inv: "mm_inv ?a" using mm_inv_after_alloc [OF assms(1) _ assms(4)] by simp
  have pde: "pde_ok (mm_paging s)" using assms(1) by (simp add: mm_inv_def)
  have s': "s' = ?a\<lparr>mm_paging := snd (map_run p f n (mm_paging s))\<rparr>"
    by (simp add: assms(7) mm_after_alloc_def pg VM_ALLOC_PAGE_def ALLOC_PAGE_def)
  have "\<not> kernel_window ?v" using assms(1) free by (auto simp: mm_inv_def)
  then have own: "owned ?a = insert ?v (owned s)" using owned_after_alloc [of ?v "of_nat f" s] pg by simp
  have "mmu_walk (snd (map_run p f n (mm_paging s))) w = mmu_walk (mm_paging ?a) w" if "w \<in> owned ?a" for w
  proof (cases "w = ?v")
    case True
    have "unat (of_nat f :: u32) < 1048576" using assms(4) by (simp add: lowest_free_def)
    then show ?thesis using True map_run_walk [OF pde assms(3,5,2)] page_walk_aligned [of "of_nat f" p] assms(2,3)
      by (simp add: mm_after_alloc_def map_walk [OF pde] pg)
  next
    case False
    then have w: "w \<in> owned s" using that own by simp
    then have "\<not> (p \<le> unat (page_of w) \<and> unat (page_of w) < p + n)" using assms(6) by (auto simp: owned_def)
    moreover from this have "page_of w \<noteq> page_of ?v" unfolding pg using up assms(2) by auto
    ultimately show ?thesis using map_run_outside [OF pde assms(3)] by (simp add: mm_after_alloc_def map_walk [OF pde])
  qed
  then show ?thesis unfolding s' by (intro mm_inv_remap [OF inv] map_run_pde pde)
qed

section \<open>The frames of the arena\<close>

lemma arena_pages_append: "arena_pages i (a + b) m = do { m1 \<leftarrow> arena_pages i a m; arena_pages (i + a) b m1 }"
proof (induction a arbitrary: i m)
  case (Suc a)
  show ?case
  proof (cases "mm_alloc (0xC8000000 + of_nat i * 4096) 4096 0 m")
    case (Some x)
    then show ?thesis using Suc by (cases x) simp
  qed simp
qed simp

lemma mm_alloc_keeps:
  assumes "mm_alloc v 4096 fl m = Some (SYS_RET_NO_ERROR, out, m')" "pde_ok (mm_paging m)"
  shows "pde_ok (mm_paging m')" "page_of w \<noteq> page_of v \<Longrightarrow> mmu_walk (mm_paging m') w = mmu_walk (mm_paging m) w"
proof -
  have small: "unat (4096 :: u32) < 8192" by simp
  show "pde_ok (mm_paging m')"
    by (cases rule: mm_alloc_cases [OF small, of v fl m]) (use assms in \<open>auto simp: mm_after_alloc_def pde_ok_map\<close>)
  show "page_of w \<noteq> page_of v \<Longrightarrow> mmu_walk (mm_paging m') w = mmu_walk (mm_paging m) w"
    by (cases rule: mm_alloc_cases [OF small, of v fl m]) (use assms in \<open>auto simp: mm_after_alloc_def map_walk\<close>)
qed

lemma arena_page: "819200 + i < 1048576 \<Longrightarrow> (0xC8000000 + of_nat i * 4096 :: u32) = of_nat (819200 + i) * 4096 \<and>
     page_of (0xC8000000 + of_nat i * 4096) = of_nat (819200 + i)"
  using page_of_pages [of "819200 + i"] by (simp add: distrib_right)

lemma arena_pages_keep:
  assumes "arena_pages i n m = Some m'" "pde_ok (mm_paging m)" "819200 + i + n \<le> 1048576"
    and "\<not> (819200 + i \<le> unat (page_of w) \<and> unat (page_of w) < 819200 + i + n)"
  shows "mmu_walk (mm_paging m') w = mmu_walk (mm_paging m) w"
  using assms
proof (induction n arbitrary: i m)
  case (Suc n)
  obtain out m1 where m1: "mm_alloc (0xC8000000 + of_nat i * 4096) 4096 0 m = Some (SYS_RET_NO_ERROR, out, m1)" "arena_pages (i + 1) n m1 = Some m'"
    using Suc.prems(1) by (auto simp: bind_eq_Some_conv split: if_splits)
  have "819200 + i < 1048576" using Suc.prems(3) by simp
  then have pg: "page_of (0xC8000000 + of_nat i * 4096) = of_nat (819200 + i)" "unat (of_nat (819200 + i) :: u32) = 819200 + i"
    using arena_page [of i] by (blast, simp add: unat_of_nat_u32 del: of_nat_add)
  have "page_of w \<noteq> page_of (0xC8000000 + of_nat i * 4096)"
  proof
    assume "page_of w = page_of (0xC8000000 + of_nat i * 4096)"
    then have "unat (page_of w) = 819200 + i" unfolding pg by (simp only: pg(2))
    with Suc.prems(4) show False by simp
  qed
  with mm_alloc_keeps [OF m1(1) Suc.prems(2)] have "mmu_walk (mm_paging m1) w = mmu_walk (mm_paging m) w" "pde_ok (mm_paging m1)" by auto
  with Suc.IH [OF m1(2)] Suc.prems(3,4) show ?case by auto
qed simp

text \<open>Where the lowest free frames are consecutive, the pages of the arena get them in order.\<close>

lemma arena_pages_frames:
  assumes "mm_inv m" "819200 + i + n \<le> 1048576" "f + n \<le> 1048576"
    and "\<And>g. unat g < f \<Longrightarrow> ISALLOCATED_PAGE m g" "\<And>g. f \<le> unat g \<Longrightarrow> unat g < f + n \<Longrightarrow> \<not> ISALLOCATED_PAGE m g"
    and "\<And>q. 819200 + i \<le> unat q \<Longrightarrow> unat q < 819200 + i + n \<Longrightarrow> \<not> VM_ISALLOCATED_PAGE m q"
  shows "\<exists>m'. arena_pages i n m = Some m' \<and> mm_inv m' \<and>
     (\<forall>k<n. mmu_walk (mm_paging m') (of_nat (819200 + i + k) * 4096) = Some (of_nat (f + k) * 4096))"
  using assms
proof (induction n arbitrary: i f m)
  case (Suc n)
  let ?v = "0xC8000000 + of_nat i * 4096 :: u32"
  have i: "819200 + i < 1048576" and f: "f < 1048576" using Suc.prems(2,3) by simp_all
  note pg = arena_page [OF i]
  have un: "unat (of_nat (819200 + i) :: u32) = 819200 + i" "unat (of_nat f :: u32) = f" using i f by (simp_all add: unat_of_nat_u32 del: of_nat_add)
  have free: "\<not> VM_ISALLOCATED_PAGE m (page_of ?v)" using Suc.prems(6) [of "of_nat (819200 + i)"] un(1) pg by simp
  have low: "lowest_free m (of_nat f)" unfolding lowest_free_def un using f Suc.prems(4) Suc.prems(5) [of "of_nat f"] un(2) by simp
  let ?m = "mm_after_alloc ?v (of_nat f) m"
  have al: "mm_alloc ?v 4096 0 m = Some (SYS_RET_NO_ERROR, Some (page_of ?v * 4096), ?m)" by (rule mm_alloc_one [OF free low]) simp
  have inv: "mm_inv ?m" by (rule mm_inv_after_alloc [OF Suc.prems(1) free low])
  have fr: "ISALLOCATED_PAGE ?m g \<longleftrightarrow> unat g = f \<or> ISALLOCATED_PAGE m g" for g
    using un(2) by (auto simp: mm_after_alloc_def frames.used_mark word_unat_eq_iff)
  have vm: "VM_ISALLOCATED_PAGE ?m q \<longleftrightarrow> unat q = 819200 + i \<or> VM_ISALLOCATED_PAGE m q" for q
    using un(1) pg by (auto simp: mm_after_alloc_def pages.used_mark word_unat_eq_iff)
  have "\<exists>m'. arena_pages (i + 1) n ?m = Some m' \<and> mm_inv m' \<and>
     (\<forall>k<n. mmu_walk (mm_paging m') (of_nat (819200 + (i + 1) + k) * 4096) = Some (of_nat (Suc f + k) * 4096))"
    using Suc.prems inv by (intro Suc.IH) (auto simp: fr vm less_Suc_eq)
  then obtain m' where m': "arena_pages (i + 1) n ?m = Some m'" "mm_inv m'"
      "\<And>k. k < n \<Longrightarrow> mmu_walk (mm_paging m') (of_nat (819200 + (i + 1) + k) * 4096) = Some (of_nat (Suc f + k) * 4096)" by blast
  have pde: "pde_ok (mm_paging m)" "pde_ok (mm_paging ?m)" using Suc.prems(1) inv by (simp_all add: mm_inv_def)
  have v: "page_of (of_nat (819200 + i) * 4096) = of_nat (819200 + i)" by (rule page_of_pages [OF i])
  have "mmu_walk (mm_paging m') (of_nat (819200 + i) * 4096) = mmu_walk (mm_paging ?m) (of_nat (819200 + i) * 4096)"
    by (rule arena_pages_keep [OF m'(1) pde(2)]) (use Suc.prems(2) in \<open>simp_all add: v un del: of_nat_add\<close>)
  also have "\<dots> = Some (of_nat f * 4096)"
    using page_walk_aligned [of "of_nat f" "819200 + i"] un f i pg by (simp add: mm_after_alloc_def map_walk [OF pde(1)] v del: of_nat_add)
  finally have "mmu_walk (mm_paging m') (of_nat (819200 + i + k) * 4096) = Some (of_nat (f + k) * 4096)" if "k < Suc n" for k
    using m'(3) [of "k - 1"] that by (cases k) (simp_all add: ac_simps del: of_nat_add of_nat_Suc)
  with al m'(1,2) show ?case by auto
qed auto

lemma buddy_init_pages:
  assumes "buddy_allocator__init s = Some (ret, b)"
  shows "arena_pages 0 5120 (buddy_mm s) = Some (buddy_mm b)"
proof -
  have n: "unat (tree_area_size div 4096) = 5120" by (simp add: tree_area_size_def)
  have node: "buddy_mm s2 = buddy_mm s1" if "buddy_allocator__alloc_node s1 = Some (r, out, s2)" for s1 r out s2
    using that by (auto simp: buddy_allocator__alloc_node_def Let_def bind_eq_Some_conv split: option.splits if_splits)
  show ?thesis using assms unfolding buddy_allocator__init_def n
    by (auto simp: Let_def bind_eq_Some_conv set_info_def dest!: node split: if_splits)
qed

text \<open>The console after its initialisation.\<close>

lemma start_console:
  assumes "\<not> vga_tty_initialized t"
  defines "t' \<equiv> tty_setcolors VGA_COLOR_GRAY VGA_COLOR_BLACK (tty_init t)"
  shows "tty_ok t'" "console_w t' = 80" "color (handle t') = 7" "console t' = Console (replicate 25 (replicate 80 0)) 0 0"
proof -
  have h: "handle t' = \<lparr>width = 80, height = 25, cursorx = 0, cursory = 0, color = 7\<rparr>"
    using assms(1) by (simp add: t'_def tty_setcolors_def tty_init_def arch_tty_init_def VGA_COLOR_GRAY_def VGA_COLOR_BLACK_def)
  show "tty_ok t'" "color (handle t') = 7" by (simp_all add: tty_ok_def h)
  show w: "console_w t' = 80" by (simp add: console_w_def h)
  have c: "cells t' i = 0" if "i < 2000" for i
    using that assms(1) by (simp add: t'_def tty_setcolors_def tty_init_def arch_tty_init_def for_update_apply)
  have "console_rows t' = replicate 25 (replicate 80 0)"
    by (rule nth_equalityI) (auto simp: h w c intro!: nth_equalityI)
  then show "console t' = Console (replicate 25 (replicate 80 0)) 0 0" by (simp add: console_def h)
qed

definition banner :: "string" where
  "banner = ''KaracaOS version 0.0.1\<newline>''"

lemma banner_printed:
  assumes "cstring_at m p (map chr banner)" "tty_ok t"
  shows "\<exists>n t'. tty_puts m p 30 t = Some (n, t') \<and> printed (map chr banner) t t'"
proof -
  have w: "0x08 \<notin> set (map chr banner)" "length (map chr banner) < 30" unfolding banner_def by code_simp+
  have z: "m (p + of_nat (length (map chr banner))) = 0" using assms(1) by (simp add: cstring_at_nth)
  have "holds m p (map chr banner) \<and> 0 \<notin> set (map chr banner)" using assms(1) by (rule cstring_holds)
  with puts_printed [OF assms(2), of m p "map chr banner" 30] w z show ?thesis by fastforce
qed

text \<open>
  The start of the memory: with the manager initialised and at least 16 free frames in a row, the request for the
  stack maps all 16 pages but leaves 15 of the frames free.
\<close>

lemma kmain_memory_eq:
  assumes "mm_boot ps (buddy_mm (std_buddy (int_ports s)))"
    and "mm_init info entry_at (buddy_mm (std_buddy (int_ports s))) = Some (SYS_RET_NO_ERROR, m)"
    and "lowest_free m (of_nat f)" "f + 16 \<le> 1048576"
    and "cstring_at (std_mem (int_ports s)) (env_lit (k_files env) banner) (map chr banner)" "\<not> vga_tty_initialized (int_tty s)"
  defines "m' \<equiv> VM_ALLOC_PAGE 851712 (ALLOC_PAGE (of_nat f) (m\<lparr>mm_paging := snd (map_run 851712 f 16 (mm_paging m))\<rparr>))"
  shows "\<exists>t M. kmain_memory env info entry_at s = Some (with_files ((int_ports s)\<lparr>std_tty := t,
        std_buddy := (std_buddy (int_ports s))\<lparr>buddy_mm := m'\<rparr>, std_mem := M\<rparr>) s) \<and> tty_ok t" and "mm_inv m'"
    and "mm_inv m" "\<And>v. VM_ISALLOCATED_PAGE m (page_of v) \<longleftrightarrow> kernel_window v"
proof -
  show inv: "mm_inv m" by (rule mm_inv_init [OF assms(1,2)])
  show vm: "VM_ISALLOCATED_PAGE m (page_of v) \<longleftrightarrow> kernel_window v" for v by (rule mm_init_pages [OF assms(1,2)])
  have free: "\<not> VM_ISALLOCATED_PAGE m q" if "851712 \<le> unat q" "unat q < 851712 + 16" for q
    using vm [of "q * 4096"] page_of_mult [of q] that by (auto simp: kernel_window_def)
  have "mm_alloc (of_nat 851712 * 4096) (of_nat 16 * 4096) 0 m = Some (SYS_RET_NO_ERROR, Some (of_nat 851712 * 4096), m')"
    unfolding m'_def using free [of 851712] mm_alloc_pages [of 16 851712 m f 0] assms(3,4) by simp
  then have al: "mm_alloc 0xCFF00000 0x10000 0 m = Some (SYS_RET_NO_ERROR, Some 0xCFF00000, m')" by simp
  show "mm_inv m'"
    using mm_alloc_pages_inv [OF inv, of 16 851712 f m'] assms(3,4) free by (simp add: m'_def)
  note c = start_console [OF assms(6)]
  obtain n t where t: "tty_puts (std_mem (int_ports s)) (env_lit (k_files env) banner) 30
      (tty_setcolors VGA_COLOR_GRAY VGA_COLOR_BLACK (tty_init (int_tty s))) = Some (n, t)"
      "printed (map chr banner) (tty_setcolors VGA_COLOR_GRAY VGA_COLOR_BLACK (tty_init (int_tty s))) t"
    using banner_printed [OF assms(5) c(1)] by blast
  show "\<exists>t M. kmain_memory env info entry_at s = Some (with_files ((int_ports s)\<lparr>std_tty := t,
        std_buddy := (std_buddy (int_ports s))\<lparr>buddy_mm := m'\<rparr>, std_mem := M\<rparr>) s) \<and> tty_ok t"
    using t(2) c assms(2) al unfolding kmain_memory_def Let_def
    by (intro exI [of _ t] exI [of _ "store32 0xCFF0FFF4 0 (store32 0xCFF0FFF8 0 (std_mem (int_ports s)))"] conjI) (simp_all add: t(1) [unfolded banner_def] printed_def)
qed

lemma kmain_arena:
  assumes "mm_inv m" "\<And>v. VM_ISALLOCATED_PAGE m (page_of v) \<longleftrightarrow> kernel_window v"
    and "lowest_free m (of_nat f)" "f + 16 \<le> 1048576" "\<And>g. f \<le> unat g \<Longrightarrow> unat g < f + 16 \<Longrightarrow> \<not> ISALLOCATED_PAGE m g"
    and "5121 \<le> card (free_frames m)" "buddy_nodes b0 = Map.empty"
    and "m' = VM_ALLOC_PAGE 851712 (ALLOC_PAGE (of_nat f) (m\<lparr>mm_paging := snd (map_run 851712 f 16 (mm_paging m))\<rparr>))" "mm_inv m'"
  shows "\<exists>b. buddy_allocator__init (b0\<lparr>buddy_mm := m'\<rparr>) = Some (SYS_RET_NO_ERROR, b) \<and>
     (\<forall>k<15. mmu_walk (mm_paging (buddy_mm b)) (of_nat (851713 + k) * 4096) = Some (of_nat (Suc f + k) * 4096) \<and>
        mmu_walk (mm_paging (buddy_mm b)) (of_nat (819200 + k) * 4096) = Some (of_nat (Suc f + k) * 4096))"
proof -
  have f: "unat (of_nat f :: u32) = f" using assms(4) by (simp add: unat_of_nat_u32)
  have fr: "ISALLOCATED_PAGE m' g \<longleftrightarrow> unat g = f \<or> ISALLOCATED_PAGE m g" for g
    using f by (auto simp: assms(8) frames.used_mark word_unat_eq_iff)
  have vm: "VM_ISALLOCATED_PAGE m' q \<longleftrightarrow> unat q = 851712 \<or> VM_ISALLOCATED_PAGE m q" for q
    by (auto simp: assms(8) pages.used_mark word_unat_eq_iff)
  have free: "\<not> VM_ISALLOCATED_PAGE m' q" if "unat q < 786432 \<or> 819200 \<le> unat q \<and> unat q < 824320" for q
    using that assms(2) [of "q * 4096"] page_of_mult [of q] by (auto simp: vm kernel_window_def)
  have below: "ISALLOCATED_PAGE m g" if "unat g < f" for g using assms(3) that f by (simp add: lowest_free_def)
  have "free_frames m' = free_frames m - {of_nat f}" using f by (auto simp: free_frames_def fr word_unat_eq_iff)
  moreover have "of_nat f \<in> free_frames m" using assms(3) by (simp add: free_frames_def lowest_free_def)
  ultimately have "card (free_frames m) = Suc (card (free_frames m'))" using card_Suc_Diff1 [of "free_frames m" "of_nat f"] by simp
  then have room: "5120 \<le> card (free_frames m')" using assms(6) by simp
  obtain b where b: "buddy_allocator__init (b0\<lparr>buddy_mm := m'\<rparr>) = Some (SYS_RET_NO_ERROR, b)"
    using buddy_init_spec [of "b0\<lparr>buddy_mm := m'\<rparr>"] assms(7,9) room free by auto
  have "arena_pages 0 (15 + 5105) m' = Some (buddy_mm b)" using buddy_init_pages [OF b] by simp
  then obtain m1 where m1: "arena_pages 0 15 m' = Some m1" "arena_pages 15 5105 m1 = Some (buddy_mm b)"
    unfolding arena_pages_append by (auto simp: bind_eq_Some_conv)
  obtain m2 where m2: "arena_pages 0 15 m' = Some m2" "mm_inv m2"
      "\<And>k. k < 15 \<Longrightarrow> mmu_walk (mm_paging m2) (of_nat (819200 + 0 + k) * 4096) = Some (of_nat (Suc f + k) * 4096)"
    using arena_pages_frames [of m' 0 15 "Suc f"] assms(4,5,9) fr below free by (force simp: less_Suc_eq)
  have pde: "pde_ok (mm_paging m)" "pde_ok (mm_paging m')" "pde_ok (mm_paging m1)" using assms(1,9) m1(1) m2(1,2) by (auto simp: mm_inv_def)
  have pg: "unat (page_of (of_nat p * 4096)) = p" if "p < 1048576" for p using that page_of_pages [of p] by (simp add: unat_of_nat_u32)
  have arena: "mmu_walk (mm_paging (buddy_mm b)) (of_nat (819200 + k) * 4096) = Some (of_nat (Suc f + k) * 4096)" if "k < 15" for k
  proof -
    have p: "unat (page_of (of_nat (819200 + k) * 4096)) = 819200 + k" using that by (intro pg) simp
    have "mmu_walk (mm_paging (buddy_mm b)) (of_nat (819200 + k) * 4096) = mmu_walk (mm_paging m1) (of_nat (819200 + k) * 4096)"
      by (rule arena_pages_keep [OF m1(2) pde(3)]) (use that in \<open>simp_all add: p del: of_nat_add\<close>)
    then show ?thesis using m2(3) [OF that] m1(1) m2(1) by simp
  qed
  moreover have "mmu_walk (mm_paging (buddy_mm b)) (of_nat (851713 + k) * 4096) = Some (of_nat (Suc f + k) * 4096)" if "k < 15" for k
  proof -
    have p: "unat (page_of (of_nat (851713 + k) * 4096)) = 851713 + k" using that by (intro pg) simp
    have "mmu_walk (mm_paging (buddy_mm b)) (of_nat (851713 + k) * 4096) = mmu_walk (mm_paging m') (of_nat (851713 + k) * 4096)"
      by (rule arena_pages_keep [of 0 "15 + 5105" m', OF _ pde(2)]) (use buddy_init_pages [OF b] that in \<open>simp_all add: p del: of_nat_add\<close>)
    also have "\<dots> = Some (of_nat (Suc f + k) * 4096)"
      using map_run_walk [OF pde(1), of 851712 16 f "Suc k"] assms(4) that by (simp add: assms(8) ac_simps)
    finally show ?thesis .
  qed
  ultimately show ?thesis using b by blast
qed

section \<open>Names that are too long\<close>

text \<open>A component of eleven or more characters does not fit in the array of twelve: its end mark is written behind it.\<close>

lemma read_fragment_long:
  assumes "0 \<notin> set nm" "chr CHR ''/'' \<notin> set nm" "c = 0 \<or> c = chr CHR ''/''" "11 \<le> i + length nm"
  shows "read_fragment (nm @ c # rest) i frag = None"
  using assms
proof (induction nm arbitrary: i frag)
  case Nil
  then show ?case by (auto simp: chr_def)
qed auto

context mounted_disk
begin

lemma find_file_long:
  assumes "ready w" "cstring_at m path (chr CHR ''/'' # nm)" "chr CHR ''/'' \<notin> set nm" "11 \<le> length nm" "length nm \<le> 1000"
    and "cluster_on_disk ctx (root_cluster ctx 0)"
  shows "\<exists>r. fat16_read_root_dir io ctx (ctx_buffer ctx) (cluster_size ctx div 32) 0 (m, w) = Some (SYS_RET_NO_ERROR, r)"
    and "read_fragment (path_copy m path) 0 (replicate 11 space @ [0]) = None"
    and "fat16_find_file_entry io junk cmp ctx path (m, w) = None"
proof -
  have "0 \<notin> set (chr CHR ''/'' # nm)" using cstring_holds [OF assms(2)] by blast
  then have nz: "0 \<notin> set nm" by simp
  have len: "chr CHR ''/'' # nm \<noteq> []" "length (chr CHR ''/'' # nm) \<le> 1022" using assms(5) by simp_all
  obtain rest where copy: "path_copy m path = (chr CHR ''/'' # nm) @ 0 # rest" using path_copy_cstring [OF assms(2) len] by blast
  show frag: "read_fragment (path_copy m path) 0 (replicate 11 space @ [0]) = None"
    unfolding copy append_Cons read_fragment_slash by (rule read_fragment_long [OF nz assms(3)]) (use assms(4) in simp_all)
  show "fat16_find_file_entry io junk cmp ctx path (m, w) = None"
    using frag by (auto simp: fat16_find_file_entry_def Let_def find_file_entry_loop.simps bind_eq_None_conv)
  obtain w' where "fat16_read_cluster io ctx (root_cluster ctx 0) (ctx_buffer ctx) (m, w) =
      Some (SYS_RET_NO_ERROR, place (ctx_buffer ctx) (csize ctx) (cluster_byte ctx (sector w) (root_cluster ctx 0)) m, w')"
    using read_cluster_eq [OF assms(1,6)] by blast
  then show "\<exists>r. fat16_read_root_dir io ctx (ctx_buffer ctx) (cluster_size ctx div 32) 0 (m, w) = Some (SYS_RET_NO_ERROR, r)"
    using per_cluster by (auto simp: fat16_read_root_dir_def fat16_read_directory_def root_cluster_def)
qed

end

lemma strncmp_second:
  assumes "m s = m t" "m s \<noteq> 0" "m (s + 1) \<noteq> m (t + 1)" "2 \<le> unat n"
  shows "kaos_strncmp m s t n \<noteq> 0"
proof -
  obtain k where "unat n = Suc (Suc k)" using assms(4) by (metis Suc_le_D numeral_2_eq_2 Suc_le_mono)
  then show ?thesis using assms(1-3) by (auto simp: kaos_strncmp_def dest: signed_word_eqI)
qed

lemma fopen_long:
  assumes "mounted_disk (env_io env) (std_fs s) ready sector" "ready (std_ports s)" "names_ok env (std_mem s)"
    and "buddy_allocator__alloc sizeof_FILE (std_buddy s) = Some (SYS_RET_NO_ERROR, Some fp, b)"
    and "cstring_at (std_mem s) path (chr CHR ''/'' # nm)" "chr CHR ''/'' \<notin> set nm" "hd nm \<noteq> chr CHR ''d''" "11 \<le> length nm" "length nm \<le> 1000"
    and "cluster_on_disk (std_fs s) (root_cluster (std_fs s) 0)"
  shows "kaos_fopen env path s = None"
proof -
  have nm: "nm \<noteq> []" using assms(8) by auto
  have at: "std_mem s path = chr CHR ''/''" "std_mem s (path + 1) = hd nm"
    using assms(5) nm by (cases nm; simp)+
  have ns: "kaos_strncmp (std_mem s) p path n \<noteq> 0" if "cstring_at (std_mem s) p (chr CHR ''/'' # chr CHR ''d'' # ys)" "2 \<le> unat n" for p ys n
    by (rule strncmp_second [OF _ _ _ that(2)]) (use that(1) at assms(7) in \<open>auto simp: chr_def\<close>)
  note names = assms(3) [unfolded names_ok_def list.map]
  have "kaos_strncmp (std_mem s) (env_lit env ''/dev/stdin'') path 11 \<noteq> 0" by (rule ns [OF conjunct1 [OF names]]) simp
  moreover have "kaos_strncmp (std_mem s) (env_lit env ''/dev/stdout'') path 12 \<noteq> 0" by (rule ns [OF conjunct1 [OF conjunct2 [OF names]]]) simp
  moreover have "kaos_strncmp (std_mem s) (env_lit env ''/dev/stderr'') path 12 \<noteq> 0" by (rule ns [OF conjunct2 [OF conjunct2 [OF names]]]) simp
  moreover have "fat16_find_file_entry (env_io env) (env_junk env) (env_cmp env) (std_fs s) path (std_mem s, std_ports s) = None"
    by (rule mounted_disk.find_file_long(3) [OF assms(1,2,5,6,8,9,10)])
  ultimately show ?thesis unfolding kaos_fopen_def by (simp add: assms(4))
qed

text \<open>The literals that the start of the program refers to.\<close>

definition start_literals :: "string set" where
  "start_literals = {''Loading elf file\<newline>'', ''/EXAMPLE.ELF'', ''/dev/stdin'', ''/dev/stdout'', ''/dev/stderr''}"

lemma start_literals:
  "''Loading elf file\<newline>'' \<in> start_literals" "''/EXAMPLE.ELF'' \<in> start_literals" "''/dev/stdin'' \<in> start_literals"
  "''/dev/stdout'' \<in> start_literals" "''/dev/stderr'' \<in> start_literals"
  unfolding start_literals_def by (simp_all only: insert_iff simp_thms)

end
