(* ===== verification/Spec2Isabelle.thy ===== *)
theory Spec2Isabelle
  imports Proc Ext2Format UserLibc Boot
begin

text \<open>
  \<^bold>\<open>KaracaOS.\<close> KaracaOS is a small operating system for i686 computers, written in C. This development models its
  kernel and the library of its programs as functions on explicit states, and proves what they do.

  \<^bold>\<open>The program.\<close> The boot loader starts \<^verbatim>\<open>kmain\<close> (\<^verbatim>\<open>src/kernel/main.c\<close>). It initialises the console, the page
  memory manager with the page tables, the interrupts, the allocator of blocks, the standard streams, the keyboard and
  the file system, and then runs \<^verbatim>\<open>my_main\<close> (\<^verbatim>\<open>src/kernel/test.c\<close>), which reads an executable file from the disk,
  loads it and calls it. The program, which is linked with \<^verbatim>\<open>src/libc\<close>, reaches the kernel by \<^verbatim>\<open>int $0x80\<close>.

  \<^bold>\<open>How C is modelled.\<close> \<open>Prelude\<close> fixes the vocabulary. An integer of \<^verbatim>\<open>stdint.h\<close> is a word of its width and wraps
  around; a structure is a record, an enumeration a datatype or a word constant; an array is a function of its index,
  and the definition that accesses it says what happens outside its bounds. Byte memory is a function from 32-bit
  addresses to bytes (\<open>mem\<close> of \<open>CString\<close>). A result of type \<open>option\<close> is \<open>None\<close> where the code leaves defined
  behaviour or does not return; loops without an evident bound are \<open>partial_function (option)\<close>, so that a theorem with
  \<open>Some\<close> on its left-hand side includes that the code returns; where the two have to be told apart, an access out of bounds is an
  error value (\<open>Proc\<close>). No definition uses fuel. Status codes are \<open>SYS_RET\<close>. One exception: \<^verbatim>\<open>block_dev_read\<close> and
  \<^verbatim>\<open>block_dev_write\<close> have no return statement, and the model gives their callers the driver's status, which the call that they end with
  leaves in the result register.
  What variables hold before they are set, the addresses of local arrays and of string literals, and the behaviour of
  the ports are parameters.

  \<^bold>\<open>Theories, in the order of the code's layers.\<close>

  \<^item> \<open>Prelude\<close>, \<open>Bitmap\<close>: words, arrays filled by loops, pages; bitmaps in byte arrays. \<open>Prelude\<close> also holds
    \<^verbatim>\<open>sysdefs.h\<close>.
  \<^item> \<open>Paging\<close>: \<^verbatim>\<open>arch/i686/paging/paging.c\<close>. The page directory and the tables as arrays of entries at their
    physical addresses; \<open>mmu_walk\<close> is the processor's translation, which reads the directory entry, follows the address of the table
    in it and reads the entry there. The tables built at boot translate exactly what they should, and mapping
    or unmapping a page changes the translation of that page only.
  \<^item> \<open>Mm\<close>: \<^verbatim>\<open>mm/mm.c\<close>. Every operation, \<^verbatim>\<open>mm_init\<close> with the memory map of \<^verbatim>\<open>multiboot.h\<close> included. Sequences of
    allocations and releases are the step relation \<open>mm_step\<close>, and pages handed out are never translated to one frame
    in a reachable state.
  \<^item> \<open>BinaryTree\<close>: \<^verbatim>\<open>tree/tree.c\<close> on a heap of nodes, refined to trees of the library.
  \<^item> \<open>BlockTree\<close>, \<open>Buddy\<close>: \<^verbatim>\<open>mm/buddy_allocator.c\<close> on the arena of nodes, and the abstract allocator on trees of
    blocks that it implements. The blocks in use are disjoint, and a block is large enough unless the request is a power
    of two.
  \<^item> \<open>CString\<close>, \<open>Sprintf\<close>, \<open>Format\<close>: \<^verbatim>\<open>libc/string/*.c\<close> and \<^verbatim>\<open>libc/stdio/sprintf.c\<close>, with a reference renderer of
    formats that the interpreter is proved equal to. The files of the same names in \<^verbatim>\<open>src/libc\<close> repeat the kernel's and
    are the same definitions here.
  \<^item> \<open>Tty\<close>: \<^verbatim>\<open>tty/tty.c\<close>, \<^verbatim>\<open>arch/i686/vga_text.c\<close> and \<^verbatim>\<open>kaos_preboot_printf\<close>; the array of cells is refined to a list
    of rows with a cursor (\<open>console\<close>, \<open>put\<close>).
  \<^item> \<open>PortIo\<close>, \<open>Interrupts\<close>, \<open>Keyboard\<close>, \<open>Pci\<close>: the ports, the descriptor table and the interrupt controllers with the
    dispatch to handlers, the decoder of scan codes with the echo, and the configuration space.
  \<^item> \<open>Ide\<close>: \<^verbatim>\<open>dev/ide.c\<close>, \<^verbatim>\<open>arch/i686/dev/ide/ide.c\<close>, \<^verbatim>\<open>dev/block_dev.c\<close>. The driver against a drive that follows the
    ATA protocol (sector count, drive and kind of address, errors) and may be busy any finite number of polls.
  \<^item> \<open>Fat16\<close>, \<open>Fat16Paths\<close>: \<^verbatim>\<open>fs/fat16_read.c\<close>. Chains of clusters, contents of files, directories and paths, in terms
    of the bytes of the disk.
  \<^item> \<open>Ext2\<close>, \<open>Ext2Disk\<close>, \<open>Ext2Dirs\<close>, \<open>Ext2Format\<close>: \<^verbatim>\<open>fs/ext2.c\<close>. All operations; mounting, inodes and the
    allocation of blocks and inodes are proved in terms of the bytes of the disk. In \<open>Ext2Dirs\<close> a disk shows directories, as lists of entries,
    and numbers of links (\<open>shows_dirs\<close>), and adding a link is a step on them; in \<open>Ext2Format\<close> so is making a directory, and
    the root directory and \<^verbatim>\<open>lost+found\<close> of a new file system follow.
  \<^item> \<open>Stdio\<close>, \<open>Elf\<close>: files, streams and system calls (\<^verbatim>\<open>libc/stdio\<close>, \<^verbatim>\<open>syscall/syscall.c\<close>) on the console, the
    allocator and the FAT16 reader; the loader of executable files (\<^verbatim>\<open>elf\<close>) on top of them.
  \<^item> \<open>Proc\<close>: \<^verbatim>\<open>proc/proc.c\<close>, the numbering of processes.
  \<^item> \<open>Fscontext\<close>, \<open>Kernel\<close>, \<open>UserLibc\<close>: \<^verbatim>\<open>fs/fscontext.c\<close>; \<^verbatim>\<open>main.c\<close> and \<^verbatim>\<open>test.c\<close> on the state of the whole machine;
    the library of programs and \<^verbatim>\<open>src/example/example.c\<close>, from \<^verbatim>\<open>printf\<close> over the interrupt and the dispatch of the
    system call to the console.
  \<^item> \<open>Boot\<close> and this theory: the start across the components. Requests of several pages, the frames of the
    kernel's stack and of the allocator's arena after \<^verbatim>\<open>kmain\<close>'s initialisation, and what \<^verbatim>\<open>my_main\<close> does with the path of
    the program that it starts.

  \<^bold>\<open>Interfaces.\<close> The components rely on each other through locales, each interpreted on the model's definitions:
  \<open>bitmap_ops\<close> (frames and pages in \<open>Mm\<close>, inodes in \<open>Ext2Disk\<close>), \<open>address_space\<close> (the page tables, for
  \<open>Mm\<close>), \<open>compare_order\<close> (the comparison of a tree), \<open>good_disk\<close> (reads and writes of sectors, provided by \<open>Ide\<close>),
  extended to \<open>mounted_disk\<close> for FAT16 and to \<open>block_disk\<close> for ext2, \<open>host_bridge\<close> (the ports of the configuration
  space) and \<open>syscall_gate\<close> (what \<^verbatim>\<open>int $0x80\<close> does for a program, provided by \<open>Kernel\<close>).

  \<^bold>\<open>Flaws of the code.\<close> The model keeps the code's errors, and several theorems state them exactly: requests of several
  pages alias frames, so that the kernel's stack and the allocator's arena share theirs, the path of the program that
  the kernel starts does not fit its array, the blocks of new directories are not cleared, release of blocks serves only the address of the whole range, requests of a power of two get one page, deletion in trees
  loses nodes, keys with a prefix are decoded wrongly, a missing file in a subdirectory is found, a read writes behind the
  file's bytes, the search for a free inode leaves its table, and a machine without a controller is not noticed.

  \<^bold>\<open>Not modelled.\<close> The assembly code (\<^verbatim>\<open>boot.S\<close>, \<^verbatim>\<open>int_handlers.S\<close>, \<^verbatim>\<open>crt0.S\<close>, \<^verbatim>\<open>crti.S\<close>, \<^verbatim>\<open>crtn.S\<close>) and the linker
  scripts, but for the address of the page directory: the entry points are addresses and the saved registers are arguments. The progress messages of \<^verbatim>\<open>mm_init\<close>, of
  the disk driver, the FAT16 reader and ext2, which go to the console; no theorem says what is on the screen after these. The fields of
  \<^verbatim>\<open>multiboot.h\<close> that the kernel does not read. Nested interrupts: a handler runs to its end, as the gates disable interrupts. The files under \<^verbatim>\<open>src\<close> that build and start the system.

  \<^bold>\<open>What is left.\<close> Theorems about the initialisation of the file system on a machine with a disk and about the tables
  that formatting an ext2 file system writes, whose definitions are here. A run of \<^verbatim>\<open>my_main\<close> to its end has none, as
  the code leaves the language's rules before it opens the program.
\<close>

section \<open>Properties of the start of the kernel\<close>

text \<open>
  C4: the kernel's stack and the allocator's arena share frames. \<^verbatim>\<open>kmain\<close> initialises the memory and
  requests 16 pages for its stack; then the interrupts and the allocator are initialised. When the 16 lowest free
  frames follow each other, all this returns without an error, and the processor translates 15 of the 16 pages
  of the stack and the first 15 pages of the arena, in order, to the same frames. What is on the screen is left open: the messages
  of \<^verbatim>\<open>mm_init\<close> are not modelled.
\<close>

theorem kernel_stack_shares_frames:
  assumes "mm_boot ps (buddy_mm (std_buddy (int_ports s)))"
    and "mm_init info entry_at (buddy_mm (std_buddy (int_ports s))) = Some (SYS_RET_NO_ERROR, m)"
    and "lowest_free m f" "unat f + 16 \<le> 1048576" "\<forall>k<16. \<not> ISALLOCATED_PAGE m (f + of_nat k)" "5121 \<le> card (free_frames m)"
    and "buddy_nodes (std_buddy (int_ports s)) = Map.empty" "\<not> vga_tty_initialized (int_tty s)"
    and "cstring_at (std_mem (int_ports s)) (env_lit (k_files env) banner) (map chr banner)"
  shows "\<exists>s1 s2 b. kmain_memory env info entry_at s = Some s1 \<and> kmain_interrupts env s1 = Some s2 \<and>
     buddy_allocator__init (std_buddy (files s2)) = Some (SYS_RET_NO_ERROR, b) \<and>
     (\<forall>k<15. mmu_walk (mm_paging (buddy_mm b)) (0xCFF01000 + of_nat k * 4096) = Some ((f + 1 + of_nat k) * 4096) \<and>
        mmu_walk (mm_paging (buddy_mm b)) (0xC8000000 + of_nat k * 4096) = Some ((f + 1 + of_nat k) * 4096))"
proof -
  have low: "lowest_free m (of_nat (unat f))" using assms(3) by simp
  define m' where "m' = VM_ALLOC_PAGE 851712 (ALLOC_PAGE (of_nat (unat f)) (m\<lparr>mm_paging := snd (map_run 851712 (unat f) 16 (mm_paging m))\<rparr>))"
  note mem = kmain_memory_eq [OF assms(1,2) low assms(4,9,8), folded m'_def]
  obtain t M where s1: "kmain_memory env info entry_at s = Some (with_files ((int_ports s)\<lparr>std_tty := t,
        std_buddy := (std_buddy (int_ports s))\<lparr>buddy_mm := m'\<rparr>, std_mem := M\<rparr>) s)"
    using mem(1) by blast
  obtain s2 w where s2: "kmain_interrupts env (with_files ((int_ports s)\<lparr>std_tty := t,
        std_buddy := (std_buddy (int_ports s))\<lparr>buddy_mm := m'\<rparr>, std_mem := M\<rparr>) s) = Some s2"
      "std_buddy (files s2) = (std_buddy (int_ports s))\<lparr>buddy_mm := m'\<rparr>"
    using kmain_interrupts_eq [of env "with_files ((int_ports s)\<lparr>std_tty := t,
        std_buddy := (std_buddy (int_ports s))\<lparr>buddy_mm := m'\<rparr>, std_mem := M\<rparr>) s"] by (auto simp: with_files_def files_def)
  have "\<not> ISALLOCATED_PAGE m g" if "unat f \<le> unat g" "unat g < unat f + 16" for g
  proof -
    have "unat g - unat f < 16" "g = f + of_nat (unat g - unat f)" using that by (simp_all add: of_nat_diff)
    then show ?thesis using assms(5) by metis
  qed
  from kmain_arena [OF mem(3,4) low assms(4) this assms(6,7) m'_def mem(2)] obtain b where
    b: "buddy_allocator__init ((std_buddy (int_ports s))\<lparr>buddy_mm := m'\<rparr>) = Some (SYS_RET_NO_ERROR, b)"
      "\<forall>k<15. mmu_walk (mm_paging (buddy_mm b)) (of_nat (851713 + k) * 4096) = Some (of_nat (Suc (unat f) + k) * 4096) \<and>
        mmu_walk (mm_paging (buddy_mm b)) (of_nat (819200 + k) * 4096) = Some (of_nat (Suc (unat f) + k) * 4096)" by blast
  have "(of_nat (851713 + k) * 4096 :: u32) = 0xCFF01000 + of_nat k * 4096" "(of_nat (819200 + k) * 4096 :: u32) = 0xC8000000 + of_nat k * 4096"
    "(of_nat (Suc (unat f) + k) :: u32) = f + 1 + of_nat k" for k by (simp_all add: algebra_simps)
  with b(2) have "\<forall>k<15. mmu_walk (mm_paging (buddy_mm b)) (0xCFF01000 + of_nat k * 4096) = Some ((f + 1 + of_nat k) * 4096) \<and>
        mmu_walk (mm_paging (buddy_mm b)) (0xC8000000 + of_nat k * 4096) = Some ((f + 1 + of_nat k) * 4096)" by simp
  with s1 s2 b(1) show ?thesis by auto
qed

text \<open>
  C22: the program that the kernel starts is never loaded as the language says. With the disk mounted, the streams open and
  room for a \<^verbatim>\<open>FILE\<close>, \<^verbatim>\<open>my_main\<close> prints its message and reads the root directory; then the name \<^verbatim>\<open>EXAMPLE.ELF\<close>, which
  has eleven characters, makes \<^verbatim>\<open>fat16_find_file_entry\<close> write the end mark of its component behind the array of twelve.
\<close>

theorem my_main_overruns_path:
  assumes "good_disk (env_io e) (ctx_device fs) ready sector" "sectorSize (ctx_device fs) = 512" "0 < spc fs" "cluster_on_disk fs (root_cluster fs 0)"
    and "e = k_files env" "f = files s" "fs = std_fs f" "ready (std_ports f)"
    and "buddy_allocator__alloc sizeof_FILE (std_buddy f) = Some (SYS_RET_NO_ERROR, Some fp, b)"
    and "tty_ok (std_tty f)" "console_stream e (std_mem f) (kaos_stdout f)"
    and "\<forall>l \<in> start_literals. text_at e (std_mem f) (env_lit e l) (map chr l)"
  shows "my_main env s = None \<and> (\<exists>f1 r. print_message e ''Loading elf file\<newline>'' f = Some f1 \<and>
     fat16_read_root_dir (env_io e) fs (ctx_buffer fs) (cluster_size fs div 32) 0 (std_mem f1, std_ports f1) = Some (SYS_RET_NO_ERROR, r) \<and>
     read_fragment (path_copy (std_mem f1) (env_lit e ''/EXAMPLE.ELF'')) 0 (replicate 11 space @ [0]) = None)"
proof -
  let ?msg = "''Loading elf file\<newline>''" and ?nm = "map chr ''EXAMPLE.ELF''"
  have mounted: "mounted_disk (env_io e) fs ready sector"
    using assms(1-3) by (auto intro!: mounted_disk.intro mounted_disk_axioms.intro)
  have msg: "0x25 \<notin> set (map chr ?msg)" "0x08 \<notin> set (map chr ?msg)" "length ?msg < 4096" by code_simp+
  have nm: "chr CHR ''/'' \<notin> set ?nm" "hd ?nm \<noteq> chr CHR ''d''" "11 \<le> length ?nm" "length ?nm \<le> 1000" by code_simp+
  have lit: "text_at e (std_mem f) (env_lit e ?msg) (map chr ?msg)" using assms(12) start_literals(1) by (rule bspec)
  from print_message_prints [OF lit msg assms(10,11)] obtain m t where
    f1: "print_message e ?msg f = Some (f\<lparr>std_mem := m, std_tty := t\<rparr>)" and keep: "same_outside e (std_mem f) m" by blast
  have lits: "cstring_at m (env_lit e l) (map chr l)" if "l \<in> start_literals" for l
    using same_outside_text [OF keep bspec [OF assms(12) that]] unfolding text_at_def by (rule conjunct1)
  have path: "cstring_at m (env_lit e ''/EXAMPLE.ELF'') (chr CHR ''/'' # ?nm)" using lits [OF start_literals(2)] by (simp only: list.map)
  have names: "names_ok e m" unfolding names_ok_def by (intro conjI lits start_literals)
  have sel: "std_mem (f\<lparr>std_mem := m, std_tty := t\<rparr>) = m" "std_fs (f\<lparr>std_mem := m, std_tty := t\<rparr>) = fs"
    "std_ports (f\<lparr>std_mem := m, std_tty := t\<rparr>) = std_ports f" "std_buddy (f\<lparr>std_mem := m, std_tty := t\<rparr>) = std_buddy f"
    by (simp_all add: assms(7))
  note long = mounted_disk.find_file_long [OF mounted assms(8) path nm(1,3,4) assms(4)]
  have "kaos_fopen e (env_lit e ''/EXAMPLE.ELF'') (f\<lparr>std_mem := m, std_tty := t\<rparr>) = None"
    by (rule fopen_long [where ready = ready and sector = sector and nm = ?nm], unfold sel)
      (rule mounted assms(8) names assms(9) path nm assms(4))+
  then have "my_main env s = None"
    using f1 by (simp add: my_main_def on_files_def load_example_def assms(5,6) [symmetric])
  then show ?thesis using f1 long(1,2) by auto
qed

section \<open>A machine at its start\<close>

definition start_lit :: "string \<Rightarrow> u32" where
  "start_lit l = (if l = ''Loading elf file\<newline>'' then 0x3100 else if l = ''/EXAMPLE.ELF'' then 0x3200 else if l = ''/dev/stdin'' then 0x3300
     else if l = ''/dev/stdout'' then 0x3400 else if l = ''/dev/stderr'' then 0x3500 else 0x3000)"

definition start_mem :: mem where
  "start_mem = store_bytes 0x3000 (map chr banner @ [0]) (store_bytes 0x3100 (map chr ''Loading elf file\<newline>'' @ [0])
     (store_bytes 0x3200 (map chr ''/EXAMPLE.ELF'' @ [0]) (store_bytes 0x3300 (map chr ''/dev/stdin'' @ [0])
     (store_bytes 0x3400 (map chr ''/dev/stdout'' @ [0]) (store_bytes 0x3500 (map chr ''/dev/stderr'' @ [0]) (store32 0x4030 1 (\<lambda>_. 0)))))))"

definition start_kernel :: "ata_drive kernel_env" where
  "start_kernel = example_kernel\<lparr>k_files := note_env\<lparr>env_lit := start_lit\<rparr>\<rparr>"

definition start_machine :: "tty_state \<Rightarrow> buddy_state \<Rightarrow> (kernel_handler, ata_drive) machine" where
  "start_machine t b = \<lparr>idtEntries = (\<lambda>_. \<lparr>offset1 = 0, selector = 0, gate_reserved = 0, gate_flags = 0, offset2 = 0\<rparr>),
     idtInfo = \<lparr>idt_size = 0, idt_offset = 0\<rparr>, intHandler_set = False, syscall_handler_set = False, intHandlers = (\<lambda>_. None),
     interrupt_flag = False, int_tty = t, int_ports = (note_state b)\<lparr>std_mem := start_mem\<rparr>\<rparr>"

lemma start_lengths:
  "length (map chr banner @ [0]) = 24" "length (map chr ''Loading elf file\<newline>'' @ [0]) = 18" "length (map chr ''/EXAMPLE.ELF'' @ [0]) = 13"
  "length (map chr ''/dev/stdin'' @ [0]) = 11" "length (map chr ''/dev/stdout'' @ [0]) = 12" "length (map chr ''/dev/stderr'' @ [0]) = 12"
  "length (map chr banner) = 23" "length (map chr ''Loading elf file\<newline>'') = 17" "length (map chr ''/EXAMPLE.ELF'') = 12"
  "length (map chr ''/dev/stdin'') = 10" "length (map chr ''/dev/stdout'') = 11" "length (map chr ''/dev/stderr'') = 11"
  unfolding banner_def by code_simp+

lemma start_strings:
  "cstring_at start_mem 0x3000 (map chr banner)" "cstring_at start_mem 0x3100 (map chr ''Loading elf file\<newline>'')"
  "cstring_at start_mem 0x3200 (map chr ''/EXAMPLE.ELF'')" "cstring_at start_mem 0x3300 (map chr ''/dev/stdin'')"
  "cstring_at start_mem 0x3400 (map chr ''/dev/stdout'')" "cstring_at start_mem 0x3500 (map chr ''/dev/stderr'')"
  "load32 start_mem 0x4030 = 1"
proof -
  have nz: "0 \<notin> set (map chr banner)" "0 \<notin> set (map chr ''Loading elf file\<newline>'')" "0 \<notin> set (map chr ''/EXAMPLE.ELF'')"
    "0 \<notin> set (map chr ''/dev/stdin'')" "0 \<notin> set (map chr ''/dev/stdout'')" "0 \<notin> set (map chr ''/dev/stderr'')"
    unfolding banner_def by code_simp+
  note rules = store_string store_string_other no_overlap_apart
  show "cstring_at start_mem 0x3000 (map chr banner)" unfolding start_mem_def by (intro rules nz) (unfold start_lengths, simp_all)
  show "cstring_at start_mem 0x3100 (map chr ''Loading elf file\<newline>'')" unfolding start_mem_def by (intro rules nz) (unfold start_lengths, simp_all)
  show "cstring_at start_mem 0x3200 (map chr ''/EXAMPLE.ELF'')" unfolding start_mem_def by (intro rules nz) (unfold start_lengths, simp_all)
  show "cstring_at start_mem 0x3300 (map chr ''/dev/stdin'')" unfolding start_mem_def by (intro rules nz) (unfold start_lengths, simp_all)
  show "cstring_at start_mem 0x3400 (map chr ''/dev/stdout'')" unfolding start_mem_def by (intro rules nz) (unfold start_lengths, simp_all)
  show "cstring_at start_mem 0x3500 (map chr ''/dev/stderr'')" unfolding start_mem_def by (intro rules nz) (unfold start_lengths, simp_all)
  show "load32 start_mem 0x4030 = 1"
    unfolding start_mem_def by (subst load32_store_other, unfold start_lengths, simp add: no_overlap_apart)+ simp
qed

lemma start_sel:
  "k_files start_kernel = note_env\<lparr>env_lit := start_lit\<rparr>" "env_lit (note_env\<lparr>env_lit := start_lit\<rparr>) = start_lit"
  "env_io (note_env\<lparr>env_lit := start_lit\<rparr>) = drive_io" "env_buffer (note_env\<lparr>env_lit := start_lit\<rparr>) = 0x8000"
  "std_mem (files (start_machine t b)) = start_mem" "std_ports (files (start_machine t b)) = drive_of note_bytes"
  "std_fs (files (start_machine t b)) = small_context" "std_buddy (files (start_machine t b)) = b" "std_tty (files (start_machine t b)) = t"
  "kaos_stdout (files (start_machine t b)) = 0x4000" "int_tty (start_machine t b) = t"
  "std_mem (int_ports (start_machine t b)) = start_mem" "std_buddy (int_ports (start_machine t b)) = b"
  by (simp_all add: start_kernel_def start_machine_def files_def note_env_def note_state_def example_kernel_def)

lemma start_lits: "start_lit banner = 0x3000" "start_lit ''Loading elf file\<newline>'' = 0x3100" "start_lit ''/EXAMPLE.ELF'' = 0x3200"
  "start_lit ''/dev/stdin'' = 0x3300" "start_lit ''/dev/stdout'' = 0x3400" "start_lit ''/dev/stderr'' = 0x3500"
  unfolding start_lit_def banner_def by code_simp+

lemma start_texts: "l \<in> start_literals \<Longrightarrow> text_at (note_env\<lparr>env_lit := start_lit\<rparr>) start_mem (start_lit l) (map chr l)"
  unfolding start_literals_def
  by (elim insertE emptyE) (simp_all only: start_lits text_at_def start_strings start_sel start_lengths simp_thms, simp_all add: no_overlap_apart)

theorem my_main_overruns_path_witness:
  "\<exists>b f1. my_main start_kernel (start_machine boot_console b) = None \<and>
     print_message (note_env\<lparr>env_lit := start_lit\<rparr>) ''Loading elf file\<newline>'' (files (start_machine boot_console b)) = Some f1"
proof -
  obtain b b' where al: "buddy_allocator__alloc sizeof_FILE b = Some (SYS_RET_NO_ERROR, Some 0x10000000, b')" using file_room by blast
  let ?e = "note_env\<lparr>env_lit := start_lit\<rparr>" and ?s = "start_machine boot_console b"
  have disk: "cluster_on_disk small_context (root_cluster small_context 0)" using note_entry(1) by (simp add: root_stop_def)
  have out: "console_stream ?e start_mem 0x4000"
    using start_strings(7) by (simp add: console_stream_def get_fileno_def start_sel no_overlap_apart)
  have "my_main start_kernel ?s = None \<and> (\<exists>f1 r. print_message ?e ''Loading elf file\<newline>'' (files ?s) = Some f1 \<and>
     fat16_read_root_dir (env_io ?e) small_context (ctx_buffer small_context) (cluster_size small_context div 32) 0 (std_mem f1, std_ports f1) =
       Some (SYS_RET_NO_ERROR, r) \<and>
     read_fragment (path_copy (std_mem f1) (env_lit ?e ''/EXAMPLE.ELF'')) 0 (replicate 11 space @ [0]) = None)"
    by (rule my_main_overruns_path [where ready = drive_ready and sector = sector_byte and b = b' and fp = "0x10000000"])
      (unfold start_sel, (rule small_disk_laws(1-3) disk refl drive_of_simps(1) al boot_console_ok(1) out ballI start_texts | assumption)+)
  then show ?thesis by blast
qed

definition raw_console :: tty_state where
  "raw_console = \<lparr>handle = \<lparr>width = 0, height = 0, cursorx = 0, cursory = 0, color = 0\<rparr>, cells = (\<lambda>_. 0), vga_tty_initialized = False\<rparr>"

definition boot_buddy :: buddy_state where
  "boot_buddy = \<lparr>buddy_mm = boot_state, buddy_headers = (\<lambda>_. \<lparr>chunk_used = False, chunk_size = 0\<rparr>),
     buddy_nodes = Map.empty, buddy_infos = (\<lambda>_. \<lparr>vaddr = 0, info_len = 0, is_allocated = False\<rparr>), buddy_root = 0\<rparr>"

theorem kernel_stack_shares_frames_witness:
  "\<exists>s1 s2 b. kmain_memory start_kernel boot_info boot_entry_at (start_machine raw_console boot_buddy) = Some s1 \<and>
     kmain_interrupts start_kernel s1 = Some s2 \<and> buddy_allocator__init (std_buddy (files s2)) = Some (SYS_RET_NO_ERROR, b) \<and>
     mmu_walk (mm_paging (buddy_mm b)) 0xCFF01000 = Some 0x4001000 \<and> mmu_walk (mm_paging (buddy_mm b)) 0xC8000000 = Some 0x4001000"
proof -
  obtain m where init: "mm_init boot_info boot_entry_at boot_state = Some (SYS_RET_NO_ERROR, m)"
    and used: "\<forall>f. unat f < 1048576 \<longrightarrow> ISALLOCATED_PAGE m f = (unat f < 16384 \<or> 49160 \<le> unat f)" using boot_run by blast
  let ?s = "start_machine raw_console boot_buddy"
  have mm: "buddy_mm (std_buddy (int_ports ?s)) = boot_state" "buddy_nodes (std_buddy (int_ports ?s)) = Map.empty"
    by (simp_all add: start_sel boot_buddy_def)
  have boot: "mm_boot \<lparr>page_dir = (\<lambda>_. 0), page_tables = (\<lambda>_. 0), other_memory = (\<lambda>_. 0), invlpg_log = []\<rparr> (buddy_mm (std_buddy (int_ports ?s)))"
    unfolding mm by (simp add: mm_boot_def boot_state_def)
  have low: "lowest_free m 16384" using boot_lowest [OF used [rule_format]] by simp
  have room: "5121 \<le> card (free_frames m)" using boot_frames [OF used [rule_format]] by simp
  have run: "\<forall>k<16. \<not> ISALLOCATED_PAGE m (16384 + of_nat k)"
  proof (intro allI impI)
    fix k :: nat assume "k < 16"
    then have "unat (16384 + of_nat k :: u32) = 16384 + k" using unat_of_nat_u32 [of "16384 + k"] by simp
    with used \<open>k < 16\<close> show "\<not> ISALLOCATED_PAGE m (16384 + of_nat k)" by simp
  qed
  have raw: "\<not> vga_tty_initialized (int_tty ?s)" by (simp add: start_sel raw_console_def)
  have text1: "cstring_at (std_mem (int_ports ?s)) (env_lit (k_files start_kernel) banner) (map chr banner)"
    unfolding start_sel start_lits by (rule start_strings(1))
  have "\<exists>s1 s2 b. kmain_memory start_kernel boot_info boot_entry_at ?s = Some s1 \<and> kmain_interrupts start_kernel s1 = Some s2 \<and>
     buddy_allocator__init (std_buddy (files s2)) = Some (SYS_RET_NO_ERROR, b) \<and>
     (\<forall>k<15. mmu_walk (mm_paging (buddy_mm b)) (0xCFF01000 + of_nat k * 4096) = Some ((16384 + 1 + of_nat k) * 4096) \<and>
        mmu_walk (mm_paging (buddy_mm b)) (0xC8000000 + of_nat k * 4096) = Some ((16384 + 1 + of_nat k) * 4096))"
    by (rule kernel_stack_shares_frames [OF boot init [folded mm(1)] low _ run room mm(2) raw text1]) simp
  then obtain s1 s2 b where "kmain_memory start_kernel boot_info boot_entry_at ?s = Some s1" "kmain_interrupts start_kernel s1 = Some s2"
      "buddy_allocator__init (std_buddy (files s2)) = Some (SYS_RET_NO_ERROR, b)"
      and w: "\<forall>k<15. mmu_walk (mm_paging (buddy_mm b)) (0xCFF01000 + of_nat k * 4096) = Some ((16384 + 1 + of_nat k) * 4096) \<and>
        mmu_walk (mm_paging (buddy_mm b)) (0xC8000000 + of_nat k * 4096) = Some ((16384 + 1 + of_nat k) * 4096)" by blast
  moreover have "mmu_walk (mm_paging (buddy_mm b)) 0xCFF01000 = Some 0x4001000" "mmu_walk (mm_paging (buddy_mm b)) 0xC8000000 = Some 0x4001000"
    using w [rule_format, of 0] by simp_all
  ultimately show ?thesis by blast
qed

end
